(* ===== verification/Chfs_Prelude.thy ===== *)
theory Chfs_Prelude
  imports Main "HOL-Library.Word" "HOL-Library.Monad_Syntax" "HOL-Library.Code_Target_Nat"
begin

text \<open>
  The vocabulary every component shares.

  \<^item> Machine integers. A byte is an \<open>8 word\<close>. The wider unsigned integers
    (\<open>usize\<close> is a 32-bit \<open>unsigned int\<close>, \<open>block_id_t\<close> and \<open>inode_id_t\<close> are 64-bit)
    are \<open>nat\<close> with the wrap-around written out by \<open>u32\<close> and \<open>u64\<close> at the places
    where the C++ expression has that width (src/chfs/src/include/common/config.h).
  \<^item> Results. \<open>chfs_result\<close> is \<open>ChfsResult<T>\<close>: a value or an \<open>ErrorType\<close>.
  \<^item> Crashes. An operation returns an \<open>option\<close>: \<open>None\<close> is a run that aborts or has
    undefined behaviour (a failed \<open>CHFS_ASSERT\<close> or \<open>CHFS_VERIFY\<close>, an uncaught
    exception of \<open>unwrap\<close>, a memory access outside its buffer). A theorem that an
    operation is \<open>Some r\<close> therefore says that it returns \<open>r\<close> and touches no memory
    outside its buffers.
  \<^item> Buffers. \<open>peek\<close> and \<open>poke\<close> are \<open>memcpy\<close> out of and into a buffer, \<open>get_le\<close> and
    \<open>put_le\<close> are the little-endian loads and stores that a \<open>reinterpret_cast\<close> of the
    buffer performs.
\<close>

unbundle bit_operations_syntax

named_theorems buf_simps \<open>reading a buffer after writing it\<close>
named_theorems wrap_simps \<open>wrap-around that does not happen\<close>
named_theorems dev_simps \<open>reading a device after writing it\<close>

section \<open>Errors and results\<close>

datatype error_type =
    DONE
  | INVALID_ARG
  | OUT_OF_RESOURCE
  | INVALID
  | NotExist
  | AlreadyExist
  | NotEmpty
  | RpcTimeout
  | BadResponse
  | NotPermitted

datatype 'a chfs_result = Ok 'a | Err error_type

type_synonym null_result = "unit chfs_result"

abbreviation KNullOk :: null_result where
  "KNullOk \<equiv> Ok ()"

fun is_ok :: "'a chfs_result \<Rightarrow> bool" where
  "is_ok (Ok _) = True"
| "is_ok (Err _) = False"

fun is_err :: "'a chfs_result \<Rightarrow> bool" where
  "is_err (Ok _) = False"
| "is_err (Err _) = True"

text \<open>\<open>unwrap\<close> on an error and \<open>unwrap_error\<close> on a value throw a \<open>std::runtime_error\<close>.\<close>

fun unwrap :: "'a chfs_result \<Rightarrow> 'a option" where
  "unwrap (Ok v) = Some v"
| "unwrap (Err _) = None"

fun unwrap_error :: "'a chfs_result \<Rightarrow> error_type option" where
  "unwrap_error (Ok _) = None"
| "unwrap_error (Err e) = Some e"

text \<open>\<open>CHFS_ASSERT\<close> and \<open>CHFS_VERIFY\<close>: go on or abort.\<close>

definition chfs_assert :: "bool \<Rightarrow> unit option" where
  "chfs_assert b = (if b then Some () else None)"

lemma chfs_assert_simps [simp]:
  "chfs_assert True = Some ()" "chfs_assert False = None"
  by (simp_all add: chfs_assert_def)

lemma chfs_assert_eq_Some [simp]: "chfs_assert b = Some u \<longleftrightarrow> b"
  by (simp add: chfs_assert_def)

section \<open>Unsigned arithmetic at its width\<close>

type_synonym byte = "8 word"

definition u8 :: "nat \<Rightarrow> nat" where
  "u8 n = n mod 2 ^ 8"

definition u32 :: "nat \<Rightarrow> nat" where
  "u32 n = n mod 2 ^ 32"

definition u64 :: "nat \<Rightarrow> nat" where
  "u64 n = n mod 2 ^ 64"

text \<open>Subtraction of unsigned values wraps below zero; both operands are below the width.\<close>

definition sub32 :: "nat \<Rightarrow> nat \<Rightarrow> nat" where
  "sub32 a b = (a + 2 ^ 32 - b) mod 2 ^ 32"

definition sub64 :: "nat \<Rightarrow> nat \<Rightarrow> nat" where
  "sub64 a b = (a + 2 ^ 64 - b) mod 2 ^ 64"

lemma u32_id [wrap_simps]: "n < 2 ^ 32 \<Longrightarrow> u32 n = n"
  by (simp add: u32_def)

lemma u64_id [wrap_simps]: "n < 2 ^ 64 \<Longrightarrow> u64 n = n"
  by (simp add: u64_def)

lemma sub32_id [wrap_simps]: "b \<le> a \<Longrightarrow> a < 2 ^ 32 \<Longrightarrow> sub32 a b = a - b"
  using mod_add_self2 [of "a - b" "2 ^ 32"] by (simp add: sub32_def)

lemma sub64_id [wrap_simps]: "b \<le> a \<Longrightarrow> a < 2 ^ 64 \<Longrightarrow> sub64 a b = a - b"
  using mod_add_self2 [of "a - b" "2 ^ 64"] by (simp add: sub64_def)

lemma u32_less [simp]: "u32 n < 4294967296"
  by (simp add: u32_def)

lemma u64_less [simp]: "u64 n < 18446744073709551616"
  by (simp add: u64_def)

section \<open>Indexing and copying within bounds\<close>

definition at :: "'a list \<Rightarrow> nat \<Rightarrow> 'a option" where
  "at xs i = (if i < length xs then Some (xs ! i) else None)"

definition upd :: "'a list \<Rightarrow> nat \<Rightarrow> 'a \<Rightarrow> 'a list option" where
  "upd xs i v = (if i < length xs then Some (xs[i := v]) else None)"

definition chunk :: "'a list \<Rightarrow> nat \<Rightarrow> nat \<Rightarrow> 'a list" where
  "chunk xs off n = take n (drop off xs)"

definition patch :: "'a list \<Rightarrow> nat \<Rightarrow> 'a list \<Rightarrow> 'a list" where
  "patch xs off ys = take off xs @ ys @ drop (off + length ys) xs"

definition peek :: "'a list \<Rightarrow> nat \<Rightarrow> nat \<Rightarrow> 'a list option" where
  "peek xs off n = (if off + n \<le> length xs then Some (chunk xs off n) else None)"

definition poke :: "'a list \<Rightarrow> nat \<Rightarrow> 'a list \<Rightarrow> 'a list option" where
  "poke xs off ys = (if off + length ys \<le> length xs then Some (patch xs off ys) else None)"

lemma at_simps [simp]: "i < length xs \<Longrightarrow> at xs i = Some (xs ! i)"
  by (simp add: at_def)

lemma at_eq_Some: "at xs i = Some v \<longleftrightarrow> i < length xs \<and> xs ! i = v"
  by (auto simp: at_def)

lemma upd_simps [simp]: "i < length xs \<Longrightarrow> upd xs i v = Some (xs[i := v])"
  by (simp add: upd_def)

lemma upd_eq_Some: "upd xs i v = Some ys \<longleftrightarrow> i < length xs \<and> ys = xs[i := v]"
  by (auto simp: upd_def)

lemma peek_simps [simp]: "off + n \<le> length xs \<Longrightarrow> peek xs off n = Some (chunk xs off n)"
  by (simp add: peek_def)

lemma peek_eq_Some: "peek xs off n = Some ys \<longleftrightarrow> off + n \<le> length xs \<and> ys = chunk xs off n"
  by (auto simp: peek_def)

lemma poke_simps [simp]: "off + length ys \<le> length xs \<Longrightarrow> poke xs off ys = Some (patch xs off ys)"
  by (simp add: poke_def)

lemma poke_eq_Some:
  "poke xs off ys = Some zs \<longleftrightarrow> off + length ys \<le> length xs \<and> zs = patch xs off ys"
  by (auto simp: poke_def)

lemma length_chunk [simp]: "off + n \<le> length xs \<Longrightarrow> length (chunk xs off n) = n"
  by (simp add: chunk_def)

lemma length_patch [simp]: "off + length ys \<le> length xs \<Longrightarrow> length (patch xs off ys) = length xs"
  by (simp add: patch_def)

lemma nth_chunk: "off + n \<le> length xs \<Longrightarrow> i < n \<Longrightarrow> chunk xs off n ! i = xs ! (off + i)"
  by (simp add: chunk_def)

lemma nth_patch:
  assumes "off + length ys \<le> length xs" "i < length xs"
  shows "patch xs off ys ! i =
    (if off \<le> i \<and> i < off + length ys then ys ! (i - off) else xs ! i)"
  using assms by (auto simp: patch_def nth_append)

lemma chunk_patch_same [buf_simps]:
  "off + length ys \<le> length xs \<Longrightarrow> n = length ys \<Longrightarrow> chunk (patch xs off ys) off n = ys"
  by (rule nth_equalityI) (auto simp: nth_chunk nth_patch)

lemma chunk_patch_disjoint:
  assumes "off + length ys \<le> length xs" "off' + n \<le> length xs"
    and "off' + n \<le> off \<or> off + length ys \<le> off'"
  shows "chunk (patch xs off ys) off' n = chunk xs off' n"
  using assms by (intro nth_equalityI) (auto simp: nth_chunk nth_patch)

lemma chunk_within_patch:
  assumes "off + length ys \<le> length xs" "off \<le> off'" "off' + n \<le> off + length ys"
  shows "chunk (patch xs off ys) off' n = chunk ys (off' - off) n"
  using assms by (intro nth_equalityI) (auto simp: nth_chunk nth_patch)

lemma chunk_chunk:
  "i + n \<le> m \<Longrightarrow> off + m \<le> length xs \<Longrightarrow> chunk (chunk xs off m) i n = chunk xs (off + i) n"
  by (intro nth_equalityI) (auto simp: nth_chunk add.assoc)

lemma chunk_0_length [simp]: "chunk xs 0 (length xs) = xs"
  by (simp add: chunk_def)

lemma patch_chunk_id: "off + n \<le> length xs \<Longrightarrow> patch xs off (chunk xs off n) = xs"
  by (rule nth_equalityI) (auto simp: nth_patch nth_chunk)

lemma patch_overwrite:
  "off + length ys \<le> length xs \<Longrightarrow> length ys' = length ys \<Longrightarrow>
   patch (patch xs off ys) off ys' = patch xs off ys'"
  by (rule nth_equalityI) (auto simp: nth_patch)

lemma chunk_replicate: "off + n \<le> m \<Longrightarrow> chunk (replicate m v) off n = replicate n v"
  by (rule nth_equalityI) (auto simp: nth_chunk)

lemma find_append: "List.find P (xs @ ys) = (case List.find P xs of None \<Rightarrow> List.find P ys | Some x \<Rightarrow> Some x)"
  by (induction xs) auto

lemma find_map: "List.find P (map f xs) = map_option f (List.find (P \<circ> f) xs)"
  by (induction xs) auto

lemma find_cong: "(\<And>x. x \<in> set xs \<Longrightarrow> P x = Q x) \<Longrightarrow> List.find P xs = List.find Q xs"
  by (induction xs) auto

lemma upt_split: "i \<le> j \<Longrightarrow> j \<le> k \<Longrightarrow> [i..<k] = [i..<j] @ [j..<k]"
  using upt_add_eq_append [of i j "k - j"] by simp

section \<open>Little-endian integers in a buffer\<close>

fun le_nat :: "byte list \<Rightarrow> nat" where
  "le_nat [] = 0"
| "le_nat (b # bs) = unat b + 256 * le_nat bs"

fun le_bytes :: "nat \<Rightarrow> nat \<Rightarrow> byte list" where
  "le_bytes 0 v = []"
| "le_bytes (Suc n) v = word_of_nat v # le_bytes n (v div 256)"

definition get_le :: "nat \<Rightarrow> byte list \<Rightarrow> nat \<Rightarrow> nat option" where
  "get_le n buf off = map_option le_nat (peek buf off n)"

definition put_le :: "nat \<Rightarrow> byte list \<Rightarrow> nat \<Rightarrow> nat \<Rightarrow> byte list option" where
  "put_le n buf off v = poke buf off (le_bytes n v)"

lemma length_le_bytes [simp]: "length (le_bytes n v) = n"
  by (induction n arbitrary: v) auto

lemma unat_byte_less [simp]: "unat (b :: byte) < 256"
proof -
  have "unat b < 2 ^ LENGTH(8)"
    by (rule unsigned_less)
  then show ?thesis
    by simp
qed

lemma le_nat_less: "le_nat bs < 256 ^ length bs"
proof (induction bs)
  case (Cons b bs)
  have "unat b + 256 * le_nat bs < 256 + 256 * le_nat bs"
    using unat_byte_less [of b] by linarith
  also have "\<dots> \<le> 256 * 256 ^ length bs"
    using Cons by simp
  finally show ?case by simp
qed simp

lemma le_nat_le_bytes [simp]: "le_nat (le_bytes n v) = v mod 256 ^ n"
proof (induction n arbitrary: v)
  case (Suc n)
  have "unat (word_of_nat v :: byte) = v mod 256"
    by (simp add: unat_of_nat take_bit_eq_mod)
  then show ?case
    using Suc by (simp add: mod_mult2_eq)
qed simp

lemma le_bytes_le_nat [simp]: "le_bytes (length bs) (le_nat bs) = bs"
proof (induction bs)
  case (Cons b bs)
  have b: "unat b < 256" by simp
  have "(word_of_nat (unat b + 256 * le_nat bs) :: byte) = word_of_nat (unat b)"
    unfolding word_of_nat_eq_iff by (simp only: take_bit_eq_mod) (simp add: mod_mult_self2)
  moreover have "(unat b + 256 * le_nat bs) div 256 = le_nat bs"
    using b by simp
  ultimately show ?case
    using Cons by simp
qed simp

lemma le_nat_inj: "length bs = length cs \<Longrightarrow> le_nat bs = le_nat cs \<Longrightarrow> bs = cs"
  by (metis le_bytes_le_nat)

lemma le_nat_replicate_0 [simp]: "le_nat (replicate n 0) = 0"
  by (induction n) auto

lemma get_le_eq [simp]: "off + n \<le> length buf \<Longrightarrow> get_le n buf off = Some (le_nat (chunk buf off n))"
  by (simp add: get_le_def)

lemma put_le_eq [simp]: "off + n \<le> length buf \<Longrightarrow> put_le n buf off v = Some (patch buf off (le_bytes n v))"
  by (simp add: put_le_def)

section \<open>Interfaces\<close>

subsection \<open>Encodings\<close>

text \<open>
  What a client relies on when it stores a value as bytes or characters and reads it
  back: decoding an encoded valid value gives the value. The on-disk integers, the
  directory format, the superblock, the commit log's operation record and the Raft
  log's records are encodings in this sense.
\<close>

locale codec =
  fixes valid :: "'a \<Rightarrow> bool"
    and encode :: "'a \<Rightarrow> 'b"
    and decode :: "'b \<Rightarrow> 'a"
  assumes decode_encode: "valid x \<Longrightarrow> decode (encode x) = x"
begin

lemma encode_inj_on: "inj_on encode (Collect valid)"
  by (metis decode_encode inj_onI mem_Collect_eq)

lemma encode_eq_iff: "valid x \<Longrightarrow> valid y \<Longrightarrow> encode x = encode y \<longleftrightarrow> x = y"
  by (metis decode_encode)

lemma map_decode_encode: "list_all valid xs \<Longrightarrow> map (decode \<circ> encode) xs = xs"
  by (induction xs) (auto simp: decode_encode)

end

interpretation le_codec: codec "\<lambda>v. v < 256 ^ n" "le_bytes n" le_nat
  by unfold_locales simp

subsection \<open>A pool of numbered resources\<close>

text \<open>
  The contract that the block allocator, the inode table and the data server share:
  \<open>used\<close> is the set of numbers handed out, all below a limit; acquiring marks a number
  that was free or reports that there is none. A pool also takes numbers back.
\<close>

locale number_source =
  fixes inv :: "'s \<Rightarrow> bool"
    and used :: "'s \<Rightarrow> nat set"
    and cap :: "'s \<Rightarrow> nat set"
    and acquire :: "'s \<Rightarrow> (nat \<times> 's) option"
  assumes used_cap: "inv s \<Longrightarrow> used s \<subseteq> cap s"
    and finite_cap: "inv s \<Longrightarrow> finite (cap s)"
    and acquire_SomeD: "inv s \<Longrightarrow> acquire s = Some (i, s') \<Longrightarrow>
        i \<in> cap s \<and> i \<notin> used s \<and> inv s' \<and> used s' = insert i (used s) \<and> cap s' = cap s"
    and acquire_NoneD: "inv s \<Longrightarrow> acquire s = None \<Longrightarrow> used s = cap s"
begin

fun acquire_n :: "nat \<Rightarrow> 's \<Rightarrow> (nat list \<times> 's) option" where
  "acquire_n 0 s = Some ([], s)"
| "acquire_n (Suc n) s =
     (case acquire s of None \<Rightarrow> None
      | Some (i, s') \<Rightarrow> map_option (\<lambda>(is, s''). (i # is, s'')) (acquire_n n s'))"

lemma acquire_iff: "inv s \<Longrightarrow> (\<exists>i s'. acquire s = Some (i, s')) \<longleftrightarrow> used s \<noteq> cap s"
  using acquire_SomeD acquire_NoneD used_cap by (metis option.exhaust surj_pair)

lemma acquire_n_fresh:
  "inv s \<Longrightarrow> acquire_n n s = Some (is, s') \<Longrightarrow>
   inv s' \<and> length is = n \<and> distinct is \<and> set is \<subseteq> cap s - used s \<and>
   used s' = used s \<union> set is \<and> cap s' = cap s"
proof (induction n arbitrary: s "is")
  case (Suc n)
  from Suc.prems(2) obtain i t js where
    i: "acquire s = Some (i, t)" and js: "acquire_n n t = Some (js, s')" "is = i # js"
    by (auto split: option.splits)
  from acquire_SomeD [OF Suc.prems(1) i] have t: "i \<in> cap s" "i \<notin> used s" "inv t"
    "used t = insert i (used s)" "cap t = cap s" by auto
  from Suc.IH [OF t(3) js(1)] t js(2) show ?case by auto
qed auto

lemma acquire_n_enough:
  "inv s \<Longrightarrow> n \<le> card (cap s - used s) \<Longrightarrow> \<exists>is s'. acquire_n n s = Some (is, s')"
proof (induction n arbitrary: s)
  case (Suc n)
  have fin: "finite (cap s - used s)" using Suc.prems(1) finite_cap by auto
  from Suc.prems have "used s \<noteq> cap s" by auto
  then obtain i t where i: "acquire s = Some (i, t)"
    using acquire_iff [OF Suc.prems(1)] by blast
  from acquire_SomeD [OF Suc.prems(1) i] have t: "i \<in> cap s" "i \<notin> used s" "inv t"
    "used t = insert i (used s)" "cap t = cap s" by auto
  have "cap t - used t = (cap s - used s) - {i}" using t by auto
  then have "card (cap t - used t) = card (cap s - used s) - 1"
    using t fin by simp
  with Suc.prems(2) have "n \<le> card (cap t - used t)" by simp
  from Suc.IH [OF t(3) this] i show ?case by auto
qed auto

end

locale resource_pool = number_source +
  fixes release :: "'a \<Rightarrow> nat \<Rightarrow> 'a option"
  assumes release_SomeD: "inv s \<Longrightarrow> release s i = Some s' \<Longrightarrow>
        i \<in> used s \<and> inv s' \<and> used s' = used s - {i} \<and> cap s' = cap s"
    and release_NoneD: "inv s \<Longrightarrow> release s i = None \<Longrightarrow> i \<notin> used s"
begin

lemma acquire_release: "inv s \<Longrightarrow> acquire s = Some (i, s') \<Longrightarrow>
  \<exists>s''. release s' i = Some s'' \<and> inv s'' \<and> used s'' = used s"
proof -
  assume a: "inv s" "acquire s = Some (i, s')"
  from acquire_SomeD [OF a] have s': "inv s'" "i \<notin> used s" "used s' = insert i (used s)" by auto
  then obtain s'' where r: "release s' i = Some s''"
    using release_NoneD by (metis insertI1 option.exhaust)
  from release_SomeD [OF s'(1) r] s' r show ?thesis by auto
qed

end

end
