(* ===== verification/Bitmap.thy ===== *)
theory Bitmap
  imports Chfs_Prelude
begin

text \<open>
  The bitmap over a block of data (src/chfs/src/include/common/bitmap.h). A \<open>Bitmap\<close>
  object is a pointer to a buffer and its length \<open>payload\<close>; each operation here takes
  the payload and the buffer. The word-at-a-time search is proved equal to a linear
  search for the first clear bit, the counts to the number of set or clear bits.
\<close>

abbreviation (input) KBitsPerByte :: nat where "KBitsPerByte \<equiv> 8"
abbreviation (input) KBytesPerWord :: nat where "KBytesPerWord \<equiv> 8"

section \<open>Operations\<close>

definition bitmap_zeroed :: "nat \<Rightarrow> byte list \<Rightarrow> byte list option" where
  "bitmap_zeroed payload data = poke data 0 (replicate payload 0)"

definition bitmap_set :: "nat \<Rightarrow> byte list \<Rightarrow> nat \<Rightarrow> byte list option" where
  "bitmap_set payload data index = do {
     chfs_assert (index < u32 (payload * KBitsPerByte));
     b \<leftarrow> at data (index div KBitsPerByte);
     upd data (index div KBitsPerByte) (b OR push_bit (index mod KBitsPerByte) 1)
   }"

definition bitmap_clear :: "nat \<Rightarrow> byte list \<Rightarrow> nat \<Rightarrow> byte list option" where
  "bitmap_clear payload data index = do {
     chfs_assert (index < u32 (payload * KBitsPerByte));
     b \<leftarrow> at data (index div KBitsPerByte);
     upd data (index div KBitsPerByte) (b AND NOT (push_bit (index mod KBitsPerByte) 1))
   }"

definition bitmap_check :: "nat \<Rightarrow> byte list \<Rightarrow> nat \<Rightarrow> bool option" where
  "bitmap_check payload data index = do {
     chfs_assert (index < u32 (payload * KBitsPerByte));
     b \<leftarrow> at data (index div KBitsPerByte);
     Some (b AND push_bit (index mod KBitsPerByte) 1 \<noteq> 0)
   }"

text \<open>
  The counting loops: \<open>i\<close> is the loop variable, \<open>n\<close> the number of iterations left and
  \<open>want\<close> the value of the bits that are counted.
\<close>

fun count_loop :: "bool \<Rightarrow> nat \<Rightarrow> byte list \<Rightarrow> nat \<Rightarrow> nat \<Rightarrow> nat \<Rightarrow> nat option" where
  "count_loop want payload data i 0 num = Some num"
| "count_loop want payload data i (Suc n) num = do {
     c \<leftarrow> bitmap_check payload data i;
     count_loop want payload data (Suc i) n (if c = want then u32 (num + 1) else num)
   }"

definition count_ones :: "nat \<Rightarrow> byte list \<Rightarrow> nat option" where
  "count_ones payload data = count_loop True payload data 0 (u32 (payload * KBitsPerByte)) 0"

definition count_zeros :: "nat \<Rightarrow> byte list \<Rightarrow> nat option" where
  "count_zeros payload data = do {
     ones \<leftarrow> count_ones payload data;
     Some (sub32 (u32 (payload * KBitsPerByte)) ones)
   }"

definition count_zeros_to_bound :: "nat \<Rightarrow> byte list \<Rightarrow> nat \<Rightarrow> nat option" where
  "count_zeros_to_bound payload data upbound = count_loop False payload data 0 upbound 0"

text \<open>
  The bit-by-bit scan of the two inner loops of the search: the first clear bit among
  the \<open>n\<close> bits from \<open>i\<close> on.
\<close>

fun scan_free :: "nat \<Rightarrow> byte list \<Rightarrow> nat \<Rightarrow> nat \<Rightarrow> nat option option" where
  "scan_free payload data i 0 = Some None"
| "scan_free payload data i (Suc n) = do {
     c \<leftarrow> bitmap_check payload data i;
     if \<not> c then Some (Some i) else scan_free payload data (Suc i) n
   }"

text \<open>The outer loop over the 64-bit words: only a word that is not all ones is scanned.\<close>

fun scan_words :: "nat \<Rightarrow> byte list \<Rightarrow> nat \<Rightarrow> nat \<Rightarrow> nat option option" where
  "scan_words payload data i 0 = Some None"
| "scan_words payload data i (Suc n) = do {
     w \<leftarrow> get_le KBytesPerWord data (KBytesPerWord * i);
     if w \<noteq> 2 ^ 64 - 1
     then do {
       r \<leftarrow> scan_free payload data (i * KBytesPerWord * KBitsPerByte) (KBitsPerByte * KBytesPerWord);
       case r of Some k \<Rightarrow> Some (Some k) | None \<Rightarrow> scan_words payload data (Suc i) n
     }
     else scan_words payload data (Suc i) n
   }"

definition find_first_free_w_bound :: "nat \<Rightarrow> byte list \<Rightarrow> nat \<Rightarrow> nat option option" where
  "find_first_free_w_bound payload data bits =
     (let refined_bits = min (u32 (payload * KBitsPerByte)) bits;
          num_words = refined_bits div (KBytesPerWord * KBitsPerByte)
      in do {
        r \<leftarrow> scan_words payload data 0 num_words;
        case r of
          Some k \<Rightarrow> Some (Some k)
        | None \<Rightarrow>
            (let num_remaining_bits = bits mod (KBytesPerWord * KBitsPerByte)
             in scan_free payload data (num_words * KBytesPerWord * KBitsPerByte) num_remaining_bits)
      })"

definition find_first_free :: "nat \<Rightarrow> byte list \<Rightarrow> nat option option" where
  "find_first_free payload data = find_first_free_w_bound payload data (u32 (payload * KBitsPerByte))"

section \<open>Reading a bitmap as a set of bits\<close>

definition bitmap_bit :: "byte list \<Rightarrow> nat \<Rightarrow> bool" where
  "bitmap_bit data i = bit (data ! (i div 8)) (i mod 8)"

text \<open>A buffer of exactly \<open>payload\<close> bytes whose bit count fits a \<open>usize\<close>.\<close>

definition bitmap_ok :: "nat \<Rightarrow> byte list \<Rightarrow> bool" where
  "bitmap_ok payload data \<longleftrightarrow> length data = payload \<and> payload * 8 < 2 ^ 32"

lemma bitmap_okD:
  assumes "bitmap_ok payload data"
  shows "length data = payload" "u32 (payload * 8) = payload * 8"
    "i < payload * 8 \<Longrightarrow> i div 8 < payload"
  using assms by (auto simp: bitmap_ok_def u32_def)

lemma bitmap_bit_replicate_0 [simp]: "i < n * 8 \<Longrightarrow> \<not> bitmap_bit (replicate n 0) i"
  by (simp add: bitmap_bit_def less_mult_imp_div_less)

lemma bitmap_zeroed_ok:
  "bitmap_ok payload data \<Longrightarrow> bitmap_zeroed payload data = Some (replicate payload 0)"
  by (simp add: bitmap_zeroed_def bitmap_ok_def patch_def)

lemma bitmap_check_ok:
  assumes "bitmap_ok payload data" "i < payload * 8"
  shows "bitmap_check payload data i = Some (bitmap_bit data i)"
  using assms bitmap_okD [OF assms(1)]
  by (simp add: bitmap_check_def bitmap_bit_def bit_iff_and_push_bit_not_eq_0)

lemma bit_update_div_mod:
  "(i div 8 = j div 8 \<and> i mod 8 = j mod (8::nat)) \<longleftrightarrow> i = j"
  by (metis div_mult_mod_eq)

lemma bitmap_set_ok:
  assumes "bitmap_ok payload data" "i < payload * 8"
  obtains data' where "bitmap_set payload data i = Some data'" "bitmap_ok payload data'"
    "\<And>j. j < payload * 8 \<Longrightarrow> bitmap_bit data' j = (j = i \<or> bitmap_bit data j)"
proof
  let ?d = "data[i div 8 := data ! (i div 8) OR push_bit (i mod 8) 1]"
  show "bitmap_set payload data i = Some ?d"
    using assms bitmap_okD [OF assms(1)] by (simp add: bitmap_set_def)
  show "bitmap_ok payload ?d"
    using assms(1) by (simp add: bitmap_ok_def)
  show "bitmap_bit ?d j = (j = i \<or> bitmap_bit data j)" if "j < payload * 8" for j
  proof (cases "j div 8 = i div 8")
    case True
    then show ?thesis
      using that bitmap_okD [OF assms(1)] bit_update_div_mod [of i j]
      by (auto simp: bitmap_bit_def bit_or_iff bit_push_bit_iff bit_1_iff bit_exp_iff)
  next
    case False
    then show ?thesis by (auto simp: bitmap_bit_def)
  qed
qed

lemma bitmap_clear_ok:
  assumes "bitmap_ok payload data" "i < payload * 8"
  obtains data' where "bitmap_clear payload data i = Some data'" "bitmap_ok payload data'"
    "\<And>j. j < payload * 8 \<Longrightarrow> bitmap_bit data' j = (j \<noteq> i \<and> bitmap_bit data j)"
proof
  let ?d = "data[i div 8 := data ! (i div 8) AND NOT (push_bit (i mod 8) 1)]"
  show "bitmap_clear payload data i = Some ?d"
    using assms bitmap_okD [OF assms(1)] by (simp add: bitmap_clear_def)
  show "bitmap_ok payload ?d"
    using assms(1) by (simp add: bitmap_ok_def)
  show "bitmap_bit ?d j = (j \<noteq> i \<and> bitmap_bit data j)" if "j < payload * 8" for j
  proof (cases "j div 8 = i div 8")
    case True
    then show ?thesis
      using that bitmap_okD [OF assms(1)] bit_update_div_mod [of i j]
      by (auto simp: bitmap_bit_def bit_and_iff bit_not_iff bit_push_bit_iff bit_1_iff bit_exp_iff)
  next
    case False
    then show ?thesis by (auto simp: bitmap_bit_def)
  qed
qed

section \<open>Counting and searching\<close>

lemma count_loop_ok:
  assumes "bitmap_ok payload data"
  shows "i + n \<le> payload * 8 \<Longrightarrow> num \<le> i \<Longrightarrow>
    count_loop want payload data i n num =
      Some (num + length (filter (\<lambda>k. bitmap_bit data k = want) [i..<i + n]))"
proof (induction n arbitrary: i num)
  case (Suc n)
  have le: "num + 1 < 2 ^ 32" "i < payload * 8"
    using Suc.prems assms by (auto simp: bitmap_ok_def)
  have upt: "[i..<Suc (i + n)] = i # [Suc i..<Suc (i + n)]"
    by (rule upt_conv_Cons) simp
  have IH: "count_loop want payload data (Suc i) n m =
      Some (m + length (filter (\<lambda>k. bitmap_bit data k = want) [Suc i..<Suc i + n]))"
    if "m \<le> Suc i" for m
    using Suc.IH [of "Suc i" m] Suc.prems that by simp
  show ?case
    using Suc.prems le
    by (simp add: bitmap_check_ok [OF assms] IH upt u32_id del: upt_Suc)
qed simp

lemma count_ones_ok:
  "bitmap_ok payload data \<Longrightarrow>
   count_ones payload data = Some (length (filter (bitmap_bit data) [0..<payload * 8]))"
  using count_loop_ok [of payload data 0 "payload * 8" 0 True]
  by (simp add: count_ones_def bitmap_okD)

lemma count_zeros_to_bound_ok:
  "bitmap_ok payload data \<Longrightarrow> bound \<le> payload * 8 \<Longrightarrow>
   count_zeros_to_bound payload data bound =
     Some (length (filter (\<lambda>k. \<not> bitmap_bit data k) [0..<bound]))"
  using count_loop_ok [of payload data 0 bound 0 False]
  by (simp add: count_zeros_to_bound_def)

lemma count_zeros_ok:
  assumes "bitmap_ok payload data"
  shows "count_zeros payload data =
    Some (length (filter (\<lambda>k. \<not> bitmap_bit data k) [0..<payload * 8]))"
proof -
  let ?ones = "length (filter (bitmap_bit data) [0..<payload * 8])"
  have "?ones + length (filter (\<lambda>k. \<not> bitmap_bit data k) [0..<payload * 8]) = payload * 8"
    using sum_length_filter_compl [of "bitmap_bit data" "[0..<payload * 8]"] by simp
  then have "payload * 8 - ?ones = length (filter (\<lambda>k. \<not> bitmap_bit data k) [0..<payload * 8])"
    and "?ones \<le> payload * 8"
    by simp_all
  moreover have "payload * 8 < 2 ^ 32" "u32 (payload * 8) = payload * 8"
    using assms by (simp_all add: bitmap_ok_def u32_def)
  ultimately show ?thesis
    by (simp add: count_zeros_def count_ones_ok [OF assms] sub32_id)
qed

lemma scan_free_ok:
  assumes "bitmap_ok payload data"
  shows "i + n \<le> payload * 8 \<Longrightarrow>
    scan_free payload data i n = Some (List.find (\<lambda>k. \<not> bitmap_bit data k) [i..<i + n])"
proof (induction n arbitrary: i)
  case (Suc n)
  have upt: "[i..<Suc (i + n)] = i # [Suc i..<Suc (i + n)]"
    by (rule upt_conv_Cons) simp
  show ?case
    using Suc.prems Suc.IH [of "Suc i"]
    by (simp add: bitmap_check_ok [OF assms] upt del: upt_Suc)
qed simp

lemma le_nat_all_ones: "le_nat (replicate n 255) = 256 ^ n - 1"
proof (induction n)
  case (Suc n)
  have "256 * (256 ^ n - 1 :: nat) = 256 ^ Suc n - 256"
    by (simp add: diff_mult_distrib2)
  moreover have "(256 :: nat) \<le> 256 ^ Suc n"
    by simp
  ultimately show ?case
    using Suc by simp
qed simp

lemma full_word_bits:
  assumes "8 * i + 8 \<le> length data" "le_nat (chunk data (8 * i) 8) = 2 ^ 64 - 1"
    and "64 * i \<le> k" "k < 64 * i + 64"
  shows "bitmap_bit data k"
proof -
  have "chunk data (8 * i) 8 = replicate 8 255"
    using assms(1,2) le_nat_all_ones [of 8] by (intro le_nat_inj) simp_all
  moreover have "chunk data (8 * i) 8 ! (k div 8 - 8 * i) = data ! (k div 8)"
    using assms by (subst nth_chunk) auto
  moreover have "k div 8 - 8 * i < 8"
    using assms(3,4) by linarith
  ultimately have "data ! (k div 8) = 255"
    by (metis nth_replicate)
  moreover have "(255 :: byte) = - 1"
    by simp
  moreover have "bit (- 1 :: byte) (k mod 8)"
    by (simp add: bit_minus_1_iff)
  ultimately show ?thesis
    by (simp add: bitmap_bit_def)
qed

lemma scan_words_ok:
  assumes "bitmap_ok payload data"
  shows "(i + n) * 64 \<le> payload * 8 \<Longrightarrow>
    scan_words payload data i n = Some (List.find (\<lambda>k. \<not> bitmap_bit data k) [i * 64..<(i + n) * 64])"
proof (induction n arbitrary: i)
  case (Suc n)
  let ?P = "\<lambda>k. \<not> bitmap_bit data k"
  have len: "8 * i + 8 \<le> length data"
    using Suc.prems assms by (simp add: bitmap_ok_def)
  have upt: "[i * 64..<(i + Suc n) * 64] = [i * 64..<i * 64 + 64] @ [Suc i * 64..<(Suc i + n) * 64]"
    using upt_split [of "i * 64" "i * 64 + 64" "(i + Suc n) * 64"] by (simp add: algebra_simps)
  have scan: "scan_free payload data (i * 64) 64 = Some (List.find ?P [i * 64..<i * 64 + 64])"
    using Suc.prems by (intro scan_free_ok [OF assms]) simp
  have none: "List.find ?P [i * 64..<i * 64 + 64] = None"
    if "le_nat (chunk data (8 * i) 8) = 2 ^ 64 - 1"
    using full_word_bits [OF len that] by (auto simp: find_None_iff mult.commute)
  have IH: "scan_words payload data (Suc i) n =
      Some (List.find ?P [Suc i * 64..<(Suc i + n) * 64])"
    using Suc.prems by (intro Suc.IH) simp
  show ?case
    unfolding upt find_append
    using len scan none IH by (auto simp: mult.assoc split: option.splits)
qed simp

lemma find_first_free_w_bound_ok:
  assumes "bitmap_ok payload data" "bits \<le> payload * 8"
  shows "find_first_free_w_bound payload data bits =
    Some (List.find (\<lambda>k. \<not> bitmap_bit data k) [0..<bits])"
proof -
  let ?P = "\<lambda>k. \<not> bitmap_bit data k" and ?w = "bits div 64 * 64"
  have split: "?w + bits mod 64 = bits"
    by simp
  have upt: "[0..<bits] = [0..<?w] @ [?w..<?w + bits mod 64]"
    unfolding split by (rule upt_split) simp_all
  have words: "scan_words payload data 0 (bits div 64) = Some (List.find ?P [0..<?w])"
    using scan_words_ok [OF assms(1), of 0 "bits div 64"] assms(2) by simp
  have rest: "scan_free payload data ?w (bits mod 64) = Some (List.find ?P [?w..<?w + bits mod 64])"
    using assms(2) by (intro scan_free_ok [OF assms(1)]) simp
  show ?thesis
    using assms words rest
    by (subst upt)
      (auto simp: find_first_free_w_bound_def Let_def bitmap_okD min_def mult.assoc find_append
        split: option.splits)
qed

lemma find_first_free_ok:
  "bitmap_ok payload data \<Longrightarrow>
   find_first_free payload data = Some (List.find (\<lambda>k. \<not> bitmap_bit data k) [0..<payload * 8])"
  by (simp add: find_first_free_def find_first_free_w_bound_ok bitmap_okD)

lemma find_upt_Some:
  "List.find P [0..<n] = Some k \<longleftrightarrow> k < n \<and> P k \<and> (\<forall>j<k. \<not> P j)"
  by (auto simp: find_Some_iff)

lemma find_upt_None: "List.find P [0..<n] = None \<longleftrightarrow> (\<forall>j<n. \<not> P j)"
  by (auto simp: find_None_iff)

section \<open>Properties\<close>

text \<open>C37. The word-at-a-time search \<open>find_first_free_w_bound\<close>, on a buffer of any length and for
  any bound within it, returns the smallest index below the bound whose bit is clear, and
  nothing exactly when all of them are set; it never reads outside the buffer.\<close>

theorem find_first_free_w_bound_is_linear_search:
  assumes "bitmap_ok payload data" "bits \<le> payload * 8"
  shows "\<exists>r. find_first_free_w_bound payload data bits = Some r \<and>
    (case r of
       None \<Rightarrow> \<forall>j<bits. bitmap_check payload data j = Some True
     | Some k \<Rightarrow> k < bits \<and> bitmap_check payload data k = Some False \<and>
         (\<forall>j<k. bitmap_check payload data j = Some True))"
proof -
  have check: "bitmap_check payload data j = Some (bitmap_bit data j)" if "j < bits" for j
    using that assms by (intro bitmap_check_ok) auto
  show ?thesis
    using find_first_free_w_bound_ok [OF assms] check
    by (auto simp: find_upt_Some find_upt_None split: option.split)
qed

theorem find_first_free_w_bound_is_linear_search_witness:
  "bitmap_ok 9 [255, 255, 255, 255, 255, 255, 255, 255, 5] \<and> find_first_free_w_bound 9 [255, 255, 255, 255, 255, 255, 255, 255, 5] 70 = Some (Some 65) \<and>
   (\<exists>r. find_first_free_w_bound 9 [255, 255, 255, 255, 255, 255, 255, 255, 5] 70 = Some r \<and>
    (case r of
       None \<Rightarrow> \<forall>j<70. bitmap_check 9 [255, 255, 255, 255, 255, 255, 255, 255, 5] j = Some True
     | Some k \<Rightarrow> k < 70 \<and> bitmap_check 9 [255, 255, 255, 255, 255, 255, 255, 255, 5] k = Some False \<and> (\<forall>j<k. bitmap_check 9 [255, 255, 255, 255, 255, 255, 255, 255, 5] j = Some True)))"
proof (intro conjI)
  show "bitmap_ok 9 [255, 255, 255, 255, 255, 255, 255, 255, 5]"
    by (simp add: bitmap_ok_def)
  show "find_first_free_w_bound 9 [255, 255, 255, 255, 255, 255, 255, 255, 5] 70 = Some (Some 65)"
    by code_simp
qed (rule find_first_free_w_bound_is_linear_search, simp_all add: bitmap_ok_def)

end
