(* ===== verification/Block_Manager.thy ===== *)
theory Block_Manager
  imports Chfs_Prelude
begin

text \<open>
  The block device (src/chfs/src/include/block/manager.h, src/chfs/src/block/manager.cc).
  The device is one flat byte array, as \<open>block_data\<close> is; a block's offset is the product
  of its number and the block size cut to 32 bits, as \<open>usize offset\<close> is. Nothing in the
  code checks a block number, so an access outside the array is a crash of the model.
  The fault injection (\<open>maybe_failed\<close>, \<open>write_fail_cnt\<close>) is part of the state.
\<close>

section \<open>State\<close>

record block_manager =
  bm_block_sz :: nat
  bm_block_cnt :: nat
  bm_in_memory :: bool
  bm_maybe_failed :: bool
  bm_write_fail_cnt :: nat
  bm_block_data :: "byte list"

abbreviation (input) KDefaultBlockCnt :: nat where "KDefaultBlockCnt \<equiv> 4096"
abbreviation (input) DiskBlockSize :: nat where "DiskBlockSize \<equiv> 4096"
abbreviation (input) LogBlocks :: nat where "LogBlocks \<equiv> 1024"

definition total_storage_sz :: "block_manager \<Rightarrow> nat" where
  "total_storage_sz bm = u32 (bm_block_cnt bm * bm_block_sz bm)"

section \<open>Constructors\<close>

text \<open>
  \<open>ftruncate\<close> to \<open>n\<close> bytes cuts the file or extends it with zero bytes. The memory of
  the in-memory device is what \<open>new u8[buf_sz]\<close> left there.
\<close>

definition ftruncate :: "byte list \<Rightarrow> nat \<Rightarrow> byte list" where
  "ftruncate file n = take n (file @ replicate n 0)"

definition bm_create_memory :: "nat \<Rightarrow> nat \<Rightarrow> byte list \<Rightarrow> block_manager option" where
  "bm_create_memory block_cnt block_size memory = do {
     chfs_assert (0 < u64 (block_cnt * block_size) \<and> length memory = u64 (block_cnt * block_size));
     Some \<lparr>bm_block_sz = block_size, bm_block_cnt = block_cnt, bm_in_memory = True,
       bm_maybe_failed = False, bm_write_fail_cnt = 0, bm_block_data = memory\<rparr>
   }"

text \<open>
  The file-backed devices. The mapping covers \<open>total_storage_sz\<close> bytes, with the log
  enabled also the log blocks behind them. A file of any other size than zero or that
  of the other kind of device fixes the number of blocks.
\<close>

definition bm_create_file :: "byte list \<Rightarrow> nat \<Rightarrow> block_manager option" where
  "bm_create_file file block_cnt =
     (let total_log = u32 (DiskBlockSize * LogBlocks);
          file_sz = u32 (length file);
          bm = \<lparr>bm_block_sz = DiskBlockSize, bm_block_cnt = block_cnt, bm_in_memory = False,
                 bm_maybe_failed = False, bm_write_fail_cnt = 0, bm_block_data = []\<rparr>
      in if file_sz = 0 \<or> file_sz = u32 (total_storage_sz bm + total_log)
         then Some (bm\<lparr>bm_block_data := ftruncate file (total_storage_sz bm)\<rparr>)
         else do {
           let bm' = bm\<lparr>bm_block_cnt := file_sz div DiskBlockSize\<rparr>;
           chfs_assert (total_storage_sz bm' = u32 (KDefaultBlockCnt * DiskBlockSize));
           Some (bm'\<lparr>bm_block_data := ftruncate file (total_storage_sz bm')\<rparr>)
         })"

definition bm_create_logged :: "byte list \<Rightarrow> nat \<Rightarrow> block_manager option" where
  "bm_create_logged file block_cnt =
     (let total_log = u32 (DiskBlockSize * LogBlocks);
          file_sz = u32 (length file);
          bm = \<lparr>bm_block_sz = DiskBlockSize, bm_block_cnt = block_cnt, bm_in_memory = False,
                 bm_maybe_failed = False, bm_write_fail_cnt = 0, bm_block_data = []\<rparr>
      in if file_sz = 0 \<or> file_sz = total_storage_sz bm
         then Some (bm\<lparr>bm_block_data := ftruncate file (u32 (total_storage_sz bm + total_log))\<rparr>)
         else do {
           let bm' = bm\<lparr>bm_block_cnt := sub32 file_sz total_log div DiskBlockSize\<rparr>;
           chfs_assert (total_storage_sz bm' = u32 (KDefaultBlockCnt * DiskBlockSize));
           Some (bm'\<lparr>bm_block_data := ftruncate file (u32 (total_storage_sz bm' + total_log))\<rparr>)
         })"

section \<open>Reading and writing blocks\<close>

definition may_fail_now :: "block_manager \<Rightarrow> nat \<Rightarrow> bool" where
  "may_fail_now bm block_id \<longleftrightarrow> bm_maybe_failed bm \<and> block_id < bm_block_cnt bm"

definition write_block :: "block_manager \<Rightarrow> nat \<Rightarrow> byte list \<Rightarrow> (null_result \<times> block_manager) option" where
  "write_block bm block_id data =
     (if may_fail_now bm block_id \<and> 3 \<le> bm_write_fail_cnt bm
      then Some (Err INVALID, bm\<lparr>bm_write_fail_cnt := 0\<rparr>)
      else do {
        let offset = u32 (block_id * bm_block_sz bm);
        src \<leftarrow> peek data 0 (bm_block_sz bm);
        mem \<leftarrow> poke (bm_block_data bm) offset src;
        Some (KNullOk, bm\<lparr>bm_block_data := mem,
          bm_write_fail_cnt :=
            (if may_fail_now bm block_id then u32 (bm_write_fail_cnt bm + 1)
             else bm_write_fail_cnt bm)\<rparr>)
      })"

definition write_partial_block ::
    "block_manager \<Rightarrow> nat \<Rightarrow> byte list \<Rightarrow> nat \<Rightarrow> nat \<Rightarrow> (null_result \<times> block_manager) option" where
  "write_partial_block bm block_id data offset len =
     (if may_fail_now bm block_id \<and> 3 \<le> bm_write_fail_cnt bm
      then Some (Err INVALID, bm\<lparr>bm_write_fail_cnt := 0\<rparr>)
      else do {
        let block_offset = u32 (block_id * bm_block_sz bm);
        src \<leftarrow> peek data 0 len;
        mem \<leftarrow> poke (bm_block_data bm) (block_offset + offset) src;
        Some (KNullOk, bm\<lparr>bm_block_data := mem,
          bm_write_fail_cnt := u32 (bm_write_fail_cnt bm + 1)\<rparr>)
      })"

text \<open>
  \<open>read_block\<close> fills the caller's buffer, of which \<open>room\<close> bytes may be written; the
  result carries the bytes that were copied into it.
\<close>

definition read_block :: "block_manager \<Rightarrow> nat \<Rightarrow> nat \<Rightarrow> byte list chfs_result option" where
  "read_block bm block_id room = do {
     let offset = u32 (block_id * bm_block_sz bm);
     chfs_assert (bm_block_sz bm \<le> room);
     src \<leftarrow> peek (bm_block_data bm) offset (bm_block_sz bm);
     Some (Ok src)
   }"

definition zero_block :: "block_manager \<Rightarrow> nat \<Rightarrow> (null_result \<times> block_manager) option" where
  "zero_block bm block_id = do {
     let offset = u32 (block_id * bm_block_sz bm);
     mem \<leftarrow> poke (bm_block_data bm) offset (replicate (bm_block_sz bm) 0);
     Some (KNullOk, bm\<lparr>bm_block_data := mem\<rparr>)
   }"

text \<open>\<open>sync\<close> and \<open>flush\<close>: \<open>res\<close> is what \<open>msync\<close> returns; the memory does not change.\<close>

definition bm_sync :: "block_manager \<Rightarrow> nat \<Rightarrow> int \<Rightarrow> null_result" where
  "bm_sync bm block_id res =
     (if u32 (bm_block_cnt bm + LogBlocks) \<le> block_id then Err INVALID_ARG
      else if res \<noteq> 0 then Err INVALID else KNullOk)"

definition bm_flush :: "block_manager \<Rightarrow> int \<Rightarrow> null_result" where
  "bm_flush bm res = (if res \<noteq> 0 then Err INVALID else KNullOk)"

definition set_may_fail :: "block_manager \<Rightarrow> bool \<Rightarrow> block_manager" where
  "set_may_fail bm may_fail = bm\<lparr>bm_maybe_failed := may_fail\<rparr>"

section \<open>Block iterator\<close>

record block_iterator =
  it_cur_block_off :: nat
  it_start_block_id :: nat
  it_end_block_id :: nat
  it_buffer :: "byte list"

definition iterator_create :: "block_manager \<Rightarrow> nat \<Rightarrow> nat \<Rightarrow> block_iterator chfs_result option" where
  "iterator_create bm start_id end_id = do {
     res \<leftarrow> read_block bm (u64 (0 div bm_block_sz bm + start_id)) (bm_block_sz bm);
     case res of
       Ok buffer \<Rightarrow> Some (Ok \<lparr>it_cur_block_off = 0, it_start_block_id = start_id,
                         it_end_block_id = end_id, it_buffer = buffer\<rparr>)
     | Err e \<Rightarrow> Some (Err e)
   }"

definition iterator_next ::
    "block_manager \<Rightarrow> block_iterator \<Rightarrow> nat \<Rightarrow> (null_result \<times> block_iterator) option" where
  "iterator_next bm it offset =
     (let prev_block_id = it_cur_block_off it div bm_block_sz bm;
          it' = it\<lparr>it_cur_block_off := u64 (it_cur_block_off it + offset)\<rparr>;
          new_block_id = it_cur_block_off it' div bm_block_sz bm
      in if new_block_id \<noteq> prev_block_id
         then if it_end_block_id it < u64 (it_start_block_id it + new_block_id)
              then Some (Err DONE, it')
              else do {
                res \<leftarrow> read_block bm (u64 (it_start_block_id it + new_block_id)) (length (it_buffer it));
                case res of
                  Err e \<Rightarrow> Some (Err e, it')
                | Ok buffer \<Rightarrow> Some (KNullOk, it'\<lparr>it_buffer := buffer\<rparr>)
              }
         else Some (KNullOk, it'))"

definition iterator_has_next :: "block_manager \<Rightarrow> block_iterator \<Rightarrow> bool" where
  "iterator_has_next bm it \<longleftrightarrow>
     it_cur_block_off it <
       u64 (sub64 (it_end_block_id it) (it_start_block_id it) * bm_block_sz bm)"

definition iterator_flush_cur_block ::
    "block_manager \<Rightarrow> block_iterator \<Rightarrow> (null_result \<times> block_manager) option" where
  "iterator_flush_cur_block bm it =
     write_block bm (u64 (it_start_block_id it + it_cur_block_off it div bm_block_sz bm)) (it_buffer it)"

section \<open>The device as an array of blocks\<close>

definition bm_ok :: "block_manager \<Rightarrow> bool" where
  "bm_ok bm \<longleftrightarrow> 0 < bm_block_sz bm \<and> bm_block_sz bm dvd length (bm_block_data bm) \<and>
     bm_block_cnt bm * bm_block_sz bm \<le> length (bm_block_data bm) \<and>
     length (bm_block_data bm) < 2 ^ 32"

definition in_dev :: "block_manager \<Rightarrow> nat \<Rightarrow> bool" where
  "in_dev bm i \<longleftrightarrow> (i + 1) * bm_block_sz bm \<le> length (bm_block_data bm)"

definition blk :: "block_manager \<Rightarrow> nat \<Rightarrow> byte list" where
  "blk bm i = chunk (bm_block_data bm) (i * bm_block_sz bm) (bm_block_sz bm)"

definition put_blk :: "block_manager \<Rightarrow> nat \<Rightarrow> byte list \<Rightarrow> block_manager" where
  "put_blk bm i b = bm\<lparr>bm_block_data := patch (bm_block_data bm) (i * bm_block_sz bm) b\<rparr>"

lemma bm_ok_block_sz [simp]: "bm_ok bm \<Longrightarrow> 0 < bm_block_sz bm"
  by (simp add: bm_ok_def)

lemma in_dev_bound: "bm_ok bm \<Longrightarrow> i < bm_block_cnt bm \<Longrightarrow> in_dev bm i"
  unfolding bm_ok_def in_dev_def
  by (metis Suc_eq_plus1 Suc_leI le_trans mult_le_mono1)

lemma bm_ok_cnt: "bm_ok bm \<Longrightarrow> bm_block_cnt bm < 2 ^ 32"
proof -
  assume ok: "bm_ok bm"
  then have "bm_block_cnt bm * 1 \<le> bm_block_cnt bm * bm_block_sz bm"
    by (intro mult_le_mono2) (simp add: bm_ok_def Suc_leI)
  with ok show ?thesis unfolding bm_ok_def by linarith
qed

lemma in_dev_less: "bm_ok bm \<Longrightarrow> in_dev bm i \<Longrightarrow> i < 2 ^ 32"
proof -
  assume a: "bm_ok bm" "in_dev bm i"
  then have "(i + 1) * 1 \<le> (i + 1) * bm_block_sz bm"
    by (intro mult_le_mono2) (simp add: Suc_leI)
  with a show ?thesis by (simp add: bm_ok_def in_dev_def)
qed

lemma in_dev_offset:
  assumes "bm_ok bm" "in_dev bm i"
  shows "u32 (i * bm_block_sz bm) = i * bm_block_sz bm"
    "i * bm_block_sz bm + bm_block_sz bm \<le> length (bm_block_data bm)"
  using assms by (auto simp: bm_ok_def in_dev_def u32_def)

lemma in_dev_mono: "in_dev bm j \<Longrightarrow> i \<le> j \<Longrightarrow> in_dev bm i"
  unfolding in_dev_def by (metis add_le_mono1 le_trans mult_le_mono1)

lemma length_blk [simp]: "in_dev bm i \<Longrightarrow> length (blk bm i) = bm_block_sz bm"
  by (simp add: blk_def in_dev_def add.commute)

lemma put_blk_fields [simp]:
  "bm_block_sz (put_blk bm i b) = bm_block_sz bm"
  "bm_block_cnt (put_blk bm i b) = bm_block_cnt bm"
  "bm_in_memory (put_blk bm i b) = bm_in_memory bm"
  "bm_maybe_failed (put_blk bm i b) = bm_maybe_failed bm"
  "bm_write_fail_cnt (put_blk bm i b) = bm_write_fail_cnt bm"
  by (simp_all add: put_blk_def)

lemma length_put_blk [simp]:
  "in_dev bm i \<Longrightarrow> length b = bm_block_sz bm \<Longrightarrow>
   length (bm_block_data (put_blk bm i b)) = length (bm_block_data bm)"
  by (simp add: put_blk_def in_dev_def add.commute)

lemma bm_ok_put_blk [simp]:
  "bm_ok bm \<Longrightarrow> in_dev bm i \<Longrightarrow> length b = bm_block_sz bm \<Longrightarrow> bm_ok (put_blk bm i b)"
  by (simp add: bm_ok_def)

lemma in_dev_put_blk [simp]:
  "in_dev bm i \<Longrightarrow> length b = bm_block_sz bm \<Longrightarrow> in_dev (put_blk bm i b) j = in_dev bm j"
  by (simp add: in_dev_def [of _ j])

lemma blk_put_blk [dev_simps]:
  assumes "in_dev bm i" "in_dev bm j" "length b = bm_block_sz bm"
  shows "blk (put_blk bm i b) j = (if j = i then b else blk bm j)"
proof (cases "j = i")
  case True
  then show ?thesis
    using assms by (simp add: blk_def put_blk_def in_dev_def chunk_patch_same add.commute)
next
  case False
  then have "j * bm_block_sz bm + bm_block_sz bm \<le> i * bm_block_sz bm \<or>
      i * bm_block_sz bm + length b \<le> j * bm_block_sz bm"
    using assms(3) by (metis Suc_leI add.commute mult_Suc mult_le_mono1 nat_neq_iff)
  then show ?thesis
    using False assms
    by (simp add: blk_def put_blk_def in_dev_def chunk_patch_disjoint add.commute)
qed

lemma put_blk_overwrite [dev_simps]:
  "in_dev bm i \<Longrightarrow> length b = bm_block_sz bm \<Longrightarrow> length b' = bm_block_sz bm \<Longrightarrow>
   put_blk (put_blk bm i b) i b' = put_blk bm i b'"
  by (simp add: put_blk_def patch_overwrite in_dev_def add.commute)

text \<open>The operations on a healthy device, in those terms.\<close>

lemma read_block_ok:
  "bm_ok bm \<Longrightarrow> in_dev bm i \<Longrightarrow> bm_block_sz bm \<le> room \<Longrightarrow>
   read_block bm i room = Some (Ok (blk bm i))"
  by (simp add: read_block_def blk_def in_dev_offset)

lemma write_block_ok:
  "bm_ok bm \<Longrightarrow> in_dev bm i \<Longrightarrow> \<not> bm_maybe_failed bm \<Longrightarrow> length b = bm_block_sz bm \<Longrightarrow>
   write_block bm i b = Some (KNullOk, put_blk bm i b)"
  by (simp add: write_block_def may_fail_now_def put_blk_def in_dev_offset chunk_def)

lemma zero_block_ok:
  "bm_ok bm \<Longrightarrow> in_dev bm i \<Longrightarrow>
   zero_block bm i = Some (KNullOk, put_blk bm i (replicate (bm_block_sz bm) 0))"
  by (simp add: zero_block_def put_blk_def in_dev_offset)

text \<open>
  A device that differs from another at most in the blocks of \<open>S\<close>: the frame of an
  operation.
\<close>

definition only_changes :: "nat set \<Rightarrow> block_manager \<Rightarrow> block_manager \<Rightarrow> bool" where
  "only_changes S bm bm' \<longleftrightarrow>
     bm_block_sz bm' = bm_block_sz bm \<and> bm_block_cnt bm' = bm_block_cnt bm \<and>
     bm_in_memory bm' = bm_in_memory bm \<and> bm_maybe_failed bm' = bm_maybe_failed bm \<and>
     length (bm_block_data bm') = length (bm_block_data bm) \<and>
     (\<forall>i. in_dev bm i \<longrightarrow> i \<notin> S \<longrightarrow> blk bm' i = blk bm i)"

lemma only_changes_fields:
  assumes "only_changes S bm bm'"
  shows "bm_block_sz bm' = bm_block_sz bm" "bm_block_cnt bm' = bm_block_cnt bm"
    "bm_maybe_failed bm' = bm_maybe_failed bm" "in_dev bm' i = in_dev bm i" "bm_ok bm' = bm_ok bm"
  using assms by (auto simp: only_changes_def in_dev_def bm_ok_def)

lemma only_changes_blk:
  "only_changes S bm bm' \<Longrightarrow> in_dev bm i \<Longrightarrow> i \<notin> S \<Longrightarrow> blk bm' i = blk bm i"
  by (simp add: only_changes_def)

lemma only_changes_refl [simp, intro]: "only_changes S bm bm"
  by (simp add: only_changes_def)

lemma only_changes_mono: "only_changes S bm bm' \<Longrightarrow> S \<subseteq> T \<Longrightarrow> only_changes T bm bm'"
  by (auto simp: only_changes_def)

lemma only_changes_trans:
  "only_changes S bm bm' \<Longrightarrow> only_changes T bm' bm'' \<Longrightarrow> only_changes (S \<union> T) bm bm''"
  using only_changes_fields(4) [of S bm bm'] by (auto simp: only_changes_def)

lemma only_changes_trans_same:
  "only_changes S bm bm' \<Longrightarrow> only_changes S bm' bm'' \<Longrightarrow> only_changes S bm bm''"
  using only_changes_trans [of S bm bm' S bm''] by simp

lemma only_changes_put_blk [intro]:
  "in_dev bm i \<Longrightarrow> length b = bm_block_sz bm \<Longrightarrow> i \<in> S \<Longrightarrow> only_changes S bm (put_blk bm i b)"
  by (auto simp: only_changes_def blk_put_blk)

section \<open>Interface: a store of blocks\<close>

text \<open>
  What the layers above rely on: a put is seen by the reads of that block and by no
  other. Sequences of puts to distinct blocks then commute with reads, which is the
  form in which the file data, the commit log and the Raft log use the device.
\<close>

locale block_store =
  fixes ok :: "'s \<Rightarrow> bool"
    and inside :: "'s \<Rightarrow> nat \<Rightarrow> bool"
    and fits :: "'s \<Rightarrow> 'b \<Rightarrow> bool"
    and get :: "'s \<Rightarrow> nat \<Rightarrow> 'b"
    and put :: "'s \<Rightarrow> nat \<Rightarrow> 'b \<Rightarrow> 's"
  assumes ok_put: "ok s \<Longrightarrow> inside s i \<Longrightarrow> fits s b \<Longrightarrow> ok (put s i b)"
    and inside_put: "ok s \<Longrightarrow> inside s i \<Longrightarrow> fits s b \<Longrightarrow> inside (put s i b) j = inside s j"
    and fits_put: "ok s \<Longrightarrow> inside s i \<Longrightarrow> fits s b \<Longrightarrow> fits (put s i b) c = fits s c"
    and get_put: "ok s \<Longrightarrow> inside s i \<Longrightarrow> fits s b \<Longrightarrow> inside s j \<Longrightarrow>
      get (put s i b) j = (if j = i then b else get s j)"
begin

definition writes_ok :: "'s \<Rightarrow> (nat \<times> 'b) list \<Rightarrow> bool" where
  "writes_ok s ws \<longleftrightarrow> ok s \<and> (\<forall>(i, b) \<in> set ws. inside s i \<and> fits s b)"

fun put_all :: "'s \<Rightarrow> (nat \<times> 'b) list \<Rightarrow> 's" where
  "put_all s [] = s"
| "put_all s ((i, b) # ws) = put_all (put s i b) ws"

lemma writes_ok_Cons:
  "writes_ok s ((i, b) # ws) \<longleftrightarrow> ok s \<and> inside s i \<and> fits s b \<and> writes_ok (put s i b) ws"
  by (auto simp: writes_ok_def ok_put inside_put fits_put split: prod.splits)

lemma put_all_ok:
  "writes_ok s ws \<Longrightarrow>
   ok (put_all s ws) \<and> (\<forall>j. inside (put_all s ws) j = inside s j) \<and> (\<forall>c. fits (put_all s ws) c = fits s c)"
  by (induction ws arbitrary: s rule: list.induct)
    (auto simp: writes_ok_def ok_put inside_put fits_put writes_ok_Cons)

lemma put_all_get_other:
  "writes_ok s ws \<Longrightarrow> inside s j \<Longrightarrow> j \<notin> fst ` set ws \<Longrightarrow> get (put_all s ws) j = get s j"
proof (induction ws arbitrary: s)
  case (Cons w ws)
  obtain i b where w: "w = (i, b)" by (cases w)
  have ok: "ok s" "inside s i" "fits s b" "writes_ok (put s i b) ws"
    using Cons.prems(1) by (auto simp: w writes_ok_Cons)
  have "get (put_all (put s i b) ws) j = get (put s i b) j"
    using Cons.prems ok by (intro Cons.IH) (auto simp: inside_put)
  with Cons.prems ok show ?case by (auto simp: w get_put)
qed simp

lemma put_all_get:
  "writes_ok s ws \<Longrightarrow> distinct (map fst ws) \<Longrightarrow> (j, b) \<in> set ws \<Longrightarrow> get (put_all s ws) j = b"
proof (induction ws arbitrary: s)
  case (Cons w ws)
  obtain i c where w: "w = (i, c)" by (cases w)
  have ok: "ok s" "inside s i" "fits s c" "writes_ok (put s i c) ws"
    using Cons.prems(1) by (auto simp: w writes_ok_Cons)
  show ?case
  proof (cases "(j, b) = (i, c)")
    case True
    then show ?thesis
      using Cons.prems ok put_all_get_other [OF ok(4), of j] by (auto simp: w inside_put get_put)
  next
    case False
    then have "(j, b) \<in> set ws" using Cons.prems(3) w by auto
    then show ?thesis using Cons ok by (simp add: w)
  qed
qed simp

lemma put_all_append: "put_all s (ws @ vs) = put_all (put_all s ws) vs"
  by (induction s ws rule: put_all.induct) auto

end

interpretation dev: block_store bm_ok in_dev "\<lambda>bm b. length b = bm_block_sz bm" blk put_blk
  by unfold_locales (auto simp: blk_put_blk)

lemma put_all_fields [simp]:
  "bm_block_sz (dev.put_all bm ws) = bm_block_sz bm"
  "bm_block_cnt (dev.put_all bm ws) = bm_block_cnt bm"
  "bm_maybe_failed (dev.put_all bm ws) = bm_maybe_failed bm"
  "bm_in_memory (dev.put_all bm ws) = bm_in_memory bm"
  by (induction bm ws rule: dev.put_all.induct) auto

section \<open>Properties\<close>

text \<open>On a device without fault injection a full-block write succeeds, and afterwards every
  block reads back as it did before, the written one as the data written.\<close>

theorem write_block_then_read:
  assumes "bm_ok bm" "\<not> bm_maybe_failed bm" "in_dev bm i" "in_dev bm j" "length b = bm_block_sz bm"
    and "read_block bm j (bm_block_sz bm) = Some (Ok c)"
  shows "\<exists>bm'. write_block bm i b = Some (KNullOk, bm') \<and> bm_ok bm' \<and>
    read_block bm' j (bm_block_sz bm') = Some (Ok (if j = i then b else c))"
proof -
  have "c = blk bm j" using assms by (simp add: read_block_ok)
  then show ?thesis using assms by (simp add: write_block_ok read_block_ok blk_put_blk)
qed

definition demo_dev :: block_manager where
  "demo_dev = \<lparr>bm_block_sz = 2, bm_block_cnt = 20, bm_in_memory = True, bm_maybe_failed = False,
     bm_write_fail_cnt = 0, bm_block_data = replicate 40 7\<rparr>"

lemma demo_dev_ok: "bm_ok demo_dev" "\<not> bm_maybe_failed demo_dev" "bm_block_sz demo_dev = 2"
  "bm_block_cnt demo_dev = 20" "in_dev demo_dev i = (i < 20)"
  by (auto simp: demo_dev_def bm_ok_def in_dev_def)

theorem write_block_then_read_witness:
  "read_block demo_dev 4 (bm_block_sz demo_dev) = Some (Ok [7, 7]) \<and>
   (\<exists>bm'. write_block demo_dev 3 [1, 2] = Some (KNullOk, bm') \<and> bm_ok bm' \<and>
     read_block bm' 4 (bm_block_sz bm') = Some (Ok (if (4 :: nat) = 3 then [1, 2] else [7, 7])))"
proof
  show rd: "read_block demo_dev 4 (bm_block_sz demo_dev) = Some (Ok [7, 7])"
    by code_simp
  show "\<exists>bm'. write_block demo_dev 3 [1, 2] = Some (KNullOk, bm') \<and> bm_ok bm' \<and>
     read_block bm' 4 (bm_block_sz bm') = Some (Ok (if (4 :: nat) = 3 then [1, 2] else [7, 7]))"
    by (rule write_block_then_read [OF _ _ _ _ _ rd]) (simp_all add: demo_dev_ok)
qed

text \<open>With fault injection on, the writes to blocks of the device run in rounds of four: three
  succeed, the fourth reports \<open>INVALID\<close>, leaves the data as it was and starts the next round.\<close>

theorem write_block_fault_injection:
  assumes "bm_ok bm" "bm_maybe_failed bm" "i < bm_block_cnt bm" "length b = bm_block_sz bm"
    and "bm_write_fail_cnt bm < 4"
  shows "\<exists>r bm'. write_block bm i b = Some (r, bm') \<and>
    bm_write_fail_cnt bm' = (bm_write_fail_cnt bm + 1) mod 4 \<and>
    (if bm_write_fail_cnt bm = 3 then r = Err INVALID \<and> bm_block_data bm' = bm_block_data bm
     else r = KNullOk \<and> bm_block_data bm' = bm_block_data (put_blk bm i b))"
proof -
  have dev: "in_dev bm i" using assms by (intro in_dev_bound)
  show ?thesis
  proof (cases "bm_write_fail_cnt bm = 3")
    case True
    then show ?thesis using assms by (simp add: write_block_def may_fail_now_def)
  next
    case False
    with assms(5) have "bm_write_fail_cnt bm < 3" by simp
    then show ?thesis
      using assms dev in_dev_offset [OF assms(1) dev]
      by (simp add: write_block_def may_fail_now_def put_blk_def chunk_def u32_def)
  qed
qed

theorem write_block_fault_injection_witness:
  "\<exists>r bm'. write_block (set_may_fail demo_dev True) 3 [1, 2] = Some (r, bm') \<and>
    bm_write_fail_cnt bm' = (bm_write_fail_cnt (set_may_fail demo_dev True) + 1) mod 4 \<and>
    (if bm_write_fail_cnt (set_may_fail demo_dev True) = 3
     then r = Err INVALID \<and> bm_block_data bm' = bm_block_data (set_may_fail demo_dev True)
     else r = KNullOk \<and> bm_block_data bm' = bm_block_data (put_blk (set_may_fail demo_dev True) 3 [1, 2]))"
  by (rule write_block_fault_injection) (simp_all add: set_may_fail_def demo_dev_def bm_ok_def)

end
