(* ===== verification/Block_Allocator.thy ===== *)
theory Block_Allocator
  imports Bitmap Block_Manager
begin

text \<open>
  The block allocator (src/chfs/src/include/block/allocator.h,
  src/chfs/src/block/allocator.cc). The allocator shares its block manager with the
  other users of the device (a \<open>shared_ptr\<close>), so the device is passed in and returned
  and the record holds the allocator's own fields. The abstraction is the set of
  allocated block numbers; on it the allocator is a \<open>resource_pool\<close>.
\<close>

section \<open>State and operations\<close>

record block_allocator =
  al_bitmap_block_id :: nat
  al_bitmap_block_cnt :: nat
  al_last_block_num :: nat

text \<open>The zeroing loop of the constructor; \<open>n\<close> iterations are left.\<close>

fun zero_blocks :: "block_manager \<Rightarrow> nat \<Rightarrow> nat \<Rightarrow> nat \<Rightarrow> block_manager option" where
  "zero_blocks bm base i 0 = Some bm"
| "zero_blocks bm base i (Suc n) = do {
     (_, bm') \<leftarrow> zero_block bm (u64 (i + base));
     zero_blocks bm' base (Suc i) n
   }"

text \<open>
  The marking loop of the constructor: \<open>buffer\<close> is the bitmap block \<open>cur_block_id\<close> under
  construction, written back when the loop moves on to the next one.
\<close>

fun mark_loop :: "block_manager \<Rightarrow> nat \<Rightarrow> nat \<Rightarrow> nat \<Rightarrow> nat \<Rightarrow> nat \<Rightarrow> byte list \<Rightarrow>
    (block_manager \<times> nat \<times> byte list) option" where
  "mark_loop bm base bits i 0 cur_block_id buffer = Some (bm, cur_block_id, buffer)"
| "mark_loop bm base bits i (Suc n) cur_block_id buffer = do {
     let block_id = u64 (i div bits + base);
     let block_idx = i mod bits;
     (bm', cur', buffer') \<leftarrow>
       (if block_id \<noteq> cur_block_id
        then do {
          (_, bm1) \<leftarrow> write_block bm cur_block_id buffer;
          buf1 \<leftarrow> bitmap_zeroed (bm_block_sz bm) buffer;
          Some (bm1, block_id, buf1)
        }
        else Some (bm, cur_block_id, buffer));
     buffer'' \<leftarrow> bitmap_set (bm_block_sz bm) buffer' block_idx;
     mark_loop bm' base bits (Suc i) n cur' buffer''
   }"

text \<open>
  The size of the bitmap: one bit for each of \<open>total_blocks\<close>, \<open>bits\<close> of them in a block,
  and the number of bits of the last bitmap block that are in use.
\<close>

definition total_bitmap_block :: "nat \<Rightarrow> nat \<Rightarrow> nat" where
  "total_bitmap_block total_blocks bits =
     (if total_blocks mod bits \<noteq> 0 then u32 (total_blocks div bits + 1) else total_blocks div bits)"

definition last_block_bits :: "nat \<Rightarrow> nat \<Rightarrow> nat \<Rightarrow> nat" where
  "last_block_bits total_blocks bits bitmap_block_cnt =
     (if u64 (bitmap_block_cnt * bits) = total_blocks then bits else total_blocks mod bits)"

definition allocator_create ::
    "block_manager \<Rightarrow> nat \<Rightarrow> bool \<Rightarrow> (block_allocator \<times> block_manager) option" where
  "allocator_create bm bitmap_block_id will_initialize = do {
     let total_bits_per_block = u32 (bm_block_sz bm * KBitsPerByte);
     chfs_assert (total_bits_per_block \<noteq> 0);
     let bitmap_block_cnt = total_bitmap_block (bm_block_cnt bm) total_bits_per_block;
     chfs_assert (0 < bitmap_block_cnt);
     chfs_assert (u64 (bitmap_block_cnt + bitmap_block_id) \<le> bm_block_cnt bm);
     let last_block_num = last_block_bits (bm_block_cnt bm) total_bits_per_block bitmap_block_cnt;
     chfs_assert (last_block_num \<le> total_bits_per_block);
     let al = \<lparr>al_bitmap_block_id = bitmap_block_id, al_bitmap_block_cnt = bitmap_block_cnt,
               al_last_block_num = last_block_num\<rparr>;
     if \<not> will_initialize then Some (al, bm)
     else do {
       bm1 \<leftarrow> zero_blocks bm bitmap_block_id 0 bitmap_block_cnt;
       buffer \<leftarrow> bitmap_zeroed (bm_block_sz bm) (replicate (bm_block_sz bm) 0);
       (bm2, cur_block_id, buffer') \<leftarrow>
         mark_loop bm1 bitmap_block_id total_bits_per_block 0
           (u64 (bitmap_block_cnt + bitmap_block_id)) bitmap_block_id buffer;
       (_, bm3) \<leftarrow> write_block bm2 cur_block_id buffer';
       Some (al, bm3)
     }
   }"

text \<open>The bits of bitmap block \<open>i\<close>, all of them or in the last block the used part.\<close>

definition count_in_block :: "block_manager \<Rightarrow> block_allocator \<Rightarrow> nat \<Rightarrow> byte list \<Rightarrow> nat option" where
  "count_in_block bm al i buffer =
     (if i = sub64 (al_bitmap_block_cnt al) 1
      then count_zeros_to_bound (bm_block_sz bm) buffer (al_last_block_num al)
      else count_zeros (bm_block_sz bm) buffer)"

fun free_cnt_loop :: "block_manager \<Rightarrow> block_allocator \<Rightarrow> nat \<Rightarrow> nat \<Rightarrow> nat \<Rightarrow> nat option" where
  "free_cnt_loop bm al i 0 total_free_blocks = Some total_free_blocks"
| "free_cnt_loop bm al i (Suc n) total_free_blocks = do {
     res \<leftarrow> read_block bm (u64 (i + al_bitmap_block_id al)) (bm_block_sz bm);
     buffer \<leftarrow> unwrap res;
     n_free_blocks \<leftarrow> count_in_block bm al i buffer;
     free_cnt_loop bm al (Suc i) n (u32 (total_free_blocks + n_free_blocks))
   }"

definition free_block_cnt :: "block_manager \<Rightarrow> block_allocator \<Rightarrow> nat option" where
  "free_block_cnt bm al = free_cnt_loop bm al 0 (al_bitmap_block_cnt al) 0"

definition search_in_block ::
    "block_manager \<Rightarrow> block_allocator \<Rightarrow> nat \<Rightarrow> byte list \<Rightarrow> nat option option" where
  "search_in_block bm al i buffer =
     (if i = sub64 (al_bitmap_block_cnt al) 1
      then find_first_free_w_bound (bm_block_sz bm) buffer (al_last_block_num al)
      else find_first_free (bm_block_sz bm) buffer)"

text \<open>
  The loop over the bitmap blocks. The results of \<open>read_block\<close> and \<open>write_block\<close> are not
  looked at: a failed read would leave the buffer as it was, a failed write is lost.
\<close>

fun allocate_loop :: "block_manager \<Rightarrow> block_allocator \<Rightarrow> nat \<Rightarrow> nat \<Rightarrow> byte list \<Rightarrow>
    (nat chfs_result \<times> block_manager) option" where
  "allocate_loop bm al i 0 buffer0 = Some (Err OUT_OF_RESOURCE, bm)"
| "allocate_loop bm al i (Suc n) buffer0 = do {
     rd \<leftarrow> read_block bm (u64 (i + al_bitmap_block_id al)) (length buffer0);
     let buffer = (case rd of Ok b \<Rightarrow> b | Err _ \<Rightarrow> buffer0);
     res \<leftarrow> search_in_block bm al i buffer;
     case res of
       Some retval \<Rightarrow> do {
         buffer1 \<leftarrow> bitmap_set (bm_block_sz bm) buffer retval;
         b \<leftarrow> at buffer1 (retval div KBitsPerByte);
         buffer2 \<leftarrow> upd buffer1 (retval div KBitsPerByte) (b OR push_bit (retval mod KBitsPerByte) 1);
         (_, bm') \<leftarrow> write_block bm (u64 (i + al_bitmap_block_id al)) buffer2;
         Some (Ok (u64 (u32 (u32 (i * bm_block_sz bm) * KBitsPerByte) + retval)), bm')
       }
     | None \<Rightarrow> allocate_loop bm al (Suc i) n buffer
   }"

definition allocate :: "block_manager \<Rightarrow> block_allocator \<Rightarrow> (nat chfs_result \<times> block_manager) option" where
  "allocate bm al =
     allocate_loop bm al 0 (al_bitmap_block_cnt al) (replicate (bm_block_sz bm) 0)"

definition deallocate ::
    "block_manager \<Rightarrow> block_allocator \<Rightarrow> nat \<Rightarrow> (null_result \<times> block_manager) option" where
  "deallocate bm al block_id =
     (if bm_block_cnt bm \<le> block_id then Some (Err INVALID_ARG, bm)
      else do {
        let bits = u32 (bm_block_sz bm * KBitsPerByte);
        chfs_assert (bits \<noteq> 0);
        let bitmap_block_idx = block_id div bits;
        let bit_idx = block_id mod bits;
        rd \<leftarrow> read_block bm (u64 (bitmap_block_idx + al_bitmap_block_id al)) (bm_block_sz bm);
        let buffer = (case rd of Ok b \<Rightarrow> b | Err _ \<Rightarrow> replicate (bm_block_sz bm) 0);
        c \<leftarrow> bitmap_check (bm_block_sz bm) buffer bit_idx;
        if \<not> c then Some (Err INVALID_ARG, bm)
        else do {
          buffer1 \<leftarrow> bitmap_clear (bm_block_sz bm) buffer bit_idx;
          b \<leftarrow> at buffer1 (bit_idx div KBitsPerByte);
          buffer2 \<leftarrow> upd buffer1 (bit_idx div KBitsPerByte)
            (b AND NOT (push_bit (bit_idx mod KBitsPerByte) 1));
          (_, bm') \<leftarrow> write_block bm (u64 (bitmap_block_idx + al_bitmap_block_id al)) buffer2;
          Some (KNullOk, bm')
        }
      })"

section \<open>The set of allocated blocks\<close>

abbreviation (input) blk_bits :: "block_manager \<Rightarrow> nat" where
  "blk_bits bm \<equiv> bm_block_sz bm * 8"

definition alloc_ok :: "block_manager \<Rightarrow> block_allocator \<Rightarrow> bool" where
  "alloc_ok bm al \<longleftrightarrow> bm_ok bm \<and> \<not> bm_maybe_failed bm \<and> bm_block_sz bm * 8 < 2 ^ 32 \<and>
     0 < al_bitmap_block_cnt al \<and>
     al_bitmap_block_id al + al_bitmap_block_cnt al \<le> bm_block_cnt bm \<and>
     0 < al_last_block_num al \<and> al_last_block_num al \<le> blk_bits bm \<and>
     (al_bitmap_block_cnt al - 1) * blk_bits bm + al_last_block_num al = bm_block_cnt bm"

definition bitmap_area :: "block_allocator \<Rightarrow> nat set" where
  "bitmap_area al = {al_bitmap_block_id al..<al_bitmap_block_id al + al_bitmap_block_cnt al}"

definition marked :: "block_manager \<Rightarrow> block_allocator \<Rightarrow> nat \<Rightarrow> bool" where
  "marked bm al i =
     bitmap_bit (blk bm (al_bitmap_block_id al + i div blk_bits bm)) (i mod blk_bits bm)"

definition alloc_used :: "block_manager \<Rightarrow> block_allocator \<Rightarrow> nat set" where
  "alloc_used bm al = {i. i < bm_block_cnt bm \<and> marked bm al i}"

lemma alloc_okD:
  assumes "alloc_ok bm al"
  shows "bm_ok bm" "\<not> bm_maybe_failed bm" "0 < bm_block_sz bm" "blk_bits bm < 2 ^ 32"
    "u32 (blk_bits bm) = blk_bits bm"
  using assms by (auto simp: alloc_ok_def u32_def)

lemma alloc_ok_cnt: "alloc_ok bm al \<Longrightarrow> bm_block_cnt bm < 2 ^ 32"
  by (rule bm_ok_cnt) (simp add: alloc_ok_def)

lemma bitmap_area_in_dev:
  "alloc_ok bm al \<Longrightarrow> j < al_bitmap_block_cnt al \<Longrightarrow> in_dev bm (al_bitmap_block_id al + j)"
  by (rule in_dev_bound) (auto simp: alloc_ok_def)

lemma bitmap_area_id:
  assumes "alloc_ok bm al" "j < al_bitmap_block_cnt al"
  shows "u64 (j + al_bitmap_block_id al) = al_bitmap_block_id al + j"
  using assms alloc_ok_cnt [OF assms(1)] by (simp add: u64_def alloc_ok_def)

lemma bitmap_ok_blk:
  "alloc_ok bm al \<Longrightarrow> j < al_bitmap_block_cnt al \<Longrightarrow>
   bitmap_ok (bm_block_sz bm) (blk bm (al_bitmap_block_id al + j))"
  by (simp add: bitmap_ok_def bitmap_area_in_dev alloc_ok_def)

text \<open>The number of bits of bitmap block \<open>j\<close> that stand for blocks of the device.\<close>

definition bits_in :: "block_manager \<Rightarrow> block_allocator \<Rightarrow> nat \<Rightarrow> nat" where
  "bits_in bm al j = (if j = al_bitmap_block_cnt al - 1 then al_last_block_num al else blk_bits bm)"

lemma bits_in_le: "alloc_ok bm al \<Longrightarrow> bits_in bm al j \<le> blk_bits bm"
  by (simp add: bits_in_def alloc_ok_def)

lemma block_index_iff:
  assumes "alloc_ok bm al"
  shows "i < bm_block_cnt bm \<longleftrightarrow>
    i div blk_bits bm < al_bitmap_block_cnt al \<and> i mod blk_bits bm < bits_in bm al (i div blk_bits bm)"
proof -
  let ?b = "blk_bits bm" and ?c = "al_bitmap_block_cnt al - 1"
  have b: "0 < ?b" and tot: "?c * ?b + al_last_block_num al = bm_block_cnt bm"
    and last: "0 < al_last_block_num al" "al_last_block_num al \<le> ?b" and c: "0 < al_bitmap_block_cnt al"
    using assms alloc_okD [OF assms] by (auto simp: alloc_ok_def)
  have i: "i = i div ?b * ?b + i mod ?b" "i mod ?b < ?b"
    using b by (metis div_mult_mod_eq, metis mod_less_divisor)
  consider "i div ?b < ?c" | "i div ?b = ?c" | "?c < i div ?b" by linarith
  then show ?thesis
  proof cases
    case 1
    then have "i div ?b * ?b + ?b \<le> ?c * ?b"
      using mult_le_mono1 [of "Suc (i div ?b)" ?c ?b] by simp
    with 1 i tot have "i < bm_block_cnt bm" by linarith
    with 1 i(2) c show ?thesis by (simp add: bits_in_def)
  next
    case 2
    with i tot c show ?thesis
      by (metis bits_in_def diff_less less_one nat_add_left_cancel_less)
  next
    case 3
    then have "?c * ?b + ?b \<le> i div ?b * ?b"
      using mult_le_mono1 [of "Suc ?c" "i div ?b" ?b] by simp
    with i tot last have "bm_block_cnt bm \<le> i" by linarith
    with 3 show ?thesis by linarith
  qed
qed

lemma if_both: "(if c then f a else f b) = f (if c then a else b)"
  by simp

text \<open>A search of the bits of one bitmap block is a search of the block numbers it stands for.\<close>

lemma find_in_block:
  assumes "m \<le> blk_bits bm"
  shows "List.find (\<lambda>k. \<not> marked bm al k) [i * blk_bits bm..<i * blk_bits bm + m] =
    map_option (\<lambda>k. i * blk_bits bm + k)
      (List.find (\<lambda>k. \<not> bitmap_bit (blk bm (al_bitmap_block_id al + i)) k) [0..<m])"
proof -
  let ?b = "blk_bits bm"
  have "[i * ?b..<i * ?b + m] = map (\<lambda>k. i * ?b + k) [0..<m]"
    using map_add_upt [of "i * ?b" m] by (simp add: add.commute)
  moreover have "List.find ((\<lambda>k. \<not> marked bm al k) \<circ> (\<lambda>k. i * ?b + k)) [0..<m] =
      List.find (\<lambda>k. \<not> bitmap_bit (blk bm (al_bitmap_block_id al + i)) k) [0..<m]"
    using assms by (intro find_cong) (auto simp: marked_def)
  ultimately show ?thesis
    by (simp add: find_map)
qed

lemma blocks_split:
  assumes "alloc_ok bm al" "i < al_bitmap_block_cnt al"
  shows "[i * blk_bits bm..<bm_block_cnt bm] =
    [i * blk_bits bm..<i * blk_bits bm + bits_in bm al i] @ [Suc i * blk_bits bm..<bm_block_cnt bm]"
proof (cases "i = al_bitmap_block_cnt al - 1")
  case True
  then have "i * blk_bits bm + bits_in bm al i = bm_block_cnt bm"
    using assms(1) by (simp add: bits_in_def alloc_ok_def)
  moreover have "bm_block_cnt bm \<le> Suc i * blk_bits bm"
    using bits_in_le [OF assms(1), of i] calculation by simp
  ultimately show ?thesis by simp
next
  case False
  then have "Suc i * blk_bits bm \<le> (al_bitmap_block_cnt al - 1) * blk_bits bm"
    using assms(2) by (intro mult_le_mono1) simp
  then have "Suc i * blk_bits bm \<le> bm_block_cnt bm"
    using assms(1) by (simp add: alloc_ok_def)
  then show ?thesis
    using False upt_split [of "i * blk_bits bm" "Suc i * blk_bits bm" "bm_block_cnt bm"]
    by (simp add: bits_in_def add.commute)
qed

section \<open>Allocating\<close>

text \<open>Setting a bit through the bitmap and once more in the buffer sets it.\<close>

lemma set_twice_ok:
  assumes "bitmap_ok payload data" "i < payload * 8"
  obtains d1 d2 where "bitmap_set payload data i = Some d1"
    "at d1 (i div 8) = Some (d1 ! (i div 8))"
    "upd d1 (i div 8) (d1 ! (i div 8) OR push_bit (i mod 8) 1) = Some d2" "bitmap_ok payload d2"
    "\<And>j. j < payload * 8 \<Longrightarrow> bitmap_bit d2 j = (j = i \<or> bitmap_bit data j)"
proof -
  from bitmap_set_ok [OF assms] obtain d1 where d1: "bitmap_set payload data i = Some d1"
    "bitmap_ok payload d1" "\<And>j. j < payload * 8 \<Longrightarrow> bitmap_bit d1 j = (j = i \<or> bitmap_bit data j)"
    by blast
  from bitmap_set_ok [OF d1(2) assms(2)] obtain d2 where d2: "bitmap_set payload d1 i = Some d2"
    "bitmap_ok payload d2" "\<And>j. j < payload * 8 \<Longrightarrow> bitmap_bit d2 j = (j = i \<or> bitmap_bit d1 j)"
    by blast
  have at: "at d1 (i div 8) = Some (d1 ! (i div 8))"
    using assms d1(2) by (simp add: bitmap_ok_def)
  have "upd d1 (i div 8) (d1 ! (i div 8) OR push_bit (i mod 8) 1) = Some d2"
    using d2(1) assms d1(2) by (simp add: bitmap_set_def bitmap_okD)
  with that d1 d2 at show thesis by auto
qed

lemma clear_twice_ok:
  assumes "bitmap_ok payload data" "i < payload * 8"
  obtains d1 d2 where "bitmap_clear payload data i = Some d1"
    "at d1 (i div 8) = Some (d1 ! (i div 8))"
    "upd d1 (i div 8) (d1 ! (i div 8) AND NOT (push_bit (i mod 8) 1)) = Some d2" "bitmap_ok payload d2"
    "\<And>j. j < payload * 8 \<Longrightarrow> bitmap_bit d2 j = (j \<noteq> i \<and> bitmap_bit data j)"
proof -
  from bitmap_clear_ok [OF assms] obtain d1 where d1: "bitmap_clear payload data i = Some d1"
    "bitmap_ok payload d1" "\<And>j. j < payload * 8 \<Longrightarrow> bitmap_bit d1 j = (j \<noteq> i \<and> bitmap_bit data j)"
    by blast
  from bitmap_clear_ok [OF d1(2) assms(2)] obtain d2 where d2: "bitmap_clear payload d1 i = Some d2"
    "bitmap_ok payload d2" "\<And>j. j < payload * 8 \<Longrightarrow> bitmap_bit d2 j = (j \<noteq> i \<and> bitmap_bit d1 j)"
    by blast
  have at: "at d1 (i div 8) = Some (d1 ! (i div 8))"
    using assms d1(2) by (simp add: bitmap_ok_def)
  have "upd d1 (i div 8) (d1 ! (i div 8) AND NOT (push_bit (i mod 8) 1)) = Some d2"
    using d2(1) assms d1(2) by (simp add: bitmap_clear_def bitmap_okD)
  with that d1 d2 at show thesis by auto
qed

text \<open>Writing back a bitmap block in which one bit was changed to \<open>v\<close>.\<close>

definition flips :: "block_manager \<Rightarrow> block_allocator \<Rightarrow> nat \<Rightarrow> bool \<Rightarrow> byte list \<Rightarrow> bool" where
  "flips bm al k v d \<longleftrightarrow> bitmap_ok (bm_block_sz bm) d \<and>
     (\<forall>j < blk_bits bm. bitmap_bit d j =
       (if j = k mod blk_bits bm then v
        else bitmap_bit (blk bm (al_bitmap_block_id al + k div blk_bits bm)) j))"

abbreviation (input) put_bitmap where
  "put_bitmap bm al k d \<equiv> put_blk bm (al_bitmap_block_id al + k div blk_bits bm) d"

lemma put_bitmap_ok:
  assumes ok: "alloc_ok bm al" and k: "k < bm_block_cnt bm" and d: "flips bm al k v d"
  shows "alloc_ok (put_bitmap bm al k d) al"
    "only_changes (bitmap_area al) bm (put_bitmap bm al k d)"
    "alloc_used (put_bitmap bm al k d) al = (if v then insert k (alloc_used bm al) else alloc_used bm al - {k})"
proof -
  let ?b = "blk_bits bm" and ?bm = "put_bitmap bm al k d"
  have kj: "k div ?b < al_bitmap_block_cnt al"
    using block_index_iff [OF ok] k by blast
  note dev = bitmap_area_in_dev [OF ok kj] and len = d [unfolded flips_def bitmap_ok_def]
  show "alloc_ok ?bm al"
    using ok dev len by (simp add: alloc_ok_def)
  show "only_changes (bitmap_area al) bm ?bm"
    using dev len kj by (intro only_changes_put_blk) (auto simp: bitmap_area_def)
  have m: "marked ?bm al i = (if i = k then v else marked bm al i)" if i: "i < bm_block_cnt bm" for i
  proof -
    have ij: "i div ?b < al_bitmap_block_cnt al" "i mod ?b < ?b"
      using block_index_iff [OF ok] i bits_in_le [OF ok] by (blast, meson less_le_trans)
    have "marked ?bm al i =
        bitmap_bit (if i div ?b = k div ?b then d else blk bm (al_bitmap_block_id al + i div ?b)) (i mod ?b)"
      using blk_put_blk [OF dev bitmap_area_in_dev [OF ok ij(1)], of d] len
      by (simp add: marked_def)
    moreover have "i = k \<longleftrightarrow> i div ?b = k div ?b \<and> i mod ?b = k mod ?b"
      by (metis div_mult_mod_eq)
    ultimately show ?thesis
      using d ij(2) by (auto simp: flips_def marked_def)
  qed
  show "alloc_used ?bm al = (if v then insert k (alloc_used bm al) else alloc_used bm al - {k})"
    using m k by (auto simp: alloc_used_def split: if_splits)
qed

lemma allocate_loop_ok:
  assumes ok: "alloc_ok bm al"
  shows "i + n = al_bitmap_block_cnt al \<Longrightarrow> length buffer0 = bm_block_sz bm \<Longrightarrow>
    (case List.find (\<lambda>k. \<not> marked bm al k) [i * blk_bits bm..<bm_block_cnt bm] of
       None \<Rightarrow> allocate_loop bm al i n buffer0 = Some (Err OUT_OF_RESOURCE, bm)
     | Some k \<Rightarrow> \<exists>d. flips bm al k True d \<and>
         allocate_loop bm al i n buffer0 = Some (Ok k, put_bitmap bm al k d))"
proof (induction n arbitrary: i buffer0)
  case 0
  then have "bm_block_cnt bm \<le> i * blk_bits bm"
    using ok mult_le_mono1 [of _ _ "blk_bits bm"]
    by (cases "al_bitmap_block_cnt al") (auto simp: alloc_ok_def)
  then show ?case by simp
next
  case (Suc n)
  let ?b = "blk_bits bm" and ?j = "al_bitmap_block_id al + i"
  have i: "i < al_bitmap_block_cnt al" using Suc.prems by simp
  note bok = bitmap_ok_blk [OF ok i] and dev = bitmap_area_in_dev [OF ok i] and aok = alloc_okD [OF ok]
  have rd: "read_block bm ?j (length buffer0) = Some (Ok (blk bm ?j))"
    using Suc.prems(2) by (simp add: read_block_ok aok dev)
  have last: "i = sub64 (al_bitmap_block_cnt al) 1 \<longleftrightarrow> i = al_bitmap_block_cnt al - 1"
    using i alloc_ok_cnt [OF ok] ok by (simp add: sub64_id alloc_ok_def)
  have bound: "al_last_block_num al \<le> ?b" using ok by (simp add: alloc_ok_def)
  have search: "search_in_block bm al i (blk bm ?j) =
      Some (List.find (\<lambda>k. \<not> bitmap_bit (blk bm ?j) k) [0..<bits_in bm al i])"
    unfolding search_in_block_def last bits_in_def find_first_free_w_bound_ok [OF bok bound] find_first_free_ok [OF bok]
    by (rule if_both)
  have find: "List.find (\<lambda>k. \<not> marked bm al k) [i * ?b..<bm_block_cnt bm] =
      (case List.find (\<lambda>k. \<not> bitmap_bit (blk bm ?j) k) [0..<bits_in bm al i] of
         None \<Rightarrow> List.find (\<lambda>k. \<not> marked bm al k) [Suc i * ?b..<bm_block_cnt bm]
       | Some k \<Rightarrow> Some (i * ?b + k))"
    by (simp add: blocks_split [OF ok i] find_append find_in_block [OF bits_in_le [OF ok]]
        del: upt_Suc mult_Suc split: option.split)
  show ?case
  proof (cases "List.find (\<lambda>k. \<not> bitmap_bit (blk bm ?j) k) [0..<bits_in bm al i]")
    case None
    have "length (blk bm ?j) = bm_block_sz bm" using dev by simp
    moreover have "allocate_loop bm al i (Suc n) buffer0 = allocate_loop bm al (Suc i) n (blk bm ?j)"
      using None by (simp add: bitmap_area_id [OF ok i] rd search Let_def del: One_nat_def)
    ultimately show ?thesis
      using Suc.IH [of "Suc i" "blk bm ?j"] Suc.prems(1) None
      by (simp only: find option.case)
  next
    case (Some k)
    then have k: "k < bits_in bm al i" "k < ?b"
      using bits_in_le [OF ok, of i] by (auto simp: find_upt_Some)
    from set_twice_ok [OF bok k(2)] obtain d1 d2 where d:
      "bitmap_set (bm_block_sz bm) (blk bm ?j) k = Some d1" "at d1 (k div 8) = Some (d1 ! (k div 8))"
      "upd d1 (k div 8) (d1 ! (k div 8) OR push_bit (k mod 8) 1) = Some d2"
      "bitmap_ok (bm_block_sz bm) d2"
      "\<And>j. j < ?b \<Longrightarrow> bitmap_bit d2 j = (j = k \<or> bitmap_bit (blk bm ?j) j)" by blast
    have idx: "(i * ?b + k) div ?b = i" "(i * ?b + k) mod ?b = k" using k by auto
    have "i * ?b + k < bm_block_cnt bm" using block_index_iff [OF ok] k i idx by simp
    then have "i * ?b + k < 2 ^ 32" using alloc_ok_cnt [OF ok] by simp
    then have val: "u64 (u32 (u32 (i * bm_block_sz bm) * 8) + k) = i * ?b + k"
      by (simp add: u32_def u64_def mult.assoc)
    have "flips bm al (i * ?b + k) True d2"
      using d(4,5) by (simp only: flips_def idx) simp
    moreover have "write_block bm ?j d2 = Some (KNullOk, put_blk bm ?j d2)"
      using aok dev d(4) by (simp add: write_block_ok bitmap_ok_def)
    ultimately show ?thesis
      unfolding find using Some d(1-3)
      by (auto simp: rd search bitmap_area_id [OF ok i] idx val Let_def
          simp del: upt_Suc mult_Suc at_simps upd_simps One_nat_def push_bit_of_1)
  qed
qed

lemma used_iff_find:
  "alloc_used bm al = {..<bm_block_cnt bm} \<longleftrightarrow>
   List.find (\<lambda>k. \<not> marked bm al k) [0..<bm_block_cnt bm] = None"
  by (auto simp: find_upt_None alloc_used_def)

text \<open>
  \<open>allocate\<close> on a healthy device: the smallest free block is returned and marked, and
  only the bitmap changes; \<open>OUT_OF_RESOURCE\<close> exactly when every block is in use.
\<close>

lemma allocate_full:
  assumes "alloc_ok bm al" "alloc_used bm al = {..<bm_block_cnt bm}"
  shows "allocate bm al = Some (Err OUT_OF_RESOURCE, bm)"
  using allocate_loop_ok [OF assms(1), of 0 "al_bitmap_block_cnt al" "replicate (bm_block_sz bm) 0"]
    assms(2)
  by (simp add: allocate_def used_iff_find)

lemma allocate_free:
  assumes "alloc_ok bm al" "alloc_used bm al \<noteq> {..<bm_block_cnt bm}"
  obtains k bm' where "allocate bm al = Some (Ok k, bm')" "k < bm_block_cnt bm" "k \<notin> alloc_used bm al"
    "{..<k} \<subseteq> alloc_used bm al" "alloc_ok bm' al" "only_changes (bitmap_area al) bm bm'"
    "alloc_used bm' al = insert k (alloc_used bm al)"
proof -
  from assms(2) obtain k where find: "List.find (\<lambda>k. \<not> marked bm al k) [0..<bm_block_cnt bm] = Some k"
    by (auto simp: used_iff_find)
  then have k: "k < bm_block_cnt bm" "\<not> marked bm al k" "\<forall>j<k. marked bm al j"
    by (auto simp: find_upt_Some)
  from allocate_loop_ok [OF assms(1), of 0 "al_bitmap_block_cnt al" "replicate (bm_block_sz bm) 0"] find
  obtain d where d: "flips bm al k True d" "allocate bm al = Some (Ok k, put_bitmap bm al k d)"
    by (auto simp: allocate_def)
  have "k \<notin> alloc_used bm al" "{..<k} \<subseteq> alloc_used bm al"
    using k by (auto simp: alloc_used_def)
  with k(1) put_bitmap_ok [OF assms(1) k(1) d(1)] show thesis
    by (intro that [OF d(2)]) simp_all
qed

section \<open>Deallocating\<close>

lemma deallocate_used:
  assumes ok: "alloc_ok bm al" and k: "k \<in> alloc_used bm al"
  obtains bm' where "deallocate bm al k = Some (KNullOk, bm')" "alloc_ok bm' al"
    "only_changes (bitmap_area al) bm bm'" "alloc_used bm' al = alloc_used bm al - {k}"
proof -
  let ?b = "blk_bits bm" and ?j = "k div blk_bits bm"
  have kl: "k < bm_block_cnt bm" "marked bm al k" using k by (auto simp: alloc_used_def)
  have j: "?j < al_bitmap_block_cnt al" "k mod ?b < ?b"
    using block_index_iff [OF ok] kl bits_in_le [OF ok] by (blast, meson less_le_trans)
  note bok = bitmap_ok_blk [OF ok j(1)] and dev = bitmap_area_in_dev [OF ok j(1)] and aok = alloc_okD [OF ok]
  from clear_twice_ok [OF bok j(2)] obtain d1 d2 where d:
    "bitmap_clear (bm_block_sz bm) (blk bm (al_bitmap_block_id al + ?j)) (k mod ?b) = Some d1"
    "at d1 (k mod ?b div 8) = Some (d1 ! (k mod ?b div 8))"
    "upd d1 (k mod ?b div 8) (d1 ! (k mod ?b div 8) AND NOT (push_bit (k mod ?b mod 8) 1)) = Some d2"
    "bitmap_ok (bm_block_sz bm) d2"
    "\<And>i. i < ?b \<Longrightarrow> bitmap_bit d2 i =
      (i \<noteq> k mod ?b \<and> bitmap_bit (blk bm (al_bitmap_block_id al + ?j)) i)" by blast
  have fl: "flips bm al k False d2" using d(4,5) by (simp add: flips_def)
  have "write_block bm (al_bitmap_block_id al + ?j) d2 = Some (KNullOk, put_bitmap bm al k d2)"
    using aok dev d(4) by (simp add: write_block_ok bitmap_ok_def)
  then have "deallocate bm al k = Some (KNullOk, put_bitmap bm al k d2)"
    unfolding deallocate_def
    using kl aok d(1-3) j
    by (simp add: read_block_ok dev bitmap_area_id [OF ok j(1)] bitmap_check_ok [OF bok] marked_def
        del: at_simps upd_simps)
  from that [OF this] put_bitmap_ok [OF ok kl(1) fl] show thesis by simp
qed

lemma deallocate_unused:
  assumes ok: "alloc_ok bm al" and k: "k \<notin> alloc_used bm al"
  shows "deallocate bm al k = Some (Err INVALID_ARG, bm)"
proof (cases "k < bm_block_cnt bm")
  case True
  let ?b = "blk_bits bm" and ?j = "k div blk_bits bm"
  have j: "?j < al_bitmap_block_cnt al" "k mod ?b < ?b"
    using block_index_iff [OF ok] True bits_in_le [OF ok] by (blast, meson less_le_trans)
  note bok = bitmap_ok_blk [OF ok j(1)] and dev = bitmap_area_in_dev [OF ok j(1)] and aok = alloc_okD [OF ok]
  show ?thesis
    unfolding deallocate_def
    using True k aok j
    by (simp add: read_block_ok dev bitmap_area_id [OF ok j(1)] bitmap_check_ok [OF bok] marked_def
        alloc_used_def)
qed (simp add: deallocate_def)

section \<open>Counting the free blocks\<close>

lemma filter_in_block:
  assumes "m \<le> blk_bits bm"
  shows "length (filter (\<lambda>k. \<not> marked bm al k) [i * blk_bits bm..<i * blk_bits bm + m]) =
    length (filter (\<lambda>k. \<not> bitmap_bit (blk bm (al_bitmap_block_id al + i)) k) [0..<m])"
proof -
  let ?b = "blk_bits bm"
  have "[i * ?b..<i * ?b + m] = map (\<lambda>k. i * ?b + k) [0..<m]"
    using map_add_upt [of "i * ?b" m] by (simp add: add.commute)
  moreover have "filter ((\<lambda>k. \<not> marked bm al k) \<circ> (\<lambda>k. i * ?b + k)) [0..<m] =
      filter (\<lambda>k. \<not> bitmap_bit (blk bm (al_bitmap_block_id al + i)) k) [0..<m]"
    using assms by (intro filter_cong) (auto simp: marked_def)
  ultimately show ?thesis
    by (simp add: filter_map)
qed

lemma free_cnt_loop_ok:
  assumes ok: "alloc_ok bm al"
  shows "i + n = al_bitmap_block_cnt al \<Longrightarrow> acc \<le> i * blk_bits bm \<Longrightarrow>
    free_cnt_loop bm al i n acc =
      Some (acc + length (filter (\<lambda>k. \<not> marked bm al k) [i * blk_bits bm..<bm_block_cnt bm]))"
proof (induction n arbitrary: i acc)
  case 0
  then have "bm_block_cnt bm \<le> i * blk_bits bm"
    using ok by (cases "al_bitmap_block_cnt al") (auto simp: alloc_ok_def)
  then show ?case by simp
next
  case (Suc n)
  let ?b = "blk_bits bm" and ?j = "al_bitmap_block_id al + i"
  have i: "i < al_bitmap_block_cnt al" using Suc.prems by simp
  note bok = bitmap_ok_blk [OF ok i] and dev = bitmap_area_in_dev [OF ok i] and aok = alloc_okD [OF ok]
  let ?f = "length (filter (\<lambda>k. \<not> bitmap_bit (blk bm ?j) k) [0..<bits_in bm al i])"
  have rd: "read_block bm (u64 (i + al_bitmap_block_id al)) (bm_block_sz bm) = Some (Ok (blk bm ?j))"
    by (simp add: bitmap_area_id [OF ok i] read_block_ok aok dev)
  have last: "i = sub64 (al_bitmap_block_cnt al) 1 \<longleftrightarrow> i = al_bitmap_block_cnt al - 1"
    using i alloc_ok_cnt [OF ok] ok by (simp add: sub64_id alloc_ok_def)
  have bound: "al_last_block_num al \<le> ?b" using ok by (simp add: alloc_ok_def)
  have cnt: "count_in_block bm al i (blk bm ?j) = Some ?f"
    unfolding count_in_block_def last bits_in_def count_zeros_to_bound_ok [OF bok bound] count_zeros_ok [OF bok]
    by (rule if_both)
  have "?f \<le> bits_in bm al i" using length_filter_le [of _ "[0..<bits_in bm al i]"] by simp
  moreover have "i * ?b + bits_in bm al i \<le> bm_block_cnt bm"
  proof (cases "i = al_bitmap_block_cnt al - 1")
    case False
    then have "Suc i * ?b \<le> (al_bitmap_block_cnt al - 1) * ?b" using i by (intro mult_le_mono1) simp
    with False ok show ?thesis by (simp add: bits_in_def alloc_ok_def)
  qed (use ok in \<open>simp add: bits_in_def alloc_ok_def\<close>)
  ultimately have f: "acc + ?f < 2 ^ 32" "acc + ?f \<le> Suc i * ?b"
    using Suc.prems(2) alloc_ok_cnt [OF ok] bits_in_le [OF ok, of i] by auto
  show ?case
    using Suc.IH [of "Suc i" "acc + ?f"] Suc.prems(1) f
    by (simp add: rd cnt u32_id blocks_split [OF ok i] filter_in_block [OF bits_in_le [OF ok]]
        del: upt_Suc mult_Suc One_nat_def)
qed

lemma free_block_cnt_ok:
  assumes "alloc_ok bm al"
  shows "free_block_cnt bm al = Some (card ({..<bm_block_cnt bm} - alloc_used bm al))"
proof -
  have "{..<bm_block_cnt bm} - alloc_used bm al =
      set (filter (\<lambda>k. \<not> marked bm al k) [0..<bm_block_cnt bm])"
    by (auto simp: alloc_used_def)
  then have "card ({..<bm_block_cnt bm} - alloc_used bm al) =
      length (filter (\<lambda>k. \<not> marked bm al k) [0..<bm_block_cnt bm])"
    by (simp only: distinct_card distinct_filter distinct_upt)
  with free_cnt_loop_ok [OF assms, of 0 "al_bitmap_block_cnt al" 0] show ?thesis
    by (simp add: free_block_cnt_def)
qed

section \<open>The constructor\<close>

lemma zero_blocks_ok:
  "bm_ok bm \<Longrightarrow> base + i + n \<le> bm_block_cnt bm \<Longrightarrow> bm_block_cnt bm < 2 ^ 32 \<Longrightarrow>
   \<exists>bm'. zero_blocks bm base i n = Some bm' \<and> only_changes {base + i..<base + i + n} bm bm' \<and>
     (\<forall>j. i \<le> j \<and> j < i + n \<longrightarrow> blk bm' (base + j) = replicate (bm_block_sz bm) 0)"
proof (induction n arbitrary: i bm)
  case (Suc n)
  let ?z = "replicate (bm_block_sz bm) 0" and ?bm = "put_blk bm (base + i) (replicate (bm_block_sz bm) 0)"
  have dev: "in_dev bm (base + i)" using Suc.prems by (intro in_dev_bound) auto
  have ok: "bm_ok ?bm" using Suc.prems(1) dev by simp
  have id: "u64 (i + base) = base + i" using Suc.prems by (simp add: u64_def)
  from Suc.IH [OF ok, of "Suc i"] Suc.prems obtain bm' where
    bm': "zero_blocks ?bm base (Suc i) n = Some bm'"
      "only_changes {base + Suc i..<base + Suc i + n} ?bm bm'"
      "\<And>j. Suc i \<le> j \<and> j < Suc i + n \<Longrightarrow> blk bm' (base + j) = ?z" by auto
  have "zero_blocks bm base i (Suc n) = Some bm'"
    using bm'(1) Suc.prems(1) dev by (simp add: id zero_block_ok)
  moreover have "only_changes {base + i..<base + i + Suc n} bm bm'"
    using only_changes_trans [OF only_changes_put_blk [OF dev, of ?z "{base + i}"] bm'(2)]
    by (rule only_changes_mono) auto
  moreover have "blk bm' (base + i) = ?z"
    using only_changes_blk [OF bm'(2), of "base + i"] dev by (simp add: blk_put_blk)
  then have "blk bm' (base + j) = ?z" if "i \<le> j \<and> j < i + Suc n" for j
    using bm'(3) [of j] that by (cases "j = i") auto
  ultimately show ?case by auto
qed auto

text \<open>
  The invariant of the marking loop after \<open>i\<close> rounds: with the buffer in place of bitmap
  block \<open>c\<close>, exactly the first \<open>i\<close> bits of the bitmap are set.
\<close>

definition mark_inv :: "block_manager \<Rightarrow> nat \<Rightarrow> nat \<Rightarrow> nat \<Rightarrow> nat \<Rightarrow> byte list \<Rightarrow> bool" where
  "mark_inv bm base cnt i c buffer \<longleftrightarrow> bitmap_ok (bm_block_sz bm) buffer \<and> c < cnt \<and>
     c * blk_bits bm \<le> i \<and> i \<le> Suc c * blk_bits bm \<and>
     (\<forall>j k. j < cnt \<longrightarrow> k < blk_bits bm \<longrightarrow>
        bitmap_bit (if j = c then buffer else blk bm (base + j)) k = (j * blk_bits bm + k < i))"

lemma mark_inv_bits:
  "mark_inv bm base cnt i c buffer \<Longrightarrow> j < cnt \<Longrightarrow> k < blk_bits bm \<Longrightarrow>
   bitmap_bit (if j = c then buffer else blk bm (base + j)) k = (j * blk_bits bm + k < i)"
  by (simp add: mark_inv_def)

lemma mark_inv_set:
  assumes inv: "mark_inv bm base cnt i c buffer" and c: "i div blk_bits bm = c" and sz: "0 < bm_block_sz bm"
  obtains buffer' where "bitmap_set (bm_block_sz bm) buffer (i mod blk_bits bm) = Some buffer'"
    "mark_inv bm base cnt (Suc i) c buffer'"
proof -
  define b r where "b = blk_bits bm" and "r = i mod blk_bits bm"
  have r: "r < b" "i = c * b + r"
    using sz c div_mult_mod_eq [of i b] unfolding b_def r_def by simp_all
  from inv have bok: "bitmap_ok (bm_block_sz bm) buffer" by (simp add: mark_inv_def)
  from bitmap_set_ok [OF bok] r(1) obtain d where d: "bitmap_set (bm_block_sz bm) buffer r = Some d"
    "bitmap_ok (bm_block_sz bm) d"
    "\<And>j. j < b \<Longrightarrow> bitmap_bit d j = (j = r \<or> bitmap_bit buffer j)" unfolding b_def by blast
  have "bitmap_bit (if j = c then d else blk bm (base + j)) k = (j * b + k < Suc i)"
    if jk: "j < cnt" "k < b" for j k
  proof -
    have old: "bitmap_bit (if j = c then buffer else blk bm (base + j)) k = (j * b + k < i)"
      using mark_inv_bits [OF inv] jk unfolding b_def by blast
    have "(j * b + k) div b = j" "(j * b + k) mod b = k" "(c * b + r) div b = c" "(c * b + r) mod b = r"
      using jk(2) r(1) by simp_all
    then have "j * b + k = i \<longleftrightarrow> j = c \<and> k = r"
      unfolding r(2) by metis
    then show ?thesis
      using old d(3) [OF jk(2)] by (cases "j = c") auto
  qed
  moreover have "c * b \<le> Suc i" "Suc i \<le> Suc c * b" using r by simp_all
  ultimately have "mark_inv bm base cnt (Suc i) c d"
    using d(2) inv unfolding mark_inv_def b_def by blast
  with that d(1) show thesis unfolding r_def by blast
qed

lemma mark_inv_next_block:
  assumes inv: "mark_inv bm base cnt i c buffer" and c: "i div blk_bits bm \<noteq> c"
    and cnt: "i div blk_bits bm < cnt" and ok: "bm_ok bm" and area: "base + cnt \<le> bm_block_cnt bm"
  shows "mark_inv (put_blk bm (base + c) buffer) base cnt i (i div blk_bits bm)
    (replicate (bm_block_sz bm) 0)"
proof -
  define b where "b = blk_bits bm"
  let ?d = "i div b" and ?bm = "put_blk bm (base + c) buffer"
  have b: "0 < b" using ok by (simp add: b_def)
  have bok: "bitmap_ok (bm_block_sz bm) buffer" "c < cnt" "c * b \<le> i" "i \<le> Suc c * b"
    using inv unfolding mark_inv_def b_def by blast+
  have "i = Suc c * b"
    using bok(3,4) b c unfolding b_def by (metis div_nat_eqI le_neq_implies_less mult.commute)
  then have i: "i = Suc c * b" "?d = Suc c" using b by simp_all
  have dev: "in_dev bm (base + j)" if "j < cnt" for j
    using that area ok by (intro in_dev_bound) auto
  have blks: "blk ?bm (base + j) = (if j = c then buffer else blk bm (base + j))" if "j < cnt" for j
    using bok dev that by (simp add: blk_put_blk bitmap_ok_def)
  have "bitmap_bit (if j = ?d then replicate (bm_block_sz bm) 0 else blk ?bm (base + j)) k =
      (j * b + k < i)" if "j < cnt" "k < b" for j k
  proof (cases "j = ?d")
    case True
    with i that show ?thesis by (simp add: b_def)
  next
    case False
    with blks [OF that(1)] mark_inv_bits [OF inv, of j k] that show ?thesis by (simp add: b_def)
  qed
  moreover have "bitmap_ok (bm_block_sz ?bm) (replicate (bm_block_sz bm) 0)"
    using bok(1) by (simp add: bitmap_ok_def)
  moreover have "?d * b \<le> i" "i \<le> Suc ?d * b" using i by simp_all
  ultimately show ?thesis
    using cnt unfolding mark_inv_def put_blk_fields b_def by blast
qed

lemma mark_loop_ok:
  "mark_inv bm base cnt i c buffer \<Longrightarrow> bm_ok bm \<Longrightarrow> \<not> bm_maybe_failed bm \<Longrightarrow>
   base + cnt \<le> bm_block_cnt bm \<Longrightarrow> bm_block_cnt bm < 2 ^ 32 \<Longrightarrow> i + n \<le> cnt * blk_bits bm \<Longrightarrow>
   \<exists>bm' c' buffer'. mark_loop bm base (blk_bits bm) i n (base + c) buffer = Some (bm', base + c', buffer') \<and>
     mark_inv bm' base cnt (i + n) c' buffer' \<and> only_changes {base..<base + cnt} bm bm'"
proof (induction n arbitrary: bm i c buffer)
  case (Suc n)
  define b where "b = blk_bits bm"
  have b: "0 < b" using Suc.prems(2) by (simp add: b_def)
  have ic: "i div b < cnt"
    using Suc.prems(6) b unfolding b_def by (simp add: less_mult_imp_div_less)
  have id: "u64 (i div b + base) = base + i div b"
    using Suc.prems(4,5) ic by (simp add: u64_def)
  have c: "c < cnt" and bok: "bitmap_ok (bm_block_sz bm) buffer"
    using Suc.prems(1) by (simp_all add: mark_inv_def)
  have dev: "in_dev bm (base + c)" using Suc.prems c by (intro in_dev_bound) auto
  have wr: "write_block bm (base + c) buffer = Some (KNullOk, put_blk bm (base + c) buffer)"
    using Suc.prems dev bok by (simp add: write_block_ok bitmap_ok_def)
  define bm1 buf1 where
    "bm1 = (if i div b = c then bm else put_blk bm (base + c) buffer)" and
    "buf1 = (if i div b = c then buffer else replicate (bm_block_sz bm) 0)"
  have inv1: "mark_inv bm1 base cnt i (i div b) buf1"
    using Suc.prems mark_inv_next_block [OF Suc.prems(1)] ic unfolding bm1_def buf1_def b_def by auto
  have bm1: "only_changes {base..<base + cnt} bm bm1" "bm_block_sz bm1 = bm_block_sz bm"
    using only_changes_put_blk [OF dev, of buffer "{base..<base + cnt}"] bok c
    by (auto simp: bm1_def bitmap_ok_def)
  note f1 = only_changes_fields [OF bm1(1)]
  from mark_inv_set [OF inv1] b obtain buf2 where buf2:
    "bitmap_set (bm_block_sz bm) buf1 (i mod b) = Some buf2" "mark_inv bm1 base cnt (Suc i) (i div b) buf2"
    unfolding b_def bm1(2) by auto
  have step: "mark_loop bm base b i (Suc n) (base + c) buffer =
      mark_loop bm1 base b (Suc i) n (base + i div b) buf2"
    using buf2(1) wr bok by (auto simp: id bm1_def buf1_def bitmap_zeroed_ok)
  from Suc.IH [OF buf2(2)] Suc.prems(2-6) f1 obtain bm' c' buffer' where bm':
    "mark_loop bm1 base b (Suc i) n (base + i div b) buf2 = Some (bm', base + c', buffer')"
    "mark_inv bm' base cnt (i + Suc n) c' buffer'" "only_changes {base..<base + cnt} bm1 bm'"
    unfolding b_def by auto
  from trans [OF step bm'(1)] bm'(2) only_changes_trans_same [OF bm1(1) bm'(3)] show ?case
    unfolding b_def by blast
qed auto

lemma ceil_div_facts:
  assumes "0 < (b :: nat)" "0 < t" "c = (if t mod b \<noteq> 0 then t div b + 1 else t div b)"
  shows "0 < c \<and> t \<le> c * b \<and> (c - 1) * b + (if c * b = t then b else t mod b) = t"
proof -
  have t: "t = t div b * b + t mod b" "t mod b < b"
    using assms div_mult_mod_eq [of t b] by simp_all
  show ?thesis
  proof (cases "t mod b = 0")
    case True
    then have "c = t div b" using assms(3) by simp
    with True have c: "t = c * b" using t(1) by (metis add.right_neutral)
    then obtain m where m: "c = Suc m" using assms(2) by (cases c) auto
    then show ?thesis unfolding c m by simp
  next
    case False
    then have c: "c = Suc (t div b)" using assms by simp
    have "Suc (t div b) * b = t div b * b + b" by simp
    then have "Suc (t div b) * b \<noteq> t" "t \<le> Suc (t div b) * b" using t by linarith+
    with False t(1) show ?thesis unfolding c by simp
  qed
qed

text \<open>The number of bitmap blocks: one bit per block of the device, rounded up.\<close>

definition bitmap_blocks :: "block_manager \<Rightarrow> nat" where
  "bitmap_blocks bm =
     (if bm_block_cnt bm mod blk_bits bm \<noteq> 0 then bm_block_cnt bm div blk_bits bm + 1
      else bm_block_cnt bm div blk_bits bm)"

definition fresh_allocator :: "block_manager \<Rightarrow> nat \<Rightarrow> block_allocator" where
  "fresh_allocator bm base =
     \<lparr>al_bitmap_block_id = base, al_bitmap_block_cnt = bitmap_blocks bm,
      al_last_block_num =
        (if bitmap_blocks bm * blk_bits bm = bm_block_cnt bm then blk_bits bm
         else bm_block_cnt bm mod blk_bits bm)\<rparr>"

definition can_allocate_on :: "block_manager \<Rightarrow> nat \<Rightarrow> bool" where
  "can_allocate_on bm base \<longleftrightarrow> bm_ok bm \<and> \<not> bm_maybe_failed bm \<and> blk_bits bm < 2 ^ 32 \<and>
     0 < bm_block_cnt bm \<and> base + bitmap_blocks bm \<le> bm_block_cnt bm"

lemma fresh_allocator_ok:
  assumes "can_allocate_on bm base"
  shows "alloc_ok bm (fresh_allocator bm base)"
proof -
  have b: "0 < blk_bits bm" using assms by (simp add: can_allocate_on_def)
  have t: "0 < bm_block_cnt bm" using assms by (simp add: can_allocate_on_def)
  note c = ceil_div_facts [OF b t bitmap_blocks_def]
  have "0 < (if bitmap_blocks bm * blk_bits bm = bm_block_cnt bm then blk_bits bm
      else bm_block_cnt bm mod blk_bits bm)"
  proof (cases "bm_block_cnt bm mod blk_bits bm = 0")
    case True
    then have "bitmap_blocks bm * blk_bits bm = bm_block_cnt bm"
      by (auto simp: bitmap_blocks_def)
    with b show ?thesis by simp
  qed (use b in simp)
  moreover have "bm_block_cnt bm mod blk_bits bm \<le> blk_bits bm" using b by (simp add: less_imp_le)
  ultimately show ?thesis
    using assms c by (simp add: alloc_ok_def can_allocate_on_def fresh_allocator_def del: mult_Suc)
qed

lemma allocator_create_unfold:
  assumes "can_allocate_on bm base"
  shows "allocator_create bm base init =
    (if \<not> init then Some (fresh_allocator bm base, bm)
     else do {
       bm1 \<leftarrow> zero_blocks bm base 0 (bitmap_blocks bm);
       (bm2, cur_block_id, buffer') \<leftarrow>
         mark_loop bm1 base (blk_bits bm) 0 (bitmap_blocks bm + base) base (replicate (bm_block_sz bm) 0);
       (_, bm3) \<leftarrow> write_block bm2 cur_block_id buffer';
       Some (fresh_allocator bm base, bm3)
     })"
proof -
  let ?al = "fresh_allocator bm base"
  have ok: "alloc_ok bm ?al" by (rule fresh_allocator_ok [OF assms])
  note aok = alloc_okD [OF ok] and cnt = alloc_ok_cnt [OF ok]
  have c: "base + bitmap_blocks bm \<le> bm_block_cnt bm" "0 < bitmap_blocks bm"
    using ok by (auto simp: alloc_ok_def fresh_allocator_def)
  then have sum: "u64 (bitmap_blocks bm + base) = bitmap_blocks bm + base"
    using cnt by (simp add: u64_def)
  have blocks: "total_bitmap_block (bm_block_cnt bm) (blk_bits bm) = bitmap_blocks bm"
    using c cnt by (auto simp: bitmap_blocks_def total_bitmap_block_def u32_def)
  have "bitmap_blocks bm * blk_bits bm \<le> bm_block_cnt bm + blk_bits bm"
    using ok by (cases "bitmap_blocks bm") (auto simp: alloc_ok_def fresh_allocator_def)
  then have prod: "u64 (bitmap_blocks bm * blk_bits bm) = bitmap_blocks bm * blk_bits bm"
    using cnt aok(4) by (simp add: u64_def)
  have last: "last_block_bits (bm_block_cnt bm) (blk_bits bm) (bitmap_blocks bm) = al_last_block_num ?al"
    "al_last_block_num ?al \<le> blk_bits bm"
    using ok by (auto simp: last_block_bits_def prod fresh_allocator_def alloc_ok_def)
  have al: "?al = \<lparr>al_bitmap_block_id = base, al_bitmap_block_cnt = bitmap_blocks bm,
      al_last_block_num = al_last_block_num ?al\<rparr>"
    by (simp add: fresh_allocator_def)
  have "blk_bits bm \<noteq> 0" using aok by simp
  then show ?thesis
    using c last bitmap_zeroed_ok [of "bm_block_sz bm" "replicate (bm_block_sz bm) 0"] aok
    unfolding allocator_create_def
    by (simp add: blocks sum last(1) al [symmetric] bitmap_ok_def Let_def del: mult_eq_0_iff)
qed

lemma allocator_create_ok:
  assumes "can_allocate_on bm base"
  obtains bm' where "allocator_create bm base True = Some (fresh_allocator bm base, bm')"
    "alloc_ok bm' (fresh_allocator bm base)"
    "alloc_used bm' (fresh_allocator bm base) = {..<base + bitmap_blocks bm}"
    "only_changes (bitmap_area (fresh_allocator bm base)) bm bm'"
proof -
  let ?al = "fresh_allocator bm base" and ?c = "bitmap_blocks bm" and ?z = "replicate (bm_block_sz bm) 0"
  have ok: "alloc_ok bm ?al" by (rule fresh_allocator_ok [OF assms])
  note aok = alloc_okD [OF ok] and cnt = alloc_ok_cnt [OF ok]
  have c: "base + ?c \<le> bm_block_cnt bm" "0 < ?c"
    using ok by (auto simp: alloc_ok_def fresh_allocator_def)
  have tot: "bm_block_cnt bm \<le> ?c * blk_bits bm"
    using ceil_div_facts [OF _ _ bitmap_blocks_def, of bm] aok c by simp
  from zero_blocks_ok [OF aok(1), of base 0 ?c] c cnt obtain bm1 where
    bm1: "zero_blocks bm base 0 ?c = Some bm1" "only_changes {base..<base + ?c} bm bm1"
      "\<And>j. j < ?c \<Longrightarrow> blk bm1 (base + j) = ?z" by auto
  note f1 = only_changes_fields [OF bm1(2)]
  have inv1: "mark_inv bm1 base ?c 0 0 ?z"
    using c aok bm1(3) f1 by (auto simp: mark_inv_def bitmap_ok_def)
  have "0 + (?c + base) \<le> ?c * blk_bits bm1" using f1 c tot by simp
  from mark_loop_ok [OF inv1 _ _ _ _ this] f1 aok c cnt obtain bm2 c' buf where
    bm2: "mark_loop bm1 base (blk_bits bm) 0 (?c + base) base ?z = Some (bm2, base + c', buf)"
      "mark_inv bm2 base ?c (?c + base) c' buf" "only_changes {base..<base + ?c} bm1 bm2" by auto
  note f2 = only_changes_fields [OF bm2(3)]
  let ?bm3 = "put_blk bm2 (base + c') buf"
  have c': "c' < ?c" "length buf = bm_block_sz bm2" using bm2(2) by (auto simp: mark_inv_def bitmap_ok_def)
  have dev: "in_dev bm2 (base + j)" if "j < ?c" for j
    using that c aok f1 f2 by (intro in_dev_bound) auto
  have "write_block bm2 (base + c') buf = Some (KNullOk, ?bm3)"
    using f1 f2 aok c' dev by (simp add: write_block_ok)
  then have create: "allocator_create bm base True = Some (?al, ?bm3)"
    by (simp add: allocator_create_unfold [OF assms] bm1 bm2)
  have ch: "only_changes {base..<base + ?c} bm ?bm3"
    using c' dev only_changes_trans_same [OF bm1(2) bm2(3)]
    by (rule_tac only_changes_trans_same) auto
  note f3 = only_changes_fields [OF ch]
  have ok3: "alloc_ok ?bm3 ?al" using ok f3 by (simp add: alloc_ok_def)
  have "marked ?bm3 ?al i = (i < base + ?c)" if i: "i < bm_block_cnt bm" for i
  proof -
    let ?b = "blk_bits bm"
    have j: "i div ?b < ?c" "i mod ?b < ?b"
      using block_index_iff [OF ok] i bits_in_le [OF ok] aok by (auto simp: fresh_allocator_def)
    have ij: "i div ?b * ?b + i mod ?b = i" by (rule div_mult_mod_eq)
    have "blk ?bm3 (base + i div ?b) = (if i div ?b = c' then buf else blk bm2 (base + i div ?b))"
      using dev c' j by (simp add: blk_put_blk)
    then show ?thesis
      using mark_inv_bits [OF bm2(2) j(1), of "i mod ?b"] j f1 f2 ij
      by (simp add: marked_def fresh_allocator_def add.commute [of base])
  qed
  then have "alloc_used ?bm3 ?al = {..<base + ?c}"
    using f3 c by (auto simp: alloc_used_def)
  with create ok3 ch show thesis
    by (intro that) (auto simp: bitmap_area_def fresh_allocator_def)
qed

section \<open>The allocator as a pool of blocks\<close>

text \<open>The outcomes of the two operations as the interface has them; a crash is not an outcome.\<close>

fun pool_acquire :: "(nat chfs_result \<times> block_manager) option \<Rightarrow> (nat \<times> block_manager) option" where
  "pool_acquire (Some (Ok k, bm)) = Some (k, bm)"
| "pool_acquire _ = None"

fun pool_release :: "(null_result \<times> block_manager) option \<Rightarrow> block_manager option" where
  "pool_release (Some (Ok _, bm)) = Some bm"
| "pool_release _ = None"

interpretation blocks: resource_pool "\<lambda>bm. alloc_ok bm al" "\<lambda>bm. alloc_used bm al"
    "\<lambda>bm. {..<bm_block_cnt bm}" "\<lambda>bm. pool_acquire (allocate bm al)"
    "\<lambda>bm k. pool_release (deallocate bm al k)"
proof unfold_locales
  show "alloc_used s al \<subseteq> {..<bm_block_cnt s}" for s
    by (auto simp: alloc_used_def)
  show "finite {..<bm_block_cnt s}" for s
    by simp
  fix s i s'
  assume ok: "alloc_ok s al"
  { assume a: "pool_acquire (allocate s al) = Some (i, s')"
    then have "alloc_used s al \<noteq> {..<bm_block_cnt s}"
      by (intro notI) (simp add: allocate_full [OF ok])
    then obtain k t where t: "allocate s al = Some (Ok k, t)" "k < bm_block_cnt s" "k \<notin> alloc_used s al"
      "alloc_ok t al" "only_changes (bitmap_area al) s t" "alloc_used t al = insert k (alloc_used s al)"
      by (rule allocate_free [OF ok])
    with a only_changes_fields(2) [OF t(5)]
    show "i \<in> {..<bm_block_cnt s} \<and> i \<notin> alloc_used s al \<and> alloc_ok s' al \<and>
      alloc_used s' al = insert i (alloc_used s al) \<and> {..<bm_block_cnt s'} = {..<bm_block_cnt s}"
      by simp }
  { assume a: "pool_acquire (allocate s al) = None"
    show "alloc_used s al = {..<bm_block_cnt s}"
      by (rule ccontr, rule allocate_free [OF ok], assumption) (use a in auto) }
  { assume a: "pool_release (deallocate s al i) = Some s'"
    then have i: "i \<in> alloc_used s al" using deallocate_unused [OF ok, of i] by fastforce
    then obtain t where t: "deallocate s al i = Some (KNullOk, t)" "alloc_ok t al"
      "only_changes (bitmap_area al) s t" "alloc_used t al = alloc_used s al - {i}"
      by (rule deallocate_used [OF ok])
    with a i only_changes_fields(2) [OF t(3)]
    show "i \<in> alloc_used s al \<and> alloc_ok s' al \<and> alloc_used s' al = alloc_used s al - {i} \<and>
      {..<bm_block_cnt s'} = {..<bm_block_cnt s}"
      by simp }
  { assume a: "pool_release (deallocate s al i) = None"
    show "i \<notin> alloc_used s al"
      by (rule notI, rule deallocate_used [OF ok], assumption) (use a in auto) }
qed

section \<open>Properties\<close>

text \<open>The constructor with initialisation never crashes on a device that can hold the bitmap: it
  marks exactly the blocks before the bitmap and the bitmap's own blocks, establishes the
  allocator's invariant and writes nothing but the bitmap.\<close>

theorem allocator_create_reserves:
  assumes "can_allocate_on bm base"
  shows "\<exists>al bm'. allocator_create bm base True = Some (al, bm') \<and> alloc_ok bm' al \<and>
    alloc_used bm' al = {..<base + al_bitmap_block_cnt al} \<and> al_bitmap_block_id al = base \<and>
    only_changes (bitmap_area al) bm bm'"
proof -
  obtain bm' where "allocator_create bm base True = Some (fresh_allocator bm base, bm')"
    "alloc_ok bm' (fresh_allocator bm base)"
    "alloc_used bm' (fresh_allocator bm base) = {..<base + bitmap_blocks bm}"
    "only_changes (bitmap_area (fresh_allocator bm base)) bm bm'"
    using assms by (rule allocator_create_ok)
  then show ?thesis by (auto simp: fresh_allocator_def)
qed

lemma demo_can_allocate: "can_allocate_on demo_dev 3"
  by (simp add: can_allocate_on_def demo_dev_ok bitmap_blocks_def)

theorem allocator_create_reserves_witness:
  "\<exists>al bm'. allocator_create demo_dev 3 True = Some (al, bm') \<and> alloc_ok bm' al \<and>
    alloc_used bm' al = {..<3 + al_bitmap_block_cnt al} \<and> al_bitmap_block_id al = 3 \<and>
    only_changes (bitmap_area al) demo_dev bm'"
  by (rule allocator_create_reserves [OF demo_can_allocate])

text \<open>C31. \<open>allocate\<close> returns the smallest free block, which from then on is in use, and changes no
  block outside the bitmap; it reports \<open>OUT_OF_RESOURCE\<close> exactly when the count of free blocks
  is zero, and then changes nothing.\<close>

theorem allocate_smallest_free:
  assumes "alloc_ok bm al"
  shows "\<exists>r bm'. allocate bm al = Some (r, bm') \<and> alloc_ok bm' al \<and>
    only_changes (bitmap_area al) bm bm' \<and>
    (case r of
       Ok k \<Rightarrow> k < bm_block_cnt bm \<and> k \<notin> alloc_used bm al \<and> {..<k} \<subseteq> alloc_used bm al \<and>
         alloc_used bm' al = insert k (alloc_used bm al)
     | Err e \<Rightarrow> e = OUT_OF_RESOURCE \<and> bm' = bm \<and> free_block_cnt bm al = Some 0)"
proof (cases "alloc_used bm al = {..<bm_block_cnt bm}")
  case True
  from allocate_full [OF assms this] assms show ?thesis
    by (simp add: free_block_cnt_ok [OF assms] True)
next
  case False
  from assms False obtain k bm' where "allocate bm al = Some (Ok k, bm')" "k < bm_block_cnt bm"
    "k \<notin> alloc_used bm al" "{..<k} \<subseteq> alloc_used bm al" "alloc_ok bm' al"
    "only_changes (bitmap_area al) bm bm'" "alloc_used bm' al = insert k (alloc_used bm al)"
    by (rule allocate_free)
  then show ?thesis by simp
qed

text \<open>The device right after the constructor, for concrete runs.\<close>

definition demo_al :: block_allocator where
  "demo_al = fresh_allocator demo_dev 3"

definition demo_dev1 :: block_manager where
  "demo_dev1 = snd (the (allocator_create demo_dev 3 True))"

lemma demo_dev1_ok:
  "alloc_ok demo_dev1 demo_al" "alloc_used demo_dev1 demo_al = {..<5}" "bm_block_cnt demo_dev1 = 20"
proof -
  obtain bm' where bm': "allocator_create demo_dev 3 True = Some (fresh_allocator demo_dev 3, bm')"
    "alloc_ok bm' (fresh_allocator demo_dev 3)"
    "alloc_used bm' (fresh_allocator demo_dev 3) = {..<3 + bitmap_blocks demo_dev}"
    "only_changes (bitmap_area (fresh_allocator demo_dev 3)) demo_dev bm'"
    using demo_can_allocate by (rule allocator_create_ok)
  have "demo_dev1 = bm'" "bitmap_blocks demo_dev = 2"
    by (simp_all add: demo_dev1_def bm'(1) bitmap_blocks_def demo_dev_ok)
  with bm' only_changes_fields(2) [OF bm'(4)] show "alloc_ok demo_dev1 demo_al" "alloc_used demo_dev1 demo_al = {..<5}"
    "bm_block_cnt demo_dev1 = 20"
    by (simp_all add: demo_al_def demo_dev_ok)
qed

theorem allocate_smallest_free_witness:
  "\<exists>r bm'. allocate demo_dev1 demo_al = Some (r, bm') \<and> alloc_ok bm' demo_al \<and>
    only_changes (bitmap_area demo_al) demo_dev1 bm' \<and>
    (case r of
       Ok k \<Rightarrow> k < bm_block_cnt demo_dev1 \<and> k \<notin> alloc_used demo_dev1 demo_al \<and>
         {..<k} \<subseteq> alloc_used demo_dev1 demo_al \<and> alloc_used bm' demo_al = insert k (alloc_used demo_dev1 demo_al)
     | Err e \<Rightarrow> e = OUT_OF_RESOURCE \<and> bm' = demo_dev1 \<and> free_block_cnt demo_dev1 demo_al = Some 0)"
  by (rule allocate_smallest_free [OF demo_dev1_ok(1)])

text \<open>\<open>deallocate\<close> frees a block that is in use and nothing else; a block number that is free
  or not on the device is rejected with \<open>INVALID_ARG\<close> and nothing changes.\<close>

theorem deallocate_correct:
  assumes "alloc_ok bm al"
  shows "\<exists>r bm'. deallocate bm al k = Some (r, bm') \<and> alloc_ok bm' al \<and>
    only_changes (bitmap_area al) bm bm' \<and> alloc_used bm' al = alloc_used bm al - {k} \<and>
    (if k \<in> alloc_used bm al then r = KNullOk else r = Err INVALID_ARG \<and> bm' = bm)"
proof (cases "k \<in> alloc_used bm al")
  case True
  from assms True obtain bm' where "deallocate bm al k = Some (KNullOk, bm')" "alloc_ok bm' al"
    "only_changes (bitmap_area al) bm bm'" "alloc_used bm' al = alloc_used bm al - {k}"
    by (rule deallocate_used)
  with True show ?thesis by simp
next
  case False
  with deallocate_unused [OF assms False] assms show ?thesis by simp
qed

theorem deallocate_correct_witness:
  "\<exists>r bm'. deallocate demo_dev1 demo_al 4 = Some (r, bm') \<and> alloc_ok bm' demo_al \<and>
    only_changes (bitmap_area demo_al) demo_dev1 bm' \<and>
    alloc_used bm' demo_al = alloc_used demo_dev1 demo_al - {4} \<and>
    (if 4 \<in> alloc_used demo_dev1 demo_al then r = KNullOk else r = Err INVALID_ARG \<and> bm' = demo_dev1)"
  by (rule deallocate_correct [OF demo_dev1_ok(1)])

text \<open>Allocating \<open>n\<close> blocks one after the other.\<close>

fun allocate_n :: "nat \<Rightarrow> block_manager \<Rightarrow> block_allocator \<Rightarrow> (nat list \<times> block_manager) option" where
  "allocate_n 0 bm al = Some ([], bm)"
| "allocate_n (Suc n) bm al =
     (case allocate bm al of
        Some (Ok k, bm') \<Rightarrow> map_option (\<lambda>(ks, bm''). (k # ks, bm'')) (allocate_n n bm' al)
      | _ \<Rightarrow> None)"

lemma allocate_n_pool: "allocate_n n bm al = blocks.acquire_n al n bm"
proof (induction n arbitrary: bm)
  case (Suc n)
  have "(case r of Some (Ok k, bm') \<Rightarrow> map_option (\<lambda>(ks, bm''). (k # ks, bm'')) (allocate_n n bm' al)
      | _ \<Rightarrow> None) =
    (case pool_acquire r of None \<Rightarrow> None
     | Some (k, bm') \<Rightarrow> map_option (\<lambda>(ks, bm''). (k # ks, bm'')) (allocate_n n bm' al))" for r
    by (cases r rule: pool_acquire.cases) auto
  then show ?case using Suc by (simp cong: option.case_cong)
qed simp

text \<open>As many blocks as are free can be allocated in a row; they are distinct, were all free
  before, and no block outside the device is ever handed out.\<close>

theorem allocate_n_distinct:
  assumes "alloc_ok bm al" "free_block_cnt bm al = Some f" "n \<le> f"
  shows "\<exists>ks bm'. allocate_n n bm al = Some (ks, bm') \<and> length ks = n \<and> distinct ks \<and>
    set ks \<subseteq> {..<bm_block_cnt bm} - alloc_used bm al \<and> alloc_used bm' al = alloc_used bm al \<union> set ks"
proof -
  have "n \<le> card ({..<bm_block_cnt bm} - alloc_used bm al)"
    using assms free_block_cnt_ok by simp
  then obtain ks bm' where a: "allocate_n n bm al = Some (ks, bm')"
    using blocks.acquire_n_enough [OF assms(1)] unfolding allocate_n_pool by blast
  with blocks.acquire_n_fresh [OF assms(1), of n ks bm'] show ?thesis
    unfolding allocate_n_pool by auto
qed

lemma demo_free_cnt: "free_block_cnt demo_dev1 demo_al = Some 15"
proof -
  have "{..<20} - {..<5} = {5..<20 :: nat}" by auto
  then show ?thesis by (simp add: free_block_cnt_ok demo_dev1_ok)
qed

theorem allocate_n_distinct_witness:
  "free_block_cnt demo_dev1 demo_al = Some 15 \<and>
   (\<exists>ks bm'. allocate_n 15 demo_dev1 demo_al = Some (ks, bm') \<and> length ks = 15 \<and> distinct ks \<and>
     set ks \<subseteq> {..<bm_block_cnt demo_dev1} - alloc_used demo_dev1 demo_al \<and>
     alloc_used bm' demo_al = alloc_used demo_dev1 demo_al \<union> set ks)"
  using demo_free_cnt allocate_n_distinct [OF demo_dev1_ok(1) demo_free_cnt, of 15] by simp

end
