(* ===== verification/Inode.thy ===== *)
theory Inode
  imports Block_Allocator
begin

text \<open>
  Inodes and the superblock (src/chfs/src/include/metadata/inode.h,
  src/chfs/src/metadata/inode.cc, src/chfs/src/include/metadata/superblock.h,
  src/chfs/src/metadata/superblock.cc).

  An \<open>Inode\<close> is a packed header of 44 bytes followed by as many 64-bit block numbers as
  the block has room for; the code works on it in place by casting a block's buffer.
  \<open>decode_inode\<close> and \<open>encode_inode\<close> are that cast: they are inverse to each other, so
  reading a field of the record is reading the buffer and writing the record's encoding
  back is writing the buffer. \<open>i_tail\<close> holds the bytes behind the last whole entry.
\<close>

section \<open>Inode data\<close>

abbreviation (input) KInvalidBlockID :: nat where "KInvalidBlockID \<equiv> 0"

text \<open>An \<open>enum class InodeType : u32\<close> read from disk may hold any 32-bit value.\<close>

datatype inode_type = Unknown | FILE | Directory | OtherType nat

fun type_of_u32 :: "nat \<Rightarrow> inode_type" where
  "type_of_u32 v = (if v = 0 then Unknown else if v = 1 then FILE else if v = 2 then Directory
     else OtherType v)"

fun u32_of_type :: "inode_type \<Rightarrow> nat" where
  "u32_of_type Unknown = 0"
| "u32_of_type FILE = 1"
| "u32_of_type Directory = 2"
| "u32_of_type (OtherType v) = v"

record file_attr =
  atime :: nat
  mtime :: nat
  ctime :: nat
  fsize :: nat

definition set_mtime :: "nat \<Rightarrow> file_attr \<Rightarrow> file_attr" where
  "set_mtime t a = a\<lparr>mtime := t\<rparr>"

definition set_all_time :: "nat \<Rightarrow> file_attr \<Rightarrow> file_attr" where
  "set_all_time t a = a\<lparr>atime := t, mtime := t, ctime := t\<rparr>"

record inode =
  i_type :: inode_type
  i_attr :: file_attr
  i_block_size :: nat
  i_nblocks :: nat
  i_blocks :: "nat list"
  i_tail :: "byte list"

abbreviation (input) sizeof_Inode :: nat where "sizeof_Inode \<equiv> 44"
abbreviation (input) sizeof_block_id :: nat where "sizeof_block_id \<equiv> 8"

section \<open>The cast between buffers and inodes\<close>

definition header_bytes :: "inode \<Rightarrow> byte list" where
  "header_bytes ino =
     le_bytes 4 (u32_of_type (i_type ino)) @ le_bytes 8 (atime (i_attr ino)) @
     le_bytes 8 (mtime (i_attr ino)) @ le_bytes 8 (ctime (i_attr ino)) @
     le_bytes 8 (fsize (i_attr ino)) @ le_bytes 4 (i_block_size ino) @ le_bytes 4 (i_nblocks ino)"

text \<open>A buffer of 64-bit integers: as many as fit, and the bytes behind them.\<close>

fun decode_u64s :: "nat \<Rightarrow> byte list \<Rightarrow> nat list" where
  "decode_u64s 0 bs = []"
| "decode_u64s (Suc n) bs = le_nat (take 8 bs) # decode_u64s n (drop 8 bs)"

definition encode_u64s :: "nat list \<Rightarrow> byte list" where
  "encode_u64s vs = concat (map (le_bytes 8) vs)"

definition decode_inode :: "byte list \<Rightarrow> inode option" where
  "decode_inode buf = do {
     chfs_assert (sizeof_Inode \<le> length buf);
     let n = (length buf - sizeof_Inode) div sizeof_block_id;
     Some \<lparr>i_type = type_of_u32 (le_nat (chunk buf 0 4)),
       i_attr = \<lparr>atime = le_nat (chunk buf 4 8), mtime = le_nat (chunk buf 12 8),
                 ctime = le_nat (chunk buf 20 8), fsize = le_nat (chunk buf 28 8)\<rparr>,
       i_block_size = le_nat (chunk buf 36 4), i_nblocks = le_nat (chunk buf 40 4),
       i_blocks = decode_u64s n (drop sizeof_Inode buf),
       i_tail = drop (sizeof_Inode + 8 * n) buf\<rparr>
   }"

definition encode_inode :: "inode \<Rightarrow> byte list" where
  "encode_inode ino = header_bytes ino @ encode_u64s (i_blocks ino) @ i_tail ino"

section \<open>Operations of the inode\<close>

text \<open>The constructor; \<open>now\<close> is what \<open>time(0)\<close> returns.\<close>

definition inode_create :: "inode_type \<Rightarrow> nat \<Rightarrow> nat \<Rightarrow> inode option" where
  "inode_create type block_size now = do {
     chfs_assert (sizeof_Inode < block_size);
     Some \<lparr>i_type = type,
       i_attr = set_all_time now \<lparr>atime = 0, mtime = 0, ctime = 0, fsize = 0\<rparr>,
       i_block_size = block_size,
       i_nblocks = u32 ((block_size - sizeof_Inode) div sizeof_block_id),
       i_blocks = [], i_tail = []\<rparr>
   }"

definition get_direct_block_num :: "inode \<Rightarrow> nat" where
  "get_direct_block_num ino = sub32 (i_nblocks ino) 1"

definition is_direct_block :: "inode \<Rightarrow> nat \<Rightarrow> bool" where
  "is_direct_block ino idx \<longleftrightarrow> idx < sub32 (i_nblocks ino) 1"

definition max_file_sz_supported :: "inode \<Rightarrow> nat" where
  "max_file_sz_supported ino =
     (let max_blocks_in_block = i_block_size ino div sizeof_block_id
      in u64 (u64 (max_blocks_in_block * i_block_size ino) +
              u64 (sub32 (i_nblocks ino) 1 * i_block_size ino)))"

fun invalidate_blocks :: "byte list \<Rightarrow> nat \<Rightarrow> nat \<Rightarrow> byte list option" where
  "invalidate_blocks buffer i 0 = Some buffer"
| "invalidate_blocks buffer i (Suc n) = do {
     buffer' \<leftarrow> put_le 8 buffer (sizeof_Inode + sizeof_block_id * i) KInvalidBlockID;
     invalidate_blocks buffer' (Suc i) n
   }"

definition flush_to_buffer :: "inode \<Rightarrow> byte list \<Rightarrow> byte list option" where
  "flush_to_buffer ino buffer = do {
     buffer' \<leftarrow> poke buffer 0 (header_bytes ino);
     invalidate_blocks buffer' 0 (i_nblocks ino)
   }"

definition set_block_direct :: "inode \<Rightarrow> nat \<Rightarrow> nat \<Rightarrow> inode option" where
  "set_block_direct ino idx bid = do {
     bs \<leftarrow> upd (i_blocks ino) idx bid;
     Some (ino\<lparr>i_blocks := bs\<rparr>)
   }"

text \<open>\<open>operator[]\<close>: reading and assigning through the reference; out of range throws.\<close>

definition inode_at :: "inode \<Rightarrow> nat \<Rightarrow> nat option" where
  "inode_at ino idx = do {
     chfs_assert (idx < i_nblocks ino);
     at (i_blocks ino) idx
   }"

definition inode_at_set :: "inode \<Rightarrow> nat \<Rightarrow> nat \<Rightarrow> inode option" where
  "inode_at_set ino idx bid = do {
     chfs_assert (idx < i_nblocks ino);
     set_block_direct ino idx bid
   }"

definition get_or_insert_indirect_block ::
    "block_manager \<Rightarrow> block_allocator \<Rightarrow> inode \<Rightarrow> (nat chfs_result \<times> inode \<times> block_manager) option" where
  "get_or_insert_indirect_block bm al ino = do {
     let last_idx = sub32 (i_nblocks ino) 1;
     cur \<leftarrow> at (i_blocks ino) last_idx;
     if cur = KInvalidBlockID
     then do {
       (bid, bm') \<leftarrow> allocate bm al;
       case bid of
         Err e \<Rightarrow> Some (Err e, ino, bm')
       | Ok b \<Rightarrow> do {
           ino' \<leftarrow> set_block_direct ino last_idx b;
           Some (Ok b, ino', bm')
         }
     }
     else Some (Ok cur, ino, bm)
   }"

definition get_indirect_block_id :: "inode \<Rightarrow> nat option" where
  "get_indirect_block_id ino = do {
     cur \<leftarrow> at (i_blocks ino) (sub32 (i_nblocks ino) 1);
     chfs_assert (cur \<noteq> KInvalidBlockID);
     Some cur
   }"

definition invalid_indirect_block_id :: "inode \<Rightarrow> inode option" where
  "invalid_indirect_block_id ino = set_block_direct ino (sub32 (i_nblocks ino) 1) KInvalidBlockID"

definition write_indirect_block ::
    "inode \<Rightarrow> block_manager \<Rightarrow> byte list \<Rightarrow> (null_result \<times> block_manager) option" where
  "write_indirect_block ino bm buffer = do {
     cur \<leftarrow> at (i_blocks ino) (sub32 (i_nblocks ino) 1);
     if cur = KInvalidBlockID then Some (Err INVALID_ARG, bm)
     else write_block bm cur buffer
   }"

section \<open>Superblock\<close>

text \<open>
  \<open>SuperBlockInternal\<close> has the alignment of its 64-bit fields: four bytes of padding
  follow \<open>block_size\<close>. \<open>file_system_size\<close> is never assigned, so it and the padding are
  whatever the memory held.
\<close>

record super_block =
  sb_block_size :: nat
  sb_pad :: "byte list"
  sb_nblocks :: nat
  sb_ninodes :: nat
  sb_file_system_size :: nat

abbreviation (input) sizeof_SuperBlock :: nat where "sizeof_SuperBlock \<equiv> 32"

definition super_block_bytes :: "super_block \<Rightarrow> byte list" where
  "super_block_bytes sb = le_bytes 4 (sb_block_size sb) @ sb_pad sb @ le_bytes 8 (sb_nblocks sb) @
     le_bytes 8 (sb_ninodes sb) @ le_bytes 8 (sb_file_system_size sb)"

definition super_block_of_bytes :: "byte list \<Rightarrow> super_block" where
  "super_block_of_bytes bs =
     \<lparr>sb_block_size = le_nat (chunk bs 0 4), sb_pad = chunk bs 4 4, sb_nblocks = le_nat (chunk bs 8 8),
      sb_ninodes = le_nat (chunk bs 16 8), sb_file_system_size = le_nat (chunk bs 24 8)\<rparr>"

text \<open>\<open>garbage\<close> is the memory of the object before the constructor runs.\<close>

definition super_block_create :: "block_manager \<Rightarrow> nat \<Rightarrow> super_block \<Rightarrow> super_block option" where
  "super_block_create bm ninodes garbage = do {
     chfs_assert (sizeof_SuperBlock \<le> bm_block_sz bm);
     Some (garbage\<lparr>sb_block_size := bm_block_sz bm, sb_nblocks := bm_block_cnt bm, sb_ninodes := ninodes\<rparr>)
   }"

definition super_block_flush ::
    "super_block \<Rightarrow> block_manager \<Rightarrow> nat \<Rightarrow> (null_result \<times> block_manager) option" where
  "super_block_flush sb bm block_id = write_partial_block bm block_id (super_block_bytes sb) 0 sizeof_SuperBlock"

definition super_block_create_from_existing ::
    "block_manager \<Rightarrow> nat \<Rightarrow> super_block chfs_result option" where
  "super_block_create_from_existing bm block_id = do {
     res \<leftarrow> read_block bm block_id (bm_block_sz bm);
     case res of
       Err e \<Rightarrow> Some (Err e)
     | Ok buffer \<Rightarrow> do {
         bs \<leftarrow> peek buffer 0 sizeof_SuperBlock;
         Some (Ok (super_block_of_bytes bs))
       }
   }"

section \<open>The casts are inverse to each other\<close>

fun type_ok :: "inode_type \<Rightarrow> bool" where
  "type_ok (OtherType v) = (3 \<le> v \<and> v < 2 ^ 32)"
| "type_ok _ = True"

lemma type_of_u32_of_type: "type_ok t \<Longrightarrow> type_of_u32 (u32_of_type t) = t"
  by (cases t) auto

lemma u32_of_type_of_u32: "u32_of_type (type_of_u32 v) = v"
  by simp

lemma u32_of_type_less: "type_ok t \<Longrightarrow> u32_of_type t < 2 ^ 32"
  by (cases t) auto

interpretation type_codec: codec type_ok u32_of_type type_of_u32
  by unfold_locales (rule type_of_u32_of_type)

lemma length_decode_u64s [simp]: "length (decode_u64s n bs) = n"
  by (induction n arbitrary: bs) auto

lemma length_encode_u64s [simp]: "length (encode_u64s vs) = 8 * length vs"
  by (induction vs) (auto simp: encode_u64s_def)

lemma encode_u64s_simps [simp]:
  "encode_u64s [] = []" "encode_u64s (v # vs) = le_bytes 8 v @ encode_u64s vs"
  by (auto simp: encode_u64s_def)

lemma decode_encode_u64s:
  "list_all (\<lambda>v. v < 2 ^ 64) vs \<Longrightarrow> n = length vs \<Longrightarrow> decode_u64s n (encode_u64s vs @ rest) = vs"
  by (induction vs arbitrary: n) auto

lemma encode_decode_u64s: "8 * n \<le> length bs \<Longrightarrow> encode_u64s (decode_u64s n bs) = take (8 * n) bs"
proof (induction n arbitrary: bs)
  case (Suc n)
  have "le_bytes 8 (le_nat (take 8 bs)) = take 8 bs"
    using Suc.prems le_bytes_le_nat [of "take 8 bs"] by simp
  moreover have "encode_u64s (decode_u64s n (drop 8 bs)) = take (8 * n) (drop 8 bs)"
    using Suc by simp
  moreover have "take 8 bs @ take (8 * n) (drop 8 bs) = take (8 + 8 * n) bs"
    by (simp add: take_add)
  ultimately show ?case by simp
qed simp

lemma decode_u64s_less: "v \<in> set (decode_u64s n bs) \<Longrightarrow> v < 2 ^ 64"
proof (induction n arbitrary: bs)
  case (Suc n)
  have "le_nat (take 8 bs) < 256 ^ length (take 8 bs)" by (rule le_nat_less)
  also have "\<dots> \<le> 256 ^ 8" by (rule power_increasing) simp_all
  finally show ?case using Suc by auto
qed simp

lemma decode_u64s_nth:
  "i < n \<Longrightarrow> decode_u64s n bs ! i = le_nat (chunk bs (8 * i) 8)"
proof (induction n arbitrary: bs i)
  case (Suc n)
  then show ?case
    by (cases i) (simp_all add: chunk_def add.commute)
qed simp

lemma length_header_bytes [simp]: "length (header_bytes ino) = 44"
  by (simp add: header_bytes_def)

definition attr_ok :: "file_attr \<Rightarrow> bool" where
  "attr_ok a \<longleftrightarrow> atime a < 2 ^ 64 \<and> mtime a < 2 ^ 64 \<and> ctime a < 2 ^ 64 \<and> fsize a < 2 ^ 64"

text \<open>The values fit their fields and the tail is shorter than an entry.\<close>

definition inode_fits :: "inode \<Rightarrow> bool" where
  "inode_fits ino \<longleftrightarrow> type_ok (i_type ino) \<and> attr_ok (i_attr ino) \<and> i_block_size ino < 2 ^ 32 \<and>
     i_nblocks ino < 2 ^ 32 \<and> list_all (\<lambda>v. v < 2 ^ 64) (i_blocks ino) \<and> length (i_tail ino) < 8"

lemma length_encode_inode: "length (encode_inode ino) = 44 + 8 * length (i_blocks ino) + length (i_tail ino)"
  by (simp add: encode_inode_def)

lemma chunk_append_left: "off + n \<le> length xs \<Longrightarrow> chunk (xs @ ys) off n = chunk xs off n"
  by (simp add: chunk_def)

lemma chunk_append_right: "length xs \<le> off \<Longrightarrow> chunk (xs @ ys) off n = chunk ys (off - length xs) n"
  by (simp add: chunk_def)

lemma chunk_first: "length xs = n \<Longrightarrow> chunk (xs @ ys) 0 n = xs"
  by (simp add: chunk_def)

lemma chunk_all: "length xs = n \<Longrightarrow> chunk xs 0 n = xs"
  by (simp add: chunk_def)

lemmas chunk_fields = chunk_append_right chunk_first chunk_all

lemma chunk_header:
  "chunk (header_bytes ino @ rest) 0 4 = le_bytes 4 (u32_of_type (i_type ino))"
  "chunk (header_bytes ino @ rest) 4 8 = le_bytes 8 (atime (i_attr ino))"
  "chunk (header_bytes ino @ rest) 12 8 = le_bytes 8 (mtime (i_attr ino))"
  "chunk (header_bytes ino @ rest) 20 8 = le_bytes 8 (ctime (i_attr ino))"
  "chunk (header_bytes ino @ rest) 28 8 = le_bytes 8 (fsize (i_attr ino))"
  "chunk (header_bytes ino @ rest) 36 4 = le_bytes 4 (i_block_size ino)"
  "chunk (header_bytes ino @ rest) 40 4 = le_bytes 4 (i_nblocks ino)"
  by (simp_all add: header_bytes_def chunk_fields)

lemma decode_encode_inode: "inode_fits ino \<Longrightarrow> decode_inode (encode_inode ino) = Some ino"
proof -
  assume fits: "inode_fits ino"
  let ?n = "length (i_blocks ino)"
  have n: "(length (encode_inode ino) - 44) div 8 = ?n"
    using fits by (simp add: length_encode_inode inode_fits_def)
  have "decode_u64s ?n (drop 44 (encode_inode ino)) = i_blocks ino"
    using fits by (simp add: encode_inode_def decode_encode_u64s inode_fits_def)
  moreover have "drop (44 + 8 * ?n) (encode_inode ino) = i_tail ino"
    by (simp add: encode_inode_def)
  moreover have "44 \<le> length (encode_inode ino)"
    by (simp add: length_encode_inode)
  moreover note header = chunk_header [of ino "encode_u64s (i_blocks ino) @ i_tail ino",
      folded encode_inode_def]
  ultimately show ?thesis
    using fits u32_of_type_less [of "i_type ino"]
    by (simp add: decode_inode_def n header inode_fits_def attr_ok_def type_of_u32_of_type
        del: type_of_u32.simps)
qed

lemma encode_decode_inode:
  assumes "decode_inode buf = Some ino"
  shows "encode_inode ino = buf" "inode_fits ino" "length buf = length (encode_inode ino)"
proof -
  let ?n = "(length buf - 44) div 8"
  have len: "44 \<le> length buf"
    and ino: "ino = \<lparr>i_type = type_of_u32 (le_nat (chunk buf 0 4)),
       i_attr = \<lparr>atime = le_nat (chunk buf 4 8), mtime = le_nat (chunk buf 12 8),
                 ctime = le_nat (chunk buf 20 8), fsize = le_nat (chunk buf 28 8)\<rparr>,
       i_block_size = le_nat (chunk buf 36 4), i_nblocks = le_nat (chunk buf 40 4),
       i_blocks = decode_u64s ?n (drop 44 buf), i_tail = drop (44 + 8 * ?n) buf\<rparr>"
    using assms by (auto simp: decode_inode_def chfs_assert_def Let_def split: if_splits)
  have n: "8 * ?n \<le> length buf - 44" by simp
  have le: "le_bytes k (le_nat (chunk buf off k)) = chunk buf off k" if "off + k \<le> 44" for off k
    using le_bytes_le_nat [of "chunk buf off k"] that len by simp
  have join: "chunk buf off k @ chunk buf (off + k) m = chunk buf off (k + m)" for off k m
    by (simp add: chunk_def take_add add.commute)
  have "header_bytes ino = chunk buf 0 44"
    using join [of 36 4 4] join [of 28 8 8] join [of 20 8 16] join [of 12 8 24] join [of 4 8 32] join [of 0 4 40]
    by (simp add: header_bytes_def ino le u32_of_type_of_u32 del: type_of_u32.simps)
  moreover have "encode_u64s (i_blocks ino) @ i_tail ino = drop 44 buf"
  proof -
    have "drop (44 + 8 * ?n) buf = drop (8 * ?n) (drop 44 buf)" by (simp add: add.commute)
    moreover have "encode_u64s (decode_u64s ?n (drop 44 buf)) = take (8 * ?n) (drop 44 buf)"
      using n by (intro encode_decode_u64s) simp
    ultimately show ?thesis by (simp only: ino inode.simps append_take_drop_id)
  qed
  ultimately show enc: "encode_inode ino = buf"
    by (simp add: encode_inode_def chunk_def)
  then show "length buf = length (encode_inode ino)" by simp
  have less: "le_nat (chunk buf off k) < 256 ^ k" if "off + k \<le> 44" for off k
    using le_nat_less [of "chunk buf off k"] that len by simp
  have "type_ok (type_of_u32 v)" if "v < 2 ^ 32" for v
    using that by auto
  then show "inode_fits ino"
    using n len less [of 0 4] less [of 4 8] less [of 12 8] less [of 20 8] less [of 28 8] less [of 36 4]
      less [of 40 4] decode_u64s_less
    by (auto simp: inode_fits_def ino attr_ok_def list_all_iff simp del: type_of_u32.simps)
qed

interpretation inode_codec: codec inode_fits encode_inode "\<lambda>buf. the (decode_inode buf)"
  by unfold_locales (simp add: decode_encode_inode)

text \<open>
  The inode of a file on a device with blocks of \<open>sz\<close> bytes: its header fits the block
  and its block array fills the rest.
\<close>

definition inode_ok :: "nat \<Rightarrow> inode \<Rightarrow> bool" where
  "inode_ok sz ino \<longleftrightarrow> inode_fits ino \<and> i_block_size ino = sz \<and> 52 \<le> sz \<and> sz < 2 ^ 29 \<and>
     i_nblocks ino = (sz - 44) div 8 \<and> length (i_blocks ino) = (sz - 44) div 8 \<and>
     length (i_tail ino) = (sz - 44) mod 8"

lemma length_encode_inode_ok: "inode_ok sz ino \<Longrightarrow> length (encode_inode ino) = sz"
  by (simp add: inode_ok_def length_encode_inode)

lemma inode_ok_nblocks:
  assumes "inode_ok sz ino"
  shows "0 < i_nblocks ino" "i_nblocks ino < 2 ^ 32" "length (i_blocks ino) = i_nblocks ino"
    "sub32 (i_nblocks ino) 1 = i_nblocks ino - 1"
proof -
  have "52 \<le> sz" using assms by (simp add: inode_ok_def)
  then have "8 \<le> sz - 44" by linarith
  then show p: "0 < i_nblocks ino" using assms by (simp add: inode_ok_def div_greater_zero_iff)
  show l: "i_nblocks ino < 2 ^ 32" "length (i_blocks ino) = i_nblocks ino"
    using assms by (simp_all add: inode_ok_def inode_fits_def)
  show "sub32 (i_nblocks ino) 1 = i_nblocks ino - 1"
    using p l by (intro sub32_id) auto
qed

lemma invalidate_blocks_ok:
  "44 + 8 * (i + n) \<le> length buffer \<Longrightarrow>
   invalidate_blocks buffer i n = Some (patch buffer (44 + 8 * i) (replicate (8 * n) 0))"
proof (induction n arbitrary: i buffer)
  case 0
  then show ?case by (simp add: patch_def)
next
  case (Suc n)
  let ?b = "patch buffer (44 + 8 * i) (le_bytes 8 0)"
  have z: "le_bytes 8 0 = replicate 8 0"
    by (intro le_nat_inj) simp_all
  have "invalidate_blocks buffer i (Suc n) = invalidate_blocks ?b (Suc i) n"
    using Suc.prems by simp
  also have "\<dots> = Some (patch ?b (44 + 8 * Suc i) (replicate (8 * n) 0))"
    using Suc.prems by (intro Suc.IH) simp
  also have "patch ?b (44 + 8 * Suc i) (replicate (8 * n) 0) =
      patch buffer (44 + 8 * i) (replicate (8 * Suc n) 0)"
    unfolding z using Suc.prems by (intro nth_equalityI) (auto simp: nth_patch)
  finally show ?case .
qed

text \<open>\<open>flush_to_buffer\<close> of a new inode writes an inode with no blocks.\<close>

definition empty_inode :: "inode_type \<Rightarrow> nat \<Rightarrow> nat \<Rightarrow> byte list \<Rightarrow> inode" where
  "empty_inode type block_size now tail =
     \<lparr>i_type = type, i_attr = \<lparr>atime = now, mtime = now, ctime = now, fsize = 0\<rparr>,
      i_block_size = block_size, i_nblocks = (block_size - 44) div 8,
      i_blocks = replicate ((block_size - 44) div 8) 0, i_tail = tail\<rparr>"

lemma empty_inode_ok:
  "type_ok t \<Longrightarrow> 52 \<le> sz \<Longrightarrow> sz < 2 ^ 29 \<Longrightarrow> now < 2 ^ 64 \<Longrightarrow> length tail = (sz - 44) mod 8 \<Longrightarrow>
   inode_ok sz (empty_inode t sz now tail)"
  by (auto simp: inode_ok_def inode_fits_def empty_inode_def attr_ok_def list_all_iff)

lemma flush_new_inode:
  assumes "52 \<le> sz" "sz < 2 ^ 29" "length buffer = sz"
  obtains ino where "inode_create t sz now = Some ino"
    "flush_to_buffer ino buffer =
      Some (encode_inode (empty_inode t sz now (drop (44 + 8 * ((sz - 44) div 8)) buffer)))"
proof -
  let ?n = "(sz - 44) div 8"
  let ?ino = "\<lparr>i_type = t, i_attr = \<lparr>atime = now, mtime = now, ctime = now, fsize = 0\<rparr>,
      i_block_size = sz, i_nblocks = ?n, i_blocks = [], i_tail = []\<rparr>"
  have n: "44 + 8 * ?n \<le> sz" using assms by simp
  have c: "inode_create t sz now = Some ?ino"
    using assms by (simp add: inode_create_def set_all_time_def u32_def)
  have z: "encode_u64s (replicate k 0) = replicate (8 * k) 0" for k
  proof (induction k)
    case (Suc k)
    have "le_bytes 8 0 = replicate 8 0"
      by (intro le_nat_inj) simp_all
    with Suc show ?case by (simp add: replicate_add [symmetric])
  qed simp
  have "patch (patch buffer 0 (header_bytes ?ino)) 44 (replicate (8 * ?n) 0) =
      header_bytes ?ino @ replicate (8 * ?n) 0 @ drop (44 + 8 * ?n) buffer"
    using assms by (simp add: patch_def add.commute)
  then have "flush_to_buffer ?ino buffer =
      Some (encode_inode (empty_inode t sz now (drop (44 + 8 * ?n) buffer)))"
    using assms n
    by (simp add: flush_to_buffer_def invalidate_blocks_ok encode_inode_def empty_inode_def z
        header_bytes_def)
  with c show thesis by (rule that)
qed

section \<open>Superblock round trip\<close>

definition super_block_ok :: "super_block \<Rightarrow> bool" where
  "super_block_ok sb \<longleftrightarrow> sb_block_size sb < 2 ^ 32 \<and> length (sb_pad sb) = 4 \<and> sb_nblocks sb < 2 ^ 64 \<and>
     sb_ninodes sb < 2 ^ 64 \<and> sb_file_system_size sb < 2 ^ 64"

lemma super_block_round_trip: "super_block_ok sb \<Longrightarrow> super_block_of_bytes (super_block_bytes sb) = sb"
  by (simp add: super_block_ok_def super_block_of_bytes_def super_block_bytes_def chunk_fields)

interpretation sb_codec: codec super_block_ok super_block_bytes super_block_of_bytes
  by unfold_locales (rule super_block_round_trip)

lemma length_super_block_bytes [simp]: "super_block_ok sb \<Longrightarrow> length (super_block_bytes sb) = 32"
  by (simp add: super_block_ok_def super_block_bytes_def)

lemma super_block_flush_ok:
  assumes "bm_ok bm" "\<not> bm_maybe_failed bm" "in_dev bm i" "32 \<le> bm_block_sz bm" "super_block_ok sb"
  obtains bm' where "super_block_flush sb bm i = Some (KNullOk, bm')" "only_changes {i} bm bm'"
    "super_block_create_from_existing bm' i = Some (Ok sb)"
proof -
  let ?b = "super_block_bytes sb" and ?off = "i * bm_block_sz bm"
  define mem where "mem = patch (bm_block_data bm) ?off ?b"
  define bm' where "bm' = bm\<lparr>bm_block_data := mem, bm_write_fail_cnt := u32 (bm_write_fail_cnt bm + 1)\<rparr>"
  have off: "?off + bm_block_sz bm \<le> length (bm_block_data bm)" and u: "u32 ?off = ?off"
    using in_dev_offset [OF assms(1,3)] by auto
  have fl: "super_block_flush sb bm i = Some (KNullOk, bm')"
    using assms off
    by (simp add: super_block_flush_def write_partial_block_def may_fail_now_def u bm'_def mem_def
        chunk_all)
  have same: "blk bm' j = blk bm j" if "in_dev bm j" "j \<noteq> i" for j
  proof -
    have "j * bm_block_sz bm + bm_block_sz bm \<le> ?off \<or> ?off + bm_block_sz bm \<le> j * bm_block_sz bm"
      using that(2) by (metis Suc_leI add.commute mult_Suc mult_le_mono1 nat_neq_iff)
    then show ?thesis
      using that assms off
      by (simp add: blk_def bm'_def mem_def in_dev_def add.commute) (rule chunk_patch_disjoint; auto)
  qed
  have ch: "only_changes {i} bm bm'"
    using off assms same by (simp add: only_changes_def) (simp add: bm'_def mem_def)
  note f = only_changes_fields [OF ch]
  have "chunk (blk bm' i) 0 32 = ?b"
    using assms off by (simp add: blk_def bm'_def mem_def chunk_chunk chunk_patch_same)
  then have "super_block_create_from_existing bm' i = Some (Ok sb)"
    using assms f by (simp add: super_block_create_from_existing_def read_block_ok super_block_round_trip)
  with fl ch show thesis by (rule that)
qed

section \<open>Properties\<close>

text \<open>Casting a buffer to an \<open>Inode\<close> and back is exact: a buffer holds the inode \<open>ino\<close> if and only
  if it is the encoding of \<open>ino\<close>, field by field at the offsets of the packed layout, and the
  values of \<open>ino\<close> fit the widths of their fields.\<close>

theorem inode_cast_exact:
  "decode_inode buf = Some ino \<longleftrightarrow> inode_fits ino \<and> encode_inode ino = buf"
  using encode_decode_inode decode_encode_inode by blast

text \<open>A flushed superblock is read back unchanged from its block, and the flush touches no other
  block.\<close>

theorem super_block_flush_read_back:
  assumes "bm_ok bm" "\<not> bm_maybe_failed bm" "in_dev bm i" "super_block_ok garbage"
    "ninodes < 2 ^ 64" "super_block_create bm ninodes garbage = Some sb"
  shows "\<exists>bm'. super_block_flush sb bm i = Some (KNullOk, bm') \<and> only_changes {i} bm bm' \<and>
    super_block_create_from_existing bm' i = Some (Ok sb)"
proof -
  have sz: "32 \<le> bm_block_sz bm" and sb: "sb = garbage\<lparr>sb_block_size := bm_block_sz bm,
      sb_nblocks := bm_block_cnt bm, sb_ninodes := ninodes\<rparr>"
    using assms(6) by (auto simp: super_block_create_def chfs_assert_def split: if_splits)
  have "bm_block_cnt bm < 2 ^ 64" using bm_ok_cnt [OF assms(1)] by simp
  moreover have "bm_block_sz bm * 1 \<le> (i + 1) * bm_block_sz bm" by simp
  then have "bm_block_sz bm < 2 ^ 32" using assms(1,3) unfolding bm_ok_def in_dev_def by linarith
  ultimately have "super_block_ok sb" using assms(4,5) by (simp add: sb super_block_ok_def)
  then obtain bm' where "super_block_flush sb bm i = Some (KNullOk, bm')" "only_changes {i} bm bm'"
    "super_block_create_from_existing bm' i = Some (Ok sb)"
    using super_block_flush_ok [OF assms(1-3) sz] by metis
  then show ?thesis by blast
qed

definition demo_dev32 :: block_manager where
  "demo_dev32 = \<lparr>bm_block_sz = 32, bm_block_cnt = 3, bm_in_memory = True, bm_maybe_failed = False,
     bm_write_fail_cnt = 0, bm_block_data = replicate 96 0\<rparr>"

definition demo_sb :: super_block where
  "demo_sb = \<lparr>sb_block_size = 32, sb_pad = [1, 2, 3, 4], sb_nblocks = 3, sb_ninodes = 5,
     sb_file_system_size = 77\<rparr>"

theorem super_block_flush_read_back_witness:
  "super_block_create demo_dev32 5 demo_sb = Some demo_sb \<and>
   (\<exists>bm'. super_block_flush demo_sb demo_dev32 1 = Some (KNullOk, bm') \<and> only_changes {1} demo_dev32 bm' \<and>
     super_block_create_from_existing bm' 1 = Some (Ok demo_sb))"
proof
  show c: "super_block_create demo_dev32 5 demo_sb = Some demo_sb"
    by (simp add: super_block_create_def demo_dev32_def demo_sb_def)
  show "\<exists>bm'. super_block_flush demo_sb demo_dev32 1 = Some (KNullOk, bm') \<and> only_changes {1} demo_dev32 bm' \<and>
     super_block_create_from_existing bm' 1 = Some (Ok demo_sb)"
    by (rule super_block_flush_read_back [OF _ _ _ _ _ c])
      (simp_all add: demo_dev32_def demo_sb_def bm_ok_def in_dev_def super_block_ok_def)
qed

end
