(* ===== verification/Inode_Manager.thy ===== *)
theory Inode_Manager
  imports Inode
begin

text \<open>
  The inode manager (src/chfs/src/include/metadata/manager.h,
  src/chfs/src/metadata/manager.cc). Blocks 1 to \<open>n_table_blocks\<close> hold the table that
  maps a raw inode number to the block of the inode, the \<open>n_bitmap_blocks\<close> behind them
  one bit per raw inode number; logical inode numbers are the raw ones plus one.
  The abstraction is the set of raw numbers in use and the table as a function.
\<close>

section \<open>State and operations\<close>

record inode_manager =
  im_max_inode_supported :: nat
  im_n_table_blocks :: nat
  im_n_bitmap_blocks :: nat

definition RAW_2_LOGIC :: "nat \<Rightarrow> nat" where
  "RAW_2_LOGIC i = u64 (i + 1)"

definition LOGIC_2_RAW :: "nat \<Rightarrow> nat" where
  "LOGIC_2_RAW i = sub64 i 1"

text \<open>The number of table blocks for \<open>max_inode\<close> entries.\<close>

definition table_blocks_for :: "block_manager \<Rightarrow> nat \<Rightarrow> nat" where
  "table_blocks_for bm max_inode =
     (let inode_per_block = bm_block_sz bm div sizeof_block_id;
          table_blocks = max_inode div inode_per_block
      in if u64 (table_blocks * inode_per_block) < max_inode then u64 (table_blocks + 1) else table_blocks)"

text \<open>The number of bitmap blocks for \<open>max_inode\<close> inodes, \<open>bits\<close> of them in a block.\<close>

definition inode_bitmap_blocks_for :: "nat \<Rightarrow> nat \<Rightarrow> nat" where
  "inode_bitmap_blocks_for bits max_inode =
     (let blocks_needed = max_inode div bits
      in if u64 (blocks_needed * bits) < max_inode then u64 (blocks_needed + 1) else blocks_needed)"

definition inode_manager_create ::
    "block_manager \<Rightarrow> nat \<Rightarrow> (inode_manager \<times> block_manager) option" where
  "inode_manager_create bm max_inode_supported = do {
     let inode_bits_per_block = u32 (bm_block_sz bm * KBitsPerByte);
     chfs_assert (inode_bits_per_block \<noteq> 0 \<and> bm_block_sz bm div sizeof_block_id \<noteq> 0);
     let blocks_needed = inode_bitmap_blocks_for inode_bits_per_block max_inode_supported;
     let max_inode = u64 (u64 (blocks_needed * KBitsPerByte) * bm_block_sz bm);
     let table_blocks = table_blocks_for bm max_inode;
     bm1 \<leftarrow> zero_blocks bm 1 0 table_blocks;
     bm2 \<leftarrow> zero_blocks bm1 (u64 (1 + table_blocks)) 0 blocks_needed;
     Some (\<lparr>im_max_inode_supported = max_inode, im_n_table_blocks = table_blocks,
            im_n_bitmap_blocks = blocks_needed\<rparr>, bm2)
   }"

definition inode_manager_from_block_manager ::
    "block_manager \<Rightarrow> nat \<Rightarrow> inode_manager chfs_result option" where
  "inode_manager_from_block_manager bm max_inode_supported = do {
     let inode_bits_per_block = u32 (bm_block_sz bm * KBitsPerByte);
     chfs_assert (inode_bits_per_block \<noteq> 0 \<and> bm_block_sz bm div sizeof_block_id \<noteq> 0);
     let n_bitmap_blocks = max_inode_supported div inode_bits_per_block;
     chfs_assert (u64 (n_bitmap_blocks * inode_bits_per_block) = max_inode_supported);
     Some (Ok \<lparr>im_max_inode_supported = max_inode_supported,
               im_n_table_blocks = table_blocks_for bm max_inode_supported,
               im_n_bitmap_blocks = n_bitmap_blocks\<rparr>)
   }"

definition get_reserved_blocks :: "inode_manager \<Rightarrow> nat" where
  "get_reserved_blocks im = u32 (1 + im_n_table_blocks im + im_n_bitmap_blocks im)"

definition set_table ::
    "block_manager \<Rightarrow> nat \<Rightarrow> nat \<Rightarrow> (null_result \<times> block_manager) option" where
  "set_table bm idx bid = do {
     let inode_per_block = bm_block_sz bm div sizeof_block_id;
     chfs_assert (inode_per_block \<noteq> 0);
     let iblock_id = u64 (1 + idx div inode_per_block);
     let iblock_offset = idx mod inode_per_block;
     res \<leftarrow> read_block bm iblock_id (bm_block_sz bm);
     case res of
       Err e \<Rightarrow> Some (Err e, bm)
     | Ok buffer \<Rightarrow> do {
         buffer' \<leftarrow> put_le 8 buffer (sizeof_block_id * iblock_offset) bid;
         (res', bm') \<leftarrow> write_block bm iblock_id buffer';
         case res' of
           Err e \<Rightarrow> Some (Err e, bm')
         | Ok _ \<Rightarrow> Some (KNullOk, bm')
       }
   }"

text \<open>
  The search of the bitmap blocks. \<open>fuel\<close> bounds the number of rounds of the \<open>for\<close> loop;
  one more than the number of bitmap blocks is enough (\<open>allocate_inode_free\<close>,
  \<open>allocate_inode_full\<close>).
\<close>

fun allocate_inode_loop ::
    "nat \<Rightarrow> block_manager \<Rightarrow> block_iterator \<Rightarrow> nat \<Rightarrow> nat \<Rightarrow> (nat chfs_result \<times> block_manager) option" where
  "allocate_inode_loop 0 bm iter count bid = None"
| "allocate_inode_loop (Suc fuel) bm iter count bid =
     (if \<not> iterator_has_next bm iter then Some (Err OUT_OF_RESOURCE, bm)
      else do {
        free_idx \<leftarrow> find_first_free (bm_block_sz bm) (it_buffer iter);
        case free_idx of
          Some k \<Rightarrow> do {
            data \<leftarrow> bitmap_set (bm_block_sz bm) (it_buffer iter) k;
            (res, bm1) \<leftarrow> iterator_flush_cur_block bm (iter\<lparr>it_buffer := data\<rparr>);
            case res of
              Err e \<Rightarrow> Some (Err e, bm1)
            | Ok _ \<Rightarrow> do {
                let inode_bits_per_block = u32 (bm_block_sz bm * KBitsPerByte);
                let inode_id = RAW_2_LOGIC (u64 (u64 (count * inode_bits_per_block) + k));
                (setres, bm2) \<leftarrow> set_table bm1 (LOGIC_2_RAW inode_id) bid;
                case setres of
                  Err e \<Rightarrow> Some (Err e, bm2)
                | Ok _ \<Rightarrow> Some (Ok inode_id, bm2)
              }
          }
        | None \<Rightarrow> do {
            (res, iter') \<leftarrow> iterator_next bm iter (bm_block_sz bm);
            _ \<leftarrow> unwrap res;
            allocate_inode_loop fuel bm iter' (u64 (count + 1)) bid
          }
      })"

definition bitmap_iterator :: "block_manager \<Rightarrow> inode_manager \<Rightarrow> block_iterator chfs_result option" where
  "bitmap_iterator bm im =
     iterator_create bm (u64 (1 + im_n_table_blocks im))
       (u64 (1 + im_n_table_blocks im + im_n_bitmap_blocks im))"

definition allocate_inode ::
    "block_manager \<Rightarrow> inode_manager \<Rightarrow> inode_type \<Rightarrow> nat \<Rightarrow> (nat chfs_result \<times> block_manager) option" where
  "allocate_inode bm im type bid = do {
     iter_res \<leftarrow> bitmap_iterator bm im;
     case iter_res of
       Err e \<Rightarrow> Some (Err e, bm)
     | Ok iter \<Rightarrow> allocate_inode_loop (im_n_bitmap_blocks im + 1) bm iter 0 bid
   }"

text \<open>\<open>InodeManager::get\<close>.\<close>

definition im_get :: "block_manager \<Rightarrow> nat \<Rightarrow> nat chfs_result option" where
  "im_get bm inode_id = do {
     let inode_per_block = bm_block_sz bm div sizeof_block_id;
     chfs_assert (inode_per_block \<noteq> 0);
     let iblock_id = u64 (1 + LOGIC_2_RAW inode_id div inode_per_block);
     let iblock_offset = LOGIC_2_RAW inode_id mod inode_per_block;
     res \<leftarrow> read_block bm iblock_id (bm_block_sz bm);
     case res of
       Err e \<Rightarrow> Some (Err e)
     | Ok buffer \<Rightarrow> do {
         res_block_id \<leftarrow> get_le 8 buffer (sizeof_block_id * iblock_offset);
         Some (Ok res_block_id)
       }
   }"

fun free_inode_cnt_loop ::
    "nat \<Rightarrow> block_manager \<Rightarrow> block_iterator \<Rightarrow> nat \<Rightarrow> nat chfs_result option" where
  "free_inode_cnt_loop 0 bm iter count = None"
| "free_inode_cnt_loop (Suc fuel) bm iter count =
     (if \<not> iterator_has_next bm iter then Some (Ok count)
      else do {
        zeros \<leftarrow> count_zeros (bm_block_sz bm) (it_buffer iter);
        (res, iter') \<leftarrow> iterator_next bm iter (bm_block_sz bm);
        case res of
          Err e \<Rightarrow> Some (Err e)
        | Ok _ \<Rightarrow> free_inode_cnt_loop fuel bm iter' (u64 (count + zeros))
      })"

definition free_inode_cnt :: "block_manager \<Rightarrow> inode_manager \<Rightarrow> nat chfs_result option" where
  "free_inode_cnt bm im = do {
     iter_res \<leftarrow> bitmap_iterator bm im;
     case iter_res of
       Err e \<Rightarrow> Some (Err e)
     | Ok iter \<Rightarrow> free_inode_cnt_loop (im_n_bitmap_blocks im + 1) bm iter 0
   }"

text \<open>\<open>read_inode\<close> returns the inode's block and fills the caller's buffer with it.\<close>

definition read_inode ::
    "block_manager \<Rightarrow> inode_manager \<Rightarrow> nat \<Rightarrow> nat \<Rightarrow> (nat \<times> byte list) chfs_result option" where
  "read_inode bm im inode_id room =
     (if sub64 (im_max_inode_supported im) 1 \<le> inode_id then Some (Err INVALID_ARG)
      else do {
        block_id \<leftarrow> im_get bm inode_id;
        case block_id of
          Err e \<Rightarrow> Some (Err e)
        | Ok bid \<Rightarrow>
            if bid = KInvalidBlockID then Some (Err INVALID_ARG)
            else do {
              res \<leftarrow> read_block bm bid room;
              case res of
                Err e \<Rightarrow> Some (Err e)
              | Ok buffer \<Rightarrow> Some (Ok (bid, buffer))
            }
      })"

definition get_type_attr ::
    "block_manager \<Rightarrow> inode_manager \<Rightarrow> nat \<Rightarrow> (inode_type \<times> file_attr) chfs_result option" where
  "get_type_attr bm im inode_id = do {
     res \<leftarrow> read_inode bm im inode_id (bm_block_sz bm);
     case res of
       Err e \<Rightarrow> Some (Err e)
     | Ok (bid, buffer) \<Rightarrow> do {
         ino \<leftarrow> decode_inode buffer;
         Some (Ok (i_type ino, i_attr ino))
       }
   }"

definition get_attr :: "block_manager \<Rightarrow> inode_manager \<Rightarrow> nat \<Rightarrow> file_attr chfs_result option" where
  "get_attr bm im inode_id = do {
     res \<leftarrow> read_inode bm im inode_id (bm_block_sz bm);
     case res of
       Err e \<Rightarrow> Some (Err e)
     | Ok (bid, buffer) \<Rightarrow> do {
         ino \<leftarrow> decode_inode buffer;
         Some (Ok (i_attr ino))
       }
   }"

definition get_type :: "block_manager \<Rightarrow> inode_manager \<Rightarrow> nat \<Rightarrow> inode_type chfs_result option" where
  "get_type bm im inode_id = do {
     res \<leftarrow> read_inode bm im inode_id (bm_block_sz bm);
     case res of
       Err e \<Rightarrow> Some (Err e)
     | Ok (bid, buffer) \<Rightarrow> do {
         ino \<leftarrow> decode_inode buffer;
         Some (Ok (i_type ino))
       }
   }"

text \<open>
  \<open>free_inode\<close> clears the table entry with the same statements as \<open>set_table\<close>, then the bit.
  Nothing checks that the inode is in use.
\<close>

definition free_inode ::
    "block_manager \<Rightarrow> inode_manager \<Rightarrow> nat \<Rightarrow> (null_result \<times> block_manager) option" where
  "free_inode bm im inode_id =
     (if sub64 (im_max_inode_supported im) 1 \<le> inode_id then Some (Err INVALID_ARG, bm)
      else do {
        let inode_per_block = bm_block_sz bm div sizeof_block_id;
        let inode_bits_per_block = u32 (bm_block_sz bm * KBitsPerByte);
        chfs_assert (inode_per_block \<noteq> 0 \<and> inode_bits_per_block \<noteq> 0);
        let raw = LOGIC_2_RAW inode_id;
        (res, bm1) \<leftarrow> set_table bm raw KInvalidBlockID;
        case res of
          Err e \<Rightarrow> Some (Err e, bm1)
        | Ok _ \<Rightarrow> do {
            let ibit_block_id = u64 (1 + im_n_table_blocks im + raw div inode_bits_per_block);
            rd \<leftarrow> read_block bm1 ibit_block_id (bm_block_sz bm);
            case rd of
              Err e \<Rightarrow> Some (Err e, bm1)
            | Ok buffer \<Rightarrow> do {
                buffer' \<leftarrow> bitmap_clear (bm_block_sz bm) buffer (raw mod inode_bits_per_block);
                (wr, bm2) \<leftarrow> write_block bm1 ibit_block_id buffer';
                case wr of
                  Err e \<Rightarrow> Some (Err e, bm2)
                | Ok _ \<Rightarrow> Some (KNullOk, bm2)
              }
          }
      })"

section \<open>The inode table and the set of inodes in use\<close>

abbreviation (input) ipb :: "block_manager \<Rightarrow> nat" where
  "ipb bm \<equiv> bm_block_sz bm div 8"

definition im_ok :: "block_manager \<Rightarrow> inode_manager \<Rightarrow> bool" where
  "im_ok bm im \<longleftrightarrow> bm_ok bm \<and> \<not> bm_maybe_failed bm \<and> blk_bits bm < 2 ^ 32 \<and> 8 \<le> bm_block_sz bm \<and>
     0 < im_n_bitmap_blocks im \<and>
     im_max_inode_supported im = im_n_bitmap_blocks im * blk_bits bm \<and>
     im_max_inode_supported im \<le> im_n_table_blocks im * ipb bm \<and>
     1 + im_n_table_blocks im + im_n_bitmap_blocks im < bm_block_cnt bm"

text \<open>The inode bitmap read the way the block allocator's is.\<close>

definition inode_bits :: "inode_manager \<Rightarrow> block_allocator" where
  "inode_bits im = \<lparr>al_bitmap_block_id = 1 + im_n_table_blocks im,
     al_bitmap_block_cnt = im_n_bitmap_blocks im, al_last_block_num = 0\<rparr>"

definition inode_used :: "block_manager \<Rightarrow> inode_manager \<Rightarrow> nat set" where
  "inode_used bm im = {i. i < im_max_inode_supported im \<and> marked bm (inode_bits im) i}"

definition inode_table :: "block_manager \<Rightarrow> nat \<Rightarrow> nat" where
  "inode_table bm i = le_nat (chunk (blk bm (1 + i div ipb bm)) (8 * (i mod ipb bm)) 8)"

definition inode_area :: "inode_manager \<Rightarrow> nat set" where
  "inode_area im = {1..<1 + im_n_table_blocks im + im_n_bitmap_blocks im}"

lemma im_okD:
  assumes "im_ok bm im"
  shows "bm_ok bm" "\<not> bm_maybe_failed bm" "blk_bits bm < 2 ^ 32" "0 < bm_block_sz bm" "0 < ipb bm"
    "u32 (blk_bits bm) = blk_bits bm" "8 * ipb bm \<le> bm_block_sz bm" "bm_block_cnt bm < 2 ^ 32"
proof -
  show ok: "bm_ok bm" "\<not> bm_maybe_failed bm" "blk_bits bm < 2 ^ 32" "0 < bm_block_sz bm" "0 < ipb bm"
    "u32 (blk_bits bm) = blk_bits bm" "8 * ipb bm \<le> bm_block_sz bm"
    using assms by (auto simp: im_ok_def u32_def div_greater_zero_iff)
  show "bm_block_cnt bm < 2 ^ 32" using ok(1) by (rule bm_ok_cnt)
qed

lemma im_ok_max: "im_ok bm im \<Longrightarrow> im_max_inode_supported im < 2 ^ 32"
proof -
  assume ok: "im_ok bm im"
  have "im_max_inode_supported im \<le> im_n_table_blocks im * ipb bm"
    using ok by (simp add: im_ok_def)
  also have "\<dots> \<le> bm_block_cnt bm * bm_block_sz bm"
    using ok by (intro mult_le_mono) (auto simp: im_ok_def)
  also have "\<dots> < 2 ^ 32"
    using im_okD(1) [OF ok] unfolding bm_ok_def by linarith
  finally show ?thesis .
qed

lemma bitmap_block_dev:
  assumes "im_ok bm im" "j \<le> im_n_bitmap_blocks im"
  shows "in_dev bm (1 + im_n_table_blocks im + j)"
    "u64 (1 + im_n_table_blocks im + j) = 1 + im_n_table_blocks im + j"
proof -
  have "1 + im_n_table_blocks im + j < bm_block_cnt bm" using assms by (simp add: im_ok_def)
  with im_okD [OF assms(1)] show "in_dev bm (1 + im_n_table_blocks im + j)"
    "u64 (1 + im_n_table_blocks im + j) = 1 + im_n_table_blocks im + j"
    by (auto simp: u64_def intro: in_dev_bound)
qed

lemma bitmap_block_ok:
  "im_ok bm im \<Longrightarrow> j < im_n_bitmap_blocks im \<Longrightarrow>
   bitmap_ok (bm_block_sz bm) (blk bm (1 + im_n_table_blocks im + j))"
  using bitmap_block_dev [of bm im j] by (simp add: bitmap_ok_def im_ok_def)

lemma table_block_dev:
  assumes "im_ok bm im" "i < im_max_inode_supported im"
  shows "i div ipb bm < im_n_table_blocks im" "in_dev bm (1 + i div ipb bm)"
    "u64 (1 + i div ipb bm) = 1 + i div ipb bm"
    "8 * (i mod ipb bm) + 8 \<le> bm_block_sz bm"
proof -
  note ok = im_okD [OF assms(1)]
  have "i < im_n_table_blocks im * ipb bm" using assms by (simp add: im_ok_def)
  then show t: "i div ipb bm < im_n_table_blocks im" by (simp add: less_mult_imp_div_less)
  then have "1 + i div ipb bm < bm_block_cnt bm" using assms(1) by (simp add: im_ok_def)
  then show "in_dev bm (1 + i div ipb bm)" "u64 (1 + i div ipb bm) = 1 + i div ipb bm"
    using ok by (auto simp: u64_def intro: in_dev_bound)
  have "i mod ipb bm < ipb bm" using ok(5) by simp
  then have "8 * (i mod ipb bm) + 8 \<le> 8 * ipb bm" by linarith
  with ok(7) show "8 * (i mod ipb bm) + 8 \<le> bm_block_sz bm" by linarith
qed

section \<open>The table\<close>

lemma LOGIC_2_RAW_Suc [simp]: "i < 2 ^ 63 \<Longrightarrow> LOGIC_2_RAW (Suc i) = i"
  by (simp add: LOGIC_2_RAW_def sub64_id)

lemma im_get_ok:
  assumes ok: "im_ok bm im" and i: "i < im_max_inode_supported im"
  shows "im_get bm (Suc i) = Some (Ok (inode_table bm i))"
proof -
  have "i < 2 ^ 63" using im_ok_max [OF ok] i by simp
  then show ?thesis
    using im_okD [OF ok] table_block_dev [OF ok i] i im_ok_max [OF ok]
    by (simp add: im_get_def inode_table_def read_block_ok Let_def)
qed

text \<open>Two raw inode numbers share a table block only if they differ in their entry.\<close>

lemma inode_table_put:
  assumes ok: "im_ok bm im" and i: "i < im_max_inode_supported im" and j: "j < im_max_inode_supported im"
    and v: "v < 2 ^ 64"
  shows "inode_table (put_blk bm (1 + i div ipb bm)
      (patch (blk bm (1 + i div ipb bm)) (8 * (i mod ipb bm)) (le_bytes 8 v))) j =
    (if j = i then v else inode_table bm j)"
proof -
  let ?q = "ipb bm" and ?b = "blk bm (1 + i div ipb bm)"
  note di = table_block_dev [OF ok i] and dj = table_block_dev [OF ok j]
  have len: "length ?b = bm_block_sz bm" using di by simp
  have eq: "j = i \<longleftrightarrow> j div ?q = i div ?q \<and> j mod ?q = i mod ?q" by (metis div_mult_mod_eq)
  have blk: "blk (put_blk bm (1 + i div ?q) (patch ?b (8 * (i mod ?q)) (le_bytes 8 v))) (1 + j div ?q) =
      (if j div ?q = i div ?q then patch ?b (8 * (i mod ?q)) (le_bytes 8 v) else blk bm (1 + j div ?q))"
    using di dj len by (simp add: blk_put_blk)
  consider "j = i" | "j div ?q = i div ?q" "j mod ?q \<noteq> i mod ?q" | "j div ?q \<noteq> i div ?q"
    using eq by blast
  then show ?thesis
  proof cases
    case 1
    with blk di len v show ?thesis by (simp add: inode_table_def chunk_patch_same)
  next
    case 2
    then have "chunk (patch ?b (8 * (i mod ?q)) (le_bytes 8 v)) (8 * (j mod ?q)) 8 =
        chunk ?b (8 * (j mod ?q)) 8"
      using di dj len by (intro chunk_patch_disjoint) auto
    with 2 blk show ?thesis by (auto simp: inode_table_def)
  next
    case 3
    with blk show ?thesis by (auto simp: inode_table_def)
  qed
qed

lemma set_table_ok:
  assumes ok: "im_ok bm im" and i: "i < im_max_inode_supported im" and v: "v < 2 ^ 64"
  obtains bm' where "set_table bm i v = Some (KNullOk, bm')"
    "only_changes {1..<1 + im_n_table_blocks im} bm bm'"
    "\<And>j. j < im_max_inode_supported im \<Longrightarrow> inode_table bm' j = (if j = i then v else inode_table bm j)"
proof -
  let ?b = "blk bm (1 + i div ipb bm)"
  let ?b' = "patch ?b (8 * (i mod ipb bm)) (le_bytes 8 v)"
  let ?bm = "put_blk bm (1 + i div ipb bm) ?b'"
  note di = table_block_dev [OF ok i] and aok = im_okD [OF ok]
  have len: "length ?b = bm_block_sz bm" "length ?b' = bm_block_sz bm" using di by simp_all
  have "set_table bm i v = Some (KNullOk, ?bm)"
    using aok di len by (simp add: set_table_def read_block_ok write_block_ok Let_def)
  moreover have "only_changes {1..<1 + im_n_table_blocks im} bm ?bm"
    using di len by (intro only_changes_put_blk) auto
  ultimately show thesis
    using inode_table_put [OF ok i _ v] by (rule that)
qed

lemma inode_table_frame:
  assumes ok: "im_ok bm im" and ch: "only_changes S bm bm'" and S: "S \<inter> {1..<1 + im_n_table_blocks im} = {}"
    and i: "i < im_max_inode_supported im"
  shows "inode_table bm' i = inode_table bm i"
proof -
  note di = table_block_dev [OF ok i]
  have "1 + i div ipb bm \<in> {1..<1 + im_n_table_blocks im}" using di by simp
  then have "blk bm' (1 + i div ipb bm) = blk bm (1 + i div ipb bm)"
    using S di by (intro only_changes_blk [OF ch]) auto
  then show ?thesis using only_changes_fields [OF ch] by (simp add: inode_table_def)
qed

lemma im_ok_frame: "im_ok bm im \<Longrightarrow> only_changes S bm bm' \<Longrightarrow> im_ok bm' im"
  using only_changes_fields [of S bm bm'] by (simp add: im_ok_def)

lemma inode_used_frame:
  assumes ok: "im_ok bm im" and ch: "only_changes S bm bm'"
    and S: "S \<inter> {1 + im_n_table_blocks im..<1 + im_n_table_blocks im + im_n_bitmap_blocks im} = {}"
  shows "inode_used bm' im = inode_used bm im"
proof -
  have "marked bm' (inode_bits im) i = marked bm (inode_bits im) i" if i: "i < im_max_inode_supported im" for i
  proof -
    have j: "i div blk_bits bm < im_n_bitmap_blocks im"
      using i ok by (simp add: im_ok_def less_mult_imp_div_less)
    then have "blk bm' (1 + im_n_table_blocks im + i div blk_bits bm) =
        blk bm (1 + im_n_table_blocks im + i div blk_bits bm)"
      using S bitmap_block_dev [OF ok, of "i div blk_bits bm"]
      by (intro only_changes_blk [OF ch]) auto
    then show ?thesis using only_changes_fields [OF ch] by (simp add: marked_def inode_bits_def)
  qed
  then show ?thesis by (auto simp: inode_used_def)
qed

section \<open>The iterator over the bitmap blocks\<close>

definition iter_at :: "block_manager \<Rightarrow> inode_manager \<Rightarrow> nat \<Rightarrow> block_iterator" where
  "iter_at bm im i = \<lparr>it_cur_block_off = i * bm_block_sz bm, it_start_block_id = 1 + im_n_table_blocks im,
     it_end_block_id = 1 + im_n_table_blocks im + im_n_bitmap_blocks im,
     it_buffer = blk bm (1 + im_n_table_blocks im + i)\<rparr>"

lemma iter_off_less:
  assumes "im_ok bm im" "i \<le> im_n_bitmap_blocks im"
  shows "i * bm_block_sz bm < 2 ^ 32"
proof -
  have "i * bm_block_sz bm \<le> bm_block_cnt bm * bm_block_sz bm"
    using assms by (intro mult_le_mono1) (simp add: im_ok_def)
  then show ?thesis using im_okD(1) [OF assms(1)] unfolding bm_ok_def by linarith
qed

lemma bitmap_iterator_ok:
  assumes ok: "im_ok bm im"
  shows "bitmap_iterator bm im = Some (Ok (iter_at bm im 0))"
  using im_okD [OF ok] bitmap_block_dev [OF ok, of 0]
    bitmap_block_dev [OF ok, of "im_n_bitmap_blocks im"]
  by (simp add: bitmap_iterator_def iterator_create_def iter_at_def read_block_ok)

lemma iter_at_has_next:
  assumes ok: "im_ok bm im"
  shows "iterator_has_next bm (iter_at bm im i) \<longleftrightarrow> i < im_n_bitmap_blocks im"
proof -
  have "sub64 (1 + im_n_table_blocks im + im_n_bitmap_blocks im) (1 + im_n_table_blocks im) =
      im_n_bitmap_blocks im"
    using im_okD [OF ok] ok by (subst sub64_id) (auto simp: im_ok_def)
  moreover have "u64 (im_n_bitmap_blocks im * bm_block_sz bm) = im_n_bitmap_blocks im * bm_block_sz bm"
    using iter_off_less [OF ok order_refl] by (simp add: u64_def)
  ultimately show ?thesis
    using im_okD(4) [OF ok] by (simp add: iterator_has_next_def iter_at_def)
qed

lemma iter_at_next:
  assumes ok: "im_ok bm im" and i: "i < im_n_bitmap_blocks im"
  shows "iterator_next bm (iter_at bm im i) (bm_block_sz bm) = Some (KNullOk, iter_at bm im (Suc i))"
proof -
  have sz: "0 < bm_block_sz bm" using im_okD [OF ok] by simp
  have "u64 (i * bm_block_sz bm + bm_block_sz bm) = Suc i * bm_block_sz bm"
    using iter_off_less [OF ok, of "Suc i"] i by (simp add: u64_def add.commute)
  moreover have "Suc i * bm_block_sz bm div bm_block_sz bm = Suc i" "i * bm_block_sz bm div bm_block_sz bm = i"
    using sz by (simp_all only: nonzero_mult_div_cancel_right)
  moreover have "in_dev bm (1 + im_n_table_blocks im + Suc i)"
    "u64 (1 + im_n_table_blocks im + Suc i) = 1 + im_n_table_blocks im + Suc i"
    using bitmap_block_dev [OF ok, of "Suc i"] i by simp_all
  moreover have "in_dev bm (1 + im_n_table_blocks im + i)"
    using bitmap_block_dev [OF ok, of i] i by simp
  ultimately show ?thesis
    using im_okD [OF ok] i
    by (simp add: iterator_next_def iter_at_def read_block_ok del: mult_Suc)
qed

lemma iter_at_flush:
  assumes ok: "im_ok bm im" and i: "i < im_n_bitmap_blocks im" and d: "length d = bm_block_sz bm"
  shows "iterator_flush_cur_block bm ((iter_at bm im i)\<lparr>it_buffer := d\<rparr>) =
    Some (KNullOk, put_blk bm (1 + im_n_table_blocks im + i) d)"
  using im_okD [OF ok] bitmap_block_dev [OF ok, of i] i d
  by (simp add: iterator_flush_cur_block_def iter_at_def write_block_ok)

section \<open>Allocating an inode\<close>

lemma inode_block_find:
  assumes ok: "im_ok bm im" and i: "i < im_n_bitmap_blocks im"
  shows "List.find (\<lambda>k. \<not> marked bm (inode_bits im) k) [i * blk_bits bm..<im_max_inode_supported im] =
    (case List.find (\<lambda>k. \<not> bitmap_bit (blk bm (1 + im_n_table_blocks im + i)) k) [0..<blk_bits bm] of
       None \<Rightarrow> List.find (\<lambda>k. \<not> marked bm (inode_bits im) k) [Suc i * blk_bits bm..<im_max_inode_supported im]
     | Some k \<Rightarrow> Some (i * blk_bits bm + k))"
proof -
  have "Suc i * blk_bits bm \<le> im_n_bitmap_blocks im * blk_bits bm"
    using i by (intro mult_le_mono1) simp
  then have "[i * blk_bits bm..<im_max_inode_supported im] =
      [i * blk_bits bm..<i * blk_bits bm + blk_bits bm] @ [Suc i * blk_bits bm..<im_max_inode_supported im]"
    using upt_split [of "i * blk_bits bm" "Suc i * blk_bits bm" "im_max_inode_supported im"] ok
    by (simp add: im_ok_def add.commute)
  then show ?thesis
    using find_in_block [of "blk_bits bm" bm "inode_bits im" i]
    by (simp add: find_append inode_bits_def del: upt_Suc mult_Suc split: option.split)
qed

lemma allocate_inode_loop_ok:
  assumes ok: "im_ok bm im"
  shows "i + n = im_n_bitmap_blocks im \<Longrightarrow>
    (case List.find (\<lambda>k. \<not> marked bm (inode_bits im) k) [i * blk_bits bm..<im_max_inode_supported im] of
       None \<Rightarrow> allocate_inode_loop (Suc n) bm (iter_at bm im i) i bid = Some (Err OUT_OF_RESOURCE, bm)
     | Some k \<Rightarrow> \<exists>d. flips bm (inode_bits im) k True d \<and>
         allocate_inode_loop (Suc n) bm (iter_at bm im i) i bid =
           do {
             (setres, bm2) \<leftarrow> set_table (put_bitmap bm (inode_bits im) k d) k bid;
             case setres of Err e \<Rightarrow> Some (Err e, bm2) | Ok _ \<Rightarrow> Some (Ok (Suc k), bm2)
           })"
proof (induction n arbitrary: i)
  case 0
  then have "im_max_inode_supported im \<le> i * blk_bits bm" using ok by (simp add: im_ok_def)
  with 0 show ?case by (simp add: iter_at_has_next [OF ok])
next
  case (Suc n)
  let ?b = "blk_bits bm" and ?B = "blk bm (1 + im_n_table_blocks im + i)"
  have i: "i < im_n_bitmap_blocks im" using Suc.prems by simp
  note bok = bitmap_block_ok [OF ok i] and aok = im_okD [OF ok] and find = inode_block_find [OF ok i]
  have buf: "it_buffer (iter_at bm im i) = ?B" by (simp add: iter_at_def)
  show ?case
  proof (cases "List.find (\<lambda>k. \<not> bitmap_bit ?B k) [0..<?b]")
    case None
    have ff: "find_first_free (bm_block_sz bm) (it_buffer (iter_at bm im i)) = Some None"
      by (simp only: buf find_first_free_ok [OF bok] None)
    have "u64 (i + 1) = Suc i"
      using i ok aok(8) by (simp add: u64_def im_ok_def)
    then have step: "allocate_inode_loop (Suc (Suc n)) bm (iter_at bm im i) i bid =
        allocate_inode_loop (Suc n) bm (iter_at bm im (Suc i)) (Suc i) bid"
      using i None
      by (subst allocate_inode_loop.simps(2))
        (simp add: iter_at_has_next [OF ok] ff iter_at_next [OF ok i]
          del: allocate_inode_loop.simps)
    show ?thesis
      unfolding find None option.case step using Suc.prems by (intro Suc.IH) simp
  next
    case (Some k)
    then have k: "k < ?b" by (simp add: find_upt_Some)
    have ff: "find_first_free (bm_block_sz bm) (it_buffer (iter_at bm im i)) = Some (Some k)"
      by (simp only: buf find_first_free_ok [OF bok] Some)
    from bitmap_set_ok [OF bok k] obtain d where d: "bitmap_set (bm_block_sz bm) ?B k = Some d"
      "bitmap_ok (bm_block_sz bm) d" "\<And>j. j < ?b \<Longrightarrow> bitmap_bit d j = (j = k \<or> bitmap_bit ?B j)" by blast
    have idx: "(i * ?b + k) div ?b = i" "(i * ?b + k) mod ?b = k" using k by auto
    have "Suc i * ?b \<le> im_n_bitmap_blocks im * ?b" using i by (intro mult_le_mono1) simp
    then have "i * ?b + k < im_max_inode_supported im" using k ok by (simp add: im_ok_def)
    then have less: "i * ?b + k < 2 ^ 32" using im_ok_max [OF ok] by simp
    have id: "RAW_2_LOGIC (u64 (u64 (i * u32 ?b) + k)) = Suc (i * ?b + k)"
      using less unfolding aok(6) by (simp add: RAW_2_LOGIC_def u64_def)
    have "flips bm (inode_bits im) (i * ?b + k) True d"
      using d(2,3) by (simp only: flips_def idx) (simp add: inode_bits_def)
    moreover have "iterator_flush_cur_block bm ((iter_at bm im i)\<lparr>it_buffer := d\<rparr>) =
        Some (KNullOk, put_blk bm (1 + im_n_table_blocks im + i) d)"
      using d(2) by (intro iter_at_flush [OF ok i]) (simp add: bitmap_ok_def)
    ultimately show ?thesis
      unfolding find Some using d(1) [folded buf] i less
      by (auto simp: iter_at_has_next [OF ok] ff id idx Let_def inode_bits_def
          simp del: upt_Suc mult_Suc cong: chfs_result.case_cong)
  qed
qed

lemma inode_used_full_iff:
  "inode_used bm im = {..<im_max_inode_supported im} \<longleftrightarrow>
   List.find (\<lambda>k. \<not> marked bm (inode_bits im) k) [0..<im_max_inode_supported im] = None"
  by (auto simp: find_upt_None inode_used_def)

lemma allocate_inode_full:
  assumes "im_ok bm im" "inode_used bm im = {..<im_max_inode_supported im}"
  shows "allocate_inode bm im type bid = Some (Err OUT_OF_RESOURCE, bm)"
  using allocate_inode_loop_ok [OF assms(1), of 0 "im_n_bitmap_blocks im" bid] assms
  by (simp add: allocate_inode_def bitmap_iterator_ok inode_used_full_iff del: allocate_inode_loop.simps)

lemma put_inode_bit:
  assumes ok: "im_ok bm im" and k: "k < im_max_inode_supported im" and d: "flips bm (inode_bits im) k v d"
  shows "only_changes {1 + im_n_table_blocks im..<1 + im_n_table_blocks im + im_n_bitmap_blocks im} bm
      (put_bitmap bm (inode_bits im) k d)"
    "inode_used (put_bitmap bm (inode_bits im) k d) im =
      (if v then insert k (inode_used bm im) else inode_used bm im - {k})"
proof -
  let ?b = "blk_bits bm" and ?bm = "put_bitmap bm (inode_bits im) k d"
  have kj: "i div ?b < im_n_bitmap_blocks im" if "i < im_max_inode_supported im" for i
    using that ok by (simp add: im_ok_def less_mult_imp_div_less)
  have dev: "in_dev bm (1 + im_n_table_blocks im + i div ?b)" if "i < im_max_inode_supported im" for i
    using bitmap_block_dev [OF ok] kj [OF that] by simp
  have len: "length d = bm_block_sz bm" using d by (simp add: flips_def bitmap_ok_def)
  show "only_changes {1 + im_n_table_blocks im..<1 + im_n_table_blocks im + im_n_bitmap_blocks im} bm ?bm"
    using dev [OF k] len kj [OF k] by (intro only_changes_put_blk) (auto simp: inode_bits_def)
  have "marked ?bm (inode_bits im) i = (if i = k then v else marked bm (inode_bits im) i)"
    if i: "i < im_max_inode_supported im" for i
  proof -
    have "marked ?bm (inode_bits im) i = bitmap_bit (if i div ?b = k div ?b then d
        else blk bm (1 + im_n_table_blocks im + i div ?b)) (i mod ?b)"
      using blk_put_blk [OF dev [OF k] dev [OF i] len] by (simp add: marked_def inode_bits_def)
    moreover have "i = k \<longleftrightarrow> i div ?b = k div ?b \<and> i mod ?b = k mod ?b"
      by (metis div_mult_mod_eq)
    moreover have "i mod ?b < ?b" using im_okD [OF ok] by simp
    ultimately show ?thesis
      using d by (auto simp: flips_def marked_def inode_bits_def)
  qed
  then show "inode_used ?bm im = (if v then insert k (inode_used bm im) else inode_used bm im - {k})"
    using k by (auto simp: inode_used_def split: if_splits)
qed

lemma allocate_inode_free:
  assumes ok: "im_ok bm im" and free: "inode_used bm im \<noteq> {..<im_max_inode_supported im}"
    and bid: "bid < 2 ^ 64"
  obtains k bm' where "allocate_inode bm im type bid = Some (Ok (Suc k), bm')"
    "k < im_max_inode_supported im" "k \<notin> inode_used bm im" "{..<k} \<subseteq> inode_used bm im"
    "only_changes (inode_area im) bm bm'" "inode_used bm' im = insert k (inode_used bm im)"
    "\<And>j. j < im_max_inode_supported im \<Longrightarrow> inode_table bm' j = (if j = k then bid else inode_table bm j)"
proof -
  from free obtain k where
    find: "List.find (\<lambda>k. \<not> marked bm (inode_bits im) k) [0..<im_max_inode_supported im] = Some k"
    by (auto simp: inode_used_full_iff)
  then have k: "k < im_max_inode_supported im" "k \<notin> inode_used bm im" "{..<k} \<subseteq> inode_used bm im"
    by (auto simp: find_upt_Some inode_used_def)
  from allocate_inode_loop_ok [OF ok, of 0 "im_n_bitmap_blocks im" bid] find
  obtain d where d: "flips bm (inode_bits im) k True d"
    "allocate_inode bm im type bid =
      do {
        (setres, bm2) \<leftarrow> set_table (put_bitmap bm (inode_bits im) k d) k bid;
        case setres of Err e \<Rightarrow> Some (Err e, bm2) | Ok _ \<Rightarrow> Some (Ok (Suc k), bm2)
      }"
    by (auto simp: allocate_inode_def bitmap_iterator_ok [OF ok] simp del: allocate_inode_loop.simps)
  let ?bm = "put_bitmap bm (inode_bits im) k d"
  note p = put_inode_bit [OF ok k(1) d(1)]
  have ok1: "im_ok ?bm im" by (rule im_ok_frame [OF ok p(1)])
  from set_table_ok [OF ok1 k(1) bid] obtain bm' where bm': "set_table ?bm k bid = Some (KNullOk, bm')"
    "only_changes {1..<1 + im_n_table_blocks im} ?bm bm'"
    "\<And>j. j < im_max_inode_supported im \<Longrightarrow> inode_table bm' j = (if j = k then bid else inode_table ?bm j)"
    by blast
  have "allocate_inode bm im type bid = Some (Ok (Suc k), bm')" using d(2) bm'(1) by simp
  moreover have "only_changes (inode_area im) bm bm'"
    using only_changes_trans [OF p(1) bm'(2)] by (rule only_changes_mono) (auto simp: inode_area_def)
  moreover have "inode_used bm' im = insert k (inode_used bm im)"
    using inode_used_frame [OF ok1 bm'(2)] p(2) by auto
  moreover have "inode_table bm' j = (if j = k then bid else inode_table bm j)"
    if "j < im_max_inode_supported im" for j
    using bm'(3) [OF that] inode_table_frame [OF ok p(1) _ that] by auto
  ultimately show thesis using that k by blast
qed

section \<open>Freeing an inode\<close>

lemma free_inode_ok:
  assumes ok: "im_ok bm im" and k: "Suc k < im_max_inode_supported im - 1"
  obtains bm' where "free_inode bm im (Suc k) = Some (KNullOk, bm')"
    "only_changes (inode_area im) bm bm'" "inode_used bm' im = inode_used bm im - {k}"
    "\<And>j. j < im_max_inode_supported im \<Longrightarrow> inode_table bm' j = (if j = k then 0 else inode_table bm j)"
proof -
  let ?b = "blk_bits bm" and ?j = "k div blk_bits bm"
  have kl: "k < im_max_inode_supported im" "k < 2 ^ 63" using k im_ok_max [OF ok] by auto
  note aok = im_okD [OF ok]
  have pre: "\<not> sub64 (im_max_inode_supported im) 1 \<le> Suc k"
    using k im_ok_max [OF ok] by (subst sub64_id) auto
  from set_table_ok [OF ok kl(1), of 0] obtain bm1 where bm1: "set_table bm k 0 = Some (KNullOk, bm1)"
    "only_changes {1..<1 + im_n_table_blocks im} bm bm1"
    "\<And>j. j < im_max_inode_supported im \<Longrightarrow> inode_table bm1 j = (if j = k then 0 else inode_table bm j)"
    by auto
  have ok1: "im_ok bm1 im" by (rule im_ok_frame [OF ok bm1(2)])
  note aok1 = im_okD [OF ok1] and f1 = only_changes_fields [OF bm1(2)]
  have j: "?j < im_n_bitmap_blocks im" using kl ok by (simp add: im_ok_def less_mult_imp_div_less)
  have j1: "k div blk_bits bm1 < im_n_bitmap_blocks im" using j f1 by simp
  note dev = bitmap_block_dev [OF ok1 less_imp_le [OF j1]] and bok = bitmap_block_ok [OF ok1 j1]
  have r: "k mod ?b < ?b" using aok by simp
  from bitmap_clear_ok [OF bok] r f1(1) obtain d where
    d: "bitmap_clear (bm_block_sz bm1) (blk bm1 (1 + im_n_table_blocks im + ?j)) (k mod ?b) = Some d"
      "bitmap_ok (bm_block_sz bm1) d"
      "\<And>i. i < ?b \<Longrightarrow> bitmap_bit d i = (i \<noteq> k mod ?b \<and> bitmap_bit (blk bm1 (1 + im_n_table_blocks im + ?j)) i)"
    by metis
  have fl: "flips bm1 (inode_bits im) k False d"
    using d(2,3) f1 by (simp add: flips_def inode_bits_def)
  let ?bm = "put_bitmap bm1 (inode_bits im) k d"
  note p = put_inode_bit [OF ok1 kl(1) fl]
  have "free_inode bm im (Suc k) = Some (KNullOk, ?bm)"
    using pre kl aok aok1 bm1(1) d dev f1
    by (simp add: free_inode_def read_block_ok write_block_ok bitmap_ok_def inode_bits_def Let_def)
  moreover have "only_changes (inode_area im) bm ?bm"
    using only_changes_trans [OF bm1(2) p(1)] by (rule only_changes_mono) (auto simp: inode_area_def)
  moreover have "inode_used ?bm im = inode_used bm im - {k}"
    using inode_used_frame [OF ok bm1(2)] p(2) by auto
  moreover have "inode_table ?bm j = (if j = k then 0 else inode_table bm j)"
    if "j < im_max_inode_supported im" for j
    using bm1(3) [OF that] inode_table_frame [OF ok1 p(1) _ that] by auto
  ultimately show thesis by (rule that)
qed

section \<open>Reading an inode\<close>

lemma read_inode_ok:
  assumes ok: "im_ok bm im" and k: "Suc k < im_max_inode_supported im - 1"
    and t: "inode_table bm k \<noteq> 0" "in_dev bm (inode_table bm k)" and room: "bm_block_sz bm \<le> room"
  shows "read_inode bm im (Suc k) room = Some (Ok (inode_table bm k, blk bm (inode_table bm k)))"
proof -
  have pre: "\<not> sub64 (im_max_inode_supported im) 1 \<le> Suc k"
    using k im_ok_max [OF ok] by (subst sub64_id) auto
  have "im_get bm (Suc k) = Some (Ok (inode_table bm k))" using k by (intro im_get_ok [OF ok]) simp
  with pre t room im_okD [OF ok] show ?thesis
    by (simp add: read_inode_def read_block_ok)
qed

lemma read_inode_invalid:
  assumes ok: "im_ok bm im"
  shows "im_max_inode_supported im - 1 \<le> inode_id \<Longrightarrow>
      read_inode bm im inode_id room = Some (Err INVALID_ARG)"
    "Suc k < im_max_inode_supported im - 1 \<Longrightarrow> inode_table bm k = 0 \<Longrightarrow>
      read_inode bm im (Suc k) room = Some (Err INVALID_ARG)"
proof -
  have m: "sub64 (im_max_inode_supported im) 1 = im_max_inode_supported im - 1"
    using im_ok_max [OF ok] ok im_okD [OF ok] by (intro sub64_id) (auto simp: im_ok_def)
  show "im_max_inode_supported im - 1 \<le> inode_id \<Longrightarrow>
      read_inode bm im inode_id room = Some (Err INVALID_ARG)"
    using m by (simp add: read_inode_def)
  show "read_inode bm im (Suc k) room = Some (Err INVALID_ARG)"
    if "Suc k < im_max_inode_supported im - 1" "inode_table bm k = 0"
    using that m im_get_ok [OF ok, of k] by (simp add: read_inode_def)
qed

section \<open>The constructor\<close>

definition ceil_div :: "nat \<Rightarrow> nat \<Rightarrow> nat" where
  "ceil_div t b = (if t mod b \<noteq> 0 then t div b + 1 else t div b)"

lemma ceil_div_less_form:
  assumes "0 < b" "t < 2 ^ 63"
  shows "(if u64 (t div b * b) < t then u64 (t div b + 1) else t div b) = ceil_div t b"
proof -
  have t: "t div b * b + t mod b = t" "t div b \<le> t" by (simp_all add: div_mult_mod_eq)
  moreover have "(2 :: nat) ^ 63 + 1 < 2 ^ 64" by simp
  ultimately have "t div b * b < 2 ^ 64" "t div b + 1 < 2 ^ 64"
    using assms(2) by linarith+
  then have "u64 (t div b * b) = t div b * b" "u64 (t div b + 1) = t div b + 1"
    by (simp_all add: u64_id)
  then show ?thesis using t unfolding ceil_div_def by (metis add_cancel_right_right less_add_same_cancel1 less_irrefl neq0_conv)
qed

lemma ceil_div_pos: "0 < b \<Longrightarrow> 0 < t \<Longrightarrow> 0 < ceil_div t b \<and> t \<le> ceil_div t b * b"
  using ceil_div_facts [OF _ _ ceil_div_def] by blast

definition fresh_inode_manager :: "block_manager \<Rightarrow> nat \<Rightarrow> inode_manager" where
  "fresh_inode_manager bm max_inode =
     (let nb = ceil_div max_inode (blk_bits bm)
      in \<lparr>im_max_inode_supported = nb * blk_bits bm,
          im_n_table_blocks = ceil_div (nb * blk_bits bm) (ipb bm), im_n_bitmap_blocks = nb\<rparr>)"

definition can_hold_inodes :: "block_manager \<Rightarrow> nat \<Rightarrow> bool" where
  "can_hold_inodes bm max_inode \<longleftrightarrow> bm_ok bm \<and> \<not> bm_maybe_failed bm \<and> blk_bits bm < 2 ^ 32 \<and>
     8 \<le> bm_block_sz bm \<and> 0 < max_inode \<and> max_inode < 2 ^ 63 \<and>
     1 + im_n_table_blocks (fresh_inode_manager bm max_inode) +
       im_n_bitmap_blocks (fresh_inode_manager bm max_inode) < bm_block_cnt bm"

lemma fresh_inode_manager_ok:
  assumes "can_hold_inodes bm max_inode"
  shows "im_ok bm (fresh_inode_manager bm max_inode)"
proof -
  have b: "0 < blk_bits bm" "0 < ipb bm" "0 < max_inode"
    using assms by (auto simp: can_hold_inodes_def div_greater_zero_iff)
  then have "0 < ceil_div max_inode (blk_bits bm)" by (blast dest: ceil_div_pos)
  with b ceil_div_pos [OF b(2), of "ceil_div max_inode (blk_bits bm) * blk_bits bm"] assms
  show ?thesis by (simp add: im_ok_def can_hold_inodes_def fresh_inode_manager_def Let_def)
qed

lemma table_blocks_for_ok:
  "0 < ipb bm \<Longrightarrow> n < 2 ^ 63 \<Longrightarrow> table_blocks_for bm n = ceil_div n (ipb bm)"
  by (simp only: table_blocks_for_def Let_def ceil_div_less_form)

lemma marked_zero_block:
  assumes "blk bm (al_bitmap_block_id al + i div blk_bits bm) = replicate (bm_block_sz bm) 0"
    "0 < bm_block_sz bm"
  shows "\<not> marked bm al i"
  using assms by (simp add: marked_def)

lemma inode_manager_create_ok:
  assumes "can_hold_inodes bm max_inode"
  obtains bm' where "inode_manager_create bm max_inode = Some (fresh_inode_manager bm max_inode, bm')"
    "only_changes (inode_area (fresh_inode_manager bm max_inode)) bm bm'"
    "inode_used bm' (fresh_inode_manager bm max_inode) = {}"
    "\<And>i. i < im_max_inode_supported (fresh_inode_manager bm max_inode) \<Longrightarrow> inode_table bm' i = 0"
proof -
  let ?im = "fresh_inode_manager bm max_inode"
  let ?nb = "im_n_bitmap_blocks ?im" and ?nt = "im_n_table_blocks ?im" and ?z = "replicate (bm_block_sz bm) 0"
  have ok: "im_ok bm ?im" by (rule fresh_inode_manager_ok [OF assms])
  note aok = im_okD [OF ok]
  have cnt: "1 + ?nt + ?nb < bm_block_cnt bm" using assms by (simp add: can_hold_inodes_def)
  have max: "max_inode < 2 ^ 63" using assms by (simp add: can_hold_inodes_def)
  have nb: "?nb = ceil_div max_inode (blk_bits bm)"
    and mx: "im_max_inode_supported ?im = ?nb * blk_bits bm"
    and nt: "?nt = ceil_div (?nb * blk_bits bm) (ipb bm)"
    by (simp_all add: fresh_inode_manager_def Let_def)
  have mless: "?nb * blk_bits bm < 2 ^ 32" using im_ok_max [OF ok] mx by simp
  have nb8: "?nb * 8 < 2 ^ 64" using aok(8) cnt by simp
  have le: "?nb * 8 * bm_block_sz bm = ?nb * blk_bits bm" by simp
  from zero_blocks_ok [OF aok(1), of 1 0 ?nt] cnt aok(8) obtain bm1 where
    bm1: "zero_blocks bm 1 0 ?nt = Some bm1" "only_changes {1..<1 + ?nt} bm bm1"
      "\<And>j. j < ?nt \<Longrightarrow> blk bm1 (1 + j) = ?z" by auto
  note f1 = only_changes_fields [OF bm1(2)]
  from zero_blocks_ok [of bm1 "1 + ?nt" 0 ?nb] f1 aok cnt obtain bm2 where
    bm2: "zero_blocks bm1 (1 + ?nt) 0 ?nb = Some bm2" "only_changes {1 + ?nt..<1 + ?nt + ?nb} bm1 bm2"
      "\<And>j. j < ?nb \<Longrightarrow> blk bm2 (1 + ?nt + j) = ?z" by auto
  note f2 = only_changes_fields [OF bm2(2)]
  have u: "u64 (?nb * 8) = ?nb * 8" "u64 (?nb * 8 * bm_block_sz bm) = ?nb * blk_bits bm"
    "u64 (1 + ?nt) = 1 + ?nt"
    using nb8 mless cnt aok(8) unfolding le by (simp_all add: u64_def)
  have sz: "blk_bits bm \<noteq> 0" "0 < blk_bits bm" using aok by simp_all
  have ne: "blk_bits bm \<noteq> 0 \<and> ipb bm \<noteq> 0" using aok by simp
  have bl: "inode_bitmap_blocks_for (blk_bits bm) max_inode = ?nb"
    unfolding inode_bitmap_blocks_for_def Let_def nb by (rule ceil_div_less_form [OF sz(2) max])
  have tb: "table_blocks_for bm (?nb * blk_bits bm) = ?nt"
    using table_blocks_for_ok [OF aok(5), of "?nb * blk_bits bm"] mless nt by simp
  have im: "\<lparr>im_max_inode_supported = ?nb * blk_bits bm, im_n_table_blocks = ?nt,
      im_n_bitmap_blocks = ?nb\<rparr> = ?im"
    by (simp add: mx [symmetric])
  have create: "inode_manager_create bm max_inode = Some (?im, bm2)"
    unfolding inode_manager_create_def
    by (simp only: Let_def aok(6) ne chfs_assert_simps bl u tb bm1(1) bm2(1) im Option.bind.simps simp_thms)
  have ch: "only_changes (inode_area ?im) bm bm2"
    using only_changes_trans [OF bm1(2) bm2(2)] by (rule only_changes_mono) (auto simp: inode_area_def)
  have used: "inode_used bm2 ?im = {}"
  proof -
    have "\<not> marked bm2 (inode_bits ?im) i" if "i < im_max_inode_supported ?im" for i
      using bm2(3) [of "i div blk_bits bm"] that mx f1 f2 aok
      by (intro marked_zero_block) (auto simp: inode_bits_def less_mult_imp_div_less)
    then show ?thesis by (auto simp: inode_used_def)
  qed
  have tab: "inode_table bm2 i = 0" if i: "i < im_max_inode_supported ?im" for i
  proof -
    note di = table_block_dev [OF ok i]
    have "inode_table bm2 i = inode_table bm1 i"
      by (rule inode_table_frame [OF im_ok_frame [OF ok bm1(2)] bm2(2) _ i]) auto
    also have "\<dots> = le_nat (chunk ?z (8 * (i mod ipb bm)) 8)"
      using bm1(3) [OF di(1)] f1 by (simp add: inode_table_def)
    also have "\<dots> = 0" using di(4) by (simp add: chunk_replicate)
    finally show ?thesis .
  qed
  show thesis using create ch used tab by (rule that)
qed

section \<open>The number of free inodes\<close>

lemma free_inode_cnt_loop_ok:
  assumes ok: "im_ok bm im"
  shows "i + n = im_n_bitmap_blocks im \<Longrightarrow> acc \<le> i * blk_bits bm \<Longrightarrow>
    free_inode_cnt_loop (Suc n) bm (iter_at bm im i) acc =
      Some (Ok (acc + length (filter (\<lambda>k. \<not> marked bm (inode_bits im) k)
        [i * blk_bits bm..<im_max_inode_supported im])))"
proof (induction n arbitrary: i acc)
  case 0
  then have "im_max_inode_supported im \<le> i * blk_bits bm" using ok by (simp add: im_ok_def)
  with 0 show ?case by (simp add: iter_at_has_next [OF ok])
next
  case (Suc n)
  let ?b = "blk_bits bm" and ?B = "blk bm (1 + im_n_table_blocks im + i)"
  have i: "i < im_n_bitmap_blocks im" using Suc.prems by simp
  let ?f = "length (filter (\<lambda>k. \<not> bitmap_bit ?B k) [0..<?b])"
  have cz: "count_zeros (bm_block_sz bm) (it_buffer (iter_at bm im i)) = Some ?f"
    using count_zeros_ok [OF bitmap_block_ok [OF ok i]] by (simp add: iter_at_def)
  have S: "Suc i * ?b \<le> im_n_bitmap_blocks im * ?b" using i by (intro mult_le_mono1) simp
  then have max: "Suc i * ?b \<le> im_max_inode_supported im" using ok by (simp add: im_ok_def)
  then have "[i * ?b..<im_max_inode_supported im] =
      [i * ?b..<i * ?b + ?b] @ [Suc i * ?b..<im_max_inode_supported im]"
    using upt_split [of "i * ?b" "Suc i * ?b" "im_max_inode_supported im"] by (simp add: add.commute)
  then have flt: "length (filter (\<lambda>k. \<not> marked bm (inode_bits im) k) [i * ?b..<im_max_inode_supported im]) =
      ?f + length (filter (\<lambda>k. \<not> marked bm (inode_bits im) k) [Suc i * ?b..<im_max_inode_supported im])"
    using filter_in_block [of ?b bm "inode_bits im" i] by (simp add: inode_bits_def del: upt_Suc mult_Suc)
  have "?f \<le> ?b" using length_filter_le [of _ "[0..<?b]"] by simp
  then have acc: "acc + ?f \<le> Suc i * ?b" "acc + ?f < 2 ^ 32"
    using Suc.prems(2) max im_ok_max [OF ok] by auto
  have "free_inode_cnt_loop (Suc (Suc n)) bm (iter_at bm im i) acc =
      free_inode_cnt_loop (Suc n) bm (iter_at bm im (Suc i)) (acc + ?f)"
    using i acc(2) cz
    by (subst free_inode_cnt_loop.simps(2))
      (simp add: iter_at_has_next [OF ok] iter_at_next [OF ok i] u64_id del: free_inode_cnt_loop.simps)
  with Suc.IH [OF _ acc(1)] Suc.prems(1) flt show ?case
    by (simp del: free_inode_cnt_loop.simps mult_Suc upt_Suc)
qed

lemma free_inode_cnt_ok:
  assumes ok: "im_ok bm im"
  shows "free_inode_cnt bm im = Some (Ok (im_max_inode_supported im - card (inode_used bm im)))"
proof -
  let ?P = "marked bm (inode_bits im)" and ?m = "im_max_inode_supported im"
  have "inode_used bm im = set (filter ?P [0..<?m])" by (auto simp: inode_used_def)
  then have "card (inode_used bm im) = length (filter ?P [0..<?m])"
    by (simp only: distinct_card distinct_filter distinct_upt)
  moreover have "length (filter ?P [0..<?m]) + length (filter (\<lambda>k. \<not> ?P k) [0..<?m]) = ?m"
    using sum_length_filter_compl [of ?P "[0..<?m]"] by simp
  ultimately show ?thesis
    using free_inode_cnt_loop_ok [OF ok, of 0 "im_n_bitmap_blocks im" 0]
    by (simp add: free_inode_cnt_def bitmap_iterator_ok [OF ok] del: free_inode_cnt_loop.simps)
qed

section \<open>The inode table as a source of inode numbers\<close>

interpretation inodes: number_source "\<lambda>bm. im_ok bm im \<and> bid < 2 ^ 64" "\<lambda>bm. Suc ` inode_used bm im"
    "\<lambda>bm. {1..im_max_inode_supported im}" "\<lambda>bm. pool_acquire (allocate_inode bm im type bid)"
proof unfold_locales
  have cap: "{1..im_max_inode_supported im} = Suc ` {..<im_max_inode_supported im}"
    by (simp add: lessThan_atLeast0 image_Suc_atLeastLessThan atLeastLessThanSuc_atLeastAtMost)
  show "Suc ` inode_used s im \<subseteq> {1..im_max_inode_supported im}" for s
    unfolding cap by (auto simp: inode_used_def)
  show "finite {1..im_max_inode_supported im}"
    by simp
  fix s i s'
  assume ok: "im_ok s im \<and> bid < 2 ^ 64"
  { assume a: "pool_acquire (allocate_inode s im type bid) = Some (i, s')"
    then have "inode_used s im \<noteq> {..<im_max_inode_supported im}"
      using ok by (intro notI) (simp add: allocate_inode_full)
    then obtain k t where t: "allocate_inode s im type bid = Some (Ok (Suc k), t)"
      "k < im_max_inode_supported im" "k \<notin> inode_used s im"
      "only_changes (inode_area im) s t" "inode_used t im = insert k (inode_used s im)"
      using ok by (elim conjE) (rule allocate_inode_free)
    with a ok im_ok_frame [OF _ t(4)]
    show "i \<in> {1..im_max_inode_supported im} \<and> i \<notin> Suc ` inode_used s im \<and> (im_ok s' im \<and> bid < 2 ^ 64) \<and>
      Suc ` inode_used s' im = insert i (Suc ` inode_used s im) \<and>
      {1..im_max_inode_supported im} = {1..im_max_inode_supported im}"
      by auto }
  { assume a: "pool_acquire (allocate_inode s im type bid) = None"
    have "inode_used s im = {..<im_max_inode_supported im}"
    proof (rule ccontr)
      assume "inode_used s im \<noteq> {..<im_max_inode_supported im}"
      then obtain k t where "allocate_inode s im type bid = Some (Ok (Suc k), t)"
        using ok by (elim conjE) (rule allocate_inode_free)
      with a show False by simp
    qed
    then show "Suc ` inode_used s im = {1..im_max_inode_supported im}" unfolding cap by simp }
qed

section \<open>Properties\<close>

text \<open>The inode manager's constructor rounds the number of inodes up to whole bitmap blocks and
  leaves an empty table: no inode in use, every entry invalid, every inode counted as free,
  and no block outside the table and the inode bitmap written.\<close>

theorem inode_manager_create_empty:
  assumes "can_hold_inodes bm max_inode"
  shows "\<exists>im bm'. inode_manager_create bm max_inode = Some (im, bm') \<and> im_ok bm' im \<and>
    max_inode \<le> im_max_inode_supported im \<and> only_changes (inode_area im) bm bm' \<and>
    free_inode_cnt bm' im = Some (Ok (im_max_inode_supported im)) \<and>
    (\<forall>i < im_max_inode_supported im. im_get bm' (Suc i) = Some (Ok KInvalidBlockID))"
proof -
  let ?im = "fresh_inode_manager bm max_inode"
  from inode_manager_create_ok [OF assms] obtain bm' where
    bm': "inode_manager_create bm max_inode = Some (?im, bm')"
      "only_changes (inode_area ?im) bm bm'" "inode_used bm' ?im = {}"
      "\<And>i. i < im_max_inode_supported ?im \<Longrightarrow> inode_table bm' i = 0"
    by blast
  have ok: "im_ok bm' ?im" by (rule im_ok_frame [OF fresh_inode_manager_ok [OF assms] bm'(2)])
  have "0 < blk_bits bm" "0 < max_inode" using assms by (auto simp: can_hold_inodes_def)
  then have "max_inode \<le> im_max_inode_supported ?im"
    using ceil_div_pos by (simp add: fresh_inode_manager_def Let_def)
  with bm' ok show ?thesis by (auto simp: free_inode_cnt_ok im_get_ok)
qed

definition demo_dev8 :: block_manager where
  "demo_dev8 = \<lparr>bm_block_sz = 8, bm_block_cnt = 70, bm_in_memory = True, bm_maybe_failed = False,
     bm_write_fail_cnt = 0, bm_block_data = replicate 560 9\<rparr>"

lemma demo_dev8_ok: "can_hold_inodes demo_dev8 10"
  by (simp add: can_hold_inodes_def demo_dev8_def bm_ok_def fresh_inode_manager_def Let_def ceil_div_def)

theorem inode_manager_create_empty_witness:
  "\<exists>im bm'. inode_manager_create demo_dev8 10 = Some (im, bm') \<and> im_ok bm' im \<and>
    10 \<le> im_max_inode_supported im \<and> only_changes (inode_area im) demo_dev8 bm' \<and>
    free_inode_cnt bm' im = Some (Ok (im_max_inode_supported im)) \<and>
    (\<forall>i < im_max_inode_supported im. im_get bm' (Suc i) = Some (Ok KInvalidBlockID))"
  by (rule inode_manager_create_empty [OF demo_dev8_ok])

text \<open>\<open>allocate_inode\<close> hands out the smallest free inode number, makes the table map it to the
  given block and every other number to what it mapped to before, and touches only the inode
  area; when no inode is free it reports \<open>OUT_OF_RESOURCE\<close> and changes nothing.\<close>

theorem allocate_inode_correct:
  assumes "im_ok bm im" "bid < 2 ^ 64"
  shows "\<exists>r bm'. allocate_inode bm im type bid = Some (r, bm') \<and> only_changes (inode_area im) bm bm' \<and>
    (case r of
       Ok inode_id \<Rightarrow> inode_id \<in> {1..im_max_inode_supported im} \<and> inode_id - 1 \<notin> inode_used bm im \<and>
         {..<inode_id - 1} \<subseteq> inode_used bm im \<and> inode_used bm' im = insert (inode_id - 1) (inode_used bm im) \<and>
         im_get bm' inode_id = Some (Ok bid) \<and>
         (\<forall>j \<in> {1..im_max_inode_supported im} - {inode_id}. im_get bm' j = im_get bm j)
     | Err e \<Rightarrow> e = OUT_OF_RESOURCE \<and> bm' = bm \<and> inode_used bm im = {..<im_max_inode_supported im})"
proof (cases "inode_used bm im = {..<im_max_inode_supported im}")
  case True
  from allocate_inode_full [OF assms(1) True, of type bid] True show ?thesis by simp
next
  case False
  from assms(1) False assms(2) obtain k bm' where a: "allocate_inode bm im type bid = Some (Ok (Suc k), bm')"
    "k < im_max_inode_supported im" "k \<notin> inode_used bm im" "{..<k} \<subseteq> inode_used bm im"
    "only_changes (inode_area im) bm bm'" "inode_used bm' im = insert k (inode_used bm im)"
    "\<And>j. j < im_max_inode_supported im \<Longrightarrow> inode_table bm' j = (if j = k then bid else inode_table bm j)"
    by (rule allocate_inode_free) blast
  have ok: "im_ok bm' im" by (rule im_ok_frame [OF assms(1) a(5)])
  have "im_get bm' j = im_get bm j" if j: "j \<in> {1..im_max_inode_supported im} - {Suc k}" for j
  proof -
    obtain i where "j = Suc i" "i < im_max_inode_supported im" "i \<noteq> k"
      using j by (cases j) auto
    then show ?thesis using a(7) [of i] by (simp add: im_get_ok [OF ok] im_get_ok [OF assms(1)])
  qed
  with a ok show ?thesis by (simp add: im_get_ok)
qed

definition demo_im :: inode_manager where
  "demo_im = fresh_inode_manager demo_dev8 10"

lemma demo_im_ok: "im_ok demo_dev8 demo_im" "im_max_inode_supported demo_im = 64"
  using fresh_inode_manager_ok [OF demo_dev8_ok]
  by (simp_all add: demo_im_def fresh_inode_manager_def demo_dev8_def ceil_div_def)

theorem allocate_inode_correct_witness:
  "\<exists>r bm'. allocate_inode demo_dev8 demo_im FILE 68 = Some (r, bm') \<and>
    only_changes (inode_area demo_im) demo_dev8 bm' \<and>
    (case r of
       Ok inode_id \<Rightarrow> inode_id \<in> {1..im_max_inode_supported demo_im} \<and> inode_id - 1 \<notin> inode_used demo_dev8 demo_im \<and>
         {..<inode_id - 1} \<subseteq> inode_used demo_dev8 demo_im \<and>
         inode_used bm' demo_im = insert (inode_id - 1) (inode_used demo_dev8 demo_im) \<and>
         im_get bm' inode_id = Some (Ok 68) \<and>
         (\<forall>j \<in> {1..im_max_inode_supported demo_im} - {inode_id}. im_get bm' j = im_get demo_dev8 j)
     | Err e \<Rightarrow> e = OUT_OF_RESOURCE \<and> bm' = demo_dev8 \<and>
         inode_used demo_dev8 demo_im = {..<im_max_inode_supported demo_im})"
  by (rule allocate_inode_correct [OF demo_im_ok(1)]) simp

text \<open>\<open>free_inode\<close> clears the inode's bit and its table entry, so that reading the inode reports
  \<open>INVALID_ARG\<close> from then on, and leaves every other inode's bit and entry alone; it works for
  every number up to two below the maximum.\<close>

theorem free_inode_correct:
  assumes "im_ok bm im" "1 \<le> inode_id" "inode_id < im_max_inode_supported im - 1"
  shows "\<exists>bm'. free_inode bm im inode_id = Some (KNullOk, bm') \<and> only_changes (inode_area im) bm bm' \<and>
    inode_used bm' im = inode_used bm im - {inode_id - 1} \<and>
    read_inode bm' im inode_id room = Some (Err INVALID_ARG) \<and>
    (\<forall>j \<in> {1..im_max_inode_supported im} - {inode_id}. im_get bm' j = im_get bm j)"
proof -
  obtain k where k: "inode_id = Suc k" "Suc k < im_max_inode_supported im - 1"
    using assms(2,3) by (cases inode_id) auto
  from assms(1) k(2) obtain bm' where a: "free_inode bm im (Suc k) = Some (KNullOk, bm')"
    "only_changes (inode_area im) bm bm'" "inode_used bm' im = inode_used bm im - {k}"
    "\<And>j. j < im_max_inode_supported im \<Longrightarrow> inode_table bm' j = (if j = k then 0 else inode_table bm j)"
    by (rule free_inode_ok) blast
  have ok: "im_ok bm' im" by (rule im_ok_frame [OF assms(1) a(2)])
  have "im_get bm' j = im_get bm j" if j: "j \<in> {1..im_max_inode_supported im} - {Suc k}" for j
  proof -
    obtain i where "j = Suc i" "i < im_max_inode_supported im" "i \<noteq> k"
      using j by (cases j) auto
    then show ?thesis using a(4) [of i] by (simp add: im_get_ok [OF ok] im_get_ok [OF assms(1)])
  qed
  moreover have "inode_table bm' k = 0" using a(4) [of k] k by simp
  ultimately show ?thesis
    using a k read_inode_invalid(2) [OF ok k(2)] by simp
qed

theorem free_inode_correct_witness:
  "\<exists>bm'. free_inode demo_dev8 demo_im 5 = Some (KNullOk, bm') \<and> only_changes (inode_area demo_im) demo_dev8 bm' \<and>
    inode_used bm' demo_im = inode_used demo_dev8 demo_im - {5 - 1} \<and>
    read_inode bm' demo_im 5 8 = Some (Err INVALID_ARG) \<and>
    (\<forall>j \<in> {1..im_max_inode_supported demo_im} - {5}. im_get bm' j = im_get demo_dev8 j)"
  by (rule free_inode_correct [OF demo_im_ok(1)]) (simp_all add: demo_im_ok)

text \<open>The largest two inode numbers are handed out but cannot be used: when all smaller numbers
  are taken, \<open>allocate_inode\<close> returns the second largest, while \<open>read_inode\<close> and \<open>free_inode\<close>
  reject it with \<open>INVALID_ARG\<close>.\<close>

theorem last_inodes_unusable:
  assumes "im_ok bm im" "bid < 2 ^ 64" "inode_used bm im = {..<im_max_inode_supported im - 2}"
  shows "\<exists>bm'. allocate_inode bm im type bid = Some (Ok (im_max_inode_supported im - 1), bm') \<and>
    read_inode bm' im (im_max_inode_supported im - 1) room = Some (Err INVALID_ARG) \<and>
    free_inode bm' im (im_max_inode_supported im - 1) = Some (Err INVALID_ARG, bm')"
proof -
  let ?m = "im_max_inode_supported im"
  have "8 \<le> blk_bits bm" using assms(1) by (simp add: im_ok_def)
  moreover have "blk_bits bm \<le> ?m" using assms(1) by (simp add: im_ok_def)
  ultimately have m: "2 \<le> ?m" by linarith
  then have "inode_used bm im \<noteq> {..<?m}" using assms(3) by simp
  from assms(1) this assms(2) obtain k bm' where a: "allocate_inode bm im type bid = Some (Ok (Suc k), bm')"
    "k < ?m" "k \<notin> inode_used bm im" "{..<k} \<subseteq> inode_used bm im" "only_changes (inode_area im) bm bm'"
    by (rule allocate_inode_free) blast
  have "k = ?m - 2" using a(3,4) assms(3) by auto
  then have k: "Suc k = ?m - 1" using m by simp
  have ok: "im_ok bm' im" by (rule im_ok_frame [OF assms(1) a(5)])
  have "sub64 ?m 1 = ?m - 1" using im_ok_max [OF ok] m by (intro sub64_id) auto
  with a(1) k read_inode_invalid(1) [OF ok order_refl] show ?thesis
    by (simp add: free_inode_def)
qed

text \<open>A device whose inode bitmap has all bits but the last two set.\<close>

definition demo_dev8_full :: block_manager where
  "demo_dev8_full = demo_dev8\<lparr>bm_block_data :=
     replicate 520 0 @ [255, 255, 255, 255, 255, 255, 255, 63] @ replicate 32 0\<rparr>"

lemma demo_dev8_full_used: "inode_used demo_dev8_full demo_im = {..<62}"
proof -
  let ?b = "[255, 255, 255, 255, 255, 255, 255, 63] :: byte list"
  have "blk demo_dev8_full 65 = ?b" "bm_block_sz demo_dev8_full = 8"
    by (simp_all add: blk_def chunk_def demo_dev8_full_def demo_dev8_def)
  moreover have "al_bitmap_block_id (inode_bits demo_im) = 65"
    by (simp add: inode_bits_def demo_im_def fresh_inode_manager_def demo_dev8_def ceil_div_def)
  moreover have "list_all (\<lambda>i. bitmap_bit ?b i = (i < 62)) [0..<64]"
    by code_simp
  ultimately have "marked demo_dev8_full (inode_bits demo_im) i = (i < 62)" if "i < 64" for i
    using that by (simp add: list_all_iff marked_def)
  then show ?thesis by (auto simp: inode_used_def demo_im_ok)
qed

theorem last_inodes_unusable_witness:
  "inode_used demo_dev8_full demo_im = {..<im_max_inode_supported demo_im - 2} \<and>
   (\<exists>bm'. allocate_inode demo_dev8_full demo_im FILE 68 = Some (Ok (im_max_inode_supported demo_im - 1), bm') \<and>
    read_inode bm' demo_im (im_max_inode_supported demo_im - 1) 8 = Some (Err INVALID_ARG) \<and>
    free_inode bm' demo_im (im_max_inode_supported demo_im - 1) = Some (Err INVALID_ARG, bm'))"
proof
  show u: "inode_used demo_dev8_full demo_im = {..<im_max_inode_supported demo_im - 2}"
    by (simp add: demo_dev8_full_used demo_im_ok)
  have "im_ok demo_dev8_full demo_im"
    using demo_im_ok(1) by (simp add: im_ok_def bm_ok_def demo_dev8_full_def demo_dev8_def)
  then show "\<exists>bm'. allocate_inode demo_dev8_full demo_im FILE 68 = Some (Ok (im_max_inode_supported demo_im - 1), bm') \<and>
    read_inode bm' demo_im (im_max_inode_supported demo_im - 1) 8 = Some (Err INVALID_ARG) \<and>
    free_inode bm' demo_im (im_max_inode_supported demo_im - 1) = Some (Err INVALID_ARG, bm')"
    by (rule last_inodes_unusable [OF _ _ u]) simp
qed

end
