(* ===== verification/File_Operations.thy ===== *)
theory File_Operations
  imports Inode_Manager
begin

text \<open>
  The inode file system (src/chfs/src/include/filesystem/operations.h,
  src/chfs/src/filesystem/data_op.cc, src/chfs/src/filesystem/control_op.cc).
  A \<open>FileOperation\<close> holds pointers to one block manager, one inode manager and one block
  allocator; the record holds the device once. \<open>now\<close> is what \<open>time(0)\<close> returns.

  An operation that fails halfway returns the error together with the device as it left
  it. The in-memory copy of the indirect block is a vector of size 0 with \<open>block_size\<close>
  bytes reserved: \<open>Some buffer\<close> once it has been read (\<open>indirect_block_flag\<close>), \<open>None\<close> before.
\<close>

section \<open>State\<close>

record file_operation =
  fo_bm :: block_manager
  fo_im :: inode_manager
  fo_al :: block_allocator

abbreviation (input) fo_block_size :: "file_operation \<Rightarrow> nat" where
  "fo_block_size fs \<equiv> bm_block_sz (fo_bm fs)"

type_synonym write_state = "block_manager \<times> inode \<times> byte list option"

section \<open>Construction\<close>

text \<open>\<open>garbage\<close> is the uninitialised memory of the temporary \<open>SuperBlock\<close>.\<close>

definition file_operation_create ::
    "block_manager \<Rightarrow> nat \<Rightarrow> super_block \<Rightarrow> file_operation option" where
  "file_operation_create bm max_inode_supported garbage = do {
     (im, bm1) \<leftarrow> inode_manager_create bm max_inode_supported;
     (al, bm2) \<leftarrow> allocator_create bm1 (get_reserved_blocks im) True;
     sb \<leftarrow> super_block_create bm2 (im_max_inode_supported im) garbage;
     (res, bm3) \<leftarrow> super_block_flush sb bm2 0;
     _ \<leftarrow> unwrap res;
     Some \<lparr>fo_bm = bm3, fo_im = im, fo_al = al\<rparr>
   }"

definition create_from_raw :: "block_manager \<Rightarrow> file_operation chfs_result option" where
  "create_from_raw bm = do {
     superblock_res \<leftarrow> super_block_create_from_existing bm 0;
     case superblock_res of
       Err e \<Rightarrow> Some (Err e)
     | Ok sb \<Rightarrow> do {
         inode_manager_res \<leftarrow> inode_manager_from_block_manager bm (sb_ninodes sb);
         case inode_manager_res of
           Err e \<Rightarrow> Some (Err e)
         | Ok im \<Rightarrow> do {
             (al, bm') \<leftarrow> allocator_create bm (get_reserved_blocks im) False;
             Some (Ok \<lparr>fo_bm = bm', fo_im = im, fo_al = al\<rparr>)
           }
       }
   }"

definition get_free_inode_num :: "file_operation \<Rightarrow> nat chfs_result option" where
  "get_free_inode_num fs = free_inode_cnt (fo_bm fs) (fo_im fs)"

definition get_free_blocks_num :: "file_operation \<Rightarrow> nat chfs_result option" where
  "get_free_blocks_num fs = do {
     n \<leftarrow> free_block_cnt (fo_bm fs) (fo_al fs);
     Some (Ok n)
   }"

section \<open>Inodes and attributes\<close>

text \<open>
  The inode is built in a zeroed buffer: the fields are assigned through the cast pointer,
  then \<open>flush_to_buffer\<close> copies the header onto itself and clears the block array.
\<close>

definition alloc_inode :: "nat \<Rightarrow> file_operation \<Rightarrow> inode_type \<Rightarrow> (nat chfs_result \<times> file_operation) option" where
  "alloc_inode now fs type = do {
     (block_res, bm1) \<leftarrow> allocate (fo_bm fs) (fo_al fs);
     case block_res of
       Err e \<Rightarrow> Some (Err e, fs\<lparr>fo_bm := bm1\<rparr>)
     | Ok bid \<Rightarrow> do {
         (inode_res, bm2) \<leftarrow> allocate_inode bm1 (fo_im fs) type bid;
         case inode_res of
           Err e \<Rightarrow> Some (Err e, fs\<lparr>fo_bm := bm2\<rparr>)
         | Ok inode_id \<Rightarrow> do {
             ino0 \<leftarrow> decode_inode (replicate (fo_block_size fs) 0);
             let ino = ino0\<lparr>i_type := type, i_attr := set_all_time now (i_attr ino0),
               i_block_size := fo_block_size fs,
               i_nblocks := u32 ((fo_block_size fs - sizeof_Inode) div sizeof_block_id)\<rparr>;
             buffer \<leftarrow> flush_to_buffer ino (encode_inode ino);
             (res, bm3) \<leftarrow> write_block bm2 bid buffer;
             case res of
               Err e \<Rightarrow> Some (Err e, fs\<lparr>fo_bm := bm3\<rparr>)
             | Ok _ \<Rightarrow> Some (Ok inode_id, fs\<lparr>fo_bm := bm3\<rparr>)
           }
       }
   }"

definition getattr :: "file_operation \<Rightarrow> nat \<Rightarrow> file_attr chfs_result option" where
  "getattr fs inode_id = get_attr (fo_bm fs) (fo_im fs) inode_id"

definition fo_get_type_attr :: "file_operation \<Rightarrow> nat \<Rightarrow> (inode_type \<times> file_attr) chfs_result option" where
  "fo_get_type_attr fs inode_id = get_type_attr (fo_bm fs) (fo_im fs) inode_id"

definition gettype :: "file_operation \<Rightarrow> nat \<Rightarrow> inode_type chfs_result option" where
  "gettype fs inode_id = get_type (fo_bm fs) (fo_im fs) inode_id"

definition calculate_block_sz :: "nat \<Rightarrow> nat \<Rightarrow> nat" where
  "calculate_block_sz file_sz block_sz =
     (if file_sz mod block_sz \<noteq> 0 then u64 (file_sz div block_sz + 1) else file_sz div block_sz)"

section \<open>Writing a file\<close>

text \<open>
  The index of entry \<open>idx\<close> within the indirect block, in bytes, as the 32-bit expression
  \<open>8 * (idx - inlined_blocks_num)\<close>. The byte loops around it store and load a
  little-endian 64-bit number there.
\<close>

definition indirect_off :: "inode \<Rightarrow> nat \<Rightarrow> nat" where
  "indirect_off ino idx = u32 (8 * sub32 idx (get_direct_block_num ino))"

text \<open>Reading the indirect block on first use, when it has to exist.\<close>

definition load_indirect ::
    "block_manager \<Rightarrow> inode \<Rightarrow> byte list option \<Rightarrow> byte list chfs_result option" where
  "load_indirect bm ino ind =
     (case ind of
        Some buffer \<Rightarrow> Some (Ok buffer)
      | None \<Rightarrow> do {
          indirect_block_id \<leftarrow> get_indirect_block_id ino;
          read_block bm indirect_block_id (bm_block_sz bm)
        })"

text \<open>The same on the allocation path, where a missing indirect block is allocated.\<close>

definition load_or_insert_indirect ::
    "block_allocator \<Rightarrow> write_state \<Rightarrow> (byte list chfs_result \<times> block_manager \<times> inode) option" where
  "load_or_insert_indirect al st =
     (case st of (bm, ino, ind) \<Rightarrow>
        case ind of
          Some buffer \<Rightarrow> Some (Ok buffer, bm, ino)
        | None \<Rightarrow> do {
            (res, ino', bm') \<leftarrow> get_or_insert_indirect_block bm al ino;
            case res of
              Err e \<Rightarrow> Some (Err e, bm', ino')
            | Ok indirect_block_id \<Rightarrow> do {
                rd \<leftarrow> read_block bm' indirect_block_id (bm_block_sz bm');
                Some (rd, bm', ino')
              }
          })"

text \<open>One round of the allocation loop, and the loop; \<open>n\<close> rounds are left.\<close>

definition alloc_block_step ::
    "block_allocator \<Rightarrow> nat \<Rightarrow> write_state \<Rightarrow> (null_result \<times> write_state) option" where
  "alloc_block_step al idx st =
     (case st of (bm, ino, ind) \<Rightarrow> do {
        (res, bm1) \<leftarrow> allocate bm al;
        case res of
          Err e \<Rightarrow> Some (Err e, (bm1, ino, ind))
        | Ok block_id \<Rightarrow>
            if is_direct_block ino idx
            then do {
              ino' \<leftarrow> set_block_direct ino idx block_id;
              Some (KNullOk, (bm1, ino', ind))
            }
            else do {
              (rd, bm2, ino') \<leftarrow> load_or_insert_indirect al (bm1, ino, ind);
              case rd of
                Err e \<Rightarrow> Some (Err e, (bm2, ino', ind))
              | Ok buffer \<Rightarrow> do {
                  buffer' \<leftarrow> put_le 8 buffer (indirect_off ino' idx) block_id;
                  Some (KNullOk, (bm2, ino', Some buffer'))
                }
            }
      })"

fun alloc_blocks_loop ::
    "block_allocator \<Rightarrow> nat \<Rightarrow> nat \<Rightarrow> write_state \<Rightarrow> (null_result \<times> write_state) option" where
  "alloc_blocks_loop al idx 0 st = Some (KNullOk, st)"
| "alloc_blocks_loop al idx (Suc n) st = do {
     (res, st') \<leftarrow> alloc_block_step al idx st;
     case res of
       Err e \<Rightarrow> Some (Err e, st')
     | Ok _ \<Rightarrow> alloc_blocks_loop al (Suc idx) n st'
   }"

text \<open>One round of the loop that frees the blocks beyond the new size, and the loop.\<close>

definition free_block_step ::
    "block_allocator \<Rightarrow> nat \<Rightarrow> write_state \<Rightarrow> (null_result \<times> write_state) option" where
  "free_block_step al idx st =
     (case st of (bm, ino, ind) \<Rightarrow>
        if is_direct_block ino idx
        then do {
          block_id \<leftarrow> at (i_blocks ino) idx;
          (res, bm1) \<leftarrow> deallocate bm al block_id;
          case res of
            Err e \<Rightarrow> Some (Err e, (bm1, ino, ind))
          | Ok _ \<Rightarrow> do {
              ino' \<leftarrow> set_block_direct ino idx KInvalidBlockID;
              Some (KNullOk, (bm1, ino', ind))
            }
        }
        else do {
          rd \<leftarrow> load_indirect bm ino ind;
          case rd of
            Err e \<Rightarrow> Some (Err e, (bm, ino, ind))
          | Ok buffer \<Rightarrow> do {
              block_id \<leftarrow> get_le 8 buffer (indirect_off ino idx);
              buffer' \<leftarrow> put_le 8 buffer (indirect_off ino idx) 0;
              (res, bm1) \<leftarrow> deallocate bm al block_id;
              case res of
                Err e \<Rightarrow> Some (Err e, (bm1, ino, Some buffer'))
              | Ok _ \<Rightarrow> Some (KNullOk, (bm1, ino, Some buffer'))
            }
        })"

fun free_blocks_loop ::
    "block_allocator \<Rightarrow> nat \<Rightarrow> nat \<Rightarrow> write_state \<Rightarrow> (null_result \<times> write_state) option" where
  "free_blocks_loop al idx 0 st = Some (KNullOk, st)"
| "free_blocks_loop al idx (Suc n) st = do {
     (res, st') \<leftarrow> free_block_step al idx st;
     case res of
       Err e \<Rightarrow> Some (Err e, st')
     | Ok _ \<Rightarrow> free_blocks_loop al (Suc idx) n st'
   }"

text \<open>When no block is left in the indirect block, it is given back too.\<close>

definition free_indirect_step ::
    "block_allocator \<Rightarrow> nat \<Rightarrow> nat \<Rightarrow> write_state \<Rightarrow> (null_result \<times> write_state) option" where
  "free_indirect_step al old_block_num new_block_num st =
     (case st of (bm, ino, ind) \<Rightarrow>
        if get_direct_block_num ino < old_block_num \<and> new_block_num \<le> get_direct_block_num ino
        then do {
          indirect_block_id \<leftarrow> get_indirect_block_id ino;
          (res, bm1) \<leftarrow> deallocate bm al indirect_block_id;
          case res of
            Err e \<Rightarrow> Some (Err e, (bm1, ino, ind))
          | Ok _ \<Rightarrow> do {
              ino' \<leftarrow> invalid_indirect_block_id ino;
              Some (KNullOk, (bm1, ino', None))
            }
        }
        else Some (KNullOk, st))"

definition adjust_blocks ::
    "block_allocator \<Rightarrow> nat \<Rightarrow> nat \<Rightarrow> write_state \<Rightarrow> (null_result \<times> write_state) option" where
  "adjust_blocks al old_block_num new_block_num st =
     (if old_block_num < new_block_num
      then alloc_blocks_loop al old_block_num (new_block_num - old_block_num) st
      else do {
        (res, st') \<leftarrow> free_blocks_loop al new_block_num (old_block_num - new_block_num) st;
        case res of
          Err e \<Rightarrow> Some (Err e, st')
        | Ok _ \<Rightarrow> free_indirect_step al old_block_num new_block_num st'
      })"

text \<open>
  The block number of the file's block \<open>idx\<close>; the indirect block is read on first use and
  the number taken from the offset \<open>off\<close> in it.
\<close>

definition block_at ::
    "block_manager \<Rightarrow> inode \<Rightarrow> nat \<Rightarrow> nat \<Rightarrow> byte list option \<Rightarrow>
      (nat chfs_result \<times> byte list option) option" where
  "block_at bm ino idx off ind =
     (if is_direct_block ino (u32 idx)
      then do {
        block_id \<leftarrow> at (i_blocks ino) idx;
        Some (Ok block_id, ind)
      }
      else do {
        rd \<leftarrow> load_indirect bm ino ind;
        case rd of
          Err e \<Rightarrow> Some (Err e, ind)
        | Ok buffer \<Rightarrow> do {
            block_id \<leftarrow> get_le 8 buffer off;
            Some (Ok block_id, Some buffer)
          }
      })"

text \<open>The number of bytes of one round: a block, or what is left.\<close>

definition io_size :: "nat \<Rightarrow> nat \<Rightarrow> nat" where
  "io_size block_size rest = (if block_size < rest then block_size else rest)"

text \<open>
  The loop that writes the contents; \<open>fuel\<close> bounds its rounds. Each round writes a block of
  the file, so one more than the number of blocks is enough (\<open>write_data_loop_ok\<close>). The
  result of the block write is not looked at.
\<close>

fun write_data_loop ::
    "nat \<Rightarrow> byte list \<Rightarrow> nat \<Rightarrow> nat \<Rightarrow> write_state \<Rightarrow> (null_result \<times> write_state) option" where
  "write_data_loop 0 content write_sz block_idx st = None"
| "write_data_loop (Suc fuel) content write_sz block_idx (bm, ino, ind) =
     (if length content \<le> write_sz then Some (KNullOk, (bm, ino, ind))
      else do {
        let sz = io_size (bm_block_sz bm) (length content - write_sz);
        src \<leftarrow> peek content write_sz sz;
        buffer \<leftarrow> poke (replicate (bm_block_sz bm) 0) 0 src;
        (res, ind') \<leftarrow> block_at bm ino block_idx (indirect_off ino block_idx) ind;
        case res of
          Err e \<Rightarrow> Some (Err e, (bm, ino, ind'))
        | Ok block_id \<Rightarrow> do {
            (_, bm') \<leftarrow> write_block bm block_id buffer;
            write_data_loop fuel content (u64 (write_sz + sz)) (Suc block_idx) (bm', ino, ind')
          }
      })"

text \<open>The last part: the inode, then the indirect block if it was touched.\<close>

definition write_back ::
    "nat \<Rightarrow> nat \<Rightarrow> write_state \<Rightarrow> (null_result \<times> block_manager) option" where
  "write_back now inode_block st =
     (case st of (bm, ino, ind) \<Rightarrow> do {
        let ino' = ino\<lparr>i_attr := set_all_time now (i_attr ino)\<rparr>;
        (res, bm1) \<leftarrow> write_block bm inode_block (encode_inode ino');
        case res of
          Err e \<Rightarrow> Some (Err e, bm1)
        | Ok _ \<Rightarrow>
            (case ind of
               None \<Rightarrow> Some (KNullOk, bm1)
             | Some buffer \<Rightarrow> write_indirect_block ino' bm1 buffer)
      })"

definition write_file ::
    "nat \<Rightarrow> file_operation \<Rightarrow> nat \<Rightarrow> byte list \<Rightarrow> (null_result \<times> file_operation) option" where
  "write_file now fs inode_id content = do {
     let bm = fo_bm fs;
     let block_size = bm_block_sz bm;
     inode_res \<leftarrow> read_inode bm (fo_im fs) inode_id block_size;
     case inode_res of
       Err e \<Rightarrow> Some (Err e, fs)
     | Ok (inode_block, buf) \<Rightarrow> do {
         ino \<leftarrow> decode_inode buf;
         if max_file_sz_supported ino < length content then Some (Err OUT_OF_RESOURCE, fs)
         else do {
           let old_block_num = u32 (calculate_block_sz (fsize (i_attr ino)) block_size);
           let new_block_num = u32 (calculate_block_sz (length content) block_size);
           (res, (bm1, ino1, ind1)) \<leftarrow> adjust_blocks (fo_al fs) old_block_num new_block_num (bm, ino, None);
           case res of
             Err e \<Rightarrow> Some (Err e, fs\<lparr>fo_bm := bm1\<rparr>)
           | Ok _ \<Rightarrow> do {
               let ino2 = ino1\<lparr>i_attr := (i_attr ino1)\<lparr>fsize := length content, mtime := now\<rparr>\<rparr>;
               (res2, (bm3, ino3, ind3)) \<leftarrow>
                 write_data_loop (new_block_num + 1) content 0 0 (bm1, ino2, ind1);
               case res2 of
                 Err e \<Rightarrow> Some (Err e, fs\<lparr>fo_bm := bm3\<rparr>)
               | Ok _ \<Rightarrow> do {
                   (res4, bm4) \<leftarrow> write_back now inode_block (bm3, ino3, ind3);
                   Some (res4, fs\<lparr>fo_bm := bm4\<rparr>)
                 }
             }
         }
       }
   }"

section \<open>Reading a file\<close>

text \<open>Here the file offset, and with it the index, is a 64-bit number.\<close>

definition indirect_off64 :: "inode \<Rightarrow> nat \<Rightarrow> nat" where
  "indirect_off64 ino idx = u64 (8 * sub64 idx (get_direct_block_num ino))"

fun read_data_loop ::
    "nat \<Rightarrow> block_manager \<Rightarrow> inode \<Rightarrow> nat \<Rightarrow> byte list option \<Rightarrow> byte list \<Rightarrow> byte list chfs_result option" where
  "read_data_loop 0 bm ino read_sz ind content = None"
| "read_data_loop (Suc fuel) bm ino read_sz ind content =
     (if fsize (i_attr ino) \<le> read_sz then Some (Ok content)
      else do {
        let sz = io_size (bm_block_sz bm) (fsize (i_attr ino) - read_sz);
        let idx = read_sz div bm_block_sz bm;
        (res, ind') \<leftarrow> block_at bm ino idx (indirect_off64 ino idx) ind;
        case res of
          Err e \<Rightarrow> Some (Err e)
        | Ok block_id \<Rightarrow> do {
            rd \<leftarrow> read_block bm block_id (bm_block_sz bm);
            let buffer = (case rd of Ok b \<Rightarrow> b | Err _ \<Rightarrow> replicate (bm_block_sz bm) 0);
            src \<leftarrow> peek buffer 0 sz;
            read_data_loop fuel bm ino (u64 (read_sz + sz)) ind' (content @ src)
          }
      })"

definition read_file :: "file_operation \<Rightarrow> nat \<Rightarrow> byte list chfs_result option" where
  "read_file fs inode_id = do {
     let bm = fo_bm fs;
     inode_res \<leftarrow> read_inode bm (fo_im fs) inode_id (bm_block_sz bm);
     case inode_res of
       Err e \<Rightarrow> Some (Err e)
     | Ok (inode_block, buf) \<Rightarrow> do {
         ino \<leftarrow> decode_inode buf;
         let block_num = calculate_block_sz (fsize (i_attr ino)) (bm_block_sz bm);
         read_data_loop (block_num + 1) bm ino 0 None []
       }
   }"

text \<open>\<open>std::vector::resize\<close> cuts the vector or extends it with zero bytes.\<close>

definition vec_resize :: "byte list \<Rightarrow> nat \<Rightarrow> byte list" where
  "vec_resize v n = take n (v @ replicate n 0)"

definition read_file_w_off :: "file_operation \<Rightarrow> nat \<Rightarrow> nat \<Rightarrow> nat \<Rightarrow> byte list chfs_result option" where
  "read_file_w_off fs inode_id sz offset = do {
     res \<leftarrow> read_file fs inode_id;
     case res of
       Err e \<Rightarrow> Some (Err e)
     | Ok content \<Rightarrow> do {
         part \<leftarrow> peek content offset sz;
         Some (Ok part)
       }
   }"

definition write_file_w_off ::
    "nat \<Rightarrow> file_operation \<Rightarrow> nat \<Rightarrow> byte list \<Rightarrow> nat \<Rightarrow> (nat chfs_result \<times> file_operation) option" where
  "write_file_w_off now fs inode_id data offset = do {
     let sz = length data;
     read_res \<leftarrow> read_file fs inode_id;
     case read_res of
       Err e \<Rightarrow> Some (Err e, fs)
     | Ok content \<Rightarrow> do {
         let content1 = (if length content < u64 (offset + sz) then vec_resize content (u64 (offset + sz))
                         else content);
         content2 \<leftarrow> poke content1 offset data;
         (write_res, fs') \<leftarrow> write_file now fs inode_id content2;
         case write_res of
           Err e \<Rightarrow> Some (Err e, fs')
         | Ok _ \<Rightarrow> Some (Ok sz, fs')
       }
   }"

definition resize ::
    "nat \<Rightarrow> file_operation \<Rightarrow> nat \<Rightarrow> nat \<Rightarrow> (file_attr chfs_result \<times> file_operation) option" where
  "resize now fs inode_id sz = do {
     attr_res \<leftarrow> getattr fs inode_id;
     case attr_res of
       Err e \<Rightarrow> Some (Err e, fs)
     | Ok attr \<Rightarrow> do {
         file_content \<leftarrow> read_file fs inode_id;
         case file_content of
           Err e \<Rightarrow> Some (Err e, fs)
         | Ok content \<Rightarrow>
             if length content \<noteq> sz
             then do {
               (write_res, fs') \<leftarrow> write_file now fs inode_id (vec_resize content sz);
               case write_res of
                 Err e \<Rightarrow> Some (Err e, fs')
               | Ok _ \<Rightarrow> Some (Ok (attr\<lparr>fsize := sz\<rparr>), fs')
             }
             else Some (Ok (attr\<lparr>fsize := sz\<rparr>), fs)
       }
   }"

section \<open>Removing a file\<close>

text \<open>The loops that collect block numbers up to the first invalid one.\<close>

fun collect_direct :: "inode \<Rightarrow> nat \<Rightarrow> nat \<Rightarrow> nat list option" where
  "collect_direct ino i 0 = Some []"
| "collect_direct ino i (Suc n) = do {
     b \<leftarrow> at (i_blocks ino) i;
     if b = KInvalidBlockID then Some []
     else do {
       rest \<leftarrow> collect_direct ino (Suc i) n;
       Some (b # rest)
     }
   }"

fun collect_indirect :: "byte list \<Rightarrow> nat \<Rightarrow> nat \<Rightarrow> nat list option" where
  "collect_indirect buffer i 0 = Some []"
| "collect_indirect buffer i (Suc n) = do {
     b \<leftarrow> get_le 8 buffer (8 * i);
     if b = KInvalidBlockID then Some []
     else do {
       rest \<leftarrow> collect_indirect buffer (Suc i) n;
       Some (b # rest)
     }
   }"

fun deallocate_all ::
    "block_manager \<Rightarrow> block_allocator \<Rightarrow> nat list \<Rightarrow> (null_result \<times> block_manager) option" where
  "deallocate_all bm al [] = Some (KNullOk, bm)"
| "deallocate_all bm al (bid # rest) = do {
     (res, bm') \<leftarrow> deallocate bm al bid;
     case res of
       Err e \<Rightarrow> Some (Err e, bm')
     | Ok _ \<Rightarrow> deallocate_all bm' al rest
   }"

text \<open>
  The vector for the indirect block is empty, so the block is copied to a buffer without
  room: \<open>read_block\<close> is called with \<open>room\<close> 0.
\<close>

definition remove_file :: "file_operation \<Rightarrow> nat \<Rightarrow> (null_result \<times> file_operation) option" where
  "remove_file fs inode_id = do {
     let bm = fo_bm fs;
     let block_size = bm_block_sz bm;
     inode_res \<leftarrow> read_inode bm (fo_im fs) inode_id block_size;
     case inode_res of
       Err e \<Rightarrow> Some (Err e, fs)
     | Ok (inode_block, buf) \<Rightarrow> do {
         ino \<leftarrow> decode_inode buf;
         direct \<leftarrow> collect_direct ino 0 (get_direct_block_num ino);
         ind_id \<leftarrow> at (i_blocks ino) (get_direct_block_num ino);
         ind_res \<leftarrow>
           (if ind_id \<noteq> KInvalidBlockID
            then do {
              read_res \<leftarrow> read_block bm ind_id 0;
              case read_res of
                Err e \<Rightarrow> Some (Err e)
              | Ok indirect_block \<Rightarrow> do {
                  bs \<leftarrow> collect_indirect indirect_block 0 (block_size div sizeof_block_id);
                  Some (Ok bs)
                }
            }
            else Some (Ok []));
         case ind_res of
           Err e \<Rightarrow> Some (Err e, fs)
         | Ok indirect \<Rightarrow> do {
             (res, bm1) \<leftarrow> free_inode bm (fo_im fs) inode_id;
             case res of
               Err e \<Rightarrow> Some (Err e, fs\<lparr>fo_bm := bm1\<rparr>)
             | Ok _ \<Rightarrow> do {
                 (res2, bm2) \<leftarrow> deallocate_all bm1 (fo_al fs) (direct @ indirect @ [inode_block]);
                 Some (res2, fs\<lparr>fo_bm := bm2\<rparr>)
               }
           }
       }
   }"

end
