(* ===== verification/File_Correct.thy ===== *)
theory File_Correct
  imports File_Operations
begin

text \<open>
  Correctness of the file operations. The blocks of a file are read off its inode and, for
  the ones beyond the direct entries, off its indirect block, in memory or on the device
  (\<open>vblocks\<close>). \<open>wst_ok\<close> is the invariant of the loops of \<open>write_file\<close>: the file has \<open>n\<close>
  blocks, all distinct, allocated and outside a set \<open>F\<close> of blocks that belong to others.
\<close>

section \<open>The blocks of a file\<close>

abbreviation (input) direct :: "inode \<Rightarrow> nat" where
  "direct ino \<equiv> i_nblocks ino - 1"

definition ind_id :: "inode \<Rightarrow> nat" where
  "ind_id ino = i_blocks ino ! direct ino"

definition eff_ind :: "block_manager \<Rightarrow> inode \<Rightarrow> byte list option \<Rightarrow> byte list" where
  "eff_ind bm ino ind = (case ind of Some b \<Rightarrow> b | None \<Rightarrow> blk bm (ind_id ino))"

definition vblock :: "block_manager \<Rightarrow> inode \<Rightarrow> byte list option \<Rightarrow> nat \<Rightarrow> nat" where
  "vblock bm ino ind i =
     (if i < direct ino then i_blocks ino ! i
      else le_nat (chunk (eff_ind bm ino ind) (8 * (i - direct ino)) 8))"

definition vblocks :: "block_manager \<Rightarrow> inode \<Rightarrow> byte list option \<Rightarrow> nat \<Rightarrow> nat list" where
  "vblocks bm ino ind n = map (vblock bm ino ind) [0..<n]"

definition max_blocks :: "nat \<Rightarrow> inode \<Rightarrow> nat" where
  "max_blocks sz ino = direct ino + sz div 8"

lemma length_vblocks [simp]: "length (vblocks bm ino ind n) = n"
  by (simp add: vblocks_def)

lemma vblocks_Suc: "vblocks bm ino ind (Suc n) = vblocks bm ino ind n @ [vblock bm ino ind n]"
  by (simp add: vblocks_def)

lemma nth_vblocks [simp]: "i < n \<Longrightarrow> vblocks bm ino ind n ! i = vblock bm ino ind i"
  by (simp add: vblocks_def)

lemma set_vblocks: "set (vblocks bm ino ind n) = vblock bm ino ind ` {..<n}"
  by (auto simp: vblocks_def)

lemma vblocks_cong:
  "(\<And>i. i < n \<Longrightarrow> vblock bm' ino' ind' i = vblock bm ino ind i) \<Longrightarrow>
   vblocks bm' ino' ind' n = vblocks bm ino ind n"
  by (simp add: vblocks_def)

lemma vblock_frame:
  assumes "only_changes S bm bm'" "direct ino \<le> i \<Longrightarrow> in_dev bm (ind_id ino) \<and> ind_id ino \<notin> S"
  shows "vblock bm' ino ind i = vblock bm ino ind i"
  using assms only_changes_blk [OF assms(1), of "ind_id ino"]
  by (auto simp: vblock_def eff_ind_def split: option.splits)

lemma vblocks_frame:
  assumes "only_changes S bm bm'" "direct ino < n \<Longrightarrow> in_dev bm (ind_id ino) \<and> ind_id ino \<notin> S"
  shows "vblocks bm' ino ind n = vblocks bm ino ind n"
  using assms by (intro vblocks_cong vblock_frame) auto

section \<open>The invariant of the loops of write\_file\<close>

definition wst_ok :: "block_allocator \<Rightarrow> nat set \<Rightarrow> nat \<Rightarrow> write_state \<Rightarrow> bool" where
  "wst_ok al F n st =
     (case st of (bm, ino, ind) \<Rightarrow>
        alloc_ok bm al \<and> inode_ok (bm_block_sz bm) ino \<and> n \<le> max_blocks (bm_block_sz bm) ino \<and>
        F \<subseteq> alloc_used bm al \<and> 0 \<in> F \<and> bitmap_area al \<subseteq> F \<and>
        distinct (vblocks bm ino ind n) \<and> set (vblocks bm ino ind n) \<subseteq> alloc_used bm al - F \<and>
        (if direct ino < n then ind_id ino \<in> alloc_used bm al - F - set (vblocks bm ino ind n)
         else ind_id ino = 0) \<and>
        (\<forall>i. n \<le> i \<longrightarrow> i < direct ino \<longrightarrow> i_blocks ino ! i = 0) \<and>
        (case ind of None \<Rightarrow> True | Some b \<Rightarrow> length b = bm_block_sz bm \<and> direct ino < n))"

lemma wst_okI:
  assumes "alloc_ok bm al" "inode_ok (bm_block_sz bm) ino" "n \<le> max_blocks (bm_block_sz bm) ino"
    "F \<subseteq> alloc_used bm al" "0 \<in> F" "bitmap_area al \<subseteq> F"
    "distinct (vblocks bm ino ind n)" "set (vblocks bm ino ind n) \<subseteq> alloc_used bm al - F"
    "if direct ino < n then ind_id ino \<in> alloc_used bm al - F - set (vblocks bm ino ind n) else ind_id ino = 0"
    "\<And>i. n \<le> i \<Longrightarrow> i < direct ino \<Longrightarrow> i_blocks ino ! i = 0"
    "case ind of None \<Rightarrow> True | Some b \<Rightarrow> length b = bm_block_sz bm \<and> direct ino < n"
  shows "wst_ok al F n (bm, ino, ind)"
  using assms unfolding wst_ok_def by blast

lemma wst_okD:
  assumes "wst_ok al F n (bm, ino, ind)"
  shows "alloc_ok bm al" "inode_ok (bm_block_sz bm) ino" "n \<le> max_blocks (bm_block_sz bm) ino"
    "F \<subseteq> alloc_used bm al" "0 \<in> F" "bitmap_area al \<subseteq> F"
    "distinct (vblocks bm ino ind n)" "set (vblocks bm ino ind n) \<subseteq> alloc_used bm al - F"
    "if direct ino < n then ind_id ino \<in> alloc_used bm al - F - set (vblocks bm ino ind n) else ind_id ino = 0"
    "\<And>i. n \<le> i \<Longrightarrow> i < direct ino \<Longrightarrow> i_blocks ino ! i = 0"
    "case ind of None \<Rightarrow> True | Some b \<Rightarrow> length b = bm_block_sz bm \<and> direct ino < n"
  using assms unfolding wst_ok_def by blast+

text \<open>The parts of the inode that the loops never touch.\<close>

definition same_header :: "inode \<Rightarrow> inode \<Rightarrow> bool" where
  "same_header ino ino' \<longleftrightarrow> i_type ino' = i_type ino \<and> i_attr ino' = i_attr ino \<and>
     i_block_size ino' = i_block_size ino \<and> i_nblocks ino' = i_nblocks ino \<and> i_tail ino' = i_tail ino"

lemma same_header_refl [simp]: "same_header ino ino"
  by (simp add: same_header_def)

lemma same_header_upd [simp]: "same_header ino (ino\<lparr>i_blocks := bs\<rparr>)"
  by (simp add: same_header_def)

lemma same_header_trans: "same_header a b \<Longrightarrow> same_header b c \<Longrightarrow> same_header a c"
  by (simp add: same_header_def)

lemma same_header_fields:
  "same_header a b \<Longrightarrow> i_attr b = i_attr a \<and> i_type b = i_type a \<and> i_nblocks b = i_nblocks a \<and>
   i_block_size b = i_block_size a"
  by (simp add: same_header_def)

lemma alloc_used_dev: "alloc_ok bm al \<Longrightarrow> i \<in> alloc_used bm al \<Longrightarrow> in_dev bm i"
  using in_dev_bound alloc_okD(1) by (auto simp: alloc_used_def)

lemma alloc_used_less: "alloc_ok bm al \<Longrightarrow> i \<in> alloc_used bm al \<Longrightarrow> i < 2 ^ 32"
  using alloc_ok_cnt [of bm al] by (auto simp: alloc_used_def)

lemma inode_ok_direct:
  assumes "inode_ok sz ino"
  shows "get_direct_block_num ino = direct ino" "is_direct_block ino i = (i < direct ino)"
    "direct ino < length (i_blocks ino)" "max_blocks sz ino < 2 ^ 28"
    "sub32 (i_nblocks ino) 1 = direct ino"
proof -
  note n = inode_ok_nblocks [OF assms]
  show "get_direct_block_num ino = direct ino" "is_direct_block ino i = (i < direct ino)"
    "sub32 (i_nblocks ino) 1 = direct ino"
    by (simp_all only: get_direct_block_num_def is_direct_block_def n(4))
  show "direct ino < length (i_blocks ino)" using n by simp
  have "sz < 2 ^ 26 * 8" "i_nblocks ino = (sz - 44) div 8" using assms by (simp_all add: inode_ok_def)
  then have "sz div 8 < 2 ^ 26" "i_nblocks ino \<le> sz div 8" by (simp_all add: less_mult_imp_div_less div_le_mono)
  then show "max_blocks sz ino < 2 ^ 28" unfolding max_blocks_def by simp
qed

lemma indirect_off_ok:
  assumes "inode_ok sz ino" "direct ino \<le> i" "i < max_blocks sz ino"
  shows "indirect_off ino i = 8 * (i - direct ino)" "indirect_off64 ino i = 8 * (i - direct ino)"
    "8 * (i - direct ino) + 8 \<le> sz"
proof -
  note d = inode_ok_direct [OF assms(1)]
  have "i < 2 ^ 28" using assms(3) d(4) by simp
  then have "sub32 i (direct ino) = i - direct ino" "sub64 i (direct ino) = i - direct ino"
    using assms(2) by (simp_all add: sub32_id sub64_id)
  with \<open>i < 2 ^ 28\<close> show "indirect_off ino i = 8 * (i - direct ino)" "indirect_off64 ino i = 8 * (i - direct ino)"
    by (simp_all add: indirect_off_def indirect_off64_def d u32_def u64_def)
  have "i - direct ino < sz div 8" using assms(2,3) by (simp add: max_blocks_def)
  then have "8 * (i - direct ino) + 8 \<le> 8 * (sz div 8)" by linarith
  then show "8 * (i - direct ino) + 8 \<le> sz" by (rule order_trans) simp
qed

lemma inode_ok_set_block:
  "inode_ok sz ino \<Longrightarrow> v < 2 ^ 64 \<Longrightarrow> inode_ok sz (ino\<lparr>i_blocks := (i_blocks ino)[i := v]\<rparr>)"
  using set_update_subset_insert [of "i_blocks ino" i v]
  by (auto simp: inode_ok_def inode_fits_def list_all_iff)

lemma set_block_direct_ok:
  "inode_ok sz ino \<Longrightarrow> i \<le> direct ino \<Longrightarrow>
   set_block_direct ino i v = Some (ino\<lparr>i_blocks := (i_blocks ino)[i := v]\<rparr>)"
  using inode_ok_direct(3) [of sz ino] by (simp add: set_block_direct_def)

section \<open>Allocating blocks\<close>

lemma get_or_insert_unfold:
  "inode_ok sz ino \<Longrightarrow> get_or_insert_indirect_block bm al ino =
    (if ind_id ino = 0
     then do {
       (bid, bm') \<leftarrow> allocate bm al;
       case bid of
         Err e \<Rightarrow> Some (Err e, ino, bm')
       | Ok b \<Rightarrow> Some (Ok b, ino\<lparr>i_blocks := (i_blocks ino)[direct ino := b]\<rparr>, bm')
     }
     else Some (Ok (ind_id ino), ino, bm))"
  using inode_ok_direct [of sz ino]
  by (simp add: get_or_insert_indirect_block_def Let_def ind_id_def set_block_direct_ok
      cong: chfs_result.case_cong)

lemma load_or_insert_ok:
  assumes al: "alloc_ok bm al" and ino: "inode_ok (bm_block_sz bm) ino"
    and X: "X \<subseteq> alloc_used bm al" and F: "F \<subseteq> alloc_used bm al" "0 \<in> F" "bitmap_area al \<subseteq> F"
    and id: "if direct ino < n then ind_id ino \<in> alloc_used bm al - F - X else ind_id ino = 0"
    and ind: "case ind of None \<Rightarrow> True | Some b \<Rightarrow> length b = bm_block_sz bm \<and> direct ino < n"
    and n: "direct ino \<le> n"
  shows "\<exists>r bm' ino'. load_or_insert_indirect al (bm, ino, ind) = Some (r, bm', ino') \<and>
    alloc_ok bm' al \<and> only_changes (bitmap_area al) bm bm' \<and> alloc_used bm al \<subseteq> alloc_used bm' al \<and>
    (case r of
       Err e \<Rightarrow> e = OUT_OF_RESOURCE \<and> alloc_used bm' al = {..<bm_block_cnt bm}
     | Ok b \<Rightarrow> length b = bm_block_sz bm \<and> inode_ok (bm_block_sz bm) ino' \<and> same_header ino ino' \<and>
         ind_id ino' \<in> alloc_used bm' al - F - X \<and>
         (\<forall>i < direct ino. i_blocks ino' ! i = i_blocks ino ! i) \<and>
         (\<forall>i < n. vblock bm' ino' (Some b) i = vblock bm ino ind i))"
proof (cases ind)
  case (Some b)
  with assms show ?thesis
    by (simp add: load_or_insert_indirect_def vblock_def eff_ind_def)
next
  case None
  note d = inode_ok_direct [OF ino] and sz = alloc_okD [OF al]
  show ?thesis
  proof (cases "direct ino < n")
    case True
    then have id1: "ind_id ino \<in> alloc_used bm al - F - X" using id by simp
    then have id': "ind_id ino \<in> alloc_used bm al - F - X" "ind_id ino \<noteq> 0" using F(2) by (blast, metis DiffE)
    have "in_dev bm (ind_id ino)" using id' alloc_used_dev [OF al] by auto
    then show ?thesis
      using None al ino id' d sz
      by (simp add: load_or_insert_indirect_def get_or_insert_unfold [OF ino] read_block_ok
          vblock_def eff_ind_def)
  next
    case False
    then have n': "n = direct ino" "ind_id ino = 0" using n id by auto
    show ?thesis
    proof (cases "alloc_used bm al = {..<bm_block_cnt bm}")
      case True
      from allocate_full [OF al this] None n' d True al show ?thesis
        by (simp add: load_or_insert_indirect_def get_or_insert_unfold [OF ino])
    next
      case full: False
      from al full obtain m bm' where m: "allocate bm al = Some (Ok m, bm')" "m < bm_block_cnt bm"
        "m \<notin> alloc_used bm al" "alloc_ok bm' al" "only_changes (bitmap_area al) bm bm'"
        "alloc_used bm' al = insert m (alloc_used bm al)"
        by (rule allocate_free)
      note f = only_changes_fields [OF m(5)]
      let ?ino = "ino\<lparr>i_blocks := (i_blocks ino)[direct ino := m]\<rparr>"
      have "m < 2 ^ 64" using m(2) alloc_ok_cnt [OF al] by simp
      then have ok': "inode_ok (bm_block_sz bm) ?ino" by (rule inode_ok_set_block [OF ino])
      have dev: "in_dev bm' m" using alloc_used_dev [OF m(4)] m(6) by simp
      have rd: "read_block bm' m (bm_block_sz bm') = Some (Ok (blk bm' m))"
        using alloc_okD(1) [OF m(4)] dev by (simp add: read_block_ok)
      have "load_or_insert_indirect al (bm, ino, ind) = Some (Ok (blk bm' m), bm', ?ino)"
        using None n' d m(1) rd
        by (simp add: load_or_insert_indirect_def get_or_insert_unfold [OF ino])
      moreover have "ind_id ?ino = m" using d(3) by (simp add: ind_id_def)
      moreover have "m \<notin> F" "m \<notin> X" using m(3) F X by auto
      moreover have "vblock bm' ?ino (Some b) i = vblock bm ino ind i" if "i < n" for i b
        using that n' by (simp add: vblock_def)
      ultimately show ?thesis
        using m ok' dev f by auto
    qed
  qed
qed

lemma alloc_block_step_ok:
  assumes st: "wst_ok al F n (bm, ino, ind)" and n: "n < max_blocks (bm_block_sz bm) ino"
  shows "\<exists>r bm' ino' ind'. alloc_block_step al n (bm, ino, ind) = Some (r, (bm', ino', ind')) \<and>
    only_changes (bitmap_area al) bm bm' \<and> alloc_ok bm' al \<and> alloc_used bm al \<subseteq> alloc_used bm' al \<and>
    (case r of
       Err e \<Rightarrow> e = OUT_OF_RESOURCE \<and> alloc_used bm' al = {..<bm_block_cnt bm}
     | Ok _ \<Rightarrow> wst_ok al F (Suc n) (bm', ino', ind') \<and> same_header ino ino')"
proof -
  let ?sz = "bm_block_sz bm"
  have al: "alloc_ok bm al" and ino: "inode_ok ?sz ino"
    and F: "F \<subseteq> alloc_used bm al" "0 \<in> F" "bitmap_area al \<subseteq> F"
    and L: "distinct (vblocks bm ino ind n)" "set (vblocks bm ino ind n) \<subseteq> alloc_used bm al - F"
    and id: "if direct ino < n then ind_id ino \<in> alloc_used bm al - F - set (vblocks bm ino ind n)
      else ind_id ino = 0"
    and tail: "\<And>i. n \<le> i \<Longrightarrow> i < direct ino \<Longrightarrow> i_blocks ino ! i = 0"
    and ind: "case ind of None \<Rightarrow> True | Some b \<Rightarrow> length b = ?sz \<and> direct ino < n"
    using wst_okD [OF st] by blast+
  note d = inode_ok_direct [OF ino]
  show ?thesis
  proof (cases "alloc_used bm al = {..<bm_block_cnt bm}")
    case True
    from allocate_full [OF al True] al True show ?thesis
      by (simp add: alloc_block_step_def)
  next
    case False
    from al False obtain k bm1 where k: "allocate bm al = Some (Ok k, bm1)" "k < bm_block_cnt bm"
      "k \<notin> alloc_used bm al" "alloc_ok bm1 al" "only_changes (bitmap_area al) bm bm1"
      "alloc_used bm1 al = insert k (alloc_used bm al)"
      by (rule allocate_free)
    note f = only_changes_fields [OF k(5)]
    have k64: "k < 2 ^ 64" using k(2) alloc_ok_cnt [OF al] by simp
    have L1: "vblocks bm1 ino ind n = vblocks bm ino ind n"
      using id F alloc_used_dev [OF al] by (intro vblocks_frame [OF k(5)]) auto
    show ?thesis
    proof (cases "n < direct ino")
      case True
      let ?ino = "ino\<lparr>i_blocks := (i_blocks ino)[n := k]\<rparr>"
      have none: "ind = None" using ind True by (auto split: option.splits)
      have step: "alloc_block_step al n (bm, ino, ind) = Some (KNullOk, (bm1, ?ino, ind))"
        using True k(1) d by (simp add: alloc_block_step_def set_block_direct_ok [OF ino])
      have vb: "vblocks bm1 ?ino ind n = vblocks bm ino ind n"
        unfolding L1 [symmetric] using True by (intro vblocks_cong) (simp add: vblock_def)
      have vn: "vblock bm1 ?ino ind n = k" using True d(3) by (simp add: vblock_def)
      have "wst_ok al F (Suc n) (bm1, ?ino, ind)"
      proof (rule wst_okI)
        show "inode_ok (bm_block_sz bm1) ?ino" using inode_ok_set_block [OF ino k64] f by simp
        show "Suc n \<le> max_blocks (bm_block_sz bm1) ?ino" using n f by (simp add: max_blocks_def)
        show "distinct (vblocks bm1 ?ino ind (Suc n))" using L k(3) by (auto simp: vblocks_Suc vb vn)
        show "set (vblocks bm1 ?ino ind (Suc n)) \<subseteq> alloc_used bm1 al - F"
          using L k(3,6) F(1) by (auto simp: vblocks_Suc vb vn)
        have "ind_id ?ino = 0" using True id by (simp add: ind_id_def)
        then show "if direct ?ino < Suc n then ind_id ?ino \<in> alloc_used bm1 al - F - set (vblocks bm1 ?ino ind (Suc n))
          else ind_id ?ino = 0" using True by simp
        show "i_blocks ?ino ! i = 0" if "Suc n \<le> i" "i < direct ?ino" for i using that tail [of i] by simp
      qed (use k(4,6) F none in auto)
      with step k show ?thesis by auto
    next
      case False
      let ?X = "insert k (set (vblocks bm ino ind n))"
      have pre: "?X \<subseteq> alloc_used bm1 al" "F \<subseteq> alloc_used bm1 al"
        "inode_ok (bm_block_sz bm1) ino" "direct ino \<le> n"
        "if direct ino < n then ind_id ino \<in> alloc_used bm1 al - F - ?X else ind_id ino = 0"
        "case ind of None \<Rightarrow> True | Some b \<Rightarrow> length b = bm_block_sz bm1 \<and> direct ino < n"
      proof -
        show "?X \<subseteq> alloc_used bm1 al" "F \<subseteq> alloc_used bm1 al" using k(6) L(2) F(1) by auto
        show "inode_ok (bm_block_sz bm1) ino" "direct ino \<le> n" using ino f False by simp_all
        show "if direct ino < n then ind_id ino \<in> alloc_used bm1 al - F - ?X else ind_id ino = 0"
        proof (cases "direct ino < n")
          case True
          with id have "ind_id ino \<in> alloc_used bm al - F - set (vblocks bm ino ind n)" by simp
          with k(3) True show ?thesis unfolding k(6) by auto
        next
          case False
          with id show ?thesis by simp
        qed
        show "case ind of None \<Rightarrow> True | Some b \<Rightarrow> length b = bm_block_sz bm1 \<and> direct ino < n"
          using ind f by (simp split: option.splits)
      qed
      from load_or_insert_ok [OF k(4) pre(3,1,2) F(2,3) pre(5,6,4)] obtain r bm2 ino2 where
        r: "load_or_insert_indirect al (bm1, ino, ind) = Some (r, bm2, ino2)" "alloc_ok bm2 al"
          "only_changes (bitmap_area al) bm1 bm2" "alloc_used bm1 al \<subseteq> alloc_used bm2 al"
        and rc: "case r of
             Err e \<Rightarrow> e = OUT_OF_RESOURCE \<and> alloc_used bm2 al = {..<bm_block_cnt bm1}
           | Ok b \<Rightarrow> length b = bm_block_sz bm1 \<and> inode_ok (bm_block_sz bm1) ino2 \<and> same_header ino ino2 \<and>
               ind_id ino2 \<in> alloc_used bm2 al - F - ?X \<and>
               (\<forall>i < direct ino. i_blocks ino2 ! i = i_blocks ino ! i) \<and>
               (\<forall>i < n. vblock bm2 ino2 (Some b) i = vblock bm1 ino ind i)"
        by blast
      note f2 = only_changes_fields [OF r(3)] and ch = only_changes_trans_same [OF k(5) r(3)]
      show ?thesis
      proof (cases r)
        case (Err e)
        then show ?thesis
          using rc r k d False f ch by (auto simp: alloc_block_step_def)
      next
        case (Ok b)
        with rc have b: "length b = ?sz" "inode_ok ?sz ino2" "same_header ino ino2"
          "ind_id ino2 \<in> alloc_used bm2 al - F - ?X" "\<And>i. i < n \<Longrightarrow> vblock bm2 ino2 (Some b) i = vblock bm1 ino ind i"
          using f by auto
        have nb: "i_nblocks ino2 = i_nblocks ino" using same_header_fields [OF b(3)] by simp
        have off: "indirect_off ino2 n = 8 * (n - direct ino)" "8 * (n - direct ino) + 8 \<le> ?sz"
          using indirect_off_ok [OF b(2), of n] False n nb by (auto simp: max_blocks_def)
        let ?b = "patch b (8 * (n - direct ino)) (le_bytes 8 k)"
        have step: "alloc_block_step al n (bm, ino, ind) = Some (KNullOk, (bm2, ino2, Some ?b))"
          using False k(1) d r(1) Ok off b(1) by (simp add: alloc_block_step_def)
        have vb: "vblocks bm2 ino2 (Some ?b) n = vblocks bm ino ind n"
          unfolding L1 [symmetric]
        proof (rule vblocks_cong)
          fix i assume i: "i < n"
          have "8 * (i - direct ino) + 8 \<le> 8 * (n - direct ino)" if "\<not> i < direct ino"
            using diff_less_mono [of i n "direct ino"] i that by linarith
          then have "vblock bm2 ino2 (Some ?b) i = vblock bm2 ino2 (Some b) i"
            using off b(1) nb
            by (auto simp: vblock_def eff_ind_def intro!: arg_cong [of _ _ le_nat] chunk_patch_disjoint)
          with b(5) [OF i] show "vblock bm2 ino2 (Some ?b) i = vblock bm1 ino ind i" by simp
        qed
        have vn: "vblock bm2 ino2 (Some ?b) n = k"
          using False nb off b(1) k64 by (simp add: vblock_def eff_ind_def chunk_patch_same)
        have vs: "vblocks bm2 ino2 (Some ?b) (Suc n) = vblocks bm ino ind n @ [k]"
          unfolding vblocks_Suc vb vn ..
        have "wst_ok al F (Suc n) (bm2, ino2, Some ?b)"
        proof (rule wst_okI)
          show "inode_ok (bm_block_sz bm2) ino2" using b(2) f f2 by simp
          show "Suc n \<le> max_blocks (bm_block_sz bm2) ino2" using n f f2 nb by (simp add: max_blocks_def)
          show "F \<subseteq> alloc_used bm2 al" using pre(2) r(4) by blast
          show "distinct (vblocks bm2 ino2 (Some ?b) (Suc n))" unfolding vs using L k(3) by auto
          show "set (vblocks bm2 ino2 (Some ?b) (Suc n)) \<subseteq> alloc_used bm2 al - F"
            unfolding vs using L pre(1) r(4) k(3) F(1) by auto
          show "if direct ino2 < Suc n then ind_id ino2 \<in> alloc_used bm2 al - F - set (vblocks bm2 ino2 (Some ?b) (Suc n))
            else ind_id ino2 = 0" unfolding vs nb using b(4) False by simp
        qed (use r(2) F f f2 False nb off b(1) in auto)
        with step r b(3) k(6) ch show ?thesis by auto
      qed
    qed
  qed
qed

lemma alloc_blocks_loop_ok:
  "wst_ok al F n (bm, ino, ind) \<Longrightarrow> n + k \<le> max_blocks (bm_block_sz bm) ino \<Longrightarrow>
   \<exists>r bm' ino' ind'. alloc_blocks_loop al n k (bm, ino, ind) = Some (r, (bm', ino', ind')) \<and>
    only_changes (bitmap_area al) bm bm' \<and> alloc_ok bm' al \<and> alloc_used bm al \<subseteq> alloc_used bm' al \<and>
    (case r of
       Err e \<Rightarrow> e = OUT_OF_RESOURCE \<and> alloc_used bm' al = {..<bm_block_cnt bm}
     | Ok _ \<Rightarrow> wst_ok al F (n + k) (bm', ino', ind') \<and> same_header ino ino')"
proof (induction k arbitrary: n bm ino ind)
  case 0
  then show ?case using wst_okD(1) by auto
next
  case (Suc k)
  from alloc_block_step_ok [OF Suc.prems(1)] Suc.prems(2) obtain r bm1 ino1 ind1 where
    s: "alloc_block_step al n (bm, ino, ind) = Some (r, (bm1, ino1, ind1))"
      "only_changes (bitmap_area al) bm bm1" "alloc_ok bm1 al" "alloc_used bm al \<subseteq> alloc_used bm1 al"
    and rc: "case r of
       Err e \<Rightarrow> e = OUT_OF_RESOURCE \<and> alloc_used bm1 al = {..<bm_block_cnt bm}
     | Ok _ \<Rightarrow> wst_ok al F (Suc n) (bm1, ino1, ind1) \<and> same_header ino ino1"
    by (metis (no_types, lifting) add_Suc_right less_add_Suc1 less_le_trans)
  note f = only_changes_fields [OF s(2)]
  show ?case
  proof (cases r)
    case (Err e)
    with s rc show ?thesis by auto
  next
    case (Ok u)
    with rc have w: "wst_ok al F (Suc n) (bm1, ino1, ind1)" "same_header ino ino1" by simp_all
    have "Suc n + k \<le> max_blocks (bm_block_sz bm1) ino1"
      using Suc.prems(2) f same_header_fields [OF w(2)] by (simp add: max_blocks_def)
    from Suc.IH [OF w(1) this] obtain r' bm' ino' ind' where
      t: "alloc_blocks_loop al (Suc n) k (bm1, ino1, ind1) = Some (r', (bm', ino', ind'))"
        "only_changes (bitmap_area al) bm1 bm'" "alloc_ok bm' al" "alloc_used bm1 al \<subseteq> alloc_used bm' al"
      and tc: "case r' of
         Err e \<Rightarrow> e = OUT_OF_RESOURCE \<and> alloc_used bm' al = {..<bm_block_cnt bm1}
       | Ok _ \<Rightarrow> wst_ok al F (Suc n + k) (bm', ino', ind') \<and> same_header ino1 ino'"
      by blast
    have "alloc_blocks_loop al n (Suc k) (bm, ino, ind) = Some (r', (bm', ino', ind'))"
      using s(1) t(1) Ok by simp
    moreover have "only_changes (bitmap_area al) bm bm'" by (rule only_changes_trans_same [OF s(2) t(2)])
    moreover have "alloc_used bm al \<subseteq> alloc_used bm' al" using s(4) t(4) by blast
    moreover have "case r' of
         Err e \<Rightarrow> e = OUT_OF_RESOURCE \<and> alloc_used bm' al = {..<bm_block_cnt bm}
       | Ok _ \<Rightarrow> wst_ok al F (n + Suc k) (bm', ino', ind') \<and> same_header ino ino'"
      using tc f same_header_trans [OF w(2)] by (auto split: chfs_result.splits)
    ultimately show ?thesis using t(3) by blast
  qed
qed

section \<open>Freeing blocks\<close>

text \<open>
  The invariant of the freeing loop at index \<open>i\<close>: of the file's blocks \<open>L\<close>, those from \<open>m\<close> on and
  before \<open>i\<close> have been given back, the others are in place.
\<close>

definition fst_ok :: "block_allocator \<Rightarrow> nat set \<Rightarrow> nat list \<Rightarrow> nat \<Rightarrow> nat \<Rightarrow> write_state \<Rightarrow> bool" where
  "fst_ok al F L m i st =
     (case st of (bm, ino, ind) \<Rightarrow>
        alloc_ok bm al \<and> inode_ok (bm_block_sz bm) ino \<and> length L \<le> max_blocks (bm_block_sz bm) ino \<and>
        F \<subseteq> alloc_used bm al \<and> 0 \<in> F \<and> bitmap_area al \<subseteq> F \<and>
        distinct L \<and> set L \<inter> F = {} \<and>
        (\<forall>j < length L. j < m \<or> i \<le> j \<longrightarrow> vblock bm ino ind j = L ! j \<and> L ! j \<in> alloc_used bm al) \<and>
        (\<forall>j. m \<le> j \<and> (j < i \<or> length L \<le> j) \<longrightarrow> j < direct ino \<longrightarrow> i_blocks ino ! j = 0) \<and>
        (if direct ino < length L then ind_id ino \<in> alloc_used bm al - F - set L else ind_id ino = 0) \<and>
        (case ind of None \<Rightarrow> True | Some b \<Rightarrow> length b = bm_block_sz bm \<and> direct ino < length L))"

lemma fst_okI:
  assumes "alloc_ok bm al" "inode_ok (bm_block_sz bm) ino" "length L \<le> max_blocks (bm_block_sz bm) ino"
    "F \<subseteq> alloc_used bm al" "0 \<in> F" "bitmap_area al \<subseteq> F" "distinct L" "set L \<inter> F = {}"
    "\<And>j. j < length L \<Longrightarrow> j < m \<or> i \<le> j \<Longrightarrow> vblock bm ino ind j = L ! j"
    "\<And>j. j < length L \<Longrightarrow> j < m \<or> i \<le> j \<Longrightarrow> L ! j \<in> alloc_used bm al"
    "\<And>j. m \<le> j \<Longrightarrow> j < i \<or> length L \<le> j \<Longrightarrow> j < direct ino \<Longrightarrow> i_blocks ino ! j = 0"
    "if direct ino < length L then ind_id ino \<in> alloc_used bm al - F - set L else ind_id ino = 0"
    "case ind of None \<Rightarrow> True | Some b \<Rightarrow> length b = bm_block_sz bm \<and> direct ino < length L"
  shows "fst_ok al F L m i (bm, ino, ind)"
  using assms unfolding fst_ok_def by blast

lemma fst_okD:
  assumes "fst_ok al F L m i (bm, ino, ind)"
  shows "alloc_ok bm al" "inode_ok (bm_block_sz bm) ino" "length L \<le> max_blocks (bm_block_sz bm) ino"
    "F \<subseteq> alloc_used bm al" "0 \<in> F" "bitmap_area al \<subseteq> F" "distinct L" "set L \<inter> F = {}"
    "\<And>j. j < length L \<Longrightarrow> j < m \<or> i \<le> j \<Longrightarrow> vblock bm ino ind j = L ! j"
    "\<And>j. j < length L \<Longrightarrow> j < m \<or> i \<le> j \<Longrightarrow> L ! j \<in> alloc_used bm al"
    "\<And>j. m \<le> j \<Longrightarrow> j < i \<or> length L \<le> j \<Longrightarrow> j < direct ino \<Longrightarrow> i_blocks ino ! j = 0"
    "if direct ino < length L then ind_id ino \<in> alloc_used bm al - F - set L else ind_id ino = 0"
    "case ind of None \<Rightarrow> True | Some b \<Rightarrow> length b = bm_block_sz bm \<and> direct ino < length L"
  using assms unfolding fst_ok_def by blast+

lemma fst_ok_start:
  assumes st: "wst_ok al F n (bm, ino, ind)" and m: "m \<le> n"
  shows "fst_ok al F (vblocks bm ino ind n) m m (bm, ino, ind)"
proof (rule fst_okI)
  note w = wst_okD [OF st]
  show "vblocks bm ino ind n ! j \<in> alloc_used bm al" if "j < length (vblocks bm ino ind n)" for j
    using w(8) that nth_mem by blast
  show "set (vblocks bm ino ind n) \<inter> F = {}" using w(8) by blast
  show "i_blocks ino ! j = 0" if "m \<le> j" "j < m \<or> length (vblocks bm ino ind n) \<le> j" "j < direct ino" for j
    using w(10) [of j] that by simp
qed (use wst_okD [OF st] in \<open>simp_all split: option.splits\<close>)

lemma load_indirect_ok:
  assumes al: "alloc_ok bm al" and ino: "inode_ok (bm_block_sz bm) ino"
    and id: "ind_id ino \<in> alloc_used bm al" "ind_id ino \<noteq> 0"
  shows "load_indirect bm ino ind = Some (Ok (eff_ind bm ino ind))"
proof (cases ind)
  case None
  have "get_indirect_block_id ino = Some (ind_id ino)"
    using id(2) inode_ok_direct [OF ino] by (simp add: get_indirect_block_id_def ind_id_def)
  then show ?thesis
    using None alloc_used_dev [OF al id(1)] alloc_okD(1) [OF al]
    by (simp add: load_indirect_def read_block_ok eff_ind_def)
qed (simp add: load_indirect_def eff_ind_def)

lemma length_eff_ind:
  assumes "alloc_ok bm al" "ind_id ino \<in> alloc_used bm al"
    "case ind of None \<Rightarrow> True | Some b \<Rightarrow> length b = bm_block_sz bm \<and> P"
  shows "length (eff_ind bm ino ind) = bm_block_sz bm"
  using assms alloc_used_dev [OF assms(1,2)] by (simp add: eff_ind_def split: option.splits)

lemma free_block_step_ok:
  assumes st: "fst_ok al F L m i (bm, ino, ind)" and i: "m \<le> i" "i < length L"
  shows "\<exists>bm' ino' ind'. free_block_step al i (bm, ino, ind) = Some (KNullOk, (bm', ino', ind')) \<and>
    only_changes (bitmap_area al) bm bm' \<and> alloc_used bm' al \<subseteq> alloc_used bm al \<and>
    fst_ok al F L m (Suc i) (bm', ino', ind') \<and> same_header ino ino'"
proof -
  note w = fst_okD [OF st] and d = inode_ok_direct [OF fst_okD(2) [OF st]]
  have Li: "L ! i \<in> alloc_used bm al" "vblock bm ino ind i = L ! i" using w(9,10) i by auto
  from w(1) Li(1) obtain bm1 where bm1: "deallocate bm al (L ! i) = Some (KNullOk, bm1)" "alloc_ok bm1 al"
    "only_changes (bitmap_area al) bm bm1" "alloc_used bm1 al = alloc_used bm al - {L ! i}"
    by (rule deallocate_used)
  note f = only_changes_fields [OF bm1(3)]
  have "L ! i \<notin> F" using w(8) nth_mem [OF i(2)] by blast
  then have F1: "F \<subseteq> alloc_used bm1 al" using w(4) by (auto simp: bm1(4))
  have L1: "L ! j \<in> alloc_used bm1 al" if "j < length L" "j < m \<or> Suc i \<le> j" for j
    using w(10) [of j] w(7) that i by (auto simp: bm1(4) nth_eq_iff_index_eq)
  have id1: "if direct ino < length L then ind_id ino \<in> alloc_used bm1 al - F - set L else ind_id ino = 0"
    using w(12) i(2) nth_mem [of i L] by (auto simp: bm1(4) split: if_splits)
  have frame: "vblock bm1 ino ind j = vblock bm ino ind j" if "j < length L" for j
    using that w(6,12) alloc_used_dev [OF w(1)] by (intro vblock_frame [OF bm1(3)]) (auto split: if_splits)
  have sub: "alloc_used bm1 al \<subseteq> alloc_used bm al" by (auto simp: bm1(4))
  show ?thesis
  proof (cases "i < direct ino")
    case True
    let ?ino = "ino\<lparr>i_blocks := (i_blocks ino)[i := 0]\<rparr>"
    have "i_blocks ino ! i = L ! i" using Li(2) True by (simp add: vblock_def)
    then have step: "free_block_step al i (bm, ino, ind) = Some (KNullOk, (bm1, ?ino, ind))"
      using True bm1(1) d(2,3) by (simp add: free_block_step_def set_block_direct_ok [OF w(2)])
    have vb: "vblock bm1 ?ino ind j = vblock bm1 ino ind j" if "j \<noteq> i" for j
      using that True by (simp add: vblock_def eff_ind_def ind_id_def split: option.split)
    have "fst_ok al F L m (Suc i) (bm1, ?ino, ind)"
    proof (rule fst_okI)
      show "inode_ok (bm_block_sz bm1) ?ino" using inode_ok_set_block [OF w(2)] f by simp
      show "vblock bm1 ?ino ind j = L ! j" if "j < length L" "j < m \<or> Suc i \<le> j" for j
        using vb [of j] frame [of j] w(9) [of j] that i by auto
      show "i_blocks ?ino ! j = 0" if "m \<le> j" "j < Suc i \<or> length L \<le> j" "j < direct ?ino" for j
        using that w(11) [of j] d(3) by (cases "j = i") auto
      have "ind_id ?ino = ind_id ino" using True by (simp add: ind_id_def)
      then show "if direct ?ino < length L then ind_id ?ino \<in> alloc_used bm1 al - F - set L else ind_id ?ino = 0"
        using id1 by auto
      show "case ind of None \<Rightarrow> True | Some b \<Rightarrow> length b = bm_block_sz bm1 \<and> direct ?ino < length L"
        using w(13) f by (simp split: option.splits)
    qed (use w(3,5-8) bm1(2) f F1 L1 in \<open>simp_all add: max_blocks_def\<close>)
    with step bm1(3) sub show ?thesis by auto
  next
    case False
    let ?b = "eff_ind bm ino ind" and ?o = "8 * (i - direct ino)"
    have dl: "direct ino < length L" using False i by simp
    then have id: "ind_id ino \<in> alloc_used bm al - F - set L" using w(12) by simp
    then have nz: "ind_id ino \<noteq> 0" using w(5) by (metis DiffE)
    have len: "length ?b = bm_block_sz bm" using length_eff_ind [OF w(1) _ w(13)] id by simp
    have off: "indirect_off ino i = ?o" "?o + 8 \<le> bm_block_sz bm"
      using indirect_off_ok [OF w(2)] False i w(3) by auto
    let ?b' = "patch ?b ?o (le_bytes 8 0)"
    have "le_nat (chunk ?b ?o 8) = L ! i" using Li(2) False by (simp add: vblock_def)
    then have step: "free_block_step al i (bm, ino, ind) = Some (KNullOk, (bm1, ino, Some ?b'))"
      using False d(2) bm1(1) id nz off len
      by (simp add: free_block_step_def load_indirect_ok [OF w(1,2)])
    have vb: "vblock bm1 ino (Some ?b') j = vblock bm ino ind j" if j: "j \<noteq> i" "j < length L" for j
    proof (cases "j < direct ino")
      case True
      then show ?thesis by (simp add: vblock_def)
    next
      case jd: False
      have "8 * (j - direct ino) + 8 \<le> bm_block_sz bm"
        using indirect_off_ok(3) [OF w(2)] jd j w(3) by auto
      moreover have "8 * (j - direct ino) + 8 \<le> ?o \<or> ?o + 8 \<le> 8 * (j - direct ino)"
        using jd False j by linarith
      ultimately have "chunk ?b' (8 * (j - direct ino)) 8 = chunk ?b (8 * (j - direct ino)) 8"
        using off len by (intro chunk_patch_disjoint) simp_all
      then show ?thesis using jd by (simp add: vblock_def eff_ind_def)
    qed
    have "fst_ok al F L m (Suc i) (bm1, ino, Some ?b')"
    proof (rule fst_okI)
      show "inode_ok (bm_block_sz bm1) ino" using w(2) f by simp
      show "vblock bm1 ino (Some ?b') j = L ! j" if "j < length L" "j < m \<or> Suc i \<le> j" for j
        using vb [of j] w(9) [of j] that i by auto
      show "i_blocks ino ! j = 0" if "m \<le> j" "j < Suc i \<or> length L \<le> j" "j < direct ino" for j
        using that w(11) [of j] False by auto
    qed (use w bm1(2) f F1 L1 id1 dl len off in \<open>simp_all\<close>)
    with step bm1(3) sub show ?thesis by auto
  qed
qed

lemma free_blocks_loop_ok:
  "fst_ok al F L m i (bm, ino, ind) \<Longrightarrow> m \<le> i \<Longrightarrow> i + k = length L \<Longrightarrow>
   \<exists>bm' ino' ind'. free_blocks_loop al i k (bm, ino, ind) = Some (KNullOk, (bm', ino', ind')) \<and>
    only_changes (bitmap_area al) bm bm' \<and> alloc_used bm' al \<subseteq> alloc_used bm al \<and>
    fst_ok al F L m (length L) (bm', ino', ind') \<and> same_header ino ino'"
proof (induction k arbitrary: i bm ino ind)
  case 0
  then show ?case by auto
next
  case (Suc k)
  from free_block_step_ok [OF Suc.prems(1,2)] Suc.prems(3) obtain bm1 ino1 ind1 where
    s: "free_block_step al i (bm, ino, ind) = Some (KNullOk, (bm1, ino1, ind1))"
      "only_changes (bitmap_area al) bm bm1" "alloc_used bm1 al \<subseteq> alloc_used bm al"
      "fst_ok al F L m (Suc i) (bm1, ino1, ind1)" "same_header ino ino1" by auto
  from Suc.IH [OF s(4)] Suc.prems(2,3) obtain bm' ino' ind' where
    t: "free_blocks_loop al (Suc i) k (bm1, ino1, ind1) = Some (KNullOk, (bm', ino', ind'))"
      "only_changes (bitmap_area al) bm1 bm'" "alloc_used bm' al \<subseteq> alloc_used bm1 al"
      "fst_ok al F L m (length L) (bm', ino', ind')" "same_header ino1 ino'" by auto
  have "free_blocks_loop al i (Suc k) (bm, ino, ind) = Some (KNullOk, (bm', ino', ind'))"
    using s(1) t(1) by simp
  with only_changes_trans_same [OF s(2) t(2)] s(3) t(3,4) same_header_trans [OF s(5) t(5)]
  show ?case by blast
qed

lemma free_indirect_step_ok:
  assumes st: "fst_ok al F L m (length L) (bm, ino, ind)" and m: "m \<le> length L"
  shows "\<exists>bm' ino' ind'. free_indirect_step al (length L) m (bm, ino, ind) = Some (KNullOk, (bm', ino', ind')) \<and>
    only_changes (bitmap_area al) bm bm' \<and> alloc_used bm' al \<subseteq> alloc_used bm al \<and>
    wst_ok al F m (bm', ino', ind') \<and> same_header ino ino'"
proof -
  note w = fst_okD [OF st] and d = inode_ok_direct [OF fst_okD(2) [OF st]]
  have vm: "vblocks bm ino ind m = take m L"
    using w(9) m by (intro nth_equalityI) auto
  have tk: "distinct (take m L)" "set (take m L) \<inter> F = {}" "set (take m L) \<subseteq> alloc_used bm al"
  proof -
    show "distinct (take m L)" using w(7) by (rule distinct_take)
    show "set (take m L) \<inter> F = {}" using w(8) set_take_subset by fastforce
    show "set (take m L) \<subseteq> alloc_used bm al" using w(10) m by (auto simp: in_set_conv_nth)
  qed
  have zeros: "i_blocks ino ! j = 0" if "m \<le> j" "j < direct ino" for j
    by (rule w(11)) (use that in auto)
  show ?thesis
  proof (cases "direct ino < length L \<and> m \<le> direct ino")
    case True
    then have id: "ind_id ino \<in> alloc_used bm al - F - set L" using w(12) by simp
    then have nz: "ind_id ino \<noteq> 0" "ind_id ino \<in> alloc_used bm al" using w(5) by (metis DiffE, blast)
    from w(1) nz(2) obtain bm1 where bm1: "deallocate bm al (ind_id ino) = Some (KNullOk, bm1)" "alloc_ok bm1 al"
      "only_changes (bitmap_area al) bm bm1" "alloc_used bm1 al = alloc_used bm al - {ind_id ino}"
      by (rule deallocate_used)
    note f = only_changes_fields [OF bm1(3)]
    let ?ino = "ino\<lparr>i_blocks := (i_blocks ino)[direct ino := 0]\<rparr>"
    have "get_indirect_block_id ino = Some (ind_id ino)"
      using nz(1) d by (simp add: get_indirect_block_id_def ind_id_def)
    then have step: "free_indirect_step al (length L) m (bm, ino, ind) = Some (KNullOk, (bm1, ?ino, None))"
      using True bm1(1) d(1,5)
      by (simp add: free_indirect_step_def invalid_indirect_block_id_def set_block_direct_ok [OF w(2)])
    have vb: "vblocks bm1 ?ino None m = take m L"
      unfolding vm [symmetric] using True by (intro vblocks_cong) (simp add: vblock_def)
    have "ind_id ino \<notin> set (take m L)" using id set_take_subset by fastforce
    then have tk1: "set (take m L) \<subseteq> alloc_used bm1 al - F" using tk by (auto simp: bm1(4))
    have "wst_ok al F m (bm1, ?ino, None)"
    proof (rule wst_okI)
      show "inode_ok (bm_block_sz bm1) ?ino" using inode_ok_set_block [OF w(2)] f by simp
      show "m \<le> max_blocks (bm_block_sz bm1) ?ino" using m w(3) f by (simp add: max_blocks_def)
      show "F \<subseteq> alloc_used bm1 al" using w(4) id by (auto simp: bm1(4))
      show "distinct (vblocks bm1 ?ino None m)" "set (vblocks bm1 ?ino None m) \<subseteq> alloc_used bm1 al - F"
        unfolding vb using tk(1) tk1 by simp_all
      have "ind_id ?ino = 0" using d(3) by (simp add: ind_id_def)
      then show "if direct ?ino < m then ind_id ?ino \<in> alloc_used bm1 al - F - set (vblocks bm1 ?ino None m)
        else ind_id ?ino = 0" using True by simp
      show "i_blocks ?ino ! j = 0" if "m \<le> j" "j < direct ?ino" for j using that zeros [of j] by simp
    qed (use w bm1(2) in simp_all)
    with step bm1 show ?thesis by auto
  next
    case False
    have step: "free_indirect_step al (length L) m (bm, ino, ind) = Some (KNullOk, (bm, ino, ind))"
      using False d(1) by (auto simp: free_indirect_step_def)
    have "wst_ok al F m (bm, ino, ind)"
    proof (rule wst_okI)
      show "m \<le> max_blocks (bm_block_sz bm) ino" using m w(3) by simp
      show "distinct (vblocks bm ino ind m)" "set (vblocks bm ino ind m) \<subseteq> alloc_used bm al - F"
        unfolding vm using tk by auto
      show "if direct ino < m then ind_id ino \<in> alloc_used bm al - F - set (vblocks bm ino ind m) else ind_id ino = 0"
        unfolding vm using w(12) False m set_take_subset [of m L] by (auto split: if_splits)
      show "case ind of None \<Rightarrow> True | Some b \<Rightarrow> length b = bm_block_sz bm \<and> direct ino < m"
        using w(13) False by (auto split: option.splits)
    qed (use w zeros in simp_all)
    with step show ?thesis by auto
  qed
qed

text \<open>Both cases of the adjustment of the number of blocks.\<close>

lemma adjust_blocks_ok:
  assumes st: "wst_ok al F n (bm, ino, ind)" and m: "m \<le> max_blocks (bm_block_sz bm) ino"
  shows "\<exists>r bm' ino' ind'. adjust_blocks al n m (bm, ino, ind) = Some (r, (bm', ino', ind')) \<and>
    only_changes (bitmap_area al) bm bm' \<and>
    (case r of
       Err e \<Rightarrow> e = OUT_OF_RESOURCE \<and> n < m \<and> alloc_ok bm' al \<and> alloc_used bm al \<subseteq> alloc_used bm' al \<and>
         alloc_used bm' al = {..<bm_block_cnt bm}
     | Ok _ \<Rightarrow> wst_ok al F m (bm', ino', ind') \<and> same_header ino ino')"
proof (cases "n < m")
  case True
  then have "n + (m - n) \<le> max_blocks (bm_block_sz bm) ino" using m by simp
  from alloc_blocks_loop_ok [OF st this] True show ?thesis
    by (auto simp: adjust_blocks_def split: chfs_result.splits) blast
next
  case False
  let ?L = "vblocks bm ino ind n"
  from fst_ok_start [OF st, of m] False have s: "fst_ok al F ?L m m (bm, ino, ind)" by simp
  from free_blocks_loop_ok [OF s, of "n - m"] False obtain bm1 ino1 ind1 where
    a: "free_blocks_loop al m (n - m) (bm, ino, ind) = Some (KNullOk, (bm1, ino1, ind1))"
      "only_changes (bitmap_area al) bm bm1" "fst_ok al F ?L m (length ?L) (bm1, ino1, ind1)"
      "same_header ino ino1" by auto
  from free_indirect_step_ok [OF a(3)] False obtain bm2 ino2 ind2 where
    b: "free_indirect_step al n m (bm1, ino1, ind1) = Some (KNullOk, (bm2, ino2, ind2))"
      "only_changes (bitmap_area al) bm1 bm2" "wst_ok al F m (bm2, ino2, ind2)" "same_header ino1 ino2" by auto
  have "adjust_blocks al n m (bm, ino, ind) = Some (KNullOk, (bm2, ino2, ind2))"
    using False a(1) b(1) by (simp add: adjust_blocks_def)
  with only_changes_trans_same [OF a(2) b(2)] b(3) same_header_trans [OF a(4) b(4)] show ?thesis by auto
qed

section \<open>Writing the contents\<close>

lemma alloc_used_frame:
  assumes ok: "alloc_ok bm al" and ch: "only_changes S bm bm'" and S: "S \<inter> bitmap_area al = {}"
  shows "alloc_ok bm' al" "alloc_used bm' al = alloc_used bm al"
proof -
  note f = only_changes_fields [OF ch]
  show "alloc_ok bm' al" using ok f by (simp add: alloc_ok_def)
  have "marked bm' al i = marked bm al i" if "i < bm_block_cnt bm" for i
  proof -
    have j: "i div blk_bits bm < al_bitmap_block_cnt al" using block_index_iff [OF ok] that by blast
    then have "al_bitmap_block_id al + i div blk_bits bm \<notin> S" using S by (auto simp: bitmap_area_def)
    then show ?thesis
      using only_changes_blk [OF ch bitmap_area_in_dev [OF ok j]] f by (simp add: marked_def)
  qed
  then show "alloc_used bm' al = alloc_used bm al" using f by (auto simp: alloc_used_def)
qed

lemma wst_ok_frame:
  assumes st: "wst_ok al F n (bm, ino, ind)" and ch: "only_changes S bm bm'"
    and S: "S \<subseteq> set (vblocks bm ino ind n)"
  shows "wst_ok al F n (bm', ino, ind)" "vblocks bm' ino ind n = vblocks bm ino ind n"
    "alloc_used bm' al = alloc_used bm al"
proof -
  note w = wst_okD [OF st] and f = only_changes_fields [OF ch]
  have "S \<inter> bitmap_area al = {}" using S w(6,8) by blast
  note a = alloc_used_frame [OF w(1) ch this]
  show u: "alloc_used bm' al = alloc_used bm al" by (rule a)
  show v: "vblocks bm' ino ind n = vblocks bm ino ind n"
    using S w(9) alloc_used_dev [OF w(1)] by (intro vblocks_frame [OF ch]) auto
  show "wst_ok al F n (bm', ino, ind)"
    using st a(1) unfolding wst_ok_def prod.case u v f by blast
qed

lemma wst_ok_load:
  assumes st: "wst_ok al F n (bm, ino, ind)" and n: "direct ino < n"
  shows "wst_ok al F n (bm, ino, Some (eff_ind bm ino ind))"
    "vblocks bm ino (Some (eff_ind bm ino ind)) n = vblocks bm ino ind n"
    "load_indirect bm ino ind = Some (Ok (eff_ind bm ino ind))"
    "length (eff_ind bm ino ind) = bm_block_sz bm"
proof -
  note w = wst_okD [OF st]
  show v: "vblocks bm ino (Some (eff_ind bm ino ind)) n = vblocks bm ino ind n"
    by (intro vblocks_cong) (simp add: vblock_def eff_ind_def)
  have id: "ind_id ino \<in> alloc_used bm al - F" using w(9) n by auto
  then have nz: "ind_id ino \<noteq> 0" using w(5) by (metis DiffE)
  show l: "length (eff_ind bm ino ind) = bm_block_sz bm" using length_eff_ind [OF w(1) _ w(11)] id by simp
  show "load_indirect bm ino ind = Some (Ok (eff_ind bm ino ind))"
    using id nz by (intro load_indirect_ok [OF w(1,2)]) auto
  show "wst_ok al F n (bm, ino, Some (eff_ind bm ino ind))"
    by (rule wst_okI) (use w n l v in simp_all)
qed

lemma block_at_ok:
  assumes st: "wst_ok al F n (bm, ino, ind)" and i: "i < n"
    and off: "off = indirect_off ino i \<or> off = indirect_off64 ino i"
  shows "\<exists>ind'. block_at bm ino i off ind = Some (Ok (vblock bm ino ind i), ind') \<and>
    wst_ok al F n (bm, ino, ind') \<and> vblocks bm ino ind' n = vblocks bm ino ind n \<and>
    eff_ind bm ino ind' = eff_ind bm ino ind"
proof -
  note w = wst_okD [OF st] and d = inode_ok_direct [OF wst_okD(2) [OF st]]
  have im: "i < max_blocks (bm_block_sz bm) ino" using i w(3) by simp
  then have u: "u32 i = i" using d(4) by (simp add: u32_def)
  show ?thesis
  proof (cases "i < direct ino")
    case True
    then show ?thesis using st d(2,3) u by (simp add: block_at_def vblock_def)
  next
    case False
    then have n: "direct ino < n" using i by simp
    note o = indirect_off_ok [OF w(2) _ im] and l = wst_ok_load [OF st n]
    have "block_at bm ino i off ind = Some (Ok (vblock bm ino ind i), Some (eff_ind bm ino ind))"
      using False d(2) u o off l(3,4) by (auto simp: block_at_def vblock_def)
    with l show ?thesis by (auto simp: eff_ind_def)
  qed
qed

text \<open>Block \<open>i\<close> of the contents, filled up with zero bytes.\<close>

definition file_chunk :: "nat \<Rightarrow> byte list \<Rightarrow> nat \<Rightarrow> byte list" where
  "file_chunk sz content i =
     take sz (drop (i * sz) content) @ replicate (sz - length (take sz (drop (i * sz) content))) 0"

lemma length_file_chunk [simp]: "length (file_chunk sz content i) = sz"
  by (simp add: file_chunk_def)

lemma less_ceil_div: "0 < b \<Longrightarrow> i < ceil_div t b \<Longrightarrow> i * b < t"
proof -
  assume b: "0 < b" and i: "i < ceil_div t b"
  then have t: "0 < t" by (cases "t = 0") (auto simp: ceil_div_def)
  have le: "i * b \<le> (ceil_div t b - 1) * b" using i by (intro mult_le_mono1) simp
  have eq: "(ceil_div t b - 1) * b + (if ceil_div t b * b = t then b else t mod b) = t"
    using ceil_div_facts [OF b t ceil_div_def] by blast
  have "0 < (if ceil_div t b * b = t then b else t mod b)"
  proof (cases "t mod b = 0")
    case True
    then have "ceil_div t b * b = t" by (auto simp: ceil_div_def)
    with b show ?thesis by simp
  qed (use b in simp)
  with le eq show ?thesis by linarith
qed

lemma write_data_loop_ok:
  assumes n: "n = ceil_div (length content) sz" and sz: "0 < sz"
  shows "i + k = n \<Longrightarrow> wst_ok al F n (bm, ino, ind) \<Longrightarrow> bm_block_sz bm = sz \<Longrightarrow>
    \<exists>bm' ind'. write_data_loop (Suc k) content (min (i * sz) (length content)) i (bm, ino, ind) =
        Some (KNullOk, (bm', ino, ind')) \<and>
      only_changes (set (drop i (vblocks bm ino ind n))) bm bm' \<and> wst_ok al F n (bm', ino, ind') \<and>
      vblocks bm' ino ind' n = vblocks bm ino ind n \<and>
      (\<forall>j. i \<le> j \<longrightarrow> j < n \<longrightarrow> blk bm' (vblock bm ino ind j) = file_chunk sz content j)"
proof (induction k arbitrary: i bm ind)
  case 0
  then have "length content \<le> i * sz"
    using ceil_div_pos [OF sz, of "length content"] n by (cases "length content = 0") auto
  with 0 show ?case by auto
next
  case (Suc k)
  let ?L = "vblocks bm ino ind n" and ?len = "length content"
  note w = wst_okD [OF Suc.prems(2)] and d = inode_ok_direct [OF wst_okD(2) [OF Suc.prems(2)]]
  have i: "i < n" using Suc.prems(1) by simp
  have il: "i * sz < ?len" using i n sz by (simp add: less_ceil_div)
  define s where "s = io_size sz (?len - i * sz)"
  have ws: "min (i * sz) ?len = i * sz" using il by simp
  have s: "0 < s" "i * sz + s \<le> ?len" "s \<le> sz" "i * sz + s = min (Suc i * sz) ?len"
    "take sz (drop (i * sz) content) = chunk content (i * sz) s"
    using il sz by (auto simp: s_def io_size_def chunk_def min_def)
  have "?len \<le> n * sz" using ceil_div_pos [OF sz, of ?len] n by (cases "?len = 0") auto
  also have "\<dots> \<le> 2 ^ 28 * 2 ^ 29"
    using w(2,3) d(4) Suc.prems(3) by (intro mult_le_mono) (auto simp: inode_ok_def)
  finally have u: "u64 (i * sz + s) = min (Suc i * sz) ?len" using s by (simp add: u64_def)
  from block_at_ok [OF Suc.prems(2) i disjI1 [OF refl]] obtain ind1 where
    b: "block_at bm ino i (indirect_off ino i) ind = Some (Ok (vblock bm ino ind i), ind1)"
      "wst_ok al F n (bm, ino, ind1)" "vblocks bm ino ind1 n = ?L" by blast
  let ?v = "vblock bm ino ind i" and ?c = "file_chunk sz content i"
  have v: "?v \<in> set ?L" using i by (auto simp: set_vblocks)
  then have dev: "in_dev bm ?v" using w(8) alloc_used_dev [OF w(1)] by blast
  have pk: "poke (replicate sz 0) 0 (chunk content (i * sz) s) = Some ?c"
    using s by (simp add: file_chunk_def patch_def)
  have wr: "write_block bm ?v ?c = Some (KNullOk, put_blk bm ?v ?c)"
    using alloc_okD [OF w(1)] dev Suc.prems(3) by (simp add: write_block_ok)
  let ?bm = "put_blk bm ?v ?c"
  have ch: "only_changes {?v} bm ?bm" using dev Suc.prems(3) by (intro only_changes_put_blk) auto
  from wst_ok_frame [OF b(2) ch] v b(3)
  have w1: "wst_ok al F n (?bm, ino, ind1)" "vblocks ?bm ino ind1 n = ?L" by auto
  have k: "Suc i + k = n" using Suc.prems(1) by simp
  from Suc.IH [OF k w1(1)] Suc.prems(3) w1(2) obtain bm' ind' where
    t: "write_data_loop (Suc k) content (min (Suc i * sz) ?len) (Suc i) (?bm, ino, ind1) =
        Some (KNullOk, (bm', ino, ind'))"
      "only_changes (set (drop (Suc i) ?L)) ?bm bm'" "wst_ok al F n (bm', ino, ind')"
      "vblocks bm' ino ind' n = ?L"
      "\<And>j. Suc i \<le> j \<Longrightarrow> j < n \<Longrightarrow> blk bm' (vblock ?bm ino ind1 j) = file_chunk sz content j"
    by auto
  have vb: "vblock ?bm ino ind1 j = vblock bm ino ind j" if "j < n" for j
    using w1(2) that by (metis nth_vblocks)
  have step: "write_data_loop (Suc (Suc k)) content (min (i * sz) ?len) i (bm, ino, ind) =
      write_data_loop (Suc k) content (min (Suc i * sz) ?len) (Suc i) (?bm, ino, ind1)"
    unfolding ws using il b(1) wr pk s(2) u Suc.prems(3)
    by (subst write_data_loop.simps(2)) (simp add: Let_def s_def [symmetric] del: write_data_loop.simps mult_Suc)
  have drop: "set (drop i ?L) = insert ?v (set (drop (Suc i) ?L))"
    using i by (simp add: Cons_nth_drop_Suc [symmetric])
  have "only_changes (set (drop i ?L)) bm bm'"
    unfolding drop using only_changes_trans [OF ch t(2)] by simp
  moreover have "blk bm' (vblock bm ino ind j) = file_chunk sz content j" if "i \<le> j" "j < n" for j
  proof (cases "j = i")
    case True
    have "?v \<notin> set (drop (Suc i) ?L)"
      using w(7) i by (metis Cons_nth_drop_Suc distinct.simps(2) distinct_drop length_vblocks nth_vblocks)
    then have "blk bm' ?v = blk ?bm ?v" using dev Suc.prems(3) by (intro only_changes_blk [OF t(2)]) auto
    with True dev Suc.prems(3) show ?thesis by (simp add: blk_put_blk)
  next
    case False
    with t(5) [of j] vb that show ?thesis by simp
  qed
  ultimately show ?case
    using step t(1,3,4) by auto
qed

end
