(* ===== verification/File_System.thy ===== *)
theory File_System
  imports File_Correct
begin

text \<open>
  The file system as a whole: every inode in use has a file, the files' blocks are
  disjoint, and the operations of \<open>FileOperation\<close> act on one file and leave the others
  alone. The abstraction of a file is its contents, a byte sequence.
\<close>

section \<open>Reading a file\<close>

definition content_of :: "block_manager \<Rightarrow> inode \<Rightarrow> byte list option \<Rightarrow> byte list" where
  "content_of bm ino ind =
     take (fsize (i_attr ino))
       (concat (map (blk bm) (vblocks bm ino ind (ceil_div (fsize (i_attr ino)) (bm_block_sz bm)))))"

lemma length_concat_blocks:
  assumes "\<And>v. v \<in> set vs \<Longrightarrow> in_dev bm v"
  shows "length (concat (map (blk bm) vs)) = length vs * bm_block_sz bm"
  using assms by (induction vs) auto

lemma read_data_loop_ok:
  assumes n: "n = ceil_div (fsize (i_attr ino)) (bm_block_sz bm)"
  shows "i + k = n \<Longrightarrow> wst_ok al F n (bm, ino, ind) \<Longrightarrow>
    read_data_loop (Suc k) bm ino (min (i * bm_block_sz bm) (fsize (i_attr ino))) ind acc =
      Some (Ok (acc @ take (fsize (i_attr ino) - i * bm_block_sz bm)
        (concat (map (blk bm) (drop i (vblocks bm ino ind n))))))"
proof (induction k arbitrary: i ind acc)
  case 0
  have sz: "0 < bm_block_sz bm" using wst_okD(1) [OF 0(2)] alloc_okD(3) by blast
  then have "fsize (i_attr ino) \<le> i * bm_block_sz bm"
    using 0 ceil_div_pos [OF sz, of "fsize (i_attr ino)"] n by (cases "fsize (i_attr ino) = 0") auto
  with 0 show ?case by auto
next
  case (Suc k)
  let ?L = "vblocks bm ino ind n" and ?len = "fsize (i_attr ino)" and ?sz = "bm_block_sz bm"
  note w = wst_okD [OF Suc.prems(2)] and d = inode_ok_direct [OF wst_okD(2) [OF Suc.prems(2)]]
  have sz: "0 < ?sz" using alloc_okD(3) [OF w(1)] .
  have i: "i < n" using Suc.prems(1) by simp
  have il: "i * ?sz < ?len" using i n sz by (simp add: less_ceil_div)
  define s where "s = io_size ?sz (?len - i * ?sz)"
  have ws: "min (i * ?sz) ?len = i * ?sz" "i * ?sz div ?sz = i" using il sz by simp_all
  have s: "i * ?sz + s \<le> ?len" "s \<le> ?sz" "i * ?sz + s = min (Suc i * ?sz) ?len" "s = min ?sz (?len - i * ?sz)"
    using il sz by (auto simp: s_def io_size_def min_def)
  have "?len \<le> n * ?sz" using ceil_div_pos [OF sz, of ?len] n by (cases "?len = 0") auto
  also have "\<dots> \<le> 2 ^ 28 * 2 ^ 29"
    using w(2,3) d(4) by (intro mult_le_mono) (auto simp: inode_ok_def)
  finally have u: "u64 (i * ?sz + s) = min (Suc i * ?sz) ?len" using s by (simp add: u64_def)
  from block_at_ok [OF Suc.prems(2) i disjI2 [OF refl]] obtain ind1 where
    b: "block_at bm ino i (indirect_off64 ino i) ind = Some (Ok (vblock bm ino ind i), ind1)"
      "wst_ok al F n (bm, ino, ind1)" "vblocks bm ino ind1 n = ?L" by blast
  let ?v = "vblock bm ino ind i"
  have "?v \<in> set ?L" using i by (auto simp: set_vblocks)
  then have dev: "in_dev bm ?v" using w(8) alloc_used_dev [OF w(1)] by blast
  have rd: "read_block bm ?v ?sz = Some (Ok (blk bm ?v))"
    using alloc_okD [OF w(1)] dev by (simp add: read_block_ok)
  have pk: "peek (blk bm ?v) 0 s = Some (take s (blk bm ?v))"
    using s dev by (simp add: chunk_def)
  have step: "read_data_loop (Suc (Suc k)) bm ino (min (i * ?sz) ?len) ind acc =
      read_data_loop (Suc k) bm ino (min (Suc i * ?sz) ?len) ind1 (acc @ take s (blk bm ?v))"
    unfolding ws using il b(1) rd pk u
    by (subst read_data_loop.simps(2))
      (simp add: Let_def s_def [symmetric] ws(2) del: read_data_loop.simps mult_Suc)
  have "Suc i + k = n" using Suc.prems(1) by simp
  note IH = Suc.IH [OF this b(2), of "acc @ take s (blk bm ?v)", unfolded b(3)]
  have "drop i ?L = ?v # drop (Suc i) ?L" using i by (simp add: Cons_nth_drop_Suc [symmetric])
  moreover have "take (?len - i * ?sz) (blk bm ?v @ r) = take s (blk bm ?v) @ take (?len - Suc i * ?sz) r" for r
    using dev s(4) by (auto simp: min_def add.commute)
  ultimately show ?case unfolding step IH by simp
qed

section \<open>Files\<close>

definition file_ino :: "block_manager \<Rightarrow> nat \<Rightarrow> inode" where
  "file_ino bm k = the (decode_inode (blk bm (inode_table bm k)))"

definition file_n :: "block_manager \<Rightarrow> nat \<Rightarrow> nat" where
  "file_n bm k = ceil_div (fsize (i_attr (file_ino bm k))) (bm_block_sz bm)"

definition file_blocks :: "block_manager \<Rightarrow> nat \<Rightarrow> nat list" where
  "file_blocks bm k = vblocks bm (file_ino bm k) None (file_n bm k)"

definition owned :: "block_manager \<Rightarrow> nat \<Rightarrow> nat set" where
  "owned bm k = insert (inode_table bm k) (set (file_blocks bm k) \<union>
     (if direct (file_ino bm k) < file_n bm k then {ind_id (file_ino bm k)} else {}))"

definition file_ok :: "block_manager \<Rightarrow> block_allocator \<Rightarrow> nat set \<Rightarrow> nat \<Rightarrow> bool" where
  "file_ok bm al R k \<longleftrightarrow> inode_table bm k \<in> alloc_used bm al - R \<and>
     decode_inode (blk bm (inode_table bm k)) = Some (file_ino bm k) \<and>
     wst_ok al (insert (inode_table bm k) R) (file_n bm k) (bm, file_ino bm k, None)"

text \<open>The abstraction: the contents of the file of raw inode \<open>k\<close>.\<close>

definition file_content :: "block_manager \<Rightarrow> nat \<Rightarrow> byte list" where
  "file_content bm k = content_of bm (file_ino bm k) None"

text \<open>Superblock, inode table, inode bitmap and block bitmap.\<close>

definition reserved :: "block_allocator \<Rightarrow> nat set" where
  "reserved al = {..<al_bitmap_block_id al + al_bitmap_block_cnt al}"

definition fs_ok :: "file_operation \<Rightarrow> bool" where
  "fs_ok fs \<longleftrightarrow> im_ok (fo_bm fs) (fo_im fs) \<and> alloc_ok (fo_bm fs) (fo_al fs) \<and> 52 \<le> bm_block_sz (fo_bm fs) \<and>
     al_bitmap_block_id (fo_al fs) = 1 + im_n_table_blocks (fo_im fs) + im_n_bitmap_blocks (fo_im fs) \<and>
     reserved (fo_al fs) \<subseteq> alloc_used (fo_bm fs) (fo_al fs) \<and>
     (\<forall>k \<in> inode_used (fo_bm fs) (fo_im fs). file_ok (fo_bm fs) (fo_al fs) (reserved (fo_al fs)) k) \<and>
     (\<forall>k \<in> inode_used (fo_bm fs) (fo_im fs). \<forall>k' \<in> inode_used (fo_bm fs) (fo_im fs).
        k \<noteq> k' \<longrightarrow> owned (fo_bm fs) k \<inter> owned (fo_bm fs) k' = {})"

lemma fs_okD:
  assumes "fs_ok fs"
  shows "im_ok (fo_bm fs) (fo_im fs)" "alloc_ok (fo_bm fs) (fo_al fs)" "52 \<le> bm_block_sz (fo_bm fs)"
    "al_bitmap_block_id (fo_al fs) = 1 + im_n_table_blocks (fo_im fs) + im_n_bitmap_blocks (fo_im fs)"
    "reserved (fo_al fs) \<subseteq> alloc_used (fo_bm fs) (fo_al fs)"
    "\<And>k. k \<in> inode_used (fo_bm fs) (fo_im fs) \<Longrightarrow> file_ok (fo_bm fs) (fo_al fs) (reserved (fo_al fs)) k"
    "\<And>k k'. k \<in> inode_used (fo_bm fs) (fo_im fs) \<Longrightarrow> k' \<in> inode_used (fo_bm fs) (fo_im fs) \<Longrightarrow>
      k \<noteq> k' \<Longrightarrow> owned (fo_bm fs) k \<inter> owned (fo_bm fs) k' = {}"
  using assms unfolding fs_ok_def by blast+

lemma reserved_areas:
  "bitmap_area al \<subseteq> reserved al"
  "al_bitmap_block_id al = 1 + im_n_table_blocks im + im_n_bitmap_blocks im \<Longrightarrow> inode_area im \<subseteq> reserved al"
  "al_bitmap_block_id al = 1 + im_n_table_blocks im + im_n_bitmap_blocks im \<Longrightarrow>
    inode_area im \<inter> bitmap_area al = {}"
  "al_bitmap_block_id al = 1 + n \<Longrightarrow> 0 \<in> reserved al"
  by (auto simp: reserved_def bitmap_area_def inode_area_def)

lemma file_okD:
  assumes "file_ok bm al R k"
  shows "inode_table bm k \<in> alloc_used bm al" "inode_table bm k \<notin> R"
    "decode_inode (blk bm (inode_table bm k)) = Some (file_ino bm k)"
    "wst_ok al (insert (inode_table bm k) R) (file_n bm k) (bm, file_ino bm k, None)"
  using assms unfolding file_ok_def by blast+

lemma owned_used:
  assumes "file_ok bm al R k"
  shows "owned bm k \<subseteq> alloc_used bm al - R" "0 \<in> R \<Longrightarrow> 0 \<notin> owned bm k"
proof -
  note w = wst_okD [OF file_okD(4) [OF assms]] and f = file_okD [OF assms]
  show sub: "owned bm k \<subseteq> alloc_used bm al - R"
    using w(8,9) f(1,2) by (auto simp: owned_def file_blocks_def split: if_splits)
  then show "0 \<in> R \<Longrightarrow> 0 \<notin> owned bm k" by blast
qed

text \<open>A file is not affected by changes to blocks it does not own.\<close>

lemma file_frame:
  assumes ok: "file_ok bm al R k" and ch: "only_changes S bm bm'"
    and tab: "inode_table bm' k = inode_table bm k" and S: "owned bm k \<inter> S = {}"
    and al: "alloc_ok bm' al" and used: "owned bm k \<union> R \<subseteq> alloc_used bm' al"
  shows "file_ok bm' al R k" "file_ino bm' k = file_ino bm k" "owned bm' k = owned bm k"
    "file_content bm' k = file_content bm k"
proof -
  note f = file_okD [OF ok] and w = wst_okD [OF file_okD(4) [OF ok]] and c = only_changes_fields [OF ch]
  have dev: "in_dev bm i" if "i \<in> owned bm k" for i
    using that owned_used(1) [OF ok] alloc_used_dev [OF w(1)] by blast
  have blk: "blk bm' i = blk bm i" if "i \<in> owned bm k" for i
    using that dev S by (intro only_changes_blk [OF ch]) auto
  have t: "inode_table bm k \<in> owned bm k" by (simp add: owned_def)
  show ino: "file_ino bm' k = file_ino bm k" using blk [OF t] by (simp add: file_ino_def tab)
  have n: "file_n bm' k = file_n bm k" by (simp add: file_n_def ino c)
  have id: "ind_id (file_ino bm k) \<in> owned bm k" if "direct (file_ino bm k) < file_n bm k"
    using that by (simp add: owned_def)
  have v: "vblocks bm' (file_ino bm k) None (file_n bm k) = vblocks bm (file_ino bm k) None (file_n bm k)"
    using id dev S by (intro vblocks_frame [OF ch]) auto
  show o: "owned bm' k = owned bm k" by (simp add: owned_def file_blocks_def ino n v tab)
  have sub: "set (vblocks bm (file_ino bm k) None (file_n bm k)) \<subseteq> owned bm k"
    by (auto simp: owned_def file_blocks_def)
  then have m: "map (blk bm') (vblocks bm (file_ino bm k) None (file_n bm k)) =
      map (blk bm) (vblocks bm (file_ino bm k) None (file_n bm k))"
    using blk by (intro map_cong) auto
  show "file_content bm' k = file_content bm k"
    by (simp only: file_content_def content_of_def ino c(1) v [unfolded file_n_def] m [unfolded file_n_def])
  have "wst_ok al (insert (inode_table bm k) R) (file_n bm k) (bm', file_ino bm k, None)"
  proof (rule wst_okI)
    show "set (vblocks bm' (file_ino bm k) None (file_n bm k)) \<subseteq> alloc_used bm' al - insert (inode_table bm k) R"
      unfolding v using w(8) sub used by blast
    show "if direct (file_ino bm k) < file_n bm k
      then ind_id (file_ino bm k) \<in> alloc_used bm' al - insert (inode_table bm k) R -
        set (vblocks bm' (file_ino bm k) None (file_n bm k))
      else ind_id (file_ino bm k) = 0"
      unfolding v using w(9) id used by auto
    show "insert (inode_table bm k) R \<subseteq> alloc_used bm' al" using t used by auto
  qed (use w al c v in simp_all)
  with f t used show "file_ok bm' al R k"
    unfolding file_ok_def ino n tab using blk [OF t] by auto
qed

text \<open>Strengthening the set of foreign blocks.\<close>

lemma wst_ok_more:
  assumes st: "wst_ok al F n (bm, ino, ind)" and F: "F \<subseteq> G" "G \<subseteq> alloc_used bm al"
    and disj: "G \<inter> set (vblocks bm ino ind n) = {}" "direct ino < n \<Longrightarrow> ind_id ino \<notin> G"
  shows "wst_ok al G n (bm, ino, ind)"
proof -
  note w = wst_okD [OF st]
  show ?thesis
  proof (rule wst_okI)
    show "if direct ino < n then ind_id ino \<in> alloc_used bm al - G - set (vblocks bm ino ind n) else ind_id ino = 0"
      using w(9) disj(2) by auto
  qed (use w F disj in auto)
qed

text \<open>All blocks that belong to others than file \<open>k\<close>, and the block of its inode.\<close>

definition foreign :: "file_operation \<Rightarrow> nat \<Rightarrow> nat set" where
  "foreign fs k = insert (inode_table (fo_bm fs) k) (reserved (fo_al fs) \<union>
     (\<Union>j \<in> inode_used (fo_bm fs) (fo_im fs) - {k}. owned (fo_bm fs) j))"

lemma file_wst_ok:
  assumes ok: "fs_ok fs" and k: "k \<in> inode_used (fo_bm fs) (fo_im fs)"
  shows "wst_ok (fo_al fs) (foreign fs k) (file_n (fo_bm fs) k) (fo_bm fs, file_ino (fo_bm fs) k, None)"
proof -
  note f = fs_okD [OF ok] and fk = fs_okD(6) [OF ok k]
  have others: "owned (fo_bm fs) j \<subseteq> alloc_used (fo_bm fs) (fo_al fs)"
    if "j \<in> inode_used (fo_bm fs) (fo_im fs)" for j
    using owned_used(1) [OF f(6) [OF that]] by blast
  have disj: "(\<Union>j \<in> inode_used (fo_bm fs) (fo_im fs) - {k}. owned (fo_bm fs) j) \<inter> owned (fo_bm fs) k = {}"
    using f(7) k by blast
  have vb: "set (vblocks (fo_bm fs) (file_ino (fo_bm fs) k) None (file_n (fo_bm fs) k)) \<subseteq> owned (fo_bm fs) k"
    by (auto simp: owned_def file_blocks_def)
  note w = wst_okD [OF file_okD(4) [OF fk]]
  show ?thesis
  proof (rule wst_ok_more [OF file_okD(4) [OF fk]])
    show "foreign fs k \<subseteq> alloc_used (fo_bm fs) (fo_al fs)"
      using file_okD(1) [OF fk] f(5) others by (auto simp: foreign_def)
    show "foreign fs k \<inter> set (vblocks (fo_bm fs) (file_ino (fo_bm fs) k) None (file_n (fo_bm fs) k)) = {}"
      using w(8) disj vb by (auto simp: foreign_def)
    show "ind_id (file_ino (fo_bm fs) k) \<notin> foreign fs k" if "direct (file_ino (fo_bm fs) k) < file_n (fo_bm fs) k"
    proof -
      have "ind_id (file_ino (fo_bm fs) k) \<in> owned (fo_bm fs) k" using that by (simp add: owned_def)
      with w(9) that disj show ?thesis by (auto simp: foreign_def)
    qed
  qed (auto simp: foreign_def)
qed

section \<open>Writing back the inode\<close>

lemma ind_id_attr [simp]: "ind_id (ino\<lparr>i_attr := a\<rparr>) = ind_id ino"
  by (simp add: ind_id_def)

lemma eff_ind_attr [simp]: "eff_ind bm (ino\<lparr>i_attr := a\<rparr>) ind = eff_ind bm ino ind"
  by (simp add: eff_ind_def split: option.split)

lemma inode_attr_fields:
  "i_nblocks (ino\<lparr>i_attr := a\<rparr>) = i_nblocks ino" "i_blocks (ino\<lparr>i_attr := a\<rparr>) = i_blocks ino"
  by simp_all

lemma at_ind_id:
  "inode_ok sz ino \<Longrightarrow> at (i_blocks ino) (sub32 (i_nblocks ino) 1) = Some (ind_id ino)"
  using inode_ok_direct [of sz ino] by (simp add: ind_id_def)

lemma attr_update [simp]:
  "ind_id (ino\<lparr>i_attr := a\<rparr>) = ind_id ino"
  "eff_ind bm (ino\<lparr>i_attr := a\<rparr>) ind = eff_ind bm ino ind"
  "vblock bm (ino\<lparr>i_attr := a\<rparr>) ind i = vblock bm ino ind i"
  "vblocks bm (ino\<lparr>i_attr := a\<rparr>) ind n = vblocks bm ino ind n"
  "max_blocks sz (ino\<lparr>i_attr := a\<rparr>) = max_blocks sz ino"
  by (simp_all add: vblock_def vblocks_def max_blocks_def)

lemma inode_ok_attr: "inode_ok sz ino \<Longrightarrow> attr_ok a \<Longrightarrow> inode_ok sz (ino\<lparr>i_attr := a\<rparr>)"
  by (simp add: inode_ok_def inode_fits_def)

lemma wst_ok_attr: "wst_ok al F n (bm, ino, ind) \<Longrightarrow> attr_ok a \<Longrightarrow> wst_ok al F n (bm, ino\<lparr>i_attr := a\<rparr>, ind)"
  unfolding wst_ok_def prod.case attr_update inode_attr_fields using inode_ok_attr by blast

lemma write_back_ok:
  assumes st: "wst_ok al F n (bm, ino, ind)" and t: "t \<in> F" "t \<notin> bitmap_area al" and now: "now < 2 ^ 64"
  defines "ino' \<equiv> ino\<lparr>i_attr := set_all_time now (i_attr ino)\<rparr>"
  shows "\<exists>bm'. write_back now t (bm, ino, ind) = Some (KNullOk, bm') \<and>
    only_changes (insert t (if direct ino < n then {ind_id ino} else {})) bm bm' \<and>
    blk bm' t = encode_inode ino' \<and> vblocks bm' ino' None n = vblocks bm ino ind n \<and>
    alloc_used bm' al = alloc_used bm al \<and> wst_ok al F n (bm', ino', None)"
proof -
  note w = wst_okD [OF st]
  have "attr_ok (set_all_time now (i_attr ino))"
    using w(2) now by (simp add: inode_ok_def inode_fits_def attr_ok_def set_all_time_def)
  then have st': "wst_ok al F n (bm, ino', ind)" unfolding ino'_def by (rule wst_ok_attr [OF st])
  note w' = wst_okD [OF st']
  have nb: "i_nblocks ino' = i_nblocks ino" "ind_id ino' = ind_id ino" by (simp_all add: ino'_def)
  have len: "length (encode_inode ino') = bm_block_sz bm" by (rule length_encode_inode_ok [OF w'(2)])
  have dev: "in_dev bm t" using t(1) w(4) alloc_used_dev [OF w(1)] by blast
  let ?bm1 = "put_blk bm t (encode_inode ino')"
  have wr: "write_block bm t (encode_inode ino') = Some (KNullOk, ?bm1)"
    using alloc_okD [OF w(1)] dev len by (simp add: write_block_ok)
  have ch1: "only_changes {t} bm ?bm1" using dev len by (intro only_changes_put_blk) auto
  have td: "t \<notin> set (vblocks bm ino ind n)" "direct ino < n \<Longrightarrow> ind_id ino \<noteq> t"
    using w(8,9) t(1) by auto
  have "{t} \<inter> bitmap_area al = {}" using t(2) by simp
  note a1 = alloc_used_frame [OF w(1) ch1 this]
  have v1: "vblocks ?bm1 ino' ind n = vblocks bm ino' ind n"
    using w'(9) td nb alloc_used_dev [OF w(1)] by (intro vblocks_frame [OF ch1]) auto
  have vi: "vblocks bm ino' ind n = vblocks bm ino ind n" by (simp add: ino'_def)
  show ?thesis
  proof (cases ind)
    case None
    have "write_back now t (bm, ino, ind) = Some (KNullOk, ?bm1)"
      using wr None by (simp add: write_back_def ino'_def)
    moreover have "only_changes (insert t (if direct ino < n then {ind_id ino} else {})) bm ?bm1"
      using ch1 by (rule only_changes_mono) auto
    moreover have "blk ?bm1 t = encode_inode ino'" using dev len by (simp add: blk_put_blk)
    moreover have "wst_ok al F n (?bm1, ino', None)"
      using st' a1(1)
      unfolding None wst_ok_def prod.case a1(2) v1 [unfolded None] only_changes_fields [OF ch1] by blast
    ultimately show ?thesis using a1 t(2) v1 vi None by auto
  next
    case (Some b)
    then have b: "length b = bm_block_sz bm" "direct ino < n" using w(11) by auto
    then have id: "ind_id ino \<in> alloc_used bm al - F - set (vblocks bm ino ind n)" using w(9) by simp
    then have nz: "ind_id ino \<noteq> 0" and idev: "in_dev bm (ind_id ino)"
      using w(5) alloc_used_dev [OF w(1)] by (metis DiffE, blast)
    let ?bm2 = "put_blk ?bm1 (ind_id ino) b"
    have wi: "write_indirect_block ino' ?bm1 b = Some (KNullOk, ?bm2)"
      unfolding write_indirect_block_def at_ind_id [OF w'(2)] nb(2)
      using nz idev dev len b alloc_okD [OF w(1)] by (simp add: write_block_ok)
    have ch2: "only_changes {ind_id ino} ?bm1 ?bm2"
      using idev dev len b by (intro only_changes_put_blk) auto
    have "write_back now t (bm, ino, ind) = Some (KNullOk, ?bm2)"
      using wr wi Some by (simp add: write_back_def ino'_def)
    moreover have ch: "only_changes (insert t (if direct ino < n then {ind_id ino} else {})) bm ?bm2"
      using only_changes_trans [OF ch1 ch2] by (rule only_changes_mono) (use b in auto)
    moreover have "blk ?bm2 t = encode_inode ino'"
      using dev idev len b td by (simp add: blk_put_blk)
    moreover have bi: "blk ?bm2 (ind_id ino) = b" using dev idev len b by (simp add: blk_put_blk)
    moreover have v2: "vblocks ?bm2 ino' None n = vblocks bm ino ind n"
    proof -
      have "vblock ?bm2 ino' None i = vblock bm ino ind i" for i
        using bi Some by (simp add: vblock_def eff_ind_def nb ino'_def)
      then show ?thesis by (intro vblocks_cong)
    qed
    moreover have S: "insert t (if direct ino < n then {ind_id ino} else {}) \<inter> bitmap_area al = {}"
      using t(2) id w(6) by auto
    note a2 = alloc_used_frame [OF w(1) ch S]
    moreover have "wst_ok al F n (?bm2, ino', None)"
    proof (rule wst_okI)
      show "if direct ino' < n then ind_id ino' \<in> alloc_used ?bm2 al - F - set (vblocks ?bm2 ino' None n)
        else ind_id ino' = 0" unfolding v2 nb a2(2) using id b by simp
    qed (use w' a2 v2 vi only_changes_fields [OF ch] in simp_all)
    ultimately show ?thesis by blast
  qed
qed

section \<open>Writing a file\<close>

lemma ceil_div_le: "0 < b \<Longrightarrow> t \<le> c * b \<Longrightarrow> ceil_div t b \<le> c"
  using less_ceil_div [of b c t] by (meson leD leI)

lemma calculate_block_sz_ok: "0 < b \<Longrightarrow> t < 2 ^ 63 \<Longrightarrow> calculate_block_sz t b = ceil_div t b"
proof -
  assume b: "0 < b" and t: "t < 2 ^ 63"
  have "t div b + 1 \<le> 2 ^ 63" using t div_le_dividend [of t b] by linarith
  then have "u64 (t div b + 1) = t div b + 1" by (intro u64_id) (simp add: le_less_trans)
  then show ?thesis by (simp add: calculate_block_sz_def ceil_div_def)
qed

lemma file_chunk_alt:
  "file_chunk sz c i = take sz (drop (i * sz) (c @ replicate (i * sz + sz) 0))"
  by (cases "i * sz \<le> length c") (auto simp: file_chunk_def min_def)

lemma concat_chunks:
  "concat (map (file_chunk sz c) [0..<n]) = take (n * sz) (c @ replicate (n * sz) 0)"
proof (induction n)
  case (Suc n)
  have pre: "take (n * sz) (c @ replicate (n * sz) 0) = take (n * sz) (c @ replicate (n * sz + sz) 0)"
    by (auto simp: min_def)
  show ?case
    using Suc pre take_add [of "n * sz" sz "c @ replicate (n * sz + sz) 0"]
    by (simp add: file_chunk_alt add.commute)
qed simp

lemma take_concat_chunks:
  assumes "0 < sz"
  shows "take (length c) (concat (map (file_chunk sz c) [0..<ceil_div (length c) sz])) = c"
proof -
  have "length c \<le> ceil_div (length c) sz * sz"
    using ceil_div_pos [OF assms, of "length c"] by (cases "length c = 0") auto
  then show ?thesis by (simp add: concat_chunks)
qed

lemma max_file_sz_ok:
  assumes "inode_ok sz ino"
  shows "max_file_sz_supported ino = max_blocks sz ino * sz" "max_blocks sz ino * sz < 2 ^ 63"
proof -
  note d = inode_ok_direct [OF assms]
  have sz: "i_block_size ino = sz" "sz < 2 ^ 29" using assms by (simp_all add: inode_ok_def)
  have "max_blocks sz ino * sz \<le> 2 ^ 28 * 2 ^ 29" using d(4) sz by (intro mult_le_mono) auto
  then show m: "max_blocks sz ino * sz < 2 ^ 63" by simp
  have "max_blocks sz ino * sz = direct ino * sz + sz div 8 * sz"
    by (simp add: max_blocks_def add_mult_distrib)
  with m have "u64 (sz div 8 * sz) = sz div 8 * sz" "u64 (direct ino * sz) = direct ino * sz"
    "u64 (sz div 8 * sz + direct ino * sz) = max_blocks sz ino * sz" by (simp_all add: u64_def)
  then show "max_file_sz_supported ino = max_blocks sz ino * sz"
    unfolding max_file_sz_supported_def Let_def d(5) sz(1) by simp
qed

lemma read_file_inode:
  assumes ok: "fs_ok fs" and k: "k \<in> inode_used (fo_bm fs) (fo_im fs)"
    and lim: "Suc k < im_max_inode_supported (fo_im fs) - 1"
  shows "read_inode (fo_bm fs) (fo_im fs) (Suc k) (bm_block_sz (fo_bm fs)) =
      Some (Ok (inode_table (fo_bm fs) k, blk (fo_bm fs) (inode_table (fo_bm fs) k)))"
    "decode_inode (blk (fo_bm fs) (inode_table (fo_bm fs) k)) = Some (file_ino (fo_bm fs) k)"
proof -
  note f = fs_okD [OF ok] and fk = file_okD [OF fs_okD(6) [OF ok k]]
  have "inode_table (fo_bm fs) k \<noteq> 0"
    using fk(2) f(4) by (metis lessThan_iff reserved_def add_gr_0 zero_less_one)
  then show "read_inode (fo_bm fs) (fo_im fs) (Suc k) (bm_block_sz (fo_bm fs)) =
      Some (Ok (inode_table (fo_bm fs) k, blk (fo_bm fs) (inode_table (fo_bm fs) k)))"
    using f(1) lim alloc_used_dev [OF f(2) fk(1)] by (intro read_inode_ok) auto
  show "decode_inode (blk (fo_bm fs) (inode_table (fo_bm fs) k)) = Some (file_ino (fo_bm fs) k)" by (rule fk(3))
qed

lemma file_size_bound:
  assumes "wst_ok al F (ceil_div s (bm_block_sz bm)) (bm, ino, ind)"
  shows "s < 2 ^ 63" "u32 (calculate_block_sz s (bm_block_sz bm)) = ceil_div s (bm_block_sz bm)"
    "calculate_block_sz s (bm_block_sz bm) = ceil_div s (bm_block_sz bm)"
proof -
  note w = wst_okD [OF assms]
  have sz: "0 < bm_block_sz bm" using alloc_okD(3) [OF w(1)] .
  have "s \<le> ceil_div s (bm_block_sz bm) * bm_block_sz bm"
    using ceil_div_pos [OF sz, of s] by (cases "s = 0") auto
  also have "\<dots> \<le> max_blocks (bm_block_sz bm) ino * bm_block_sz bm" using w(3) by (rule mult_le_mono1)
  finally show s: "s < 2 ^ 63" using max_file_sz_ok(2) [OF w(2)] by linarith
  show c: "calculate_block_sz s (bm_block_sz bm) = ceil_div s (bm_block_sz bm)"
    using sz s by (rule calculate_block_sz_ok)
  have "ceil_div s (bm_block_sz bm) < 2 ^ 32" using w(3) inode_ok_direct(4) [OF w(2)] by simp
  then show "u32 (calculate_block_sz s (bm_block_sz bm)) = ceil_div s (bm_block_sz bm)"
    unfolding c by (rule u32_id)
qed

text \<open>
  What \<open>write_file\<close> does to the device: apart from the bitmap it changes only the block of
  the inode and blocks that belong to no other file.
\<close>

definition written :: "nat \<Rightarrow> file_operation \<Rightarrow> nat \<Rightarrow> byte list \<Rightarrow> block_manager \<Rightarrow> bool" where
  "written now fs k content bm' \<longleftrightarrow>
     (let t = inode_table (fo_bm fs) k; n = ceil_div (length content) (bm_block_sz bm')
      in \<exists>ino'. blk bm' t = encode_inode ino' \<and> i_type ino' = i_type (file_ino (fo_bm fs) k) \<and>
        i_attr ino' = \<lparr>atime = now, mtime = now, ctime = now, fsize = length content\<rparr> \<and>
        content_of bm' ino' None = content \<and> wst_ok (fo_al fs) (foreign fs k) n (bm', ino', None) \<and>
        only_changes (bitmap_area (fo_al fs) \<union> insert t (- foreign fs k)) (fo_bm fs) bm')"

lemma write_data_written:
  assumes ok: "fs_ok fs" and k: "k \<in> inode_used (fo_bm fs) (fo_im fs)" and now: "now < 2 ^ 64"
    and st: "wst_ok (fo_al fs) (foreign fs k) m (bm1, ino1, ind1)"
    and m: "m = ceil_div (length content) (bm_block_sz bm1)"
    and hd: "same_header (file_ino (fo_bm fs) k) ino1"
    and ch: "only_changes (bitmap_area (fo_al fs)) (fo_bm fs) bm1"
  shows "\<exists>bm3 ino3 ind3 bm4.
    write_data_loop (m + 1) content 0 0
      (bm1, ino1\<lparr>i_attr := (i_attr ino1)\<lparr>fsize := length content, mtime := now\<rparr>\<rparr>, ind1) =
      Some (KNullOk, (bm3, ino3, ind3)) \<and>
    write_back now (inode_table (fo_bm fs) k) (bm3, ino3, ind3) = Some (KNullOk, bm4) \<and>
    written now fs k content bm4"
proof -
  let ?F = "foreign fs k" and ?al = "fo_al fs" and ?t = "inode_table (fo_bm fs) k"
  let ?a = "(i_attr ino1)\<lparr>fsize := length content, mtime := now\<rparr>"
  let ?ino2 = "ino1\<lparr>i_attr := ?a\<rparr>"
  note w1 = wst_okD [OF st]
  have sz: "0 < bm_block_sz bm1" using alloc_okD(3) [OF w1(1)] .
  have "attr_ok ?a"
    using w1(2) now file_size_bound(1) [OF st [unfolded m]]
    by (simp add: inode_ok_def inode_fits_def attr_ok_def)
  then have st2: "wst_ok ?al ?F m (bm1, ?ino2, ind1)" by (rule wst_ok_attr [OF st])
  from write_data_loop_ok [OF m sz, of 0 m, OF _ st2 refl] obtain bm3 ind3 where
    d: "write_data_loop (Suc m) content 0 0 (bm1, ?ino2, ind1) = Some (KNullOk, (bm3, ?ino2, ind3))"
      "only_changes (set (vblocks bm1 ?ino2 ind1 m)) bm1 bm3" "wst_ok ?al ?F m (bm3, ?ino2, ind3)"
      "vblocks bm3 ?ino2 ind3 m = vblocks bm1 ?ino2 ind1 m"
      "\<And>j. j < m \<Longrightarrow> blk bm3 (vblock bm1 ?ino2 ind1 j) = file_chunk (bm_block_sz bm1) content j"
    by auto
  have t: "?t \<in> ?F" "?t \<notin> bitmap_area ?al"
    using file_okD(2) [OF fs_okD(6) [OF ok k]] reserved_areas(1) by (auto simp: foreign_def)
  let ?ino3 = "?ino2\<lparr>i_attr := set_all_time now (i_attr ?ino2)\<rparr>"
  from write_back_ok [OF d(3) t now] obtain bm4 where
    b: "write_back now ?t (bm3, ?ino2, ind3) = Some (KNullOk, bm4)"
      "only_changes (insert ?t (if direct ?ino2 < m then {ind_id ?ino2} else {})) bm3 bm4"
      "blk bm4 ?t = encode_inode ?ino3" "vblocks bm4 ?ino3 None m = vblocks bm3 ?ino2 ind3 m"
      "wst_ok ?al ?F m (bm4, ?ino3, None)"
    by blast
  note c1 = only_changes_fields [OF ch] and c3 = only_changes_fields [OF d(2)] and c4 = only_changes_fields [OF b(2)]
  note w3 = wst_okD [OF d(3)]
  have L: "set (vblocks bm1 ?ino2 ind1 m) \<subseteq> - ?F" using w1(8) by auto
  have ii: "(if direct ?ino2 < m then {ind_id ?ino2} else {}) \<subseteq> - ?F - set (vblocks bm3 ?ino2 ind3 m)"
    using w3(9) by auto
  have "only_changes (bitmap_area ?al \<union> (set (vblocks bm1 ?ino2 ind1 m) \<union>
      insert ?t (if direct ?ino2 < m then {ind_id ?ino2} else {}))) (fo_bm fs) bm4"
    by (rule only_changes_trans [OF ch only_changes_trans [OF d(2) b(2)]])
  then have chf: "only_changes (bitmap_area ?al \<union> insert ?t (- ?F)) (fo_bm fs) bm4"
    by (rule only_changes_mono) (use L ii in auto)
  have "blk bm4 (vblock bm1 ?ino2 ind1 j) = file_chunk (bm_block_sz bm1) content j" if j: "j < m" for j
  proof -
    have v: "vblock bm1 ?ino2 ind1 j \<in> set (vblocks bm3 ?ino2 ind3 m)" using j d(4) by (metis nth_mem nth_vblocks length_vblocks)
    then have "in_dev bm3 (vblock bm1 ?ino2 ind1 j)" "vblock bm1 ?ino2 ind1 j \<notin> ?F"
      using w3(8) alloc_used_dev [OF w3(1)] by auto
    then have "blk bm4 (vblock bm1 ?ino2 ind1 j) = blk bm3 (vblock bm1 ?ino2 ind1 j)"
      using v ii t(1) by (intro only_changes_blk [OF b(2)]) auto
    with d(5) [OF j] show ?thesis by simp
  qed
  then have "map (blk bm4) (vblocks bm1 ?ino2 ind1 m) = map (file_chunk (bm_block_sz bm1) content) [0..<m]"
    by (simp add: vblocks_def)
  then have "map (blk bm4) (vblocks bm4 ?ino3 None m) = map (file_chunk (bm_block_sz bm1) content) [0..<m]"
    unfolding trans [OF b(4) d(4)] .
  then have cont: "content_of bm4 ?ino3 None = content"
    using take_concat_chunks [OF sz, of content] m c3 c4
    by (simp add: content_of_def set_all_time_def)
  have "written now fs k content bm4"
    unfolding written_def Let_def
    using b(3,5) cont chf m c3 c4 same_header_fields [OF hd]
    by (intro exI [of _ ?ino3]) (simp add: set_all_time_def)
  with d(1) b(1) show ?thesis by auto
qed

lemma write_file_ok:
  assumes ok: "fs_ok fs" and k: "k \<in> inode_used (fo_bm fs) (fo_im fs)"
    and lim: "Suc k < im_max_inode_supported (fo_im fs) - 1" and now: "now < 2 ^ 64"
  shows "\<exists>r bm'. write_file now fs (Suc k) content = Some (r, fs\<lparr>fo_bm := bm'\<rparr>) \<and>
    (case r of
       Ok _ \<Rightarrow> written now fs k content bm'
     | Err e \<Rightarrow> e = OUT_OF_RESOURCE \<and> only_changes (bitmap_area (fo_al fs)) (fo_bm fs) bm' \<and>
         alloc_ok bm' (fo_al fs) \<and> alloc_used (fo_bm fs) (fo_al fs) \<subseteq> alloc_used bm' (fo_al fs) \<and>
         (max_file_sz_supported (file_ino (fo_bm fs) k) < length content \<or>
          alloc_used bm' (fo_al fs) = {..<bm_block_cnt (fo_bm fs)}))"
proof -
  let ?bm = "fo_bm fs" and ?al = "fo_al fs" and ?ino = "file_ino (fo_bm fs) k" and ?sz = "bm_block_sz (fo_bm fs)"
  note f = fs_okD [OF ok] and rd = read_file_inode [OF ok k lim] and st = file_wst_ok [OF ok k]
  note w = wst_okD [OF st]
  have sz: "0 < ?sz" using alloc_okD(3) [OF f(2)] .
  have old: "u32 (calculate_block_sz (fsize (i_attr ?ino)) ?sz) = file_n ?bm k"
    using file_size_bound(2) [OF st [unfolded file_n_def]] by (simp add: file_n_def)
  show ?thesis
  proof (cases "max_file_sz_supported ?ino < length content")
    case True
    have "write_file now fs (Suc k) content = Some (Err OUT_OF_RESOURCE, fs\<lparr>fo_bm := ?bm\<rparr>)"
      using rd True by (simp add: write_file_def)
    then show ?thesis
      using True f(2) by (intro exI [of _ "Err OUT_OF_RESOURCE"] exI [of _ ?bm]) simp
  next
    case False
    let ?m = "ceil_div (length content) ?sz"
    have len: "length content \<le> max_blocks ?sz ?ino * ?sz" "length content < 2 ^ 63"
      using False max_file_sz_ok [OF w(2)] by auto
    then have m: "?m \<le> max_blocks ?sz ?ino" using sz by (intro ceil_div_le)
    then have "?m < 2 ^ 32" using inode_ok_direct(4) [OF w(2)] by simp
    then have new: "u32 (calculate_block_sz (length content) ?sz) = ?m"
      using calculate_block_sz_ok [OF sz len(2)] by (simp add: u32_def)
    from adjust_blocks_ok [OF st m] obtain r bm1 ino1 ind1 where
      a: "adjust_blocks ?al (file_n ?bm k) ?m (?bm, ?ino, None) = Some (r, (bm1, ino1, ind1))"
        "only_changes (bitmap_area ?al) ?bm bm1"
      and ac: "case r of
         Err e \<Rightarrow> e = OUT_OF_RESOURCE \<and> file_n ?bm k < ?m \<and> alloc_ok bm1 ?al \<and>
           alloc_used ?bm ?al \<subseteq> alloc_used bm1 ?al \<and> alloc_used bm1 ?al = {..<bm_block_cnt ?bm}
       | Ok _ \<Rightarrow> wst_ok ?al (foreign fs k) ?m (bm1, ino1, ind1) \<and> same_header ?ino ino1"
      by blast
    show ?thesis
    proof (cases r)
      case (Err e)
      have "write_file now fs (Suc k) content = Some (Err e, fs\<lparr>fo_bm := bm1\<rparr>)"
        using rd False a(1) Err by (simp add: write_file_def Let_def old new)
      with ac a(2) Err show ?thesis by auto
    next
      case (Ok u)
      with ac have s1: "wst_ok ?al (foreign fs k) ?m (bm1, ino1, ind1)" "same_header ?ino ino1" by simp_all
      have "?m = ceil_div (length content) (bm_block_sz bm1)" using only_changes_fields [OF a(2)] by simp
      from write_data_written [OF ok k now s1(1) this s1(2) a(2)] obtain bm3 ino3 ind3 bm4 where
        d: "write_data_loop (?m + 1) content 0 0
            (bm1, ino1\<lparr>i_attr := (i_attr ino1)\<lparr>fsize := length content, mtime := now\<rparr>\<rparr>, ind1) =
            Some (KNullOk, (bm3, ino3, ind3))"
          "write_back now (inode_table ?bm k) (bm3, ino3, ind3) = Some (KNullOk, bm4)"
          "written now fs k content bm4" by blast
      have "write_file now fs (Suc k) content = Some (KNullOk, fs\<lparr>fo_bm := bm4\<rparr>)"
        using rd False a(1) Ok d(1,2)
        by (simp add: write_file_def Let_def old new del: write_data_loop.simps)
      with d(3) show ?thesis by auto
    qed
  qed
qed

text \<open>What the file system looks like after either outcome.\<close>

lemma inode_area_frame:
  assumes ok: "im_ok bm im" and ch: "only_changes S bm bm'" and S: "S \<inter> inode_area im = {}"
  shows "inode_used bm' im = inode_used bm im"
    "j < im_max_inode_supported im \<Longrightarrow> inode_table bm' j = inode_table bm j"
  using S by (auto intro!: inode_used_frame [OF ok ch] inode_table_frame [OF ok ch] simp: inode_area_def)

lemma fs_ok_step:
  assumes ok: "fs_ok fs" and al: "alloc_ok bm' (fo_al fs)" and ch: "only_changes S (fo_bm fs) bm'"
    and S: "S \<inter> inode_area (fo_im fs) = {}"
    and used: "reserved (fo_al fs) \<subseteq> alloc_used bm' (fo_al fs)"
    and files: "\<And>j. j \<in> inode_used (fo_bm fs) (fo_im fs) \<Longrightarrow> file_ok bm' (fo_al fs) (reserved (fo_al fs)) j"
    and disj: "\<And>i j. i \<in> inode_used (fo_bm fs) (fo_im fs) \<Longrightarrow> j \<in> inode_used (fo_bm fs) (fo_im fs) \<Longrightarrow>
      i \<noteq> j \<Longrightarrow> owned bm' i \<inter> owned bm' j = {}"
  shows "fs_ok (fs\<lparr>fo_bm := bm'\<rparr>)"
  using fs_okD [OF ok] im_ok_frame [OF fs_okD(1) [OF ok] ch] al used files disj
    only_changes_fields(1) [OF ch] inode_area_frame(1) [OF fs_okD(1) [OF ok] ch S]
  unfolding fs_ok_def by (simp add: Ball_def)

lemma wst_ok_less:
  assumes st: "wst_ok al F n (bm, ino, ind)" and G: "G \<subseteq> F" "0 \<in> G" "bitmap_area al \<subseteq> G"
  shows "wst_ok al G n (bm, ino, ind)"
  using wst_okD [OF st] G by (intro wst_okI) auto

lemma foreign_facts:
  assumes ok: "fs_ok fs" and k: "k \<in> inode_used (fo_bm fs) (fo_im fs)"
  shows "reserved (fo_al fs) \<subseteq> foreign fs k" "inode_table (fo_bm fs) k \<in> foreign fs k"
    "inode_table (fo_bm fs) k \<notin> reserved (fo_al fs)" "0 \<in> reserved (fo_al fs)"
    "j \<in> inode_used (fo_bm fs) (fo_im fs) \<Longrightarrow> j \<noteq> k \<Longrightarrow> owned (fo_bm fs) j \<subseteq> foreign fs k"
    "j \<in> inode_used (fo_bm fs) (fo_im fs) \<Longrightarrow> j \<noteq> k \<Longrightarrow> inode_table (fo_bm fs) k \<notin> owned (fo_bm fs) j"
    "j \<in> inode_used (fo_bm fs) (fo_im fs) \<Longrightarrow> owned (fo_bm fs) j \<inter> reserved (fo_al fs) = {}"
    "inode_area (fo_im fs) \<subseteq> reserved (fo_al fs)" "inode_area (fo_im fs) \<inter> bitmap_area (fo_al fs) = {}"
    "bitmap_area (fo_al fs) \<subseteq> reserved (fo_al fs)"
proof -
  note f = fs_okD [OF ok]
  show "reserved (fo_al fs) \<subseteq> foreign fs k" "inode_table (fo_bm fs) k \<in> foreign fs k"
    by (auto simp: foreign_def)
  show "inode_table (fo_bm fs) k \<notin> reserved (fo_al fs)" by (rule file_okD(2) [OF f(6) [OF k]])
  show "0 \<in> reserved (fo_al fs)" using f(4) by (simp add: reserved_def)
  show "j \<in> inode_used (fo_bm fs) (fo_im fs) \<Longrightarrow> j \<noteq> k \<Longrightarrow> owned (fo_bm fs) j \<subseteq> foreign fs k"
    by (auto simp: foreign_def)
  show "inode_table (fo_bm fs) k \<notin> owned (fo_bm fs) j"
    if "j \<in> inode_used (fo_bm fs) (fo_im fs)" "j \<noteq> k"
    using f(7) [OF that(1) k that(2)] by (auto simp: owned_def [of _ k])
  show "j \<in> inode_used (fo_bm fs) (fo_im fs) \<Longrightarrow> owned (fo_bm fs) j \<inter> reserved (fo_al fs) = {}"
    using owned_used(1) [OF f(6)] by blast
  show "inode_area (fo_im fs) \<subseteq> reserved (fo_al fs)" "inode_area (fo_im fs) \<inter> bitmap_area (fo_al fs) = {}"
    "bitmap_area (fo_al fs) \<subseteq> reserved (fo_al fs)"
    using reserved_areas f(4) by blast+
qed

lemma written_fs_ok:
  assumes ok: "fs_ok fs" and k: "k \<in> inode_used (fo_bm fs) (fo_im fs)"
    and wr: "written now fs k content bm'"
  shows "fs_ok (fs\<lparr>fo_bm := bm'\<rparr>)" "inode_used bm' (fo_im fs) = inode_used (fo_bm fs) (fo_im fs)"
    "file_content bm' k = content"
    "i_attr (file_ino bm' k) = \<lparr>atime = now, mtime = now, ctime = now, fsize = length content\<rparr>"
    "i_type (file_ino bm' k) = i_type (file_ino (fo_bm fs) k)"
    "j \<in> inode_used (fo_bm fs) (fo_im fs) \<Longrightarrow> j \<noteq> k \<Longrightarrow>
      file_content bm' j = file_content (fo_bm fs) j \<and> file_ino bm' j = file_ino (fo_bm fs) j"
proof -
  let ?bm = "fo_bm fs" and ?al = "fo_al fs" and ?im = "fo_im fs" and ?t = "inode_table (fo_bm fs) k"
    and ?R = "reserved (fo_al fs)" and ?F = "foreign fs k"
  let ?S = "bitmap_area ?al \<union> insert ?t (- ?F)" and ?n = "ceil_div (length content) (bm_block_sz bm')"
  from wr obtain ino where i: "blk bm' ?t = encode_inode ino" "i_type ino = i_type (file_ino ?bm k)"
      "i_attr ino = \<lparr>atime = now, mtime = now, ctime = now, fsize = length content\<rparr>"
      "content_of bm' ino None = content" "wst_ok ?al ?F ?n (bm', ino, None)" "only_changes ?S ?bm bm'"
    unfolding written_def Let_def by blast
  note f = fs_okD [OF ok] and ff = foreign_facts [OF ok k] and w = wst_okD [OF i(5)]
  have S: "?S \<inter> inode_area ?im = {}" using ff(1,3,8,9) by auto
  note fr = inode_area_frame [OF f(1) i(6) S]
  show used: "inode_used bm' ?im = inode_used ?bm ?im" by (rule fr(1))
  have lim: "j < im_max_inode_supported ?im" if "j \<in> inode_used ?bm ?im" for j using that by (simp add: inode_used_def)
  have tab: "inode_table bm' j = inode_table ?bm j" if "j \<in> inode_used ?bm ?im" for j
    using fr(2) lim [OF that] by blast
  have R: "?R \<subseteq> alloc_used bm' ?al" using w(4) ff(1) by blast
  have others: "file_ok bm' ?al ?R j" "file_ino bm' j = file_ino ?bm j" "owned bm' j = owned ?bm j"
    "file_content bm' j = file_content ?bm j" if j: "j \<in> inode_used ?bm ?im" "j \<noteq> k" for j
  proof -
    have "owned ?bm j \<inter> ?S = {}" using ff(5-7,10) j by blast
    moreover have "owned ?bm j \<union> ?R \<subseteq> alloc_used bm' ?al" using ff(5) [OF j] w(4) R by blast
    ultimately show "file_ok bm' ?al ?R j" "file_ino bm' j = file_ino ?bm j" "owned bm' j = owned ?bm j"
      "file_content bm' j = file_content ?bm j"
      using file_frame [OF f(6) [OF j(1)] i(6) tab [OF j(1)] _ w(1)] by blast+
  qed
  then show "j \<in> inode_used ?bm ?im \<Longrightarrow> j \<noteq> k \<Longrightarrow>
      file_content bm' j = file_content ?bm j \<and> file_ino bm' j = file_ino ?bm j" by blast
  have fits: "inode_fits ino" using w(2) by (simp add: inode_ok_def)
  have ino: "file_ino bm' k = ino" using i(1) decode_encode_inode [OF fits] by (simp add: file_ino_def tab [OF k])
  have n: "file_n bm' k = ?n" by (simp add: file_n_def ino i(3))
  show "file_content bm' k = content" using i(4) by (simp add: file_content_def ino)
  show "i_attr (file_ino bm' k) = \<lparr>atime = now, mtime = now, ctime = now, fsize = length content\<rparr>"
    "i_type (file_ino bm' k) = i_type (file_ino ?bm k)" using i(2,3) ino by simp_all
  have okk: "file_ok bm' ?al ?R k"
    unfolding file_ok_def ino n tab [OF k]
    using i(1) decode_encode_inode [OF fits] w(4) ff(1-4,10)
    by (auto intro!: wst_ok_less [OF i(5)])
  have "owned bm' k \<subseteq> insert ?t (- ?F)"
    using w(8,9) by (auto simp: owned_def file_blocks_def ino n tab [OF k])
  then have dk: "owned bm' k \<inter> owned ?bm j = {}" if "j \<in> inode_used ?bm ?im" "j \<noteq> k" for j
    using ff(5,6) [OF that] by blast
  show "fs_ok (fs\<lparr>fo_bm := bm'\<rparr>)"
  proof (rule fs_ok_step [OF ok w(1) i(6) S R])
    show "file_ok bm' ?al ?R j" if "j \<in> inode_used ?bm ?im" for j
      using okk others(1) that by (cases "j = k") auto
    show "owned bm' a \<inter> owned bm' b = {}" if "a \<in> inode_used ?bm ?im" "b \<in> inode_used ?bm ?im" "a \<noteq> b" for a b
      using that dk others(3) f(7) [OF that] by (cases "a = k"; cases "b = k") auto
  qed
qed

lemma bitmap_growth:
  assumes ok: "fs_ok fs" and ch: "only_changes (bitmap_area (fo_al fs)) (fo_bm fs) bm'"
    and al: "alloc_ok bm' (fo_al fs)" and used: "alloc_used (fo_bm fs) (fo_al fs) \<subseteq> alloc_used bm' (fo_al fs)"
  shows "fs_ok (fs\<lparr>fo_bm := bm'\<rparr>)" "inode_used bm' (fo_im fs) = inode_used (fo_bm fs) (fo_im fs)"
    "j \<in> inode_used (fo_bm fs) (fo_im fs) \<Longrightarrow>
      file_content bm' j = file_content (fo_bm fs) j \<and> file_ino bm' j = file_ino (fo_bm fs) j \<and>
      owned bm' j = owned (fo_bm fs) j"
proof -
  let ?bm = "fo_bm fs" and ?al = "fo_al fs" and ?im = "fo_im fs" and ?R = "reserved (fo_al fs)"
  note f = fs_okD [OF ok] and areas = reserved_areas [of ?al]
  have S: "bitmap_area ?al \<inter> inode_area ?im = {}" using areas(3) f(4) by blast
  note fr = inode_area_frame [OF f(1) ch S]
  show iu: "inode_used bm' ?im = inode_used ?bm ?im" by (rule fr(1))
  have tab: "inode_table bm' j = inode_table ?bm j" if "j \<in> inode_used ?bm ?im" for j
    using fr(2) that by (simp add: inode_used_def)
  have files: "file_ok bm' ?al ?R j" "file_ino bm' j = file_ino ?bm j" "owned bm' j = owned ?bm j"
    "file_content bm' j = file_content ?bm j" if j: "j \<in> inode_used ?bm ?im" for j
  proof -
    note o = owned_used(1) [OF f(6) [OF j]]
    have "owned ?bm j \<inter> bitmap_area ?al = {}" using o areas(1) by blast
    moreover have "owned ?bm j \<union> ?R \<subseteq> alloc_used bm' ?al" using o f(5) used by blast
    ultimately show "file_ok bm' ?al ?R j" "file_ino bm' j = file_ino ?bm j" "owned bm' j = owned ?bm j"
      "file_content bm' j = file_content ?bm j"
      using file_frame [OF f(6) [OF j] ch tab [OF j] _ al] by blast+
  qed
  then show "j \<in> inode_used ?bm ?im \<Longrightarrow>
      file_content bm' j = file_content ?bm j \<and> file_ino bm' j = file_ino ?bm j \<and> owned bm' j = owned ?bm j"
    by blast
  show "fs_ok (fs\<lparr>fo_bm := bm'\<rparr>)"
  proof (rule fs_ok_step [OF ok al ch S])
    show "?R \<subseteq> alloc_used bm' ?al" using f(5) used by blast
    show "owned bm' a \<inter> owned bm' b = {}" if "a \<in> inode_used ?bm ?im" "b \<in> inode_used ?bm ?im" "a \<noteq> b" for a b
      using that files(3) f(7) [OF that] by auto
  qed (rule files(1))
qed

lemma read_file_ok:
  assumes ok: "fs_ok fs" and k: "k \<in> inode_used (fo_bm fs) (fo_im fs)"
    and lim: "Suc k < im_max_inode_supported (fo_im fs) - 1"
  shows "read_file fs (Suc k) = Some (Ok (file_content (fo_bm fs) k))"
proof -
  let ?bm = "fo_bm fs" and ?ino = "file_ino (fo_bm fs) k"
  note rd = read_file_inode [OF ok k lim] and st = file_wst_ok [OF ok k]
  have "calculate_block_sz (fsize (i_attr ?ino)) (bm_block_sz ?bm) = file_n ?bm k"
    using file_size_bound(3) [OF st [unfolded file_n_def]] by (simp add: file_n_def)
  moreover have "read_data_loop (Suc (file_n ?bm k)) ?bm ?ino
      (min (0 * bm_block_sz ?bm) (fsize (i_attr ?ino))) None [] =
    Some (Ok ([] @ take (fsize (i_attr ?ino) - 0 * bm_block_sz ?bm)
      (concat (map (blk ?bm) (drop 0 (vblocks ?bm ?ino None (file_n ?bm k)))))))"
    by (rule read_data_loop_ok [OF file_n_def _ st]) simp
  ultimately show ?thesis
    using rd
    by (simp add: read_file_def Let_def file_content_def content_of_def file_n_def
        del: read_data_loop.simps)
qed

lemma length_file_content:
  assumes ok: "fs_ok fs" and k: "k \<in> inode_used (fo_bm fs) (fo_im fs)"
  shows "length (file_content (fo_bm fs) k) = fsize (i_attr (file_ino (fo_bm fs) k))"
    "length (file_content (fo_bm fs) k) < 2 ^ 63"
proof -
  let ?bm = "fo_bm fs" and ?ino = "file_ino (fo_bm fs) k"
  note st = file_wst_ok [OF ok k] and w = wst_okD [OF file_wst_ok [OF ok k]]
  have sz: "0 < bm_block_sz ?bm" using alloc_okD(3) [OF w(1)] .
  have "length (concat (map (blk ?bm) (vblocks ?bm ?ino None (file_n ?bm k)))) = file_n ?bm k * bm_block_sz ?bm"
    using w(8) alloc_used_dev [OF w(1)] by (subst length_concat_blocks) auto
  moreover have "fsize (i_attr ?ino) \<le> file_n ?bm k * bm_block_sz ?bm"
    unfolding file_n_def using ceil_div_pos [OF sz] by (cases "fsize (i_attr ?ino) = 0") auto
  ultimately show l: "length (file_content ?bm k) = fsize (i_attr ?ino)"
    by (simp add: file_content_def content_of_def file_n_def)
  show "length (file_content ?bm k) < 2 ^ 63"
    unfolding l using file_size_bound(1) [OF st [unfolded file_n_def]] .
qed

section \<open>The file system as a map from inode numbers to contents\<close>

definition file_map :: "file_operation \<Rightarrow> nat \<Rightarrow> byte list option" where
  "file_map fs inode_id =
     (if 1 \<le> inode_id \<and> inode_id - 1 \<in> inode_used (fo_bm fs) (fo_im fs)
      then Some (file_content (fo_bm fs) (inode_id - 1)) else None)"

text \<open>The inode numbers that \<open>read_inode\<close> accepts and that have a file.\<close>

definition usable :: "file_operation \<Rightarrow> nat \<Rightarrow> bool" where
  "usable fs inode_id \<longleftrightarrow> inode_id \<in> dom (file_map fs) \<and> inode_id < im_max_inode_supported (fo_im fs) - 1"

lemma usable_raw:
  assumes "usable fs inode_id"
  obtains k where "inode_id = Suc k" "k \<in> inode_used (fo_bm fs) (fo_im fs)"
    "Suc k < im_max_inode_supported (fo_im fs) - 1" "file_map fs inode_id = Some (file_content (fo_bm fs) k)"
  using assms by (cases inode_id) (auto simp: usable_def file_map_def split: if_splits)

lemma file_map_cong:
  assumes "inode_used bm' (fo_im fs) = inode_used (fo_bm fs) (fo_im fs)"
    and "\<And>j. j \<in> inode_used (fo_bm fs) (fo_im fs) \<Longrightarrow> j \<noteq> k \<Longrightarrow>
      file_content bm' j = file_content (fo_bm fs) j"
    and "k \<in> inode_used (fo_bm fs) (fo_im fs)"
  shows "file_map (fs\<lparr>fo_bm := bm'\<rparr>) = (file_map fs)(Suc k \<mapsto> file_content bm' k)"
proof
  fix j
  show "file_map (fs\<lparr>fo_bm := bm'\<rparr>) j = ((file_map fs)(Suc k \<mapsto> file_content bm' k)) j"
    using assms by (cases j) (auto simp: file_map_def)
qed

lemma file_map_same:
  assumes "inode_used bm' (fo_im fs) = inode_used (fo_bm fs) (fo_im fs)"
    and "\<And>j. j \<in> inode_used (fo_bm fs) (fo_im fs) \<Longrightarrow> file_content bm' j = file_content (fo_bm fs) j"
  shows "file_map (fs\<lparr>fo_bm := bm'\<rparr>) = file_map fs"
  using assms by (intro ext) (auto simp: file_map_def)

text \<open>The outcome of a write: the new map, or an error that leaves the map alone.\<close>

definition no_room :: "file_operation \<Rightarrow> nat \<Rightarrow> nat \<Rightarrow> file_operation \<Rightarrow> bool" where
  "no_room fs inode_id len fs' \<longleftrightarrow>
     max_file_sz_supported (file_ino (fo_bm fs) (inode_id - 1)) < len \<or> get_free_blocks_num fs' = Some (Ok 0)"

lemma write_file_map:
  assumes ok: "fs_ok fs" and u: "usable fs inode_id" and now: "now < 2 ^ 64"
  shows "\<exists>r fs'. write_file now fs inode_id content = Some (r, fs') \<and> fs_ok fs' \<and> fo_im fs' = fo_im fs \<and>
    (case r of
       Ok _ \<Rightarrow> file_map fs' = (file_map fs)(inode_id \<mapsto> content)
     | Err e \<Rightarrow> e = OUT_OF_RESOURCE \<and> file_map fs' = file_map fs \<and> no_room fs inode_id (length content) fs')"
proof -
  obtain k where k: "inode_id = Suc k" "k \<in> inode_used (fo_bm fs) (fo_im fs)"
    "Suc k < im_max_inode_supported (fo_im fs) - 1" using u by (rule usable_raw)
  from write_file_ok [OF ok k(2,3) now, of content] obtain r bm' where
    w: "write_file now fs (Suc k) content = Some (r, fs\<lparr>fo_bm := bm'\<rparr>)"
    and wc: "case r of
       Ok _ \<Rightarrow> written now fs k content bm'
     | Err e \<Rightarrow> e = OUT_OF_RESOURCE \<and> only_changes (bitmap_area (fo_al fs)) (fo_bm fs) bm' \<and>
         alloc_ok bm' (fo_al fs) \<and> alloc_used (fo_bm fs) (fo_al fs) \<subseteq> alloc_used bm' (fo_al fs) \<and>
         (max_file_sz_supported (file_ino (fo_bm fs) k) < length content \<or>
          alloc_used bm' (fo_al fs) = {..<bm_block_cnt (fo_bm fs)})" by blast
  show ?thesis
  proof (cases r)
    case (Ok x)
    then have "written now fs k content bm'" using wc by simp
    note wf = written_fs_ok [OF ok k(2) this]
    have "file_map (fs\<lparr>fo_bm := bm'\<rparr>) = (file_map fs)(Suc k \<mapsto> file_content bm' k)"
      using wf(2,6) k(2) by (intro file_map_cong) auto
    with w wf(1,3) Ok k(1) show ?thesis by auto
  next
    case (Err e)
    with wc have e: "e = OUT_OF_RESOURCE" "only_changes (bitmap_area (fo_al fs)) (fo_bm fs) bm'"
      "alloc_ok bm' (fo_al fs)" "alloc_used (fo_bm fs) (fo_al fs) \<subseteq> alloc_used bm' (fo_al fs)"
      "max_file_sz_supported (file_ino (fo_bm fs) k) < length content \<or>
          alloc_used bm' (fo_al fs) = {..<bm_block_cnt (fo_bm fs)}" by simp_all
    note g = bitmap_growth [OF ok e(2-4)]
    have "file_map (fs\<lparr>fo_bm := bm'\<rparr>) = file_map fs"
      using g(2,3) by (intro file_map_same) auto
    moreover have "no_room fs inode_id (length content) (fs\<lparr>fo_bm := bm'\<rparr>)"
      using e(5) free_block_cnt_ok [OF e(3)] only_changes_fields(2) [OF e(2)] k(1)
      by (auto simp: no_room_def get_free_blocks_num_def)
    ultimately show ?thesis using w g(1) Err e(1) k(1) by auto
  qed
qed

lemma read_file_map:
  assumes ok: "fs_ok fs" and u: "usable fs inode_id"
  shows "read_file fs inode_id = Some (Ok (the (file_map fs inode_id)))"
proof -
  obtain k where "inode_id = Suc k" "k \<in> inode_used (fo_bm fs) (fo_im fs)"
    "Suc k < im_max_inode_supported (fo_im fs) - 1" "file_map fs inode_id = Some (file_content (fo_bm fs) k)"
    using u by (rule usable_raw)
  with read_file_ok [OF ok] show ?thesis by simp
qed

section \<open>Interface: a store of files\<close>

text \<open>
  What the layers above rely on: reading returns the contents, writing replaces them or
  fails without an effect on the contents of any file. Partial writes, \<open>resize\<close> and the
  directory operations are read-modify-write sequences over it.
\<close>

locale file_store =
  fixes ok :: "'s \<Rightarrow> bool"
    and files :: "'s \<Rightarrow> nat \<Rightarrow> byte list option"
    and may_use :: "'s \<Rightarrow> nat \<Rightarrow> bool"
    and rd :: "'s \<Rightarrow> nat \<Rightarrow> byte list chfs_result option"
    and wr :: "'s \<Rightarrow> nat \<Rightarrow> byte list \<Rightarrow> (null_result \<times> 's) option"
    and full :: "'s \<Rightarrow> nat \<Rightarrow> nat \<Rightarrow> 's \<Rightarrow> bool"
  assumes read_law: "ok s \<Longrightarrow> may_use s i \<Longrightarrow> rd s i = Some (Ok (the (files s i)))"
    and write_law: "ok s \<Longrightarrow> may_use s i \<Longrightarrow>
      \<exists>r s'. wr s i c = Some (r, s') \<and> ok s' \<and> (\<forall>j. may_use s' j = may_use s j) \<and>
        (case r of
           Ok _ \<Rightarrow> files s' = (files s)(i \<mapsto> c)
         | Err e \<Rightarrow> e = OUT_OF_RESOURCE \<and> files s' = files s \<and> full s i (length c) s')"
begin

definition rmw :: "(byte list \<Rightarrow> byte list) \<Rightarrow> 's \<Rightarrow> nat \<Rightarrow> (null_result \<times> 's) option" where
  "rmw g s i = do {
     res \<leftarrow> rd s i;
     case res of
       Err e \<Rightarrow> Some (Err e, s)
     | Ok c \<Rightarrow> wr s i (g c)
   }"

lemma read_after_write:
  assumes "ok s" "may_use s i" "may_use s j" "wr s i c = Some (Ok u, s')"
  shows "rd s' j = Some (Ok (if j = i then c else the (files s j)))" "ok s'"
  using write_law [OF assms(1,2), of c] read_law [of s' j] assms by auto

lemma read_after_failed_write:
  assumes "ok s" "may_use s i" "may_use s j" "wr s i c = Some (Err e, s')"
  shows "rd s' j = rd s j" "ok s'"
  using write_law [OF assms(1,2), of c] read_law [of s' j] read_law [of s j] assms by auto

lemma rmw_law:
  assumes "ok s" "may_use s i"
  shows "\<exists>r s'. rmw g s i = Some (r, s') \<and> ok s' \<and> (\<forall>j. may_use s' j = may_use s j) \<and>
    (case r of
       Ok _ \<Rightarrow> files s' = (files s)(i \<mapsto> g (the (files s i)))
     | Err e \<Rightarrow> e = OUT_OF_RESOURCE \<and> files s' = files s \<and> full s i (length (g (the (files s i)))) s')"
  using write_law [OF assms, of "g (the (files s i))"] read_law [OF assms] by (simp add: rmw_def)

end

lemma usable_write:
  "fo_im fs' = fo_im fs \<Longrightarrow> usable fs inode_id \<Longrightarrow>
   file_map fs' = file_map fs \<or> file_map fs' = (file_map fs)(inode_id \<mapsto> c) \<Longrightarrow> usable fs' j = usable fs j"
  by (auto simp: usable_def split: if_splits)

interpretation fstore: file_store "\<lambda>fs. fs_ok fs \<and> now < 2 ^ 64" file_map usable read_file "write_file now" no_room
proof unfold_locales
  fix fs i c
  assume ok: "fs_ok fs \<and> now < 2 ^ 64" and u: "usable fs i"
  then show "read_file fs i = Some (Ok (the (file_map fs i)))" by (simp add: read_file_map)
  from ok u write_file_map [of fs i now c] obtain r fs' where
    w: "write_file now fs i c = Some (r, fs')" "fs_ok fs'" "fo_im fs' = fo_im fs"
      "case r of
         Ok _ \<Rightarrow> file_map fs' = (file_map fs)(i \<mapsto> c)
       | Err e \<Rightarrow> e = OUT_OF_RESOURCE \<and> file_map fs' = file_map fs \<and> no_room fs i (length c) fs'"
    by blast
  have "usable fs' j = usable fs j" for j
    using w(4) by (intro usable_write [OF w(3) u, of c]) (auto split: chfs_result.splits)
  with w ok show "\<exists>r s'. write_file now fs i c = Some (r, s') \<and> (fs_ok s' \<and> now < 2 ^ 64) \<and>
      (\<forall>j. usable s' j = usable fs j) \<and>
      (case r of
         Ok _ \<Rightarrow> file_map s' = (file_map fs)(i \<mapsto> c)
       | Err e \<Rightarrow> e = OUT_OF_RESOURCE \<and> file_map s' = file_map fs \<and> no_room fs i (length c) s')"
    by blast
qed

section \<open>Partial writes and resizing\<close>

definition overwrite :: "byte list \<Rightarrow> nat \<Rightarrow> byte list \<Rightarrow> byte list" where
  "overwrite c offset data =
     patch (if length c < offset + length data then vec_resize c (offset + length data) else c) offset data"

lemma length_vec_resize [simp]: "length (vec_resize c n) = n"
  by (simp add: vec_resize_def)

lemma write_file_w_off_rmw:
  assumes "fs_ok fs" "now < 2 ^ 64" "usable fs i" "offset + length data < 2 ^ 64"
  shows "write_file_w_off now fs i data offset =
    map_option (\<lambda>(r, fs'). (case r of Ok _ \<Rightarrow> Ok (length data) | Err e \<Rightarrow> Err e, fs'))
      (fstore.rmw now (\<lambda>c. overwrite c offset data) fs i)"
proof -
  let ?c = "the (file_map fs i)"
  have u: "u64 (offset + length data) = offset + length data" using assms(4) by (simp add: u64_def)
  have rd: "read_file fs i = Some (Ok ?c)" using assms by (simp add: read_file_map)
  have "offset + length data \<le>
      length (if length ?c < offset + length data then vec_resize ?c (offset + length data) else ?c)" by simp
  then have pk: "poke (if length ?c < offset + length data then vec_resize ?c (offset + length data) else ?c)
      offset data = Some (overwrite ?c offset data)"
    unfolding overwrite_def by (rule poke_simps)
  obtain r fs' where w: "write_file now fs i (overwrite ?c offset data) = Some (r, fs')"
    using write_file_map [OF assms(1,3,2)] by blast
  show ?thesis
    unfolding write_file_w_off_def Let_def fstore.rmw_def rd u
    using pk w by (simp split: chfs_result.splits)
qed

lemma resize_rmw:
  assumes "fs_ok fs" "now < 2 ^ 64" "usable fs i" "getattr fs i = Some (Ok attr)"
    and "length (the (file_map fs i)) \<noteq> sz"
  shows "resize now fs i sz =
    map_option (\<lambda>(r, fs'). (case r of Ok _ \<Rightarrow> Ok (attr\<lparr>fsize := sz\<rparr>) | Err e \<Rightarrow> Err e, fs'))
      (fstore.rmw now (\<lambda>c. vec_resize c sz) fs i)"
proof -
  have rd: "read_file fs i = Some (Ok (the (file_map fs i)))" using assms by (simp add: read_file_map)
  obtain r fs' where w: "write_file now fs i (vec_resize (the (file_map fs i)) sz) = Some (r, fs')"
    using write_file_map [OF assms(1,3,2)] by blast
  show ?thesis
    using assms(4,5) w by (simp add: resize_def fstore.rmw_def rd split: chfs_result.splits)
qed

lemma getattr_ok:
  assumes ok: "fs_ok fs" and u: "usable fs i"
  shows "getattr fs i = Some (Ok (i_attr (file_ino (fo_bm fs) (i - 1))))"
    "gettype fs i = Some (Ok (i_type (file_ino (fo_bm fs) (i - 1))))"
    "fo_get_type_attr fs i =
      Some (Ok (i_type (file_ino (fo_bm fs) (i - 1)), i_attr (file_ino (fo_bm fs) (i - 1))))"
    "fsize (i_attr (file_ino (fo_bm fs) (i - 1))) = length (the (file_map fs i))"
proof -
  obtain k where k: "i = Suc k" "k \<in> inode_used (fo_bm fs) (fo_im fs)"
    "Suc k < im_max_inode_supported (fo_im fs) - 1" "file_map fs i = Some (file_content (fo_bm fs) k)"
    using u by (rule usable_raw)
  note rd = read_file_inode [OF ok k(2,3)]
  show "getattr fs i = Some (Ok (i_attr (file_ino (fo_bm fs) (i - 1))))"
    "gettype fs i = Some (Ok (i_type (file_ino (fo_bm fs) (i - 1))))"
    "fo_get_type_attr fs i =
      Some (Ok (i_type (file_ino (fo_bm fs) (i - 1)), i_attr (file_ino (fo_bm fs) (i - 1))))"
    using rd k(1)
    by (simp_all add: getattr_def get_attr_def gettype_def get_type_def fo_get_type_attr_def get_type_attr_def)
  show "fsize (i_attr (file_ino (fo_bm fs) (i - 1))) = length (the (file_map fs i))"
    using length_file_content(1) [OF ok k(2)] k(1,4) by simp
qed

end
