(* ===== verification/File_Lifecycle.thy ===== *)
theory File_Lifecycle
  imports File_System
begin

text \<open>
  Creating and removing files, formatting a device and mounting a formatted one: the
  remaining operations of \<open>FileOperation\<close>, on the map of files.
\<close>

section \<open>Creating a file\<close>

lemma fs_okI:
  assumes "im_ok (fo_bm fs) (fo_im fs)" "alloc_ok (fo_bm fs) (fo_al fs)" "52 \<le> bm_block_sz (fo_bm fs)"
    "al_bitmap_block_id (fo_al fs) = 1 + im_n_table_blocks (fo_im fs) + im_n_bitmap_blocks (fo_im fs)"
    "reserved (fo_al fs) \<subseteq> alloc_used (fo_bm fs) (fo_al fs)"
    "\<And>k. k \<in> inode_used (fo_bm fs) (fo_im fs) \<Longrightarrow> file_ok (fo_bm fs) (fo_al fs) (reserved (fo_al fs)) k"
    "\<And>k k'. k \<in> inode_used (fo_bm fs) (fo_im fs) \<Longrightarrow> k' \<in> inode_used (fo_bm fs) (fo_im fs) \<Longrightarrow>
      k \<noteq> k' \<Longrightarrow> owned (fo_bm fs) k \<inter> owned (fo_bm fs) k' = {}"
  shows "fs_ok fs"
  using assms unfolding fs_ok_def by blast

lemma flush_to_buffer_cong:
  "header_bytes ino = header_bytes ino' \<Longrightarrow> i_nblocks ino = i_nblocks ino' \<Longrightarrow>
   flush_to_buffer ino buf = flush_to_buffer ino' buf"
  by (simp add: flush_to_buffer_def)

text \<open>The inode that \<open>alloc_inode\<close> builds in the zeroed buffer.\<close>

lemma new_inode_buffer:
  assumes sz: "52 \<le> sz" "sz < 2 ^ 29" and t: "type_ok type" and now: "now < 2 ^ 64"
  shows "\<exists>ino0 e. decode_inode (replicate sz 0) = Some ino0 \<and> inode_ok sz e \<and>
    flush_to_buffer (ino0\<lparr>i_type := type, i_attr := set_all_time now (i_attr ino0),
        i_block_size := sz, i_nblocks := u32 ((sz - 44) div 8)\<rparr>)
      (encode_inode (ino0\<lparr>i_type := type, i_attr := set_all_time now (i_attr ino0),
        i_block_size := sz, i_nblocks := u32 ((sz - 44) div 8)\<rparr>)) = Some (encode_inode e) \<and>
    i_type e = type \<and> i_attr e = \<lparr>atime = now, mtime = now, ctime = now, fsize = 0\<rparr> \<and>
    i_blocks e = replicate ((sz - 44) div 8) 0"
proof -
  let ?n = "(sz - 44) div 8"
  obtain ino0 where d: "decode_inode (replicate sz 0) = Some ino0"
    and at0: "i_attr ino0 = \<lparr>atime = 0, mtime = 0, ctime = 0, fsize = 0\<rparr>"
    using sz by (simp add: decode_inode_def chunk_replicate Let_def)
  have len0: "length (encode_inode ino0) = sz" using encode_decode_inode(3) [OF d] by simp
  let ?ino = "ino0\<lparr>i_type := type, i_attr := set_all_time now (i_attr ino0),
        i_block_size := sz, i_nblocks := u32 ?n\<rparr>"
  have len: "length (encode_inode ?ino) = sz" using len0 by (simp add: length_encode_inode)
  from flush_new_inode [OF sz len, of type now] obtain ino1 where
    i1: "inode_create type sz now = Some ino1"
      "flush_to_buffer ino1 (encode_inode ?ino) =
        Some (encode_inode (empty_inode type sz now (drop (44 + 8 * ?n) (encode_inode ?ino))))" by blast
  let ?e = "empty_inode type sz now (drop (44 + 8 * ?n) (encode_inode ?ino))"
  have hb: "header_bytes ?ino = header_bytes ino1" "i_nblocks ?ino = i_nblocks ino1"
    using i1(1) sz at0 by (auto simp: inode_create_def header_bytes_def set_all_time_def)
  have "flush_to_buffer ?ino (encode_inode ?ino) = Some (encode_inode ?e)"
    using flush_to_buffer_cong [OF hb] i1(2) by simp
  moreover have "sz - 44 - 8 * ?n = (sz - 44) mod 8" by (simp add: minus_mult_div_eq_mod)
  then have "inode_ok sz ?e"
    using sz t now len by (intro empty_inode_ok) auto
  moreover have "i_type ?e = type" "i_attr ?e = \<lparr>atime = now, mtime = now, ctime = now, fsize = 0\<rparr>"
    "i_blocks ?e = replicate ?n 0" by (simp_all add: empty_inode_def)
  ultimately show ?thesis using d by (intro exI [of _ ino0] exI [of _ ?e] conjI)
qed

lemma new_file_ok:
  assumes al: "alloc_ok bm al" and e: "inode_ok (bm_block_sz bm) e" "fsize (i_attr e) = 0"
    "i_blocks e = replicate n 0" and R: "insert bid R \<subseteq> alloc_used bm al" "0 \<in> R" "bitmap_area al \<subseteq> R" "bid \<notin> R"
    and tab: "inode_table bm k = bid" and b: "blk bm bid = encode_inode e"
  shows "file_ok bm al R k" "owned bm k = {bid}" "file_content bm k = []" "file_ino bm k = e"
proof -
  have fits: "inode_fits e" using e(1) by (simp add: inode_ok_def)
  show ino: "file_ino bm k = e" using decode_encode_inode [OF fits] by (simp add: file_ino_def tab b)
  have n0: "file_n bm k = 0" by (simp add: file_n_def ino e(2) ceil_div_def)
  have nl: "i_nblocks e = n" using inode_ok_nblocks(3) [OF e(1)] e(3) by simp
  have "0 < n" using inode_ok_nblocks(1) [OF e(1)] nl by simp
  then have id0: "ind_id e = 0" by (simp add: ind_id_def e(3) nl)
  have v: "vblocks bm e None 0 = []" by (simp add: vblocks_def)
  have "wst_ok al (insert bid R) 0 (bm, e, None)"
  proof (rule wst_okI)
    show "i_blocks e ! i = 0" if "i < direct e" for i using that by (simp add: e(3) nl)
  qed (use al e R id0 v in auto)
  then show "file_ok bm al R k"
    using R decode_encode_inode [OF fits] by (simp add: file_ok_def ino n0 tab b)
  show "owned bm k = {bid}" by (simp add: owned_def file_blocks_def n0 v ino tab)
  show "file_content bm k = []" by (simp add: file_content_def content_of_def ino e(2))
qed

lemma alloc_inode_steps:
  assumes ok: "fs_ok fs" and t: "type_ok type" and now: "now < 2 ^ 64"
  shows "(\<exists>bm'. alloc_inode now fs type = Some (Err OUT_OF_RESOURCE, fs\<lparr>fo_bm := bm'\<rparr>) \<and>
      only_changes (bitmap_area (fo_al fs)) (fo_bm fs) bm' \<and> alloc_ok bm' (fo_al fs) \<and>
      alloc_used (fo_bm fs) (fo_al fs) \<subseteq> alloc_used bm' (fo_al fs) \<and>
      (alloc_used (fo_bm fs) (fo_al fs) \<noteq> {..<bm_block_cnt (fo_bm fs)} \<longrightarrow>
       inode_used (fo_bm fs) (fo_im fs) = {..<im_max_inode_supported (fo_im fs)})) \<or>
    (\<exists>k bid e bm'. alloc_inode now fs type = Some (Ok (Suc k), fs\<lparr>fo_bm := bm'\<rparr>) \<and>
      k < im_max_inode_supported (fo_im fs) \<and> k \<notin> inode_used (fo_bm fs) (fo_im fs) \<and>
      {..<k} \<subseteq> inode_used (fo_bm fs) (fo_im fs) \<and> bid \<notin> alloc_used (fo_bm fs) (fo_al fs) \<and> alloc_ok bm' (fo_al fs) \<and>
      alloc_used bm' (fo_al fs) = insert bid (alloc_used (fo_bm fs) (fo_al fs)) \<and>
      only_changes (insert bid (bitmap_area (fo_al fs) \<union> inode_area (fo_im fs))) (fo_bm fs) bm' \<and>
      inode_used bm' (fo_im fs) = insert k (inode_used (fo_bm fs) (fo_im fs)) \<and>
      (\<forall>j < im_max_inode_supported (fo_im fs).
         inode_table bm' j = (if j = k then bid else inode_table (fo_bm fs) j)) \<and>
      blk bm' bid = encode_inode e \<and> inode_ok (bm_block_sz (fo_bm fs)) e \<and> i_type e = type \<and>
      i_attr e = \<lparr>atime = now, mtime = now, ctime = now, fsize = 0\<rparr> \<and> (\<exists>n. i_blocks e = replicate n 0))"
    (is "?err \<or> ?succ")
proof -
  let ?bm = "fo_bm fs" and ?al = "fo_al fs" and ?im = "fo_im fs" and ?sz = "bm_block_sz (fo_bm fs)"
  note f = fs_okD [OF ok] and areas = reserved_areas [of ?al]
  show ?thesis
  proof (cases "alloc_used ?bm ?al = {..<bm_block_cnt ?bm}")
    case True
    from allocate_full [OF f(2) True] have "alloc_inode now fs type = Some (Err OUT_OF_RESOURCE, fs\<lparr>fo_bm := ?bm\<rparr>)"
      by (simp add: alloc_inode_def)
    with f(2) True have ?err by (intro exI [of _ ?bm]) simp
    then show ?thesis ..
  next
    case False
    from f(2) False obtain bid bm1 where b: "allocate ?bm ?al = Some (Ok bid, bm1)" "bid < bm_block_cnt ?bm"
      "bid \<notin> alloc_used ?bm ?al" "alloc_ok bm1 ?al" "only_changes (bitmap_area ?al) ?bm bm1"
      "alloc_used bm1 ?al = insert bid (alloc_used ?bm ?al)"
      by (rule allocate_free)
    note c1 = only_changes_fields [OF b(5)]
    have S1: "bitmap_area ?al \<inter> inode_area ?im = {}" using areas(3) f(4) by blast
    note fr1 = inode_area_frame [OF f(1) b(5) S1] and ok1 = im_ok_frame [OF f(1) b(5)]
    have b64: "bid < 2 ^ 64" using b(2) alloc_ok_cnt [OF f(2)] by simp
    show ?thesis
    proof (cases "inode_used bm1 ?im = {..<im_max_inode_supported ?im}")
      case True
      from allocate_inode_full [OF ok1 True, of type bid] b(1)
      have "alloc_inode now fs type = Some (Err OUT_OF_RESOURCE, fs\<lparr>fo_bm := bm1\<rparr>)"
        by (simp add: alloc_inode_def)
      moreover have "inode_used ?bm ?im = {..<im_max_inode_supported ?im}" using True fr1(1) by simp
      ultimately have ?err using b(4-6) by (intro exI [of _ bm1]) auto
      then show ?thesis ..
    next
      case False
      from ok1 False b64 obtain k bm2 where
        k: "allocate_inode bm1 ?im type bid = Some (Ok (Suc k), bm2)" "k < im_max_inode_supported ?im"
          "k \<notin> inode_used bm1 ?im" "{..<k} \<subseteq> inode_used bm1 ?im" "only_changes (inode_area ?im) bm1 bm2"
          "inode_used bm2 ?im = insert k (inode_used bm1 ?im)"
          "\<And>j. j < im_max_inode_supported ?im \<Longrightarrow> inode_table bm2 j = (if j = k then bid else inode_table bm1 j)"
        by (rule allocate_inode_free) blast
      note c2 = only_changes_fields [OF k(5)] and ok2 = im_ok_frame [OF ok1 k(5)]
      have S2: "inode_area ?im \<inter> bitmap_area ?al = {}" using S1 by blast
      note a2 = alloc_used_frame [OF b(4) k(5) S2]
      have sz: "52 \<le> ?sz" "?sz < 2 ^ 29" using f(3) alloc_okD(4) [OF f(2)] by auto
      from new_inode_buffer [OF sz t now] obtain ino0 e where
        e: "decode_inode (replicate ?sz 0) = Some ino0" "inode_ok ?sz e"
          "flush_to_buffer (ino0\<lparr>i_type := type, i_attr := set_all_time now (i_attr ino0),
              i_block_size := ?sz, i_nblocks := u32 ((?sz - 44) div 8)\<rparr>)
            (encode_inode (ino0\<lparr>i_type := type, i_attr := set_all_time now (i_attr ino0),
              i_block_size := ?sz, i_nblocks := u32 ((?sz - 44) div 8)\<rparr>)) = Some (encode_inode e)"
          "i_type e = type" "i_attr e = \<lparr>atime = now, mtime = now, ctime = now, fsize = 0\<rparr>"
          "i_blocks e = replicate ((?sz - 44) div 8) 0" by blast
      have len: "length (encode_inode e) = ?sz" by (rule length_encode_inode_ok [OF e(2)])
      have dev: "in_dev bm2 bid" using alloc_used_dev [OF a2(1)] a2(2) b(6) by simp
      let ?bm3 = "put_blk bm2 bid (encode_inode e)"
      have wr: "write_block bm2 bid (encode_inode e) = Some (KNullOk, ?bm3)"
        using alloc_okD [OF a2(1)] dev len c1 c2 by (simp add: write_block_ok)
      have ch3: "only_changes {bid} bm2 ?bm3" using dev len c1 c2 by (intro only_changes_put_blk) auto
      have br: "bid \<notin> reserved ?al" using b(3) f(5) by blast
      have S3: "{bid} \<inter> bitmap_area ?al = {}" "{bid} \<inter> inode_area ?im = {}"
        using br areas(1) areas(2) [OF f(4)] by auto
      note a3 = alloc_used_frame [OF a2(1) ch3 S3(1)] and fr3 = inode_area_frame [OF ok2 ch3 S3(2)]
      have "alloc_inode now fs type = Some (Ok (Suc k), fs\<lparr>fo_bm := ?bm3\<rparr>)"
        using b(1) k(1) e(1,3) wr by (simp add: alloc_inode_def Let_def)
      moreover have "only_changes (insert bid (bitmap_area ?al \<union> inode_area ?im)) ?bm ?bm3"
        using only_changes_trans [OF only_changes_trans [OF b(5) k(5)] ch3] by (rule only_changes_mono) auto
      moreover have "blk ?bm3 bid = encode_inode e" using dev len c1 c2 by (simp add: blk_put_blk)
      moreover have "inode_table ?bm3 j = (if j = k then bid else inode_table ?bm j)"
        if "j < im_max_inode_supported ?im" for j
        using fr3(2) [OF that] k(7) [OF that] fr1(2) [OF that] by simp
      ultimately have ?succ
        using k(2-4,6) b(3,6) a2(2) a3 fr1(1) fr3(1) e(2,4-6)
        by - (rule exI [of _ k], rule exI [of _ bid], rule exI [of _ e], rule exI [of _ ?bm3], auto)
      then show ?thesis ..
    qed
  qed
qed


lemma alloc_inode_map:
  assumes ok: "fs_ok fs" and t: "type_ok type" and now: "now < 2 ^ 64"
  shows "\<exists>r fs'. alloc_inode now fs type = Some (r, fs') \<and> fs_ok fs' \<and> fo_im fs' = fo_im fs \<and>
    (case r of
      Ok inode_id \<Rightarrow> 1 \<le> inode_id \<and> inode_id \<le> im_max_inode_supported (fo_im fs) \<and>
        {1..<inode_id} \<subseteq> dom (file_map fs) \<and> file_map fs inode_id = None \<and> file_map fs' = (file_map fs)(inode_id \<mapsto> []) \<and>
        i_type (file_ino (fo_bm fs') (inode_id - 1)) = type \<and>
        i_attr (file_ino (fo_bm fs') (inode_id - 1)) = \<lparr>atime = now, mtime = now, ctime = now, fsize = 0\<rparr> \<and>
        (\<forall>j. j + 1 \<in> dom (file_map fs) \<longrightarrow> file_ino (fo_bm fs') j = file_ino (fo_bm fs) j)
    | Err e \<Rightarrow> e = OUT_OF_RESOURCE \<and> file_map fs' = file_map fs \<and>
        (get_free_blocks_num fs = Some (Ok 0) \<or> get_free_inode_num fs = Some (Ok 0)) \<and>
        (\<forall>j. j + 1 \<in> dom (file_map fs) \<longrightarrow> file_ino (fo_bm fs') j = file_ino (fo_bm fs) j))"
  using alloc_inode_steps [OF ok t now]
proof (elim disjE exE conjE)
  let ?bm = "fo_bm fs" and ?al = "fo_al fs"
  fix bm' assume r: "alloc_inode now fs type = Some (Err OUT_OF_RESOURCE, fs\<lparr>fo_bm := bm'\<rparr>)"
    and h: "only_changes (bitmap_area ?al) ?bm bm'" "alloc_ok bm' ?al" "alloc_used ?bm ?al \<subseteq> alloc_used bm' ?al"
    and full: "alloc_used ?bm ?al \<noteq> {..<bm_block_cnt ?bm} \<longrightarrow>
      inode_used ?bm (fo_im fs) = {..<im_max_inode_supported (fo_im fs)}"
  note g = bitmap_growth [OF ok h]
  have "get_free_blocks_num fs = Some (Ok 0) \<or> get_free_inode_num fs = Some (Ok 0)"
  proof (cases "alloc_used ?bm ?al = {..<bm_block_cnt ?bm}")
    case True
    then show ?thesis using free_block_cnt_ok [OF fs_okD(2) [OF ok]] by (simp add: get_free_blocks_num_def)
  next
    case False
    then show ?thesis
      using full free_inode_cnt_ok [OF fs_okD(1) [OF ok]] by (simp add: get_free_inode_num_def)
  qed
  moreover
  have "file_map (fs\<lparr>fo_bm := bm'\<rparr>) = file_map fs" using g(2,3) by (auto simp: file_map_def fun_eq_iff)
  moreover have "file_ino bm' j = file_ino ?bm j" if "j + 1 \<in> dom (file_map fs)" for j
    using g(3) that by (simp add: file_map_def dom_def split: if_splits)
  ultimately show ?thesis using r g(1) by simp
next
  let ?bm = "fo_bm fs" and ?al = "fo_al fs" and ?im = "fo_im fs" and ?R = "reserved (fo_al fs)"
  note f = fs_okD [OF ok] and areas = reserved_areas [of ?al]
  fix k bid e bm' n
  assume r: "alloc_inode now fs type = Some (Ok (Suc k), fs\<lparr>fo_bm := bm'\<rparr>)"
    and k: "k < im_max_inode_supported ?im" "k \<notin> inode_used ?bm ?im" and low: "{..<k} \<subseteq> inode_used ?bm ?im"
    and b: "bid \<notin> alloc_used ?bm ?al" and al: "alloc_ok bm' ?al"
      "alloc_used bm' ?al = insert bid (alloc_used ?bm ?al)"
    and ch: "only_changes (insert bid (bitmap_area ?al \<union> inode_area ?im)) ?bm bm'"
    and iu: "inode_used bm' ?im = insert k (inode_used ?bm ?im)"
    and tab: "\<forall>j < im_max_inode_supported ?im. inode_table bm' j = (if j = k then bid else inode_table ?bm j)"
    and e: "blk bm' bid = encode_inode e" "inode_ok (bm_block_sz ?bm) e" "i_type e = type"
      "i_attr e = \<lparr>atime = now, mtime = now, ctime = now, fsize = 0\<rparr>" "i_blocks e = replicate n 0"
  let ?S = "insert bid (bitmap_area ?al \<union> inode_area ?im)"
  note c = only_changes_fields [OF ch]
  have sub: "?S \<subseteq> insert bid ?R" using areas(1) areas(2) [OF f(4)] by blast
  have br: "bid \<notin> ?R" using b f(5) by blast
  have us: "insert bid ?R \<subseteq> alloc_used bm' ?al" using f(5) al(2) by blast
  have z: "0 \<in> ?R" by (rule areas(4)) (simp add: f(4))
  have e': "inode_ok (bm_block_sz bm') e" "fsize (i_attr e) = 0" "inode_table bm' k = bid"
    using e c(1) tab k(1) by simp_all
  note new = new_file_ok [OF al(1) e'(1,2) e(5) us z areas(1) br e'(3) e(1)]
  have old: "file_ok bm' ?al ?R j" "file_ino bm' j = file_ino ?bm j" "owned bm' j = owned ?bm j"
    "file_content bm' j = file_content ?bm j" "bid \<notin> owned ?bm j" if j: "j \<in> inode_used ?bm ?im" for j
  proof -
    note fj = f(6) [OF j]
    have jt: "inode_table bm' j = inode_table ?bm j" using tab j k(2) by (auto simp: inode_used_def)
    have nb: "bid \<notin> owned ?bm j" using owned_used(1) [OF fj] b by blast
    have dj: "owned ?bm j \<inter> ?S = {}" using owned_used(1) [OF fj] nb sub by blast
    have us: "owned ?bm j \<union> ?R \<subseteq> alloc_used bm' ?al" using owned_used(1) [OF fj] f(5) al(2) by blast
    show "bid \<notin> owned ?bm j" by (rule nb)
    show "file_ok bm' ?al ?R j" "file_ino bm' j = file_ino ?bm j" "owned bm' j = owned ?bm j"
      "file_content bm' j = file_content ?bm j" using file_frame [OF fj ch jt dj al(1) us] by auto
  qed
  have "fs_ok (fs\<lparr>fo_bm := bm'\<rparr>)"
  proof (rule fs_okI, simp_all add: f(4))
    show "im_ok bm' ?im" by (rule im_ok_frame [OF f(1) ch])
    show "alloc_ok bm' ?al" by (rule al(1))
    show "52 \<le> bm_block_sz bm'" using f(3) c by simp
    show "?R \<subseteq> alloc_used bm' ?al" using f(5) al(2) by blast
    show "file_ok bm' ?al ?R j" if "j \<in> inode_used bm' ?im" for j using that iu new(1) old(1) by auto
    show "owned bm' i \<inter> owned bm' j = {}"
      if "i \<in> inode_used bm' ?im" "j \<in> inode_used bm' ?im" "i \<noteq> j" for i j
      using that iu new(2) old(3,5) f(7) [of i j] by auto
  qed
  moreover have "file_map (fs\<lparr>fo_bm := bm'\<rparr>) = (file_map fs)(Suc k \<mapsto> [])"
    using iu new(3) old(4) by (auto simp: file_map_def fun_eq_iff)
  moreover have "file_map fs (Suc k) = None" using k(2) by (simp add: file_map_def)
  moreover have "file_ino bm' j = file_ino ?bm j" if "j + 1 \<in> dom (file_map fs)" for j
    using that old(2) by (auto simp: file_map_def split: if_splits)
  moreover have "{1..<Suc k} \<subseteq> dom (file_map fs)"
    using low by (auto simp: file_map_def subset_iff)
  ultimately show ?thesis using r e new k(1) by auto
qed


section \<open>Removing a file\<close>

lemma collect_direct_vblocks:
  assumes "\<And>j. j < n \<Longrightarrow> i_blocks ino ! j \<noteq> 0" "\<And>j. n \<le> j \<Longrightarrow> j < i + m \<Longrightarrow> i_blocks ino ! j = 0"
    "i + m \<le> length (i_blocks ino)" "n \<le> i + m"
  shows "collect_direct ino i m = Some (map (\<lambda>j. i_blocks ino ! j) [i..<n])"
  using assms
proof (induction m arbitrary: i)
  case (Suc m)
  have at: "at (i_blocks ino) i = Some (i_blocks ino ! i)" using Suc.prems(3) by (simp add: at_def)
  show ?case
  proof (cases "i < n")
    case True
    have "collect_direct ino (Suc i) m = Some (map (\<lambda>j. i_blocks ino ! j) [Suc i..<n])"
      using Suc.prems by (intro Suc.IH) auto
    with at True Suc.prems(1) [OF True] show ?thesis by (simp add: upt_conv_Cons)
  qed (use at Suc.prems(2) [of i] in simp)
qed simp

lemma deallocate_all_ok:
  assumes "alloc_ok bm al" "distinct bids" "set bids \<subseteq> alloc_used bm al"
  shows "\<exists>bm'. deallocate_all bm al bids = Some (KNullOk, bm') \<and> alloc_ok bm' al \<and>
    only_changes (bitmap_area al) bm bm' \<and> alloc_used bm' al = alloc_used bm al - set bids"
  using assms
proof (induction bids arbitrary: bm)
  case (Cons b bids)
  from Cons.prems have "b \<in> alloc_used bm al" by simp
  with Cons.prems(1) obtain bm1 where b: "deallocate bm al b = Some (KNullOk, bm1)" "alloc_ok bm1 al"
    "only_changes (bitmap_area al) bm bm1" "alloc_used bm1 al = alloc_used bm al - {b}"
    by (rule deallocate_used)
  from Cons.IH [OF b(2)] Cons.prems b(4) obtain bm' where
    "deallocate_all bm1 al bids = Some (KNullOk, bm')" "alloc_ok bm' al" "only_changes (bitmap_area al) bm1 bm'"
    "alloc_used bm' al = alloc_used bm1 al - set bids" by auto
  with b only_changes_trans_same [OF b(3)] show ?case by auto
qed simp

lemma remove_file_steps:
  assumes ok: "fs_ok fs" and k: "k \<in> inode_used (fo_bm fs) (fo_im fs)"
    and lim: "Suc k < im_max_inode_supported (fo_im fs) - 1"
    and small: "file_n (fo_bm fs) k \<le> direct (file_ino (fo_bm fs) k)"
  shows "\<exists>bm'. remove_file fs (Suc k) = Some (KNullOk, fs\<lparr>fo_bm := bm'\<rparr>) \<and> alloc_ok bm' (fo_al fs) \<and>
    only_changes (bitmap_area (fo_al fs) \<union> inode_area (fo_im fs)) (fo_bm fs) bm' \<and>
    alloc_used bm' (fo_al fs) = alloc_used (fo_bm fs) (fo_al fs) - owned (fo_bm fs) k \<and>
    inode_used bm' (fo_im fs) = inode_used (fo_bm fs) (fo_im fs) - {k} \<and>
    (\<forall>j < im_max_inode_supported (fo_im fs). j \<noteq> k \<longrightarrow> inode_table bm' j = inode_table (fo_bm fs) j)"
proof -
  let ?bm = "fo_bm fs" and ?al = "fo_al fs" and ?im = "fo_im fs" and ?ino = "file_ino (fo_bm fs) k"
    and ?n = "file_n (fo_bm fs) k" and ?t = "inode_table (fo_bm fs) k"
  note f = fs_okD [OF ok] and w = wst_okD [OF file_wst_ok [OF ok k]] and areas = reserved_areas [of ?al]
  have tF: "?t \<in> foreign fs k" by (simp add: foreign_def)
  have vb: "file_blocks ?bm k = map (\<lambda>j. i_blocks ?ino ! j) [0..<?n]"
    using small by (simp add: file_blocks_def vblocks_def vblock_def)
  have nz: "i_blocks ?ino ! j \<noteq> 0" if "j < ?n" for j
  proof -
    have "i_blocks ?ino ! j \<in> set (file_blocks ?bm k)" using that unfolding vb by simp
    then show ?thesis using w(5,8) unfolding file_blocks_def by (metis DiffD2 subsetD)
  qed
  have dir: "direct ?ino < length (i_blocks ?ino)" using inode_ok_nblocks [OF w(2)] by simp
  have col: "collect_direct ?ino 0 (direct ?ino) = Some (file_blocks ?bm k)"
    unfolding vb using nz w(10) dir small by (intro collect_direct_vblocks) auto
  have ind: "at (i_blocks ?ino) (direct ?ino) = Some 0" using w(9) small dir by (simp add: at_def ind_id_def)
  from f(1) lim obtain bm1 where b1: "free_inode ?bm ?im (Suc k) = Some (KNullOk, bm1)"
    "only_changes (inode_area ?im) ?bm bm1" "inode_used bm1 ?im = inode_used ?bm ?im - {k}"
    "\<And>j. j < im_max_inode_supported ?im \<Longrightarrow> inode_table bm1 j = (if j = k then 0 else inode_table ?bm j)"
    by (rule free_inode_ok) blast
  have S: "inode_area ?im \<inter> bitmap_area ?al = {}" by (rule areas(3) [OF f(4)])
  note a1 = alloc_used_frame [OF f(2) b1(2) S]
  have own: "owned ?bm k = set (file_blocks ?bm k @ [?t])" using small by (auto simp: owned_def)
  have dist: "distinct (file_blocks ?bm k @ [?t])" using w(7,8) tF by (auto simp: file_blocks_def)
  have us: "set (file_blocks ?bm k @ [?t]) \<subseteq> alloc_used bm1 ?al"
    using owned_used(1) [OF f(6) [OF k]] unfolding own a1(2) by blast
  from deallocate_all_ok [OF a1(1) dist us] obtain bm2 where
    b2: "deallocate_all bm1 ?al (file_blocks ?bm k @ [?t]) = Some (KNullOk, bm2)" "alloc_ok bm2 ?al"
      "only_changes (bitmap_area ?al) bm1 bm2" "alloc_used bm2 ?al = alloc_used bm1 ?al - owned ?bm k"
    unfolding own by blast
  have S': "bitmap_area ?al \<inter> inode_area ?im = {}" using S by blast
  note fr = inode_area_frame [OF im_ok_frame [OF f(1) b1(2)] b2(3) S']
  have "remove_file fs (Suc k) = Some (KNullOk, fs\<lparr>fo_bm := bm2\<rparr>)"
    using read_file_inode [OF ok k lim] col ind b1(1) b2(1) inode_ok_nblocks(4) [OF w(2)]
    by (simp add: remove_file_def Let_def get_direct_block_num_def)
  moreover have "only_changes (bitmap_area ?al \<union> inode_area ?im) ?bm bm2"
    using only_changes_trans [OF b1(2) b2(3)] by (rule only_changes_mono) auto
  ultimately show ?thesis using b2(2,4) a1(2) fr b1(3,4) by auto
qed


text \<open>A file fits in the direct blocks of its inode.\<close>

definition direct_only :: "file_operation \<Rightarrow> nat \<Rightarrow> bool" where
  "direct_only fs inode_id \<longleftrightarrow>
     file_n (fo_bm fs) (inode_id - 1) \<le> get_direct_block_num (file_ino (fo_bm fs) (inode_id - 1))"

lemma direct_only_raw:
  assumes "fs_ok fs" "k \<in> inode_used (fo_bm fs) (fo_im fs)"
  shows "direct_only fs (Suc k) \<longleftrightarrow> file_n (fo_bm fs) k \<le> direct (file_ino (fo_bm fs) k)"
    "get_direct_block_num (file_ino (fo_bm fs) k) = direct (file_ino (fo_bm fs) k)"
  using inode_ok_nblocks(4) [OF wst_okD(2) [OF file_wst_ok [OF assms]]]
  by (simp_all add: direct_only_def get_direct_block_num_def)

lemma remove_file_map:
  assumes ok: "fs_ok fs" and u: "usable fs inode_id" and small: "direct_only fs inode_id"
  shows "\<exists>fs'. remove_file fs inode_id = Some (KNullOk, fs') \<and> fs_ok fs' \<and> fo_im fs' = fo_im fs \<and>
    fo_al fs' = fo_al fs \<and>
    file_map fs' = (file_map fs)(inode_id := None) \<and>
    alloc_used (fo_bm fs') (fo_al fs) =
      alloc_used (fo_bm fs) (fo_al fs) - owned (fo_bm fs) (inode_id - 1) \<and>
    (\<forall>j. j + 1 \<in> dom (file_map fs') \<longrightarrow> file_ino (fo_bm fs') j = file_ino (fo_bm fs) j)"
proof -
  from u obtain k where k: "inode_id = Suc k" "k \<in> inode_used (fo_bm fs) (fo_im fs)"
    "Suc k < im_max_inode_supported (fo_im fs) - 1" by (rule usable_raw)
  let ?bm = "fo_bm fs" and ?al = "fo_al fs" and ?im = "fo_im fs" and ?R = "reserved (fo_al fs)"
  from small direct_only_raw(1) [OF ok k(2)] have "file_n ?bm k \<le> direct (file_ino ?bm k)" by (simp add: k(1))
  from remove_file_steps [OF ok k(2,3) this] obtain bm' where
    r: "remove_file fs (Suc k) = Some (KNullOk, fs\<lparr>fo_bm := bm'\<rparr>)" and al: "alloc_ok bm' ?al"
    and ch: "only_changes (bitmap_area ?al \<union> inode_area ?im) ?bm bm'"
    and us: "alloc_used bm' ?al = alloc_used ?bm ?al - owned ?bm k"
    and iu: "inode_used bm' ?im = inode_used ?bm ?im - {k}"
    and tab: "\<And>j. j < im_max_inode_supported ?im \<Longrightarrow> j \<noteq> k \<Longrightarrow> inode_table bm' j = inode_table ?bm j"
    by blast
  note f = fs_okD [OF ok] and areas = reserved_areas [of ?al] and c = only_changes_fields [OF ch]
  have sub: "bitmap_area ?al \<union> inode_area ?im \<subseteq> ?R" using areas(1) areas(2) [OF f(4)] by blast
  have R: "?R \<subseteq> alloc_used bm' ?al" using us f(5) owned_used(1) [OF f(6) [OF k(2)]] by blast
  have old: "file_ok bm' ?al ?R j" "file_ino bm' j = file_ino ?bm j" "owned bm' j = owned ?bm j"
    "file_content bm' j = file_content ?bm j" if j: "j \<in> inode_used ?bm ?im" "j \<noteq> k" for j
  proof -
    note fj = f(6) [OF j(1)]
    have jt: "inode_table bm' j = inode_table ?bm j" using tab j by (auto simp: inode_used_def)
    have dj: "owned ?bm j \<inter> (bitmap_area ?al \<union> inode_area ?im) = {}" using owned_used(1) [OF fj] sub by blast
    have uj: "owned ?bm j \<union> ?R \<subseteq> alloc_used bm' ?al"
      using owned_used(1) [OF fj] f(7) [OF j(1) k(2) j(2)] R us by blast
    show "file_ok bm' ?al ?R j" "file_ino bm' j = file_ino ?bm j" "owned bm' j = owned ?bm j"
      "file_content bm' j = file_content ?bm j" using file_frame [OF fj ch jt dj al uj] by auto
  qed
  have "fs_ok (fs\<lparr>fo_bm := bm'\<rparr>)"
  proof (rule fs_okI, simp_all add: f(4))
    show "im_ok bm' ?im" by (rule im_ok_frame [OF f(1) ch])
    show "alloc_ok bm' ?al" "?R \<subseteq> alloc_used bm' ?al" by (rule al, rule R)
    show "52 \<le> bm_block_sz bm'" using f(3) c by simp
    show "file_ok bm' ?al ?R j" if "j \<in> inode_used bm' ?im" for j using that iu old(1) by auto
    show "owned bm' i \<inter> owned bm' j = {}"
      if "i \<in> inode_used bm' ?im" "j \<in> inode_used bm' ?im" "i \<noteq> j" for i j
      using that iu old(3) f(7) [of i j] by auto
  qed
  moreover have "file_map (fs\<lparr>fo_bm := bm'\<rparr>) = (file_map fs)(Suc k := None)"
    using iu old(4) by (auto simp: file_map_def fun_eq_iff)
  moreover have "file_ino bm' j = file_ino ?bm j" if "j + 1 \<in> dom (file_map (fs\<lparr>fo_bm := bm'\<rparr>))" for j
    using that old(2) iu by (auto simp: file_map_def split: if_splits)
  ultimately show ?thesis using r us by (auto simp: k(1))
qed

text \<open>
  For a larger file the vector that should receive the indirect block has no storage, and the
  copy of the block into it is out of bounds.
\<close>

lemma remove_file_indirect:
  assumes ok: "fs_ok fs" and u: "usable fs inode_id" and large: "\<not> direct_only fs inode_id"
  shows "remove_file fs inode_id = None"
proof -
  from u obtain k where k: "inode_id = Suc k" "k \<in> inode_used (fo_bm fs) (fo_im fs)"
    "Suc k < im_max_inode_supported (fo_im fs) - 1" by (rule usable_raw)
  let ?bm = "fo_bm fs" and ?ino = "file_ino (fo_bm fs) k"
  note w = wst_okD [OF file_wst_ok [OF ok k(2)]] and d = direct_only_raw [OF ok k(2)]
  from large d(1) have big: "direct ?ino < file_n ?bm k" by (simp add: k(1))
  have dir: "direct ?ino < length (i_blocks ?ino)" using inode_ok_nblocks [OF w(2)] by simp
  have "ind_id ?ino \<notin> foreign fs k" using w(9) big by simp
  then have "ind_id ?ino \<noteq> 0" using w(5) by metis
  then have ind: "at (i_blocks ?ino) (direct ?ino) = Some (ind_id ?ino)" "0 < ind_id ?ino"
    using dir by (simp_all add: at_def ind_id_def)
  have rd: "read_block ?bm (ind_id ?ino) 0 = None"
    using alloc_okD(3) [OF w(1)] by (simp add: read_block_def chfs_assert_def Let_def)
  show ?thesis
    using read_file_inode [OF ok k(2,3)] ind rd d(2)
    by (cases "collect_direct ?ino 0 (direct ?ino)") (simp_all add: k(1) remove_file_def Let_def)
qed


section \<open>Formatting and mounting\<close>

definition fresh_layout :: "block_manager \<Rightarrow> nat \<Rightarrow> inode_manager \<times> block_allocator" where
  "fresh_layout bm max_inode =
     (let im = fresh_inode_manager bm max_inode
      in (im, fresh_allocator bm (1 + im_n_table_blocks im + im_n_bitmap_blocks im)))"

text \<open>The device has room for the superblock, the inode table and the two bitmaps.\<close>

definition can_format :: "block_manager \<Rightarrow> nat \<Rightarrow> bool" where
  "can_format bm max_inode \<longleftrightarrow> can_hold_inodes bm max_inode \<and> 52 \<le> bm_block_sz bm \<and>
     1 + im_n_table_blocks (fresh_inode_manager bm max_inode) +
       im_n_bitmap_blocks (fresh_inode_manager bm max_inode) + bitmap_blocks bm \<le> bm_block_cnt bm"

lemma same_fields_layout:
  assumes "only_changes S bm bm'"
  shows "fresh_layout bm' n = fresh_layout bm n" "can_format bm' n = can_format bm n"
    "fresh_inode_manager bm' n = fresh_inode_manager bm n" "fresh_allocator bm' b = fresh_allocator bm b"
    "can_hold_inodes bm' n = can_hold_inodes bm n" "can_allocate_on bm' b = can_allocate_on bm b"
    "bitmap_blocks bm' = bitmap_blocks bm"
proof -
  note f = only_changes_fields [OF assms]
  show im: "fresh_inode_manager bm' n = fresh_inode_manager bm n"
    by (simp only: fresh_inode_manager_def f)
  show bb: "bitmap_blocks bm' = bitmap_blocks bm" by (simp only: bitmap_blocks_def f)
  show al: "fresh_allocator bm' b = fresh_allocator bm b" for b by (simp only: fresh_allocator_def f bb)
  show "fresh_layout bm' n = fresh_layout bm n" by (simp only: fresh_layout_def im al)
  show ch: "can_hold_inodes bm' n = can_hold_inodes bm n" by (simp only: can_hold_inodes_def f im)
  show "can_format bm' n = can_format bm n" by (simp only: can_format_def f im ch bb)
  show "can_allocate_on bm' b = can_allocate_on bm b" by (simp only: can_allocate_on_def f bb)
qed

lemma can_format_facts:
  assumes "can_format bm n"
  shows "can_hold_inodes bm n" "im_ok bm (fresh_inode_manager bm n)"
    "get_reserved_blocks (fresh_inode_manager bm n) =
      1 + im_n_table_blocks (fresh_inode_manager bm n) + im_n_bitmap_blocks (fresh_inode_manager bm n)"
    "can_allocate_on bm (get_reserved_blocks (fresh_inode_manager bm n))"
    "im_max_inode_supported (fresh_inode_manager bm n) < 2 ^ 32"
proof -
  show h: "can_hold_inodes bm n" using assms by (simp add: can_format_def)
  show ok: "im_ok bm (fresh_inode_manager bm n)" by (rule fresh_inode_manager_ok [OF h])
  show r: "get_reserved_blocks (fresh_inode_manager bm n) =
      1 + im_n_table_blocks (fresh_inode_manager bm n) + im_n_bitmap_blocks (fresh_inode_manager bm n)"
    using assms im_okD(8) [OF ok] by (simp add: get_reserved_blocks_def can_format_def u32_def)
  show "can_allocate_on bm (get_reserved_blocks (fresh_inode_manager bm n))"
    unfolding r using assms h by (simp add: can_allocate_on_def can_format_def can_hold_inodes_def)
  show "im_max_inode_supported (fresh_inode_manager bm n) < 2 ^ 32" using im_ok_max [OF ok] by simp
qed

text \<open>
  A mountable file system: the superblock records the number of inodes, and the two managers
  are the ones that this number and the geometry of the device determine.
\<close>

definition mountable :: "file_operation \<Rightarrow> bool" where
  "mountable fs \<longleftrightarrow> (\<exists>n sb. super_block_create_from_existing (fo_bm fs) 0 = Some (Ok sb) \<and>
     sb_ninodes sb = im_max_inode_supported (fo_im fs) \<and> can_format (fo_bm fs) n \<and>
     fresh_layout (fo_bm fs) n = (fo_im fs, fo_al fs))"

lemma file_operation_create_ok:
  assumes can: "can_format bm n" and g: "super_block_ok garbage"
  shows "\<exists>fs. file_operation_create bm n garbage = Some fs \<and> fs_ok fs \<and> mountable fs \<and>
    fo_im fs = fresh_inode_manager bm n \<and> fo_al fs = snd (fresh_layout bm n) \<and>
    file_map fs = Map.empty \<and> alloc_used (fo_bm fs) (fo_al fs) = reserved (fo_al fs) \<and>
    inode_used (fo_bm fs) (fo_im fs) = {} \<and> only_changes UNIV bm (fo_bm fs)"
proof -
  let ?im = "fresh_inode_manager bm n" and ?base = "get_reserved_blocks (fresh_inode_manager bm n)"
  let ?al = "fresh_allocator bm ?base"
  note c = can_format_facts [OF can]
  from c(1) obtain bm1 where b1: "inode_manager_create bm n = Some (?im, bm1)"
    "only_changes (inode_area ?im) bm bm1" "inode_used bm1 ?im = {}"
    by (rule inode_manager_create_ok) blast
  note l1 = same_fields_layout [OF b1(2)] and f1 = only_changes_fields [OF b1(2)]
  have can1: "can_allocate_on bm1 ?base" using c(4) l1(6) by simp
  from can1 obtain bm2 where b2: "allocator_create bm1 ?base True = Some (?al, bm2)"
    "alloc_ok bm2 ?al" "alloc_used bm2 ?al = {..<?base + bitmap_blocks bm}"
    "only_changes (bitmap_area ?al) bm1 bm2"
    unfolding l1(4,7) [symmetric] by (rule allocator_create_ok)
  note f2 = only_changes_fields [OF b2(4)]
  let ?sb = "garbage\<lparr>sb_block_size := bm_block_sz bm2, sb_nblocks := bm_block_cnt bm2,
    sb_ninodes := im_max_inode_supported ?im\<rparr>"
  have sz: "52 \<le> bm_block_sz bm" using can by (simp add: can_format_def)
  have sb: "super_block_create bm2 (im_max_inode_supported ?im) garbage = Some ?sb"
    using sz f1 f2 by (simp add: super_block_create_def chfs_assert_def)
  have sbok: "super_block_ok ?sb"
    using g c(5) alloc_ok_cnt [OF b2(2)] alloc_okD(4) [OF b2(2)] by (simp add: super_block_ok_def)
  have dev0: "in_dev bm2 0" using alloc_used_dev [OF b2(2), of 0] b2(3) c(3) by simp
  have pre: "bm_ok bm2" "\<not> bm_maybe_failed bm2" "32 \<le> bm_block_sz bm2"
    using alloc_okD [OF b2(2)] sz f1 f2 by auto
  from pre(1,2) dev0 pre(3) sbok obtain bm3 where b3: "super_block_flush ?sb bm2 0 = Some (KNullOk, bm3)"
    "only_changes {0} bm2 bm3" "super_block_create_from_existing bm3 0 = Some (Ok ?sb)"
    by (rule super_block_flush_ok)
  let ?fs = "\<lparr>fo_bm = bm3, fo_im = ?im, fo_al = ?al\<rparr>"
  have area: "al_bitmap_block_id ?al = ?base" "al_bitmap_block_cnt ?al = bitmap_blocks bm"
    by (simp_all add: fresh_allocator_def)
  have S: "{0} \<inter> bitmap_area ?al = {}" "{0} \<inter> inode_area ?im = {}" "bitmap_area ?al \<inter> inode_area ?im = {}"
    using area c(3) by (auto simp: bitmap_area_def inode_area_def)
  note a3 = alloc_used_frame [OF b2(2) b3(2) S(1)]
  have ok2: "im_ok bm2 ?im" by (rule im_ok_frame [OF im_ok_frame [OF c(2) b1(2)] b2(4)])
  have iu: "inode_used bm3 ?im = {}"
    using b1(3) inode_area_frame(1) [OF im_ok_frame [OF c(2) b1(2)] b2(4) S(3)]
      inode_area_frame(1) [OF ok2 b3(2) S(2)] by simp
  have res: "reserved ?al = alloc_used bm3 ?al" using a3(2) b2(3) area by (simp add: reserved_def)
  have ch: "only_changes UNIV bm bm3"
    using only_changes_trans [OF only_changes_trans [OF b1(2) b2(4)] b3(2)] by (rule only_changes_mono) simp
  have "fs_ok ?fs"
    using im_ok_frame [OF ok2 b3(2)] a3(1) sz only_changes_fields(1) [OF ch] area c(3) res iu
    by (intro fs_okI) simp_all
  moreover have "file_operation_create bm n garbage = Some ?fs"
    using b1(1) b2(1) sb b3(1) by (simp add: file_operation_create_def)
  moreover have lay: "fresh_layout bm n = (?im, ?al)" by (simp add: fresh_layout_def Let_def c(3))
  then have "mountable ?fs"
    unfolding mountable_def using b3(3) same_fields_layout(1,2) [OF ch, of n] can by auto
  moreover have "file_map ?fs = Map.empty" using iu by (auto simp: file_map_def)
  ultimately show ?thesis using res iu ch lay by (intro exI [of _ ?fs]) simp
qed

lemma create_from_raw_ok:
  assumes "mountable fs"
  shows "create_from_raw (fo_bm fs) = Some (Ok fs)"
proof -
  let ?bm = "fo_bm fs"
  from assms obtain n sb where sb: "super_block_create_from_existing ?bm 0 = Some (Ok sb)"
    "sb_ninodes sb = im_max_inode_supported (fo_im fs)" and can: "can_format ?bm n"
    and lay: "fresh_layout ?bm n = (fo_im fs, fo_al fs)" unfolding mountable_def by blast
  note c = can_format_facts [OF can]
  from lay c(3) have im: "fo_im fs = fresh_inode_manager ?bm n"
    and al: "fo_al fs = fresh_allocator ?bm (get_reserved_blocks (fo_im fs))"
    by (auto simp: fresh_layout_def Let_def)
  note o = im_okD [OF c(2)]
  let ?nb = "im_n_bitmap_blocks (fo_im fs)" and ?mx = "im_max_inode_supported (fo_im fs)"
  have mx: "?mx = ?nb * blk_bits ?bm" "im_n_table_blocks (fo_im fs) = ceil_div ?mx (ipb ?bm)"
    by (simp_all add: im fresh_inode_manager_def Let_def)
  have lt: "?mx < 2 ^ 32" using c(5) im by simp
  have tb: "table_blocks_for ?bm ?mx = im_n_table_blocks (fo_im fs)"
    using table_blocks_for_ok [OF o(5), of ?mx] lt mx by simp
  have bits: "0 < blk_bits ?bm" using o(4) by simp
  have dv: "?mx div blk_bits ?bm = ?nb" using bits unfolding mx(1) by (rule nonzero_mult_div_cancel_right [OF gr_implies_not0])
  have u: "u64 (?nb * blk_bits ?bm) = ?mx" using lt unfolding mx(1) [symmetric] by (simp add: u64_def)
  have from_bm: "inode_manager_from_block_manager ?bm ?mx = Some (Ok (fo_im fs))"
    unfolding inode_manager_from_block_manager_def Let_def
    using bits o(5) by (simp only: o(6) dv u tb chfs_assert_simps) simp
  show ?thesis
    using sb from_bm allocator_create_unfold [OF c(4), of False] al im
    by (simp add: create_from_raw_def)
qed


section \<open>Sequences of operations\<close>

lemma mountable_frame:
  assumes ok: "fs_ok fs" and m: "mountable fs" and ch: "only_changes S (fo_bm fs) bm'" and S: "0 \<notin> S"
  shows "mountable (fs\<lparr>fo_bm := bm'\<rparr>)"
proof -
  note f = fs_okD [OF ok] and c = only_changes_fields [OF ch]
  have z: "0 \<in> alloc_used (fo_bm fs) (fo_al fs)" using f(4,5) by (auto simp: reserved_def)
  have dev: "in_dev (fo_bm fs) 0" by (rule alloc_used_dev [OF f(2) z])
  have "read_block bm' 0 (bm_block_sz bm') = read_block (fo_bm fs) 0 (bm_block_sz (fo_bm fs))"
    using alloc_okD(1,2) [OF f(2)] dev c only_changes_blk [OF ch dev S] by (simp add: read_block_ok)
  then show ?thesis
    using m unfolding mountable_def super_block_create_from_existing_def
    by (simp add: same_fields_layout [OF ch])
qed

lemma write_file_mountable:
  assumes ok: "fs_ok fs" and m: "mountable fs" and u: "usable fs i" and now: "now < 2 ^ 64"
    and wr: "write_file now fs i content = Some (r, fs')"
  shows "mountable fs'"
proof -
  from u obtain k where k: "i = Suc k" "k \<in> inode_used (fo_bm fs) (fo_im fs)"
    "Suc k < im_max_inode_supported (fo_im fs) - 1" by (rule usable_raw)
  note ff = foreign_facts [OF ok k(2)]
  from write_file_ok [OF ok k(2,3) now, of content] wr obtain bm' where
    w: "fs' = fs\<lparr>fo_bm := bm'\<rparr>"
    "(case r of
       Ok _ \<Rightarrow> written now fs k content bm'
     | Err e \<Rightarrow> e = OUT_OF_RESOURCE \<and> only_changes (bitmap_area (fo_al fs)) (fo_bm fs) bm' \<and>
         alloc_ok bm' (fo_al fs) \<and> alloc_used (fo_bm fs) (fo_al fs) \<subseteq> alloc_used bm' (fo_al fs) \<and>
         (max_file_sz_supported (file_ino (fo_bm fs) k) < length content \<or>
          alloc_used bm' (fo_al fs) = {..<bm_block_cnt (fo_bm fs)}))" by (auto simp: k(1))
  from w(2) have "only_changes (bitmap_area (fo_al fs) \<union> insert (inode_table (fo_bm fs) k) (- foreign fs k))
      (fo_bm fs) bm'"
    by (cases r) (auto simp: written_def Let_def elim: only_changes_mono)
  moreover have "0 \<notin> bitmap_area (fo_al fs)" using fs_okD(4) [OF ok] by (simp add: bitmap_area_def)
  then have "0 \<notin> bitmap_area (fo_al fs) \<union> insert (inode_table (fo_bm fs) k) (- foreign fs k)"
    using ff(1,3,4) by (metis Compl_iff UnE insert_iff subsetD)
  ultimately show ?thesis unfolding w(1) by (rule mountable_frame [OF ok m])
qed

lemma alloc_inode_mountable:
  assumes ok: "fs_ok fs" and m: "mountable fs" and t: "type_ok type" and now: "now < 2 ^ 64"
    and al: "alloc_inode now fs type = Some (r, fs')"
  shows "mountable fs'"
proof -
  have z: "0 \<in> alloc_used (fo_bm fs) (fo_al fs)" "0 \<notin> bitmap_area (fo_al fs) \<union> inode_area (fo_im fs)"
    using fs_okD(4,5) [OF ok] by (auto simp: reserved_def bitmap_area_def inode_area_def)
  from alloc_inode_steps [OF ok t now] al obtain S bm' where
    "fs' = fs\<lparr>fo_bm := bm'\<rparr>" "only_changes S (fo_bm fs) bm'"
    "0 \<notin> S" using z by fastforce
  with mountable_frame [OF ok m] show ?thesis by simp
qed

lemma remove_file_mountable:
  assumes ok: "fs_ok fs" and m: "mountable fs" and u: "usable fs i"
    and rm: "remove_file fs i = Some (r, fs')"
  shows "mountable fs'"
proof -
  from u obtain k where k: "i = Suc k" "k \<in> inode_used (fo_bm fs) (fo_im fs)"
    "Suc k < im_max_inode_supported (fo_im fs) - 1" by (rule usable_raw)
  have "direct_only fs i" using remove_file_indirect [OF ok u] rm by fastforce
  then have small: "file_n (fo_bm fs) k \<le> direct (file_ino (fo_bm fs) k)"
    using direct_only_raw(1) [OF ok k(2)] by (simp add: k(1))
  have z: "0 \<notin> bitmap_area (fo_al fs) \<union> inode_area (fo_im fs)"
    using fs_okD(4) [OF ok] by (simp add: bitmap_area_def inode_area_def)
  from remove_file_steps [OF ok k(2,3) small] rm obtain bm' where
    "fs' = fs\<lparr>fo_bm := bm'\<rparr>" "only_changes (bitmap_area (fo_al fs) \<union> inode_area (fo_im fs)) (fo_bm fs) bm'"
    by (auto simp: k(1))
  with mountable_frame [OF ok m _ z] show ?thesis by simp
qed

text \<open>\<open>write_file_w_off\<close> and \<open>resize\<close> change the device by at most one \<open>write_file\<close>.\<close>

lemma case_result_eq:
  "case_chfs_result f g r = v \<longleftrightarrow> (\<exists>x. r = Ok x \<and> f x = v) \<or> (\<exists>e. r = Err e \<and> g e = v)"
  by (cases r) auto

lemma write_file_w_off_cases:
  "write_file_w_off now fs i data offset = Some (r, fs') \<Longrightarrow>
   fs' = fs \<or> (\<exists>c r'. write_file now fs i c = Some (r', fs'))"
  by (auto simp: write_file_w_off_def Let_def bind_eq_Some_conv case_result_eq)

lemma resize_cases:
  "resize now fs i sz = Some (r, fs') \<Longrightarrow> fs' = fs \<or> (\<exists>c r'. write_file now fs i c = Some (r', fs'))"
  by (auto simp: resize_def bind_eq_Some_conv case_result_eq split: if_split_asm)

text \<open>One call of an operation that changes the device, on a file that exists.\<close>

inductive fs_step :: "file_operation \<Rightarrow> file_operation \<Rightarrow> bool" where
  step_alloc: "alloc_inode now fs type = Some (r, fs') \<Longrightarrow> type_ok type \<Longrightarrow> now < 2 ^ 64 \<Longrightarrow> fs_step fs fs'"
| step_write: "write_file now fs i content = Some (r, fs') \<Longrightarrow> usable fs i \<Longrightarrow> now < 2 ^ 64 \<Longrightarrow> fs_step fs fs'"
| step_write_off: "write_file_w_off now fs i data offset = Some (r', fs') \<Longrightarrow> usable fs i \<Longrightarrow> now < 2 ^ 64 \<Longrightarrow>
    fs_step fs fs'"
| step_resize: "resize now fs i sz = Some (r'', fs') \<Longrightarrow> usable fs i \<Longrightarrow> now < 2 ^ 64 \<Longrightarrow> fs_step fs fs'"
| step_remove: "remove_file fs i = Some (r, fs') \<Longrightarrow> usable fs i \<Longrightarrow> fs_step fs fs'"

inductive fs_reach :: "file_operation \<Rightarrow> bool" where
  formatted: "file_operation_create bm n garbage = Some fs \<Longrightarrow> can_format bm n \<Longrightarrow> super_block_ok garbage \<Longrightarrow>
    fs_reach fs"
| step: "fs_reach fs \<Longrightarrow> fs_step fs fs' \<Longrightarrow> fs_reach fs'"

lemma write_file_invariant:
  assumes "fs_ok fs \<and> mountable fs" "usable fs i" "now < 2 ^ 64" "write_file now fs i c = Some (r, fs')"
  shows "fs_ok fs' \<and> mountable fs'"
  using write_file_map [of fs i now c] write_file_mountable [of fs i now c r fs'] assms by auto

lemma fs_step_invariant:
  assumes "fs_step fs fs'" "fs_ok fs \<and> mountable fs"
  shows "fs_ok fs' \<and> mountable fs'"
  using assms
proof (induction rule: fs_step.induct)
  case (step_alloc now fs type r fs')
  then show ?case using alloc_inode_map [of fs type now] alloc_inode_mountable [of fs type now r fs'] by auto
next
  case (step_write now fs i content r fs')
  then show ?case using write_file_invariant by blast
next
  case (step_write_off now fs i data offset r fs')
  then show ?case using write_file_w_off_cases write_file_invariant by metis
next
  case (step_resize now fs i sz r fs')
  then show ?case using resize_cases write_file_invariant by metis
next
  case (step_remove fs i r fs')
  then have d: "direct_only fs i" using remove_file_indirect [of fs i] by fastforce
  with step_remove show ?case using remove_file_map [of fs i] remove_file_mountable [of fs i r fs'] by auto
qed

lemma fs_reach_invariant: "fs_reach fs \<Longrightarrow> fs_ok fs \<and> mountable fs"
proof (induction rule: fs_reach.induct)
  case (formatted bm n garbage fs)
  then show ?case using file_operation_create_ok [of bm n garbage] by auto
qed (use fs_step_invariant in blast)


section \<open>Enough free blocks\<close>

text \<open>
  How many blocks a growing write may take: one for each new block of the file, and one more
  when the inode has no indirect block yet.
\<close>

definition missing_indirect :: "inode \<Rightarrow> byte list option \<Rightarrow> nat" where
  "missing_indirect ino ind = (if ind = None \<and> ind_id ino = 0 then 1 else 0)"

lemma allocate_card:
  assumes ok: "alloc_ok bm al" and a: "allocate bm al = Some (r, bm')"
  shows "alloc_ok bm' al" "card (alloc_used bm' al) \<le> Suc (card (alloc_used bm al))"
    "r = Err e \<Longrightarrow> bm' = bm"
proof -
  have "alloc_ok bm' al \<and> card (alloc_used bm' al) \<le> Suc (card (alloc_used bm al)) \<and> (r = Err e \<longrightarrow> bm' = bm)"
  proof (cases "alloc_used bm al = {..<bm_block_cnt bm}")
    case True
    with allocate_full [OF ok True] a ok show ?thesis by simp
  next
    case False
    from ok False obtain k bm1 where "allocate bm al = Some (Ok k, bm1)" "alloc_ok bm1 al"
      "alloc_used bm1 al = insert k (alloc_used bm al)" by (rule allocate_free)
    with a show ?thesis by (auto simp: card_insert_if alloc_used_def)
  qed
  then show "alloc_ok bm' al" "card (alloc_used bm' al) \<le> Suc (card (alloc_used bm al))"
    "r = Err e \<Longrightarrow> bm' = bm" by auto
qed

lemma load_or_insert_card:
  assumes ok: "alloc_ok bm al" and ino: "inode_ok sz ino"
    and l: "load_or_insert_indirect al (bm, ino, ind) = Some (r, bm', ino')"
  shows "card (alloc_used bm' al) \<le> card (alloc_used bm al) + missing_indirect ino ind"
    "r = Err e \<Longrightarrow> bm' = bm \<and> missing_indirect ino ind = 1"
  using l allocate_card(2,3) [OF ok]
  by (auto simp: load_or_insert_indirect_def get_or_insert_unfold [OF ino] missing_indirect_def
      bind_eq_Some_conv case_result_eq read_block_def Let_def split: option.splits if_splits)

lemma alloc_block_step_card:
  assumes st: "wst_ok al F n (bm, ino, ind)"
    and a: "alloc_block_step al n (bm, ino, ind) = Some (r, (bm', ino', ind'))"
  shows "r = Err e \<Longrightarrow> card (alloc_used bm' al) \<le> card (alloc_used bm al) + missing_indirect ino ind"
    "r = KNullOk \<Longrightarrow> card (alloc_used bm' al) + missing_indirect ino' ind' \<le>
      card (alloc_used bm al) + 1 + missing_indirect ino ind"
proof -
  note w = wst_okD [OF st]
  note d = inode_ok_direct [OF w(2)]
  from a obtain r1 bm1 where al: "allocate bm al = Some (r1, bm1)"
    by (auto simp: alloc_block_step_def bind_eq_Some_conv)
  note c = allocate_card [OF w(1) al]
  have "(r = Err e \<longrightarrow> card (alloc_used bm' al) \<le> card (alloc_used bm al) + missing_indirect ino ind) \<and>
    (r = KNullOk \<longrightarrow> card (alloc_used bm' al) + missing_indirect ino' ind' \<le>
      card (alloc_used bm al) + 1 + missing_indirect ino ind)"
  proof (cases r1)
    case (Err e')
    with a al c(3) show ?thesis by (simp add: alloc_block_step_def)
  next
    case (Ok b)
    show ?thesis
    proof (cases "n < direct ino")
      case True
      have "bm' = bm1" "ino' = ino\<lparr>i_blocks := (i_blocks ino)[n := b]\<rparr>" "ind' = ind" "r = KNullOk"
        using a al Ok True d by (simp_all add: alloc_block_step_def set_block_direct_ok [OF w(2)])
      with c(2) True show ?thesis by (simp add: missing_indirect_def ind_id_def)
    next
      case False
      with a al Ok d obtain rd bm2 ino2 where
        l: "load_or_insert_indirect al (bm1, ino, ind) = Some (rd, bm2, ino2)" "bm' = bm2"
          "r = KNullOk \<longrightarrow> ind' \<noteq> None" "r = Err e \<longrightarrow> rd = Err e"
        by (auto simp: alloc_block_step_def bind_eq_Some_conv case_result_eq)
      from load_or_insert_card [OF c(1) w(2) l(1)] c(2) l(2-4) show ?thesis by (auto simp: missing_indirect_def)
    qed
  qed
  then show "r = Err e \<Longrightarrow> card (alloc_used bm' al) \<le> card (alloc_used bm al) + missing_indirect ino ind"
    "r = KNullOk \<Longrightarrow> card (alloc_used bm' al) + missing_indirect ino' ind' \<le>
      card (alloc_used bm al) + 1 + missing_indirect ino ind" by auto
qed

lemma alloc_blocks_loop_card:
  "wst_ok al F n (bm, ino, ind) \<Longrightarrow> n + k \<le> max_blocks (bm_block_sz bm) ino \<Longrightarrow>
   alloc_blocks_loop al n k (bm, ino, ind) = Some (Err e, (bm', ino', ind')) \<Longrightarrow>
   card (alloc_used bm' al) < card (alloc_used bm al) + k + missing_indirect ino ind"
proof (induction k arbitrary: n bm ino ind)
  case (Suc k)
  have "n < max_blocks (bm_block_sz bm) ino" using Suc.prems(2) by simp
  from alloc_block_step_ok [OF Suc.prems(1) this] obtain r1 bm1 ino1 ind1 where
    s: "alloc_block_step al n (bm, ino, ind) = Some (r1, (bm1, ino1, ind1))"
      "only_changes (bitmap_area al) bm bm1"
    and rc: "case r1 of
       Err e \<Rightarrow> e = OUT_OF_RESOURCE \<and> alloc_used bm1 al = {..<bm_block_cnt bm}
     | Ok _ \<Rightarrow> wst_ok al F (Suc n) (bm1, ino1, ind1) \<and> same_header ino ino1" by blast
  note c = alloc_block_step_card [OF Suc.prems(1) s(1)] and f = only_changes_fields [OF s(2)]
  show ?case
  proof (cases r1)
    case (Err e)
    with s(1) Suc.prems(3) c(1) show ?thesis by simp
  next
    case (Ok u)
    with rc have w: "wst_ok al F (Suc n) (bm1, ino1, ind1)" "same_header ino ino1" by simp_all
    have "Suc n + k \<le> max_blocks (bm_block_sz bm1) ino1"
      using Suc.prems(2) f same_header_fields [OF w(2)] by (simp add: max_blocks_def)
    moreover have "alloc_blocks_loop al (Suc n) k (bm1, ino1, ind1) = Some (Err e, (bm', ino', ind'))"
      using Suc.prems(3) s(1) Ok by simp
    ultimately have "card (alloc_used bm' al) < card (alloc_used bm1 al) + k + missing_indirect ino1 ind1"
      by (rule Suc.IH [OF w(1)])
    with c(2) Ok show ?thesis by simp
  qed
qed simp

definition blocks_needed :: "file_operation \<Rightarrow> nat \<Rightarrow> nat \<Rightarrow> nat" where
  "blocks_needed fs inode_id len =
     ceil_div len (bm_block_sz (fo_bm fs)) - file_n (fo_bm fs) (inode_id - 1) +
     missing_indirect (file_ino (fo_bm fs) (inode_id - 1)) None"


lemma card_alloc_used_le: "card (alloc_used bm al) \<le> bm_block_cnt bm"
  using card_mono [of "{..<bm_block_cnt bm}" "alloc_used bm al"] by (auto simp: alloc_used_def)

lemma adjust_blocks_succeeds:
  assumes st: "wst_ok al F n (bm, ino, ind)" and m: "m \<le> max_blocks (bm_block_sz bm) ino"
    and room: "m - n + missing_indirect ino ind \<le> bm_block_cnt bm - card (alloc_used bm al)"
  shows "\<exists>bm' ino' ind'. adjust_blocks al n m (bm, ino, ind) = Some (KNullOk, (bm', ino', ind')) \<and>
    only_changes (bitmap_area al) bm bm' \<and> wst_ok al F m (bm', ino', ind') \<and> same_header ino ino'"
proof -
  from adjust_blocks_ok [OF st m] obtain r bm' ino' ind' where
    a: "adjust_blocks al n m (bm, ino, ind) = Some (r, (bm', ino', ind'))" "only_changes (bitmap_area al) bm bm'"
    and c: "case r of
       Err e \<Rightarrow> e = OUT_OF_RESOURCE \<and> n < m \<and> alloc_ok bm' al \<and> alloc_used bm al \<subseteq> alloc_used bm' al \<and>
         alloc_used bm' al = {..<bm_block_cnt bm}
     | Ok _ \<Rightarrow> wst_ok al F m (bm', ino', ind') \<and> same_header ino ino'" by blast
  show ?thesis
  proof (cases r)
    case (Err e)
    with c have e: "n < m" "alloc_used bm' al = {..<bm_block_cnt bm}" by simp_all
    have "n + (m - n) \<le> max_blocks (bm_block_sz bm) ino" using m e(1) by simp
    moreover have "alloc_blocks_loop al n (m - n) (bm, ino, ind) = Some (Err e, (bm', ino', ind'))"
      using a(1) e(1) Err by (simp add: adjust_blocks_def)
    ultimately have "card (alloc_used bm' al) < card (alloc_used bm al) + (m - n) + missing_indirect ino ind"
      by (rule alloc_blocks_loop_card [OF st])
    with room e(2) card_alloc_used_le [of bm al] show ?thesis by simp
  qed (use a c in auto)
qed

lemma write_file_succeeds:
  assumes ok: "fs_ok fs" and u: "usable fs inode_id" and now: "now < 2 ^ 64"
    and len: "length content \<le> max_file_sz_supported (file_ino (fo_bm fs) (inode_id - 1))"
    and free: "get_free_blocks_num fs = Some (Ok free)" "blocks_needed fs inode_id (length content) \<le> free"
  shows "\<exists>fs'. write_file now fs inode_id content = Some (KNullOk, fs')"
proof -
  from u obtain k where k: "inode_id = Suc k" "k \<in> inode_used (fo_bm fs) (fo_im fs)"
    "Suc k < im_max_inode_supported (fo_im fs) - 1" by (rule usable_raw)
  let ?bm = "fo_bm fs" and ?al = "fo_al fs" and ?ino = "file_ino (fo_bm fs) k" and ?sz = "bm_block_sz (fo_bm fs)"
  note rd = read_file_inode [OF ok k(2,3)] and st = file_wst_ok [OF ok k(2)]
  note w = wst_okD [OF st]
  have sz: "0 < ?sz" by (rule alloc_okD(3) [OF w(1)])
  let ?m = "ceil_div (length content) ?sz"
  have fits: "\<not> max_file_sz_supported ?ino < length content" using len by (simp add: k(1))
  have old: "u32 (calculate_block_sz (fsize (i_attr ?ino)) ?sz) = file_n ?bm k"
    using file_size_bound(2) [OF st [unfolded file_n_def]] by (simp add: file_n_def)
  have l: "length content \<le> max_blocks ?sz ?ino * ?sz" "length content < 2 ^ 63"
    using fits max_file_sz_ok [OF w(2)] by auto
  then have m: "?m \<le> max_blocks ?sz ?ino" using sz by (intro ceil_div_le)
  then have "?m < 2 ^ 32" using inode_ok_direct(4) [OF w(2)] by simp
  then have new: "u32 (calculate_block_sz (length content) ?sz) = ?m"
    using calculate_block_sz_ok [OF sz l(2)] by (simp add: u32_def)
  have "free = bm_block_cnt ?bm - card (alloc_used ?bm ?al)"
    using free(1) free_block_cnt_ok [OF w(1)] card_Diff_subset [of "alloc_used ?bm ?al" "{..<bm_block_cnt ?bm}"]
    by (auto simp: get_free_blocks_num_def alloc_used_def)
  then have room: "?m - file_n ?bm k + missing_indirect ?ino None \<le> bm_block_cnt ?bm - card (alloc_used ?bm ?al)"
    using free(2) by (simp add: blocks_needed_def k(1))
  from adjust_blocks_succeeds [OF st m room] obtain bm1 ino1 ind1 where
    a: "adjust_blocks ?al (file_n ?bm k) ?m (?bm, ?ino, None) = Some (KNullOk, (bm1, ino1, ind1))"
      "only_changes (bitmap_area ?al) ?bm bm1" "wst_ok ?al (foreign fs k) ?m (bm1, ino1, ind1)"
      "same_header ?ino ino1" by blast
  have "?m = ceil_div (length content) (bm_block_sz bm1)" using only_changes_fields [OF a(2)] by simp
  from write_data_written [OF ok k(2) now a(3) this a(4,2)] obtain bm3 ino3 ind3 bm4 where
    d: "write_data_loop (?m + 1) content 0 0
        (bm1, ino1\<lparr>i_attr := (i_attr ino1)\<lparr>fsize := length content, mtime := now\<rparr>\<rparr>, ind1) =
        Some (KNullOk, (bm3, ino3, ind3))"
      "write_back now (inode_table ?bm k) (bm3, ino3, ind3) = Some (KNullOk, bm4)" by blast
  have "write_file now fs (Suc k) content = Some (KNullOk, fs\<lparr>fo_bm := bm4\<rparr>)"
    using rd fits a(1) d by (simp add: write_file_def Let_def old new del: write_data_loop.simps)
  then show ?thesis by (simp add: k(1))
qed

end
