(* ===== verification/File_Properties.thy ===== *)
theory File_Properties
  imports File_Lifecycle
begin

text \<open>
  The properties of the file layer (\<open>FileOperation\<close> in \<open>src/chfs/src/filesystem\<close>), stated
  on the map of files that a device holds, with a device of 80 blocks of 64 bytes on which
  each of them is applied.
\<close>

section \<open>A formatted device\<close>

definition demo_disk :: block_manager where
  "demo_disk = \<lparr>bm_block_sz = 64, bm_block_cnt = 80, bm_in_memory = True, bm_maybe_failed = False,
     bm_write_fail_cnt = 0, bm_block_data = replicate 5120 3\<rparr>"

definition demo_garbage :: super_block where
  "demo_garbage = \<lparr>sb_block_size = 1, sb_pad = [7, 7, 7, 7], sb_nblocks = 2, sb_ninodes = 3,
     sb_file_system_size = 4\<rparr>"

lemma demo_disk_ok: "can_format demo_disk 10" "super_block_ok demo_garbage"
  by (simp_all add: can_format_def can_hold_inodes_def demo_disk_def bm_ok_def fresh_inode_manager_def Let_def
      ceil_div_def bitmap_blocks_def super_block_ok_def demo_garbage_def)

lemma demo_layout:
  "im_max_inode_supported (fresh_inode_manager demo_disk 10) = 512"
  "al_bitmap_block_id (snd (fresh_layout demo_disk 10)) = 66"
  "al_bitmap_block_cnt (snd (fresh_layout demo_disk 10)) = 1"
  "bm_block_sz demo_disk = 64" "bm_block_cnt demo_disk = 80"
  by (simp_all add: fresh_layout_def fresh_allocator_def demo_disk_def fresh_inode_manager_def Let_def ceil_div_def
      bitmap_blocks_def)

text \<open>Formatting the device and creating one empty file on it.\<close>

lemma demo_file:
  "\<exists>fs fs1. file_operation_create demo_disk 10 demo_garbage = Some fs \<and> fs_reach fs \<and> fs_ok fs \<and>
    file_map fs = Map.empty \<and>
    alloc_inode 7 fs FILE = Some (Ok 1, fs1) \<and> fs_reach fs1 \<and> fs_ok fs1 \<and> usable fs1 1 \<and> file_map fs1 1 = Some [] \<and>
    bm_block_sz (fo_bm fs1) = 64 \<and> get_free_blocks_num fs1 = Some (Ok 12) \<and>
    get_free_inode_num fs1 = Some (Ok 511) \<and> inode_used (fo_bm fs1) (fo_im fs1) = {0} \<and>
    im_max_inode_supported (fo_im fs1) = 512"
proof -
  from file_operation_create_ok [OF demo_disk_ok] obtain fs where
    fs: "file_operation_create demo_disk 10 demo_garbage = Some fs" "fs_ok fs"
      "fo_im fs = fresh_inode_manager demo_disk 10" "fo_al fs = snd (fresh_layout demo_disk 10)"
      "alloc_used (fo_bm fs) (fo_al fs) = reserved (fo_al fs)" "inode_used (fo_bm fs) (fo_im fs) = {}"
      "only_changes UNIV demo_disk (fo_bm fs)" "file_map fs = Map.empty" by blast
  have sz: "bm_block_sz (fo_bm fs) = 64" "bm_block_cnt (fo_bm fs) = 80"
    using only_changes_fields(1,2) [OF fs(7)] by (simp_all add: demo_layout)
  have r: "reserved (fo_al fs) = {..<67}" by (simp add: reserved_def fs(4) demo_layout)
  have nf: "alloc_used (fo_bm fs) (fo_al fs) \<noteq> {..<bm_block_cnt (fo_bm fs)}"
    "inode_used (fo_bm fs) (fo_im fs) \<noteq> {..<im_max_inode_supported (fo_im fs)}"
    using fs(3,5,6) sz r lessThan_empty_iff [of "512 :: nat"] by (simp_all add: demo_layout eq_commute)
  from alloc_inode_steps [OF fs(2), of FILE 7] nf obtain k bid bm' where
    a: "alloc_inode 7 fs FILE = Some (Ok (Suc k), fs\<lparr>fo_bm := bm'\<rparr>)" "{..<k} \<subseteq> inode_used (fo_bm fs) (fo_im fs)"
      "bid \<notin> alloc_used (fo_bm fs) (fo_al fs)" "alloc_ok bm' (fo_al fs)"
      "alloc_used bm' (fo_al fs) = insert bid (alloc_used (fo_bm fs) (fo_al fs))"
      "only_changes (insert bid (bitmap_area (fo_al fs) \<union> inode_area (fo_im fs))) (fo_bm fs) bm'"
      "inode_used bm' (fo_im fs) = insert k (inode_used (fo_bm fs) (fo_im fs))"
    by auto
  let ?fs1 = "fs\<lparr>fo_bm := bm'\<rparr>"
  have k: "Suc k = 1" using a(2) fs(6) by auto
  from alloc_inode_map [OF fs(2), of FILE 7] a(1) have
    m: "fs_ok ?fs1" "file_map ?fs1 = (file_map fs)(Suc k \<mapsto> [])" by simp_all
  have reach: "fs_reach fs" by (rule fs_reach.formatted [OF fs(1) demo_disk_ok])
  have "fs_step fs ?fs1" by (rule fs_step.step_alloc [OF a(1)]) simp_all
  then have reach1: "fs_reach ?fs1" by (rule fs_reach.step [OF reach])
  have u: "usable ?fs1 1" using m(2) k fs(3) by (simp add: usable_def demo_layout)
  have "bm_block_cnt bm' = 80" "bm_block_sz bm' = 64"
    using only_changes_fields(1,2) [OF a(6)] sz by simp_all
  moreover have "bid < 80" "bid \<notin> {..<67}"
    using a(3,5) fs(5) r calculation by (auto simp: alloc_used_def)
  then have "card ({..<80} - insert bid {..<67}) = 12" by (simp add: card_Diff_subset card_insert_if)
  ultimately have "get_free_blocks_num ?fs1 = Some (Ok 12)"
    using free_block_cnt_ok [OF a(4)] a(5) fs(5) r by (simp add: get_free_blocks_num_def)
  moreover have "inode_used bm' (fo_im fs) = {0}" using a(7) fs(6) k by simp
  moreover have "get_free_inode_num ?fs1 = Some (Ok 511)"
    using free_inode_cnt_ok [OF fs_okD(1) [OF m(1)]] calculation(2) fs(3)
    by (simp add: get_free_inode_num_def demo_layout)
  ultimately show ?thesis
    using fs(1,2,3,8) reach reach1 m k u a(1) \<open>bm_block_sz bm' = 64\<close>
    by (intro exI [of _ fs] exI [of _ ?fs1]) (simp add: demo_layout)
qed


lemma usable_inode_ok:
  assumes "fs_ok fs" "usable fs i"
  shows "inode_ok (bm_block_sz (fo_bm fs)) (file_ino (fo_bm fs) (i - 1))"
    "direct_only fs i \<longleftrightarrow> file_n (fo_bm fs) (i - 1) \<le> direct (file_ino (fo_bm fs) (i - 1))"
proof -
  from assms(2) obtain k where k: "i = Suc k" "k \<in> inode_used (fo_bm fs) (fo_im fs)" by (rule usable_raw)
  show "inode_ok (bm_block_sz (fo_bm fs)) (file_ino (fo_bm fs) (i - 1))"
    using wst_okD(2) [OF file_wst_ok [OF assms(1) k(2)]] by (simp add: k(1))
  show "direct_only fs i \<longleftrightarrow> file_n (fo_bm fs) (i - 1) \<le> direct (file_ino (fo_bm fs) (i - 1))"
    using direct_only_raw(1) [OF assms(1) k(2)] by (simp add: k(1))
qed

lemma ceil_div_le_iff: "0 < b \<Longrightarrow> ceil_div t b \<le> c \<longleftrightarrow> t \<le> c * b"
  using ceil_div_le [of b t c] ceil_div_pos [of b t] mult_le_mono1 [of "ceil_div t b" c b]
  by (cases "t = 0") (auto intro: le_trans)

lemma demo_inode:
  assumes "fs_ok fs" "usable fs i" "bm_block_sz (fo_bm fs) = 64"
  shows "max_file_sz_supported (file_ino (fo_bm fs) (i - 1)) = 576"
    "direct_only fs i \<longleftrightarrow> length (the (file_map fs i)) \<le> 64"
proof -
  note o = usable_inode_ok [OF assms(1,2)]
  have n: "i_nblocks (file_ino (fo_bm fs) (i - 1)) = 2" using o(1) assms(3) by (simp add: inode_ok_def)
  show "max_file_sz_supported (file_ino (fo_bm fs) (i - 1)) = 576"
    using max_file_sz_ok(1) [OF o(1)] assms(3) n by (simp add: max_blocks_def)
  show "direct_only fs i \<longleftrightarrow> length (the (file_map fs i)) \<le> 64"
    unfolding o(2) file_n_def getattr_ok(4) [OF assms(1,2)] assms(3) n
    by (simp add: ceil_div_le_iff)
qed

text \<open>A second file system, with a file of 100 bytes that has an indirect block.\<close>

lemma demo_big_file:
  "\<exists>fs. fs_reach fs \<and> fs_ok fs \<and> usable fs 1 \<and> file_map fs 1 = Some (replicate 100 5) \<and> \<not> direct_only fs 1"
proof -
  from demo_file obtain fs1 where f: "fs_reach fs1" "fs_ok fs1" "usable fs1 1" "bm_block_sz (fo_bm fs1) = 64"
    "get_free_blocks_num fs1 = Some (Ok 12)" by blast
  have need: "blocks_needed fs1 1 (length (replicate 100 (5 :: byte))) \<le> 12"
    by (simp add: blocks_needed_def f(4) ceil_div_def missing_indirect_def) linarith
  have now: "(9 :: nat) < 2 ^ 64" by simp
  have len: "length (replicate 100 (5 :: byte)) \<le> max_file_sz_supported (file_ino (fo_bm fs1) (1 - 1))"
    unfolding demo_inode(1) [OF f(2,3,4)] by simp
  from write_file_succeeds [OF f(2,3) now len f(5) need] obtain fs2 where
    w: "write_file 9 fs1 1 (replicate 100 5) = Some (KNullOk, fs2)" by blast
  from write_file_map [OF f(2,3) now, of "replicate 100 5"] w have
    m: "fs_ok fs2" "fo_im fs2 = fo_im fs1" "file_map fs2 = (file_map fs1)(1 \<mapsto> replicate 100 5)" by simp_all
  have reach: "fs_reach fs2" by (rule fs_reach.step [OF f(1) fs_step.step_write [OF w f(3) now]])
  have u: "usable fs2 1" using m f(3) by (auto simp: usable_def)
  from f(3) obtain k where k: "1 = Suc k" "k \<in> inode_used (fo_bm fs1) (fo_im fs1)"
    "Suc k < im_max_inode_supported (fo_im fs1) - 1" by (rule usable_raw)
  from write_file_ok [OF f(2) k(2,3) now, of "replicate 100 5"] w k(1) have "bm_block_sz (fo_bm fs2) = 64"
    by (auto simp: written_def Let_def f(4) dest: only_changes_fields(1))
  from demo_inode(2) [OF m(1) u this] m(3) have "\<not> direct_only fs2 1" by simp
  with reach m(1,3) u show ?thesis by auto
qed

section \<open>Properties\<close>

text \<open>C1. \<open>write_file\<close> on a file that exists always returns. It either replaces the contents
  of exactly that file, or fails with \<open>OUT_OF_RESOURCE\<close> and leaves every file as it was; it
  fails only when the contents exceed the largest file size or no free block is left.\<close>

theorem write_file_refines_map_update:
  assumes "fs_ok fs" "usable fs inode_id" "now < 2 ^ 64"
  shows "\<exists>r fs'. write_file now fs inode_id content = Some (r, fs') \<and> fs_ok fs' \<and> fo_im fs' = fo_im fs \<and>
    (case r of
       Ok _ \<Rightarrow> file_map fs' = (file_map fs)(inode_id \<mapsto> content)
     | Err e \<Rightarrow> e = OUT_OF_RESOURCE \<and> file_map fs' = file_map fs \<and> no_room fs inode_id (length content) fs')"
  by (rule write_file_map [OF assms])

theorem write_file_refines_map_update_witness:
  "\<exists>fs r fs'. fs_ok fs \<and> usable fs 1 \<and> write_file 9 fs 1 [1, 2, 3] = Some (r, fs') \<and> fs_ok fs' \<and>
    (case r of
       Ok _ \<Rightarrow> file_map fs' = (file_map fs)(1 \<mapsto> [1, 2, 3])
     | Err e \<Rightarrow> e = OUT_OF_RESOURCE \<and> file_map fs' = file_map fs \<and> no_room fs 1 (length [1, 2, 3 :: byte]) fs')"
proof -
  from demo_file obtain fs where f: "fs_ok fs" "usable fs 1" by blast
  have "(9 :: nat) < 2 ^ 64" by simp
  from write_file_refines_map_update [OF f this, of "[1, 2, 3]"] f show ?thesis by blast
qed

text \<open>C25. \<open>write_file\<close> succeeds whenever the contents do not exceed the largest file size
  and the free blocks cover the blocks the file grows by, and one more if it has no indirect
  block.\<close>

theorem write_file_succeeds_with_room:
  assumes "fs_ok fs" "usable fs inode_id" "now < 2 ^ 64"
    and "length content \<le> max_file_sz_supported (file_ino (fo_bm fs) (inode_id - 1))"
    and "get_free_blocks_num fs = Some (Ok free)" "blocks_needed fs inode_id (length content) \<le> free"
  shows "\<exists>fs'. write_file now fs inode_id content = Some (KNullOk, fs') \<and> fs_ok fs' \<and>
    read_file fs' inode_id = Some (Ok content)"
proof -
  from write_file_succeeds [OF assms] obtain fs' where w: "write_file now fs inode_id content = Some (KNullOk, fs')"
    by blast
  have "fs_ok fs \<and> now < 2 ^ 64" using assms(1,3) by simp
  from fstore.read_after_write [OF this assms(2,2) w] w show ?thesis by auto
qed

theorem write_file_succeeds_with_room_witness:
  "\<exists>fs fs'. get_free_blocks_num fs = Some (Ok 12) \<and> blocks_needed fs 1 130 \<le> 12 \<and>
    write_file 9 fs 1 (replicate 130 6) = Some (KNullOk, fs') \<and> fs_ok fs' \<and>
    read_file fs' 1 = Some (Ok (replicate 130 6))"
proof -
  from demo_file obtain fs where f: "fs_ok fs" "usable fs 1" "bm_block_sz (fo_bm fs) = 64"
    "get_free_blocks_num fs = Some (Ok 12)" by blast
  have need: "blocks_needed fs 1 (length (replicate 130 (6 :: byte))) \<le> 12"
    by (simp add: blocks_needed_def f(3) ceil_div_def missing_indirect_def) linarith
  have now: "(9 :: nat) < 2 ^ 64" by simp
  have len: "length (replicate 130 (6 :: byte)) \<le> max_file_sz_supported (file_ino (fo_bm fs) (1 - 1))"
    unfolding demo_inode(1) [OF f(1-3)] by simp
  from write_file_succeeds_with_room [OF f(1,2) now len f(4) need] f(4) need show ?thesis by auto
qed


text \<open>C3. Reading any file after \<open>write_file\<close> returns the written contents for the file
  written and the old contents for every other file; after a failed write every file reads as
  before it.\<close>

theorem read_after_write_file:
  assumes "fs_ok fs" "usable fs i" "usable fs j" "now < 2 ^ 64" "write_file now fs i content = Some (r, fs')"
  shows "read_file fs' j = (if j = i \<and> r = KNullOk then Some (Ok content) else read_file fs j)"
proof -
  have ok: "fs_ok fs \<and> now < 2 ^ 64" using assms(1,4) by simp
  show ?thesis
  proof (cases r)
    case (Ok u)
    then have w: "write_file now fs i content = Some (Ok (), fs')" using assms(5) by simp
    show ?thesis
      using fstore.read_after_write(1) [OF ok assms(2,3) w] read_file_map [OF assms(1,3)] Ok by auto
  next
    case (Err e)
    then have w: "write_file now fs i content = Some (Err e, fs')" using assms(5) by simp
    show ?thesis using fstore.read_after_failed_write(1) [OF ok assms(2,3) w] Err by simp
  qed
qed

theorem read_after_write_file_witness:
  "\<exists>fs fs'. fs_ok fs \<and> usable fs 1 \<and> write_file 9 fs 1 [4, 5] = Some (KNullOk, fs') \<and>
    read_file fs' 1 = Some (Ok [4, 5])"
proof -
  from demo_file obtain fs where f: "fs_ok fs" "usable fs 1" "bm_block_sz (fo_bm fs) = 64"
    "get_free_blocks_num fs = Some (Ok 12)" by blast
  have need: "blocks_needed fs 1 (length [4, 5 :: byte]) \<le> 12"
    by (simp add: blocks_needed_def f(3) ceil_div_def missing_indirect_def) linarith
  have now: "(9 :: nat) < 2 ^ 64" by simp
  have len: "length [4, 5 :: byte] \<le> max_file_sz_supported (file_ino (fo_bm fs) (1 - 1))"
    unfolding demo_inode(1) [OF f(1-3)] by simp
  from write_file_succeeds [OF f(1,2) now len f(4) need] obtain fs' where
    w: "write_file 9 fs 1 [4, 5] = Some (KNullOk, fs')" by blast
  from read_after_write_file [OF f(1,2,2) now w] w f(1,2) show ?thesis by auto
qed

lemma overwrite_bytes:
  "length (overwrite c offset data) = max (length c) (offset + length data)"
  "x < length (overwrite c offset data) \<Longrightarrow> overwrite c offset data ! x =
    (if offset \<le> x \<and> x < offset + length data then data ! (x - offset)
     else if x < length c then c ! x else 0)"
  by (auto simp: overwrite_def patch_def vec_resize_def nth_append max_def)

text \<open>\<open>write_file_w_off\<close> overwrites the contents from the offset on and returns the number of bytes
  written; or it fails with \<open>OUT_OF_RESOURCE\<close> and leaves every file as it was.\<close>

lemma write_file_w_off_map:
  assumes "fs_ok fs" "usable fs i" "now < 2 ^ 64" "offset + length data < 2 ^ 64" "file_map fs i = Some c"
  shows "\<exists>r fs'. write_file_w_off now fs i data offset = Some (r, fs') \<and> fs_ok fs' \<and> (\<forall>j. usable fs' j = usable fs j) \<and>
    (case r of
       Ok n \<Rightarrow> n = length data \<and> file_map fs' = (file_map fs)(i \<mapsto> overwrite c offset data)
     | Err e \<Rightarrow> e = OUT_OF_RESOURCE \<and> file_map fs' = file_map fs)"
proof -
  have ok: "fs_ok fs \<and> now < 2 ^ 64" using assms(1,3) by simp
  let ?c = "overwrite c offset data"
  have c: "the (file_map fs i) = c" using assms(5) by simp
  from fstore.rmw_law [OF ok assms(2), of "\<lambda>c. overwrite c offset data", unfolded c] obtain r fs' where
    w: "fstore.rmw now (\<lambda>c. overwrite c offset data) fs i = Some (r, fs')" "fs_ok fs'" "\<forall>j. usable fs' j = usable fs j"
      "case r of
         Ok _ \<Rightarrow> file_map fs' = (file_map fs)(i \<mapsto> ?c)
       | Err e \<Rightarrow> e = OUT_OF_RESOURCE \<and> file_map fs' = file_map fs \<and> no_room fs i (length ?c) fs'" by blast
  have "write_file_w_off now fs i data offset =
      Some (case r of Ok _ \<Rightarrow> Ok (length data) | Err e \<Rightarrow> Err e, fs')"
    using write_file_w_off_rmw [OF assms(1,3,2,4)] w(1) by simp
  with w(2-4) show ?thesis by (cases r) auto
qed

text \<open>\<open>read_file_w_off\<close> returns exactly the requested bytes when they lie within the
  file. A range that ends behind the end of the file is not checked: the copy reads past the
  contents.\<close>

theorem read_file_w_off_range:
  assumes "fs_ok fs" "usable fs i" "file_map fs i = Some c"
  shows "read_file_w_off fs i sz offset =
    (if offset + sz \<le> length c then Some (Ok (take sz (drop offset c))) else None)"
  using read_file_map [OF assms(1,2)] assms(3) by (simp add: read_file_w_off_def peek_def chunk_def)

theorem read_file_w_off_range_witness:
  "\<exists>fs. file_map fs 1 = Some (replicate 100 5) \<and>
    read_file_w_off fs 1 4 90 = Some (Ok (take 4 (drop 90 (replicate 100 5)))) \<and>
    read_file_w_off fs 1 20 90 = None"
proof -
  from demo_big_file obtain fs where f: "fs_ok fs" "usable fs 1" "file_map fs 1 = Some (replicate 100 5)" by blast
  show ?thesis
    using read_file_w_off_range [OF f, of 4 90] read_file_w_off_range [OF f, of 20 90] f(3) by auto
qed

text \<open>\<open>resize\<close> cuts the contents or extends them with zero bytes to the requested
  size and reports that size, or it fails with \<open>OUT_OF_RESOURCE\<close> and changes no file.\<close>

lemma resize_correct:
  assumes "fs_ok fs" "usable fs i" "now < 2 ^ 64" "file_map fs i = Some c"
  shows "\<exists>r fs'. resize now fs i sz = Some (r, fs') \<and> fs_ok fs' \<and>
    (case r of
       Ok attr \<Rightarrow> fsize attr = sz \<and> file_map fs' = (file_map fs)(i \<mapsto> take sz c @ replicate (sz - length c) 0)
     | Err e \<Rightarrow> e = OUT_OF_RESOURCE \<and> file_map fs' = file_map fs \<and> no_room fs i sz fs')"
proof -
  have ok: "fs_ok fs \<and> now < 2 ^ 64" using assms(1,3) by simp
  have c: "the (file_map fs i) = c" using assms(4) by simp
  have v: "vec_resize c sz = take sz c @ replicate (sz - length c) 0" by (simp add: vec_resize_def)
  note a = getattr_ok(1) [OF assms(1,2)]
  show ?thesis
  proof (cases "length c = sz")
    case True
    with a read_file_map [OF assms(1,2)] assms show ?thesis by (simp add: resize_def fun_upd_idem)
  next
    case False
    from fstore.rmw_law [OF ok assms(2), of "\<lambda>c. vec_resize c sz", unfolded c] obtain r fs' where
      w: "fstore.rmw now (\<lambda>c. vec_resize c sz) fs i = Some (r, fs')" "fs_ok fs'"
        "case r of
           Ok _ \<Rightarrow> file_map fs' = (file_map fs)(i \<mapsto> vec_resize c sz)
         | Err e \<Rightarrow> e = OUT_OF_RESOURCE \<and> file_map fs' = file_map fs \<and> no_room fs i (length (vec_resize c sz)) fs'"
      by blast
    have "length (the (file_map fs i)) \<noteq> sz" using False c by simp
    from resize_rmw [OF assms(1,3,2) a this] w length_vec_resize [of c sz] show ?thesis
      by (cases r) (simp_all add: v del: length_append length_take)
  qed
qed

text \<open>\<open>alloc_inode\<close> adds an empty file of the requested type under the smallest unused
  number and changes no other file, or it fails with \<open>OUT_OF_RESOURCE\<close> because blocks or
  inodes are used up, and then the files stay as they are.\<close>

theorem alloc_inode_adds_empty_file:
  assumes "fs_ok fs" "type_ok type" "now < 2 ^ 64"
  shows "\<exists>r fs'. alloc_inode now fs type = Some (r, fs') \<and> fs_ok fs' \<and>
    (case r of
      Ok inode_id \<Rightarrow> 1 \<le> inode_id \<and> inode_id \<le> im_max_inode_supported (fo_im fs) \<and>
        {1..<inode_id} \<subseteq> dom (file_map fs) \<and> file_map fs inode_id = None \<and>
        file_map fs' = (file_map fs)(inode_id \<mapsto> []) \<and>
        i_type (file_ino (fo_bm fs') (inode_id - 1)) = type \<and>
        i_attr (file_ino (fo_bm fs') (inode_id - 1)) = \<lparr>atime = now, mtime = now, ctime = now, fsize = 0\<rparr>
    | Err e \<Rightarrow> e = OUT_OF_RESOURCE \<and> file_map fs' = file_map fs \<and>
        (get_free_blocks_num fs = Some (Ok 0) \<or> get_free_inode_num fs = Some (Ok 0)))"
proof -
  from alloc_inode_map [OF assms] obtain r fs' where
    a: "alloc_inode now fs type = Some (r, fs')" "fs_ok fs'" and c: "case r of
      Ok inode_id \<Rightarrow> 1 \<le> inode_id \<and> inode_id \<le> im_max_inode_supported (fo_im fs) \<and>
        {1..<inode_id} \<subseteq> dom (file_map fs) \<and> file_map fs inode_id = None \<and>
        file_map fs' = (file_map fs)(inode_id \<mapsto> []) \<and>
        i_type (file_ino (fo_bm fs') (inode_id - 1)) = type \<and>
        i_attr (file_ino (fo_bm fs') (inode_id - 1)) = \<lparr>atime = now, mtime = now, ctime = now, fsize = 0\<rparr> \<and>
        (\<forall>j. j + 1 \<in> dom (file_map fs) \<longrightarrow> file_ino (fo_bm fs') j = file_ino (fo_bm fs) j)
    | Err e \<Rightarrow> e = OUT_OF_RESOURCE \<and> file_map fs' = file_map fs \<and>
        (get_free_blocks_num fs = Some (Ok 0) \<or> get_free_inode_num fs = Some (Ok 0)) \<and>
        (\<forall>j. j + 1 \<in> dom (file_map fs) \<longrightarrow> file_ino (fo_bm fs') j = file_ino (fo_bm fs) j)" by blast
  from a c show ?thesis by (cases r) simp_all
qed

theorem alloc_inode_adds_empty_file_witness:
  "\<exists>fs fs'. fs_ok fs \<and> alloc_inode 7 fs FILE = Some (Ok 1, fs') \<and> fs_ok fs' \<and> file_map fs 1 = None \<and>
    file_map fs' = (file_map fs)(1 \<mapsto> []) \<and> i_type (file_ino (fo_bm fs') (1 - 1)) = FILE"
proof -
  from demo_file obtain fs fs1 where f: "fs_ok fs" "alloc_inode 7 fs FILE = Some (Ok 1, fs1)" by blast
  from alloc_inode_adds_empty_file [OF f(1), of FILE 7] f show ?thesis by auto
qed


text \<open>C28. Removing a file that fits in the direct blocks of its inode succeeds, deletes exactly
  this file and gives back exactly the blocks it owned, its inode block included.\<close>

theorem remove_file_frees_file:
  assumes "fs_ok fs" "usable fs inode_id" "direct_only fs inode_id"
  shows "\<exists>fs'. remove_file fs inode_id = Some (KNullOk, fs') \<and> fs_ok fs' \<and>
    file_map fs' = (file_map fs)(inode_id := None) \<and>
    alloc_used (fo_bm fs') (fo_al fs') = alloc_used (fo_bm fs) (fo_al fs) - owned (fo_bm fs) (inode_id - 1)"
  using remove_file_map [OF assms] by metis

theorem remove_file_frees_file_witness:
  "\<exists>fs fs'. fs_ok fs \<and> file_map fs 1 = Some [] \<and> direct_only fs 1 \<and> remove_file fs 1 = Some (KNullOk, fs') \<and>
    fs_ok fs' \<and> file_map fs' = (file_map fs)(1 := None)"
proof -
  from demo_file obtain fs where f: "fs_ok fs" "usable fs 1" "bm_block_sz (fo_bm fs) = 64" "file_map fs 1 = Some []"
    by blast
  have d: "direct_only fs 1" using demo_inode(2) [OF f(1-3)] f(4) by simp
  from remove_file_frees_file [OF f(1,2) d] f d show ?thesis by blast
qed

text \<open>C32. Removing a file that needs its indirect block never returns: the block is copied
  into a vector that has no storage.\<close>

theorem remove_file_with_indirect_block:
  assumes "fs_ok fs" "usable fs inode_id" "\<not> direct_only fs inode_id"
  shows "remove_file fs inode_id = None"
  by (rule remove_file_indirect [OF assms])

theorem remove_file_with_indirect_block_witness:
  "\<exists>fs. fs_reach fs \<and> file_map fs 1 = Some (replicate 100 5) \<and> remove_file fs 1 = None"
proof -
  from demo_big_file obtain fs where f: "fs_reach fs" "fs_ok fs" "usable fs 1"
    "file_map fs 1 = Some (replicate 100 5)" "\<not> direct_only fs 1" by blast
  from remove_file_with_indirect_block [OF f(2,3,5)] f show ?thesis by blast
qed

text \<open>C2. In every state that formatting and any sequence of file creations, writes, resizes
  and removals can reach, no two files share a block, no file owns a block of the metadata
  area, every block of a file is marked in the bitmap, and mounting the device again
  (\<open>create_from_raw\<close>) gives back the same file system.\<close>

theorem reachable_file_system_ok:
  assumes "fs_reach fs"
  shows "fs_ok fs \<and> create_from_raw (fo_bm fs) = Some (Ok fs) \<and>
    (\<forall>i j. i + 1 \<in> dom (file_map fs) \<longrightarrow> j + 1 \<in> dom (file_map fs) \<longrightarrow> i \<noteq> j \<longrightarrow>
       owned (fo_bm fs) i \<inter> owned (fo_bm fs) j = {}) \<and>
    (\<forall>i. i + 1 \<in> dom (file_map fs) \<longrightarrow>
       owned (fo_bm fs) i \<subseteq> alloc_used (fo_bm fs) (fo_al fs) - reserved (fo_al fs))"
proof -
  have i: "fs_ok fs" "mountable fs" using fs_reach_invariant [OF assms] by auto
  have d: "k \<in> inode_used (fo_bm fs) (fo_im fs)" if "k + 1 \<in> dom (file_map fs)" for k
    using that by (auto simp: file_map_def split: if_splits)
  show ?thesis
    using i create_from_raw_ok [OF i(2)] fs_okD(7) [OF i(1) d d] owned_used(1) [OF fs_okD(6) [OF i(1) d]] by blast
qed

theorem reachable_file_system_ok_witness:
  "\<exists>fs. file_map fs 1 = Some (replicate 100 5) \<and> fs_ok fs \<and> create_from_raw (fo_bm fs) = Some (Ok fs)"
proof -
  from demo_big_file obtain fs where f: "fs_reach fs" "file_map fs 1 = Some (replicate 100 5)" by blast
  from reachable_file_system_ok [OF f(1)] f(2) show ?thesis by blast
qed

end
