(* ===== verification/Directory.thy ===== *)
theory Directory
  imports File_Properties
begin

text \<open>
  Directories on top of files (\<open>src/chfs/src/filesystem/directory_op.cc\<close>): a directory is a
  file that holds the text \<open>name0:inode0/name1:inode1/...\<close>. Strings are lists of characters;
  the loops that copy a byte vector to a string and back are the maps between the two.
\<close>

section \<open>Model\<close>

record directory_entry =
  de_name :: string
  de_id :: nat

definition str_of_bytes :: "byte list \<Rightarrow> string" where
  "str_of_bytes bs = map (\<lambda>b. char_of (unat b)) bs"

definition bytes_of_str :: "string \<Rightarrow> byte list" where
  "bytes_of_str s = map (\<lambda>c. word_of_nat (of_char c)) s"

subsection \<open>Numbers as text\<close>

text \<open>
  \<open>ss >> inode\<close> on an unsigned number: white space is skipped, a sign is accepted, the value
  is the longest run of digits. No digit gives 0, a value above the range gives the largest
  number, a minus sign negates modulo \<open>2 ^ 64\<close>.
\<close>

definition is_digit :: "char \<Rightarrow> bool" where
  "is_digit c \<longleftrightarrow> 48 \<le> (of_char c :: nat) \<and> (of_char c :: nat) \<le> 57"

definition is_space :: "char \<Rightarrow> bool" where
  "is_space c \<longleftrightarrow> (of_char c :: nat) = 32 \<or> 9 \<le> (of_char c :: nat) \<and> (of_char c :: nat) \<le> 13"

definition digits_value :: "string \<Rightarrow> nat" where
  "digits_value ds = foldl (\<lambda>v c. 10 * v + (of_char c - 48)) 0 ds"

definition string_to_inode_id :: "string \<Rightarrow> nat" where
  "string_to_inode_id data =
     (let s = dropWhile is_space data;
          neg = (s \<noteq> [] \<and> hd s = CHR ''-'');
          s' = (if s \<noteq> [] \<and> (hd s = CHR ''-'' \<or> hd s = CHR ''+'') then tl s else s);
          ds = takeWhile is_digit s';
          v = digits_value ds
      in if 2 ^ 64 \<le> v then 2 ^ 64 - 1 else if neg then sub64 0 v else v)"

fun inode_id_to_string :: "nat \<Rightarrow> string" where
  "inode_id_to_string n =
     (if n < 10 then [char_of (48 + n)]
      else inode_id_to_string (n div 10) @ [char_of (48 + n mod 10)])"

declare inode_id_to_string.simps [simp del]

subsection \<open>Directory text\<close>

text \<open>The loop of \<open>dir_list_to_string\<close>: \<open>cnt\<close> entries are done, \<open>n\<close> is the size of the list.\<close>

fun dir_list_loop :: "nat \<Rightarrow> nat \<Rightarrow> directory_entry list \<Rightarrow> string" where
  "dir_list_loop cnt n [] = []"
| "dir_list_loop cnt n (e # es) =
     de_name e @ '':'' @ inode_id_to_string (de_id e) @ (if cnt < n - 1 then ''/'' else []) @
     dir_list_loop (cnt + 1) n es"

definition dir_list_to_string :: "directory_entry list \<Rightarrow> string" where
  "dir_list_to_string entries = dir_list_loop 0 (length entries) entries"

definition append_to_directory :: "string \<Rightarrow> string \<Rightarrow> nat \<Rightarrow> string" where
  "append_to_directory src filename inode_id =
     (if src \<noteq> [] then src @ ''/'' else src) @ filename @ '':'' @ inode_id_to_string inode_id"

text \<open>
  The pieces that \<open>std::getline (iss, entry, '/')\<close> returns one after the other: it stops with
  an error when nothing is left, so a delimiter at the end adds no empty piece.
\<close>

function getlines :: "string \<Rightarrow> string list" where
  "getlines s =
     (if s = [] then []
      else takeWhile (\<lambda>c. c \<noteq> CHR ''/'') s # getlines (tl (dropWhile (\<lambda>c. c \<noteq> CHR ''/'') s)))"
  by auto

lemma length_tl_dropWhile: "s \<noteq> [] \<Longrightarrow> length (tl (dropWhile P s)) < length s"
proof -
  assume "s \<noteq> []"
  then have "0 < length s" by simp
  with length_dropWhile_le [of P s] show ?thesis unfolding length_tl by linarith
qed

termination getlines
  by (relation "measure length") (simp_all add: length_tl_dropWhile del: length_tl)

declare getlines.simps [simp del]

definition parse_entry :: "string \<Rightarrow> directory_entry option" where
  "parse_entry entry =
     (if CHR '':'' \<in> set entry
      then Some \<lparr>de_name = takeWhile (\<lambda>c. c \<noteq> CHR '':'') entry,
                 de_id = string_to_inode_id (tl (dropWhile (\<lambda>c. c \<noteq> CHR '':'') entry))\<rparr>
      else None)"

definition parse_directory :: "string \<Rightarrow> directory_entry list" where
  "parse_directory src = List.map_filter parse_entry (getlines src)"

definition rm_from_directory :: "string \<Rightarrow> string \<Rightarrow> string" where
  "rm_from_directory src filename =
     dir_list_to_string (filter (\<lambda>e. de_name e \<noteq> filename) (parse_directory src))"

subsection \<open>Operations\<close>

definition read_directory :: "file_operation \<Rightarrow> nat \<Rightarrow> directory_entry list chfs_result option" where
  "read_directory fs inode_id = do {
     res \<leftarrow> read_file fs inode_id;
     case res of
       Err e \<Rightarrow> Some (Err e)
     | Ok dir_content \<Rightarrow> Some (Ok (parse_directory (str_of_bytes dir_content)))
   }"

definition find_entry :: "directory_entry list \<Rightarrow> string \<Rightarrow> directory_entry option" where
  "find_entry entries name = List.find (\<lambda>e. de_name e = name) entries"

definition lookup :: "file_operation \<Rightarrow> nat \<Rightarrow> string \<Rightarrow> nat chfs_result option" where
  "lookup fs inode_id name = do {
     res \<leftarrow> read_directory fs inode_id;
     case res of
       Err e \<Rightarrow> Some (Err e)
     | Ok entries \<Rightarrow>
         (case find_entry entries name of
            Some e \<Rightarrow> Some (Ok (de_id e))
          | None \<Rightarrow> Some (Err NotExist))
   }"

text \<open>\<open>t1\<close> and \<open>t2\<close> are the times at which the inode is created and the directory written.\<close>

definition mk_helper ::
    "nat \<Rightarrow> nat \<Rightarrow> file_operation \<Rightarrow> nat \<Rightarrow> string \<Rightarrow> inode_type \<Rightarrow> (nat chfs_result \<times> file_operation) option" where
  "mk_helper t1 t2 fs inode_id name type = do {
     res \<leftarrow> read_directory fs inode_id;
     case res of
       Err e \<Rightarrow> Some (Err e, fs)
     | Ok entries \<Rightarrow>
         if find_entry entries name \<noteq> None then Some (Err AlreadyExist, fs)
         else do {
           (alloc_inode_res, fs1) \<leftarrow> alloc_inode t1 fs type;
           case alloc_inode_res of
             Err e \<Rightarrow> Some (Err e, fs1)
           | Ok new_inode_id \<Rightarrow> do {
               let new_dir_str = dir_list_to_string (entries @ [\<lparr>de_name = name, de_id = new_inode_id\<rparr>]);
               (write_dir_res, fs2) \<leftarrow> write_file t2 fs1 inode_id (bytes_of_str new_dir_str);
               case write_dir_res of
                 Err e \<Rightarrow> Some (Err e, fs2)
               | Ok _ \<Rightarrow> Some (Ok new_inode_id, fs2)
             }
         }
   }"

definition mkdir ::
    "nat \<Rightarrow> nat \<Rightarrow> file_operation \<Rightarrow> nat \<Rightarrow> string \<Rightarrow> (nat chfs_result \<times> file_operation) option" where
  "mkdir t1 t2 fs parent name = mk_helper t1 t2 fs parent name inode_type.Directory"

definition mkfile ::
    "nat \<Rightarrow> nat \<Rightarrow> file_operation \<Rightarrow> nat \<Rightarrow> string \<Rightarrow> (nat chfs_result \<times> file_operation) option" where
  "mkfile t1 t2 fs parent name = mk_helper t1 t2 fs parent name FILE"

definition unlink ::
    "nat \<Rightarrow> file_operation \<Rightarrow> nat \<Rightarrow> string \<Rightarrow> (null_result \<times> file_operation) option" where
  "unlink now fs parent name = do {
     res \<leftarrow> read_directory fs parent;
     case res of
       Err e \<Rightarrow> Some (Err e, fs)
     | Ok entries \<Rightarrow> do {
         lookup_res \<leftarrow> lookup fs parent name;
         case lookup_res of
           Err e \<Rightarrow> Some (Err e, fs)
         | Ok file_id \<Rightarrow> do {
             (remove_res, fs1) \<leftarrow> remove_file fs file_id;
             case remove_res of
               Err e \<Rightarrow> Some (Err e, fs1)
             | Ok _ \<Rightarrow>
                 write_file now fs1 parent
                   (bytes_of_str (dir_list_to_string (filter (\<lambda>e. de_id e \<noteq> file_id) entries)))
           }
       }
   }"


section \<open>The text is a codec\<close>

lemma str_of_bytes_of_str [simp]: "str_of_bytes (bytes_of_str s) = s"
proof -
  have "char_of (unat (word_of_nat (of_char c) :: byte)) = c" for c
  proof -
    have "(of_char c :: nat) < 256" using nat_of_char_less_256 by simp
    then show ?thesis by (simp add: unat_of_nat)
  qed
  then show ?thesis by (simp add: str_of_bytes_def bytes_of_str_def o_def)
qed

lemma length_bytes_of_str [simp]: "length (bytes_of_str s) = length s"
  by (simp add: bytes_of_str_def)

lemma digit_char:
  assumes "d < 10"
  shows "(of_char (char_of (48 + d) :: char) :: nat) = 48 + d" "is_digit (char_of (48 + d))"
proof -
  show v: "(of_char (char_of (48 + d) :: char) :: nat) = 48 + d" using assms by (simp add: of_char_of)
  show "is_digit (char_of (48 + d))" using assms unfolding is_digit_def v by simp
qed

lemma digits_value_snoc: "digits_value (ds @ [c]) = 10 * digits_value ds + (of_char c - 48)"
  by (simp add: digits_value_def)

lemma inode_id_to_string_digits:
  "list_all is_digit (inode_id_to_string n) \<and> inode_id_to_string n \<noteq> [] \<and> digits_value (inode_id_to_string n) = n"
proof (induction n rule: inode_id_to_string.induct)
  case (1 n)
  show ?case
  proof (cases "n < 10")
    case True
    then show ?thesis
      using digit_char [OF True] by (simp add: inode_id_to_string.simps digits_value_def)
  next
    case False
    have d: "n mod 10 < 10" by simp
    from 1 [OF False] False digit_char [OF d] show ?thesis
      by (subst (1 2 3) inode_id_to_string.simps) (simp add: digits_value_snoc mult_div_mod_eq)
  qed
qed

lemma digit_not:
  assumes "is_digit c"
  shows "\<not> is_space c" "c \<noteq> CHR ''-''" "c \<noteq> CHR ''+''" "c \<noteq> CHR ''/''" "c \<noteq> CHR '':''"
proof -
  show "\<not> is_space c" using assms by (auto simp: is_digit_def is_space_def)
  have "\<not> is_digit CHR ''-''" "\<not> is_digit CHR ''+''" "\<not> is_digit CHR ''/''" "\<not> is_digit CHR '':''"
    by (simp_all add: is_digit_def)
  with assms show "c \<noteq> CHR ''-''" "c \<noteq> CHR ''+''" "c \<noteq> CHR ''/''" "c \<noteq> CHR '':''" by metis+
qed

lemma string_to_inode_id_of_string:
  assumes "n < 2 ^ 64"
  shows "string_to_inode_id (inode_id_to_string n) = n"
proof -
  obtain c s where s: "inode_id_to_string n = c # s"
    using inode_id_to_string_digits [of n] by (cases "inode_id_to_string n") auto
  with inode_id_to_string_digits [of n] have d: "is_digit c" "list_all is_digit s" "digits_value (c # s) = n" by auto
  have t: "takeWhile is_digit (c # s) = c # s" using d(1,2) by (simp add: takeWhile_eq_all_conv list_all_iff)
  show ?thesis
    unfolding string_to_inode_id_def s Let_def
    using digit_not [OF d(1)] d(3) assms t by simp
qed

definition clean_name :: "string \<Rightarrow> bool" where
  "clean_name name \<longleftrightarrow> CHR '':'' \<notin> set name \<and> CHR ''/'' \<notin> set name"

definition entry_ok :: "directory_entry \<Rightarrow> bool" where
  "entry_ok e \<longleftrightarrow> clean_name (de_name e) \<and> de_id e < 2 ^ 64"

definition entry_text :: "directory_entry \<Rightarrow> string" where
  "entry_text e = de_name e @ CHR '':'' # inode_id_to_string (de_id e)"

lemma takeWhile_sep: "x \<notin> set xs \<Longrightarrow> takeWhile (\<lambda>c. c \<noteq> x) (xs @ x # ys) = xs \<and>
    dropWhile (\<lambda>c. c \<noteq> x) (xs @ x # ys) = x # ys"
  by (induction xs) auto

lemma parse_entry_text: "entry_ok e \<Longrightarrow> parse_entry (entry_text e) = Some e"
  using takeWhile_sep [of "CHR '':''" "de_name e" "inode_id_to_string (de_id e)"]
  by (simp add: parse_entry_def entry_text_def entry_ok_def clean_name_def string_to_inode_id_of_string)

lemma no_slash_in_text: "CHR ''/'' \<notin> set (de_name e) \<Longrightarrow> CHR ''/'' \<notin> set (entry_text e)"
  using inode_id_to_string_digits [of "de_id e"] digit_not(4) by (fastforce simp: entry_text_def list_all_iff)

lemma entry_text_nonempty [simp]: "entry_text e \<noteq> []"
  by (simp add: entry_text_def)

fun slash_join :: "string list \<Rightarrow> string" where
  "slash_join [] = []"
| "slash_join [x] = x"
| "slash_join (x # xs) = x @ CHR ''/'' # slash_join xs"

lemma slash_join_Cons: "xs \<noteq> [] \<Longrightarrow> slash_join (x # xs) = x @ CHR ''/'' # slash_join xs"
  by (cases xs) simp_all

lemma dir_list_loop_join: "cnt + length es = n \<Longrightarrow> dir_list_loop cnt n es = slash_join (map entry_text es)"
proof (induction es arbitrary: cnt)
  case (Cons e es)
  then show ?case by (cases es) (auto simp: entry_text_def)
qed simp

lemma dir_list_to_string_join: "dir_list_to_string es = slash_join (map entry_text es)"
  by (simp add: dir_list_to_string_def dir_list_loop_join)

lemma getlines_Nil [simp]: "getlines [] = []"
  by (simp add: getlines.simps)

lemma getlines_join:
  assumes "\<And>x. x \<in> set xs \<Longrightarrow> CHR ''/'' \<notin> set x \<and> x \<noteq> []"
  shows "getlines (slash_join xs) = xs"
  using assms
proof (induction xs rule: slash_join.induct)
  case (2 x)
  then have "takeWhile (\<lambda>c. c \<noteq> CHR ''/'') x = x" "dropWhile (\<lambda>c. c \<noteq> CHR ''/'') x = []" "x \<noteq> []"
    by (auto simp: takeWhile_eq_all_conv)
  then show ?case by (subst getlines.simps) (simp only: slash_join.simps if_False list.sel getlines_Nil)
next
  case (3 x y ys)
  have x: "CHR ''/'' \<notin> set x" using 3(2) by simp
  have ih: "getlines (slash_join (y # ys)) = y # ys" using 3 by simp
  show ?case
    using takeWhile_sep [OF x, of "slash_join (y # ys)"] ih
    by (simp add: getlines.simps [of "x @ CHR ''/'' # slash_join (y # ys)"])
qed simp

lemma parse_directory_to_string:
  assumes "list_all entry_ok es"
  shows "parse_directory (dir_list_to_string es) = es"
proof -
  have "getlines (dir_list_to_string es) = map entry_text es"
    unfolding dir_list_to_string_join using assms
    by (intro getlines_join) (auto simp: list_all_iff entry_ok_def clean_name_def no_slash_in_text)
  moreover have "List.map_filter parse_entry (map entry_text es) = es"
    using assms by (induction es) (simp_all add: List.map_filter_simps parse_entry_text)
  ultimately show ?thesis by (simp add: parse_directory_def)
qed

interpretation dir_codec: codec "list_all entry_ok" dir_list_to_string parse_directory
  by unfold_locales (rule parse_directory_to_string)


section \<open>Directories on the map of files\<close>

definition dir_entries :: "file_operation \<Rightarrow> nat \<Rightarrow> directory_entry list" where
  "dir_entries fs inode_id = parse_directory (str_of_bytes (the (file_map fs inode_id)))"

text \<open>A directory as the operations leave it: the text of clean entries without duplicate names.\<close>

definition dir_ok :: "file_operation \<Rightarrow> nat \<Rightarrow> bool" where
  "dir_ok fs inode_id \<longleftrightarrow> usable fs inode_id \<and> list_all entry_ok (dir_entries fs inode_id) \<and>
     distinct (map de_name (dir_entries fs inode_id)) \<and>
     file_map fs inode_id = Some (bytes_of_str (dir_list_to_string (dir_entries fs inode_id)))"

lemma dir_entries_written:
  "file_map fs inode_id = Some (bytes_of_str (dir_list_to_string es)) \<Longrightarrow> list_all entry_ok es \<Longrightarrow>
   dir_entries fs inode_id = es"
  by (simp add: dir_entries_def parse_directory_to_string)

lemma empty_dir_ok:
  assumes "usable fs inode_id" "file_map fs inode_id = Some []"
  shows "dir_ok fs inode_id" "dir_entries fs inode_id = []"
proof -
  show "dir_entries fs inode_id = []"
    by (rule dir_entries_written) (simp_all add: assms dir_list_to_string_def bytes_of_str_def)
  then show "dir_ok fs inode_id"
    using assms by (simp add: dir_ok_def dir_list_to_string_def bytes_of_str_def)
qed

lemma read_directory_ok:
  "fs_ok fs \<Longrightarrow> usable fs inode_id \<Longrightarrow> read_directory fs inode_id = Some (Ok (dir_entries fs inode_id))"
  by (simp add: read_directory_def read_file_map dir_entries_def)

lemma find_entry_Some:
  "find_entry es name = Some e \<Longrightarrow> e \<in> set es \<and> de_name e = name"
  by (auto simp: find_entry_def find_Some_iff)

lemma find_entry_None: "find_entry es name = None \<longleftrightarrow> name \<notin> de_name ` set es"
  by (auto simp: find_entry_def find_None_iff)

lemma find_entry_distinct:
  "distinct (map de_name es) \<Longrightarrow> e \<in> set es \<Longrightarrow> find_entry es (de_name e) = Some e"
  by (induction es) (auto simp: find_entry_def)

lemma find_entry_snoc:
  "find_entry (es @ [e]) name =
    (case find_entry es name of Some x \<Rightarrow> Some x | None \<Rightarrow> if de_name e = name then Some e else None)"
  by (induction es) (auto simp: find_entry_def)

lemma lookup_ok:
  assumes "fs_ok fs" "usable fs inode_id"
  shows "lookup fs inode_id name =
    Some (case find_entry (dir_entries fs inode_id) name of Some e \<Rightarrow> Ok (de_id e) | None \<Rightarrow> Err NotExist)"
  using read_directory_ok [OF assms] by (simp add: lookup_def split: option.splits)

lemma inode_id_bound:
  assumes "fs_ok fs" "i \<le> im_max_inode_supported (fo_im fs)"
  shows "i < 2 ^ 64"
  using im_ok_max [OF fs_okD(1) [OF assms(1)]] assms(2) by simp

text \<open>Creating an entry.\<close>

definition made_entry :: "file_operation \<Rightarrow> nat \<Rightarrow> string \<Rightarrow> nat \<Rightarrow> file_operation \<Rightarrow> bool" where
  "made_entry fs parent name new_id fs' \<longleftrightarrow>
     (let es = dir_entries fs parent @ [\<lparr>de_name = name, de_id = new_id\<rparr>]
      in file_map fs new_id = None \<and> dir_ok fs' parent \<and> dir_entries fs' parent = es \<and>
         file_map fs' = (file_map fs)(new_id \<mapsto> [], parent \<mapsto> bytes_of_str (dir_list_to_string es)))"

lemma mk_helper_map:
  assumes ok: "fs_ok fs" and d: "dir_ok fs parent" and n: "clean_name name" and t: "type_ok type"
    and t1: "t1 < 2 ^ 64" and t2: "t2 < 2 ^ 64"
    and new: "find_entry (dir_entries fs parent) name = None"
  shows "\<exists>r fs'. mk_helper t1 t2 fs parent name type = Some (r, fs') \<and> fs_ok fs' \<and> fo_im fs' = fo_im fs \<and>
    (case r of
       Ok new_id \<Rightarrow> made_entry fs parent name new_id fs'
     | Err e \<Rightarrow> e = OUT_OF_RESOURCE \<and> (file_map fs' = file_map fs \<or>
         (\<exists>new_id. file_map fs new_id = None \<and> file_map fs' = (file_map fs)(new_id \<mapsto> []))))"
proof -
  let ?es = "dir_entries fs parent"
  have u: "usable fs parent" and eok: "list_all entry_ok ?es" and dist: "distinct (map de_name ?es)"
    using d by (simp_all add: dir_ok_def)
  note rd = read_directory_ok [OF ok u]
  from alloc_inode_map [OF ok t t1] obtain ra fs1 where
    a: "alloc_inode t1 fs type = Some (ra, fs1)" "fs_ok fs1" "fo_im fs1 = fo_im fs"
    and ac: "case ra of
      Ok i \<Rightarrow> 1 \<le> i \<and> i \<le> im_max_inode_supported (fo_im fs) \<and>
        {1..<i} \<subseteq> dom (file_map fs) \<and> file_map fs i = None \<and> file_map fs1 = (file_map fs)(i \<mapsto> []) \<and>
        i_type (file_ino (fo_bm fs1) (i - 1)) = type \<and>
        i_attr (file_ino (fo_bm fs1) (i - 1)) = \<lparr>atime = t1, mtime = t1, ctime = t1, fsize = 0\<rparr> \<and>
        (\<forall>j. j + 1 \<in> dom (file_map fs) \<longrightarrow> file_ino (fo_bm fs1) j = file_ino (fo_bm fs) j)
    | Err e \<Rightarrow> e = OUT_OF_RESOURCE \<and> file_map fs1 = file_map fs \<and>
        (get_free_blocks_num fs = Some (Ok 0) \<or> get_free_inode_num fs = Some (Ok 0)) \<and>
        (\<forall>j. j + 1 \<in> dom (file_map fs) \<longrightarrow> file_ino (fo_bm fs1) j = file_ino (fo_bm fs) j)" by blast
  show ?thesis
  proof (cases ra)
    case (Err e)
    with rd new a ac show ?thesis by (simp add: mk_helper_def)
  next
    case (Ok i)
    with ac have i: "i \<le> im_max_inode_supported (fo_im fs)" "file_map fs i = None"
      "file_map fs1 = (file_map fs)(i \<mapsto> [])" by simp_all
    let ?es' = "?es @ [\<lparr>de_name = name, de_id = i\<rparr>]"
    have u1: "usable fs1 parent" using u a(3) i(3) by (auto simp: usable_def)
    from write_file_map [OF a(2) u1 t2, of "bytes_of_str (dir_list_to_string ?es')"] obtain rw fs2 where
      w: "write_file t2 fs1 parent (bytes_of_str (dir_list_to_string ?es')) = Some (rw, fs2)" "fs_ok fs2"
        "fo_im fs2 = fo_im fs1"
      and wc: "case rw of
         Ok _ \<Rightarrow> file_map fs2 = (file_map fs1)(parent \<mapsto> bytes_of_str (dir_list_to_string ?es'))
       | Err e \<Rightarrow> e = OUT_OF_RESOURCE \<and> file_map fs2 = file_map fs1 \<and>
           no_room fs1 parent (length (bytes_of_str (dir_list_to_string ?es'))) fs2" by blast
    show ?thesis
    proof (cases rw)
      case (Err e)
      with rd new a w wc i Ok show ?thesis by (auto simp: mk_helper_def Let_def)
    next
      case rwok: (Ok x)
      then have m: "file_map fs2 = (file_map fs)(i \<mapsto> [], parent \<mapsto> bytes_of_str (dir_list_to_string ?es'))"
        using wc i(3) by simp
      have "list_all entry_ok ?es'" using eok n inode_id_bound [OF ok i(1)] by (simp add: entry_ok_def)
      then have es': "dir_entries fs2 parent = ?es'" using m by (intro dir_entries_written) auto
      have "usable fs2 parent" using u w(3) a(3) m by (auto simp: usable_def)
      then have "dir_ok fs2 parent"
        using dist new m \<open>list_all entry_ok ?es'\<close> unfolding dir_ok_def es' by (auto simp: find_entry_None)
      with rd new a w i Ok rwok m es' show ?thesis by (simp add: mk_helper_def Let_def made_entry_def)
    qed
  qed
qed


section \<open>Removing an entry\<close>

text \<open>A write that does not grow the file succeeds as soon as one block is free.\<close>

lemma write_shorter_succeeds:
  assumes ok: "fs_ok fs" and u: "usable fs i" and now: "now < 2 ^ 64"
    and len: "length content \<le> length (the (file_map fs i))"
    and free: "get_free_blocks_num fs = Some (Ok free)" "0 < free"
  shows "\<exists>fs'. write_file now fs i content = Some (KNullOk, fs') \<and> fs_ok fs' \<and> fo_im fs' = fo_im fs \<and>
    file_map fs' = (file_map fs)(i \<mapsto> content)"
proof -
  let ?ino = "file_ino (fo_bm fs) (i - 1)" and ?sz = "bm_block_sz (fo_bm fs)" and ?n = "file_n (fo_bm fs) (i - 1)"
  from u obtain k where k: "i = Suc k" "k \<in> inode_used (fo_bm fs) (fo_im fs)" by (rule usable_raw)
  note w = wst_okD [OF file_wst_ok [OF ok k(2)]]
  have sz: "0 < ?sz" by (rule alloc_okD(3) [OF w(1)])
  have n: "?n = ceil_div (length (the (file_map fs i))) ?sz" using getattr_ok(4) [OF ok u] by (simp add: file_n_def)
  then have "length (the (file_map fs i)) \<le> ?n * ?sz" using ceil_div_le_iff [OF sz] by (metis order_refl)
  with len have l: "length content \<le> ?n * ?sz" by simp
  have nm: "?n \<le> max_blocks ?sz ?ino" using w(3) k(1) by simp
  have "length content \<le> max_blocks ?sz ?ino * ?sz" using l mult_le_mono1 [OF nm] by (rule le_trans)
  then have max: "length content \<le> max_file_sz_supported ?ino"
    using max_file_sz_ok(1) [OF usable_inode_ok(1) [OF ok u]] by simp
  have "ceil_div (length content) ?sz \<le> ?n" using l ceil_div_le_iff [OF sz] by blast
  then have "blocks_needed fs i (length content) \<le> 1"
    by (simp add: blocks_needed_def missing_indirect_def)
  with free(2) have "blocks_needed fs i (length content) \<le> free" by linarith
  from write_file_succeeds [OF ok u now max free(1) this] write_file_map [OF ok u now, of content]
  show ?thesis by auto
qed

lemma length_slash_join: "length (slash_join xs) = (\<Sum>x\<leftarrow>xs. length x) + (length xs - 1)"
  by (induction xs rule: slash_join.induct) auto

lemma length_dir_filter: "length (dir_list_to_string (filter P es)) \<le> length (dir_list_to_string es)"
proof -
  have "(\<Sum>x\<leftarrow>map entry_text (filter P es). length x) \<le> (\<Sum>x\<leftarrow>map entry_text es. length x)"
    by (induction es) auto
  moreover have "length (filter P es) \<le> length es" by simp
  ultimately show ?thesis unfolding dir_list_to_string_join length_slash_join length_map by linarith
qed

definition removed_entry :: "file_operation \<Rightarrow> nat \<Rightarrow> nat \<Rightarrow> file_operation \<Rightarrow> bool" where
  "removed_entry fs parent file_id fs' \<longleftrightarrow>
     (let es = filter (\<lambda>e. de_id e \<noteq> file_id) (dir_entries fs parent)
      in dir_ok fs' parent \<and> dir_entries fs' parent = es \<and>
         file_map fs' = (file_map fs)(file_id := None, parent \<mapsto> bytes_of_str (dir_list_to_string es)))"

lemma remove_file_free:
  assumes ok: "fs_ok fs" and u: "usable fs i" and s: "direct_only fs i"
  shows "\<exists>fs' free. remove_file fs i = Some (KNullOk, fs') \<and> fs_ok fs' \<and> fo_im fs' = fo_im fs \<and>
    file_map fs' = (file_map fs)(i := None) \<and> get_free_blocks_num fs' = Some (Ok free) \<and> 0 < free"
proof -
  from remove_file_map [OF ok u s] obtain fs' where r: "remove_file fs i = Some (KNullOk, fs')" "fs_ok fs'"
    "fo_im fs' = fo_im fs" "fo_al fs' = fo_al fs" "file_map fs' = (file_map fs)(i := None)"
    "alloc_used (fo_bm fs') (fo_al fs) = alloc_used (fo_bm fs) (fo_al fs) - owned (fo_bm fs) (i - 1)" by blast
  from u obtain k where k: "i = Suc k" "k \<in> inode_used (fo_bm fs) (fo_im fs)"
    "Suc k < im_max_inode_supported (fo_im fs) - 1" by (rule usable_raw)
  have "file_n (fo_bm fs) k \<le> direct (file_ino (fo_bm fs) k)" using s direct_only_raw(1) [OF ok k(2)] by (simp add: k(1))
  from remove_file_steps [OF ok k(2,3) this] r(1) have cnt: "bm_block_cnt (fo_bm fs') = bm_block_cnt (fo_bm fs)"
    by (auto simp: k(1) dest: only_changes_fields(2))
  let ?t = "inode_table (fo_bm fs) k"
  have "?t \<in> owned (fo_bm fs) k" "?t \<in> alloc_used (fo_bm fs) (fo_al fs)"
    using owned_used(1) [OF fs_okD(6) [OF ok k(2)]] by (auto simp: owned_def)
  then have "?t \<in> {..<bm_block_cnt (fo_bm fs')} - alloc_used (fo_bm fs') (fo_al fs')"
    using r(4,6) cnt k(1) by (auto simp: alloc_used_def)
  then have "0 < card ({..<bm_block_cnt (fo_bm fs')} - alloc_used (fo_bm fs') (fo_al fs'))"
    by (metis card_gt_0_iff empty_iff finite_Diff finite_lessThan)
  with free_block_cnt_ok [OF fs_okD(2) [OF r(2)]] r show ?thesis by (simp add: get_free_blocks_num_def)
qed

lemma unlink_map:
  assumes ok: "fs_ok fs" and d: "dir_ok fs parent" and now: "now < 2 ^ 64"
    and e: "find_entry (dir_entries fs parent) name = Some e"
    and u: "usable fs (de_id e)" and s: "direct_only fs (de_id e)" and ne: "de_id e \<noteq> parent"
  shows "\<exists>fs'. unlink now fs parent name = Some (KNullOk, fs') \<and> fs_ok fs' \<and> fo_im fs' = fo_im fs \<and>
    removed_entry fs parent (de_id e) fs'"
proof -
  let ?es = "dir_entries fs parent" and ?f = "de_id e"
  let ?es' = "filter (\<lambda>x. de_id x \<noteq> ?f) ?es"
  have up: "usable fs parent" and eok: "list_all entry_ok ?es" and dist: "distinct (map de_name ?es)"
    and c: "file_map fs parent = Some (bytes_of_str (dir_list_to_string ?es))"
    using d by (simp_all add: dir_ok_def)
  from remove_file_free [OF ok u s] obtain fs1 free where
    r: "remove_file fs ?f = Some (KNullOk, fs1)" "fs_ok fs1" "fo_im fs1 = fo_im fs"
      "file_map fs1 = (file_map fs)(?f := None)" "get_free_blocks_num fs1 = Some (Ok free)" "0 < free" by blast
  have u1: "usable fs1 parent" using up r(3,4) ne by (auto simp: usable_def)
  have "length (bytes_of_str (dir_list_to_string ?es')) \<le> length (the (file_map fs1 parent))"
    using r(4) ne c length_dir_filter by simp
  from write_shorter_succeeds [OF r(2) u1 now this r(5,6)] obtain fs2 where
    w: "write_file now fs1 parent (bytes_of_str (dir_list_to_string ?es')) = Some (KNullOk, fs2)" "fs_ok fs2"
      "fo_im fs2 = fo_im fs1" "file_map fs2 = (file_map fs1)(parent \<mapsto> bytes_of_str (dir_list_to_string ?es'))" by blast
  have eok': "list_all entry_ok ?es'" using eok by (auto simp: list_all_iff)
  then have es': "dir_entries fs2 parent = ?es'" using w(4) by (intro dir_entries_written) auto
  have "usable fs2 parent" using up w(3,4) r(3) by (auto simp: usable_def)
  moreover have "distinct (map de_name ?es')" using dist by (rule distinct_map_filter)
  ultimately have "dir_ok fs2 parent" using w(4) eok' unfolding dir_ok_def es' by simp
  with read_directory_ok [OF ok up] lookup_ok [OF ok up, of name] e r w es' show ?thesis
    by (simp add: unlink_def removed_entry_def)
qed


text \<open>With a free block and a free inode, \<open>alloc_inode\<close> succeeds and takes one of each.\<close>

lemma alloc_inode_free:
  assumes ok: "fs_ok fs" and t: "type_ok type" and now: "now < 2 ^ 64"
    and b: "get_free_blocks_num fs = Some (Ok (Suc f))" and i: "get_free_inode_num fs = Some (Ok (Suc g))"
  shows "\<exists>k fs'. alloc_inode now fs type = Some (Ok (Suc k), fs') \<and> get_free_blocks_num fs' = Some (Ok f) \<and>
    get_free_inode_num fs' = Some (Ok g) \<and> bm_block_sz (fo_bm fs') = bm_block_sz (fo_bm fs) \<and>
    Suc k \<le> Suc (card (inode_used (fo_bm fs) (fo_im fs)))"
proof -
  let ?bm = "fo_bm fs" and ?al = "fo_al fs" and ?im = "fo_im fs"
  note o = fs_okD [OF ok]
  have cb: "card ({..<bm_block_cnt ?bm} - alloc_used ?bm ?al) = Suc f"
    using b free_block_cnt_ok [OF o(2)] by (simp add: get_free_blocks_num_def)
  have ci: "im_max_inode_supported ?im - card (inode_used ?bm ?im) = Suc g"
    using i free_inode_cnt_ok [OF o(1)] by (simp add: get_free_inode_num_def)
  have full: "alloc_used ?bm ?al \<noteq> {..<bm_block_cnt ?bm}" "inode_used ?bm ?im \<noteq> {..<im_max_inode_supported ?im}"
    using cb ci by (metis Diff_cancel card.empty nat.distinct(1), metis card_lessThan diff_self_eq_0 nat.distinct(1))
  with alloc_inode_steps [OF ok t now] obtain k bid bm' where
    a: "alloc_inode now fs type = Some (Ok (Suc k), fs\<lparr>fo_bm := bm'\<rparr>)" "k \<notin> inode_used ?bm ?im"
      "{..<k} \<subseteq> inode_used ?bm ?im" "bid \<notin> alloc_used ?bm ?al" "alloc_ok bm' ?al"
      "alloc_used bm' ?al = insert bid (alloc_used ?bm ?al)"
      "only_changes (insert bid (bitmap_area ?al \<union> inode_area ?im)) ?bm bm'"
      "inode_used bm' ?im = insert k (inode_used ?bm ?im)"
    by (elim disjE exE conjE) (simp, blast)
  note c = only_changes_fields [OF a(7)]
  have fin: "finite (inode_used ?bm ?im)" by (simp add: inode_used_def)
  have "bid \<in> alloc_used bm' ?al" using a(6) by simp
  then have bl: "bid \<in> {..<bm_block_cnt ?bm} - alloc_used ?bm ?al" using a(4) c(2) by (simp add: alloc_used_def)
  have "{..<bm_block_cnt bm'} - alloc_used bm' ?al = ({..<bm_block_cnt ?bm} - alloc_used ?bm ?al) - {bid}"
    using a(6) c(2) by auto
  then have "card ({..<bm_block_cnt bm'} - alloc_used bm' ?al) = f" using cb bl by simp
  then have "get_free_blocks_num (fs\<lparr>fo_bm := bm'\<rparr>) = Some (Ok f)"
    using free_block_cnt_ok [OF a(5)] by (simp add: get_free_blocks_num_def)
  moreover have "get_free_inode_num (fs\<lparr>fo_bm := bm'\<rparr>) = Some (Ok g)"
    using free_inode_cnt_ok [OF im_ok_frame [OF o(1) a(7)]] a(2,8) ci fin by (simp add: get_free_inode_num_def)
  moreover have "k \<le> card (inode_used ?bm ?im)" using card_mono [OF fin a(3)] by simp
  ultimately show ?thesis using a(1) c(1) by auto
qed

section \<open>Properties\<close>

lemma demo_dir: "\<exists>fs. fs_ok fs \<and> dir_ok fs 1 \<and> dir_entries fs 1 = []"
proof -
  from demo_file obtain fs where "fs_ok fs" "usable fs 1" "file_map fs 1 = Some []" by blast
  with empty_dir_ok [of fs 1] show ?thesis by blast
qed

text \<open>Parsing the text of a directory gives back its entries, for names without a colon
  and without a slash and every 64-bit inode number; and appending one entry to the text is
  the text of the longer list.\<close>

theorem directory_text_round_trip:
  assumes "list_all entry_ok es" "entry_ok e"
  shows "parse_directory (dir_list_to_string es) = es \<and>
    parse_directory (append_to_directory (dir_list_to_string es) (de_name e) (de_id e)) = es @ [e] \<and>
    parse_directory (rm_from_directory (dir_list_to_string es) name) = filter (\<lambda>x. de_name x \<noteq> name) es"
proof -
  have p: "parse_directory (dir_list_to_string es) = es" by (rule parse_directory_to_string [OF assms(1)])
  have ne: "slash_join (map entry_text es) \<noteq> [] \<longleftrightarrow> es \<noteq> []"
    by (cases es; cases "tl es") (auto simp: slash_join_Cons neq_Nil_conv)
  have "slash_join (xs @ [x]) = (if xs \<noteq> [] then slash_join xs @ ''/'' else []) @ x" for xs x
    by (induction xs rule: slash_join.induct) auto
  then have "append_to_directory (dir_list_to_string es) (de_name e) (de_id e) = dir_list_to_string (es @ [e])"
    using ne by (simp add: append_to_directory_def dir_list_to_string_join entry_text_def)
  moreover have "list_all entry_ok (es @ [e])" using assms by simp
  moreover have "list_all entry_ok (filter (\<lambda>x. de_name x \<noteq> name) es)" using assms(1) by (auto simp: list_all_iff)
  ultimately show ?thesis using p parse_directory_to_string by (simp add: rm_from_directory_def)
qed

theorem directory_text_round_trip_witness:
  "dir_list_to_string [\<lparr>de_name = ''usr'', de_id = 12\<rparr>, \<lparr>de_name = [], de_id = 7\<rparr>] = ''usr:12/:7'' \<and>
   parse_directory ''usr:12/:7'' = [\<lparr>de_name = ''usr'', de_id = 12\<rparr>, \<lparr>de_name = [], de_id = 7\<rparr>] \<and>
   parse_directory (append_to_directory ''usr:12/:7'' ''x'' 3) =
     [\<lparr>de_name = ''usr'', de_id = 12\<rparr>, \<lparr>de_name = [], de_id = 7\<rparr>, \<lparr>de_name = ''x'', de_id = 3\<rparr>]"
proof -
  let ?es = "[\<lparr>de_name = ''usr'', de_id = 12\<rparr>, \<lparr>de_name = [], de_id = 7\<rparr>]"
  have s: "dir_list_to_string ?es = ''usr:12/:7''" by code_simp
  have ok: "list_all entry_ok ?es" "entry_ok \<lparr>de_name = ''x'', de_id = 3\<rparr>"
    by (simp_all add: entry_ok_def clean_name_def)
  from directory_text_round_trip [OF ok] s show ?thesis by simp
qed

text \<open>A name with a colon is cut at it when the directory is read back, and what follows
  is taken for the number: the entry written for \<open>a:b\<close> is read as an entry \<open>a\<close>.\<close>

theorem colon_cuts_name:
  assumes "clean_name a" "CHR ''/'' \<notin> set b"
  shows "parse_directory (dir_list_to_string [\<lparr>de_name = a @ '':'' @ b, de_id = i\<rparr>]) =
    [\<lparr>de_name = a, de_id = string_to_inode_id (b @ '':'' @ inode_id_to_string i)\<rparr>]"
proof -
  let ?e = "\<lparr>de_name = a @ '':'' @ b, de_id = i\<rparr>"
  have ns: "CHR ''/'' \<notin> set (de_name ?e)" using assms by (simp add: clean_name_def)
  have "getlines (slash_join [entry_text ?e]) = [entry_text ?e]"
    using no_slash_in_text [OF ns] by (intro getlines_join) auto
  moreover have t: "entry_text ?e = a @ CHR '':'' # (b @ '':'' @ inode_id_to_string i)" by (simp add: entry_text_def)
  moreover have "CHR '':'' \<notin> set a" using assms(1) by (simp add: clean_name_def)
  note takeWhile_sep [OF this, of "b @ '':'' @ inode_id_to_string i"]
  ultimately show ?thesis
    by (simp add: parse_directory_def dir_list_to_string_join List.map_filter_simps parse_entry_def)
qed

theorem colon_cuts_name_witness:
  "parse_directory (dir_list_to_string [\<lparr>de_name = ''a'' @ '':'' @ ''b'', de_id = 5\<rparr>]) = [\<lparr>de_name = ''a'', de_id = 0\<rparr>]"
proof -
  have z: "string_to_inode_id (''b'' @ '':'' @ inode_id_to_string 5) = 0" by code_simp
  have c: "clean_name ''a''" "CHR ''/'' \<notin> set ''b''" by (simp_all add: clean_name_def)
  from colon_cuts_name [OF c, of 5] show ?thesis unfolding z .
qed

text \<open>C29. Creating a name in a directory: an existing name gives \<open>AlreadyExist\<close> and changes
  nothing; otherwise the entry is added at the end with the number of a new empty file and
  nothing else changes, or \<open>OUT_OF_RESOURCE\<close> is returned and the directories are as before
  (an inode may stay allocated). Looking the name up afterwards gives the new number.\<close>

theorem mk_helper_creates_entry:
  assumes "fs_ok fs" "dir_ok fs parent" "clean_name name" "type_ok type" "t1 < 2 ^ 64" "t2 < 2 ^ 64"
  shows "\<exists>r fs'. mk_helper t1 t2 fs parent name type = Some (r, fs') \<and> fs_ok fs' \<and>
    (if name \<in> de_name ` set (dir_entries fs parent) then r = Err AlreadyExist \<and> fs' = fs
     else case r of
       Ok new_id \<Rightarrow> made_entry fs parent name new_id fs' \<and> lookup fs' parent name = Some (Ok new_id) \<and>
         (\<forall>other. other \<noteq> name \<longrightarrow> lookup fs' parent other = lookup fs parent other)
     | Err e \<Rightarrow> e = OUT_OF_RESOURCE \<and> (file_map fs' = file_map fs \<or>
         (\<exists>new_id. file_map fs new_id = None \<and> file_map fs' = (file_map fs)(new_id \<mapsto> []))))"
proof (cases "find_entry (dir_entries fs parent) name")
  case None
  have u: "usable fs parent" using assms(2) by (simp add: dir_ok_def)
  from mk_helper_map [OF assms(1-6) None] obtain r fs' where
    m: "mk_helper t1 t2 fs parent name type = Some (r, fs')" "fs_ok fs'"
    and c: "case r of
       Ok new_id \<Rightarrow> made_entry fs parent name new_id fs'
     | Err e \<Rightarrow> e = OUT_OF_RESOURCE \<and> (file_map fs' = file_map fs \<or>
         (\<exists>new_id. file_map fs new_id = None \<and> file_map fs' = (file_map fs)(new_id \<mapsto> [])))" by blast
  have "lookup fs' parent name = Some (Ok new_id) \<and>
      (\<forall>other. other \<noteq> name \<longrightarrow> lookup fs' parent other = lookup fs parent other)"
    if "made_entry fs parent name new_id fs'" for new_id
  proof -
    from that have "usable fs' parent" "dir_entries fs' parent = dir_entries fs parent @ [\<lparr>de_name = name, de_id = new_id\<rparr>]"
      by (simp_all add: made_entry_def dir_ok_def Let_def)
    with lookup_ok [OF m(2)] lookup_ok [OF assms(1) u] None show ?thesis
      by (auto simp: find_entry_snoc split: option.splits)
  qed
  with m c None show ?thesis by (cases r) (simp_all add: find_entry_None)
next
  case (Some e)
  have u: "usable fs parent" using assms(2) by (simp add: dir_ok_def)
  from Some have "find_entry (dir_entries fs parent) name \<noteq> None" by simp
  then have "name \<in> de_name ` set (dir_entries fs parent)" unfolding find_entry_None by simp
  with read_directory_ok [OF assms(1) u] Some assms(1) show ?thesis by (simp add: mk_helper_def)
qed

theorem mk_helper_creates_entry_witness:
  "\<exists>fs r fs'. dir_entries fs 1 = [] \<and> mk_helper 4 5 fs 1 ''home'' inode_type.Directory = Some (r, fs') \<and> fs_ok fs' \<and>
    (case r of
       Ok new_id \<Rightarrow> made_entry fs 1 ''home'' new_id fs' \<and> lookup fs' 1 ''home'' = Some (Ok new_id)
     | Err e \<Rightarrow> e = OUT_OF_RESOURCE)"
proof -
  from demo_dir obtain fs where f: "fs_ok fs" "dir_ok fs 1" "dir_entries fs 1 = []" by blast
  have c: "clean_name ''home''" "type_ok inode_type.Directory" "(4 :: nat) < 2 ^ 64" "(5 :: nat) < 2 ^ 64"
    by (simp_all add: clean_name_def)
  from mk_helper_creates_entry [OF f(1,2) c] obtain r fs' where
    "mk_helper 4 5 fs 1 ''home'' inode_type.Directory = Some (r, fs')" "fs_ok fs'"
    "case r of
       Ok new_id \<Rightarrow> made_entry fs 1 ''home'' new_id fs' \<and> lookup fs' 1 ''home'' = Some (Ok new_id) \<and>
         (\<forall>other. other \<noteq> ''home'' \<longrightarrow> lookup fs' 1 other = lookup fs 1 other)
     | Err e \<Rightarrow> e = OUT_OF_RESOURCE \<and> (file_map fs' = file_map fs \<or>
         (\<exists>new_id. file_map fs new_id = None \<and> file_map fs' = (file_map fs)(new_id \<mapsto> [])))" using f(3) by auto
  with f(3) show ?thesis by (intro exI [of _ fs] exI [of _ r] exI [of _ fs']) (cases r; simp)
qed


text \<open>C30. \<open>unlink\<close> of a name that is not in the directory gives \<open>NotExist\<close> and changes nothing.
  For an entry whose file fits in its direct blocks it always succeeds: the file is gone, every
  entry with its number leaves the directory, all other files and entries stay. Whether the
  entry is a directory that still has entries is not looked at.\<close>

theorem unlink_removes_entry:
  assumes "fs_ok fs" "dir_ok fs parent" "now < 2 ^ 64"
    and "\<And>e. e \<in> set (dir_entries fs parent) \<Longrightarrow>
      usable fs (de_id e) \<and> direct_only fs (de_id e) \<and> de_id e \<noteq> parent"
  shows "\<exists>r fs'. unlink now fs parent name = Some (r, fs') \<and> fs_ok fs' \<and>
    (case find_entry (dir_entries fs parent) name of
       None \<Rightarrow> r = Err NotExist \<and> fs' = fs
     | Some e \<Rightarrow> r = KNullOk \<and> removed_entry fs parent (de_id e) fs')"
proof (cases "find_entry (dir_entries fs parent) name")
  case None
  have u: "usable fs parent" using assms(2) by (simp add: dir_ok_def)
  with None read_directory_ok [OF assms(1) u] lookup_ok [OF assms(1) u, of name] assms(1) show ?thesis
    by (simp add: unlink_def)
next
  case (Some e)
  then have "e \<in> set (dir_entries fs parent)" using find_entry_Some by blast
  with unlink_map [OF assms(1-3) Some] assms(4) show ?thesis using Some by auto
qed


lemma demo_child:
  "\<exists>fs i. fs_ok fs \<and> dir_ok fs 1 \<and> dir_entries fs 1 = [\<lparr>de_name = ''f'', de_id = i\<rparr>] \<and> usable fs i \<and>
    direct_only fs i \<and> i \<noteq> 1"
proof -
  have now: "(7 :: nat) < 2 ^ 64" by simp
  from demo_file obtain fs1 where f: "fs_ok fs1" "usable fs1 1" "file_map fs1 1 = Some []"
    "bm_block_sz (fo_bm fs1) = 64" "get_free_blocks_num fs1 = Some (Ok (Suc 11))"
    "get_free_inode_num fs1 = Some (Ok (Suc 510))" "inode_used (fo_bm fs1) (fo_im fs1) = {0}"
    "im_max_inode_supported (fo_im fs1) = 512" by auto
  from alloc_inode_free [OF f(1) _ now f(5,6), of FILE] f(4,7) obtain k fs2 where
    a: "alloc_inode 7 fs1 FILE = Some (Ok (Suc k), fs2)" "get_free_blocks_num fs2 = Some (Ok 11)"
      "bm_block_sz (fo_bm fs2) = 64" "Suc k \<le> 2" by auto
  from alloc_inode_map [OF f(1), of FILE 7] a(1) have m: "fs_ok fs2" "fo_im fs2 = fo_im fs1"
    "file_map fs1 (Suc k) = None" "file_map fs2 = (file_map fs1)(Suc k \<mapsto> [])" by auto
  have ne: "Suc k \<noteq> 1" using m(3) f(3) by (metis option.distinct(1))
  have u: "usable fs2 1" "usable fs2 (Suc k)" using f(2,8) m(2,4) a(4) by (auto simp: usable_def)
  let ?es = "[\<lparr>de_name = ''f'', de_id = Suc k\<rparr>]"
  have eok: "list_all entry_ok ?es" using a(4) by (simp add: entry_ok_def clean_name_def)
  have "length (inode_id_to_string (Suc k)) = 1" using a(4) by (simp add: inode_id_to_string.simps)
  then have len: "length (bytes_of_str (dir_list_to_string ?es)) = 3" by (simp add: dir_list_to_string_def)
  have max: "length (bytes_of_str (dir_list_to_string ?es)) \<le> max_file_sz_supported (file_ino (fo_bm fs2) (1 - 1))"
    unfolding demo_inode(1) [OF m(1) u(1) a(3)] len by simp
  have need: "blocks_needed fs2 1 (length (bytes_of_str (dir_list_to_string ?es))) \<le> 11"
    unfolding len by (simp add: blocks_needed_def a(3) ceil_div_def missing_indirect_def) linarith
  from write_file_succeeds [OF m(1) u(1) now max a(2) need] obtain fs3 where
    w: "write_file 7 fs2 1 (bytes_of_str (dir_list_to_string ?es)) = Some (KNullOk, fs3)" by blast
  from write_file_map [OF m(1) u(1) now, of "bytes_of_str (dir_list_to_string ?es)"] w have
    n: "fs_ok fs3" "fo_im fs3 = fo_im fs2" "file_map fs3 = (file_map fs2)(1 \<mapsto> bytes_of_str (dir_list_to_string ?es))"
    by simp_all
  have es: "dir_entries fs3 1 = ?es" by (rule dir_entries_written [OF _ eok]) (simp add: n(3))
  have u3: "usable fs3 1" "usable fs3 (Suc k)" using u n(2,3) by (auto simp: usable_def)
  have d: "dir_ok fs3 1" using u3(1) eok n(3) unfolding dir_ok_def es by simp
  from u(1) obtain j where j: "1 = Suc j" "j \<in> inode_used (fo_bm fs2) (fo_im fs2)"
    "Suc j < im_max_inode_supported (fo_im fs2) - 1" by (rule usable_raw)
  from write_file_ok [OF m(1) j(2,3) now, of "bytes_of_str (dir_list_to_string ?es)"] w j(1)
  have sz: "bm_block_sz (fo_bm fs3) = 64" by (auto simp: written_def Let_def a(3) dest: only_changes_fields(1))
  have "file_map fs3 (Suc k) = Some []" using n(3) m(4) ne by simp
  then have "direct_only fs3 (Suc k)" using demo_inode(2) [OF n(1) u3(2) sz] by simp
  with n(1) d es u3(2) ne show ?thesis by blast
qed

theorem unlink_removes_entry_witness:
  "\<exists>fs i fs'. dir_entries fs 1 = [\<lparr>de_name = ''f'', de_id = i\<rparr>] \<and> unlink 9 fs 1 ''f'' = Some (KNullOk, fs') \<and>
    fs_ok fs' \<and> removed_entry fs 1 i fs'"
proof -
  from demo_child obtain fs i where f: "fs_ok fs" "dir_ok fs 1" "dir_entries fs 1 = [\<lparr>de_name = ''f'', de_id = i\<rparr>]"
    "usable fs i" "direct_only fs i" "i \<noteq> 1" by blast
  have "(9 :: nat) < 2 ^ 64" by simp
  from unlink_removes_entry [OF f(1,2) this, of "''f''"] f(3-6) show ?thesis by (auto simp: find_entry_def)
qed

end
