(* ===== verification/List_State_Machine.thy ===== *)
theory List_State_Machine
  imports Directory
begin

text \<open>
  The replicated state machine of the Raft library (\<open>src/chfs/src/include/rsm/state_machine.h\<close>,
  \<open>src/chfs/src/include/rsm/list_state_machine.h\<close>): a list of integers, commands that append to
  it, and snapshots of it as text. A C++ \<open>int\<close> is an \<open>int\<close> here, with its range \<open>in_int\<close>; an
  uninitialised variable is an argument.
\<close>

section \<open>Integers of 32 bits\<close>

definition in_int :: "int \<Rightarrow> bool" where
  "in_int v \<longleftrightarrow> - (2 ^ 31) \<le> v \<and> v < 2 ^ 31"

text \<open>The four bytes of an integer, most significant first, and the integer of four bytes.\<close>

definition int_bytes :: "int \<Rightarrow> byte list" where
  "int_bytes v = [word_of_int (drop_bit 24 v), word_of_int (drop_bit 16 v), word_of_int (drop_bit 8 v), word_of_int v]"

definition bytes_int :: "byte \<Rightarrow> byte \<Rightarrow> byte \<Rightarrow> byte \<Rightarrow> int" where
  "bytes_int a b c d =
     signed_take_bit 31 (push_bit 24 (uint a) OR push_bit 16 (uint b) OR push_bit 8 (uint c) OR uint d)"

section \<open>Commands\<close>

datatype list_command = ListCommand (lc_value: int)

definition cmd_size :: nat where
  "cmd_size = 4"

definition cmd_serialize :: "list_command \<Rightarrow> nat \<Rightarrow> byte list" where
  "cmd_serialize cmd sz = (if sz \<noteq> cmd_size then [] else int_bytes (lc_value cmd))"

definition cmd_deserialize :: "list_command \<Rightarrow> byte list \<Rightarrow> nat \<Rightarrow> list_command option" where
  "cmd_deserialize cmd data sz =
     (if sz \<noteq> cmd_size then Some cmd
      else do {
        a \<leftarrow> at data 0;
        b \<leftarrow> at data 1;
        c \<leftarrow> at data 2;
        d \<leftarrow> at data 3;
        Some (ListCommand (bytes_int a b c d))
      })"

section \<open>The state machine\<close>

record list_state_machine =
  store :: "int list"
  num_append_logs :: int

definition list_state_machine_create :: list_state_machine where
  "list_state_machine_create = \<lparr>store = [0], num_append_logs = 0\<rparr>"

definition apply_log :: "list_state_machine \<Rightarrow> list_command \<Rightarrow> list_state_machine" where
  "apply_log sm cmd = sm\<lparr>store := store sm @ [lc_value cmd], num_append_logs := num_append_logs sm + 1\<rparr>"

text \<open>\<open>ss << v\<close>.\<close>

definition int_to_string :: "int \<Rightarrow> string" where
  "int_to_string v = (if v < 0 then ''-'' @ inode_id_to_string (nat (- v)) else inode_id_to_string (nat v))"

definition sm_snapshot :: "list_state_machine \<Rightarrow> byte list" where
  "sm_snapshot sm = bytes_of_str (int_to_string (int (length (store sm))) @ concat (map (\<lambda>v. '' '' @ int_to_string v) (store sm)))"

text \<open>
  \<open>ss >> v\<close> on a stream that is the rest of its text and whether it has not failed. A stream at
  its end or one that has failed leaves the variable alone; a text with no number stores 0, a
  number out of range the nearest one, and both fail.
\<close>

definition read_int :: "int \<Rightarrow> string \<times> bool \<Rightarrow> int \<times> string \<times> bool" where
  "read_int old st =
     (case st of (text, good) \<Rightarrow>
       let s = dropWhile is_space text in
       if \<not> good \<or> s = [] then (old, s, False)
       else
         let neg = (hd s = CHR ''-'');
             s' = (if hd s = CHR ''-'' \<or> hd s = CHR ''+'' then tl s else s);
             ds = takeWhile is_digit s';
             rest = dropWhile is_digit s';
             v = (if neg then - int (digits_value ds) else int (digits_value ds))
         in if ds = [] then (0, rest, False)
            else if v < - (2 ^ 31) then (- (2 ^ 31), rest, False)
            else if 2 ^ 31 \<le> v then (2 ^ 31 - 1, rest, False)
            else (v, rest, True))"

primrec read_ints :: "(nat \<Rightarrow> int) \<Rightarrow> nat \<Rightarrow> string \<times> bool \<Rightarrow> int list" where
  "read_ints g 0 st = []"
| "read_ints g (Suc n) st = (case read_int (g n) st of (temp, st') \<Rightarrow> temp # read_ints g n st')"

definition apply_snapshot :: "(nat \<Rightarrow> int) \<Rightarrow> int \<Rightarrow> list_state_machine \<Rightarrow> byte list \<Rightarrow> list_state_machine" where
  "apply_snapshot g g0 sm snap =
     (case read_int g0 (str_of_bytes snap, True) of (n, st) \<Rightarrow> sm\<lparr>store := read_ints g (nat n) st\<rparr>)"


section \<open>Codecs\<close>

lemma length_int_bytes [simp]: "length (int_bytes v) = 4"
  by (simp add: int_bytes_def)

lemma signed_take_bit_in_int: "in_int v \<Longrightarrow> signed_take_bit 31 v = v"
  by (simp add: in_int_def signed_take_bit_int_eq_self_iff)

lemma bytes_int_bytes:
  assumes "in_int v"
  shows "bytes_int (word_of_int (drop_bit 24 v)) (word_of_int (drop_bit 16 v)) (word_of_int (drop_bit 8 v)) (word_of_int v) = v"
proof -
  have "push_bit 24 (take_bit 8 (drop_bit 24 v)) OR push_bit 16 (take_bit 8 (drop_bit 16 v)) OR
      push_bit 8 (take_bit 8 (drop_bit 8 v)) OR take_bit 8 v = take_bit 32 v"
  proof (rule bit_eqI)
    fix n :: nat
    consider "n < 8" | "8 \<le> n" "n < 16" | "16 \<le> n" "n < 24" | "24 \<le> n" by linarith
    then show "bit (push_bit 24 (take_bit 8 (drop_bit 24 v)) OR push_bit 16 (take_bit 8 (drop_bit 16 v)) OR
        push_bit 8 (take_bit 8 (drop_bit 8 v)) OR take_bit 8 v) n = bit (take_bit 32 v) n"
      by cases (auto simp: bit_simps)
  qed
  then have "bytes_int (word_of_int (drop_bit 24 v)) (word_of_int (drop_bit 16 v)) (word_of_int (drop_bit 8 v)) (word_of_int v) =
      signed_take_bit 31 (take_bit 32 v)"
    by (simp add: bytes_int_def unsigned_of_int)
  also have "\<dots> = signed_take_bit 31 v" by (rule bit_eqI) (auto simp: bit_simps)
  finally show ?thesis using signed_take_bit_in_int [OF assms] by simp
qed

lemma bytes_int_in_int: "in_int (bytes_int a b c d)"
  using signed_take_bit_int_less_exp [of 31 "push_bit 24 (uint a) OR push_bit 16 (uint b) OR push_bit 8 (uint c) OR uint d"]
    signed_take_bit_int_greater_eq_minus_exp [of 31 "push_bit 24 (uint a) OR push_bit 16 (uint b) OR push_bit 8 (uint c) OR uint d"]
  by (simp add: in_int_def bytes_int_def)

lemma cmd_round_trip:
  "in_int (lc_value cmd) \<Longrightarrow> cmd_deserialize old (cmd_serialize cmd cmd_size @ rest) cmd_size = Some cmd"
  by (simp add: cmd_deserialize_def cmd_serialize_def int_bytes_def at_def bytes_int_bytes)

lemma int_to_string_parts:
  "\<exists>sgn ds. int_to_string v = sgn @ ds \<and> sgn = (if v < 0 then ''-'' else []) \<and> list_all is_digit ds \<and> ds \<noteq> [] \<and>
    digits_value ds = nat (abs v)"
  using inode_id_to_string_digits [of "nat (abs v)"] by (auto simp: int_to_string_def)

lemma read_int_to_string:
  assumes v: "in_int v" and rest: "rest = [] \<or> \<not> is_digit (hd rest)" and sp: "list_all is_space sp"
  shows "read_int old (sp @ int_to_string v @ rest, True) = (v, rest, True)"
proof -
  from int_to_string_parts [of v] obtain sgn ds where
    p: "int_to_string v = sgn @ ds" "sgn = (if v < 0 then ''-'' else [])" "list_all is_digit ds" "ds \<noteq> []" "digits_value ds = nat (abs v)"
    by blast
  obtain c cs where ds: "ds = c # cs" using p(4) by (cases ds) auto
  have c: "is_digit c" "\<not> is_space c" "c \<noteq> CHR ''-''" "c \<noteq> CHR ''+''" using p(3) digit_not [of c] by (simp_all add: ds)
  have sp': "dropWhile is_space (sp @ int_to_string v @ rest) = int_to_string v @ rest"
    using sp c(2) by (simp add: p(1,2) ds dropWhile_append3 list_all_iff is_space_def)
  have tk: "takeWhile is_digit (ds @ rest) = ds" "dropWhile is_digit (ds @ rest) = rest"
    using p(3) rest by (cases rest; simp add: list_all_iff takeWhile_append2 dropWhile_append3)+
  show ?thesis
  proof (cases "v < 0")
    case True
    then show ?thesis using p v tk sp' by (simp add: read_int_def Let_def in_int_def is_space_def)
  next
    case False
    then have "int_to_string v @ rest = ds @ rest" using p by simp
    moreover have "hd (ds @ rest) = c" "\<exists>x \<in> set sp \<union> (set ds \<union> set rest). \<not> is_space x" using c(2) by (simp_all add: ds)
    ultimately show ?thesis using p v tk c False sp' by (simp add: read_int_def Let_def in_int_def)
  qed
qed

lemma read_ints_text:
  assumes "list_all in_int vs"
  shows "read_ints g (length vs) (concat (map (\<lambda>v. '' '' @ int_to_string v) vs), True) = vs"
  using assms
proof (induction vs)
  case (Cons v vs)
  let ?r = "concat (map (\<lambda>v. '' '' @ int_to_string v) vs)"
  have "?r = [] \<or> \<not> is_digit (hd ?r)" by (cases vs) (simp_all add: is_digit_def)
  from read_int_to_string [OF _ this, of v "'' ''" "g (length vs)"] Cons show ?case by (simp add: is_space_def)
qed simp

lemma apply_snapshot_of:
  assumes "list_all in_int (store sm')" "length (store sm') < 2 ^ 31"
  shows "apply_snapshot g g0 sm (sm_snapshot sm') = sm\<lparr>store := store sm'\<rparr>"
proof -
  let ?r = "concat (map (\<lambda>v. '' '' @ int_to_string v) (store sm'))"
  have n: "in_int (int (length (store sm')))" using assms(2) by (simp add: in_int_def)
  have "?r = [] \<or> \<not> is_digit (hd ?r)" by (cases "store sm'") (simp_all add: is_digit_def)
  from read_int_to_string [OF n this, of "[]" g0] show ?thesis
    using read_ints_text [OF assms(1)] by (simp add: apply_snapshot_def sm_snapshot_def)
qed

lemma sm_snapshot_nonempty: "sm_snapshot sm \<noteq> []"
  using inode_id_to_string_digits [of "length (store sm)"] by (simp add: sm_snapshot_def int_to_string_def bytes_of_str_def)

section \<open>Properties\<close>

text \<open>A snapshot carries the state of the machine: applying the snapshot of any machine to any
  other gives it the same list, whatever the uninitialised variables held, and goes on from there
  the same way under every sequence of commands.\<close>

theorem snapshot_round_trip:
  assumes "list_all in_int (store sm')" "length (store sm') < 2 ^ 31"
  shows "store (fold (\<lambda>cmd sm. apply_log sm cmd) cmds (apply_snapshot g g0 sm (sm_snapshot sm'))) =
    store (fold (\<lambda>cmd sm. apply_log sm cmd) cmds sm')"
proof -
  have "store (fold (\<lambda>cmd sm. apply_log sm cmd) cmds m) = store m @ map lc_value cmds" for m
    by (induction cmds arbitrary: m) (simp_all add: apply_log_def)
  then show ?thesis using apply_snapshot_of [OF assms] by simp
qed

theorem snapshot_round_trip_witness:
  "store (apply_log (apply_snapshot (\<lambda>_. 99) 77 list_state_machine_create (sm_snapshot \<lparr>store = [0, -5, 12], num_append_logs = 2\<rparr>)) (ListCommand 4)) =
    [0, -5, 12, 4]"
  using snapshot_round_trip [of "\<lparr>store = [0, -5, 12], num_append_logs = 2\<rparr>" "[ListCommand 4]" "\<lambda>_. 99" 77 list_state_machine_create]
  by (simp add: in_int_def apply_log_def)

end
