(* ===== verification/Data_Server.thy ===== *)
theory Data_Server
  imports Block_Allocator
begin

text \<open>
  The data server of the distributed file system (\<open>src/chfs/src/distributed/dataserver.cc\<close>).
  Block 0 of its device holds one version byte per block; a block is allocated while its
  version is odd, and a reader names the version it expects. The RPC handlers are the
  operations of the model; the RPC server that calls them is not under \<open>src/\<close>.
\<close>

section \<open>Model\<close>

record data_server =
  ds_bm :: block_manager
  ds_al :: block_allocator

text \<open>
  \<open>initialize\<close>: \<open>file\<close> is the contents of the data file, \<open>None\<close> if it does not exist. The
  allocator is only created, which for a new file leaves its bitmap in block 0; its bits are
  then read as version bytes.
\<close>

definition data_server_initialize :: "byte list option \<Rightarrow> data_server option" where
  "data_server_initialize file = do {
     let is_initialized = (file \<noteq> None);
     bm \<leftarrow> bm_create_file (case file of Some f \<Rightarrow> f | None \<Rightarrow> []) KDefaultBlockCnt;
     (al, bm') \<leftarrow> allocator_create bm 0 (\<not> is_initialized);
     Some \<lparr>ds_bm = bm', ds_al = al\<rparr>
   }"

text \<open>The version map. The result of the read is not looked at.\<close>

definition read_version_map :: "block_manager \<Rightarrow> byte list option" where
  "read_version_map bm = do {
     res \<leftarrow> read_block bm 0 (bm_block_sz bm);
     Some (case res of Ok b \<Rightarrow> b | Err _ \<Rightarrow> replicate (bm_block_sz bm) 0)
   }"

definition in_use :: "byte \<Rightarrow> bool" where
  "in_use v \<longleftrightarrow> v AND 1 \<noteq> 0"

definition read_data :: "data_server \<Rightarrow> nat \<Rightarrow> nat \<Rightarrow> nat \<Rightarrow> nat \<Rightarrow> byte list option" where
  "read_data ds block_id offset len version =
     (if KDefaultBlockCnt \<le> block_id then Some []
      else do {
        let bm = ds_bm ds;
        map_buffer \<leftarrow> read_version_map bm;
        v \<leftarrow> at map_buffer block_id;
        if \<not> in_use v then Some []
        else if unat v \<noteq> version then Some []
        else do {
          read_res \<leftarrow> read_block bm block_id (bm_block_sz bm);
          case read_res of
            Err _ \<Rightarrow> Some []
          | Ok buffer \<Rightarrow> peek buffer offset len
        }
      })"

definition write_data :: "data_server \<Rightarrow> nat \<Rightarrow> nat \<Rightarrow> byte list \<Rightarrow> (bool \<times> data_server) option" where
  "write_data ds block_id offset buffer =
     (if KDefaultBlockCnt \<le> block_id \<or> block_id \<le> 0 \<or> 4096 < offset + length buffer then Some (False, ds)
      else do {
        let bm = ds_bm ds;
        map_buffer \<leftarrow> read_version_map bm;
        v \<leftarrow> at map_buffer block_id;
        if \<not> in_use v then Some (False, ds)
        else do {
          (write_res, bm') \<leftarrow> write_partial_block bm block_id buffer offset (length buffer);
          Some (is_ok write_res, ds\<lparr>ds_bm := bm'\<rparr>)
        }
      })"

text \<open>
  The loop of \<open>alloc_block\<close> from index \<open>i\<close> on with \<open>n\<close> rounds left: the index of the first
  unused block, 0 if there is none, and the version map.
\<close>

fun alloc_scan :: "byte list \<Rightarrow> nat \<Rightarrow> nat \<Rightarrow> (nat \<times> byte list) option" where
  "alloc_scan buffer i 0 = Some (0, buffer)"
| "alloc_scan buffer i (Suc n) = do {
     v \<leftarrow> at buffer i;
     if in_use v then alloc_scan buffer (Suc i) n
     else do {
       buffer' \<leftarrow> upd buffer i (v + 1);
       Some (i, buffer')
     }
   }"

definition alloc_block :: "data_server \<Rightarrow> ((nat \<times> nat) \<times> data_server) option" where
  "alloc_block ds = do {
     let bm = ds_bm ds;
     buffer \<leftarrow> read_version_map bm;
     (res, buffer') \<leftarrow> alloc_scan buffer 1 (KDefaultBlockCnt - 1);
     if res = 0 then Some ((0, 0), ds)
     else do {
       v \<leftarrow> at buffer' res;
       (_, bm1) \<leftarrow> write_block bm 0 buffer';
       (_, bm2) \<leftarrow> write_block bm1 res (replicate (bm_block_sz bm1) 0);
       Some ((res, unat v), ds\<lparr>ds_bm := bm2\<rparr>)
     }
   }"

definition free_block :: "data_server \<Rightarrow> nat \<Rightarrow> (bool \<times> data_server) option" where
  "free_block ds block_id =
     (if block_id \<le> 0 \<or> KDefaultBlockCnt < block_id then Some (False, ds)
      else do {
        let bm = ds_bm ds;
        buffer \<leftarrow> read_version_map bm;
        v \<leftarrow> at buffer block_id;
        if \<not> in_use v then Some (False, ds)
        else do {
          buffer' \<leftarrow> upd buffer block_id (v + 1);
          (_, bm') \<leftarrow> write_block bm 0 buffer';
          Some (True, ds\<lparr>ds_bm := bm'\<rparr>)
        }
      })"

section \<open>Invariant and abstraction\<close>

definition ds_ok :: "data_server \<Rightarrow> bool" where
  "ds_ok ds \<longleftrightarrow> bm_ok (ds_bm ds) \<and> \<not> bm_maybe_failed (ds_bm ds) \<and> bm_block_sz (ds_bm ds) = 4096 \<and>
     bm_block_cnt (ds_bm ds) = 4096"

text \<open>The version and the contents of a block.\<close>

definition ds_version :: "data_server \<Rightarrow> nat \<Rightarrow> byte" where
  "ds_version ds i = blk (ds_bm ds) 0 ! i"

definition ds_data :: "data_server \<Rightarrow> nat \<Rightarrow> byte list" where
  "ds_data ds i = blk (ds_bm ds) i"

lemma in_use_odd: "in_use v \<longleftrightarrow> odd (unat v)"
proof -
  have "unat (v mod 2) = unat v mod 2" by (simp add: unat_mod)
  then have "v mod 2 \<noteq> 0 \<longleftrightarrow> unat v mod 2 \<noteq> 0" by (metis unat_eq_0)
  then show ?thesis by (simp add: in_use_def and_one_eq odd_iff_mod_2_eq_one)
qed

lemma in_use_succ: "in_use (v + 1) \<longleftrightarrow> \<not> in_use v"
proof -
  have "unat (v + 1) = (unat v + 1) mod 256" by (simp add: unat_word_ariths)
  then show ?thesis unfolding in_use_odd by (metis dvd_mod_iff even_plus_one_iff even_numeral dvd_numeral_simp)
qed

lemma ds_okD:
  assumes "ds_ok ds"
  shows "bm_ok (ds_bm ds)" "\<not> bm_maybe_failed (ds_bm ds)" "bm_block_sz (ds_bm ds) = 4096"
    "i < 4096 \<Longrightarrow> in_dev (ds_bm ds) i" "length (ds_data ds 0) = 4096"
proof -
  show ok: "bm_ok (ds_bm ds)" "\<not> bm_maybe_failed (ds_bm ds)" "bm_block_sz (ds_bm ds) = 4096"
    using assms by (simp_all add: ds_ok_def)
  show dev: "i < 4096 \<Longrightarrow> in_dev (ds_bm ds) i" for i
    using assms by (intro in_dev_bound) (simp_all add: ds_ok_def)
  show "length (ds_data ds 0) = 4096" using dev [of 0] ok(3) by (simp add: ds_data_def)
qed

lemma read_version_map_ok: "ds_ok ds \<Longrightarrow> read_version_map (ds_bm ds) = Some (blk (ds_bm ds) 0)"
  using ds_okD [of ds] by (simp add: read_version_map_def read_block_ok)

lemma version_at: "ds_ok ds \<Longrightarrow> i < 4096 \<Longrightarrow> at (blk (ds_bm ds) 0) i = Some (ds_version ds i)"
  using ds_okD [of ds] by (simp add: ds_version_def)

lemma ds_ok_changes: "ds_ok ds \<Longrightarrow> only_changes S (ds_bm ds) bm' \<Longrightarrow> ds_ok (ds\<lparr>ds_bm := bm'\<rparr>)"
  using only_changes_fields [of S "ds_bm ds" bm'] by (simp add: ds_ok_def)

lemma write_partial_ok:
  assumes ok: "bm_ok bm" "\<not> bm_maybe_failed bm" and i: "in_dev bm i" and o: "off + length d \<le> bm_block_sz bm"
  shows "\<exists>bm'. write_partial_block bm i d off (length d) = Some (KNullOk, bm') \<and> only_changes {i} bm bm' \<and>
    blk bm' i = patch (blk bm i) off d"
proof -
  let ?sz = "bm_block_sz bm" and ?off = "i * bm_block_sz bm"
  let ?mem = "patch (bm_block_data bm) (?off + off) d"
  let ?bm' = "bm\<lparr>bm_block_data := ?mem, bm_write_fail_cnt := u32 (bm_write_fail_cnt bm + 1)\<rparr>"
  have io: "?off + ?sz \<le> length (bm_block_data bm)" "u32 ?off = ?off" using in_dev_offset [OF ok(1) i] by auto
  have fit: "?off + off + length d \<le> length (bm_block_data bm)" using io(1) o by simp
  have w: "write_partial_block bm i d off (length d) = Some (KNullOk, ?bm')"
    using ok fit io by (simp add: write_partial_block_def may_fail_now_def Let_def)
  have "blk ?bm' j = blk bm j" if "in_dev bm j" "j \<noteq> i" for j
  proof -
    have "j * ?sz + ?sz \<le> ?off \<or> ?off + ?sz \<le> j * ?sz"
      using that(2) by (metis Suc_leI add.commute mult_Suc mult_le_mono1 nat_neq_iff)
    then show ?thesis
      using that fit o io unfolding blk_def in_dev_def
      by (simp add: add.commute) (rule chunk_patch_disjoint; simp add: add.commute; linarith)
  qed
  then have ch: "only_changes {i} bm ?bm'" using fit by (simp add: only_changes_def)
  have "blk ?bm' i = patch (blk bm i) off d"
  proof (rule nth_equalityI)
    show "length (blk ?bm' i) = length (patch (blk bm i) off d)"
      using i o only_changes_fields(1,4) [OF ch] by simp
    fix x assume "x < length (blk ?bm' i)"
    then have x: "x < ?sz" using i only_changes_fields(1,4) [OF ch] by simp
    show "blk ?bm' i ! x = patch (blk bm i) off d ! x"
      using x io fit o i by (simp add: blk_def nth_chunk nth_patch)
  qed
  with w ch show ?thesis by blast
qed

lemma alloc_scan_ok:
  assumes "i + n \<le> length buffer"
  shows "alloc_scan buffer i n =
    Some (case List.find (\<lambda>k. \<not> in_use (buffer ! k)) [i..<i + n] of
            None \<Rightarrow> (0, buffer)
          | Some k \<Rightarrow> (k, buffer[k := buffer ! k + 1]))"
  using assms by (induction n arbitrary: i) (simp_all add: upt_conv_Cons del: upt_Suc)


section \<open>The operations on versions and contents\<close>

lemma read_data_ok:
  assumes ok: "ds_ok ds" and i: "i < 4096" and r: "off + len \<le> 4096"
  shows "read_data ds i off len version =
    Some (if in_use (ds_version ds i) \<and> unat (ds_version ds i) = version then chunk (ds_data ds i) off len else [])"
  using ds_okD [OF ok] i r read_version_map_ok [OF ok] version_at [OF ok i]
  by (simp add: read_data_def read_block_ok Let_def ds_data_def)

lemma write_data_ok:
  assumes ok: "ds_ok ds" and i: "0 < i" "i < 4096" and r: "off + length d \<le> 4096"
  shows "\<exists>ds'. write_data ds i off d = Some (in_use (ds_version ds i), ds') \<and> ds_ok ds' \<and>
    (\<forall>j < 4096. ds_version ds' j = ds_version ds j) \<and>
    (\<forall>j < 4096. j \<noteq> 0 \<longrightarrow> ds_data ds' j =
      (if j = i \<and> in_use (ds_version ds i) then patch (ds_data ds i) off d else ds_data ds j))"
proof (cases "in_use (ds_version ds i)")
  case True
  note o = ds_okD [OF ok]
  from write_partial_ok [OF o(1,2) o(4) [OF i(2)], of off d] r o(3) obtain bm' where
    w: "write_partial_block (ds_bm ds) i d off (length d) = Some (KNullOk, bm')" "only_changes {i} (ds_bm ds) bm'"
      "blk bm' i = patch (blk (ds_bm ds) i) off d" by auto
  have "write_data ds i off d = Some (True, ds\<lparr>ds_bm := bm'\<rparr>)"
    using w(1) i r True read_version_map_ok [OF ok] version_at [OF ok i(2)] by (simp add: write_data_def Let_def)
  moreover have "blk bm' j = blk (ds_bm ds) j" if "j < 4096" "j \<noteq> i" for j
    using only_changes_blk [OF w(2) o(4) [OF that(1)]] that(2) by simp
  ultimately show ?thesis
    using ds_ok_changes [OF ok w(2)] w(3) True i by (auto simp: ds_version_def ds_data_def)
next
  case False
  with ok i r read_version_map_ok [OF ok] version_at [OF ok i(2)] show ?thesis
    by (simp add: write_data_def Let_def)
qed

text \<open>Storing a changed version map, with the block it is about.\<close>

lemma store_version:
  assumes ok: "ds_ok ds" and i: "0 < i" "i < 4096"
  shows "\<exists>bm'. write_block (ds_bm ds) 0 ((blk (ds_bm ds) 0)[i := v]) = Some (KNullOk, bm') \<and>
    only_changes {0} (ds_bm ds) bm' \<and> blk bm' 0 = (blk (ds_bm ds) 0)[i := v] \<and>
    (\<forall>j < 4096. j \<noteq> 0 \<longrightarrow> blk bm' j = blk (ds_bm ds) j)"
proof -
  note o = ds_okD [OF ok]
  have len: "length ((blk (ds_bm ds) 0)[i := v]) = bm_block_sz (ds_bm ds)" using o(4) [of 0] by simp
  show ?thesis
    using write_block_ok [OF o(1) o(4) o(2) len] o(4) len
    by (auto simp: blk_put_blk intro!: only_changes_put_blk)
qed

lemma free_block_ok:
  assumes ok: "ds_ok ds" and i: "0 < i" "i < 4096"
  shows "\<exists>ds'. free_block ds i = Some (in_use (ds_version ds i), ds') \<and> ds_ok ds' \<and>
    (\<forall>j < 4096. ds_version ds' j =
      (if j = i \<and> in_use (ds_version ds i) then ds_version ds i + 1 else ds_version ds j)) \<and>
    (\<forall>j < 4096. j \<noteq> 0 \<longrightarrow> ds_data ds' j = ds_data ds j)"
proof (cases "in_use (ds_version ds i)")
  case True
  note o = ds_okD [OF ok]
  from store_version [OF ok i, of "ds_version ds i + 1"] obtain bm' where
    w: "write_block (ds_bm ds) 0 ((blk (ds_bm ds) 0)[i := ds_version ds i + 1]) = Some (KNullOk, bm')"
      "only_changes {0} (ds_bm ds) bm'" "blk bm' 0 = (blk (ds_bm ds) 0)[i := ds_version ds i + 1]"
      "\<forall>j < 4096. j \<noteq> 0 \<longrightarrow> blk bm' j = blk (ds_bm ds) j" by blast
  have l: "length (blk (ds_bm ds) 0) = 4096" using o(4) [of 0] o(3) by simp
  have "free_block ds i = Some (True, ds\<lparr>ds_bm := bm'\<rparr>)"
    using w(1) i True l read_version_map_ok [OF ok] version_at [OF ok i(2)] by (simp add: free_block_def Let_def)
  moreover have "ds_version (ds\<lparr>ds_bm := bm'\<rparr>) j = (if j = i then ds_version ds i + 1 else ds_version ds j)"
    if "j < 4096" for j using w(3) that l by (simp add: ds_version_def)
  ultimately show ?thesis using ds_ok_changes [OF ok w(2)] w(4) True by (simp add: ds_data_def)
next
  case False
  with ok i read_version_map_ok [OF ok] version_at [OF ok i(2)] show ?thesis
    by (simp add: free_block_def Let_def)
qed

text \<open>The bound check admits one number too many.\<close>

lemma free_block_bound: "ds_ok ds \<Longrightarrow> free_block ds 4096 = None"
  using ds_okD [of ds] read_version_map_ok [of ds] by (simp add: free_block_def Let_def at_def)

lemma alloc_block_full:
  assumes ok: "ds_ok ds" and full: "\<And>i. 0 < i \<Longrightarrow> i < 4096 \<Longrightarrow> in_use (ds_version ds i)"
  shows "alloc_block ds = Some ((0, 0), ds)"
proof -
  have "List.find (\<lambda>k. \<not> in_use (blk (ds_bm ds) 0 ! k)) [1..<1 + 4095] = None"
    using full by (auto simp: find_None_iff ds_version_def)
  then show ?thesis
    using ds_okD [OF ok] ds_okD(4) [OF ok, of 0] read_version_map_ok [OF ok] alloc_scan_ok [of 1 4095 "blk (ds_bm ds) 0"]
    by (simp add: alloc_block_def Let_def)
qed

lemma alloc_block_free:
  assumes ok: "ds_ok ds" and i: "0 < i" "i < 4096" "\<not> in_use (ds_version ds i)"
    and least: "\<And>j. 0 < j \<Longrightarrow> j < i \<Longrightarrow> in_use (ds_version ds j)"
  shows "\<exists>ds'. alloc_block ds = Some ((i, unat (ds_version ds i + 1)), ds') \<and> ds_ok ds' \<and>
    (\<forall>j < 4096. ds_version ds' j = (if j = i then ds_version ds i + 1 else ds_version ds j)) \<and>
    (\<forall>j < 4096. j \<noteq> 0 \<longrightarrow> ds_data ds' j = (if j = i then replicate 4096 0 else ds_data ds j))"
proof -
  note o = ds_okD [OF ok]
  let ?m = "blk (ds_bm ds) 0" and ?v = "ds_version ds i + 1"
  have l: "length ?m = 4096" using o(4) [of 0] o(3) by simp
  have "List.find (\<lambda>k. \<not> in_use (?m ! k)) [1..<1 + 4095] = Some i"
    unfolding find_Some_iff using i least by (intro exI [of _ "i - 1"]) (simp add: ds_version_def)
  then have sc: "alloc_scan ?m 1 4095 = Some (i, ?m[i := ?v])"
    using alloc_scan_ok [of 1 4095 ?m] l by (simp add: ds_version_def)
  from store_version [OF ok i(1,2), of ?v] obtain bm1 where
    w: "write_block (ds_bm ds) 0 (?m[i := ?v]) = Some (KNullOk, bm1)" "only_changes {0} (ds_bm ds) bm1"
      "blk bm1 0 = ?m[i := ?v]" "\<forall>j < 4096. j \<noteq> 0 \<longrightarrow> blk bm1 j = blk (ds_bm ds) j" by blast
  note c = only_changes_fields [OF w(2)]
  let ?z = "replicate (bm_block_sz bm1) 0"
  have dev: "in_dev bm1 j" if "j < 4096" for j using o(4) [OF that] c(4) by simp
  have wz: "write_block bm1 i ?z = Some (KNullOk, put_blk bm1 i ?z)"
    using o c dev i by (intro write_block_ok) auto
  have "only_changes {i} bm1 (put_blk bm1 i ?z)" using dev [OF i(2)] by (intro only_changes_put_blk) simp_all
  note ch = only_changes_trans [OF w(2) this]
  have b: "blk (put_blk bm1 i ?z) j = (if j = i then ?z else blk bm1 j)" if "j < 4096" for j
    using dev [OF i(2)] dev [OF that] by (simp add: blk_put_blk)
  have "alloc_block ds = Some ((i, unat ?v), ds\<lparr>ds_bm := put_blk bm1 i ?z\<rparr>)"
    using sc w(1) wz i l read_version_map_ok [OF ok] by (simp add: alloc_block_def Let_def)
  moreover have "ds_version (ds\<lparr>ds_bm := put_blk bm1 i ?z\<rparr>) j = (if j = i then ?v else ds_version ds j)"
    if "j < 4096" for j using b [of 0] i w(3) l that by (simp add: ds_version_def)
  moreover have "ds_data (ds\<lparr>ds_bm := put_blk bm1 i ?z\<rparr>) j = (if j = i then replicate 4096 0 else ds_data ds j)"
    if "j < 4096" "j \<noteq> 0" for j using b [OF that(1)] w(4) that c(1) o(3) by (simp add: ds_data_def)
  ultimately show ?thesis using ds_ok_changes [OF ok ch] by simp
qed


section \<open>Interface: versioned blocks\<close>

text \<open>
  What the metadata server and the client rely on: a block is read only under its current
  version, freeing it and allocating it again move the version on.
\<close>

locale versioned_blocks =
  fixes ok :: "'s \<Rightarrow> bool"
    and version :: "'s \<Rightarrow> nat \<Rightarrow> byte"
    and contents :: "'s \<Rightarrow> nat \<Rightarrow> byte list"
    and rd :: "'s \<Rightarrow> nat \<Rightarrow> nat \<Rightarrow> nat \<Rightarrow> nat \<Rightarrow> byte list option"
    and fr :: "'s \<Rightarrow> nat \<Rightarrow> (bool \<times> 's) option"
    and al :: "'s \<Rightarrow> ((nat \<times> nat) \<times> 's) option"
    and limit :: nat and size :: nat
  assumes read_law: "ok s \<Longrightarrow> i < limit \<Longrightarrow> off + len \<le> size \<Longrightarrow>
      rd s i off len v =
        Some (if in_use (version s i) \<and> unat (version s i) = v then chunk (contents s i) off len else [])"
    and free_law: "ok s \<Longrightarrow> 0 < i \<Longrightarrow> i < limit \<Longrightarrow> fr s i = Some (b, s') \<Longrightarrow> j < limit \<Longrightarrow>
      ok s' \<and> b = in_use (version s i) \<and>
      version s' j = (if j = i \<and> b then version s i + 1 else version s j)"
    and alloc_law: "ok s \<Longrightarrow> al s = Some ((i, v), s') \<Longrightarrow> j < limit \<Longrightarrow>
      ok s' \<and> (i \<noteq> 0 \<longrightarrow> i < limit \<and> \<not> in_use (version s i) \<and> v = unat (version s i + 1)) \<and>
      version s' j = (if i \<noteq> 0 \<and> j = i then version s i + 1 else version s j)"
begin

lemma next_versions_differ: "unat ((w :: byte) + 1) \<noteq> unat w" "unat ((w :: byte) + 1 + 1) \<noteq> unat w"
proof -
  have "(1 :: byte) \<noteq> 0" "(2 :: byte) \<noteq> 0" by simp_all
  then have "w + 1 \<noteq> w" "w + 2 \<noteq> w" by (metis add.right_neutral add_left_cancel)+
  then show "unat (w + 1) \<noteq> unat w" "unat (w + 1 + 1) \<noteq> unat w"
    by (simp_all add: word_unat_eq_iff add.assoc)
qed

lemma stale_read:
  assumes "ok s" "0 < i" "i < limit" "fr s i = Some (True, s1)" "al s1 = Some ((j, v), s2)" "off + len \<le> size"
  shows "rd s1 i off len (unat (version s i)) = Some []" "rd s2 i off len (unat (version s i)) = Some []"
    "j = i \<Longrightarrow> v = unat (version s i + 1 + 1)"
proof -
  note f = free_law [OF assms(1-4) assms(3)]
  from f have s1: "ok s1" "version s1 i = version s i + 1" by simp_all
  note a = alloc_law [OF s1(1) assms(5,3)]
  from a s1 have s2: "ok s2" "version s2 i = version s i + 1 \<or> version s2 i = version s i + 1 + 1"
    by (auto split: if_splits)
  show "rd s1 i off len (unat (version s i)) = Some []"
    using read_law [OF s1(1) assms(3,6)] s1(2) next_versions_differ by auto
  show "rd s2 i off len (unat (version s i)) = Some []"
    using read_law [OF s2(1) assms(3,6)] s2(2) next_versions_differ by auto
  show "j = i \<Longrightarrow> v = unat (version s i + 1 + 1)" using a s1 assms(2) by simp
qed

end

lemma alloc_block_cases:
  assumes ok: "ds_ok ds"
  obtains (full) "alloc_block ds = Some ((0, 0), ds)" "\<And>i. 0 < i \<Longrightarrow> i < 4096 \<Longrightarrow> in_use (ds_version ds i)"
  | (free) i ds' where "alloc_block ds = Some ((i, unat (ds_version ds i + 1)), ds')" "0 < i" "i < 4096"
      "\<not> in_use (ds_version ds i)" "\<And>j. 0 < j \<Longrightarrow> j < i \<Longrightarrow> in_use (ds_version ds j)" "ds_ok ds'"
      "\<And>j. j < 4096 \<Longrightarrow> ds_version ds' j = (if j = i then ds_version ds i + 1 else ds_version ds j)"
      "\<And>j. j < 4096 \<Longrightarrow> j \<noteq> 0 \<Longrightarrow> ds_data ds' j = (if j = i then replicate 4096 0 else ds_data ds j)"
proof (cases "\<exists>i. 0 < i \<and> i < 4096 \<and> \<not> in_use (ds_version ds i)")
  case True
  let ?P = "\<lambda>i. 0 < i \<and> i < 4096 \<and> \<not> in_use (ds_version ds i)"
  define i where "i = (LEAST i. ?P i)"
  have i: "0 < i" "i < 4096" "\<not> in_use (ds_version ds i)" using LeastI_ex [OF True] by (auto simp: i_def)
  have least: "in_use (ds_version ds j)" if "0 < j" "j < i" for j
    using not_less_Least [of j ?P] that i(2) by (auto simp: i_def)
  from alloc_block_free [OF ok i least] show ?thesis using free [OF _ i least] by blast
next
  case False
  with alloc_block_full [OF ok] full show ?thesis by blast
qed

interpretation versioned: versioned_blocks ds_ok ds_version ds_data read_data free_block alloc_block 4096 4096
proof unfold_locales
  fix s :: data_server and i off len v :: nat
  assume "ds_ok s" "i < 4096" "off + len \<le> 4096"
  then show "read_data s i off len v =
      Some (if in_use (ds_version s i) \<and> unat (ds_version s i) = v then chunk (ds_data s i) off len else [])"
    by (rule read_data_ok)
next
  fix s s' :: data_server and i j :: nat and b
  assume a: "ds_ok s" "0 < i" "i < 4096" "free_block s i = Some (b, s')" "j < 4096"
  from free_block_ok [OF a(1-3)] a(4,5) show "ds_ok s' \<and> b = in_use (ds_version s i) \<and>
      ds_version s' j = (if j = i \<and> b then ds_version s i + 1 else ds_version s j)" by auto
next
  fix s s' :: data_server and i v j :: nat
  assume a: "ds_ok s" "alloc_block s = Some ((i, v), s')" "j < 4096"
  from a(1) show "ds_ok s' \<and> (i \<noteq> 0 \<longrightarrow> i < 4096 \<and> \<not> in_use (ds_version s i) \<and> v = unat (ds_version s i + 1)) \<and>
      ds_version s' j = (if i \<noteq> 0 \<and> j = i then ds_version s i + 1 else ds_version s j)"
    by (cases rule: alloc_block_cases) (use a in auto)
qed


section \<open>A new data server\<close>

definition fresh_device :: block_manager where
  "fresh_device = \<lparr>bm_block_sz = 4096, bm_block_cnt = 4096, bm_in_memory = False, bm_maybe_failed = False,
     bm_write_fail_cnt = 0, bm_block_data = replicate 16777216 0\<rparr>"

lemma fresh_device_fields [simp]:
  "bm_block_sz fresh_device = 4096" "bm_block_cnt fresh_device = 4096" "\<not> bm_maybe_failed fresh_device"
  "length (bm_block_data fresh_device) = 16777216"
  by (simp_all add: fresh_device_def)

lemma fresh_device_ok: "bm_ok fresh_device" "in_dev fresh_device i \<longleftrightarrow> i < 4096"
  by (auto simp: bm_ok_def in_dev_def)

lemma create_fresh_device: "bm_create_file [] 4096 = Some fresh_device"
  by (simp add: bm_create_file_def total_storage_sz_def u32_def ftruncate_def fresh_device_def)

lemma initialize_ok:
  "\<exists>ds. data_server_initialize None = Some ds \<and> ds_ok ds \<and>
    (\<forall>i < 4096. ds_version ds i = (if i = 0 then 1 else 0))"
proof -
  have can: "can_allocate_on fresh_device 0"
    by (simp add: can_allocate_on_def fresh_device_ok bitmap_blocks_def)
  let ?z = "replicate 4096 (0 :: byte)"
  let ?bm1 = "put_blk fresh_device 0 ?z"
  have bb: "bitmap_blocks fresh_device = 1" by (simp add: bitmap_blocks_def)
  have zb: "zero_blocks fresh_device 0 0 1 = Some ?bm1"
    using zero_block_ok [OF fresh_device_ok(1), of 0] by (simp add: fresh_device_ok u64_def)
  have dev: "in_dev ?bm1 0" "bm_ok ?bm1" using fresh_device_ok by simp_all
  have mk: "mark_loop ?bm1 0 32768 0 1 0 ?z = Some (?bm1, 0, ?z[0 := 1])"
    by (simp add: u64_def bitmap_set_def u32_def)
  have wr: "write_block ?bm1 0 (?z[0 := 1]) = Some (KNullOk, put_blk ?bm1 0 (?z[0 := 1]))"
    by (rule write_block_ok) (use dev in simp_all)
  let ?ds = "\<lparr>ds_bm = put_blk ?bm1 0 (?z[0 := 1]), ds_al = fresh_allocator fresh_device 0\<rparr>"
  have "allocator_create fresh_device 0 True =
      Some (fresh_allocator fresh_device 0, put_blk ?bm1 0 (?z[0 := 1]))"
    unfolding allocator_create_unfold [OF can] using zb mk wr by (simp add: bb del: One_nat_def)
  then have "data_server_initialize None = Some ?ds"
    by (simp add: data_server_initialize_def create_fresh_device Let_def)
  moreover have "blk (put_blk ?bm1 0 (?z[0 := 1])) 0 = ?z[0 := 1]" using dev by (simp add: blk_put_blk)
  then have "ds_version ?ds i = (if i = 0 then 1 else 0)" if "i < 4096" for i
    using that by (simp add: ds_version_def nth_list_update)
  moreover have "ds_ok ?ds" using dev by (simp add: ds_ok_def)
  ultimately show ?thesis by blast
qed

section \<open>Properties\<close>

text \<open>A new data server starts with every block from 1 on free.\<close>

theorem data_server_starts_empty:
  "\<exists>ds. data_server_initialize None = Some ds \<and> ds_ok ds \<and>
    (\<forall>i. 0 < i \<and> i < 4096 \<longrightarrow> \<not> in_use (ds_version ds i) \<and> read_data ds i 0 4096 v = Some [])"
  using initialize_ok read_data_ok by (fastforce simp: in_use_def)

theorem data_server_starts_empty_witness:
  "\<exists>ds. data_server_initialize None = Some ds \<and> read_data ds 17 0 4096 3 = Some []"
  using data_server_starts_empty [of 3] by auto

text \<open>\<open>alloc_block\<close> hands out the smallest free block, zeroed, with a new version, and
  \<open>(0, 0)\<close> exactly when all blocks are in use. Data written to the block is read back under
  that version, and the rest of the block reads as zero.\<close>

theorem alloc_write_read_block:
  assumes "ds_ok ds" "alloc_block ds = Some ((i, v), ds1)" "off + length d \<le> 4096"
  shows "(if i = 0 then v = 0 \<and> ds1 = ds \<and> (\<forall>j. 0 < j \<and> j < 4096 \<longrightarrow> in_use (ds_version ds j))
    else i < 4096 \<and> \<not> in_use (ds_version ds i) \<and> (\<forall>j. 0 < j \<and> j < i \<longrightarrow> in_use (ds_version ds j)) \<and>
      (\<exists>ds2. write_data ds1 i off d = Some (True, ds2) \<and> ds_ok ds2 \<and>
        read_data ds2 i 0 4096 v = Some (patch (replicate 4096 0) off d)))"
  using assms(1)
proof (cases rule: alloc_block_cases)
  case full
  with assms(2) show ?thesis by auto
next
  case (free k ds')
  with assms(2) have e: "k = i" "v = unat (ds_version ds i + 1)" "ds' = ds1" by auto
  note f = free [unfolded e]
  have iu: "in_use (ds_version ds1 i)" using f(7) [OF f(3)] f(4) by (simp add: in_use_succ)
  from write_data_ok [OF f(6) f(2,3) assms(3)] iu obtain ds2 where
    w: "write_data ds1 i off d = Some (True, ds2)" "ds_ok ds2"
      "\<forall>j < 4096. ds_version ds2 j = ds_version ds1 j" "ds_data ds2 i = patch (ds_data ds1 i) off d"
    using f(2,3) by auto
  have "read_data ds2 i 0 4096 v = Some (patch (replicate 4096 0) off d)"
    using read_data_ok [OF w(2) f(3), of 0 4096 v] w(3,4) iu f(2,3,7,8) e(2) assms(3)
      chunk_0_length [of "patch (replicate 4096 0) off d"] by simp
  with w f show ?thesis by auto
qed

theorem alloc_write_read_block_witness:
  "\<exists>ds ds1 ds2. data_server_initialize None = Some ds \<and> alloc_block ds = Some ((1, 1), ds1) \<and>
    write_data ds1 1 10 [7, 8] = Some (True, ds2) \<and>
    read_data ds2 1 0 4096 1 = Some (patch (replicate 4096 0) 10 [7, 8])"
proof -
  from initialize_ok obtain ds where d: "data_server_initialize None = Some ds" "ds_ok ds"
    "\<forall>i < 4096. ds_version ds i = (if i = 0 then 1 else 0)" by blast
  have "\<not> in_use (ds_version ds 1)" using d(3) by (simp add: in_use_def)
  from alloc_block_free [OF d(2) _ _ this] d(3) obtain ds1 where a: "alloc_block ds = Some ((1, 1), ds1)" by auto
  from alloc_write_read_block [OF d(2) a, of 10 "[7, 8]"] d(1) a show ?thesis by auto
qed

text \<open>C40. After a block is freed, and also after it is allocated again, a read that still
  names its old version gets no data.\<close>

theorem stale_version_rejected:
  assumes "ds_ok ds" "0 < i" "i < 4096" "free_block ds i = Some (True, ds1)" "alloc_block ds1 = Some ((j, v), ds2)"
    and "off + len \<le> 4096"
  shows "read_data ds1 i off len (unat (ds_version ds i)) = Some [] \<and>
    read_data ds2 i off len (unat (ds_version ds i)) = Some [] \<and>
    (j = i \<longrightarrow> v = unat (ds_version ds i + 1 + 1))"
  using versioned.stale_read [OF assms] by blast

theorem stale_version_rejected_witness:
  "\<exists>ds0 ds ds1 ds2. data_server_initialize None = Some ds0 \<and> alloc_block ds0 = Some ((1, 1), ds) \<and>
    free_block ds 1 = Some (True, ds1) \<and> alloc_block ds1 = Some ((1, 3), ds2) \<and>
    read_data ds2 1 0 16 1 = Some []"
proof -
  from initialize_ok obtain ds0 where d: "data_server_initialize None = Some ds0" "ds_ok ds0"
    "\<forall>i < 4096. ds_version ds0 i = (if i = 0 then 1 else 0)" by blast
  have "\<not> in_use (ds_version ds0 1)" using d(3) by (simp add: in_use_def)
  from alloc_block_free [OF d(2) _ _ this] d(3) obtain ds where
    a: "alloc_block ds0 = Some ((1, 1), ds)" "ds_ok ds" "ds_version ds 1 = 1" by auto
  have iu: "in_use (ds_version ds 1)" unfolding a(3) by (simp add: in_use_def)
  from free_block_ok [OF a(2), of 1] iu a(3) obtain ds1 where
    f: "free_block ds 1 = Some (True, ds1)" "ds_ok ds1" "ds_version ds1 1 = 2" by auto
  have "\<not> in_use (ds_version ds1 1)" unfolding f(3) by (simp add: in_use_def)
  from alloc_block_free [OF f(2) _ _ this] f(3) obtain ds2 where b: "alloc_block ds1 = Some ((1, 3), ds2)" by auto
  from stale_version_rejected [OF a(2) _ _ f(1) b, of 0 16] a(3) d(1) a(1) f(1) b show ?thesis by auto
qed

text \<open>\<open>free_block\<close> of the number one behind the last block passes the bound check and
  reads the version map out of bounds.\<close>

theorem free_block_out_of_bounds:
  assumes "ds_ok ds"
  shows "free_block ds KDefaultBlockCnt = None \<and> free_block ds (KDefaultBlockCnt + 1) = Some (False, ds)"
  using free_block_bound [OF assms] by (simp add: free_block_def)

theorem free_block_out_of_bounds_witness:
  "\<exists>ds. data_server_initialize None = Some ds \<and> free_block ds 4096 = None"
  using initialize_ok free_block_out_of_bounds by blast

end
