(* ===== verification/Raft_Log.thy ===== *)
theory Raft_Log
  imports List_State_Machine Data_Server
begin

text \<open>
  The persistent storage of a Raft node (\<open>src/chfs/src/include/rsm/raft/log.h\<close>), for the commands of
  the list state machine: term, vote and sizes in block 1, the snapshot in block 2, one entry of
  the log per block from block 3 on. The results of the block manager are not looked at; an
  uninitialised member or variable is an argument.
\<close>

section \<open>Model\<close>

record raft_log_entry =
  le_index :: int
  le_term :: int
  le_cmd :: list_command

record raft_log =
  rl_bm :: block_manager
  rl_hasLogPersisted :: int
  rl_current_term :: int
  rl_votedFor :: int
  rl_LogCount :: int
  rl_log :: "raft_log_entry list"
  rl_snapshot_sz :: int
  rl_snapshot :: "byte list"

definition MetadataBlockId :: nat where
  "MetadataBlockId = 1"

definition SnapshotBlockId :: nat where
  "SnapshotBlockId = 2"

definition LogStartBlockId :: nat where
  "LogStartBlockId = 3"

fun u8_to_int :: "byte list \<Rightarrow> int list option" where
  "u8_to_int [] = Some []"
| "u8_to_int (a # b # c # d # vec) = do {
     ret \<leftarrow> u8_to_int vec;
     Some (bytes_int a b c d # ret)
   }"
| "u8_to_int _ = None"

definition int_to_u8 :: "int list \<Rightarrow> byte list" where
  "int_to_u8 vec = concat (map int_bytes vec)"

definition raft_log_create :: "(nat \<Rightarrow> int) \<Rightarrow> block_manager \<Rightarrow> raft_log" where
  "raft_log_create g bm = \<lparr>rl_bm = bm, rl_hasLogPersisted = g 0, rl_current_term = g 1, rl_votedFor = g 2, rl_LogCount = g 3,
     rl_log = [], rl_snapshot_sz = g 4, rl_snapshot = []\<rparr>"

text \<open>A block read into a buffer of one block, and one written from it.\<close>

definition rl_read :: "block_manager \<Rightarrow> nat \<Rightarrow> byte list option" where
  "rl_read bm block_id = do {
     res \<leftarrow> read_block bm block_id DiskBlockSize;
     Some (case res of Ok buf \<Rightarrow> buf | Err _ \<Rightarrow> replicate DiskBlockSize 0)
   }"

definition rl_write :: "block_manager \<Rightarrow> nat \<Rightarrow> byte list \<Rightarrow> block_manager option" where
  "rl_write bm block_id buf = map_option snd (write_block bm block_id buf)"

subsection \<open>Restoring\<close>

text \<open>The loop that reads the log: entry \<open>i\<close> and \<open>n\<close> more.\<close>

primrec restore_entries :: "(nat \<Rightarrow> int) \<Rightarrow> block_manager \<Rightarrow> nat \<Rightarrow> nat \<Rightarrow> raft_log_entry list option" where
  "restore_entries g bm 0 i = Some []"
| "restore_entries g bm (Suc n) i = do {
     logbuf \<leftarrow> rl_read bm (u32 (LogStartBlockId + i));
     intlogbuf \<leftarrow> u8_to_int logbuf;
     index \<leftarrow> at intlogbuf 1000;
     term \<leftarrow> at intlogbuf 1001;
     cmd \<leftarrow> cmd_deserialize (ListCommand (g i)) logbuf cmd_size;
     log \<leftarrow> restore_entries g bm n (Suc i);
     Some (\<lparr>le_index = index, le_term = term, le_cmd = cmd\<rparr> # log)
   }"

definition restore :: "(nat \<Rightarrow> int) \<Rightarrow> raft_log \<Rightarrow> (bool \<times> raft_log) option" where
  "restore g rl = do {
     buffer \<leftarrow> rl_read (rl_bm rl) MetadataBlockId;
     intbuf \<leftarrow> u8_to_int buffer;
     hasPersisted \<leftarrow> at intbuf 0;
     term \<leftarrow> at intbuf 1;
     vote \<leftarrow> at intbuf 2;
     count \<leftarrow> at intbuf 3;
     ss_sz \<leftarrow> at intbuf 4;
     let rl1 = rl\<lparr>rl_hasLogPersisted := hasPersisted, rl_current_term := term, rl_votedFor := vote, rl_LogCount := count,
       rl_snapshot_sz := ss_sz\<rparr>;
     if hasPersisted = 0 then Some (False, rl1)
     else do {
       ssbuf \<leftarrow> rl_read (rl_bm rl) SnapshotBlockId;
       ss \<leftarrow> peek ssbuf 0 (nat ss_sz);
       log \<leftarrow> restore_entries g (rl_bm rl) (nat count) 0;
       Some (True, rl1\<lparr>rl_snapshot := ss, rl_log := log\<rparr>)
     }
   }"

subsection \<open>Saving\<close>

definition saveMetadata :: "raft_log \<Rightarrow> raft_log option" where
  "saveMetadata rl = do {
     let rl1 = rl\<lparr>rl_hasLogPersisted := 1\<rparr>;
     let intbuf = [rl_hasLogPersisted rl1, rl_current_term rl1, rl_votedFor rl1, rl_LogCount rl1, rl_snapshot_sz rl1] @
       replicate (DiskBlockSize div 4 - 5) 0;
     bm \<leftarrow> rl_write (rl_bm rl1) MetadataBlockId (int_to_u8 intbuf);
     Some (rl1\<lparr>rl_bm := bm\<rparr>)
   }"

definition saveSnapshot :: "raft_log \<Rightarrow> raft_log option" where
  "saveSnapshot rl = do {
     let rl1 = rl\<lparr>rl_hasLogPersisted := 1, rl_snapshot_sz := int (length (rl_snapshot rl))\<rparr>;
     ssbuf \<leftarrow> poke (replicate DiskBlockSize 0) 0 (rl_snapshot rl1);
     bm \<leftarrow> rl_write (rl_bm rl1) SnapshotBlockId ssbuf;
     Some (rl1\<lparr>rl_bm := bm\<rparr>)
   }"

definition entry_block :: "raft_log_entry \<Rightarrow> byte list option" where
  "entry_block e = do {
     let intbuf = (replicate (DiskBlockSize div 4) 0)[1000 := le_index e, 1001 := le_term e];
     poke (int_to_u8 intbuf) 0 (cmd_serialize (le_cmd e) cmd_size)
   }"

text \<open>The loop that writes \<open>n\<close> entries from entry \<open>i\<close> on.\<close>

primrec save_entries :: "block_manager \<Rightarrow> raft_log_entry list \<Rightarrow> nat \<Rightarrow> nat \<Rightarrow> block_manager option" where
  "save_entries bm log 0 i = Some bm"
| "save_entries bm log (Suc n) i = do {
     e \<leftarrow> at log i;
     buf \<leftarrow> entry_block e;
     bm' \<leftarrow> rl_write bm (u32 (LogStartBlockId + i)) buf;
     save_entries bm' log n (Suc i)
   }"

definition saveLogs :: "raft_log \<Rightarrow> raft_log option" where
  "saveLogs rl = do {
     let rl1 = rl\<lparr>rl_hasLogPersisted := 1, rl_LogCount := int (length (rl_log rl))\<rparr>;
     bm \<leftarrow> save_entries (rl_bm rl1) (rl_log rl1) (length (rl_log rl1)) 0;
     Some (rl1\<lparr>rl_bm := bm\<rparr>)
   }"

definition saveLogsWithRange :: "raft_log \<Rightarrow> int \<Rightarrow> int \<Rightarrow> raft_log option" where
  "saveLogsWithRange rl startIndex endIndex0 = do {
     let rl1 = rl\<lparr>rl_hasLogPersisted := 1, rl_LogCount := int (length (rl_log rl))\<rparr>;
     let endIndex = min (if endIndex0 = - 1 then rl_LogCount rl1 else endIndex0) (rl_LogCount rl1);
     if startIndex < endIndex then do {
       chfs_assert (0 \<le> startIndex);
       bm \<leftarrow> save_entries (rl_bm rl1) (rl_log rl1) (nat (endIndex - startIndex)) (nat startIndex);
       Some (rl1\<lparr>rl_bm := bm\<rparr>)
     }
     else Some rl1
   }"

definition saveAll :: "raft_log \<Rightarrow> raft_log option" where
  "saveAll rl = do {
     rl1 \<leftarrow> saveSnapshot rl;
     rl2 \<leftarrow> saveLogs rl1;
     saveMetadata rl2
   }"

definition updateMeta :: "raft_log \<Rightarrow> int \<Rightarrow> int \<Rightarrow> raft_log option" where
  "updateMeta rl current_term votedFor = saveMetadata (rl\<lparr>rl_current_term := current_term, rl_votedFor := votedFor\<rparr>)"

definition updateSnapshot :: "raft_log \<Rightarrow> byte list \<Rightarrow> raft_log option" where
  "updateSnapshot rl snapshot = do {
     rl1 \<leftarrow> saveSnapshot (rl\<lparr>rl_snapshot := snapshot\<rparr>);
     saveMetadata rl1
   }"

definition updateLogs :: "raft_log \<Rightarrow> raft_log_entry list \<Rightarrow> raft_log option" where
  "updateLogs rl log = do {
     rl1 \<leftarrow> saveLogs (rl\<lparr>rl_log := log\<rparr>);
     saveMetadata rl1
   }"

definition updateLogsWithRange :: "raft_log \<Rightarrow> raft_log_entry list \<Rightarrow> int \<Rightarrow> int \<Rightarrow> raft_log option" where
  "updateLogsWithRange rl log startIndex endIndex = do {
     rl1 \<leftarrow> saveLogsWithRange (rl\<lparr>rl_log := log\<rparr>) startIndex endIndex;
     saveMetadata rl1
   }"



section \<open>What is stored\<close>

lemma length_int_to_u8 [simp]: "length (int_to_u8 vs) = 4 * length vs"
  by (induction vs) (simp_all add: int_to_u8_def)

lemma int_to_u8_Cons [simp]: "int_to_u8 (v # vs) = int_bytes v @ int_to_u8 vs"
  by (simp add: int_to_u8_def)

lemma int_to_u8_append [simp]: "int_to_u8 (vs @ ws) = int_to_u8 vs @ int_to_u8 ws"
  by (simp add: int_to_u8_def)

lemma u8_to_int_to_u8: "list_all in_int vs \<Longrightarrow> u8_to_int (int_to_u8 vs) = Some vs"
  by (induction vs) (simp_all add: int_bytes_def bytes_int_bytes int_to_u8_def)

definition meta_ints :: "int \<Rightarrow> int \<Rightarrow> nat \<Rightarrow> nat \<Rightarrow> int list" where
  "meta_ints term vote n m = [1, term, vote, int n, int m] @ replicate 1019 0"

definition entry_ints :: "raft_log_entry \<Rightarrow> int list" where
  "entry_ints e = lc_value (le_cmd e) # replicate 999 0 @ [le_index e, le_term e] @ replicate 22 0"

definition log_entry_ok :: "raft_log_entry \<Rightarrow> bool" where
  "log_entry_ok e \<longleftrightarrow> in_int (le_index e) \<and> in_int (le_term e) \<and> in_int (lc_value (le_cmd e))"

lemma replicate_two_updates:
  "(replicate (n + Suc (Suc m)) x)[n := a, Suc n := b] = replicate n x @ a # b # replicate m x"
  by (induction n) simp_all

lemma entry_block_ok: "entry_block e = Some (int_to_u8 (entry_ints e))"
proof -
  let ?rest = "replicate 999 0 @ [le_index e, le_term e] @ replicate 22 (0 :: int)"
  have n: "(1024 :: nat) = 1000 + Suc (Suc 22)" "(1000 :: nat) = Suc 999" "(1001 :: nat) = Suc 1000" by simp_all
  have "(replicate 1024 0)[1000 := le_index e, 1001 := le_term e] = replicate 1000 0 @ le_index e # le_term e # replicate 22 0"
    unfolding n(1,3) by (rule replicate_two_updates)
  also have "\<dots> = 0 # ?rest" unfolding n(2) by (simp only: replicate_Suc append_Cons append_Nil)
  finally have "(replicate 1024 0)[1000 := le_index e, 1001 := le_term e] = 0 # ?rest" .
  then have "entry_block e = poke (int_bytes 0 @ int_to_u8 ?rest) 0 (int_bytes (lc_value (le_cmd e)))"
    using div_mult_self1_is_m [of 4 "1024 :: nat"] by (simp add: entry_block_def cmd_serialize_def del: list_update.simps)
  then show ?thesis by (simp add: entry_ints_def patch_def)
qed


lemma length_entry_ints [simp]: "length (entry_ints e) = 1024"
  by (simp add: entry_ints_def)

lemma length_meta_ints [simp]: "length (meta_ints t v n m) = 1024"
  by (simp add: meta_ints_def)

lemma entry_ints_ok: "log_entry_ok e \<Longrightarrow> list_all in_int (entry_ints e)"
  by (simp add: log_entry_ok_def entry_ints_def list_all_iff in_int_def)

lemma entry_ints_nth:
  "entry_ints e ! 1000 = le_index e" "entry_ints e ! 1001 = le_term e"
  by (simp_all add: entry_ints_def nth_append nth_Cons')

definition raft_dev :: "block_manager \<Rightarrow> bool" where
  "raft_dev bm \<longleftrightarrow> bm_ok bm \<and> \<not> bm_maybe_failed bm \<and> bm_block_sz bm = 4096 \<and> length (bm_block_data bm) = 16777216 \<and>
     (\<forall>i < 4096. in_dev bm i)"

lemma raft_dev_changes: "raft_dev bm \<Longrightarrow> only_changes S bm bm' \<Longrightarrow> raft_dev bm'"
  using only_changes_fields [of S bm bm'] by (auto simp: raft_dev_def) (simp add: only_changes_def)

lemma rl_read_ok: "raft_dev bm \<Longrightarrow> i < 4096 \<Longrightarrow> rl_read bm i = Some (blk bm i)"
  by (simp add: rl_read_def raft_dev_def read_block_ok)

lemma rl_write_ok:
  assumes "raft_dev bm" "i < 4096" "length b = 4096"
  shows "\<exists>bm'. rl_write bm i b = Some bm' \<and> only_changes {i} bm bm' \<and> blk bm' i = b"
proof -
  have d: "bm_ok bm" "in_dev bm i" "\<not> bm_maybe_failed bm" "length b = bm_block_sz bm" using assms by (simp_all add: raft_dev_def)
  show ?thesis using write_block_ok [OF d] blk_put_blk [OF d(2) d(2) d(4)] only_changes_put_blk [OF d(2) d(4), of "{i}"]
    by (simp add: rl_write_def)
qed

definition saved_log :: "block_manager \<Rightarrow> raft_log_entry list \<Rightarrow> bool" where
  "saved_log bm log \<longleftrightarrow> (\<forall>i < length log. blk bm (3 + i) = int_to_u8 (entry_ints (log ! i)))"

definition saved_snapshot :: "block_manager \<Rightarrow> byte list \<Rightarrow> bool" where
  "saved_snapshot bm ss \<longleftrightarrow> chunk (blk bm 2) 0 (length ss) = ss"

definition stored :: "block_manager \<Rightarrow> int \<Rightarrow> int \<Rightarrow> raft_log_entry list \<Rightarrow> byte list \<Rightarrow> bool" where
  "stored bm term vote log ss \<longleftrightarrow> raft_dev bm \<and> in_int term \<and> in_int vote \<and> length log \<le> 4093 \<and> length ss \<le> 4096 \<and>
     list_all log_entry_ok log \<and> blk bm 1 = int_to_u8 (meta_ints term vote (length log) (length ss)) \<and>
     saved_log bm log \<and> saved_snapshot bm ss"

lemma saved_log_changes:
  "raft_dev bm \<Longrightarrow> only_changes {1, 2} bm bm' \<Longrightarrow> saved_log bm log \<Longrightarrow> length log \<le> 4093 \<Longrightarrow> saved_log bm' log"
  by (auto simp: saved_log_def raft_dev_def only_changes_blk)

lemma restore_entries_ok:
  assumes "raft_dev bm" "saved_log bm log" "list_all log_entry_ok log" "length log \<le> 4093" "i + n = length log"
  shows "restore_entries g bm n i = Some (drop i log)"
  using assms(5)
proof (induction n arbitrary: i)
  case (Suc n)
  then have i: "i < length log" "Suc i + n = length log" by simp_all
  let ?e = "log ! i"
  have ok: "log_entry_ok ?e" using assms(3) i(1) by (simp add: list_all_length)
  have b: "blk bm (3 + i) = int_to_u8 (entry_ints ?e)" using assms(2) i(1) by (simp add: saved_log_def)
  have rd: "rl_read bm (u32 (LogStartBlockId + i)) = Some (int_to_u8 (entry_ints ?e))"
    using rl_read_ok [OF assms(1), of "3 + i"] b assms(4) i(1) by (simp add: LogStartBlockId_def u32_def)
  have cmd: "cmd_deserialize (ListCommand (g i)) (int_to_u8 (entry_ints ?e)) cmd_size = Some (le_cmd ?e)"
    using cmd_round_trip [of "le_cmd ?e"] ok by (simp add: entry_ints_def cmd_serialize_def log_entry_ok_def)
  have e: "\<lparr>le_index = le_index ?e, le_term = le_term ?e, le_cmd = le_cmd ?e\<rparr> = ?e" by (cases ?e) simp
  have "restore_entries g bm (Suc n) i = Some (\<lparr>le_index = le_index ?e, le_term = le_term ?e, le_cmd = le_cmd ?e\<rparr> # drop (Suc i) log)"
    using rd u8_to_int_to_u8 [OF entry_ints_ok [OF ok]] cmd Suc.IH [OF i(2)] by (simp add: entry_ints_nth at_def)
  then show ?case unfolding e Cons_nth_drop_Suc [OF i(1)] .
qed (use assms in simp)

lemma restore_ok:
  assumes st: "stored bm term vote log ss"
  shows "restore g (raft_log_create g' bm) = Some (True, \<lparr>rl_bm = bm, rl_hasLogPersisted = 1, rl_current_term = term, rl_votedFor = vote,
    rl_LogCount = int (length log), rl_log = log, rl_snapshot_sz = int (length ss), rl_snapshot = ss\<rparr>)"
proof -
  have s: "raft_dev bm" "in_int term" "in_int vote" "length log \<le> 4093" "length ss \<le> 4096" "list_all log_entry_ok log"
    "blk bm 1 = int_to_u8 (meta_ints term vote (length log) (length ss))" "saved_log bm log" "chunk (blk bm 2) 0 (length ss) = ss"
    using st by (simp_all add: stored_def saved_snapshot_def)
  have "list_all in_int (meta_ints term vote (length log) (length ss))"
    using s(2-5) by (simp add: meta_ints_def list_all_iff in_int_def)
  note m = u8_to_int_to_u8 [OF this]
  have len: "length (blk bm 2) = 4096" using s(1) by (simp add: raft_dev_def)
  have rd: "rl_read bm MetadataBlockId = Some (int_to_u8 (meta_ints term vote (length log) (length ss)))"
    "rl_read bm SnapshotBlockId = Some (blk bm 2)"
    using rl_read_ok [OF s(1), of 1] rl_read_ok [OF s(1), of 2] by (simp_all add: MetadataBlockId_def SnapshotBlockId_def flip: s(7))
  have "restore_entries g bm (length log) 0 = Some log" using restore_entries_ok [OF s(1,8,6,4), of 0 "length log" g] by simp
  then show ?thesis using rd m s(5,9) len
    by (simp add: restore_def raft_log_create_def at_def Let_def) (simp add: meta_ints_def)
qed


section \<open>Every update is stored\<close>

definition rl_ok :: "raft_log \<Rightarrow> bool" where
  "rl_ok rl \<longleftrightarrow> stored (rl_bm rl) (rl_current_term rl) (rl_votedFor rl) (rl_log rl) (rl_snapshot rl) \<and>
     rl_LogCount rl = int (length (rl_log rl)) \<and> rl_snapshot_sz rl = int (length (rl_snapshot rl))"

text \<open>The contents of the storage, and what an update does to it.\<close>

definition rl_holds :: "raft_log \<Rightarrow> int \<Rightarrow> int \<Rightarrow> raft_log_entry list \<Rightarrow> byte list \<Rightarrow> bool" where
  "rl_holds rl term vote log ss \<longleftrightarrow> rl_ok rl \<and> rl_current_term rl = term \<and> rl_votedFor rl = vote \<and> rl_log rl = log \<and> rl_snapshot rl = ss"

lemma rl_ok_fields:
  assumes "rl_ok rl"
  shows "raft_dev (rl_bm rl)" "in_int (rl_current_term rl)" "in_int (rl_votedFor rl)" "length (rl_log rl) \<le> 4093"
    "length (rl_snapshot rl) \<le> 4096" "list_all log_entry_ok (rl_log rl)" "saved_log (rl_bm rl) (rl_log rl)"
    "saved_snapshot (rl_bm rl) (rl_snapshot rl)" "rl_LogCount rl = int (length (rl_log rl))"
    "rl_snapshot_sz rl = int (length (rl_snapshot rl))"
  using assms by (simp_all add: rl_ok_def stored_def)

lemma saveMetadata_ok:
  assumes d: "raft_dev (rl_bm rl)" and i: "in_int (rl_current_term rl)" "in_int (rl_votedFor rl)"
    and l: "length (rl_log rl) \<le> 4093" "length (rl_snapshot rl) \<le> 4096" "list_all log_entry_ok (rl_log rl)"
    and s: "saved_log (rl_bm rl) (rl_log rl)" "saved_snapshot (rl_bm rl) (rl_snapshot rl)"
    and n: "rl_LogCount rl = int (length (rl_log rl))" "rl_snapshot_sz rl = int (length (rl_snapshot rl))"
  shows "\<exists>rl'. saveMetadata rl = Some rl' \<and> rl_holds rl' (rl_current_term rl) (rl_votedFor rl) (rl_log rl) (rl_snapshot rl)"
proof -
  let ?m = "meta_ints (rl_current_term rl) (rl_votedFor rl) (length (rl_log rl)) (length (rl_snapshot rl))"
  from rl_write_ok [OF d, of 1 "int_to_u8 ?m"] obtain bm' where
    w: "rl_write (rl_bm rl) 1 (int_to_u8 ?m) = Some bm'" "only_changes {1} (rl_bm rl) bm'" "blk bm' 1 = int_to_u8 ?m" by auto
  let ?rl = "rl\<lparr>rl_hasLogPersisted := 1, rl_bm := bm'\<rparr>"
  have "saveMetadata rl = Some ?rl"
    using w(1) n by (simp add: saveMetadata_def MetadataBlockId_def meta_ints_def Let_def)
  moreover have "saved_log bm' (rl_log rl)"
    using saved_log_changes [OF d only_changes_mono [OF w(2)] s(1) l(1)] by simp
  moreover have "saved_snapshot bm' (rl_snapshot rl)"
    using s(2) only_changes_blk [OF w(2), of 2] d by (simp add: saved_snapshot_def raft_dev_def)
  ultimately show ?thesis using raft_dev_changes [OF d w(2)] i l n w(3) by (simp add: rl_holds_def rl_ok_def stored_def)
qed

lemma updateMeta_ok:
  assumes "rl_ok rl" "in_int term" "in_int vote"
  shows "\<exists>rl'. updateMeta rl term vote = Some rl' \<and> rl_holds rl' term vote (rl_log rl) (rl_snapshot rl)"
  using saveMetadata_ok [of "rl\<lparr>rl_current_term := term, rl_votedFor := vote\<rparr>"] rl_ok_fields [OF assms(1)] assms(2,3)
  by (simp add: updateMeta_def)

lemma updateSnapshot_ok:
  assumes ok: "rl_ok rl" and len: "length ss \<le> 4096"
  shows "\<exists>rl'. updateSnapshot rl ss = Some rl' \<and> rl_holds rl' (rl_current_term rl) (rl_votedFor rl) (rl_log rl) ss"
proof -
  note f = rl_ok_fields [OF ok]
  let ?b = "ss @ replicate (4096 - length ss) 0"
  have b: "poke (replicate 4096 0) 0 ss = Some ?b" using len by (simp add: patch_def)
  from rl_write_ok [OF f(1), of 2 ?b] len obtain bm' where
    w: "rl_write (rl_bm rl) 2 ?b = Some bm'" "only_changes {2} (rl_bm rl) bm'" "blk bm' 2 = ?b" by auto
  let ?rl = "rl\<lparr>rl_snapshot := ss, rl_hasLogPersisted := 1, rl_snapshot_sz := int (length ss), rl_bm := bm'\<rparr>"
  have "saveSnapshot (rl\<lparr>rl_snapshot := ss\<rparr>) = Some ?rl"
    using b w(1) by (simp add: saveSnapshot_def SnapshotBlockId_def Let_def)
  moreover have "saved_log bm' (rl_log rl)" using saved_log_changes [OF f(1) only_changes_mono [OF w(2)] f(7,4)] by simp
  moreover have "saved_snapshot bm' ss" using w(3) by (simp add: saved_snapshot_def chunk_def)
  ultimately show ?thesis
    using saveMetadata_ok [of ?rl] raft_dev_changes [OF f(1) w(2)] f len by (simp add: updateSnapshot_def)
qed

lemma save_entries_ok:
  assumes "raft_dev bm" "i + n \<le> length log" "length log \<le> 4093"
  shows "\<exists>bm'. save_entries bm log n i = Some bm' \<and> only_changes {3 + i..<3 + i + n} bm bm' \<and>
    (\<forall>j. i \<le> j \<and> j < i + n \<longrightarrow> blk bm' (3 + j) = int_to_u8 (entry_ints (log ! j)))"
  using assms(1,2)
proof (induction n arbitrary: i bm)
  case (Suc n)
  then have i: "i < length log" "Suc i + n \<le> length log" by simp_all
  from rl_write_ok [OF Suc.prems(1), of "3 + i" "int_to_u8 (entry_ints (log ! i))"] i(1) assms(3) obtain bm1 where
    w: "rl_write bm (3 + i) (int_to_u8 (entry_ints (log ! i))) = Some bm1" "only_changes {3 + i} bm bm1"
      "blk bm1 (3 + i) = int_to_u8 (entry_ints (log ! i))" by auto
  note d1 = raft_dev_changes [OF Suc.prems(1) w(2)]
  from Suc.IH [OF d1 i(2)] obtain bm' where
    r: "save_entries bm1 log n (Suc i) = Some bm'" "only_changes {3 + Suc i..<3 + Suc i + n} bm1 bm'"
      "\<forall>j. Suc i \<le> j \<and> j < Suc i + n \<longrightarrow> blk bm' (3 + j) = int_to_u8 (entry_ints (log ! j))" by blast
  have "save_entries bm log (Suc n) i = Some bm'"
    using w(1) r(1) i(1) assms(3) by (simp add: entry_block_ok LogStartBlockId_def u32_def)
  moreover have "only_changes {3 + i..<3 + i + Suc n} bm bm'"
    by (rule only_changes_trans_same [OF only_changes_mono [OF w(2)] only_changes_mono [OF r(2)]]) auto
  moreover have "blk bm' (3 + i) = int_to_u8 (entry_ints (log ! i))"
    using only_changes_blk [OF r(2), of "3 + i"] d1 w(3) i(1) assms(3) by (simp add: raft_dev_def)
  ultimately show ?case using r(3) by (metis Suc_leI add_Suc_shift le_neq_implies_less)
qed auto

lemma updateLogsWithRange_ok:
  assumes ok: "rl_ok rl" and log: "list_all log_entry_ok log" "length log \<le> 4093"
    and k: "k \<le> length log" "take k log = take k (rl_log rl)"
  shows "\<exists>rl'. updateLogsWithRange rl log (int k) (int (length log)) = Some rl' \<and>
    rl_holds rl' (rl_current_term rl) (rl_votedFor rl) log (rl_snapshot rl)"
proof -
  note f = rl_ok_fields [OF ok]
  from save_entries_ok [OF f(1) _ log(2), of k "length log - k"] k(1) obtain bm' where
    s: "save_entries (rl_bm rl) log (length log - k) k = Some bm'" "only_changes {3 + k..<3 + length log} (rl_bm rl) bm'"
      "\<forall>j. k \<le> j \<and> j < length log \<longrightarrow> blk bm' (3 + j) = int_to_u8 (entry_ints (log ! j))" by auto
  let ?rl = "rl\<lparr>rl_log := log, rl_hasLogPersisted := 1, rl_LogCount := int (length log), rl_bm := bm'\<rparr>"
  have "bm' = rl_bm rl" if "k = length log" using s(1) that by simp
  then have "saveLogsWithRange (rl\<lparr>rl_log := log\<rparr>) (int k) (int (length log)) = Some ?rl"
    using s(1) k(1) by (auto simp: saveLogsWithRange_def Let_def nat_diff_distrib)
  moreover have "saved_log bm' log" unfolding saved_log_def
  proof (intro allI impI)
    fix i
    assume i: "i < length log"
    show "blk bm' (3 + i) = int_to_u8 (entry_ints (log ! i))"
    proof (cases "i < k")
      case True
      then have e: "log ! i = rl_log rl ! i" "i < length (rl_log rl)" using k nth_take [of i k log] nth_take [of i k "rl_log rl"]
        by (metis, metis length_take min_less_iff_conj i)
      have "blk bm' (3 + i) = blk (rl_bm rl) (3 + i)"
        using only_changes_blk [OF s(2), of "3 + i"] f(1) True i log(2) by (simp add: raft_dev_def)
      then show ?thesis using f(7) e by (simp add: saved_log_def)
    next
      case False
      then show ?thesis using s(3) i by simp
    qed
  qed
  moreover have "saved_snapshot bm' (rl_snapshot rl)"
    using f(8) only_changes_blk [OF s(2), of 2] f(1) by (simp add: saved_snapshot_def raft_dev_def)
  ultimately show ?thesis using saveMetadata_ok [of ?rl] raft_dev_changes [OF f(1) s(2)] f log by (simp add: updateLogsWithRange_def)
qed

lemma updateLogs_ok:
  assumes "rl_ok rl" "list_all log_entry_ok log" "length log \<le> 4093"
  shows "\<exists>rl'. updateLogs rl log = Some rl' \<and> rl_holds rl' (rl_current_term rl) (rl_votedFor rl) log (rl_snapshot rl)"
proof -
  have "updateLogs rl log = updateLogsWithRange rl log (int 0) (int (length log))"
    by (simp add: updateLogs_def updateLogsWithRange_def saveLogs_def saveLogsWithRange_def Let_def)
  then show ?thesis using updateLogsWithRange_ok [OF assms, of 0] by simp
qed


lemma saveAll_ok:
  assumes "raft_dev (rl_bm rl)" "in_int (rl_current_term rl)" "in_int (rl_votedFor rl)"
    "length (rl_log rl) \<le> 4093" "length (rl_snapshot rl) \<le> 4096" "list_all log_entry_ok (rl_log rl)"
  shows "\<exists>rl'. saveAll rl = Some rl' \<and> rl_holds rl' (rl_current_term rl) (rl_votedFor rl) (rl_log rl) (rl_snapshot rl)"
proof -
  let ?ss = "rl_snapshot rl" and ?log = "rl_log rl"
  let ?b = "?ss @ replicate (4096 - length ?ss) 0"
  have b: "poke (replicate 4096 0) 0 ?ss = Some ?b" using assms(5) by (simp add: patch_def)
  from rl_write_ok [OF assms(1), of 2 ?b] assms(5) obtain bm1 where
    w: "rl_write (rl_bm rl) 2 ?b = Some bm1" "only_changes {2} (rl_bm rl) bm1" "blk bm1 2 = ?b" by auto
  note d1 = raft_dev_changes [OF assms(1) w(2)]
  from save_entries_ok [OF d1 _ assms(4), of 0 "length ?log"] obtain bm2 where
    s: "save_entries bm1 ?log (length ?log) 0 = Some bm2" "only_changes {3..<3 + length ?log} bm1 bm2"
      "\<forall>j < length ?log. blk bm2 (3 + j) = int_to_u8 (entry_ints (?log ! j))" by auto
  let ?rl = "rl\<lparr>rl_snapshot_sz := int (length ?ss), rl_hasLogPersisted := 1, rl_LogCount := int (length ?log), rl_bm := bm2\<rparr>"
  have "saveSnapshot rl = Some (rl\<lparr>rl_hasLogPersisted := 1, rl_snapshot_sz := int (length ?ss), rl_bm := bm1\<rparr>)"
    using b w(1) by (simp add: saveSnapshot_def SnapshotBlockId_def Let_def)
  then have "saveAll rl = saveMetadata ?rl" using s(1) by (simp add: saveAll_def saveLogs_def Let_def)
  moreover have "saved_snapshot bm2 ?ss"
    using w(3) only_changes_blk [OF s(2), of 2] d1 by (simp add: saved_snapshot_def raft_dev_def chunk_def)
  moreover have "saved_log bm2 ?log" using s(3) by (simp add: saved_log_def)
  ultimately show ?thesis using saveMetadata_ok [of ?rl] raft_dev_changes [OF d1 s(2)] assms by simp
qed

section \<open>Interface: a store that survives restarts\<close>

primrec run_all :: "('s \<Rightarrow> 'u \<Rightarrow> 's option) \<Rightarrow> 's \<Rightarrow> 'u list \<Rightarrow> 's option" where
  "run_all f s [] = Some s"
| "run_all f s (u # us) = do { s' \<leftarrow> f s u; run_all f s' us }"

primrec all_allowed :: "('c \<Rightarrow> 'u \<Rightarrow> bool) \<Rightarrow> ('c \<Rightarrow> 'u \<Rightarrow> 'c) \<Rightarrow> 'c \<Rightarrow> 'u list \<Rightarrow> bool" where
  "all_allowed ok eff c [] = True"
| "all_allowed ok eff c (u # us) \<longleftrightarrow> ok c u \<and> all_allowed ok eff (eff c u) us"

locale persistent_store =
  fixes inv :: "'s \<Rightarrow> bool"
    and contents :: "'s \<Rightarrow> 'c"
    and update :: "'s \<Rightarrow> 'u \<Rightarrow> 's option"
    and reopen :: "'g \<Rightarrow> 's \<Rightarrow> 's option"
    and ok :: "'c \<Rightarrow> 'u \<Rightarrow> bool"
    and eff :: "'c \<Rightarrow> 'u \<Rightarrow> 'c"
  assumes update_law: "inv s \<Longrightarrow> ok (contents s) u \<Longrightarrow> \<exists>s'. update s u = Some s' \<and> inv s' \<and> contents s' = eff (contents s) u"
    and reopen_law: "inv s \<Longrightarrow> \<exists>s'. reopen g s = Some s' \<and> inv s' \<and> contents s' = contents s"
begin

lemma run_law:
  "inv s \<Longrightarrow> all_allowed ok eff (contents s) us \<Longrightarrow>
    \<exists>s'. run_all update s us = Some s' \<and> inv s' \<and> contents s' = foldl eff (contents s) us"
proof (induction us arbitrary: s)
  case (Cons u us)
  from update_law [OF Cons.prems(1), of u] Cons.prems(2) obtain s1 where
    s1: "update s u = Some s1" "inv s1" "contents s1 = eff (contents s) u" by auto
  with Cons.IH [OF s1(2)] Cons.prems(2) show ?case by simp
qed simp

lemma reopen_after_run:
  assumes "inv s" "all_allowed ok eff (contents s) us"
  shows "\<exists>s' s''. run_all update s us = Some s' \<and> reopen g s' = Some s'' \<and> contents s'' = foldl eff (contents s) us"
proof -
  from run_law [OF assms] obtain s' where s': "run_all update s us = Some s'" "inv s'" "contents s' = foldl eff (contents s) us" by blast
  from reopen_law [OF s'(2), of g] s' show ?thesis by auto
qed

end

text \<open>The storage of a node as such a store: its contents, its updates and their bounds.\<close>

type_synonym persistent = "int \<times> int \<times> raft_log_entry list \<times> byte list"

datatype log_update =
    UpdateMeta int int
  | UpdateSnapshot "byte list"
  | UpdateLogs "raft_log_entry list"
  | UpdateRange "raft_log_entry list" nat

definition rl_contents :: "raft_log \<Rightarrow> persistent" where
  "rl_contents rl = (rl_current_term rl, rl_votedFor rl, rl_log rl, rl_snapshot rl)"

fun rl_update :: "raft_log \<Rightarrow> log_update \<Rightarrow> raft_log option" where
  "rl_update rl (UpdateMeta term vote) = updateMeta rl term vote"
| "rl_update rl (UpdateSnapshot ss) = updateSnapshot rl ss"
| "rl_update rl (UpdateLogs log) = updateLogs rl log"
| "rl_update rl (UpdateRange log k) = updateLogsWithRange rl log (int k) (int (length log))"

fun update_allowed :: "persistent \<Rightarrow> log_update \<Rightarrow> bool" where
  "update_allowed c (UpdateMeta term vote) \<longleftrightarrow> in_int term \<and> in_int vote"
| "update_allowed c (UpdateSnapshot ss) \<longleftrightarrow> length ss \<le> 4096"
| "update_allowed c (UpdateLogs log) \<longleftrightarrow> list_all log_entry_ok log \<and> length log \<le> 4093"
| "update_allowed (t, v, old, ss) (UpdateRange log k) \<longleftrightarrow>
     list_all log_entry_ok log \<and> length log \<le> 4093 \<and> k \<le> length log \<and> take k log = take k old"

fun update_effect :: "persistent \<Rightarrow> log_update \<Rightarrow> persistent" where
  "update_effect (t, v, log, ss) (UpdateMeta term vote) = (term, vote, log, ss)"
| "update_effect (t, v, log, ss) (UpdateSnapshot ss') = (t, v, log, ss')"
| "update_effect (t, v, log, ss) (UpdateLogs log') = (t, v, log', ss)"
| "update_effect (t, v, log, ss) (UpdateRange log' k) = (t, v, log', ss)"

definition rl_reopen :: "(nat \<Rightarrow> int) \<times> (nat \<Rightarrow> int) \<Rightarrow> raft_log \<Rightarrow> raft_log option" where
  "rl_reopen g rl = do {
     (found, rl') \<leftarrow> restore (fst g) (raft_log_create (snd g) (rl_bm rl));
     chfs_assert found;
     Some rl'
   }"

lemma rl_holds_contents: "rl_holds rl t v log ss \<longleftrightarrow> rl_ok rl \<and> rl_contents rl = (t, v, log, ss)"
  by (auto simp: rl_holds_def rl_contents_def)

lemma rl_update_ok:
  assumes "rl_ok rl" "update_allowed (rl_contents rl) u"
  shows "\<exists>rl'. rl_update rl u = Some rl' \<and> rl_ok rl' \<and> rl_contents rl' = update_effect (rl_contents rl) u"
proof (cases u)
  case (UpdateMeta t v)
  then show ?thesis using updateMeta_ok [OF assms(1), of t v] assms(2) by (auto simp: rl_holds_contents) (auto simp: rl_contents_def)
next
  case (UpdateSnapshot ss)
  then show ?thesis using updateSnapshot_ok [OF assms(1), of ss] assms(2) by (auto simp: rl_holds_contents) (auto simp: rl_contents_def)
next
  case (UpdateLogs log)
  then show ?thesis using updateLogs_ok [OF assms(1), of log] assms(2) by (auto simp: rl_holds_contents) (auto simp: rl_contents_def)
next
  case (UpdateRange log k)
  then show ?thesis using updateLogsWithRange_ok [OF assms(1), of log k] assms(2) by (auto simp: rl_holds_contents rl_contents_def)
qed

lemma rl_reopen_ok: "rl_ok rl \<Longrightarrow> \<exists>rl'. rl_reopen g rl = Some rl' \<and> rl_ok rl' \<and> rl_contents rl' = rl_contents rl"
  by (auto simp: rl_reopen_def rl_ok_def restore_ok rl_contents_def)

interpretation raft_store: persistent_store rl_ok rl_contents rl_update rl_reopen update_allowed update_effect
  by unfold_locales (use rl_update_ok rl_reopen_ok in blast)+


text \<open>The storage of a new node.\<close>

definition first_entry :: raft_log_entry where
  "first_entry = \<lparr>le_index = 0, le_term = 0, le_cmd = ListCommand 0\<rparr>"

lemma fresh_device_raft: "raft_dev fresh_device"
  using fresh_device_ok by (simp add: raft_dev_def)

lemma new_storage:
  "\<exists>rl. saveAll ((raft_log_create g fresh_device)\<lparr>rl_current_term := 0, rl_votedFor := - 1, rl_log := [first_entry], rl_snapshot := []\<rparr>) = Some rl \<and>
    rl_holds rl 0 (- 1) [first_entry] []"
  using saveAll_ok [of "(raft_log_create g fresh_device)\<lparr>rl_current_term := 0, rl_votedFor := - 1, rl_log := [first_entry], rl_snapshot := []\<rparr>"]
    fresh_device_raft
  by (simp add: raft_log_create_def in_int_def log_entry_ok_def first_entry_def)

section \<open>Properties\<close>

text \<open>The storage of a node refines a tuple of term, vote, log and snapshot: after any sequence of
  updates within the size of the device, a restart reads back exactly what the updates made
  of it, whatever the uninitialised members held.\<close>

theorem raft_storage_survives_restart:
  assumes "rl_ok rl" "all_allowed update_allowed update_effect (rl_contents rl) us"
  shows "\<exists>rl' rl''. run_all rl_update rl us = Some rl' \<and> rl_reopen g rl' = Some rl'' \<and>
    rl_contents rl'' = foldl update_effect (rl_contents rl) us"
  using assms by (rule raft_store.reopen_after_run)

theorem raft_storage_survives_restart_witness:
  "\<exists>rl rl' rl''. rl_contents rl = (0, - 1, [first_entry], []) \<and> run_all rl_update rl [UpdateMeta 3 2, UpdateRange [first_entry, first_entry] 1] = Some rl' \<and>
    rl_reopen (\<lambda>_. 7, \<lambda>_. 8) rl' = Some rl'' \<and> rl_contents rl'' = (3, 2, [first_entry, first_entry], [])"
proof -
  from new_storage obtain rl where r: "rl_ok rl" "rl_contents rl = (0, - 1, [first_entry], [])" unfolding rl_holds_contents by blast
  have "all_allowed update_allowed update_effect (rl_contents rl) [UpdateMeta 3 2, UpdateRange [first_entry, first_entry] 1]"
    by (simp add: r(2) in_int_def log_entry_ok_def first_entry_def)
  from raft_storage_survives_restart [OF r(1) this, of "(\<lambda>_. 7, \<lambda>_. 8)"] r(2) show ?thesis by auto
qed

text \<open>A snapshot is stored exactly up to the size of a block: one byte more is written behind the
  buffer.\<close>

theorem snapshot_fits_one_block:
  assumes "rl_ok rl"
  shows "updateSnapshot rl ss = None \<longleftrightarrow> 4096 < length ss"
proof (cases "length ss \<le> 4096")
  case True
  with updateSnapshot_ok [OF assms True] show ?thesis by auto
next
  case False
  then have "poke (replicate 4096 0) 0 ss = None" by (simp add: poke_def)
  with False show ?thesis by (simp add: updateSnapshot_def saveSnapshot_def)
qed

theorem snapshot_fits_one_block_witness:
  "\<exists>rl. rl_contents rl = (0, - 1, [first_entry], []) \<and> updateSnapshot rl (replicate 4096 65) \<noteq> None \<and> updateSnapshot rl (replicate 4097 65) = None"
proof -
  from new_storage obtain rl where r: "rl_ok rl" "rl_contents rl = (0, - 1, [first_entry], [])" unfolding rl_holds_contents by blast
  from snapshot_fits_one_block [OF r(1), of "replicate 4096 65"] snapshot_fits_one_block [OF r(1), of "replicate 4097 65"] r(2)
  show ?thesis by auto
qed

end
