(* ===== verification/Rpc.thy ===== *)
theory Rpc
  imports Data_Server
begin

text \<open>
  The RPC client (\<open>src/chfs/src/include/librpc/client.h\<close>, \<open>src/chfs/src/librpc/client.cc\<close>) with its
  injected network failures, and the data servers it reaches. The transport below it is rpclib,
  which runs the handler bound to a name and carries its result back: the handler is the
  argument of a call. A random number is the argument of the operation that draws it.
\<close>

section \<open>Model\<close>

type_synonym address = "string \<times> nat"
type_synonym cluster = "address \<Rightarrow> data_server option"
type_synonym draw = "nat \<times> nat"

record rpc_client =
  rc_address :: address
  rc_reliable :: bool
  rc_count :: int

definition rpc_client_create :: "string \<Rightarrow> nat \<Rightarrow> bool \<Rightarrow> rpc_client" where
  "rpc_client_create addr port reliable = \<lparr>rc_address = (addr, port), rc_reliable = reliable, rc_count = 0\<rparr>"

definition set_reliable :: "rpc_client \<Rightarrow> bool \<Rightarrow> bool \<times> rpc_client" where
  "set_reliable cli r = (r, cli\<lparr>rc_reliable := r\<rparr>)"

text \<open>
  A call on a server in state \<open>s\<close>. The draws are the numbers of 1 to 80 and of 1 to 10 that decide
  over a failure: the request is lost, or it is executed and the answer is lost.
\<close>

definition rpc_call ::
    "draw \<Rightarrow> rpc_client \<Rightarrow> ('s \<Rightarrow> ('r \<times> 's) option) \<Rightarrow> 's \<Rightarrow> ('r chfs_result \<times> rpc_client \<times> 's) option" where
  "rpc_call d cli handler s =
     (let valid = rc_reliable cli \<or> \<not> rc_reliable cli \<and> 10 < fst d
      in if valid then do {
           (r, s') \<leftarrow> handler s;
           Some (Ok r, cli\<lparr>rc_count := rc_count cli + 1\<rparr>, s')
         }
         else if snd d < 5 then Some (Err BadResponse, cli, s)
         else do {
           (_, s') \<leftarrow> handler s;
           Some (Err RpcTimeout, cli, s')
         })"

text \<open>
  A call through the client with number \<open>mac_id\<close>: \<open>clients_[mac_id]\<close> of an unknown number is a null
  pointer.
\<close>

type_synonym clients = "nat \<Rightarrow> rpc_client option"

definition call_server ::
    "draw \<Rightarrow> clients \<Rightarrow> cluster \<Rightarrow> nat \<Rightarrow> (data_server \<Rightarrow> ('r \<times> data_server) option) \<Rightarrow>
      ('r chfs_result \<times> clients \<times> cluster) option" where
  "call_server d clients cluster mac_id handler = do {
     cli \<leftarrow> clients mac_id;
     ds \<leftarrow> cluster (rc_address cli);
     (res, cli', ds') \<leftarrow> rpc_call d cli handler ds;
     Some (res, clients(mac_id \<mapsto> cli'), cluster(rc_address cli \<mapsto> ds'))
   }"


definition client_count :: "rpc_client \<Rightarrow> int" where
  "client_count cli = rc_count cli"

text \<open>
  An asynchronous call puts the request on its way and returns its number, by which the answer is
  fetched later; requests without a future are executed too. The requests under way are a list, and the
  transport runs each of them at some time.
\<close>

definition async_call ::
    "draw \<Rightarrow> rpc_client \<Rightarrow> ('s \<Rightarrow> ('r \<times> 's) option) \<Rightarrow> ('s \<Rightarrow> ('r \<times> 's) option) list \<Rightarrow>
      nat chfs_result \<times> rpc_client \<times> ('s \<Rightarrow> ('r \<times> 's) option) list" where
  "async_call d cli handler sent =
     (let valid = rc_reliable cli \<or> \<not> rc_reliable cli \<and> 10 < fst d
      in if valid then (Ok (length sent), cli\<lparr>rc_count := rc_count cli + 1\<rparr>, sent @ [handler])
         else if snd d < 5 then (Err BadResponse, cli, sent)
         else (Err RpcTimeout, cli, sent @ [handler]))"

text \<open>A call is an asynchronous call whose request runs at once.\<close>

lemma rpc_call_is_async:
  "rpc_call d cli handler s = (case async_call d cli handler [] of
     (Ok k, cli', sent) \<Rightarrow> map_option (\<lambda>(r, s'). (Ok r, cli', s')) ((sent ! k) s)
   | (Err e, cli', []) \<Rightarrow> Some (Err e, cli', s)
   | (Err e, cli', h # _) \<Rightarrow> map_option (\<lambda>(r, s'). (Err e, cli', s')) (h s))"
  by (cases "handler s") (auto simp: rpc_call_def async_call_def Let_def split: prod.splits)

end
