(* ===== verification/Raft_Node.thy ===== *)
theory Raft_Node
  imports Raft_Log Rpc
begin

text \<open>
  A Raft node (\<open>src/chfs/src/include/rsm/raft/node.h\<close> with the messages of
  \<open>src/chfs/src/include/rsm/raft/protocol.h\<close>), replicating the list state machine. Every handler and every
  round of a background worker runs under the lock of the node and is one function of its state.
  The tasks that a round hands to the thread pool are part of its result. Clocks, random timeouts,
  connection states and uninitialised variables are arguments. \<open>None\<close> is an access outside a
  vector, an overflow of \<open>int\<close> or an exception that nobody catches.
\<close>

section \<open>Vectors indexed by \<open>int\<close>\<close>

definition at_int :: "'a list \<Rightarrow> int \<Rightarrow> 'a option" where
  "at_int xs i = (if 0 \<le> i then at xs (nat i) else None)"

definition upd_int :: "'a list \<Rightarrow> int \<Rightarrow> 'a \<Rightarrow> 'a list option" where
  "upd_int xs i v = (if 0 \<le> i then upd xs (nat i) v else None)"

definition front_of :: "'a list \<Rightarrow> 'a option" where
  "front_of xs = (if xs = [] then None else Some (hd xs))"

definition back_of :: "'a list \<Rightarrow> 'a option" where
  "back_of xs = (if xs = [] then None else Some (last xs))"

text \<open>\<open>erase (begin, begin + k)\<close>, \<open>erase (begin + k, end)\<close> and the range from \<open>i\<close> to \<open>j\<close>.\<close>

definition erase_prefix :: "'a list \<Rightarrow> int \<Rightarrow> 'a list option" where
  "erase_prefix xs k = (if 0 \<le> k \<and> k \<le> int (length xs) then Some (drop (nat k) xs) else None)"

definition erase_suffix :: "'a list \<Rightarrow> int \<Rightarrow> 'a list option" where
  "erase_suffix xs k = (if 0 \<le> k \<and> k \<le> int (length xs) then Some (take (nat k) xs) else None)"

definition range_of :: "'a list \<Rightarrow> int \<Rightarrow> int \<Rightarrow> 'a list option" where
  "range_of xs i j = (if 0 \<le> i \<and> i \<le> j \<and> j \<le> int (length xs) then Some (take (nat (j - i)) (drop (nat i) xs)) else None)"

definition next_int :: "int \<Rightarrow> int option" where
  "next_int v = (if v < 2 ^ 31 - 1 then Some (v + 1) else None)"

section \<open>Messages\<close>

record request_vote_args =
  rv_term :: int
  rv_candidateId :: int
  rv_lastLogIndex :: int
  rv_lastLogTerm :: int

record request_vote_reply =
  rvr_term :: int
  rvr_voteGranted :: bool

record append_entries_args =
  ae_term :: int
  ae_leaderId :: int
  ae_prevLogIndex :: int
  ae_prevLogTerm :: int
  ae_entries :: "raft_log_entry list"
  ae_leaderCommit :: int

record rpc_append_entries_args =
  rae_term :: int
  rae_leaderId :: int
  rae_prevLogIndex :: int
  rae_prevLogTerm :: int
  rae_cmds :: "byte list list"
  rae_indexs :: "int list"
  rae_terms :: "int list"
  rae_leaderCommit :: int

record append_entries_reply =
  aer_term :: int
  aer_success :: bool

record install_snapshot_args =
  is_term :: int
  is_leaderId :: int
  is_lastIncludedIndex :: int
  is_lastIncludedTerm :: int
  is_snapshot :: "byte list"

record install_snapshot_reply =
  isr_term :: int

definition transform_append_entries_args :: "append_entries_args \<Rightarrow> rpc_append_entries_args" where
  "transform_append_entries_args arg = \<lparr>rae_term = ae_term arg, rae_leaderId = ae_leaderId arg, rae_prevLogIndex = ae_prevLogIndex arg,
     rae_prevLogTerm = ae_prevLogTerm arg, rae_cmds = map (\<lambda>e. cmd_serialize (le_cmd e) cmd_size) (ae_entries arg),
     rae_indexs = map le_index (ae_entries arg), rae_terms = map le_term (ae_entries arg), rae_leaderCommit = ae_leaderCommit arg\<rparr>"

text \<open>The loop over the commands of a request, from the \<open>i\<close>-th on.\<close>

primrec rpc_entries :: "(nat \<Rightarrow> int) \<Rightarrow> int list \<Rightarrow> int list \<Rightarrow> nat \<Rightarrow> byte list list \<Rightarrow> raft_log_entry list option" where
  "rpc_entries g indexs terms i [] = Some []"
| "rpc_entries g indexs terms i (c # cmds) = do {
     index \<leftarrow> at indexs i;
     term \<leftarrow> at terms i;
     cmd \<leftarrow> cmd_deserialize (ListCommand (g i)) c (length c);
     es \<leftarrow> rpc_entries g indexs terms (Suc i) cmds;
     Some (\<lparr>le_index = index, le_term = term, le_cmd = cmd\<rparr> # es)
   }"

definition transform_rpc_append_entries_args :: "(nat \<Rightarrow> int) \<Rightarrow> rpc_append_entries_args \<Rightarrow> append_entries_args option" where
  "transform_rpc_append_entries_args g rpc_arg = do {
     es \<leftarrow> rpc_entries g (rae_indexs rpc_arg) (rae_terms rpc_arg) 0 (rae_cmds rpc_arg);
     Some \<lparr>ae_term = rae_term rpc_arg, ae_leaderId = rae_leaderId rpc_arg, ae_prevLogIndex = rae_prevLogIndex rpc_arg,
       ae_prevLogTerm = rae_prevLogTerm rpc_arg, ae_entries = es, ae_leaderCommit = rae_leaderCommit rpc_arg\<rparr>
   }"

section \<open>State\<close>

datatype raft_role = Follower | Candidate | Leader

record raft_node_config =
  nc_node_id :: int
  nc_port :: nat
  nc_ip_address :: string

record raft_node =
  rn_clients :: "int \<Rightarrow> rpc_client option option"
  rn_configs :: "raft_node_config list"
  rn_my_id :: int
  rn_stopped :: bool
  rn_joinable :: bool
  rn_role :: raft_role
  rn_current_term :: int
  rn_leader_id :: int
  rn_votedFor :: int
  rn_commitIndex :: int
  rn_lastApplied :: int
  rn_votesGot :: int
  rn_votesFrom :: "bool list"
  rn_lastRPC :: int
  rn_electionTimeout :: int
  rn_candidateTimeout :: int
  rn_nextIndex :: "int list"
  rn_matchIndex :: "int list"
  rn_matchCount :: "int list"
  rn_log :: "raft_log_entry list"
  rn_snapshot :: "byte list"
  rn_state :: list_state_machine
  rn_storage :: raft_log

text \<open>The tasks that the background workers enqueue.\<close>

datatype raft_task =
    SendRequestVote int request_vote_args
  | SendAppendEntries int append_entries_args
  | SendInstallSnapshot int install_snapshot_args

definition nodes :: "raft_node \<Rightarrow> nat" where
  "nodes n = length (rn_configs n)"

subsection \<open>Construction\<close>

text \<open>
  \<open>file\<close> is the contents of the file of the node's device, \<open>g\<close> are uninitialised values, \<open>et\<close> and \<open>ct\<close>
  the timeouts drawn.
\<close>

definition raft_node_create ::
    "(nat \<Rightarrow> int) \<Rightarrow> int \<Rightarrow> int \<Rightarrow> int \<Rightarrow> byte list \<Rightarrow> int \<Rightarrow> raft_node_config list \<Rightarrow> raft_node option" where
  "raft_node_create g now et ct file node_id configs = do {
     my_config \<leftarrow> at_int configs node_id;
     bm \<leftarrow> bm_create_file file KDefaultBlockCnt;
     (found, storage1) \<leftarrow> restore g (raft_log_create g bm);
     (term, vote, log, ss, storage) \<leftarrow>
       (if found then Some (rl_current_term storage1, rl_votedFor storage1, rl_log storage1, rl_snapshot storage1, storage1)
        else do {
          let log = [\<lparr>le_index = 0, le_term = 0, le_cmd = ListCommand 0\<rparr>];
          storage2 \<leftarrow> saveAll (storage1\<lparr>rl_current_term := 0, rl_votedFor := - 1, rl_log := log, rl_snapshot := []\<rparr>);
          Some (0, - 1, log, [], storage2)
        });
     let sm = (if ss \<noteq> [] then apply_snapshot g (g 0) list_state_machine_create ss else list_state_machine_create);
     e \<leftarrow> front_of log;
     Some \<lparr>rn_clients = Map.empty, rn_configs = configs, rn_my_id = node_id, rn_stopped = True, rn_joinable = False, rn_role = Follower,
       rn_current_term = term, rn_leader_id = - 1, rn_votedFor = vote, rn_commitIndex = le_index e, rn_lastApplied = le_index e,
       rn_votesGot = 0, rn_votesFrom = replicate (length configs) False, rn_lastRPC = now, rn_electionTimeout = et, rn_candidateTimeout = ct,
       rn_nextIndex = replicate (length configs) 1, rn_matchIndex = replicate (length configs) 0, rn_matchCount = [],
       rn_log = log, rn_snapshot = ss, rn_state = sm, rn_storage = storage\<rparr>
   }"

subsection \<open>Interfaces\<close>

text \<open>\<open>start\<close> overwrites the threads, which must have been joined.\<close>

definition raft_start :: "raft_node \<Rightarrow> raft_node option" where
  "raft_start n = do {
     chfs_assert (\<not> rn_joinable n);
     Some (n\<lparr>rn_stopped := False, rn_joinable := True,
       rn_clients := foldl (\<lambda>m c. if m (nc_node_id c) = None then m(nc_node_id c \<mapsto> Some (rpc_client_create (nc_ip_address c) (nc_port c) True)) else m)
         (rn_clients n) (rn_configs n)\<rparr>)
   }"

text \<open>
  Joining a thread that was never started or that has been joined is an error. \<open>stop\<close> joins the workers
  while it holds the lock that they take in every round; this is the state once it gets through.
\<close>

definition raft_stop :: "raft_node \<Rightarrow> raft_node option" where
  "raft_stop n = do {
     chfs_assert (rn_joinable n);
     Some (n\<lparr>rn_stopped := True, rn_joinable := False,
       rn_clients := (\<lambda>i. if 0 \<le> i \<and> i < int (nodes n) then Some None else rn_clients n i)\<rparr>)
   }"

definition is_leader :: "raft_node \<Rightarrow> bool \<times> int" where
  "is_leader n = (rn_role n = Leader, rn_current_term n)"

definition is_stopped :: "raft_node \<Rightarrow> bool" where
  "is_stopped n = rn_stopped n"

definition new_command :: "int \<Rightarrow> raft_node \<Rightarrow> byte list \<Rightarrow> nat \<Rightarrow> ((bool \<times> int \<times> int) \<times> raft_node) option" where
  "new_command g n cmd_data cmd_sz = do {
     b \<leftarrow> back_of (rn_log n);
     if rn_role n \<noteq> Leader then Some ((False, rn_current_term n, le_index b), n)
     else do {
       nxtIndex \<leftarrow> next_int (le_index b);
       cmd \<leftarrow> cmd_deserialize (ListCommand g) cmd_data cmd_sz;
       let log = rn_log n @ [\<lparr>le_index = nxtIndex, le_term = rn_current_term n, le_cmd = cmd\<rparr>];
       nxt \<leftarrow> next_int nxtIndex;
       next \<leftarrow> upd_int (rn_nextIndex n) (rn_my_id n) nxt;
       match \<leftarrow> upd_int (rn_matchIndex n) (rn_my_id n) nxtIndex;
       storage \<leftarrow> updateLogsWithRange (rn_storage n) log (int (length log) - 1) (int (length log));
       Some ((True, rn_current_term n, nxtIndex),
         n\<lparr>rn_log := log, rn_nextIndex := next, rn_matchIndex := match, rn_matchCount := rn_matchCount n @ [1], rn_storage := storage\<rparr>)
     }
   }"

definition save_snapshot :: "raft_node \<Rightarrow> (bool \<times> raft_node) option" where
  "save_snapshot n = do {
     let snapshot = sm_snapshot (rn_state n);
     b \<leftarrow> back_of (rn_log n);
     f \<leftarrow> front_of (rn_log n);
     (lastLog, log) \<leftarrow>
       (if rn_lastApplied n \<le> le_index b
        then do {
          e \<leftarrow> at_int (rn_log n) (rn_lastApplied n - le_index f);
          log \<leftarrow> erase_prefix (rn_log n) (rn_lastApplied n - le_index f);
          Some (e, log)
        }
        else Some (b, []));
     let log' = (if log = [] then [lastLog] else log);
     storage1 \<leftarrow> updateSnapshot (rn_storage n) snapshot;
     storage2 \<leftarrow> updateLogs storage1 log';
     Some (True, n\<lparr>rn_snapshot := snapshot, rn_log := log', rn_storage := storage2\<rparr>)
   }"

definition get_snapshot :: "raft_node \<Rightarrow> byte list" where
  "get_snapshot n = sm_snapshot (rn_state n)"


subsection \<open>Votes\<close>

definition step_down :: "int \<Rightarrow> raft_node \<Rightarrow> raft_node" where
  "step_down term n = n\<lparr>rn_current_term := term, rn_role := Follower, rn_leader_id := - 1, rn_votedFor := - 1\<rparr>"

definition persist_meta :: "raft_node \<Rightarrow> raft_node option" where
  "persist_meta n = do {
     storage \<leftarrow> updateMeta (rn_storage n) (rn_current_term n) (rn_votedFor n);
     Some (n\<lparr>rn_storage := storage\<rparr>)
   }"

definition log_up_to_date :: "raft_log_entry list \<Rightarrow> request_vote_args \<Rightarrow> bool option" where
  "log_up_to_date log args = do {
     b \<leftarrow> back_of log;
     Some (le_term b < rv_lastLogTerm args \<or> rv_lastLogTerm args = le_term b \<and> le_index b \<le> rv_lastLogIndex args)
   }"

definition request_vote :: "int \<Rightarrow> raft_node \<Rightarrow> request_vote_args \<Rightarrow> (request_vote_reply \<times> raft_node) option" where
  "request_vote now n args = do {
     let n0 = n\<lparr>rn_lastRPC := now\<rparr>;
     (granted, n2) \<leftarrow>
       (if rv_term args < rn_current_term n0 then Some (False, n0)
        else do {
          let n1 = (if rn_current_term n0 < rv_term args then step_down (rv_term args) n0 else n0);
          ok \<leftarrow> (if rn_votedFor n1 = - 1 \<or> rn_votedFor n1 = rv_candidateId args then log_up_to_date (rn_log n1) args else Some False);
          Some (if ok then (True, n1\<lparr>rn_votedFor := rv_candidateId args\<rparr>) else (False, n1))
        });
     n3 \<leftarrow> persist_meta n2;
     Some (\<lparr>rvr_term = rn_current_term n2, rvr_voteGranted = granted\<rparr>, n3)
   }"

definition become_leader :: "raft_node \<Rightarrow> raft_node option" where
  "become_leader n = do {
     b \<leftarrow> back_of (rn_log n);
     nxt \<leftarrow> next_int (le_index b);
     match \<leftarrow> upd_int (replicate (nodes n) 0) (rn_my_id n) (le_index b);
     chfs_assert (0 \<le> le_index b - rn_commitIndex n);
     Some (n\<lparr>rn_role := Leader, rn_leader_id := rn_my_id n, rn_nextIndex := replicate (nodes n) nxt, rn_matchIndex := match,
       rn_matchCount := replicate (nat (le_index b - rn_commitIndex n)) 0\<rparr>)
   }"

definition handle_request_vote_reply ::
    "raft_node \<Rightarrow> int \<Rightarrow> request_vote_args \<Rightarrow> request_vote_reply \<Rightarrow> raft_node option" where
  "handle_request_vote_reply n target arg reply = do {
     n1 \<leftarrow> (if rn_current_term n < rvr_term reply then persist_meta (step_down (rvr_term reply) n) else Some n);
     if rn_role n1 = Candidate
     then if \<not> rvr_voteGranted reply then Some n1
       else do {
         voted \<leftarrow> at_int (rn_votesFrom n1) target;
         if voted then Some n1
         else do {
           from \<leftarrow> upd_int (rn_votesFrom n1) target True;
           let n2 = n1\<lparr>rn_votesGot := rn_votesGot n1 + 1, rn_votesFrom := from\<rparr>;
           if int (nodes n2 div 2) < rn_votesGot n2 then become_leader n2 else Some n2
         }
       }
     else Some n1
   }"

subsection \<open>Entries\<close>

text \<open>The part of \<open>append_entries\<close> behind the tests of the term: whether the entries fit the log, and the node.\<close>

definition append_to_log :: "raft_node \<Rightarrow> append_entries_args \<Rightarrow> (bool \<times> raft_node) option" where
  "append_to_log n1 args = do {
     b \<leftarrow> back_of (rn_log n1);
     f \<leftarrow> front_of (rn_log n1);
     matches \<leftarrow>
       (if ae_prevLogIndex args \<le> le_index b
        then do { e \<leftarrow> at_int (rn_log n1) (ae_prevLogIndex args - le_index f); Some (ae_prevLogTerm args = le_term e) }
        else Some False);
     if \<not> matches then Some (False, n1)
     else do {
       n2 \<leftarrow>
         (if ae_entries args = [] then Some n1
          else do {
            log0 \<leftarrow> (if ae_prevLogIndex args < le_index b
              then erase_suffix (rn_log n1) (ae_prevLogIndex args + 1 - le_index f) else Some (rn_log n1));
            let log = log0 @ ae_entries args;
            storage \<leftarrow> updateLogsWithRange (rn_storage n1) log (int (length log0)) (int (length log));
            Some (n1\<lparr>rn_log := log, rn_storage := storage\<rparr>)
          });
       b2 \<leftarrow> back_of (rn_log n2);
       Some (True, if rn_commitIndex n2 < ae_leaderCommit args
         then n2\<lparr>rn_commitIndex := min (ae_leaderCommit args) (le_index b2)\<rparr> else n2)
     }
   }"

definition append_entries ::
    "(nat \<Rightarrow> int) \<Rightarrow> int \<Rightarrow> raft_node \<Rightarrow> rpc_append_entries_args \<Rightarrow> (append_entries_reply \<times> raft_node) option" where
  "append_entries g now n rpc_arg = do {
     let n0 = n\<lparr>rn_lastRPC := now\<rparr>;
     args \<leftarrow> transform_rpc_append_entries_args g rpc_arg;
     if ae_term args < rn_current_term n0 then Some (\<lparr>aer_term = rn_current_term n0, aer_success = False\<rparr>, n0)
     else do {
       n1 \<leftarrow> (if rn_current_term n0 < ae_term args \<or> rn_role n0 = Candidate then persist_meta (step_down (ae_term args) n0) else Some n0);
       (success, n2) \<leftarrow> append_to_log n1 args;
       Some (\<lparr>aer_term = rn_current_term n2, aer_success = success\<rparr>, n2)
     }
   }"

text \<open>
  The loop that counts a new match: it runs from \<open>i\<close> down to \<open>tmpIndex + 1\<close>, \<open>k\<close> being the number of
  rounds left, and ends at the first entry of this term that a majority has.
\<close>

primrec count_matches :: "nat \<Rightarrow> int \<Rightarrow> raft_node \<Rightarrow> raft_node option" where
  "count_matches 0 i n = Some n"
| "count_matches (Suc k) i n = do {
     c \<leftarrow> at_int (rn_matchCount n) i;
     counts \<leftarrow> upd_int (rn_matchCount n) i (c + 1);
     f \<leftarrow> front_of (rn_log n);
     commit \<leftarrow>
       (if int (nodes n div 2) < c + 1
        then do { e \<leftarrow> at_int (rn_log n) (rn_commitIndex n + i + 1 - le_index f); Some (le_term e = rn_current_term n) }
        else Some False);
     if commit
     then do {
       counts' \<leftarrow> erase_prefix counts (i + 1);
       Some (n\<lparr>rn_commitIndex := rn_commitIndex n + i + 1, rn_matchCount := counts'\<rparr>)
     }
     else count_matches k (i - 1) (n\<lparr>rn_matchCount := counts\<rparr>)
   }"

definition handle_append_entries_reply ::
    "raft_node \<Rightarrow> int \<Rightarrow> append_entries_args \<Rightarrow> append_entries_reply \<Rightarrow> raft_node option" where
  "handle_append_entries_reply n node_id arg reply =
     (if rn_current_term n < aer_term reply then persist_meta (step_down (ae_term arg) n)
      else if rn_role n \<noteq> Leader then Some n
      else if aer_success reply
      then do {
        old \<leftarrow> at_int (rn_matchIndex n) node_id;
        let new = max old (ae_prevLogIndex arg + int (length (ae_entries arg)));
        match \<leftarrow> upd_int (rn_matchIndex n) node_id new;
        nxt \<leftarrow> next_int new;
        next \<leftarrow> upd_int (rn_nextIndex n) node_id nxt;
        let tmpIndex = max (old - rn_commitIndex n) 0 - 1;
        let start = new - rn_commitIndex n - 1;
        count_matches (nat (start - tmpIndex)) start (n\<lparr>rn_matchIndex := match, rn_nextIndex := next\<rparr>)
      }
      else do {
        old \<leftarrow> at_int (rn_nextIndex n) node_id;
        next \<leftarrow> upd_int (rn_nextIndex n) node_id (min old (ae_prevLogIndex arg));
        Some (n\<lparr>rn_nextIndex := next\<rparr>)
      })"

subsection \<open>Snapshots\<close>

definition install_snapshot ::
    "(nat \<Rightarrow> int) \<Rightarrow> int \<Rightarrow> raft_node \<Rightarrow> install_snapshot_args \<Rightarrow> (install_snapshot_reply \<times> raft_node) option" where
  "install_snapshot g now n arg = do {
     let n0 = n\<lparr>rn_lastRPC := now\<rparr>;
     let reply = \<lparr>isr_term = rn_current_term n0\<rparr>;
     if is_term arg < rn_current_term n0 then Some (reply, n0)
     else do {
       n1 \<leftarrow> (if rn_current_term n0 < is_term arg \<or> rn_role n0 = Candidate then persist_meta (step_down (is_term arg) n0) else Some n0);
       b \<leftarrow> back_of (rn_log n1);
       f \<leftarrow> front_of (rn_log n1);
       matches \<leftarrow>
         (if is_lastIncludedIndex arg \<le> le_index b
          then do { e \<leftarrow> at_int (rn_log n1) (is_lastIncludedIndex arg - le_index f); Some (is_lastIncludedTerm arg = le_term e) }
          else Some False);
       log \<leftarrow> (if matches then erase_prefix (rn_log n1) (is_lastIncludedIndex arg - le_index f)
         else Some [\<lparr>le_index = is_lastIncludedIndex arg, le_term = is_lastIncludedTerm arg, le_cmd = ListCommand (g 0)\<rparr>]);
       storage1 \<leftarrow> updateLogs (rn_storage n1) log;
       storage2 \<leftarrow> updateSnapshot storage1 (is_snapshot arg);
       Some (reply, n1\<lparr>rn_log := log, rn_snapshot := is_snapshot arg, rn_state := apply_snapshot g (g 0) (rn_state n1) (is_snapshot arg),
         rn_lastApplied := is_lastIncludedIndex arg, rn_commitIndex := max (rn_commitIndex n1) (is_lastIncludedIndex arg), rn_storage := storage2\<rparr>)
     }
   }"

definition handle_install_snapshot_reply ::
    "raft_node \<Rightarrow> int \<Rightarrow> install_snapshot_args \<Rightarrow> install_snapshot_reply \<Rightarrow> raft_node option" where
  "handle_install_snapshot_reply n node_id arg reply =
     (if rn_current_term n < isr_term reply then persist_meta (step_down (isr_term reply) n)
      else if rn_role n \<noteq> Leader then Some n
      else do {
        old \<leftarrow> at_int (rn_matchIndex n) node_id;
        let new = max old (is_lastIncludedIndex arg);
        match \<leftarrow> upd_int (rn_matchIndex n) node_id new;
        nxt \<leftarrow> next_int new;
        next \<leftarrow> upd_int (rn_nextIndex n) node_id nxt;
        Some (n\<lparr>rn_matchIndex := match, rn_nextIndex := next\<rparr>)
      })"

subsection \<open>Sending\<close>

text \<open>
  \<open>rpc_clients_map[target]\<close> adds a null pointer for a missing client. Whether a call is made, and
  the node with its clients; \<open>insert\<close> changes nothing where the key is there, with a null pointer too.
\<close>

definition touch_client :: "raft_node \<Rightarrow> int \<Rightarrow> rpc_client option \<times> raft_node" where
  "touch_client n target =
     (case rn_clients n target of
        None \<Rightarrow> (None, n\<lparr>rn_clients := (rn_clients n)(target \<mapsto> None)\<rparr>)
      | Some cli \<Rightarrow> (cli, n))"

definition insert_client :: "raft_node \<Rightarrow> int \<Rightarrow> raft_node option" where
  "insert_client n target = do {
     c \<leftarrow> at_int (rn_configs n) target;
     Some (if rn_clients n (nc_node_id c) = None
       then n\<lparr>rn_clients := (rn_clients n)(nc_node_id c \<mapsto> Some (rpc_client_create (nc_ip_address c) (nc_port c) True))\<rparr> else n)
   }"

definition send_request_vote :: "bool \<Rightarrow> raft_node \<Rightarrow> int \<Rightarrow> (bool \<times> raft_node) option" where
  "send_request_vote connected n target =
     (case touch_client n target of
        (None, n1) \<Rightarrow> map_option (\<lambda>n2. (False, n2)) (insert_client n1 target)
      | (Some cli, n1) \<Rightarrow> Some (connected, n1))"

definition send_append_entries :: "bool \<Rightarrow> raft_node \<Rightarrow> int \<Rightarrow> append_entries_args \<Rightarrow> (bool \<times> raft_node) option" where
  "send_append_entries connected n target arg =
     (case touch_client n target of
        (None, n1) \<Rightarrow> Some (False, n1)
      | (Some cli, n1) \<Rightarrow>
          if connected then Some (True, n1)
          else if ae_entries arg = [] then Some (False, n1)
          else map_option (\<lambda>n2. (False, n2)) (insert_client n1 target))"

definition send_install_snapshot :: "bool \<Rightarrow> raft_node \<Rightarrow> int \<Rightarrow> bool \<times> raft_node" where
  "send_install_snapshot connected n target =
     (case touch_client n target of
        (None, n1) \<Rightarrow> (False, n1)
      | (Some cli, n1) \<Rightarrow> (connected, n1))"

text \<open>What happens with the result of the call.\<close>

definition end_request_vote :: "raft_node \<Rightarrow> int \<Rightarrow> request_vote_args \<Rightarrow> request_vote_reply chfs_result \<Rightarrow> raft_node option" where
  "end_request_vote n target arg res =
     (case res of Ok reply \<Rightarrow> handle_request_vote_reply n target arg reply | Err _ \<Rightarrow> Some n)"

definition end_append_entries :: "raft_node \<Rightarrow> int \<Rightarrow> append_entries_args \<Rightarrow> append_entries_reply chfs_result \<Rightarrow> raft_node option" where
  "end_append_entries n target arg res =
     (case res of Ok reply \<Rightarrow> handle_append_entries_reply n target arg reply | Err _ \<Rightarrow> Some n)"

definition end_install_snapshot :: "raft_node \<Rightarrow> int \<Rightarrow> install_snapshot_args \<Rightarrow> install_snapshot_reply chfs_result \<Rightarrow> raft_node option" where
  "end_install_snapshot n target arg res =
     (case res of Ok reply \<Rightarrow> handle_install_snapshot_reply n target arg reply | Err _ \<Rightarrow> Some n)"

subsection \<open>Background workers\<close>

text \<open>The other nodes, in the order of the loops.\<close>

definition others :: "raft_node \<Rightarrow> int list" where
  "others n = filter (\<lambda>i. i \<noteq> rn_my_id n) (map int [0..<nodes n])"

definition start_election :: "int \<Rightarrow> int \<Rightarrow> int \<Rightarrow> raft_node \<Rightarrow> (raft_task list \<times> raft_node) option" where
  "start_election now et ct n = do {
     term \<leftarrow> next_int (rn_current_term n);
     from \<leftarrow> upd_int (replicate (nodes n) False) (rn_my_id n) True;
     let n1 = n\<lparr>rn_role := Candidate, rn_current_term := term, rn_votedFor := rn_my_id n, rn_votesGot := 1, rn_votesFrom := from\<rparr>;
     n2 \<leftarrow> persist_meta n1;
     b \<leftarrow> back_of (rn_log n2);
     let args = \<lparr>rv_term = term, rv_candidateId = rn_my_id n, rv_lastLogIndex = le_index b, rv_lastLogTerm = le_term b\<rparr>;
     Some (map (\<lambda>target. SendRequestVote target args) (others n2),
       n2\<lparr>rn_electionTimeout := et, rn_candidateTimeout := ct, rn_leader_id := - 1, rn_lastRPC := now\<rparr>)
   }"

text \<open>One round of each worker: \<open>current\<close> is the clock at its start, \<open>now\<close> at the end of an election.\<close>

definition election_round :: "int \<Rightarrow> int \<Rightarrow> int \<Rightarrow> int \<Rightarrow> raft_node \<Rightarrow> (raft_task list \<times> raft_node) option" where
  "election_round current now et ct n =
     (if is_stopped n then Some ([], n)
      else case rn_role n of
        Follower \<Rightarrow> if rn_electionTimeout n < current - rn_lastRPC n then start_election now et ct n else Some ([], n)
      | Candidate \<Rightarrow> if rn_candidateTimeout n < current - rn_lastRPC n then start_election now et ct n else Some ([], n)
      | Leader \<Rightarrow> Some ([], n))"

definition commit_task :: "raft_node \<Rightarrow> int \<Rightarrow> raft_task list option" where
  "commit_task n i = do {
     b \<leftarrow> back_of (rn_log n);
     f \<leftarrow> front_of (rn_log n);
     nxt \<leftarrow> at_int (rn_nextIndex n) i;
     if le_index b < nxt then Some []
     else if le_index f < nxt
     then do {
       e \<leftarrow> at_int (rn_log n) (nxt - 1 - le_index f);
       entries \<leftarrow> range_of (rn_log n) (nxt - le_index f) (le_index b + 1 - le_index f);
       Some [SendAppendEntries i \<lparr>ae_term = rn_current_term n, ae_leaderId = rn_my_id n, ae_prevLogIndex = nxt - 1, ae_prevLogTerm = le_term e,
         ae_entries = entries, ae_leaderCommit = rn_commitIndex n\<rparr>]
     }
     else Some [SendInstallSnapshot i \<lparr>is_term = rn_current_term n, is_leaderId = rn_my_id n, is_lastIncludedIndex = le_index f,
       is_lastIncludedTerm = le_term f, is_snapshot = rn_snapshot n\<rparr>]
   }"

primrec all_tasks :: "(int \<Rightarrow> raft_task list option) \<Rightarrow> int list \<Rightarrow> raft_task list option" where
  "all_tasks f [] = Some []"
| "all_tasks f (i # is) = do { ts \<leftarrow> f i; rest \<leftarrow> all_tasks f is; Some (ts @ rest) }"

definition commit_round :: "raft_node \<Rightarrow> raft_task list option" where
  "commit_round n = (if is_stopped n \<or> rn_role n \<noteq> Leader then Some [] else all_tasks (commit_task n) (others n))"

definition ping_task :: "raft_node \<Rightarrow> int \<Rightarrow> raft_task list option" where
  "ping_task n i = do {
     f \<leftarrow> front_of (rn_log n);
     nxt \<leftarrow> at_int (rn_nextIndex n) i;
     let prev = (if nxt - 1 < le_index f then le_index f else nxt - 1);
     e \<leftarrow> at_int (rn_log n) (prev - le_index f);
     Some [SendAppendEntries i \<lparr>ae_term = rn_current_term n, ae_leaderId = rn_my_id n, ae_prevLogIndex = prev, ae_prevLogTerm = le_term e,
       ae_entries = [], ae_leaderCommit = rn_commitIndex n\<rparr>]
   }"

definition ping_round :: "raft_node \<Rightarrow> raft_task list option" where
  "ping_round n = (if is_stopped n \<or> rn_role n \<noteq> Leader then Some [] else all_tasks (ping_task n) (others n))"

definition apply_round :: "raft_node \<Rightarrow> raft_node option" where
  "apply_round n =
     (if is_stopped n \<or> \<not> rn_lastApplied n < rn_commitIndex n then Some n
      else do {
        f \<leftarrow> front_of (rn_log n);
        es \<leftarrow> range_of (rn_log n) (rn_lastApplied n + 1 - le_index f) (rn_commitIndex n + 1 - le_index f);
        Some (n\<lparr>rn_state := foldl (\<lambda>sm e. apply_log sm (le_cmd e)) (rn_state n) es, rn_lastApplied := rn_commitIndex n\<rparr>)
      })"

subsection \<open>Test interfaces\<close>

definition close_client :: "rpc_client option option \<Rightarrow> rpc_client option option" where
  "close_client c = map_option (\<lambda>_. None) c"

text \<open>The last configuration with a number, as the inner loop of \<open>set_network\<close> finds it.\<close>

definition config_of :: "raft_node_config \<Rightarrow> raft_node \<Rightarrow> int \<Rightarrow> raft_node_config" where
  "config_of garbage n node_id = foldl (\<lambda>t c. if nc_node_id c = node_id then c else t) garbage (rn_configs n)"

definition set_network_entry :: "raft_node_config \<Rightarrow> raft_node \<Rightarrow> int \<times> bool \<Rightarrow> raft_node" where
  "set_network_entry garbage n entry =
     (case entry of (node_id, status) \<Rightarrow>
        if status then
          (case touch_client n node_id of
             (None, n1) \<Rightarrow> n1\<lparr>rn_clients := (rn_clients n1)(node_id \<mapsto>
               Some (rpc_client_create (nc_ip_address (config_of garbage n1 node_id)) (nc_port (config_of garbage n1 node_id)) True))\<rparr>
           | (Some cli, n1) \<Rightarrow> n1)
        else (case touch_client n node_id of (cli, n1) \<Rightarrow> n1\<lparr>rn_clients := (rn_clients n1)(node_id \<mapsto> None)\<rparr>))"

definition set_network :: "raft_node_config \<Rightarrow> raft_node \<Rightarrow> (int \<times> bool) list \<Rightarrow> raft_node" where
  "set_network garbage n availability =
     (if map_of availability (rn_my_id n) \<noteq> Some True then n\<lparr>rn_clients := close_client \<circ> rn_clients n\<rparr>
      else foldl (set_network_entry garbage) n availability)"

definition raft_set_reliable :: "raft_node \<Rightarrow> bool \<Rightarrow> raft_node" where
  "raft_set_reliable n flag = n\<lparr>rn_clients := map_option (map_option (\<lambda>cli. snd (set_reliable cli flag))) \<circ> rn_clients n\<rparr>"

definition get_list_state_log_num :: "raft_node \<Rightarrow> int" where
  "get_list_state_log_num n = num_append_logs (rn_state n)"

definition get_snapshot_direct :: "raft_node \<Rightarrow> byte list" where
  "get_snapshot_direct n = (if is_stopped n then [] else sm_snapshot (rn_state n))"

end
