(* ===== verification/Raft_Correct.thy ===== *)
theory Raft_Correct
  imports Raft_Node
begin

text \<open>
  What a Raft node keeps through all of its handlers: its term, vote, log and snapshot are on disk,
  its log is a run of consecutive indices, and what it has applied and committed lies in the log.
  Then what a successful request to append does, what a leader counts before it commits, and the
  requests that break a node.
\<close>

section \<open>Invariant\<close>

definition log_ok :: "raft_log_entry list \<Rightarrow> bool" where
  "log_ok log \<longleftrightarrow> log \<noteq> [] \<and> 0 \<le> le_index (hd log) \<and> (\<forall>i < length log. le_index (log ! i) = le_index (hd log) + int i)"

definition persisted :: "raft_node \<Rightarrow> bool" where
  "persisted n \<longleftrightarrow> rl_holds (rn_storage n) (rn_current_term n) (rn_votedFor n) (rn_log n) (rn_snapshot n)"

definition applied_ok :: "raft_node \<Rightarrow> bool" where
  "applied_ok n \<longleftrightarrow> le_index (hd (rn_log n)) \<le> rn_lastApplied n \<and> rn_lastApplied n \<le> rn_commitIndex n \<and>
     rn_commitIndex n \<le> le_index (last (rn_log n))"

definition shape_ok :: "raft_node \<Rightarrow> bool" where
  "shape_ok n \<longleftrightarrow> 0 \<le> rn_my_id n \<and> rn_my_id n < int (nodes n) \<and> nodes n < 2 ^ 31 \<and> length (rn_votesFrom n) = nodes n \<and>
     length (rn_nextIndex n) = nodes n \<and> length (rn_matchIndex n) = nodes n"

definition node_ok :: "raft_node \<Rightarrow> bool" where
  "node_ok n \<longleftrightarrow> persisted n \<and> log_ok (rn_log n) \<and> applied_ok n \<and> shape_ok n"

lemma node_okD:
  assumes "node_ok n"
  shows "persisted n" "log_ok (rn_log n)" "applied_ok n" "shape_ok n" "rn_log n \<noteq> []" "rl_ok (rn_storage n)"
    "in_int (rn_current_term n)" "in_int (rn_votedFor n)" "list_all log_entry_ok (rn_log n)" "length (rn_log n) \<le> 4093"
  using assms rl_ok_fields [of "rn_storage n"] by (auto simp: node_ok_def log_ok_def persisted_def rl_holds_def)

lemma front_back_ok [simp]:
  "xs \<noteq> [] \<Longrightarrow> front_of xs = Some (hd xs)" "xs \<noteq> [] \<Longrightarrow> back_of xs = Some (last xs)"
  by (simp_all add: front_of_def back_of_def)

lemma log_ok_last: "log_ok log \<Longrightarrow> le_index (last log) = le_index (hd log) + int (length log) - 1"
  by (simp add: log_ok_def last_conv_nth of_nat_diff Suc_leI)

lemma at_int_log:
  assumes "log_ok log" "le_index (hd log) \<le> k" "k \<le> le_index (last log)"
  shows "at_int log (k - le_index (hd log)) = Some (log ! nat (k - le_index (hd log)))"
  using assms log_ok_last [OF assms(1)] by (simp add: at_int_def at_def)

lemma log_ok_take:
  assumes "log_ok log" "0 < k"
  shows "log_ok (take k log)"
  using assms hd_take [of k log] unfolding log_ok_def by simp

lemma log_ok_drop:
  assumes "log_ok log" "k < length log"
  shows "log_ok (drop k log)" "le_index (hd (drop k log)) = le_index (hd log) + int k" "last (drop k log) = last log"
proof -
  have h: "hd (drop k log) = log ! k" using assms(2) by (simp add: hd_drop_conv_nth)
  then show i: "le_index (hd (drop k log)) = le_index (hd log) + int k" using assms by (simp add: log_ok_def)
  show "log_ok (drop k log)" unfolding log_ok_def i using assms by (simp add: log_ok_def)
  show "last (drop k log) = last log" using assms(2) by (simp add: last_drop)
qed

text \<open>New entries that carry on where a log ends.\<close>

definition follows :: "int \<Rightarrow> raft_log_entry list \<Rightarrow> bool" where
  "follows k es \<longleftrightarrow> list_all log_entry_ok es \<and> (\<forall>i < length es. le_index (es ! i) = k + 1 + int i)"

lemma log_ok_append:
  assumes "log_ok log" "follows (le_index (last log)) es"
  shows "log_ok (log @ es)" "le_index (last (log @ es)) = le_index (last log) + int (length es)"
proof -
  note l = log_ok_last [OF assms(1)]
  have "le_index ((log @ es) ! i) = le_index (hd log) + int i" if "i < length (log @ es)" for i
    using that assms l by (cases "i < length log") (auto simp: log_ok_def follows_def nth_append)
  then show ok: "log_ok (log @ es)" using assms(1) by (auto simp: log_ok_def)
  from log_ok_last [OF ok] l assms(1) show "le_index (last (log @ es)) = le_index (last log) + int (length es)"
    by (simp add: log_ok_def)
qed

section \<open>Handlers keep the invariant\<close>

lemma in_int_minus_one [simp]: "in_int (- 1)"
  by (simp add: in_int_def)

lemma persist_meta_ok:
  assumes "rl_holds (rn_storage n) t v (rn_log n) (rn_snapshot n)" "in_int (rn_current_term n)" "in_int (rn_votedFor n)"
  shows "\<exists>st. persist_meta n = Some (n\<lparr>rn_storage := st\<rparr>) \<and> persisted (n\<lparr>rn_storage := st\<rparr>)"
proof -
  from updateMeta_ok [of "rn_storage n" "rn_current_term n" "rn_votedFor n"] assms show ?thesis
    by (auto simp: persist_meta_def persisted_def rl_holds_def)
qed

lemma step_down_ok:
  assumes "node_ok n" "in_int term"
  shows "\<exists>st. persist_meta (step_down term n) = Some ((step_down term n)\<lparr>rn_storage := st\<rparr>) \<and> node_ok ((step_down term n)\<lparr>rn_storage := st\<rparr>)"
proof -
  have "rl_holds (rn_storage n) (rn_current_term n) (rn_votedFor n) (rn_log n) (rn_snapshot n)"
    using node_okD(1) [OF assms(1)] by (simp add: persisted_def)
  from persist_meta_ok [of "step_down term n", OF _ _] this assms(2) obtain st where
    "persist_meta (step_down term n) = Some ((step_down term n)\<lparr>rn_storage := st\<rparr>)" "persisted ((step_down term n)\<lparr>rn_storage := st\<rparr>)"
    by (auto simp: step_down_def)
  moreover have "applied_ok ((step_down term n)\<lparr>rn_storage := st\<rparr>)" "shape_ok ((step_down term n)\<lparr>rn_storage := st\<rparr>)"
    using node_okD(3,4) [OF assms(1)] by (simp_all add: applied_ok_def shape_ok_def step_down_def nodes_def)
  ultimately show ?thesis using node_okD(2) [OF assms(1)] by (intro exI [of _ st]) (simp add: node_ok_def step_down_def)
qed

definition up_to_date :: "raft_log_entry list \<Rightarrow> request_vote_args \<Rightarrow> bool" where
  "up_to_date log args \<longleftrightarrow> le_term (last log) < rv_lastLogTerm args \<or>
     rv_lastLogTerm args = le_term (last log) \<and> le_index (last log) \<le> rv_lastLogIndex args"

definition grants :: "raft_node \<Rightarrow> request_vote_args \<Rightarrow> bool" where
  "grants n args \<longleftrightarrow> rn_current_term n \<le> rv_term args \<and>
     (rn_current_term n < rv_term args \<or> rn_votedFor n = - 1 \<or> rn_votedFor n = rv_candidateId args) \<and> up_to_date (rn_log n) args"

text \<open>The state of a node that has answered a request for its vote, but for what is on disk.\<close>

definition voted_node :: "int \<Rightarrow> raft_node \<Rightarrow> request_vote_args \<Rightarrow> raft_node" where
  "voted_node now n args =
     (let n0 = n\<lparr>rn_lastRPC := now\<rparr>;
          n1 = (if rn_current_term n < rv_term args then step_down (rv_term args) n0 else n0)
      in if grants n args then n1\<lparr>rn_votedFor := rv_candidateId args\<rparr> else n1)"

lemma request_vote_ok:
  assumes ok: "node_ok n" and i: "in_int (rv_term args)" "in_int (rv_candidateId args)"
  shows "\<exists>st. request_vote now n args = Some (\<lparr>rvr_term = max (rn_current_term n) (rv_term args), rvr_voteGranted = grants n args\<rparr>,
      (voted_node now n args)\<lparr>rn_storage := st\<rparr>) \<and> node_ok ((voted_node now n args)\<lparr>rn_storage := st\<rparr>)"
proof -
  note o = node_okD [OF ok]
  let ?v = "voted_node now n args"
  have f: "rn_log ?v = rn_log n" "rn_storage ?v = rn_storage n" "rn_snapshot ?v = rn_snapshot n" "in_int (rn_current_term ?v)" "in_int (rn_votedFor ?v)"
    using o(7,8) i by (simp_all add: voted_node_def Let_def step_down_def)
  from persist_meta_ok [of ?v "rn_current_term n" "rn_votedFor n"] o(1) f obtain st where
    st: "persist_meta ?v = Some (?v\<lparr>rn_storage := st\<rparr>)" "persisted (?v\<lparr>rn_storage := st\<rparr>)" by (auto simp: persisted_def)
  have "request_vote now n args = map_option (\<lambda>n3. (\<lparr>rvr_term = rn_current_term ?v, rvr_voteGranted = grants n args\<rparr>, n3)) (persist_meta ?v)"
    using o(5) by (auto simp: request_vote_def voted_node_def Let_def step_down_def grants_def up_to_date_def log_up_to_date_def map_option_case
        split: option.split)
  moreover have "rn_current_term ?v = max (rn_current_term n) (rv_term args)" by (simp add: voted_node_def Let_def step_down_def)
  moreover have "applied_ok (?v\<lparr>rn_storage := st\<rparr>)" "shape_ok (?v\<lparr>rn_storage := st\<rparr>)"
    using o(3,4) by (simp_all add: applied_ok_def shape_ok_def voted_node_def Let_def step_down_def nodes_def)
  ultimately show ?thesis using st o(2) f(1) by (intro exI [of _ st]) (simp add: node_ok_def)
qed


text \<open>Counting a vote and taking over as leader.\<close>

definition counted_node :: "raft_node \<Rightarrow> int \<Rightarrow> raft_node" where
  "counted_node n target = n\<lparr>rn_votesGot := rn_votesGot n + 1, rn_votesFrom := (rn_votesFrom n)[nat target := True]\<rparr>"

definition leader_node :: "raft_node \<Rightarrow> raft_node" where
  "leader_node n = n\<lparr>rn_role := Leader, rn_leader_id := rn_my_id n, rn_nextIndex := replicate (nodes n) (le_index (last (rn_log n)) + 1),
     rn_matchIndex := (replicate (nodes n) 0)[nat (rn_my_id n) := le_index (last (rn_log n))],
     rn_matchCount := replicate (nat (le_index (last (rn_log n)) - rn_commitIndex n)) 0\<rparr>"

definition majority :: "raft_node \<Rightarrow> int \<Rightarrow> bool" where
  "majority n k \<longleftrightarrow> int (nodes n div 2) < k"

definition elected_node :: "raft_node \<Rightarrow> int \<Rightarrow> raft_node" where
  "elected_node n target = (let n2 = counted_node n target in if majority n2 (rn_votesGot n2) then leader_node n2 else n2)"

lemma become_leader_ok:
  assumes "shape_ok n" "rn_log n \<noteq> []" "le_index (last (rn_log n)) < 2 ^ 31 - 1" "rn_commitIndex n \<le> le_index (last (rn_log n))"
  shows "become_leader n = Some (leader_node n)"
  using assms by (simp add: become_leader_def leader_node_def shape_ok_def next_int_def upd_int_def upd_def nat_less_iff)

lemma elected_node_ok:
  assumes "node_ok n"
  shows "node_ok (elected_node n target)"
proof -
  let ?e = "elected_node n target"
  have f: "rn_storage ?e = rn_storage n" "rn_current_term ?e = rn_current_term n" "rn_votedFor ?e = rn_votedFor n" "rn_log ?e = rn_log n"
    "rn_snapshot ?e = rn_snapshot n" "rn_lastApplied ?e = rn_lastApplied n" "rn_commitIndex ?e = rn_commitIndex n"
    "rn_my_id ?e = rn_my_id n" "nodes ?e = nodes n"
    by (simp_all add: elected_node_def counted_node_def leader_node_def nodes_def Let_def)
  have "length (rn_votesFrom ?e) = length (rn_votesFrom n)"
    by (simp add: elected_node_def counted_node_def leader_node_def Let_def)
  moreover have "length (rn_nextIndex ?e) = nodes n" "length (rn_matchIndex ?e) = nodes n"
    using node_okD(4) [OF assms] by (simp_all add: elected_node_def counted_node_def leader_node_def Let_def nodes_def shape_ok_def)
  ultimately show ?thesis using assms f by (simp add: node_ok_def persisted_def applied_ok_def shape_ok_def)
qed

lemma vote_reply_fresh:
  assumes ok: "node_ok n" and t: "0 \<le> target" "target < int (nodes n)" and b: "le_index (last (rn_log n)) < 2 ^ 31 - 1"
    and "rvr_term reply \<le> rn_current_term n"
  shows "handle_request_vote_reply n target arg reply =
    Some (if rn_role n = Candidate \<and> rvr_voteGranted reply \<and> \<not> rn_votesFrom n ! nat target then elected_node n target else n)"
proof -
  note o = node_okD [OF ok]
  have len: "nat target < length (rn_votesFrom n)" using t o(4) by (simp add: shape_ok_def)
  have sh: "shape_ok (counted_node n target)" "rn_log (counted_node n target) = rn_log n" "rn_commitIndex (counted_node n target) = rn_commitIndex n"
    using o(4) by (simp_all add: shape_ok_def counted_node_def nodes_def)
  have "become_leader (counted_node n target) = Some (leader_node (counted_node n target))"
    using become_leader_ok [OF sh(1)] sh(2,3) o(3,5) b by (simp add: applied_ok_def)
  moreover have "rn_votesGot (counted_node n target) = rn_votesGot n + 1" by (simp add: counted_node_def)
  ultimately show ?thesis using assms(5) t len
    by (simp add: handle_request_vote_reply_def at_int_def at_def upd_int_def upd_def Let_def elected_node_def majority_def flip: counted_node_def)
qed

lemma vote_reply_ok:
  assumes ok: "node_ok n" and t: "0 \<le> target" "target < int (nodes n)" and b: "le_index (last (rn_log n)) < 2 ^ 31 - 1"
    and r: "in_int (rvr_term reply)"
  shows "\<exists>n'. handle_request_vote_reply n target arg reply = Some n' \<and> node_ok n'"
proof (cases "rn_current_term n < rvr_term reply")
  case True
  from step_down_ok [OF ok r] obtain st where
    "persist_meta (step_down (rvr_term reply) n) = Some ((step_down (rvr_term reply) n)\<lparr>rn_storage := st\<rparr>)"
    "node_ok ((step_down (rvr_term reply) n)\<lparr>rn_storage := st\<rparr>)" by blast
  then show ?thesis using True by (simp add: handle_request_vote_reply_def) (simp add: step_down_def)
next
  case False
  then have "rvr_term reply \<le> rn_current_term n" by simp
  from vote_reply_fresh [OF ok t b this, of arg] ok elected_node_ok [OF ok, of target] show ?thesis by auto
qed

definition candidate_node :: "raft_node \<Rightarrow> raft_node" where
  "candidate_node n = n\<lparr>rn_role := Candidate, rn_current_term := rn_current_term n + 1, rn_votedFor := rn_my_id n, rn_votesGot := 1,
     rn_votesFrom := (replicate (nodes n) False)[nat (rn_my_id n) := True]\<rparr>"

definition vote_args :: "raft_node \<Rightarrow> request_vote_args" where
  "vote_args n = \<lparr>rv_term = rn_current_term n + 1, rv_candidateId = rn_my_id n, rv_lastLogIndex = le_index (last (rn_log n)),
     rv_lastLogTerm = le_term (last (rn_log n))\<rparr>"

lemma start_election_ok:
  assumes ok: "node_ok n" and t: "rn_current_term n < 2 ^ 31 - 1"
  shows "\<exists>st. start_election now et ct n = Some (map (\<lambda>target. SendRequestVote target (vote_args n)) (others n),
      (candidate_node n)\<lparr>rn_storage := st, rn_electionTimeout := et, rn_candidateTimeout := ct, rn_leader_id := - 1, rn_lastRPC := now\<rparr>) \<and>
    node_ok ((candidate_node n)\<lparr>rn_storage := st, rn_electionTimeout := et, rn_candidateTimeout := ct, rn_leader_id := - 1, rn_lastRPC := now\<rparr>)"
proof -
  note o = node_okD [OF ok]
  let ?c = "candidate_node n"
  have i: "in_int (rn_current_term n + 1)" "in_int (rn_my_id n)" using o(4,7) t by (auto simp: in_int_def shape_ok_def)
  from persist_meta_ok [of ?c "rn_current_term n" "rn_votedFor n"] o(1) i obtain st where
    st: "persist_meta ?c = Some (?c\<lparr>rn_storage := st\<rparr>)" "persisted (?c\<lparr>rn_storage := st\<rparr>)"
    by (auto simp: persisted_def candidate_node_def)
  let ?n = "?c\<lparr>rn_storage := st, rn_electionTimeout := et, rn_candidateTimeout := ct, rn_leader_id := - 1, rn_lastRPC := now\<rparr>"
  have up: "upd_int (replicate (nodes n) False) (rn_my_id n) True = Some ((replicate (nodes n) False)[nat (rn_my_id n) := True])"
    using o(4) by (simp add: shape_ok_def upd_int_def upd_def nat_less_iff)
  have "others (?c\<lparr>rn_storage := st\<rparr>) = others n" by (simp add: others_def nodes_def candidate_node_def)
  then have "start_election now et ct n = Some (map (\<lambda>target. SendRequestVote target (vote_args n)) (others n), ?n)"
    using st(1) t o(5) up by (simp add: start_election_def next_int_def Let_def vote_args_def candidate_node_def)
  moreover have "node_ok ?n"
    using st(2) o(2-4) by (simp add: node_ok_def persisted_def applied_ok_def shape_ok_def nodes_def candidate_node_def)
  ultimately show ?thesis by (intro exI [of _ st] conjI)
qed


subsection \<open>Appending\<close>

lemma rpc_entries_ok:
  assumes "list_all log_entry_ok es" "length pre = i" "length pre' = i"
  shows "rpc_entries g (pre @ map le_index es) (pre' @ map le_term es) i (map (\<lambda>e. cmd_serialize (le_cmd e) cmd_size) es) = Some es"
  using assms
proof (induction es arbitrary: i pre pre')
  case (Cons e es)
  from Cons.IH [of "pre @ [le_index e]" "Suc i" "pre' @ [le_term e]"] Cons.prems have
    r: "rpc_entries g (pre @ le_index e # map le_index es) (pre' @ le_term e # map le_term es) (Suc i)
      (map (\<lambda>e. cmd_serialize (le_cmd e) cmd_size) es) = Some es" by simp
  have "cmd_deserialize (ListCommand (g i)) (cmd_serialize (le_cmd e) cmd_size) cmd_size = Some (le_cmd e)"
    using cmd_round_trip [of "le_cmd e" _ "[]"] Cons.prems(1) by (simp add: log_entry_ok_def)
  moreover have "length (cmd_serialize (le_cmd e) cmd_size) = cmd_size" by (simp add: cmd_serialize_def cmd_size_def)
  ultimately show ?case using r Cons.prems(2,3) by (simp add: at_def nth_append)
qed simp

lemma wire_round_trip:
  "list_all log_entry_ok (ae_entries args) \<Longrightarrow> transform_rpc_append_entries_args g (transform_append_entries_args args) = Some args"
  using rpc_entries_ok [of "ae_entries args" "[]" 0 "[]" g]
  by (simp add: transform_rpc_append_entries_args_def transform_append_entries_args_def)

text \<open>A request that is well formed, does not reach back before the log and fits on disk, and one that does not cut off what is committed.\<close>

definition append_formed :: "raft_node \<Rightarrow> append_entries_args \<Rightarrow> bool" where
  "append_formed n args \<longleftrightarrow> in_int (ae_term args) \<and> le_index (hd (rn_log n)) \<le> ae_prevLogIndex args \<and>
     follows (ae_prevLogIndex args) (ae_entries args) \<and>
     ae_prevLogIndex args + 1 - le_index (hd (rn_log n)) + int (length (ae_entries args)) \<le> 4093"

definition append_fits :: "raft_node \<Rightarrow> append_entries_args \<Rightarrow> bool" where
  "append_fits n args \<longleftrightarrow> append_formed n args \<and>
     (ae_entries args = [] \<or> rn_commitIndex n \<le> ae_prevLogIndex args + int (length (ae_entries args)))"

definition prev_matches :: "raft_log_entry list \<Rightarrow> append_entries_args \<Rightarrow> bool" where
  "prev_matches log args \<longleftrightarrow> ae_prevLogIndex args \<le> le_index (last log) \<and>
     le_term (log ! nat (ae_prevLogIndex args - le_index (hd log))) = ae_prevLogTerm args"

definition appended :: "raft_log_entry list \<Rightarrow> append_entries_args \<Rightarrow> raft_log_entry list" where
  "appended log args = (if ae_entries args = [] then log
     else take (nat (ae_prevLogIndex args + 1 - le_index (hd log))) log @ ae_entries args)"

definition committed_to :: "int \<Rightarrow> raft_log_entry list \<Rightarrow> append_entries_args \<Rightarrow> int" where
  "committed_to c log args = (if c < ae_leaderCommit args then min (ae_leaderCommit args) (le_index (last log)) else c)"

lemma appended_ok:
  assumes "log_ok log" "le_index (hd log) \<le> ae_prevLogIndex args" "ae_prevLogIndex args \<le> le_index (last log)"
    "follows (ae_prevLogIndex args) (ae_entries args)"
  shows "log_ok (appended log args)" "hd (appended log args) = hd log"
    "ae_entries args \<noteq> [] \<Longrightarrow> le_index (last (appended log args)) = ae_prevLogIndex args + int (length (ae_entries args))"
proof -
  let ?k = "nat (ae_prevLogIndex args + 1 - le_index (hd log))"
  have k: "0 < ?k" "?k \<le> length log" using assms(2,3) log_ok_last [OF assms(1)] by linarith+
  have t: "log_ok (take ?k log)" using log_ok_take [OF assms(1) k(1)] .
  have h: "hd (take ?k log) = hd log" using k(1) by simp
  have l: "le_index (last (take ?k log)) = ae_prevLogIndex args"
    using log_ok_last [OF t] h k assms(2) by simp
  note a = log_ok_append [OF t, unfolded l, OF assms(4)]
  show "log_ok (appended log args)" "hd (appended log args) = hd log"
    "ae_entries args \<noteq> [] \<Longrightarrow> le_index (last (appended log args)) = ae_prevLogIndex args + int (length (ae_entries args))"
    using a assms(1) t h by (auto simp: appended_def log_ok_def)
qed

text \<open>The node after the test of the term.\<close>

definition accepted_node :: "int \<Rightarrow> int \<Rightarrow> raft_node \<Rightarrow> raft_node" where
  "accepted_node now term n =
     (if rn_current_term n < term \<or> rn_role n = Candidate then step_down term (n\<lparr>rn_lastRPC := now\<rparr>) else n\<lparr>rn_lastRPC := now\<rparr>)"

lemma node_ok_lastRPC [simp]: "node_ok (n\<lparr>rn_lastRPC := now\<rparr>) = node_ok n"
  by (simp add: node_ok_def persisted_def applied_ok_def shape_ok_def nodes_def)

lemma accepted_node_ok:
  assumes "node_ok n" "in_int term"
  shows "\<exists>st. (if rn_current_term n < term \<or> rn_role n = Candidate then persist_meta (step_down term (n\<lparr>rn_lastRPC := now\<rparr>))
      else Some (n\<lparr>rn_lastRPC := now\<rparr>)) = Some ((accepted_node now term n)\<lparr>rn_storage := st\<rparr>) \<and> node_ok ((accepted_node now term n)\<lparr>rn_storage := st\<rparr>)"
proof (cases "rn_current_term n < term \<or> rn_role n = Candidate")
  case True
  then show ?thesis using step_down_ok [of "n\<lparr>rn_lastRPC := now\<rparr>" "term"] assms by (simp add: accepted_node_def)
next
  case False
  then show ?thesis using assms(1) by (intro exI [of _ "rn_storage n"]) (simp add: accepted_node_def)
qed

lemma accepted_fields [simp]:
  "rn_log (accepted_node now term n) = rn_log n" "rn_snapshot (accepted_node now term n) = rn_snapshot n"
  "rn_commitIndex (accepted_node now term n) = rn_commitIndex n" "rn_lastApplied (accepted_node now term n) = rn_lastApplied n"
  "rn_my_id (accepted_node now term n) = rn_my_id n" "nodes (accepted_node now term n) = nodes n" "rn_state (accepted_node now term n) = rn_state n"
  by (simp_all add: accepted_node_def step_down_def nodes_def)

lemma append_entries_refused:
  assumes ok: "node_ok n" and fits: "append_fits n args" and old: "ae_term args < rn_current_term n"
  shows "append_entries g now n (transform_append_entries_args args) =
    Some (\<lparr>aer_term = rn_current_term n, aer_success = False\<rparr>, n\<lparr>rn_lastRPC := now\<rparr>)"
  using wire_round_trip [of args g] fits old by (simp add: append_entries_def append_fits_def append_formed_def follows_def)

lemma store_appended:
  assumes rl: "rl_holds st t v log ss" and log: "log_ok log"
    and p: "le_index (hd log) \<le> ae_prevLogIndex args" "ae_prevLogIndex args \<le> le_index (last log)"
    and es: "follows (ae_prevLogIndex args) (ae_entries args)" "ae_entries args \<noteq> []"
      "ae_prevLogIndex args + 1 - le_index (hd log) + int (length (ae_entries args)) \<le> 4093"
  shows "\<exists>log0 st'. (if ae_prevLogIndex args < le_index (last log) then erase_suffix log (ae_prevLogIndex args + 1 - le_index (hd log)) else Some log) =
      Some log0 \<and> log0 @ ae_entries args = appended log args \<and>
    updateLogsWithRange st (appended log args) (int (length log0)) (int (length (appended log args))) = Some st' \<and>
    rl_holds st' t v (appended log args) ss"
proof -
  let ?k = "nat (ae_prevLogIndex args + 1 - le_index (hd log))"
  have k: "?k \<le> length log" "ae_prevLogIndex args + 1 - le_index (hd log) = int ?k" using p log_ok_last [OF log] by linarith+
  have "(if ae_prevLogIndex args < le_index (last log) then erase_suffix log (ae_prevLogIndex args + 1 - le_index (hd log)) else Some log) =
      Some (take ?k log)"
    using k p log_ok_last [OF log] by (auto simp: erase_suffix_def)
  moreover have app: "take ?k log @ ae_entries args = appended log args" using es(2) by (simp add: appended_def)
  moreover have st: "rl_ok st" "rl_log st = log" "rl_current_term st = t" "rl_votedFor st = v" "rl_snapshot st = ss"
    using rl by (simp_all add: rl_holds_def)
  moreover have "list_all log_entry_ok (appended log args)"
    using rl_ok_fields(6) [OF st(1)] st(2) es(1) set_take_subset [of ?k log] by (auto simp: app [symmetric] list_all_iff follows_def)
  moreover have "?k + length (ae_entries args) \<le> 4093" using es(3) k(2) by linarith
  then have len: "length (appended log args) \<le> 4093" "length (take ?k log) = ?k" using k(1) by (simp_all add: app [symmetric])
  moreover have "take ?k (appended log args) = take ?k log" using k(1) by (simp add: app [symmetric])
  moreover have "?k \<le> length (appended log args)" using k(1) by (simp add: app [symmetric])
  ultimately show ?thesis
    using updateLogsWithRange_ok [of st "appended log args" ?k]
    by (intro exI [of _ "take ?k log"]) (simp add: st)
qed

text \<open>The node that has taken over the entries, but for what is on disk.\<close>

definition extended_node :: "raft_node \<Rightarrow> append_entries_args \<Rightarrow> raft_node" where
  "extended_node n args =
     (if prev_matches (rn_log n) args
      then n\<lparr>rn_log := appended (rn_log n) args, rn_commitIndex := committed_to (rn_commitIndex n) (appended (rn_log n) args) args\<rparr>
      else n)"

lemma extended_node_ok:
  assumes ok: "node_ok n" and fits: "append_fits n args" and m: "prev_matches (rn_log n) args"
    and st: "rl_holds st (rn_current_term n) (rn_votedFor n) (appended (rn_log n) args) (rn_snapshot n)"
  shows "node_ok ((extended_node n args)\<lparr>rn_storage := st\<rparr>)"
proof -
  note o = node_okD [OF ok]
  have a: "le_index (hd (rn_log n)) \<le> ae_prevLogIndex args" "follows (ae_prevLogIndex args) (ae_entries args)"
    "ae_entries args = [] \<or> rn_commitIndex n \<le> ae_prevLogIndex args + int (length (ae_entries args))"
    using fits by (simp_all add: append_fits_def append_formed_def)
  have p: "ae_prevLogIndex args \<le> le_index (last (rn_log n))" using m by (simp add: prev_matches_def)
  note ap = appended_ok [OF o(2) a(1) p a(2)]
  let ?c = "committed_to (rn_commitIndex n) (appended (rn_log n) args) args"
  have "rn_commitIndex n \<le> ?c" "?c \<le> le_index (last (appended (rn_log n) args))"
    using o(3) a(3) ap(3) by (auto simp: committed_to_def applied_ok_def appended_def)
  then show ?thesis
    using st ap(1,2) o(3,4) m by (simp add: extended_node_def node_ok_def persisted_def applied_ok_def shape_ok_def nodes_def)
qed

lemma append_to_log_run:
  assumes ok: "node_ok n" and form: "append_formed n args"
  shows "\<exists>st. append_to_log n args = Some (prev_matches (rn_log n) args, (extended_node n args)\<lparr>rn_storage := st\<rparr>) \<and>
    rl_holds st (rn_current_term n) (rn_votedFor n) (rn_log (extended_node n args)) (rn_snapshot n)"
proof -
  note o = node_okD [OF ok]
  have a: "le_index (hd (rn_log n)) \<le> ae_prevLogIndex args" "follows (ae_prevLogIndex args) (ae_entries args)"
    "ae_prevLogIndex args + 1 - le_index (hd (rn_log n)) + int (length (ae_entries args)) \<le> 4093"
    using form by (simp_all add: append_formed_def)
  have rl: "rl_holds (rn_storage n) (rn_current_term n) (rn_votedFor n) (rn_log n) (rn_snapshot n)" using o(1) by (simp add: persisted_def)
  note at = at_int_log [OF o(2) a(1)]
  show ?thesis
  proof (cases "prev_matches (rn_log n) args")
    case False
    then have "append_to_log n args = Some (False, n)" using at o(5) by (auto simp: append_to_log_def prev_matches_def)
    then show ?thesis using False rl by (intro exI [of _ "rn_storage n"]) (simp add: extended_node_def)
  next
    case m: True
    then have p: "ae_prevLogIndex args \<le> le_index (last (rn_log n))" by (simp add: prev_matches_def)
    show ?thesis
    proof (cases "ae_entries args = []")
      case e: True
      then have "appended (rn_log n) args = rn_log n" by (simp add: appended_def)
      moreover have "append_to_log n args = Some (True, (extended_node n args)\<lparr>rn_storage := rn_storage n\<rparr>)"
        using m p at o(5) by (simp add: append_to_log_def prev_matches_def extended_node_def e appended_def committed_to_def)
      ultimately show ?thesis using m rl by (intro exI [of _ "rn_storage n"]) (simp add: extended_node_def)
    next
      case e: False
      from store_appended [OF rl o(2) a(1) p a(2) e a(3)] obtain log0 st where
        w: "(if ae_prevLogIndex args < le_index (last (rn_log n)) then erase_suffix (rn_log n) (ae_prevLogIndex args + 1 - le_index (hd (rn_log n)))
            else Some (rn_log n)) = Some log0" "log0 @ ae_entries args = appended (rn_log n) args"
          "updateLogsWithRange (rn_storage n) (appended (rn_log n) args) (int (length log0)) (int (length (appended (rn_log n) args))) = Some st"
          "rl_holds st (rn_current_term n) (rn_votedFor n) (appended (rn_log n) args) (rn_snapshot n)" by blast
      have ne: "appended (rn_log n) args \<noteq> []" "last (appended (rn_log n) args) = last (ae_entries args)" using e by (simp_all add: appended_def)
      have "updateLogsWithRange (rn_storage n) (appended (rn_log n) args) (int (length log0)) (int (length log0) + int (length (ae_entries args))) = Some st"
        using w(3) unfolding w(2) [symmetric] by simp
      then have "append_to_log n args = Some (True, (extended_node n args)\<lparr>rn_storage := st\<rparr>)"
        using m p at [OF p] o(5) e ne w(1) by (simp add: append_to_log_def prev_matches_def extended_node_def Let_def w(2) committed_to_def cong: if_cong)
      then show ?thesis using m w(4) by (intro exI [of _ st]) (simp add: extended_node_def)
    qed
  qed
qed

lemma append_to_log_ok:
  assumes ok: "node_ok n" and fits: "append_fits n args"
  shows "\<exists>st. append_to_log n args = Some (prev_matches (rn_log n) args, (extended_node n args)\<lparr>rn_storage := st\<rparr>) \<and>
    node_ok ((extended_node n args)\<lparr>rn_storage := st\<rparr>)"
proof -
  have "append_formed n args" using fits by (simp add: append_fits_def)
  from append_to_log_run [OF ok this] obtain st where
    st: "append_to_log n args = Some (prev_matches (rn_log n) args, (extended_node n args)\<lparr>rn_storage := st\<rparr>)"
      "rl_holds st (rn_current_term n) (rn_votedFor n) (rn_log (extended_node n args)) (rn_snapshot n)" by blast
  have "node_ok ((extended_node n args)\<lparr>rn_storage := st\<rparr>)"
  proof (cases "prev_matches (rn_log n) args")
    case True
    then show ?thesis using extended_node_ok [OF ok fits True] st(2) by (simp add: extended_node_def)
  next
    case False
    then show ?thesis using ok st(2) by (simp add: extended_node_def node_ok_def persisted_def applied_ok_def shape_ok_def nodes_def)
  qed
  with st(1) show ?thesis by blast
qed

lemma append_entries_ok:
  assumes ok: "node_ok n" and fits: "append_fits n args" and new: "rn_current_term n \<le> ae_term args"
  shows "\<exists>st. append_entries g now n (transform_append_entries_args args) =
      Some (\<lparr>aer_term = ae_term args, aer_success = prev_matches (rn_log n) args\<rparr>,
        (extended_node (accepted_node now (ae_term args) n) args)\<lparr>rn_storage := st\<rparr>) \<and>
    node_ok ((extended_node (accepted_node now (ae_term args) n) args)\<lparr>rn_storage := st\<rparr>)"
proof -
  have wire: "transform_rpc_append_entries_args g (transform_append_entries_args args) = Some args"
    using wire_round_trip fits by (simp add: append_fits_def append_formed_def follows_def)
  have "in_int (ae_term args)" using fits by (simp add: append_fits_def append_formed_def)
  from accepted_node_ok [OF ok this, of now] obtain st1 where
    s1: "(if rn_current_term n < ae_term args \<or> rn_role n = Candidate then persist_meta (step_down (ae_term args) (n\<lparr>rn_lastRPC := now\<rparr>))
        else Some (n\<lparr>rn_lastRPC := now\<rparr>)) = Some ((accepted_node now (ae_term args) n)\<lparr>rn_storage := st1\<rparr>)"
      "node_ok ((accepted_node now (ae_term args) n)\<lparr>rn_storage := st1\<rparr>)" by blast
  let ?n1 = "(accepted_node now (ae_term args) n)\<lparr>rn_storage := st1\<rparr>"
  have "append_fits ?n1 args" using fits by (simp add: append_fits_def append_formed_def)
  from append_to_log_ok [OF s1(2) this] obtain st where
    st: "append_to_log ?n1 args = Some (prev_matches (rn_log n) args, (extended_node ?n1 args)\<lparr>rn_storage := st\<rparr>)"
      "node_ok ((extended_node ?n1 args)\<lparr>rn_storage := st\<rparr>)" by auto
  have same: "(extended_node ?n1 args)\<lparr>rn_storage := st\<rparr> = (extended_node (accepted_node now (ae_term args) n) args)\<lparr>rn_storage := st\<rparr>"
    by (simp add: extended_node_def)
  have "rn_current_term (accepted_node now (ae_term args) n) = ae_term args"
    using new by (auto simp: accepted_node_def step_down_def)
  then have "rn_current_term (extended_node (accepted_node now (ae_term args) n) args) = ae_term args" by (simp add: extended_node_def)
  then show ?thesis
    using wire new s1(1) st unfolding same by (intro exI [of _ st]) (simp add: append_entries_def Let_def cong: if_cong)
qed


subsection \<open>Commands, snapshots and the state machine\<close>

definition command_of :: "byte list \<Rightarrow> list_command" where
  "command_of data = ListCommand (bytes_int (data ! 0) (data ! 1) (data ! 2) (data ! 3))"

definition commanded_node :: "raft_node \<Rightarrow> byte list \<Rightarrow> raft_node" where
  "commanded_node n data =
     (let i = le_index (last (rn_log n)) + 1
      in n\<lparr>rn_log := rn_log n @ [\<lparr>le_index = i, le_term = rn_current_term n, le_cmd = command_of data\<rparr>],
        rn_nextIndex := (rn_nextIndex n)[nat (rn_my_id n) := i + 1], rn_matchIndex := (rn_matchIndex n)[nat (rn_my_id n) := i],
        rn_matchCount := rn_matchCount n @ [1]\<rparr>)"

lemma new_command_ok:
  assumes ok: "node_ok n" and lead: "rn_role n = Leader" and room: "length (rn_log n) < 4093" "le_index (last (rn_log n)) < 2 ^ 31 - 2"
    and data: "4 \<le> length data"
  shows "\<exists>st. new_command g n data 4 = Some ((True, rn_current_term n, le_index (last (rn_log n)) + 1), (commanded_node n data)\<lparr>rn_storage := st\<rparr>) \<and>
    node_ok ((commanded_node n data)\<lparr>rn_storage := st\<rparr>)"
proof -
  note o = node_okD [OF ok]
  let ?i = "le_index (last (rn_log n)) + 1"
  let ?e = "\<lparr>le_index = ?i, le_term = rn_current_term n, le_cmd = command_of data\<rparr>"
  have l: "0 \<le> le_index (last (rn_log n))" using log_ok_last [OF o(2)] o(2) by (cases "rn_log n") (auto simp: log_ok_def)
  have e: "log_entry_ok ?e" using o(7) room(2) l bytes_int_in_int by (simp add: log_entry_ok_def command_of_def in_int_def)
  have "follows (le_index (last (rn_log n))) [?e]" using e by (simp add: follows_def)
  note ap = log_ok_append [OF o(2) this]
  have rl: "rl_holds (rn_storage n) (rn_current_term n) (rn_votedFor n) (rn_log n) (rn_snapshot n)" using o(1) by (simp add: persisted_def)
  from updateLogsWithRange_ok [of "rn_storage n" "rn_log n @ [?e]" "length (rn_log n)"] rl o(9) e room(1) obtain st where
    st: "updateLogsWithRange (rn_storage n) (rn_log n @ [?e]) (int (length (rn_log n))) (1 + int (length (rn_log n))) = Some st"
      "rl_holds st (rn_current_term n) (rn_votedFor n) (rn_log n @ [?e]) (rn_snapshot n)"
    by (auto simp: rl_holds_def)
  have cmd: "cmd_deserialize (ListCommand g) data 4 = Some (command_of data)"
    using data by (cases data) (auto simp: cmd_deserialize_def cmd_size_def at_def command_of_def)
  have "nat (rn_my_id n) < nodes n" "length (rn_nextIndex n) = nodes n" "length (rn_matchIndex n) = nodes n" "0 \<le> rn_my_id n"
    using o(4) by (simp_all add: shape_ok_def nat_less_iff)
  then have "new_command g n data 4 = Some ((True, rn_current_term n, ?i), (commanded_node n data)\<lparr>rn_storage := st\<rparr>)"
    using o(5) lead room(2) cmd st(1) by (simp add: new_command_def next_int_def upd_int_def upd_def Let_def commanded_node_def)
  moreover have "node_ok ((commanded_node n data)\<lparr>rn_storage := st\<rparr>)"
    using st(2) ap o(3-5) by (simp add: node_ok_def persisted_def applied_ok_def shape_ok_def nodes_def commanded_node_def Let_def)
  ultimately show ?thesis by (intro exI [of _ st] conjI)
qed

lemma save_snapshot_ok:
  assumes ok: "node_ok n" and len: "length (sm_snapshot (rn_state n)) \<le> 4096"
  shows "\<exists>st. save_snapshot n = Some (True, n\<lparr>rn_snapshot := sm_snapshot (rn_state n),
      rn_log := drop (nat (rn_lastApplied n - le_index (hd (rn_log n)))) (rn_log n), rn_storage := st\<rparr>) \<and>
    node_ok (n\<lparr>rn_snapshot := sm_snapshot (rn_state n),
      rn_log := drop (nat (rn_lastApplied n - le_index (hd (rn_log n)))) (rn_log n), rn_storage := st\<rparr>)"
proof -
  note o = node_okD [OF ok]
  define k where "k = nat (rn_lastApplied n - le_index (hd (rn_log n)))"
  let ?ss = "sm_snapshot (rn_state n)" and ?log = "drop k (rn_log n)"
  have ap: "le_index (hd (rn_log n)) \<le> rn_lastApplied n" "rn_lastApplied n \<le> rn_commitIndex n" "rn_commitIndex n \<le> le_index (last (rn_log n))"
    using o(3) by (simp_all add: applied_ok_def)
  then have k: "k < length (rn_log n)" "rn_lastApplied n - le_index (hd (rn_log n)) = int k"
    using log_ok_last [OF o(2)] unfolding k_def by linarith+
  note d = log_ok_drop [OF o(2) k(1)]
  have rl: "rl_holds (rn_storage n) (rn_current_term n) (rn_votedFor n) (rn_log n) (rn_snapshot n)" using o(1) by (simp add: persisted_def)
  from updateSnapshot_ok [of "rn_storage n" ?ss] rl len obtain st1 where
    s1: "updateSnapshot (rn_storage n) ?ss = Some st1" "rl_holds st1 (rn_current_term n) (rn_votedFor n) (rn_log n) ?ss"
    by (auto simp: rl_holds_def)
  have le: "list_all log_entry_ok ?log" "length ?log \<le> 4093" using o(9,10) set_drop_subset [of k "rn_log n"] by (auto simp: list_all_iff)
  from updateLogs_ok [OF _ le, of st1] s1(2) obtain st where
    s2: "updateLogs st1 ?log = Some st" "rl_holds st (rn_current_term n) (rn_votedFor n) ?log ?ss" by (auto simp: rl_holds_def)
  have "at_int (rn_log n) (int k) = Some (rn_log n ! k)" "erase_prefix (rn_log n) (int k) = Some ?log"
    using k(1) by (simp_all add: at_int_def at_def erase_prefix_def)
  then have "save_snapshot n = Some (True, n\<lparr>rn_snapshot := ?ss, rn_log := ?log, rn_storage := st\<rparr>)"
    using o(5) ap k s1(1) s2(1) by (simp add: save_snapshot_def Let_def k(2))
  moreover have "node_ok (n\<lparr>rn_snapshot := ?ss, rn_log := ?log, rn_storage := st\<rparr>)"
    using s2(2) d ap k o(4) by (simp add: node_ok_def persisted_def applied_ok_def shape_ok_def nodes_def)
  ultimately show ?thesis unfolding k_def [symmetric] by (intro exI [of _ st] conjI)
qed

lemma apply_round_ok:
  assumes ok: "node_ok n" and run: "\<not> is_stopped n"
  shows "apply_round n = Some (n\<lparr>rn_state := foldl (\<lambda>sm e. apply_log sm (le_cmd e)) (rn_state n)
        (take (nat (rn_commitIndex n - rn_lastApplied n)) (drop (nat (rn_lastApplied n + 1 - le_index (hd (rn_log n)))) (rn_log n))),
      rn_lastApplied := rn_commitIndex n\<rparr>)"
    "node_ok (n\<lparr>rn_state := sm, rn_lastApplied := rn_commitIndex n\<rparr>)"
proof -
  note o = node_okD [OF ok]
  have ap: "le_index (hd (rn_log n)) \<le> rn_lastApplied n" "rn_lastApplied n \<le> rn_commitIndex n" "rn_commitIndex n \<le> le_index (last (rn_log n))"
    using o(3) by (simp_all add: applied_ok_def)
  let ?i = "rn_lastApplied n + 1 - le_index (hd (rn_log n))" and ?j = "rn_commitIndex n + 1 - le_index (hd (rn_log n))"
  have r: "range_of (rn_log n) ?i ?j = Some (take (nat (rn_commitIndex n - rn_lastApplied n)) (drop (nat ?i) (rn_log n)))"
    using ap log_ok_last [OF o(2)] by (auto simp: range_of_def)
  show "apply_round n = Some (n\<lparr>rn_state := foldl (\<lambda>sm e. apply_log sm (le_cmd e)) (rn_state n)
        (take (nat (rn_commitIndex n - rn_lastApplied n)) (drop (nat ?i) (rn_log n))), rn_lastApplied := rn_commitIndex n\<rparr>)"
  proof (cases "rn_lastApplied n < rn_commitIndex n")
    case True
    then show ?thesis using run o(5) r by (simp add: apply_round_def)
  next
    case False
    then have "rn_lastApplied n = rn_commitIndex n" using ap(2) by simp
    then show ?thesis by (cases n) (simp add: apply_round_def)
  qed
  show "node_ok (n\<lparr>rn_state := sm, rn_lastApplied := rn_commitIndex n\<rparr>)"
    using o(1-4) by (simp add: node_ok_def persisted_def applied_ok_def shape_ok_def nodes_def)
qed


definition snapshot_matches :: "raft_log_entry list \<Rightarrow> install_snapshot_args \<Rightarrow> bool" where
  "snapshot_matches log arg \<longleftrightarrow> is_lastIncludedIndex arg \<le> le_index (last log) \<and>
     is_lastIncludedTerm arg = le_term (log ! nat (is_lastIncludedIndex arg - le_index (hd log)))"

text \<open>A snapshot that does not reach back before the log, fits on disk and does not undo what is committed.\<close>

definition snapshot_fits :: "raft_node \<Rightarrow> install_snapshot_args \<Rightarrow> bool" where
  "snapshot_fits n arg \<longleftrightarrow> in_int (is_term arg) \<and> in_int (is_lastIncludedIndex arg) \<and> in_int (is_lastIncludedTerm arg) \<and>
     le_index (hd (rn_log n)) \<le> is_lastIncludedIndex arg \<and> length (is_snapshot arg) \<le> 4096 \<and>
     (snapshot_matches (rn_log n) arg \<or> rn_commitIndex n \<le> is_lastIncludedIndex arg)"

definition snapshot_log :: "int \<Rightarrow> raft_log_entry list \<Rightarrow> install_snapshot_args \<Rightarrow> raft_log_entry list" where
  "snapshot_log g log arg = (if snapshot_matches log arg then drop (nat (is_lastIncludedIndex arg - le_index (hd log))) log
     else [\<lparr>le_index = is_lastIncludedIndex arg, le_term = is_lastIncludedTerm arg, le_cmd = ListCommand g\<rparr>])"

lemma snapshot_log_ok:
  assumes log: "log_ok log" "list_all log_entry_ok log" "length log \<le> 4093" and i: "le_index (hd log) \<le> is_lastIncludedIndex arg"
    "in_int (is_lastIncludedIndex arg)" "in_int (is_lastIncludedTerm arg)" "in_int g"
  shows "log_ok (snapshot_log g log arg)" "list_all log_entry_ok (snapshot_log g log arg)" "length (snapshot_log g log arg) \<le> 4093"
    "le_index (hd (snapshot_log g log arg)) = is_lastIncludedIndex arg"
    "le_index (last (snapshot_log g log arg)) = (if snapshot_matches log arg then le_index (last log) else is_lastIncludedIndex arg)"
proof -
  have h: "0 \<le> le_index (hd log)" using log(1) by (simp add: log_ok_def)
  have "log_ok (snapshot_log g log arg) \<and> list_all log_entry_ok (snapshot_log g log arg) \<and> length (snapshot_log g log arg) \<le> 4093 \<and>
    le_index (hd (snapshot_log g log arg)) = is_lastIncludedIndex arg \<and>
    le_index (last (snapshot_log g log arg)) = (if snapshot_matches log arg then le_index (last log) else is_lastIncludedIndex arg)"
  proof (cases "snapshot_matches log arg")
    case True
    define k where "k = nat (is_lastIncludedIndex arg - le_index (hd log))"
    have k: "k < length log" "is_lastIncludedIndex arg = le_index (hd log) + int k"
      using True i(1) log_ok_last [OF log(1)] unfolding k_def snapshot_matches_def by linarith+
    from log_ok_drop [OF log(1) k(1)] True log k set_drop_subset [of k log] show ?thesis
      by (auto simp: snapshot_log_def list_all_iff simp flip: k_def)
  next
    case False
    then show ?thesis using i h by (simp add: snapshot_log_def log_ok_def log_entry_ok_def)
  qed
  then show "log_ok (snapshot_log g log arg)" "list_all log_entry_ok (snapshot_log g log arg)" "length (snapshot_log g log arg) \<le> 4093"
    "le_index (hd (snapshot_log g log arg)) = is_lastIncludedIndex arg"
    "le_index (last (snapshot_log g log arg)) = (if snapshot_matches log arg then le_index (last log) else is_lastIncludedIndex arg)"
    by blast+
qed

definition installed_node :: "(nat \<Rightarrow> int) \<Rightarrow> raft_node \<Rightarrow> install_snapshot_args \<Rightarrow> raft_node" where
  "installed_node g n arg = n\<lparr>rn_log := snapshot_log (g 0) (rn_log n) arg, rn_snapshot := is_snapshot arg,
     rn_state := apply_snapshot g (g 0) (rn_state n) (is_snapshot arg), rn_lastApplied := is_lastIncludedIndex arg,
     rn_commitIndex := max (rn_commitIndex n) (is_lastIncludedIndex arg)\<rparr>"

lemma install_snapshot_ok:
  assumes ok: "node_ok n" and fits: "snapshot_fits n arg" and new: "rn_current_term n \<le> is_term arg" and g: "in_int (g 0)"
  shows "\<exists>st. install_snapshot g now n arg = Some (\<lparr>isr_term = rn_current_term n\<rparr>,
      (installed_node g (accepted_node now (is_term arg) n) arg)\<lparr>rn_storage := st\<rparr>) \<and>
    node_ok ((installed_node g (accepted_node now (is_term arg) n) arg)\<lparr>rn_storage := st\<rparr>)"
proof -
  note o = node_okD [OF ok]
  have a: "in_int (is_term arg)" "in_int (is_lastIncludedIndex arg)" "in_int (is_lastIncludedTerm arg)"
    "le_index (hd (rn_log n)) \<le> is_lastIncludedIndex arg" "length (is_snapshot arg) \<le> 4096"
    "snapshot_matches (rn_log n) arg \<or> rn_commitIndex n \<le> is_lastIncludedIndex arg" using fits by (simp_all add: snapshot_fits_def)
  from accepted_node_ok [OF ok a(1), of now] obtain st1 where
    s1: "(if rn_current_term n < is_term arg \<or> rn_role n = Candidate then persist_meta (step_down (is_term arg) (n\<lparr>rn_lastRPC := now\<rparr>))
        else Some (n\<lparr>rn_lastRPC := now\<rparr>)) = Some ((accepted_node now (is_term arg) n)\<lparr>rn_storage := st1\<rparr>)"
      "node_ok ((accepted_node now (is_term arg) n)\<lparr>rn_storage := st1\<rparr>)" by blast
  let ?n1 = "accepted_node now (is_term arg) n" and ?log = "snapshot_log (g 0) (rn_log n) arg"
  note sl = snapshot_log_ok [OF o(2,9,10) a(4,2,3) g]
  from updateLogs_ok [of st1, OF _ sl(2,3)] node_okD(1,6) [OF s1(2)] obtain st2 where
    s2: "updateLogs st1 ?log = Some st2" "rl_holds st2 (rn_current_term ?n1) (rn_votedFor ?n1) ?log (rn_snapshot n)"
    by (auto simp: persisted_def rl_holds_def)
  from updateSnapshot_ok [of st2, OF _ a(5)] s2(2) obtain st where
    s3: "updateSnapshot st2 (is_snapshot arg) = Some st" "rl_holds st (rn_current_term ?n1) (rn_votedFor ?n1) ?log (is_snapshot arg)"
    by (auto simp: rl_holds_def)
  define k where "k = is_lastIncludedIndex arg - le_index (hd (rn_log n))"
  have at: "at_int (rn_log n) k = Some (rn_log n ! nat k)" "erase_prefix (rn_log n) k = Some (drop (nat k) (rn_log n))"
    if "is_lastIncludedIndex arg \<le> le_index (last (rn_log n))"
    using at_int_log [OF o(2) a(4) that] a(4) that log_ok_last [OF o(2)] by (simp_all add: k_def erase_prefix_def)
  have "install_snapshot g now n arg = Some (\<lparr>isr_term = rn_current_term n\<rparr>, (installed_node g ?n1 arg)\<lparr>rn_storage := st\<rparr>)"
  proof (cases "is_lastIncludedIndex arg \<le> le_index (last (rn_log n))")
    case True
    then show ?thesis using new s1(1) o(5) at [OF True] s2(1) s3(1)
      by (simp add: install_snapshot_def Let_def installed_node_def snapshot_log_def snapshot_matches_def flip: k_def cong: if_cong) auto
  next
    case False
    then show ?thesis using new s1(1) o(5) s2(1) s3(1)
      by (simp add: install_snapshot_def Let_def installed_node_def snapshot_log_def snapshot_matches_def cong: if_cong)
  qed
  moreover have "node_ok ((installed_node g ?n1 arg)\<lparr>rn_storage := st\<rparr>)"
    using s3(2) sl(1,4,5) a(6) o(3) node_okD(4) [OF s1(2)]
    by (auto simp: node_ok_def persisted_def applied_ok_def shape_ok_def nodes_def installed_node_def snapshot_matches_def)
  ultimately show ?thesis by (intro exI [of _ st] conjI)
qed


section \<open>What a leader counts\<close>

definition have_index :: "raft_node \<Rightarrow> int \<Rightarrow> int" where
  "have_index n c = int (card {j. j < nodes n \<and> c \<le> rn_matchIndex n ! j})"

text \<open>The counter of each entry behind the commit index is at most the number of nodes known to have it.\<close>

definition match_ok :: "raft_node \<Rightarrow> bool" where
  "match_ok n \<longleftrightarrow> length (rn_matchCount n) = nat (le_index (last (rn_log n)) - rn_commitIndex n) \<and>
     (\<forall>q < length (rn_matchCount n). rn_matchCount n ! q \<le> have_index n (rn_commitIndex n + int q + 1)) \<and>
     (\<forall>j < nodes n. rn_matchIndex n ! j \<le> le_index (last (rn_log n)))"

definition commits :: "raft_node \<Rightarrow> int \<Rightarrow> bool" where
  "commits n c \<longleftrightarrow> majority n (have_index n c) \<and> le_term (rn_log n ! nat (c - le_index (hd (rn_log n)))) = rn_current_term n"

lemma counts_irrelevant [simp]:
  "have_index (n\<lparr>rn_matchCount := m\<rparr>) c = have_index n c" "commits (n\<lparr>rn_matchCount := m\<rparr>) c = commits n c"
  by (simp_all add: have_index_def nodes_def commits_def majority_def)

lemma count_matches_ok:
  assumes log: "log_ok (rn_log n)" "le_index (hd (rn_log n)) \<le> rn_commitIndex n"
    and len: "length (rn_matchCount n) = nat (le_index (last (rn_log n)) - rn_commitIndex n)"
    and p: "k \<le> Suc p" "p < length (rn_matchCount n)"
    and cnt: "\<forall>q < length (rn_matchCount n). rn_matchCount n ! q + (if p < q + k \<and> q \<le> p then 1 else 0) \<le> have_index n (rn_commitIndex n + int q + 1)"
  shows "\<exists>c counts. count_matches k (int p) n = Some (n\<lparr>rn_commitIndex := c, rn_matchCount := counts\<rparr>) \<and>
    rn_commitIndex n \<le> c \<and> c \<le> le_index (last (rn_log n)) \<and> length counts = nat (le_index (last (rn_log n)) - c) \<and>
    (\<forall>q < length counts. counts ! q \<le> have_index n (c + int q + 1)) \<and> (rn_commitIndex n < c \<longrightarrow> commits n c)"
  using assms
proof (induction k arbitrary: p n)
  case 0
  have "rn_matchCount n ! q \<le> have_index n (rn_commitIndex n + int q + 1)" if "q < length (rn_matchCount n)" for q
    using 0(6) that by (cases "p < q") auto
  moreover have "rn_commitIndex n \<le> le_index (last (rn_log n))" using 0(3,5) by linarith
  ultimately show ?case using 0(3)
    by (intro exI [of _ "rn_commitIndex n"] exI [of _ "rn_matchCount n"]) simp
next
  case (Suc k)
  let ?m = "rn_matchCount n" and ?f = "le_index (hd (rn_log n))" and ?l = "le_index (last (rn_log n))" and ?c = "rn_commitIndex n"
  let ?m1 = "?m[p := ?m ! p + 1]"
  have ne: "rn_log n \<noteq> []" using Suc.prems(1) by (simp add: log_ok_def)
  have pl: "?c + int p + 1 \<le> ?l" using Suc.prems(3,5) by linarith
  have a: "at_int ?m (int p) = Some (?m ! p)" "upd_int ?m (int p) (?m ! p + 1) = Some ?m1"
    using Suc.prems(5) by (simp_all add: at_int_def at_def upd_int_def upd_def)
  have e: "at_int (rn_log n) (?c + int p + 1 - ?f) = Some (rn_log n ! nat (?c + int p + 1 - ?f))"
    using at_int_log [OF Suc.prems(1) _ pl] Suc.prems(2) by simp
  have now: "?m ! p + 1 \<le> have_index n (?c + int p + 1)" using Suc.prems(6) [rule_format, OF Suc.prems(5)] by simp
  have m1: "?m1 ! q \<le> have_index n (?c + int q + 1)" if "q < length ?m" for q
    using Suc.prems(6) [rule_format, OF that] now that by (cases "q = p") (auto split: if_splits)
  show ?case
  proof (cases "int (nodes n div 2) < ?m ! p + 1 \<and> le_term (rn_log n ! nat (?c + int p + 1 - ?f)) = rn_current_term n")
    case True
    let ?n' = "n\<lparr>rn_commitIndex := ?c + int p + 1, rn_matchCount := drop (Suc p) ?m1\<rparr>"
    have "erase_prefix ?m1 (int p + 1) = Some (drop (Suc p) ?m1)" using Suc.prems(5) by (simp add: erase_prefix_def nat_add_distrib)
    then have "count_matches (Suc k) (int p) n = Some ?n'" using a e ne True by (simp add: add.assoc)
    moreover have "commits n (?c + int p + 1)" using True now by (simp add: commits_def majority_def)
    moreover have "drop (Suc p) ?m1 ! q \<le> have_index n (?c + int p + 1 + int q + 1)" if "q < length (drop (Suc p) ?m1)" for q
      using m1 [of "Suc p + q"] that Suc.prems(5) by (simp add: algebra_simps)
    moreover have "length (drop (Suc p) ?m1) = nat (?l - (?c + int p + 1))" using Suc.prems(3) by simp
    ultimately show ?thesis using pl by (intro exI [of _ "?c + int p + 1"] exI [of _ "drop (Suc p) ?m1"]) simp
  next
    case False
    let ?n1 = "n\<lparr>rn_matchCount := ?m1\<rparr>"
    have step: "count_matches (Suc k) (int p) n = count_matches k (int p - 1) ?n1" using a e ne False by auto
    show ?thesis
    proof (cases p)
      case 0
      then have "k = 0" using Suc.prems(4) by simp
      then have "count_matches (Suc k) (int p) n = Some (n\<lparr>rn_commitIndex := ?c, rn_matchCount := ?m1\<rparr>)" using step by simp
      then show ?thesis using m1 Suc.prems(3) pl by (intro exI [of _ ?c] exI [of _ ?m1]) simp
    next
      case (Suc p')
      have "\<forall>q < length ?m1. ?m1 ! q + (if p' < q + k \<and> q \<le> p' then 1 else 0) \<le> have_index ?n1 (?c + int q + 1)"
      proof (intro allI impI)
        fix q
        assume "q < length ?m1"
        then have "q < length ?m" by simp
        then show "?m1 ! q + (if p' < q + k \<and> q \<le> p' then 1 else 0) \<le> have_index ?n1 (?c + int q + 1)"
          using Suc.prems(6) [rule_format, of q] m1 [of q] by (cases "q = p") (auto simp: Suc split: if_splits)
      qed
      from Suc.IH [of ?n1 p'] this Suc.prems(1-5) Suc obtain c counts where
        "count_matches k (int p') ?n1 = Some (?n1\<lparr>rn_commitIndex := c, rn_matchCount := counts\<rparr>)" "?c \<le> c" "c \<le> ?l"
        "length counts = nat (?l - c)" "\<forall>q < length counts. counts ! q \<le> have_index ?n1 (c + int q + 1)" "?c < c \<longrightarrow> commits ?n1 c" by auto
      then show ?thesis using step by (intro exI [of _ c] exI [of _ counts]) (simp add: Suc)
    qed
  qed
qed


lemma have_index_update:
  assumes "j < nodes n" "length (rn_matchIndex n) = nodes n" "rn_matchIndex n ! j \<le> new"
  shows "have_index (n\<lparr>rn_matchIndex := (rn_matchIndex n)[j := new], rn_nextIndex := next\<rparr>) c =
    have_index n c + (if rn_matchIndex n ! j < c \<and> c \<le> new then 1 else 0)"
proof -
  let ?S = "{i. i < nodes n \<and> c \<le> rn_matchIndex n ! i}"
  have "{i. i < nodes n \<and> c \<le> (rn_matchIndex n)[j := new] ! i} = (if c \<le> new then insert j ?S else ?S)"
    using assms by (auto simp: nth_list_update)
  moreover have "finite ?S" by simp
  ultimately show ?thesis using assms(1) by (auto simp: have_index_def nodes_def card_insert_if)
qed

lemma append_reply_ok:
  assumes ok: "node_ok n" and lead: "rn_role n = Leader" and m: "match_ok n" and t: "aer_term reply \<le> rn_current_term n" and s: "aer_success reply"
    and i: "0 \<le> i" "i < int (nodes n)" and sent: "ae_prevLogIndex arg + int (length (ae_entries arg)) \<le> le_index (last (rn_log n))"
    and b: "le_index (last (rn_log n)) < 2 ^ 31 - 1"
  shows "\<exists>c counts next match. handle_append_entries_reply n i arg reply =
      Some (n\<lparr>rn_matchIndex := match, rn_nextIndex := next, rn_commitIndex := c, rn_matchCount := counts\<rparr>) \<and>
    node_ok (n\<lparr>rn_matchIndex := match, rn_nextIndex := next, rn_commitIndex := c, rn_matchCount := counts\<rparr>) \<and>
    match_ok (n\<lparr>rn_matchIndex := match, rn_nextIndex := next, rn_commitIndex := c, rn_matchCount := counts\<rparr>) \<and>
    rn_commitIndex n \<le> c \<and> (rn_commitIndex n < c \<longrightarrow> commits (n\<lparr>rn_matchIndex := match, rn_nextIndex := next\<rparr>) c)"
proof -
  note o = node_okD [OF ok]
  let ?j = "nat i" and ?c = "rn_commitIndex n" and ?l = "le_index (last (rn_log n))"
  define old where "old = rn_matchIndex n ! ?j"
  define new where "new = max old (ae_prevLogIndex arg + int (length (ae_entries arg)))"
  have j: "?j < nodes n" "length (rn_matchIndex n) = nodes n" "length (rn_nextIndex n) = nodes n" using i o(4) by (simp_all add: shape_ok_def nat_less_iff)
  have nl: "old \<le> new" "new \<le> ?l" "new < 2 ^ 31 - 1" using m sent j(1) b by (auto simp: new_def old_def match_ok_def)
  let ?match = "(rn_matchIndex n)[?j := new]" and ?next = "(rn_nextIndex n)[?j := new + 1]"
  let ?n0 = "n\<lparr>rn_matchIndex := ?match, rn_nextIndex := ?next\<rparr>"
  have hi: "have_index ?n0 c = have_index n c + (if old < c \<and> c \<le> new then 1 else 0)" for c
    using have_index_update [OF j(1,2), of new] nl(1) by (simp add: old_def)
  define k where "k = nat (new - ?c - 1 - (max (old - ?c) 0 - 1))"
  have run: "handle_append_entries_reply n i arg reply = count_matches k (new - ?c - 1) ?n0"
    using t lead s i j nl sent b by (simp add: handle_append_entries_reply_def at_int_def at_def upd_int_def upd_def next_int_def Let_def k_def
        flip: old_def new_def)
  have mc: "length (rn_matchCount n) = nat (?l - ?c)" "\<forall>q < length (rn_matchCount n). rn_matchCount n ! q \<le> have_index n (?c + int q + 1)"
    using m by (simp_all add: match_ok_def)
  have cm: "le_index (hd (rn_log n)) \<le> ?c" "?c \<le> ?l" using o(3) by (auto simp: applied_ok_def)
  obtain c counts where r: "count_matches k (new - ?c - 1) ?n0 = Some (?n0\<lparr>rn_commitIndex := c, rn_matchCount := counts\<rparr>)"
    "?c \<le> c" "c \<le> ?l" "length counts = nat (?l - c)" "\<forall>q < length counts. counts ! q \<le> have_index ?n0 (c + int q + 1)" "?c < c \<longrightarrow> commits ?n0 c"
  proof (cases "k = 0")
    case True
    have "rn_matchCount n ! q \<le> have_index ?n0 (?c + int q + 1)" if "q < length (rn_matchCount n)" for q
      using mc(2) that unfolding hi by (simp add: add_increasing2)
    then show thesis using that [of "rn_matchCount n" ?c] True mc(1) cm by simp
  next
    case False
    define p where "p = nat (new - ?c - 1)"
    have p: "new - ?c - 1 = int p" "k \<le> Suc p" "p < length (rn_matchCount n)"
      using False nl mc(1) unfolding k_def p_def by linarith+
    have q: "old < ?c + int q + 1 \<and> ?c + int q + 1 \<le> new" if "p < q + k" "q \<le> p" for q
      using that p(1) unfolding k_def p_def by linarith
    have "\<forall>q < length (rn_matchCount ?n0). rn_matchCount ?n0 ! q + (if p < q + k \<and> q \<le> p then 1 else 0) \<le> have_index ?n0 (rn_commitIndex ?n0 + int q + 1)"
    proof (intro allI impI)
      fix r
      assume "r < length (rn_matchCount ?n0)"
      then have "rn_matchCount n ! r \<le> have_index n (?c + int r + 1)" using mc(2) by simp
      then show "rn_matchCount ?n0 ! r + (if p < r + k \<and> r \<le> p then 1 else 0) \<le> have_index ?n0 (rn_commitIndex ?n0 + int r + 1)"
        using q [of r] unfolding hi by auto
    qed
    from count_matches_ok [of ?n0 k p, OF _ _ _ p(2) _ this] o(2) cm(1) mc(1) p(3) show thesis
      using that by (auto simp: p(1))
  qed
  have "node_ok (?n0\<lparr>rn_commitIndex := c, rn_matchCount := counts\<rparr>)"
    using o(1-4) r(2,3) by (simp add: node_ok_def persisted_def applied_ok_def shape_ok_def nodes_def)
  moreover have "match_ok (?n0\<lparr>rn_commitIndex := c, rn_matchCount := counts\<rparr>)"
    using r(4,5) m nl(2) j by (auto simp: match_ok_def have_index_def nodes_def nth_list_update)
  ultimately show ?thesis using run r(1,2,6) by (intro exI conjI) simp_all
qed


section \<open>Starting and restarting\<close>

definition device_of :: "byte list \<Rightarrow> block_manager" where
  "device_of file = \<lparr>bm_block_sz = 4096, bm_block_cnt = 4096, bm_in_memory = False, bm_maybe_failed = False, bm_write_fail_cnt = 0,
     bm_block_data = file\<rparr>"

lemma reopen_device: "length file = 16777216 \<Longrightarrow> bm_create_file file 4096 = Some (device_of file)"
  by (simp add: bm_create_file_def u32_def total_storage_sz_def ftruncate_def device_of_def Let_def)

lemma stored_device:
  assumes "stored bm t v log ss"
  shows "stored (device_of (bm_block_data bm)) t v log ss" "length (bm_block_data bm) = 16777216"
proof -
  have d: "raft_dev bm" using assms by (simp add: stored_def)
  then show len: "length (bm_block_data bm) = 16777216" by (simp add: raft_dev_def)
  have b: "blk (device_of (bm_block_data bm)) i = blk bm i" for i using d by (simp add: blk_def device_of_def raft_dev_def)
  have "raft_dev (device_of (bm_block_data bm))" using d len by (simp add: raft_dev_def bm_ok_def in_dev_def device_of_def)
  then show "stored (device_of (bm_block_data bm)) t v log ss" using assms by (simp add: stored_def saved_log_def saved_snapshot_def b)
qed

lemma int_to_u8_zeros: "int_to_u8 (replicate n 0) = replicate (4 * n) 0"
  by (induction n) (simp_all add: int_to_u8_def int_bytes_def numeral_eq_Suc)

lemma restore_fresh:
  "restore g (raft_log_create g fresh_device) = Some (False, (raft_log_create g fresh_device)\<lparr>rl_hasLogPersisted := 0, rl_current_term := 0,
    rl_votedFor := 0, rl_LogCount := 0, rl_snapshot_sz := 0\<rparr>)"
proof -
  have "blk fresh_device 1 = replicate 4096 0" by (simp add: blk_def fresh_device_def chunk_replicate)
  also have "\<dots> = int_to_u8 (replicate 1024 0)" using int_to_u8_zeros [of 1024] by simp
  finally have b: "blk fresh_device 1 = int_to_u8 (replicate 1024 0)" .
  have rd: "rl_read fresh_device MetadataBlockId = Some (int_to_u8 (replicate 1024 0))"
    using rl_read_ok [OF fresh_device_raft, of 1] by (simp add: MetadataBlockId_def flip: b)
  have "list_all in_int (replicate 1024 0)" by (simp add: list_all_iff in_int_def)
  from u8_to_int_to_u8 [OF this] rd show ?thesis by (simp add: restore_def raft_log_create_def at_def Let_def)
qed

lemma saved_again: "first_entry = \<lparr>le_index = 0, le_term = 0, le_cmd = ListCommand 0\<rparr>"
  by (simp add: first_entry_def)

text \<open>The contents of the file that a node starts from: none, or what it has stored.\<close>

definition starts_from :: "byte list \<Rightarrow> int \<Rightarrow> int \<Rightarrow> raft_log_entry list \<Rightarrow> byte list \<Rightarrow> bool" where
  "starts_from file t v log ss \<longleftrightarrow> file = [] \<and> t = 0 \<and> v = - 1 \<and> log = [first_entry] \<and> ss = [] \<or>
     (\<exists>bm. stored bm t v log ss \<and> file = bm_block_data bm)"

lemma start_storage:
  assumes "starts_from file t v log ss"
  shows "\<exists>bm found st1 st. bm_create_file file 4096 = Some bm \<and> restore g (raft_log_create g bm) = Some (found, st1) \<and>
    (if found then st = st1 \<and> rl_holds st1 t v log ss
     else t = 0 \<and> v = - 1 \<and> log = [first_entry] \<and> ss = [] \<and>
       saveAll (st1\<lparr>rl_current_term := 0, rl_votedFor := - 1, rl_log := [first_entry], rl_snapshot := []\<rparr>) = Some st \<and> rl_holds st t v log ss)"
  using assms unfolding starts_from_def
proof (elim disjE conjE exE)
  assume f: "file = []" "t = 0" "v = - 1" "log = [first_entry]" "ss = []"
  let ?st1 = "(raft_log_create g fresh_device)\<lparr>rl_hasLogPersisted := 0, rl_current_term := 0, rl_votedFor := 0, rl_LogCount := 0, rl_snapshot_sz := 0\<rparr>"
  let ?rl = "?st1\<lparr>rl_current_term := 0, rl_votedFor := - 1, rl_log := [first_entry], rl_snapshot := []\<rparr>"
  from saveAll_ok [of ?rl] fresh_device_raft obtain st where "saveAll ?rl = Some st" "rl_holds st 0 (- 1) [first_entry] []"
    by (auto simp: raft_log_create_def in_int_def log_entry_ok_def first_entry_def)
  then show ?thesis using f create_fresh_device restore_fresh
    by (intro exI [of _ fresh_device] exI [of _ False] exI [of _ ?st1] exI [of _ st]) simp
next
  fix bm
  assume b: "stored bm t v log ss" "file = bm_block_data bm"
  note d = stored_device [OF b(1)]
  let ?rl = "\<lparr>rl_bm = device_of file, rl_hasLogPersisted = 1, rl_current_term = t, rl_votedFor = v, rl_LogCount = int (length log), rl_log = log,
    rl_snapshot_sz = int (length ss), rl_snapshot = ss\<rparr>"
  have "rl_holds ?rl t v log ss" using d(1) b(2) by (simp add: rl_holds_def rl_ok_def)
  then show ?thesis using reopen_device [OF d(2)] restore_ok [OF d(1), of g g] b(2)
    by (intro exI [of _ "device_of file"] exI [of _ True] exI [of _ ?rl]) simp
qed

lemma raft_node_create_ok:
  assumes "starts_from file t v log ss" "log_ok log" "0 \<le> me" "me < int (length configs)" "length configs < 2 ^ 31"
  shows "\<exists>n. raft_node_create g now et ct file me configs = Some n \<and> node_ok n \<and> rn_current_term n = t \<and> rn_votedFor n = v \<and> rn_log n = log \<and>
    rn_snapshot n = ss \<and> rn_role n = Follower \<and> rn_my_id n = me \<and> rn_configs n = configs"
proof -
  from start_storage [OF assms(1), of g] obtain bm found st1 st where
    s: "bm_create_file file 4096 = Some bm" "restore g (raft_log_create g bm) = Some (found, st1)"
      "if found then st = st1 \<and> rl_holds st1 t v log ss
       else t = 0 \<and> v = - 1 \<and> log = [first_entry] \<and> ss = [] \<and>
         saveAll (st1\<lparr>rl_current_term := 0, rl_votedFor := - 1, rl_log := [first_entry], rl_snapshot := []\<rparr>) = Some st \<and> rl_holds st t v log ss"
    by blast
  have h: "rl_holds st t v log ss" using s(3) by (auto split: if_splits)
  have at: "at_int configs me = Some (configs ! nat me)" using assms(3,4) by (simp add: at_int_def at_def nat_less_iff)
  have ne: "log \<noteq> []" using assms(2) by (simp add: log_ok_def)
  let ?sm = "if ss \<noteq> [] then apply_snapshot g (g 0) list_state_machine_create ss else list_state_machine_create"
  let ?n = "\<lparr>rn_clients = Map.empty, rn_configs = configs, rn_my_id = me, rn_stopped = True, rn_joinable = False, rn_role = Follower,
       rn_current_term = t, rn_leader_id = - 1, rn_votedFor = v, rn_commitIndex = le_index (hd log), rn_lastApplied = le_index (hd log),
       rn_votesGot = 0, rn_votesFrom = replicate (length configs) False, rn_lastRPC = now, rn_electionTimeout = et, rn_candidateTimeout = ct,
       rn_nextIndex = replicate (length configs) 1, rn_matchIndex = replicate (length configs) 0, rn_matchCount = [],
       rn_log = log, rn_snapshot = ss, rn_state = ?sm, rn_storage = st\<rparr>"
  have "raft_node_create g now et ct file me configs = Some ?n"
  proof (cases found)
    case True
    then show ?thesis using s at ne by (simp add: raft_node_create_def rl_holds_def Let_def)
  next
    case False
    then show ?thesis using s at ne by (simp add: raft_node_create_def Let_def saved_again)
  qed
  moreover have "node_ok ?n"
    using h assms(2-5) log_ok_last [OF assms(2)] ne
    by (cases log) (auto simp: node_ok_def persisted_def applied_ok_def shape_ok_def nodes_def)
  ultimately show ?thesis by simp
qed

lemma persisted_starts: "node_ok n \<Longrightarrow> starts_from (bm_block_data (rl_bm (rn_storage n))) (rn_current_term n) (rn_votedFor n) (rn_log n) (rn_snapshot n)"
  by (auto simp: node_ok_def persisted_def rl_holds_def rl_ok_def starts_from_def)

end
