(* ===== verification/Raft_Steps.thy ===== *)
theory Raft_Steps
  imports Raft_Correct
begin

text \<open>
  The steps of a node as a labelled relation, with the invariant that they keep and with what they
  do to its vote.
\<close>

section \<open>Steps of a node\<close>

datatype raft_event =
    Vote request_vote_args request_vote_reply
  | VoteReply int request_vote_args request_vote_reply
  | Elect "raft_task list"
  | Append append_entries_args
  | AppendReply int append_entries_args append_entries_reply
  | Install install_snapshot_args
  | InstallReply int install_snapshot_args install_snapshot_reply
  | Command "byte list"
  | Snapshot
  | Apply
  | Restart
  | Start
  | Stop
  | Network "(int \<times> bool) list"

text \<open>
  The premises keep numbers within \<open>int\<close> and the log and the snapshot within the device, and hold what
  the sender of a message guarantees: entries in order, and no index that it does not have.
\<close>

inductive node_step :: "raft_node \<Rightarrow> raft_event \<Rightarrow> raft_node \<Rightarrow> bool" where
  vote: "in_int (rv_term args) \<Longrightarrow> in_int (rv_candidateId args) \<Longrightarrow> request_vote now n args = Some (r, n') \<Longrightarrow> node_step n (Vote args r) n'"
| vote_reply: "0 \<le> i \<Longrightarrow> i < int (nodes n) \<Longrightarrow> in_int (rvr_term r) \<Longrightarrow> le_index (last (rn_log n)) < 2 ^ 31 - 1 \<Longrightarrow>
    handle_request_vote_reply n i args r = Some n' \<Longrightarrow> node_step n (VoteReply i args r) n'"
| elect: "rn_current_term n < 2 ^ 31 - 1 \<Longrightarrow> election_round current now et ct n = Some (tasks, n') \<Longrightarrow> node_step n (Elect tasks) n'"
| append: "append_fits n args \<Longrightarrow> rn_role n = Leader \<longrightarrow> ae_term args \<noteq> rn_current_term n \<Longrightarrow>
    append_entries g now n (transform_append_entries_args args) = Some (r, n') \<Longrightarrow> node_step n (Append args) n'"
| append_reply: "0 \<le> i \<Longrightarrow> i < int (nodes n) \<Longrightarrow> in_int (ae_term args) \<Longrightarrow> le_index (last (rn_log n)) < 2 ^ 31 - 1 \<Longrightarrow>
    ae_prevLogIndex args + int (length (ae_entries args)) \<le> le_index (last (rn_log n)) \<Longrightarrow>
    handle_append_entries_reply n i args r = Some n' \<Longrightarrow> node_step n (AppendReply i args r) n'"
| install: "snapshot_fits n arg \<Longrightarrow> rn_role n = Leader \<longrightarrow> is_term arg \<noteq> rn_current_term n \<Longrightarrow> in_int (g 0) \<Longrightarrow>
    install_snapshot g now n arg = Some (r, n') \<Longrightarrow> node_step n (Install arg) n'"
| install_reply: "0 \<le> i \<Longrightarrow> i < int (nodes n) \<Longrightarrow> in_int (isr_term r) \<Longrightarrow> is_lastIncludedIndex arg \<le> le_index (last (rn_log n)) \<Longrightarrow>
    handle_install_snapshot_reply n i arg r = Some n' \<Longrightarrow> node_step n (InstallReply i arg r) n'"
| cmd: "length (rn_log n) < 4093 \<Longrightarrow> le_index (last (rn_log n)) < 2 ^ 31 - 2 \<Longrightarrow> 4 \<le> length data \<Longrightarrow>
    new_command g n data 4 = Some (r, n') \<Longrightarrow> node_step n (Command data) n'"
| snap: "length (sm_snapshot (rn_state n)) \<le> 4096 \<Longrightarrow> save_snapshot n = Some (r, n') \<Longrightarrow> node_step n Snapshot n'"
| apply_log: "apply_round n = Some n' \<Longrightarrow> node_step n Apply n'"
| restart: "raft_node_create g now et ct (bm_block_data (rl_bm (rn_storage n))) (rn_my_id n) (rn_configs n) = Some n' \<Longrightarrow> node_step n Restart n'"
| start: "raft_start n = Some n' \<Longrightarrow> node_step n Start n'"
| stop: "raft_stop n = Some n' \<Longrightarrow> node_step n Stop n'"
| network: "node_step n (Network av) (set_network garbage n av)"

definition node_inv :: "raft_node \<Rightarrow> bool" where
  "node_inv n \<longleftrightarrow> node_ok n \<and> (rn_role n = Leader \<longrightarrow> match_ok n)"

text \<open>What a step does to the vote: the node stays as it is, steps down within its term, or moves on to a later term.\<close>

definition same_vote :: "raft_node \<Rightarrow> raft_node \<Rightarrow> bool" where
  "same_vote n n' \<longleftrightarrow> rn_current_term n' = rn_current_term n \<and> rn_votedFor n' = rn_votedFor n \<and>
     (rn_role n' = Follower \<or> rn_role n' = rn_role n \<and> rn_votesFrom n' = rn_votesFrom n \<and> rn_votesGot n' = rn_votesGot n)"

definition later_term :: "raft_node \<Rightarrow> raft_node \<Rightarrow> bool" where
  "later_term n n' \<longleftrightarrow> rn_current_term n < rn_current_term n' \<and> rn_votedFor n' = - 1 \<and> rn_role n' = Follower"

definition same_place :: "raft_node \<Rightarrow> raft_node \<Rightarrow> bool" where
  "same_place n n' \<longleftrightarrow> rn_my_id n' = rn_my_id n \<and> rn_configs n' = rn_configs n"

lemma match_ok_leader: "node_ok n \<Longrightarrow> match_ok (leader_node n)"
proof -
  assume ok: "node_ok n"
  have "0 \<le> le_index (last (rn_log n))"
    using log_ok_last [OF node_okD(2) [OF ok]] node_okD(2,5) [OF ok] by (cases "rn_log n") (auto simp: log_ok_def)
  moreover have "nat (rn_my_id n) < nodes n" using node_okD(4) [OF ok] by (simp add: shape_ok_def nat_less_iff)
  ultimately show ?thesis by (auto simp: match_ok_def leader_node_def have_index_def nodes_def nth_list_update)
qed

lemma match_ok_same:
  "rn_matchIndex n' = rn_matchIndex n \<Longrightarrow> rn_matchCount n' = rn_matchCount n \<Longrightarrow> rn_commitIndex n' = rn_commitIndex n \<Longrightarrow>
    le_index (last (rn_log n')) = le_index (last (rn_log n)) \<Longrightarrow> rn_configs n' = rn_configs n \<Longrightarrow> match_ok n' = match_ok n"
  by (simp add: match_ok_def have_index_def nodes_def)

lemma vote_step:
  assumes "node_inv n" "in_int (rv_term args)" "in_int (rv_candidateId args)" "request_vote now n args = Some (r, n')"
  shows "node_inv n' \<and> same_place n n' \<and>
    (if grants n args
     then rvr_voteGranted r \<and> rn_current_term n' = rv_term args \<and> rn_votedFor n' = rv_candidateId args \<and> rn_current_term n \<le> rv_term args \<and>
       (rn_current_term n < rv_term args \<and> rn_role n' = Follower \<or>
        rn_current_term n = rv_term args \<and> rn_votedFor n \<in> {- 1, rv_candidateId args} \<and> rn_role n' = rn_role n \<and>
          rn_votesFrom n' = rn_votesFrom n \<and> rn_votesGot n' = rn_votesGot n)
     else \<not> rvr_voteGranted r \<and> (same_vote n n' \<or> later_term n n'))"
proof -
  have ok: "node_ok n" and m: "rn_role n = Leader \<longrightarrow> match_ok n" using assms(1) by (simp_all add: node_inv_def)
  from request_vote_ok [OF ok assms(2,3), of now] assms(4) obtain st where
    r: "r = \<lparr>rvr_term = max (rn_current_term n) (rv_term args), rvr_voteGranted = grants n args\<rparr>" and
    n': "n' = (voted_node now n args)\<lparr>rn_storage := st\<rparr>" "node_ok n'" by auto
  have "rn_role n' = Leader \<longrightarrow> match_ok n'"
    using m match_ok_same [of n' n] by (auto simp: n'(1) voted_node_def Let_def step_down_def)
  then show ?thesis using n'(2)
    by (auto simp: n'(1) r node_inv_def same_place_def voted_node_def Let_def step_down_def grants_def same_vote_def later_term_def)
qed


lemma step_down_step:
  assumes "node_ok n" "in_int t" "persist_meta (step_down t n) = Some n'"
  shows "node_inv n'" "same_place n n'" "rn_current_term n' = t" "rn_votedFor n' = - 1" "rn_role n' = Follower"
proof -
  from step_down_ok [OF assms(1,2)] assms(3) obtain st where "n' = (step_down t n)\<lparr>rn_storage := st\<rparr>" "node_ok n'" by auto
  then show "node_inv n'" "same_place n n'" "rn_current_term n' = t" "rn_votedFor n' = - 1" "rn_role n' = Follower"
    by (simp_all add: node_inv_def same_place_def step_down_def)
qed

lemma vote_reply_step:
  assumes "node_inv n" "0 \<le> i" "i < int (nodes n)" "in_int (rvr_term r)" "le_index (last (rn_log n)) < 2 ^ 31 - 1"
    "handle_request_vote_reply n i args r = Some n'"
  shows "node_inv n' \<and> same_place n n' \<and>
    (later_term n n' \<or> n' = n \<or> rvr_term r \<le> rn_current_term n \<and> rn_role n = Candidate \<and> rvr_voteGranted r \<and> \<not> rn_votesFrom n ! nat i \<and> n' = elected_node n i)"
proof -
  have ok: "node_ok n" using assms(1) by (simp add: node_inv_def)
  show ?thesis
  proof (cases "rn_current_term n < rvr_term r")
    case True
    from step_down_ok [OF ok assms(4)] obtain st where
      st: "persist_meta (step_down (rvr_term r) n) = Some ((step_down (rvr_term r) n)\<lparr>rn_storage := st\<rparr>)" by blast
    then have "n' = (step_down (rvr_term r) n)\<lparr>rn_storage := st\<rparr>"
      using True assms(6) by (simp add: handle_request_vote_reply_def step_down_def)
    with step_down_step [OF ok assms(4) st] True show ?thesis by (simp add: later_term_def)
  next
    case False
    then have le: "rvr_term r \<le> rn_current_term n" by simp
    from vote_reply_fresh [OF ok assms(2,3,5) le, of args] assms(6) consider "n' = n" |
      "rn_role n = Candidate \<and> rvr_voteGranted r \<and> \<not> rn_votesFrom n ! nat i" "n' = elected_node n i" by (auto split: if_splits)
    then show ?thesis
    proof cases
      case 1
      then show ?thesis using assms(1) by (simp add: same_place_def)
    next
      case 2
      have c: "node_ok (counted_node n i)" using ok by (simp add: counted_node_def node_ok_def persisted_def applied_ok_def shape_ok_def nodes_def)
      have "rn_role n' = Leader \<longrightarrow> match_ok n'" using match_ok_leader [OF c] 2 by (simp add: elected_node_def Let_def) (simp add: counted_node_def)
      then show ?thesis using elected_node_ok [OF ok, of i] 2 le
        by (auto simp: node_inv_def same_place_def elected_node_def counted_node_def leader_node_def Let_def)
    qed
  qed
qed

lemma elect_step:
  assumes "node_inv n" "rn_current_term n < 2 ^ 31 - 1" "election_round current now et ct n = Some (tasks, n')"
  shows "node_inv n' \<and> same_place n n' \<and>
    (n' = n \<and> tasks = [] \<or> rn_current_term n' = rn_current_term n + 1 \<and> rn_votedFor n' = rn_my_id n \<and> rn_role n' = Candidate \<and> rn_votesGot n' = 1 \<and>
      rn_votesFrom n' = (replicate (nodes n) False)[nat (rn_my_id n) := True] \<and> tasks = map (\<lambda>i. SendRequestVote i (vote_args n)) (others n))"
proof -
  have ok: "node_ok n" using assms(1) by (simp add: node_inv_def)
  have "n' = n \<and> tasks = [] \<or> start_election now et ct n = Some (tasks, n')"
    using assms(3) by (auto simp: election_round_def split: if_splits raft_role.splits)
  then show ?thesis
  proof
    assume "n' = n \<and> tasks = []"
    then show ?thesis using assms(1) by (simp add: same_place_def)
  next
    assume "start_election now et ct n = Some (tasks, n')"
    with start_election_ok [OF ok assms(2), of now et ct] obtain st where
      "n' = (candidate_node n)\<lparr>rn_storage := st, rn_electionTimeout := et, rn_candidateTimeout := ct, rn_leader_id := - 1, rn_lastRPC := now\<rparr>"
      "node_ok n'" "tasks = map (\<lambda>i. SendRequestVote i (vote_args n)) (others n)" by auto
    then show ?thesis by (auto simp: node_inv_def same_place_def candidate_node_def)
  qed
qed


text \<open>
  What the other steps do to the vote: they keep it, or move on to a later term, or, with a request of
  the current term that reaches a candidate, give up the candidature and the vote for itself.
\<close>

definition gives_up :: "raft_node \<Rightarrow> raft_node \<Rightarrow> bool" where
  "gives_up n n' \<longleftrightarrow> rn_role n = Candidate \<and> rn_role n' = Follower \<and> rn_current_term n' = rn_current_term n"

definition vote_kept :: "raft_node \<Rightarrow> raft_node \<Rightarrow> bool" where
  "vote_kept n n' \<longleftrightarrow> same_place n n' \<and> (same_vote n n' \<or> later_term n n' \<or> gives_up n n')"

lemma accepted_vote:
  assumes "rn_current_term n \<le> t"
  shows "vote_kept n (accepted_node now t n)"
  using assms by (auto simp: accepted_node_def vote_kept_def same_vote_def later_term_def gives_up_def step_down_def same_place_def)

lemma accepted_role:
  "rn_current_term n \<le> t \<Longrightarrow> rn_role (accepted_node now t n) = Leader \<Longrightarrow> rn_role n = Leader \<and> t = rn_current_term n"
  by (auto simp: accepted_node_def step_down_def split: if_splits)


lemma accepted_step:
  assumes new: "rn_current_term n \<le> t" and lead: "rn_role n = Leader \<longrightarrow> t \<noteq> rn_current_term n" and ok: "node_ok n'"
    and f: "rn_role n' = rn_role (accepted_node now t n)" "rn_current_term n' = rn_current_term (accepted_node now t n)"
      "rn_votedFor n' = rn_votedFor (accepted_node now t n)" "rn_votesFrom n' = rn_votesFrom (accepted_node now t n)"
      "rn_votesGot n' = rn_votesGot (accepted_node now t n)" "rn_my_id n' = rn_my_id (accepted_node now t n)"
      "rn_configs n' = rn_configs (accepted_node now t n)"
  shows "node_inv n'" "vote_kept n n'"
proof -
  have "rn_role n' \<noteq> Leader" using accepted_role [OF new] lead f(1) by auto
  then show "node_inv n'" using ok by (simp add: node_inv_def)
  from accepted_vote [OF new, of now] f show "vote_kept n n'"
    by (simp add: vote_kept_def same_place_def same_vote_def later_term_def gives_up_def)
qed

lemma heard_step:
  assumes "node_inv n" "n' = n\<lparr>rn_lastRPC := now\<rparr>"
  shows "node_inv n'" "vote_kept n n'"
proof -
  have "match_ok n' = match_ok n" by (rule match_ok_same) (simp_all add: assms(2))
  then show "node_inv n'" "vote_kept n n'" using assms by (simp_all add: node_inv_def vote_kept_def same_place_def same_vote_def)
qed

lemma append_step:
  assumes inv: "node_inv n" and fits: "append_fits n args" and lead: "rn_role n = Leader \<longrightarrow> ae_term args \<noteq> rn_current_term n"
    and run: "append_entries g now n (transform_append_entries_args args) = Some (r, n')"
  shows "node_inv n'" "vote_kept n n'"
proof -
  have ok: "node_ok n" using inv by (simp add: node_inv_def)
  have "node_inv n' \<and> vote_kept n n'"
  proof (cases "ae_term args < rn_current_term n")
    case True
    with append_entries_refused [OF ok fits True, of g now] run have "n' = n\<lparr>rn_lastRPC := now\<rparr>" by simp
    from heard_step [OF inv this] show ?thesis by simp
  next
    case False
    then have new: "rn_current_term n \<le> ae_term args" by simp
    from append_entries_ok [OF ok fits new, of g now] run obtain st where
      n': "n' = (extended_node (accepted_node now (ae_term args) n) args)\<lparr>rn_storage := st\<rparr>" "node_ok n'" by auto
    show ?thesis using accepted_step [OF new lead n'(2), of now] by (auto simp: n'(1) extended_node_def)
  qed
  then show "node_inv n'" "vote_kept n n'" by blast+
qed

lemma install_step:
  assumes inv: "node_inv n" and fits: "snapshot_fits n arg" and lead: "rn_role n = Leader \<longrightarrow> is_term arg \<noteq> rn_current_term n"
    and g: "in_int (g 0)" and run: "install_snapshot g now n arg = Some (r, n')"
  shows "node_inv n'" "vote_kept n n'"
proof -
  have ok: "node_ok n" using inv by (simp add: node_inv_def)
  have "node_inv n' \<and> vote_kept n n'"
  proof (cases "is_term arg < rn_current_term n")
    case True
    with run have "n' = n\<lparr>rn_lastRPC := now\<rparr>" by (simp add: install_snapshot_def)
    from heard_step [OF inv this] show ?thesis by simp
  next
    case False
    then have new: "rn_current_term n \<le> is_term arg" by simp
    from install_snapshot_ok [where g = g, OF ok fits new g, of now] run obtain st where
      n': "n' = (installed_node g (accepted_node now (is_term arg) n) arg)\<lparr>rn_storage := st\<rparr>" "node_ok n'" by auto
    show ?thesis using accepted_step [OF new lead n'(2), of now] by (simp add: n'(1) installed_node_def)
  qed
  then show "node_inv n'" "vote_kept n n'" by blast+
qed

lemma append_reply_step:
  assumes inv: "node_inv n" and i: "0 \<le> i" "i < int (nodes n)" and t: "in_int (ae_term args)" and b: "le_index (last (rn_log n)) < 2 ^ 31 - 1"
    and sent: "ae_prevLogIndex args + int (length (ae_entries args)) \<le> le_index (last (rn_log n))"
    and run: "handle_append_entries_reply n i args r = Some n'"
  shows "node_inv n'" "aer_term r \<le> rn_current_term n \<Longrightarrow> vote_kept n n'"
proof -
  have ok: "node_ok n" and m: "rn_role n = Leader \<longrightarrow> match_ok n" using inv by (simp_all add: node_inv_def)
  consider "rn_current_term n < aer_term r" | "aer_term r \<le> rn_current_term n" "rn_role n \<noteq> Leader" |
    "aer_term r \<le> rn_current_term n" "rn_role n = Leader" "aer_success r" | "aer_term r \<le> rn_current_term n" "rn_role n = Leader" "\<not> aer_success r"
    by linarith
  then have "node_inv n' \<and> (aer_term r \<le> rn_current_term n \<longrightarrow> vote_kept n n')"
  proof cases
    case 1
    then show ?thesis using step_down_step [OF ok t] run by (simp add: handle_append_entries_reply_def)
  next
    case 2
    then show ?thesis using run inv by (simp add: handle_append_entries_reply_def vote_kept_def same_place_def same_vote_def)
  next
    case 3
    then have mo: "match_ok n" using m by simp
    from append_reply_ok [OF ok 3(2) mo 3(1,3) i sent b] run obtain c counts "next" match where
      "n' = n\<lparr>rn_matchIndex := match, rn_nextIndex := next, rn_commitIndex := c, rn_matchCount := counts\<rparr>" "node_ok n'" "match_ok n'" by auto
    then show ?thesis by (simp add: node_inv_def vote_kept_def same_place_def same_vote_def)
  next
    case 4
    have "nat i < length (rn_nextIndex n)" using i node_okD(4) [OF ok] by (simp add: shape_ok_def nat_less_iff)
    then have n': "n' = n\<lparr>rn_nextIndex := (rn_nextIndex n)[nat i := min (rn_nextIndex n ! nat i) (ae_prevLogIndex args)]\<rparr>"
      using run 4 i by (simp add: handle_append_entries_reply_def at_int_def at_def upd_int_def upd_def)
    have "match_ok n' = match_ok n" by (rule match_ok_same) (simp_all add: n')
    moreover have "node_ok n'" using ok by (simp add: n' node_ok_def persisted_def applied_ok_def shape_ok_def nodes_def)
    ultimately show ?thesis using m by (simp add: node_inv_def n' vote_kept_def same_place_def same_vote_def)
  qed
  then show "node_inv n'" "aer_term r \<le> rn_current_term n \<Longrightarrow> vote_kept n n'" by blast+
qed


lemma have_index_mono:
  "(\<And>j. j < nodes n \<Longrightarrow> rn_matchIndex n ! j \<le> rn_matchIndex n' ! j) \<Longrightarrow> nodes n' = nodes n \<Longrightarrow> have_index n c \<le> have_index n' c"
  unfolding have_index_def by (auto intro!: card_mono elim: order_trans)

lemma install_reply_step:
  assumes inv: "node_inv n" and i: "0 \<le> i" "i < int (nodes n)" and t: "in_int (isr_term r)"
    and sent: "is_lastIncludedIndex arg \<le> le_index (last (rn_log n))" and run: "handle_install_snapshot_reply n i arg r = Some n'"
  shows "node_inv n'" "vote_kept n n'"
proof -
  have ok: "node_ok n" and m: "rn_role n = Leader \<longrightarrow> match_ok n" using inv by (simp_all add: node_inv_def)
  consider "rn_current_term n < isr_term r" | "isr_term r \<le> rn_current_term n" "rn_role n \<noteq> Leader" | "isr_term r \<le> rn_current_term n" "rn_role n = Leader"
    by linarith
  then have "node_inv n' \<and> vote_kept n n'"
  proof cases
    case 1
    then show ?thesis using step_down_step [OF ok t] run by (simp add: handle_install_snapshot_reply_def vote_kept_def later_term_def)
  next
    case 2
    then show ?thesis using run inv by (simp add: handle_install_snapshot_reply_def vote_kept_def same_place_def same_vote_def)
  next
    case 3
    let ?new = "max (rn_matchIndex n ! nat i) (is_lastIncludedIndex arg)"
    have len: "nat i < nodes n" "length (rn_matchIndex n) = nodes n" "length (rn_nextIndex n) = nodes n"
      using i node_okD(4) [OF ok] by (simp_all add: shape_ok_def nat_less_iff)
    then have n': "n' = n\<lparr>rn_matchIndex := (rn_matchIndex n)[nat i := ?new], rn_nextIndex := (rn_nextIndex n)[nat i := ?new + 1]\<rparr>"
      using run 3 i by (simp add: handle_install_snapshot_reply_def at_int_def at_def upd_int_def upd_def next_int_def Let_def split: if_splits)
    have "have_index n c \<le> have_index n' c" for c
      using len by (intro have_index_mono) (simp_all add: n' nth_list_update nodes_def)
    then have "match_ok n'" using m 3(2) sent len unfolding match_ok_def
      by (force simp: n' nodes_def nth_list_update elim: order_trans)
    moreover have "node_ok n'" using ok by (simp add: n' node_ok_def persisted_def applied_ok_def shape_ok_def nodes_def)
    ultimately show ?thesis by (simp add: node_inv_def n' vote_kept_def same_place_def same_vote_def)
  qed
  then show "node_inv n'" "vote_kept n n'" by blast+
qed

lemma commanded_match_ok:
  assumes ok: "node_ok n" and m: "match_ok n"
  shows "match_ok (commanded_node n data)"
proof -
  note o = node_okD [OF ok]
  let ?n = "commanded_node n data" and ?l = "le_index (last (rn_log n))"
  have len: "nat (rn_my_id n) < nodes n" "length (rn_matchIndex n) = nodes n" using o(4) by (simp_all add: shape_ok_def nat_less_iff)
  have c: "rn_commitIndex n \<le> ?l" using o(3) by (simp add: applied_ok_def)
  have mi: "\<And>j. j < nodes n \<Longrightarrow> rn_matchIndex n ! j \<le> ?l" and lc: "length (rn_matchCount n) = nat (?l - rn_commitIndex n)"
    and cnt: "\<And>q. q < length (rn_matchCount n) \<Longrightarrow> rn_matchCount n ! q \<le> have_index n (rn_commitIndex n + int q + 1)"
    using m by (simp_all add: match_ok_def)
  have f: "rn_matchIndex ?n = (rn_matchIndex n)[nat (rn_my_id n) := ?l + 1]" "le_index (last (rn_log ?n)) = ?l + 1" "nodes ?n = nodes n"
    "rn_matchCount ?n = rn_matchCount n @ [1]" "rn_commitIndex ?n = rn_commitIndex n" by (simp_all add: commanded_node_def Let_def nodes_def)
  have mono: "have_index n c \<le> have_index ?n c" for c
    using mi len by (intro have_index_mono) (auto simp: f nth_list_update intro: add_increasing2)
  have "\<not> ?l + 1 \<le> rn_matchIndex n ! j" if "j < nodes n" for j using mi [OF that] by simp
  then have "{j. j < nodes ?n \<and> ?l + 1 \<le> rn_matchIndex ?n ! j} = {nat (rn_my_id n)}"
    using len by (auto simp: f nth_list_update split: if_splits)
  then have own: "have_index ?n (?l + 1) = 1" by (simp add: have_index_def)
  have "(rn_matchCount n @ [1]) ! q \<le> have_index ?n (rn_commitIndex n + int q + 1)" if "q < Suc (length (rn_matchCount n))" for q
  proof (cases "q < length (rn_matchCount n)")
    case True
    then show ?thesis using cnt [OF True] mono [of "rn_commitIndex n + int q + 1"] by (simp add: nth_append)
  next
    case False
    then have q: "q = length (rn_matchCount n)" using that by simp
    then have "rn_commitIndex n + int q + 1 = ?l + 1" using lc c by simp
    then show ?thesis using q own by simp
  qed
  moreover have "rn_matchIndex ?n ! j \<le> ?l + 1" if "j < nodes n" for j using mi [OF that] len by (simp add: f nth_list_update)
  ultimately show ?thesis using lc c unfolding match_ok_def f by simp
qed

lemma command_step:
  assumes inv: "node_inv n" and room: "length (rn_log n) < 4093" "le_index (last (rn_log n)) < 2 ^ 31 - 2" and data: "4 \<le> length data"
    and run: "new_command g n data 4 = Some (r, n')"
  shows "node_inv n'" "vote_kept n n'"
proof -
  have ok: "node_ok n" and m: "rn_role n = Leader \<longrightarrow> match_ok n" using inv by (simp_all add: node_inv_def)
  have "node_inv n' \<and> vote_kept n n'"
  proof (cases "rn_role n = Leader")
    case True
    from new_command_ok [OF ok True room data, of g] run obtain st where n': "n' = (commanded_node n data)\<lparr>rn_storage := st\<rparr>" "node_ok n'" by auto
    have "match_ok n' = match_ok (commanded_node n data)" by (rule match_ok_same) (simp_all add: n'(1))
    then show ?thesis using n' commanded_match_ok [OF ok, of data] m True
      by (simp add: node_inv_def vote_kept_def same_place_def same_vote_def commanded_node_def Let_def)
  next
    case False
    then show ?thesis using run inv node_okD(5) [OF ok] by (simp add: new_command_def vote_kept_def same_place_def same_vote_def)
  qed
  then show "node_inv n'" "vote_kept n n'" by blast+
qed

lemma snapshot_step:
  assumes inv: "node_inv n" and len: "length (sm_snapshot (rn_state n)) \<le> 4096" and run: "save_snapshot n = Some (r, n')"
  shows "node_inv n'" "vote_kept n n'"
proof -
  have ok: "node_ok n" and m: "rn_role n = Leader \<longrightarrow> match_ok n" using inv by (simp_all add: node_inv_def)
  note o = node_okD [OF ok]
  let ?k = "nat (rn_lastApplied n - le_index (hd (rn_log n)))"
  from save_snapshot_ok [OF ok len] run obtain st where
    n': "n' = n\<lparr>rn_snapshot := sm_snapshot (rn_state n), rn_log := drop ?k (rn_log n), rn_storage := st\<rparr>" "node_ok n'" by auto
  have "?k < length (rn_log n)" using o(3) log_ok_last [OF o(2)] unfolding applied_ok_def by linarith
  then have "last (rn_log n') = last (rn_log n)" by (simp add: n'(1) last_drop)
  then have "match_ok n' = match_ok n" by (intro match_ok_same) (simp_all add: n'(1))
  then show "node_inv n'" "vote_kept n n'" using m n'(2) by (simp_all add: node_inv_def n'(1) vote_kept_def same_place_def same_vote_def)
qed

lemma apply_step:
  assumes inv: "node_inv n" and run: "apply_round n = Some n'"
  shows "node_inv n'" "vote_kept n n'"
proof -
  have ok: "node_ok n" and m: "rn_role n = Leader \<longrightarrow> match_ok n" using inv by (simp_all add: node_inv_def)
  have "node_inv n' \<and> vote_kept n n'"
  proof (cases "is_stopped n")
    case True
    then show ?thesis using run inv by (simp add: apply_round_def vote_kept_def same_place_def same_vote_def)
  next
    case False
    from apply_round_ok(1) [OF ok False] run obtain sm where n': "n' = n\<lparr>rn_state := sm, rn_lastApplied := rn_commitIndex n\<rparr>" by auto
    have "match_ok n' = match_ok n" by (rule match_ok_same) (simp_all add: n')
    then show ?thesis using m apply_round_ok(2) [OF ok False, of sm] by (simp add: node_inv_def n' vote_kept_def same_place_def same_vote_def)
  qed
  then show "node_inv n'" "vote_kept n n'" by blast+
qed

lemma restart_step:
  assumes inv: "node_inv n"
    and run: "raft_node_create g now et ct (bm_block_data (rl_bm (rn_storage n))) (rn_my_id n) (rn_configs n) = Some n'"
  shows "node_inv n'" "vote_kept n n'" "rn_log n' = rn_log n" "rn_snapshot n' = rn_snapshot n" "rn_role n' = Follower"
proof -
  have ok: "node_ok n" using inv by (simp add: node_inv_def)
  from raft_node_create_ok [OF persisted_starts [OF ok] node_okD(2) [OF ok], of "rn_my_id n" "rn_configs n" g now et ct] node_okD(4) [OF ok] run
  show "node_inv n'" "vote_kept n n'" "rn_log n' = rn_log n" "rn_snapshot n' = rn_snapshot n" "rn_role n' = Follower"
    by (simp_all add: shape_ok_def nodes_def node_inv_def vote_kept_def same_place_def same_vote_def)
qed


lemma clients_step:
  assumes "node_inv n" "n' = n\<lparr>rn_stopped := s, rn_joinable := j, rn_clients := m\<rparr>"
  shows "node_inv n'" "vote_kept n n'"
proof -
  have "match_ok n' = match_ok n" by (rule match_ok_same) (simp_all add: assms(2))
  then show "node_inv n'" "vote_kept n n'" using assms
    by (simp_all add: node_inv_def node_ok_def persisted_def applied_ok_def shape_ok_def nodes_def vote_kept_def same_place_def same_vote_def)
qed

lemma set_network_entry_clients: "\<exists>m. set_network_entry garbage n entry = n\<lparr>rn_clients := m\<rparr>"
  by (cases entry; cases "rn_clients n (fst entry)"; cases "snd entry")
    (auto simp: set_network_entry_def touch_client_def split: option.splits intro: exI [of _ "rn_clients n"])

lemma set_network_clients: "\<exists>m. set_network garbage n av = n\<lparr>rn_clients := m\<rparr>"
proof -
  have "\<exists>m. foldl (set_network_entry garbage) n av = n\<lparr>rn_clients := m\<rparr>"
  proof (induction av arbitrary: n)
    case Nil
    show ?case by (intro exI [of _ "rn_clients n"]) simp
  next
    case (Cons e av)
    from set_network_entry_clients [of garbage n e] obtain m where m: "set_network_entry garbage n e = n\<lparr>rn_clients := m\<rparr>" ..
    from Cons.IH [of "n\<lparr>rn_clients := m\<rparr>"] show ?case by (simp add: m)
  qed
  then show ?thesis by (auto simp: set_network_def)
qed

text \<open>
  The answers that do no harm to an election: a vote for the election that is going on, and no answer to a
  request for entries that comes from a later term, after which the handler takes the term of the request.
\<close>

fun safe_event :: "raft_node \<Rightarrow> raft_event \<Rightarrow> bool" where
  "safe_event n (VoteReply i args r) \<longleftrightarrow> rv_term args = rn_current_term n \<or> rn_current_term n < rvr_term r"
| "safe_event n (AppendReply i args r) \<longleftrightarrow> aer_term r \<le> rn_current_term n"
| "safe_event n _ \<longleftrightarrow> True"

fun votes_event :: "raft_event \<Rightarrow> bool" where
  "votes_event (Vote _ _) = True"
| "votes_event (VoteReply _ _ _) = True"
| "votes_event (Elect _) = True"
| "votes_event _ = False"

lemma node_step_ok:
  assumes "node_step n e n'" "node_inv n"
  shows "node_inv n'" "\<not> votes_event e \<Longrightarrow> safe_event n e \<Longrightarrow> vote_kept n n'"
proof -
  have "node_inv n' \<and> (\<not> votes_event e \<longrightarrow> safe_event n e \<longrightarrow> vote_kept n n')"
    using assms
  proof cases
    case (vote args "now" r)
    with vote_step [OF assms(2) vote(2-4)] show ?thesis by simp
  next
    case (vote_reply i r args)
    with vote_reply_step [OF assms(2) vote_reply(2-6)] show ?thesis by simp
  next
    case (elect current "now" et ct tasks)
    with elect_step [OF assms(2) elect(2,3)] show ?thesis by simp
  next
    case (append args g "now" r)
    with append_step [OF assms(2) append(2-4)] show ?thesis by simp
  next
    case (append_reply i args r)
    with append_reply_step [OF assms(2) append_reply(2-7)] show ?thesis by simp
  next
    case (install arg g "now" r)
    with install_step [where g = g, OF assms(2) install(2-5)] show ?thesis by simp
  next
    case (install_reply i r arg)
    with install_reply_step [OF assms(2) install_reply(2-6)] show ?thesis by simp
  next
    case (cmd data g r)
    with command_step [OF assms(2) cmd(2-5)] show ?thesis by simp
  next
    case (snap r)
    with snapshot_step [OF assms(2) snap(2,3)] show ?thesis by simp
  next
    case apply_log
    with apply_step [OF assms(2) apply_log(2)] show ?thesis by simp
  next
    case (restart g "now" et ct)
    with restart_step [OF assms(2) restart(2)] show ?thesis by simp
  next
    case start
    then have "\<exists>s j m. n' = n\<lparr>rn_stopped := s, rn_joinable := j, rn_clients := m\<rparr>" 
      by (auto simp: raft_start_def chfs_assert_def split: if_splits)
    then show ?thesis using clients_step [OF assms(2), of n'] by blast
  next
    case stop
    then have "\<exists>s j m. n' = n\<lparr>rn_stopped := s, rn_joinable := j, rn_clients := m\<rparr>"
      by (auto simp: raft_stop_def chfs_assert_def split: if_splits)
    then show ?thesis using clients_step [OF assms(2), of n'] by blast
  next
    case (network av garbage)
    from set_network_clients [of garbage n av] obtain m where "n' = n\<lparr>rn_stopped := rn_stopped n, rn_joinable := rn_joinable n, rn_clients := m\<rparr>"
      using network by auto
    from clients_step [OF assms(2) this] show ?thesis by simp
  qed
  then show "node_inv n'" "\<not> votes_event e \<Longrightarrow> safe_event n e \<Longrightarrow> vote_kept n n'" by blast+
qed

inductive node_run :: "raft_node \<Rightarrow> raft_event list \<Rightarrow> raft_node \<Rightarrow> bool" where
  idle: "node_run n [] n"
| more: "node_run n es n' \<Longrightarrow> node_step n' e n'' \<Longrightarrow> node_run n (es @ [e]) n''"

lemma node_run_ok: "node_run n es n' \<Longrightarrow> node_inv n \<Longrightarrow> node_inv n'"
  by (induction rule: node_run.induct) (auto intro: node_step_ok)

lemma node_step_configs:
  assumes "node_step n e n'" "node_inv n"
  shows "rn_configs n' = rn_configs n"
  using assms
proof (cases "votes_event e \<or> \<not> safe_event n e")
  case True
  show ?thesis using assms
  proof cases
    case (vote args "now" r)
    with vote_step [OF assms(2) vote(2-4)] show ?thesis by (simp add: same_place_def)
  next
    case (vote_reply i r args)
    with vote_reply_step [OF assms(2) vote_reply(2-6)] show ?thesis by (simp add: same_place_def)
  next
    case (elect current "now" et ct tasks)
    with elect_step [OF assms(2) elect(2,3)] show ?thesis by (simp add: same_place_def)
  next
    case (append_reply i args r)
    have "node_ok n" using assms(2) by (simp add: node_inv_def)
    with append_reply True step_down_step(2) [OF _ append_reply(4)] show ?thesis by (simp add: handle_append_entries_reply_def same_place_def)
  qed (use True in simp_all)
next
  case False
  then show ?thesis using node_step_ok(2) [OF assms] by (simp add: vote_kept_def same_place_def)
qed

lemma node_run_configs: "node_run n es n' \<Longrightarrow> node_inv n \<Longrightarrow> rn_configs n' = rn_configs n"
  by (induction rule: node_run.induct) (auto dest: node_step_configs node_run_ok)

lemma fresh_node_inv:
  assumes "raft_node_create g now et ct [] me configs = Some n" "0 \<le> me" "me < int (length configs)" "length configs < 2 ^ 31"
  shows "node_inv n" "rn_current_term n = 0" "rn_votedFor n = - 1" "rn_log n = [first_entry]" "rn_role n = Follower" "rn_my_id n = me" "rn_configs n = configs" "rn_snapshot n = []"
    "\<not> rn_joinable n"
proof -
  have j: "\<not> rn_joinable n" using assms(1) by (auto simp: raft_node_create_def Let_def split: Option.bind_splits if_splits)
  have "starts_from [] 0 (- 1) [first_entry] []" by (simp add: starts_from_def)
  moreover have "log_ok [first_entry]" by (simp add: log_ok_def first_entry_def)
  ultimately show "node_inv n" "rn_current_term n = 0" "rn_votedFor n = - 1" "rn_log n = [first_entry]" "rn_role n = Follower" "rn_my_id n = me" "rn_configs n = configs" "rn_snapshot n = []" "\<not> rn_joinable n"
    using j raft_node_create_ok [of "[]" 0 "- 1" "[first_entry]" "[]" me configs g now et ct] assms by (simp_all add: node_inv_def)
qed

end
