(* ===== verification/Raft_Election.thy ===== *)
theory Raft_Election
  imports Raft_Steps
begin

text \<open>
  A cluster of nodes that send each other requests for votes. At most one node leads a term as long as
  every answer that a node handles is harmless; a run of the handlers in which an answer to an old
  request is counted and two nodes lead the same term.
\<close>

section \<open>Cluster\<close>

text \<open>Messages may be lost, delayed, repeated and reordered: what was sent once can arrive at any time.\<close>

record raft_system =
  sys_configs :: "raft_node_config list"
  sys_node :: "int \<Rightarrow> raft_node"
  sys_requests :: "(int \<times> int \<times> request_vote_args) set"
  sys_replies :: "(int \<times> int \<times> request_vote_args \<times> request_vote_reply) set"

definition in_cluster :: "raft_node_config list \<Rightarrow> int \<Rightarrow> bool" where
  "in_cluster configs i \<longleftrightarrow> 0 \<le> i \<and> i < int (length configs)"

definition put_node :: "int \<Rightarrow> raft_node \<Rightarrow> raft_system \<Rightarrow> raft_system" where
  "put_node i n s = s\<lparr>sys_node := (sys_node s)(i := n)\<rparr>"

inductive sys_step :: "raft_system \<Rightarrow> int \<times> raft_event \<Rightarrow> raft_system \<Rightarrow> bool" where
  elect: "in_cluster (sys_configs s) i \<Longrightarrow> node_step (sys_node s i) (Elect tasks) n' \<Longrightarrow>
    sys_step s (i, Elect tasks) ((put_node i n' s)\<lparr>sys_requests := sys_requests s \<union> {(i, j, args) | j args. SendRequestVote j args \<in> set tasks}\<rparr>)"
| vote: "(j, i, args) \<in> sys_requests s \<Longrightarrow> node_step (sys_node s i) (Vote args r) n' \<Longrightarrow>
    sys_step s (i, Vote args r) ((put_node i n' s)\<lparr>sys_replies := insert (j, i, args, r) (sys_replies s)\<rparr>)"
| reply: "(i, j, args, r) \<in> sys_replies s \<Longrightarrow> node_step (sys_node s i) (VoteReply j args r) n' \<Longrightarrow>
    sys_step s (i, VoteReply j args r) (put_node i n' s)"
| other: "in_cluster (sys_configs s) i \<Longrightarrow> \<not> votes_event e \<Longrightarrow> node_step (sys_node s i) e n' \<Longrightarrow> sys_step s (i, e) (put_node i n' s)"

text \<open>A run, and a run in which every event does no harm.\<close>

inductive sys_run :: "raft_system \<Rightarrow> raft_system \<Rightarrow> bool" where
  idle: "sys_run s s"
| more: "sys_run s s' \<Longrightarrow> sys_step s' (i, e) s'' \<Longrightarrow> sys_run s s''"

inductive safe_run :: "raft_system \<Rightarrow> raft_system \<Rightarrow> bool" where
  idle: "safe_run s s"
| more: "safe_run s s' \<Longrightarrow> sys_step s' (i, e) s'' \<Longrightarrow> safe_event (sys_node s' i) e \<Longrightarrow> safe_run s s''"

definition sys_init :: "raft_node_config list \<Rightarrow> raft_system \<Rightarrow> bool" where
  "sys_init configs s \<longleftrightarrow> sys_configs s = configs \<and> length configs < 2 ^ 31 \<and> sys_requests s = {} \<and> sys_replies s = {} \<and>
     (\<forall>i. in_cluster configs i \<longrightarrow> (\<exists>g now et ct. raft_node_create g now et ct [] i configs = Some (sys_node s i)))"

section \<open>Invariant\<close>

text \<open>Node \<open>i\<close> got the vote of \<open>k\<close> in a term.\<close>

definition granted :: "raft_system \<Rightarrow> int \<Rightarrow> int \<Rightarrow> int \<Rightarrow> bool" where
  "granted s i k t \<longleftrightarrow> (\<exists>args r. (i, k, args, r) \<in> sys_replies s \<and> rvr_voteGranted r \<and> rv_term args = t)"

definition voters :: "raft_node \<Rightarrow> nat set" where
  "voters n = {k. k < nodes n \<and> rn_votesFrom n ! k}"

text \<open>What a node has counted are votes of its term, and a leader has a majority of them.\<close>

definition candidature :: "(int \<Rightarrow> int \<Rightarrow> int \<Rightarrow> bool) \<Rightarrow> int \<Rightarrow> raft_node \<Rightarrow> bool" where
  "candidature G i n \<longleftrightarrow> (rn_role n \<noteq> Follower \<longrightarrow> rn_votedFor n = i \<and> (\<forall>k \<in> voters n. int k = i \<or> G i (int k) (rn_current_term n))) \<and>
     (rn_role n = Candidate \<longrightarrow> rn_votesGot n = int (card (voters n))) \<and> (rn_role n = Leader \<longrightarrow> majority n (int (card (voters n))))"

definition node_in :: "raft_node_config list \<Rightarrow> (int \<Rightarrow> int \<Rightarrow> int \<Rightarrow> bool) \<Rightarrow> int \<Rightarrow> raft_node \<Rightarrow> bool" where
  "node_in configs G i n \<longleftrightarrow> node_inv n \<and> rn_my_id n = i \<and> rn_configs n = configs \<and>
     (\<forall>j t. G j i t \<longrightarrow> j \<noteq> i \<and> 0 \<le> j \<and> t \<le> rn_current_term n \<and> (t = rn_current_term n \<longrightarrow> rn_votedFor n = j)) \<and> candidature G i n"

definition sys_ok :: "raft_node_config list \<Rightarrow> raft_system \<Rightarrow> bool" where
  "sys_ok configs s \<longleftrightarrow> sys_configs s = configs \<and> (\<forall>i. in_cluster configs i \<longrightarrow> node_in configs (granted s) i (sys_node s i)) \<and>
     (\<forall>i k args. (i, k, args) \<in> sys_requests s \<longrightarrow> in_cluster configs i \<and> in_cluster configs k \<and> i \<noteq> k \<and> rv_candidateId args = i) \<and>
     (\<forall>i k args r. (i, k, args, r) \<in> sys_replies s \<longrightarrow> in_cluster configs i \<and> in_cluster configs k) \<and>
     (\<forall>i j k t. granted s i k t \<longrightarrow> granted s j k t \<longrightarrow> i = j)"

lemma node_in_kept:
  assumes "node_in configs G i n" "vote_kept n n'" "node_inv n'"
  shows "node_in configs G i n'"
proof -
  have n: "rn_my_id n = i" "rn_configs n = configs" "\<And>j t. G j i t \<Longrightarrow> j \<noteq> i \<and> 0 \<le> j \<and> t \<le> rn_current_term n \<and> (t = rn_current_term n \<longrightarrow> rn_votedFor n = j)"
    "candidature G i n" using assms(1) by (simp_all add: node_in_def)
  have p: "rn_my_id n' = i" "rn_configs n' = configs" using n(1,2) assms(2) by (simp_all add: vote_kept_def same_place_def)
  consider "same_vote n n'" | "later_term n n'" | "gives_up n n'" using assms(2) by (auto simp: vote_kept_def)
  then show ?thesis
  proof cases
    case 1
    then have "candidature G i n'" using n(2,4) p(2) by (auto simp: same_vote_def candidature_def voters_def nodes_def majority_def)
    then show ?thesis using 1 assms(3) n(3) p by (simp add: node_in_def same_vote_def)
  next
    case 2
    then have "candidature G i n'" by (simp add: later_term_def candidature_def)
    moreover have "t < rn_current_term n'" if "G j i t" for j t using n(3) [OF that] 2 by (simp add: later_term_def)
    ultimately show ?thesis using assms(3) n(3) p by (force simp: node_in_def)
  next
    case 3
    then have g: "rn_role n = Candidate" "rn_role n' = Follower" "rn_current_term n' = rn_current_term n" by (simp_all add: gives_up_def)
    have "rn_votedFor n = i" using n(4) g(1) by (simp add: candidature_def)
    then have "t < rn_current_term n" if "G j i t" for j t using n(3) [OF that] by auto
    then show ?thesis using assms(3) n(3) p g by (force simp: node_in_def candidature_def)
  qed
qed

lemma node_in_elect:
  assumes "node_in configs G i n" "node_inv n'" "same_place n n'" "rn_current_term n' = rn_current_term n + 1" "rn_votedFor n' = rn_my_id n"
    "rn_role n' = Candidate" "rn_votesGot n' = 1" "rn_votesFrom n' = (replicate (nodes n) False)[nat (rn_my_id n) := True]"
  shows "node_in configs G i n'"
proof -
  have n: "rn_my_id n = i" "rn_configs n = configs" "\<And>j t. G j i t \<Longrightarrow> j \<noteq> i \<and> 0 \<le> j \<and> t \<le> rn_current_term n" "shape_ok n"
    using assms(1) node_okD(4) [of n] by (simp_all add: node_in_def node_inv_def)
  have p: "rn_my_id n' = i" "rn_configs n' = configs" using n(1,2) assms(3) by (simp_all add: same_place_def)
  have "voters n' = {nat i}" using assms(8) n(1,2,4) p(2) by (auto simp: voters_def nodes_def shape_ok_def nth_list_update split: if_splits)
  moreover have "0 \<le> i" using n(1,4) by (simp add: shape_ok_def)
  ultimately have "candidature G i n'" using assms(5-7) n(1) by (simp add: candidature_def)
  moreover have "t < rn_current_term n'" if "G j i t" for j t using n(3) [OF that] assms(4) by simp
  ultimately show ?thesis using assms(2) n(3) p by (force simp: node_in_def)
qed

lemma node_in_reply:
  assumes "node_in configs G i n" "node_inv n'" "same_place n n'" "rn_role n = Candidate" "\<not> rn_votesFrom n ! nat k" "n' = elected_node n k"
    and k: "0 \<le> k" "k < int (nodes n)" "G i k (rn_current_term n)"
  shows "node_in configs G i n'"
proof -
  have n: "rn_my_id n = i" "rn_configs n = configs" "candidature G i n" "length (rn_votesFrom n) = nodes n"
    using assms(1) node_okD(4) [of n] by (simp_all add: node_in_def node_inv_def shape_ok_def)
  have p: "rn_my_id n' = i" "rn_configs n' = configs" using n(1,2) assms(3) by (simp_all add: same_place_def)
  have f: "rn_votedFor n' = rn_votedFor n" "rn_current_term n' = rn_current_term n" "rn_votesFrom n' = (rn_votesFrom n)[nat k := True]"
    "rn_votesGot n' = rn_votesGot n + 1" "nodes n' = nodes n" "rn_role n' = Leader \<or> rn_role n' = Candidate"
    "rn_role n' = Leader \<longrightarrow> majority n (rn_votesGot n + 1)"
    using assms(4) by (simp_all add: assms(6) elected_node_def counted_node_def leader_node_def majority_def nodes_def Let_def)
  have v: "voters n' = insert (nat k) (voters n)" "nat k \<notin> voters n" "finite (voters n)"
    using assms(5) k n(4) by (auto simp: voters_def f nth_list_update nat_less_iff)
  then have "rn_votesGot n + 1 = int (card (voters n'))" using n(3) assms(4) by (simp add: candidature_def)
  moreover have "majority n' m = majority n m" for m by (simp add: majority_def f(5))
  moreover have "\<forall>j \<in> voters n'. int j = i \<or> G i (int j) (rn_current_term n)" using n(3) assms(4) k v(1) by (auto simp: candidature_def)
  ultimately have "candidature G i n'" using n(3) assms(4) f by (auto simp: candidature_def)
  then show ?thesis using assms(1,2) p f(1,2) by (simp add: node_in_def)
qed


text \<open>A vote that node \<open>i\<close> grants, seen from itself and from the others.\<close>

definition with_vote :: "(int \<Rightarrow> int \<Rightarrow> int \<Rightarrow> bool) \<Rightarrow> int \<Rightarrow> int \<Rightarrow> int \<Rightarrow> int \<Rightarrow> int \<Rightarrow> int \<Rightarrow> bool" where
  "with_vote G j i t j' i' t' \<longleftrightarrow> G j' i' t' \<or> j' = j \<and> i' = i \<and> t' = t"

lemma node_in_others: "node_in configs G m n \<Longrightarrow> m \<noteq> i \<Longrightarrow> node_in configs (with_vote G j i t) m n"
  by (auto simp: node_in_def with_vote_def candidature_def)

lemma node_in_vote:
  assumes "node_in configs G i n" "node_inv n'" "same_place n n'" "rn_current_term n' = t" "rn_votedFor n' = j" "rn_current_term n \<le> t"
    and r: "rn_current_term n < t \<and> rn_role n' = Follower \<or>
      rn_current_term n = t \<and> rn_votedFor n \<in> {- 1, j} \<and> rn_role n' = rn_role n \<and> rn_votesFrom n' = rn_votesFrom n \<and> rn_votesGot n' = rn_votesGot n"
    and j: "j \<noteq> i" "0 \<le> j"
  shows "node_in configs (with_vote G j i t) i n'" "G c i t \<Longrightarrow> c = j"
proof -
  have n: "rn_my_id n = i" "rn_configs n = configs" "candidature G i n" "0 \<le> i"
    "\<And>j t. G j i t \<Longrightarrow> j \<noteq> i \<and> 0 \<le> j \<and> t \<le> rn_current_term n \<and> (t = rn_current_term n \<longrightarrow> rn_votedFor n = j)"
    using assms(1) node_okD(4) [of n] by (auto simp: node_in_def node_inv_def shape_ok_def)
  have p: "rn_my_id n' = i" "rn_configs n' = configs" using n(1,2) assms(3) by (simp_all add: same_place_def)
  show same: "c = j" if "G c i t" for c using n(5) [OF that] r by auto
  have "rn_role n' = Follower" using r n(3,4) j by (cases "rn_role n") (auto simp: candidature_def)
  then have "candidature (with_vote G j i t) i n'" by (simp add: candidature_def)
  moreover have "u \<le> t \<and> (u = t \<longrightarrow> c = j)" if "G c i u" for c u using n(5) [OF that] assms(6) that same by auto
  ultimately show "node_in configs (with_vote G j i t) i n'" using assms(2,4,5) n(5) p j by (auto simp: node_in_def with_vote_def)
qed

lemma granted_put [simp]:
  "granted (put_node i n s) = granted s" "granted (s\<lparr>sys_requests := rq\<rparr>) = granted s"
  "granted ((put_node m n s)\<lparr>sys_replies := insert (j, i, args, r) (sys_replies s)\<rparr>) =
    (if rvr_voteGranted r then with_vote (granted s) j i (rv_term args) else granted s)"
  by (auto simp: granted_def put_node_def with_vote_def fun_eq_iff)

lemma put_fields [simp]:
  "sys_configs (put_node i n s) = sys_configs s" "sys_requests (put_node i n s) = sys_requests s" "sys_replies (put_node i n s) = sys_replies s"
  "sys_node (put_node i n s) m = (if m = i then n else sys_node s m)"
  by (simp_all add: put_node_def)

lemma sys_okD:
  assumes "sys_ok configs s"
  shows "in_cluster configs i \<Longrightarrow> node_in configs (granted s) i (sys_node s i)"
    "(j, k, args) \<in> sys_requests s \<Longrightarrow> in_cluster configs j \<and> in_cluster configs k \<and> j \<noteq> k \<and> rv_candidateId args = j"
    "(j, k, args, r) \<in> sys_replies s \<Longrightarrow> in_cluster configs j \<and> in_cluster configs k"
    "granted s j k t \<Longrightarrow> granted s j' k t \<Longrightarrow> j = j'" "sys_configs s = configs"
  using assms unfolding sys_ok_def by blast+

lemma sys_ok_put:
  assumes "sys_ok configs s" "node_in configs (granted s) i n'"
  shows "sys_ok configs (put_node i n' s)"
  using assms by (simp add: sys_ok_def)


lemma sys_step_ok:
  assumes step: "sys_step s (i, e) s'" and ok: "sys_ok configs s" and safe: "safe_event (sys_node s i) e"
  shows "sys_ok configs s'"
  using step
proof cases
  case (elect tasks n')
  then have "in_cluster configs i" using sys_okD(5) [OF ok] by simp
  note n = sys_okD(1) [OF ok this]
  then have inv: "node_inv (sys_node s i)" "rn_my_id (sys_node s i) = i" "rn_configs (sys_node s i) = configs" by (simp_all add: node_in_def)
  from elect(4) obtain current "now" et ct where
    "rn_current_term (sys_node s i) < 2 ^ 31 - 1" "election_round current now et ct (sys_node s i) = Some (tasks, n')" by cases auto
  note st = elect_step [OF inv(1) this]
  then have "node_in configs (granted s) i n'" using n node_in_elect [OF n, of n'] by (auto simp: nodes_def)
  note put = sys_ok_put [OF ok this]
  have "in_cluster configs j \<and> i \<noteq> j \<and> rv_candidateId args = i" if "SendRequestVote j args \<in> set tasks" for j args
    using st that inv(2,3) by (auto simp: others_def nodes_def in_cluster_def vote_args_def)
  then show ?thesis using put \<open>in_cluster configs i\<close> unfolding elect(2) by (auto simp: sys_ok_def)
next
  case (vote j args r n')
  note rq = sys_okD(2) [OF ok vote(3)]
  note n = sys_okD(1) [OF ok, of i]
  then have inv: "node_inv (sys_node s i)" using rq by (simp add: node_in_def)
  from vote(4) obtain "now" where
    "in_int (rv_term args)" "in_int (rv_candidateId args)" "request_vote now (sys_node s i) args = Some (r, n')" by cases auto
  note st = vote_step [OF inv this]
  let ?G = "with_vote (granted s) j i (rv_term args)"
  show ?thesis
  proof (cases "grants (sys_node s i) args")
    case True
    have i: "in_cluster configs i" and j: "j \<noteq> i" "0 \<le> j" "rv_candidateId args = j" using rq by (auto simp: in_cluster_def)
    from st True have g: "rvr_voteGranted r" and v: "node_inv n'" "same_place (sys_node s i) n'" "rn_current_term n' = rv_term args"
      "rn_votedFor n' = j" "rn_current_term (sys_node s i) \<le> rv_term args"
      "rn_current_term (sys_node s i) < rv_term args \<and> rn_role n' = Follower \<or>
       rn_current_term (sys_node s i) = rv_term args \<and> rn_votedFor (sys_node s i) \<in> {- 1, j} \<and> rn_role n' = rn_role (sys_node s i) \<and>
         rn_votesFrom n' = rn_votesFrom (sys_node s i) \<and> rn_votesGot n' = rn_votesGot (sys_node s i)" unfolding j(3) by simp_all
    note v = node_in_vote [OF n [OF i] v j(1,2)]
    have "node_in configs ?G m (sys_node s m)" if "in_cluster configs m" "m \<noteq> i" for m
      using node_in_others [OF sys_okD(1) [OF ok that(1)] that(2)] .
    moreover have "c = c'" if "?G c k t" "?G c' k t" for c c' k t
      using that v(2) sys_okD(4) [OF ok] unfolding with_vote_def by blast
    ultimately show ?thesis using ok rq g v(1) unfolding vote(2) by (auto simp: sys_ok_def)
  next
    case False
    with st have "node_inv n'" "vote_kept (sys_node s i) n'" "\<not> rvr_voteGranted r" by (auto simp: vote_kept_def)
    moreover from this have "node_in configs (granted s) i n'" using n rq node_in_kept by blast
    ultimately show ?thesis using sys_ok_put [OF ok] rq unfolding vote(2) by (auto simp: sys_ok_def)
  qed
next
  case (reply j args r n')
  note rp = sys_okD(3) [OF ok reply(3)]
  note n = sys_okD(1) [OF ok, of i]
  then have inv: "node_inv (sys_node s i)" "nodes (sys_node s i) = length configs" using rp by (simp_all add: node_in_def nodes_def)
  from reply(4) have "0 \<le> j" "j < int (nodes (sys_node s i))" "in_int (rvr_term r)" "le_index (last (rn_log (sys_node s i))) < 2 ^ 31 - 1"
    "handle_request_vote_reply (sys_node s i) j args r = Some n'" by (cases; simp)+
  note st = vote_reply_step [OF inv(1) this] and j = this(1,2)
  consider "vote_kept (sys_node s i) n'" | "rvr_term r \<le> rn_current_term (sys_node s i)" "rn_role (sys_node s i) = Candidate" "rvr_voteGranted r"
      "\<not> rn_votesFrom (sys_node s i) ! nat j" "n' = elected_node (sys_node s i) j"
    using st by (auto simp: vote_kept_def same_vote_def)
  then have "node_in configs (granted s) i n'"
  proof cases
    case 1
    then show ?thesis using node_in_kept n rp st by blast
  next
    case 2
    then have "granted s i j (rn_current_term (sys_node s i))" using reply(1,3) safe by (auto simp: granted_def)
    with 2 st j n rp node_in_reply show ?thesis by blast
  qed
  then show ?thesis using sys_ok_put [OF ok] unfolding reply(2) by simp
next
  case (other n')
  then have "in_cluster configs i" using sys_okD(5) [OF ok] by simp
  note n = sys_okD(1) [OF ok this]
  then have "node_inv (sys_node s i)" by (simp add: node_in_def)
  from node_step_ok [OF other(4) this] other(3) safe node_in_kept [OF n] sys_ok_put [OF ok] show ?thesis unfolding other(1) by blast
qed


section \<open>Election safety\<close>

text \<open>What a step does to a vote: it stays unless the node is a candidate, or the term is left behind, or a vote is granted.\<close>

definition vote_stays :: "raft_node \<Rightarrow> raft_node \<Rightarrow> bool" where
  "vote_stays n n' \<longleftrightarrow> rn_current_term n < rn_current_term n' \<or>
     rn_current_term n' = rn_current_term n \<and> (rn_role n = Candidate \<or> rn_role n' \<noteq> Candidate \<and> rn_votedFor n' = rn_votedFor n)"

definition votes_for :: "raft_node \<Rightarrow> raft_node \<Rightarrow> int \<Rightarrow> int \<Rightarrow> bool" where
  "votes_for n n' j t \<longleftrightarrow> rn_current_term n' = t \<and> (rn_current_term n < t \<or> rn_current_term n = t \<and> rn_votedFor n \<in> {- 1, j})"

lemma vote_kept_stays: "vote_kept n n' \<Longrightarrow> vote_stays n n'"
  by (cases "rn_role n") (auto simp: vote_kept_def vote_stays_def same_vote_def later_term_def gives_up_def)

lemma sys_step_effect:
  assumes step: "sys_step s (m, e) s'" and ok: "sys_ok configs s" and safe: "safe_event (sys_node s m) e"
  shows "\<exists>n'. sys_node s' = (sys_node s)(m := n') \<and>
    (granted s' = granted s \<and> vote_stays (sys_node s m) n' \<or>
     (\<exists>j t. granted s' = with_vote (granted s) j m t \<and> j \<noteq> m \<and> 0 \<le> j \<and> votes_for (sys_node s m) n' j t))"
  using step
proof cases
  case (elect tasks n')
  then have "in_cluster configs m" using sys_okD(5) [OF ok] by simp
  then have inv: "node_inv (sys_node s m)" using sys_okD(1) [OF ok] by (simp add: node_in_def)
  from elect(4) obtain current "now" et ct where
    "rn_current_term (sys_node s m) < 2 ^ 31 - 1" "election_round current now et ct (sys_node s m) = Some (tasks, n')" by cases auto
  from elect_step [OF inv this] have "vote_stays (sys_node s m) n'" by (auto simp: vote_stays_def)
  then show ?thesis unfolding elect(2) by (intro exI [of _ n']) (simp add: fun_eq_iff)
next
  case (vote j args r n')
  note rq = sys_okD(2) [OF ok vote(3)]
  then have inv: "node_inv (sys_node s m)" using sys_okD(1) [OF ok] by (simp add: node_in_def)
  from vote(4) obtain "now" where
    "in_int (rv_term args)" "in_int (rv_candidateId args)" "request_vote now (sys_node s m) args = Some (r, n')" by cases auto
  note st = vote_step [OF inv this]
  show ?thesis
  proof (cases "grants (sys_node s m) args")
    case True
    with st rq have "rvr_voteGranted r" "votes_for (sys_node s m) n' j (rv_term args)" by (auto simp: votes_for_def)
    then show ?thesis using rq unfolding vote(2) in_cluster_def by (intro exI [of _ n']) (auto simp: fun_eq_iff)
  next
    case False
    with st have "\<not> rvr_voteGranted r" "vote_stays (sys_node s m) n'" using vote_kept_stays by (auto simp: vote_kept_def)
    then show ?thesis unfolding vote(2) by (intro exI [of _ n']) (simp add: fun_eq_iff)
  qed
next
  case (reply j args r n')
  then have inv: "node_inv (sys_node s m)" using sys_okD(1,3) [OF ok] by (auto simp: node_in_def)
  from reply(4) have "0 \<le> j" "j < int (nodes (sys_node s m))" "in_int (rvr_term r)" "le_index (last (rn_log (sys_node s m))) < 2 ^ 31 - 1"
    "handle_request_vote_reply (sys_node s m) j args r = Some n'" by (cases; simp)+
  from vote_reply_step [OF inv this] have "vote_stays (sys_node s m) n'"
    by (auto simp: vote_stays_def later_term_def elected_node_def counted_node_def leader_node_def Let_def)
  then show ?thesis unfolding reply(2) by (intro exI [of _ n']) (simp add: fun_eq_iff)
next
  case (other n')
  then have "in_cluster configs m" using sys_okD(5) [OF ok] by simp
  then have inv: "node_inv (sys_node s m)" using sys_okD(1) [OF ok] by (simp add: node_in_def)
  from node_step_ok(2) [OF other(4) inv other(3) safe] have "vote_stays (sys_node s m) n'" by (rule vote_kept_stays)
  then show ?thesis unfolding other(1) by (intro exI [of _ n']) (simp add: fun_eq_iff)
qed

text \<open>The vote of \<open>k\<close> in a term is for \<open>i\<close>, and will be: an answer says so, or \<open>i\<close> has been elected with its own vote.\<close>

definition own_vote :: "raft_system \<Rightarrow> int \<Rightarrow> int \<Rightarrow> bool" where
  "own_vote s t i \<longleftrightarrow> (t < rn_current_term (sys_node s i) \<or>
       rn_current_term (sys_node s i) = t \<and> rn_votedFor (sys_node s i) = i \<and> rn_role (sys_node s i) \<noteq> Candidate) \<and> (\<forall>c. granted s c i t \<longrightarrow> c = i)"

definition voted :: "raft_system \<Rightarrow> int \<Rightarrow> int \<Rightarrow> int \<Rightarrow> bool" where
  "voted s t k i \<longleftrightarrow> granted s i k t \<or> k = i \<and> own_vote s t i"

lemma own_vote_step:
  assumes "sys_step s (m, e) s'" "sys_ok configs s" "safe_event (sys_node s m) e" "own_vote s t i" "0 \<le> i"
  shows "own_vote s' t i"
proof -
  from sys_step_effect [OF assms(1-3)] obtain n' where n': "sys_node s' = (sys_node s)(m := n')"
    "granted s' = granted s \<and> vote_stays (sys_node s m) n' \<or>
     (\<exists>j t. granted s' = with_vote (granted s) j m t \<and> j \<noteq> m \<and> 0 \<le> j \<and> votes_for (sys_node s m) n' j t)" by blast
  have o: "t < rn_current_term (sys_node s i) \<or> rn_current_term (sys_node s i) = t \<and> rn_votedFor (sys_node s i) = i \<and> rn_role (sys_node s i) \<noteq> Candidate"
    "\<And>c. granted s c i t \<Longrightarrow> c = i" using assms(4) by (auto simp: own_vote_def)
  from n'(2) show ?thesis
  proof (elim disjE exE conjE)
    assume "granted s' = granted s" "vote_stays (sys_node s m) n'"
    then show ?thesis using o n'(1) by (auto simp: own_vote_def vote_stays_def)
  next
    fix j u
    assume v: "granted s' = with_vote (granted s) j m u" "j \<noteq> m" "0 \<le> j" "votes_for (sys_node s m) n' j u"
    show ?thesis
    proof (cases "m = i")
      case True
      then have "t < u" "rn_current_term n' = u" using o(1) v assms(5) by (auto simp: votes_for_def)
      then show ?thesis using v(1) o(2) n'(1) True by (auto simp: own_vote_def with_vote_def)
    next
      case False
      then show ?thesis using v(1) o n'(1) by (auto simp: own_vote_def with_vote_def)
    qed
  qed
qed

lemma voted_step:
  assumes "sys_step s (m, e) s'" "sys_ok configs s" "safe_event (sys_node s m) e" "voted s t k i" "0 \<le> i"
  shows "voted s' t k i"
proof -
  have "granted s' i k t" if "granted s i k t" using sys_step_effect [OF assms(1-3)] that by (auto simp: with_vote_def)
  then show ?thesis using own_vote_step [OF assms(1-3) _ assms(5)] assms(4) by (auto simp: voted_def)
qed

lemma safe_run_ok: "safe_run s s' \<Longrightarrow> sys_ok configs s \<Longrightarrow> sys_ok configs s' \<and> (\<forall>t k i. 0 \<le> i \<longrightarrow> voted s t k i \<longrightarrow> voted s' t k i)"
proof (induction rule: safe_run.induct)
  case (more s s' i e s'')
  then show ?case using sys_step_ok [OF more(2) _ more(3)] voted_step [OF more(2) _ more(3)] by blast
qed simp

lemma voted_unique: "sys_ok configs s \<Longrightarrow> voted s t k i \<Longrightarrow> voted s t k j \<Longrightarrow> i = j"
  using sys_okD(4) by (auto simp: voted_def own_vote_def)

lemma leader_voted:
  assumes ok: "sys_ok configs s" and i: "in_cluster configs i" "rn_role (sys_node s i) = Leader" and k: "k \<in> voters (sys_node s i)"
  shows "voted s (rn_current_term (sys_node s i)) (int k) i"
proof -
  have n: "candidature (granted s) i (sys_node s i)"
    "\<And>j. granted s j i (rn_current_term (sys_node s i)) \<Longrightarrow> rn_votedFor (sys_node s i) = j" using sys_okD(1) [OF ok i(1)] by (auto simp: node_in_def)
  then have "own_vote s (rn_current_term (sys_node s i)) i" using i(2) by (auto simp: own_vote_def candidature_def)
  then show ?thesis using n(1) i(2) k by (auto simp: voted_def candidature_def)
qed

lemma majorities_meet:
  assumes "A \<subseteq> {..< n}" "B \<subseteq> {..< n}" "n div 2 < card A" "n div 2 < card B"
  shows "A \<inter> B \<noteq> {}"
proof
  assume "A \<inter> B = {}"
  moreover have "finite A" "finite B" using assms(1,2) finite_subset by blast+
  ultimately have "card A + card B = card (A \<union> B)" by (simp add: card_Un_disjoint)
  also have "\<dots> \<le> n" using card_mono [of "{..< n}" "A \<union> B"] assms(1,2) by simp
  finally show False using assms(3,4) by linarith
qed

lemma one_leader:
  assumes "sys_ok configs s" "safe_run s s'" and i: "in_cluster configs i" "rn_role (sys_node s i) = Leader"
    and j: "in_cluster configs j" "rn_role (sys_node s' j) = Leader" and t: "rn_current_term (sys_node s' j) = rn_current_term (sys_node s i)"
  shows "i = j"
proof -
  from safe_run_ok [OF assms(2,1)] have ok': "sys_ok configs s'"
    and stay: "\<And>t k i. 0 \<le> i \<Longrightarrow> voted s t k i \<Longrightarrow> voted s' t k i" by auto
  let ?A = "voters (sys_node s i)" and ?B = "voters (sys_node s' j)"
  have "length configs div 2 < card ?A" "length configs div 2 < card ?B" "?A \<subseteq> {..< length configs}" "?B \<subseteq> {..< length configs}"
    using sys_okD(1) [OF assms(1) i(1)] sys_okD(1) [OF ok' j(1)] i(2) j(2)
    by (auto simp: node_in_def candidature_def majority_def nodes_def voters_def)
  then obtain k where k: "k \<in> ?A" "k \<in> ?B" using majorities_meet [of ?A _ ?B] by blast
  have "voted s' (rn_current_term (sys_node s i)) (int k) i"
    using stay leader_voted [OF assms(1) i k(1)] i(1) by (simp add: in_cluster_def)
  moreover have "voted s' (rn_current_term (sys_node s i)) (int k) j" using leader_voted [OF ok' j k(2)] t by simp
  ultimately show ?thesis by (rule voted_unique [OF ok'])
qed

lemma sys_init_ok: "sys_init configs s \<Longrightarrow> sys_ok configs s"
proof -
  assume init: "sys_init configs s"
  have "node_in configs (granted s) i (sys_node s i)" if i: "in_cluster configs i" for i
  proof -
    from init i obtain g "now" et ct where "raft_node_create g now et ct [] i configs = Some (sys_node s i)" by (auto simp: sys_init_def)
    from fresh_node_inv [OF this] i init show ?thesis by (auto simp: node_in_def candidature_def granted_def sys_init_def in_cluster_def)
  qed
  then show ?thesis using init by (simp add: sys_ok_def sys_init_def granted_def)
qed


section \<open>Runs\<close>

text \<open>A running node of a cluster that has no entries yet, and the steps of an election that it can take.\<close>

definition ready :: "raft_node_config list \<Rightarrow> int \<Rightarrow> raft_node \<Rightarrow> bool" where
  "ready configs i n \<longleftrightarrow> node_inv n \<and> rn_my_id n = i \<and> rn_configs n = configs \<and> rn_log n = [first_entry] \<and> \<not> is_stopped n"

definition ask :: "int \<Rightarrow> int \<Rightarrow> request_vote_args" where
  "ask i t = \<lparr>rv_term = t, rv_candidateId = i, rv_lastLogIndex = 0, rv_lastLogTerm = 0\<rparr>"

definition yes :: "int \<Rightarrow> request_vote_reply" where
  "yes t = \<lparr>rvr_term = t, rvr_voteGranted = True\<rparr>"

definition asks :: "raft_node_config list \<Rightarrow> int \<Rightarrow> int \<Rightarrow> raft_task list" where
  "asks configs i t = map (\<lambda>j. SendRequestVote j (ask i t)) (filter (\<lambda>j. j \<noteq> i) (map int [0..<length configs]))"

lemma start_exists:
  assumes "in_cluster configs i" "length configs < 2 ^ 31"
  obtains n n' where "raft_node_create (\<lambda>_. 0) 0 1 1 [] i configs = Some n" "raft_start n = Some n'" "ready configs i n'" "rn_role n' = Follower"
    "rn_current_term n' = 0"
proof -
  have "starts_from [] 0 (- 1) [first_entry] []" "log_ok [first_entry]" by (simp_all add: starts_from_def log_ok_def first_entry_def)
  from raft_node_create_ok [OF this, of i configs "\<lambda>_. 0" 0 1 1] assms obtain n where
    n: "raft_node_create (\<lambda>_. 0) 0 1 1 [] i configs = Some n" by (auto simp: in_cluster_def)
  note f = fresh_node_inv [OF n] 
  obtain m where s: "raft_start n = Some (n\<lparr>rn_stopped := False, rn_joinable := True, rn_clients := m\<rparr>)"
    using f(9) assms by (simp add: raft_start_def in_cluster_def)
  from node_step_ok(1) [OF node_step.start [OF s]] f assms show thesis
    by (intro that [OF n s]) (simp_all add: ready_def is_stopped_def in_cluster_def)
qed

lemma elect_exists:
  assumes r: "ready configs i n" "rn_role n \<noteq> Leader" "rn_current_term n < 2 ^ 31 - 1"
  obtains n' where "node_step n (Elect (asks configs i (rn_current_term n + 1))) n'" "ready configs i n'" "rn_role n' = Candidate"
    "rn_current_term n' = rn_current_term n + 1" "rn_votesGot n' = 1" "rn_votesFrom n' = (replicate (length configs) False)[nat i := True]"
proof -
  have n: "node_inv n" "rn_my_id n = i" "rn_configs n = configs" "rn_log n = [first_entry]" "\<not> is_stopped n" using r(1) by (simp_all add: ready_def)
  let ?now = "rn_lastRPC n + max (rn_electionTimeout n) (rn_candidateTimeout n) + 1"
  have ok: "node_ok n" using n(1) by (simp add: node_inv_def)
  from start_election_ok [OF ok r(3), of 0 1 1] obtain n' st where
    e: "start_election 0 1 1 n = Some (map (\<lambda>j. SendRequestVote j (vote_args n)) (others n), n')" and
    n': "n' = (candidate_node n)\<lparr>rn_storage := st, rn_electionTimeout := 1, rn_candidateTimeout := 1, rn_leader_id := - 1, rn_lastRPC := 0\<rparr>" by auto
  have "map (\<lambda>j. SendRequestVote j (vote_args n)) (others n) = asks configs i (rn_current_term n + 1)"
    by (simp add: asks_def others_def nodes_def vote_args_def ask_def n first_entry_def)
  with e n(5) r(2) have "election_round ?now 0 1 1 n = Some (asks configs i (rn_current_term n + 1), n')"
    by (cases "rn_role n") (simp_all add: election_round_def)
  then have "node_step n (Elect (asks configs i (rn_current_term n + 1))) n'" using r(3) by (intro node_step.elect)
  moreover from node_step_ok(1) [OF this n(1)] have "ready configs i n'" using n by (simp add: ready_def n' candidate_node_def is_stopped_def)
  ultimately show thesis using that n by (simp add: n' candidate_node_def nodes_def)
qed

lemma vote_exists:
  assumes r: "ready configs i n" "rn_current_term n < t" "in_int t" "in_int j"
  obtains n' where "node_step n (Vote (ask j t) (yes t)) n'" "ready configs i n'" "rn_role n' = Follower" "rn_current_term n' = t"
proof -
  have n: "node_inv n" "rn_my_id n = i" "rn_configs n = configs" "rn_log n = [first_entry]" "\<not> is_stopped n" using r(1) by (simp_all add: ready_def)
  have ok: "node_ok n" using n(1) by (simp add: node_inv_def)
  have g: "grants n (ask j t)" using r(2) n(4) by (simp add: grants_def ask_def up_to_date_def first_entry_def)
  from request_vote_ok [OF ok, of "ask j t" 0] r g obtain n' st where
    v: "request_vote 0 n (ask j t) = Some (yes t, n')" and n': "n' = (voted_node 0 n (ask j t))\<lparr>rn_storage := st\<rparr>"
    by (auto simp: ask_def yes_def)
  have s: "node_step n (Vote (ask j t) (yes t)) n'" using v r(3,4) by (intro node_step.vote [of _ 0]) (simp_all add: ask_def)
  moreover have "ready configs i n'" using node_step_ok(1) [OF s n(1)] n by (simp add: ready_def n' voted_node_def Let_def step_down_def is_stopped_def)
  ultimately show thesis using that r(2) by (simp add: n' voted_node_def Let_def step_down_def ask_def)
qed

lemma reply_exists:
  assumes r: "ready configs i n" "rn_role n = Candidate" "t \<le> rn_current_term n" "in_int t" "\<not> rn_votesFrom n ! nat k"
    "in_cluster configs k" "majority n (rn_votesGot n + 1)"
  obtains n' where "node_step n (VoteReply k args (yes t)) n'" "ready configs i n'" "rn_role n' = Leader" "rn_current_term n' = rn_current_term n"
proof -
  have n: "node_inv n" "rn_my_id n = i" "rn_configs n = configs" "rn_log n = [first_entry]" "\<not> is_stopped n" using r(1) by (simp_all add: ready_def)
  have ok: "node_ok n" using n(1) by (simp add: node_inv_def)
  have k: "0 \<le> k" "k < int (nodes n)" using r(6) n(3) by (simp_all add: in_cluster_def nodes_def)
  have b: "le_index (last (rn_log n)) < 2 ^ 31 - 1" using n(4) by (simp add: first_entry_def)
  have "handle_request_vote_reply n k args (yes t) = Some (elected_node n k)"
    using vote_reply_fresh [OF ok k b, of "yes t" args] r by (simp add: yes_def)
  then have s: "node_step n (VoteReply k args (yes t)) (elected_node n k)" using k b r(4) by (intro node_step.vote_reply) (simp_all add: yes_def)
  moreover have f: "elected_node n k = leader_node (counted_node n k)" using r(7)
    by (simp add: elected_node_def Let_def majority_def counted_node_def nodes_def)
  moreover have "ready configs i (elected_node n k)"
    using node_step_ok(1) [OF s n(1)] n by (simp add: ready_def f leader_node_def counted_node_def is_stopped_def)
  ultimately show thesis using that by (simp add: leader_node_def counted_node_def)
qed

lemma safe_run_sys_run: "safe_run s s' \<Longrightarrow> sys_run s s'"
  by (induction rule: safe_run.induct) (auto intro: sys_run.intros)


text \<open>The same steps of a cluster, with the messages.\<close>

definition running :: "raft_node_config list \<Rightarrow> raft_system \<Rightarrow> bool" where
  "running configs s \<longleftrightarrow> sys_configs s = configs \<and> (\<forall>i. in_cluster configs i \<longrightarrow> ready configs i (sys_node s i))"

lemma in_cluster_int: "in_cluster configs i \<Longrightarrow> length configs < 2 ^ 31 \<Longrightarrow> in_int i"
  by (auto simp: in_cluster_def in_int_def)

lemma sys_elect:
  assumes "running configs s" "in_cluster configs i" "rn_role (sys_node s i) \<noteq> Leader" "rn_current_term (sys_node s i) = t" "t < 2 ^ 31 - 1"
  shows "\<exists>s' n'. sys_step s (i, Elect (asks configs i (t + 1))) s' \<and>
    running configs s' \<and>
    sys_node s' = (sys_node s)(i := n') \<and>
    rn_role n' = Candidate \<and>
    rn_current_term n' = t + 1 \<and>
    rn_votesGot n' = 1 \<and>
    rn_votesFrom n' = (replicate (length configs) False)[nat i := True] \<and>
    (\<forall>j. in_cluster configs j \<and> j \<noteq> i \<longrightarrow> (i, j, ask i (t + 1)) \<in> sys_requests s') \<and>
    sys_replies s' = sys_replies s"
proof -
  have c: "sys_configs s = configs" "ready configs i (sys_node s i)" using assms(1,2) by (simp_all add: running_def)
  from elect_exists [OF c(2) assms(3)] assms(4,5) obtain n' where
    n': "node_step (sys_node s i) (Elect (asks configs i (t + 1))) n'" "ready configs i n'" "rn_role n' = Candidate"
      "rn_current_term n' = t + 1" "rn_votesGot n' = 1" "rn_votesFrom n' = (replicate (length configs) False)[nat i := True]" by metis
  have e: "{(i, j, args) | j args. SendRequestVote j args \<in> set (asks configs i (t + 1))} = {(i, j, ask i (t + 1)) | j. in_cluster configs j \<and> j \<noteq> i}"
    by (auto simp: asks_def in_cluster_def image_iff Bex_def) (metis nat_int int_nat_eq nat_less_iff)
  let ?s = "(put_node i n' s)\<lparr>sys_requests := sys_requests s \<union> {(i, j, ask i (t + 1)) | j. in_cluster configs j \<and> j \<noteq> i}\<rparr>"
  have "sys_step s (i, Elect (asks configs i (t + 1))) ?s" using sys_step.elect [OF _ n'(1)] assms(2) c(1) unfolding e by simp
  moreover have "running configs ?s" using assms(1) n'(2) by (simp add: running_def)
  ultimately show ?thesis using n' by (intro exI [of _ ?s] exI [of _ n']) (simp add: fun_eq_iff)
qed

lemma sys_vote:
  assumes "running configs s" "length configs < 2 ^ 31" "in_cluster configs i" "in_cluster configs j" "(j, i, ask j t) \<in> sys_requests s"
    "rn_current_term (sys_node s i) < t" "in_int t"
  shows "\<exists>s' n'. sys_step s (i, Vote (ask j t) (yes t)) s' \<and>
    running configs s' \<and>
    sys_node s' = (sys_node s)(i := n') \<and>
    rn_role n' = Follower \<and>
    rn_current_term n' = t \<and>
    sys_requests s' = sys_requests s \<and>
    sys_replies s' = insert (j, i, ask j t, yes t) (sys_replies s)"
proof -
  have c: "sys_configs s = configs" "ready configs i (sys_node s i)" using assms(1,3) by (simp_all add: running_def)
  obtain n' where n': "node_step (sys_node s i) (Vote (ask j t) (yes t)) n'" "ready configs i n'" "rn_role n' = Follower" "rn_current_term n' = t"
    using vote_exists [OF c(2) assms(6,7) in_cluster_int [OF assms(4,2)]] by metis
  let ?s = "(put_node i n' s)\<lparr>sys_replies := insert (j, i, ask j t, yes t) (sys_replies s)\<rparr>"
  have "sys_step s (i, Vote (ask j t) (yes t)) ?s" using sys_step.vote [OF assms(5) n'(1)] .
  moreover have "running configs ?s" using assms(1) n'(2) by (simp add: running_def)
  ultimately show ?thesis using n' by (intro exI [of _ ?s] exI [of _ n']) (simp add: fun_eq_iff)
qed

lemma sys_reply:
  assumes "running configs s" "in_cluster configs i" "in_cluster configs k" "(i, k, ask i t, yes t) \<in> sys_replies s" "in_int t"
    "rn_role (sys_node s i) = Candidate" "t \<le> rn_current_term (sys_node s i)" "\<not> rn_votesFrom (sys_node s i) ! nat k"
    "majority (sys_node s i) (rn_votesGot (sys_node s i) + 1)"
  shows "\<exists>s' n'. sys_step s (i, VoteReply k (ask i t) (yes t)) s' \<and>
    running configs s' \<and>
    sys_node s' = (sys_node s)(i := n') \<and>
    rn_role n' = Leader \<and>
    rn_current_term n' = rn_current_term (sys_node s i) \<and>
    sys_requests s' = sys_requests s \<and>
    sys_replies s' = sys_replies s"
proof -
  have c: "sys_configs s = configs" "ready configs i (sys_node s i)" using assms(1,2) by (simp_all add: running_def)
  obtain n' where n': "node_step (sys_node s i) (VoteReply k (ask i t) (yes t)) n'" "ready configs i n'" "rn_role n' = Leader"
      "rn_current_term n' = rn_current_term (sys_node s i)"
    using reply_exists [OF c(2) assms(6,7,5,8,3,9)] by metis
  have "sys_step s (i, VoteReply k (ask i t) (yes t)) (put_node i n' s)" using sys_step.reply [OF assms(4) n'(1)] .
  moreover have "running configs (put_node i n' s)" using assms(1) n'(2) by (simp add: running_def)
  ultimately show ?thesis using n' by (intro exI [of _ "put_node i n' s"] exI [of _ n']) (simp add: fun_eq_iff)
qed

definition three_nodes :: "raft_node_config list" where
  "three_nodes = [\<lparr>nc_node_id = 0, nc_port = 8080, nc_ip_address = ''127.0.0.1''\<rparr>, \<lparr>nc_node_id = 1, nc_port = 8081, nc_ip_address = ''127.0.0.1''\<rparr>,
     \<lparr>nc_node_id = 2, nc_port = 8082, nc_ip_address = ''127.0.0.1''\<rparr>]"

lemma in_three: "in_cluster three_nodes i \<longleftrightarrow> i = 0 \<or> i = 1 \<or> i = 2"
  by (auto simp: in_cluster_def three_nodes_def)

lemma three_started:
  obtains s0 s where "sys_init three_nodes s0" "safe_run s0 s" "running three_nodes s" "sys_requests s = {}" "sys_replies s = {}"
    "\<And>i. in_cluster three_nodes i \<Longrightarrow> rn_role (sys_node s i) = Follower \<and> rn_current_term (sys_node s i) = 0"
proof -
  have len: "length three_nodes < 2 ^ 31" by (simp add: three_nodes_def)
  have "\<forall>i. \<exists>n n'. in_cluster three_nodes i \<longrightarrow> raft_node_create (\<lambda>_. 0) 0 1 1 [] i three_nodes = Some n \<and> raft_start n = Some n' \<and>
      ready three_nodes i n' \<and> rn_role n' = Follower \<and> rn_current_term n' = 0" using start_exists [OF _ len] by metis
  then obtain f f' where f: "\<And>i. in_cluster three_nodes i \<Longrightarrow> raft_node_create (\<lambda>_. 0) 0 1 1 [] i three_nodes = Some (f i) \<and> raft_start (f i) = Some (f' i) \<and>
      ready three_nodes i (f' i) \<and> rn_role (f' i) = Follower \<and> rn_current_term (f' i) = 0" by metis
  let ?s0 = "\<lparr>sys_configs = three_nodes, sys_node = f, sys_requests = {}, sys_replies = {}\<rparr>"
  let ?s3 = "put_node 2 (f' 2) (put_node 1 (f' 1) (put_node 0 (f' 0) ?s0))"
  have go: "safe_run ?s0 s \<Longrightarrow> sys_configs s = three_nodes \<Longrightarrow> sys_node s i = f i \<Longrightarrow> in_cluster three_nodes i \<Longrightarrow>
      safe_run ?s0 (put_node i (f' i) s)" for s i
    using safe_run.more [OF _ sys_step.other [of s i Start "f' i"]] node_step.start [of "f i"] f by simp
  have "safe_run ?s0 ?s3" by (intro go safe_run.idle) (simp_all add: in_three)
  moreover have "sys_init three_nodes ?s0" using f len unfolding sys_init_def by simp blast
  moreover have "running three_nodes ?s3" using f by (simp add: running_def in_three)
  moreover have "rn_role (sys_node ?s3 i) = Follower \<and> rn_current_term (sys_node ?s3 i) = 0" if "in_cluster three_nodes i" for i
    using f [OF that] that by (auto simp: in_three)
  ultimately show thesis by (intro that [of ?s0 ?s3]) (simp_all del: put_fields(4))
qed


lemma safe_moreI: "sys_step s (i, e) s' \<Longrightarrow> safe_run s0 s \<Longrightarrow> safe_event (sys_node s i) e \<Longrightarrow> safe_run s0 s'"
  by (rule safe_run.more)

lemma one_elected:
  obtains s0 s where "sys_init three_nodes s0" "safe_run s0 s" "rn_role (sys_node s 0) = Leader" "rn_current_term (sys_node s 0) = 1"
proof -
  have len: "length three_nodes = 3" by (simp add: three_nodes_def)
  from three_started obtain s0 s1 where s1: "sys_init three_nodes s0" "safe_run s0 s1" "running three_nodes s1" "sys_replies s1 = {}"
    "\<And>i. in_cluster three_nodes i \<Longrightarrow> rn_role (sys_node s1 i) = Follower \<and> rn_current_term (sys_node s1 i) = 0" by metis
  have r1: "rn_role (sys_node s1 0) \<noteq> Leader" "rn_current_term (sys_node s1 0) = 0" "rn_current_term (sys_node s1 1) = 0"
    using s1(5) by (simp_all add: in_three)
  from sys_elect [OF s1(3) _ r1(1,2)] obtain s2 n0 where
    s2: "sys_step s1 (0, Elect (asks three_nodes 0 1)) s2" "running three_nodes s2" "sys_node s2 = (sys_node s1)(0 := n0)" "rn_role n0 = Candidate"
      "rn_current_term n0 = 1" "rn_votesGot n0 = 1" "rn_votesFrom n0 = (replicate 3 False)[0 := True]" "(0, 1, ask 0 1) \<in> sys_requests s2"
    by (auto simp: in_three len)
  from sys_vote [OF s2(2) _ _ _ s2(8)] r1(3) obtain s3 n1 where
    s3: "sys_step s2 (1, Vote (ask 0 1) (yes 1)) s3" "running three_nodes s3" "sys_node s3 = (sys_node s2)(1 := n1)"
      "(0, 1, ask 0 1, yes 1) \<in> sys_replies s3" by (auto simp: in_three len s2(3) in_int_def)
  have n0: "sys_node s3 0 = n0" by (simp add: s2(3) s3(3))
  have "nodes n0 = 3" using s3(2) n0 by (auto simp: running_def ready_def in_three nodes_def len)
  then have "majority n0 2" by (simp add: majority_def)
  with sys_reply [OF s3(2) _ _ s3(4)] s2(4-7) obtain s4 n0' where
    s4: "sys_step s3 (0, VoteReply 1 (ask 0 1) (yes 1)) s4" "sys_node s4 = (sys_node s3)(0 := n0')" "rn_role n0' = Leader" "rn_current_term n0' = 1"
    by (auto simp: in_three n0 in_int_def)
  have "safe_run s0 s2" using safe_moreI [OF s2(1) s1(2)] by simp
  then have "safe_run s0 s3" using safe_moreI [OF s3(1)] by simp
  then have "safe_run s0 s4" using safe_moreI [OF s4(1)] by (simp add: n0 s2(5) ask_def)
  then show thesis using that [OF s1(1)] s4(2-4) by simp
qed

text \<open>C4. A cluster elects at most one leader per term: if node \<open>i\<close> leads a term at some point of a run from the
  start and node \<open>j\<close> leads the same term later, they are the same node. Messages are lost, repeated,
  delayed and reordered at will and nodes stop and restart from their disk; the run contains no vote
  for an election that is over and no answer to a request for entries that carries a larger term.
\<close>

theorem raft_election_safety:
  assumes "sys_init configs s0" "safe_run s0 s" "safe_run s s'" "in_cluster configs i" "in_cluster configs j"
    and "rn_role (sys_node s i) = Leader" "rn_role (sys_node s' j) = Leader" "rn_current_term (sys_node s' j) = rn_current_term (sys_node s i)"
  shows "i = j"
  using one_leader [OF _ assms(3,4,6,5,7,8)] safe_run_ok [OF assms(2) sys_init_ok [OF assms(1)]] by blast

theorem raft_election_safety_witness:
  "\<exists>s0 s. sys_init three_nodes s0 \<and> safe_run s0 s \<and> rn_role (sys_node s 0) = Leader \<and> rn_current_term (sys_node s 0) = 1 \<and>
    \<not> (\<exists>s'. safe_run s s' \<and> rn_role (sys_node s' 2) = Leader \<and> rn_current_term (sys_node s' 2) = 1)"
proof -
  obtain s0 s where s: "sys_init three_nodes s0" "safe_run s0 s" "rn_role (sys_node s 0) = Leader" "rn_current_term (sys_node s 0) = 1"
    by (rule one_elected)
  have "\<not> (safe_run s s' \<and> rn_role (sys_node s' 2) = Leader \<and> rn_current_term (sys_node s' 2) = 1)" for s'
    using raft_election_safety [OF s(1,2), of s' 0 2] s(3,4) by (auto simp: in_three)
  with s show ?thesis by blast
qed

text \<open>C18. Votes are counted for whatever election is going on: a node that runs for term 1 and then for term 2
  counts, once it is in term 2, the vote that another node has given it in term 1. In a cluster of three
  this makes it a leader of term 2 beside the node that the voter has voted for in term 2.
\<close>

theorem stale_vote_elects_second_leader:
  "\<exists>s0 s. sys_init three_nodes s0 \<and> sys_run s0 s \<and> rn_role (sys_node s 0) = Leader \<and> rn_role (sys_node s 2) = Leader \<and>
    rn_current_term (sys_node s 0) = 2 \<and> rn_current_term (sys_node s 2) = 2"
proof -
  have len: "length three_nodes = 3" by (simp add: three_nodes_def)
  note r = safe_run_sys_run sys_run.more
  from three_started obtain s0 s1 where s1: "sys_init three_nodes s0" "sys_run s0 s1" "running three_nodes s1"
    "\<And>i. in_cluster three_nodes i \<Longrightarrow> rn_role (sys_node s1 i) = Follower \<and> rn_current_term (sys_node s1 i) = 0" using r(1) by metis
  have r1: "rn_role (sys_node s1 i) \<noteq> Leader" "rn_current_term (sys_node s1 i) = 0" if "in_cluster three_nodes i" for i using s1(4) [OF that] by simp_all
  from sys_elect [OF s1(3) _ r1(1,2), of 0] obtain s2 n0 where
    s2: "sys_step s1 (0, Elect (asks three_nodes 0 1)) s2" "running three_nodes s2" "sys_node s2 = (sys_node s1)(0 := n0)" "rn_role n0 = Candidate"
      "rn_current_term n0 = 1" "(0, 1, ask 0 1) \<in> sys_requests s2" by (auto simp: in_three)
  from sys_vote [OF s2(2) _ _ _ s2(6)] r1(2) [of 1] obtain s3 n1 where
    s3: "sys_step s2 (1, Vote (ask 0 1) (yes 1)) s3" "running three_nodes s3" "sys_node s3 = (sys_node s2)(1 := n1)" "rn_current_term n1 = 1"
      "(0, 1, ask 0 1, yes 1) \<in> sys_replies s3" by (auto simp: in_three len s2(3) in_int_def)
  from sys_elect [OF s3(2), of 0 1] s2(3-5) s3(3) obtain s4 n0' where
    s4: "sys_step s3 (0, Elect (asks three_nodes 0 2)) s4" "running three_nodes s4" "sys_node s4 = (sys_node s3)(0 := n0')" "rn_role n0' = Candidate"
      "rn_current_term n0' = 2" "rn_votesGot n0' = 1" "rn_votesFrom n0' = (replicate 3 False)[0 := True]" "sys_replies s4 = sys_replies s3"
    by (auto simp: in_three len)
  from sys_elect [OF s4(2), of 2 0] s2(3) s3(3) s4(3) r1 [of 2] obtain s5 n2 where
    s5: "sys_step s4 (2, Elect (asks three_nodes 2 1)) s5" "running three_nodes s5" "sys_node s5 = (sys_node s4)(2 := n2)" "rn_role n2 = Candidate"
      "rn_current_term n2 = 1" "sys_replies s5 = sys_replies s4" by (auto simp: in_three)
  from sys_elect [OF s5(2), of 2 1] s5(3-5) obtain s6 n2' where
    s6: "sys_step s5 (2, Elect (asks three_nodes 2 2)) s6" "running three_nodes s6" "sys_node s6 = (sys_node s5)(2 := n2')" "rn_role n2' = Candidate"
      "rn_current_term n2' = 2" "rn_votesGot n2' = 1" "rn_votesFrom n2' = (replicate 3 False)[2 := True]" "(2, 1, ask 2 2) \<in> sys_requests s6"
      "sys_replies s6 = sys_replies s5" by (auto simp: in_three len)
  have f6: "sys_node s6 0 = n0'" "sys_node s6 1 = n1" "sys_node s6 2 = n2'" by (simp_all add: s3(3) s4(3) s5(3) s6(3))
  from sys_vote [OF s6(2) _ _ _ s6(8)] s3(4) f6(2) obtain s7 n1' where
    s7: "sys_step s6 (1, Vote (ask 2 2) (yes 2)) s7" "running three_nodes s7" "sys_node s7 = (sys_node s6)(1 := n1')"
      "sys_replies s7 = insert (2, 1, ask 2 2, yes 2) (sys_replies s6)" by (auto simp: in_three len in_int_def)
  have f7: "sys_node s7 0 = n0'" "sys_node s7 2 = n2'" by (simp_all add: f6 s7(3))
  have "nodes n0' = 3" "nodes n2' = 3" using s7(2) f7 by (auto simp: running_def ready_def in_three nodes_def len)
  then have m: "majority n0' 2" "majority n2' 2" by (simp_all add: majority_def)
  have p7: "(2, 1, ask 2 2, yes 2) \<in> sys_replies s7" by (simp add: s7(4))
  from sys_reply [OF s7(2) _ _ p7] m(2) s6(4-7) obtain s8 n2'' where
    s8: "sys_step s7 (2, VoteReply 1 (ask 2 2) (yes 2)) s8" "running three_nodes s8" "sys_node s8 = (sys_node s7)(2 := n2'')" "rn_role n2'' = Leader"
      "rn_current_term n2'' = 2" "sys_replies s8 = sys_replies s7" by (auto simp: in_three f7 in_int_def)
  have p8: "(0, 1, ask 0 1, yes 1) \<in> sys_replies s8" using s3(5) by (simp add: s8(6) s7(4) s6(9) s5(6) s4(8))
  have f8: "sys_node s8 0 = n0'" by (simp add: s8(3) f7(1))
  from sys_reply [OF s8(2) _ _ p8] m(1) s4(4-7) obtain s9 n0'' where
    s9: "sys_step s8 (0, VoteReply 1 (ask 0 1) (yes 1)) s9" "sys_node s9 = (sys_node s8)(0 := n0'')" "rn_role n0'' = Leader" "rn_current_term n0'' = 2"
    by (auto simp: in_three f8 in_int_def)
  have "sys_run s0 s9" using s1(2) s2(1) s3(1) s4(1) s5(1) s6(1) s7(1) s8(1) s9(1) r(2) by metis
  then show ?thesis using s1(1) s8(3-5) s9(2-4) by (intro exI [of _ s0] exI [of _ s9]) simp
qed

end
