(* ===== verification/Raft_Properties.thy ===== *)
theory Raft_Properties
  imports Raft_Election
begin

text \<open>
  What a Raft node does between its start and a crash: the invariant of every run, recovery from disk,
  the entries that a request of a leader leaves in the log of a follower, the entries that a leader
  commits, and the request that cuts off committed entries.
\<close>

section \<open>Every run of a node\<close>

lemma created_state:
  assumes "raft_node_create g now et ct file me configs = Some n"
  shows "rn_lastApplied n = le_index (hd (rn_log n))" "rn_commitIndex n = le_index (hd (rn_log n))"
    "rn_state n = (if rn_snapshot n \<noteq> [] then apply_snapshot g (g 0) list_state_machine_create (rn_snapshot n) else list_state_machine_create)"
  using assms by (auto simp: raft_node_create_def Let_def front_of_def split: Option.bind_splits if_splits)

text \<open>Runs of the first steps of a node, for the examples below.\<close>

lemma fresh_run:
  assumes "in_cluster configs i" "length configs < 2 ^ 31"
  obtains n0 n where "raft_node_create (\<lambda>_. 0) 0 1 1 [] i configs = Some n0" "node_run n0 [Start] n" "ready configs i n"
    "rn_role n = Follower" "rn_current_term n = 0" "rn_commitIndex n = 0" "rn_lastApplied n = 0" "rn_state n = list_state_machine_create"
proof -
  obtain n0 n where n0: "raft_node_create (\<lambda>_. 0) 0 1 1 [] i configs = Some n0" "ready configs i n" "rn_role n = Follower" "rn_current_term n = 0"
    "raft_start n0 = Some n" using start_exists [OF assms] by metis
  have "node_run n0 ([] @ [Start]) n" by (rule node_run.more [OF node_run.idle node_step.start [OF n0(5)]])
  moreover have "rn_log n0 = rn_log n" "rn_commitIndex n = rn_commitIndex n0" "rn_lastApplied n = rn_lastApplied n0" "rn_state n = rn_state n0"
    using n0(5) by (auto simp: raft_start_def chfs_assert_def split: if_splits)
  moreover note created_state [OF n0(1)]
  moreover have "rn_snapshot n0 = []" using fresh_node_inv(8) [OF n0(1)] assms by (simp add: in_cluster_def)
  moreover have "rn_log n = [first_entry]" using n0(2) by (simp add: ready_def)
  ultimately show thesis using that [OF n0(1) _ n0(2-4)] by (simp add: first_entry_def)
qed

lemma candidate_run:
  obtains n0 n where "raft_node_create (\<lambda>_. 0) 0 1 1 [] 0 three_nodes = Some n0" "node_run n0 [Start, Elect (asks three_nodes 0 1)] n"
    "ready three_nodes 0 n" "rn_role n = Candidate" "rn_current_term n = 1" "rn_votesGot n = 1" "rn_votesFrom n = [True, False, False]"
proof -
  have c: "in_cluster three_nodes 0" "length three_nodes < 2 ^ 31" "length three_nodes = 3" by (simp_all add: in_cluster_def three_nodes_def)
  obtain n0 n where n: "raft_node_create (\<lambda>_. 0) 0 1 1 [] 0 three_nodes = Some n0" "node_run n0 [Start] n" "ready three_nodes 0 n"
    "rn_role n = Follower" "rn_current_term n = 0" using fresh_run [OF c(1,2)] by metis
  obtain n' where n': "node_step n (Elect (asks three_nodes 0 1)) n'" "ready three_nodes 0 n'" "rn_role n' = Candidate" "rn_current_term n' = 1"
    "rn_votesGot n' = 1" "rn_votesFrom n' = (replicate 3 False)[0 := True]"
    using elect_exists [OF n(3)] n(4,5) c(3) by auto
  show thesis using that [OF n(1) _ n'(2-5)] node_run.more [OF n(2) n'(1)] n'(6) by (simp add: numeral_eq_Suc)
qed



text \<open>C6. A node that crashes after any run comes up again from the file of its device with the term, the vote, the
  log and the snapshot that it had, as a follower, whatever its uninitialised variables hold.
\<close>

theorem raft_restart_recovers:
  assumes "raft_node_create g now et ct [] me configs = Some n0" "0 \<le> me" "me < int (length configs)" "length configs < 2 ^ 31" "node_run n0 es n"
  shows "\<exists>n'. raft_node_create g' now' et' ct' (bm_block_data (rl_bm (rn_storage n))) me configs = Some n' \<and> node_ok n' \<and> rn_role n' = Follower \<and>
    rn_current_term n' = rn_current_term n \<and> rn_votedFor n' = rn_votedFor n \<and> rn_log n' = rn_log n \<and> rn_snapshot n' = rn_snapshot n"
proof -
  have ok: "node_ok n" using node_run_ok [OF assms(5)] fresh_node_inv(1) [OF assms(1-4)] by (simp add: node_inv_def)
  from raft_node_create_ok [OF persisted_starts [OF ok] node_okD(2) [OF ok] assms(2-4)] show ?thesis by blast
qed

theorem raft_restart_recovers_witness:
  "\<exists>(n :: raft_node) n'. rn_role n = Candidate \<and> rn_current_term n = 1 \<and> raft_node_create (\<lambda>_. 7) 3 2 2 (bm_block_data (rl_bm (rn_storage n))) 0 three_nodes = Some n' \<and>
    rn_current_term n' = 1 \<and> rn_votedFor n' = rn_votedFor n \<and> rn_log n' = [first_entry]"
proof -
  obtain n0 n where n: "raft_node_create (\<lambda>_. 0) 0 1 1 [] 0 three_nodes = Some n0" "node_run n0 [Start, Elect (asks three_nodes 0 1)] n"
    "ready three_nodes 0 n" "rn_role n = Candidate" "rn_current_term n = 1" using candidate_run by metis
  have len: "length three_nodes = 3" by (simp add: three_nodes_def)
  from raft_restart_recovers [OF n(1) _ _ _ n(2), of "\<lambda>_. 7" 3 2 2] n(3-5) have
    "\<exists>n'. raft_node_create (\<lambda>_. 7) 3 2 2 (bm_block_data (rl_bm (rn_storage n))) 0 three_nodes = Some n' \<and> rn_current_term n' = 1 \<and>
      rn_votedFor n' = rn_votedFor n \<and> rn_log n' = [first_entry]" by (auto simp: len ready_def)
  with n(4,5) show ?thesis by blast
qed


section \<open>Replication\<close>

text \<open>C8. A request of a leader that a follower can read is answered and has its effect on disk too: the follower takes over
  the term, refuses when its log has no entry at the place before the new ones or one of another term, and
  otherwise cuts its log there, appends the new entries and moves its commit index up to the leader's,
  but not beyond its log.
\<close>

theorem append_entries_effect:
  assumes "node_ok n" "append_fits n args" "rn_current_term n \<le> ae_term args"
  shows "\<exists>n'. append_entries g now n (transform_append_entries_args args) =
      Some (\<lparr>aer_term = ae_term args, aer_success = prev_matches (rn_log n) args\<rparr>, n') \<and> node_ok n' \<and> rn_current_term n' = ae_term args \<and>
    rn_log n' = (if prev_matches (rn_log n) args then appended (rn_log n) args else rn_log n) \<and>
    rn_commitIndex n' = (if prev_matches (rn_log n) args then committed_to (rn_commitIndex n) (appended (rn_log n) args) args else rn_commitIndex n)"
proof -
  from append_entries_ok [OF assms] obtain st where
    st: "append_entries g now n (transform_append_entries_args args) = Some (\<lparr>aer_term = ae_term args, aer_success = prev_matches (rn_log n) args\<rparr>,
        (extended_node (accepted_node now (ae_term args) n) args)\<lparr>rn_storage := st\<rparr>)"
      "node_ok ((extended_node (accepted_node now (ae_term args) n) args)\<lparr>rn_storage := st\<rparr>)" by blast
  have "rn_current_term (accepted_node now (ae_term args) n) = ae_term args" using assms(3) by (auto simp: accepted_node_def step_down_def)
  with st show ?thesis by (intro exI [of _ "(extended_node (accepted_node now (ae_term args) n) args)\<lparr>rn_storage := st\<rparr>"]) (auto simp: extended_node_def)
qed

definition entry_at :: "int \<Rightarrow> int \<Rightarrow> int \<Rightarrow> raft_log_entry" where
  "entry_at i t v = \<lparr>le_index = i, le_term = t, le_cmd = ListCommand v\<rparr>"

text \<open>A request with two entries for a log that holds none, and the node that has taken them.\<close>

definition two_entries :: append_entries_args where
  "two_entries = \<lparr>ae_term = 1, ae_leaderId = 1, ae_prevLogIndex = 0, ae_prevLogTerm = 0, ae_entries = [entry_at 1 1 10, entry_at 2 1 20],
     ae_leaderCommit = 2\<rparr>"

lemma follower_exists:
  obtains n where "node_ok n" "rn_role n = Follower" "rn_current_term n = 0" "rn_log n = [first_entry]" "rn_commitIndex n = 0"
    "rn_lastApplied n = 0" "\<not> is_stopped n" "rn_configs n = three_nodes" "rn_my_id n = 0" "rn_state n = list_state_machine_create"
proof -
  have c: "in_cluster three_nodes 0" "length three_nodes < 2 ^ 31" by (simp_all add: in_cluster_def three_nodes_def)
  obtain n0 n where "raft_node_create (\<lambda>_. 0) 0 1 1 [] 0 three_nodes = Some n0" "node_run n0 [Start] n" "ready three_nodes 0 n"
    "rn_role n = Follower" "rn_current_term n = 0" "rn_commitIndex n = 0" "rn_lastApplied n = 0" "rn_state n = list_state_machine_create"
    using fresh_run [OF c] .
  then show thesis using that [of n] by (simp add: ready_def node_inv_def)
qed

lemma two_entries_fits:
  assumes "rn_log n = [first_entry]" "rn_commitIndex n = 0"
  shows "append_fits n two_entries" "prev_matches (rn_log n) two_entries"
    "appended (rn_log n) two_entries = [first_entry, entry_at 1 1 10, entry_at 2 1 20]"
  using assms by (simp_all add: append_fits_def append_formed_def two_entries_def in_int_def follows_def log_entry_ok_def first_entry_def entry_at_def
      prev_matches_def appended_def nth_Cons' less_Suc_eq)

theorem append_entries_effect_witness:
  "\<exists>n r n'. rn_log n = [first_entry] \<and> append_entries (\<lambda>_. 0) 5 n (transform_append_entries_args two_entries) = Some (r, n') \<and> aer_success r \<and>
    rn_log n' = [first_entry, entry_at 1 1 10, entry_at 2 1 20] \<and> rn_commitIndex n' = 2"
proof -
  obtain n where n: "node_ok n" "rn_current_term n = 0" "rn_log n = [first_entry]" "rn_commitIndex n = 0" using follower_exists by metis
  note f = two_entries_fits [OF n(3,4)]
  have t: "rn_current_term n \<le> ae_term two_entries" using n(2) by (simp add: two_entries_def)
  from append_entries_effect [OF n(1) f(1) t, of "\<lambda>_. 0" 5] obtain n' where
    "append_entries (\<lambda>_. 0) 5 n (transform_append_entries_args two_entries) =
       Some (\<lparr>aer_term = ae_term two_entries, aer_success = prev_matches (rn_log n) two_entries\<rparr>, n')"
    "rn_log n' = appended (rn_log n) two_entries" "rn_commitIndex n' = committed_to (rn_commitIndex n) (appended (rn_log n) two_entries) two_entries"
    using f(2) by auto
  with f n(3,4) show ?thesis by (intro exI [of _ n] exI [of _ n'] exI) (auto simp: committed_to_def two_entries_def entry_at_def)
qed


text \<open>A leader of three that has taken one command and has not heard of its followers yet.\<close>

definition first_command :: raft_log_entry where
  "first_command = \<lparr>le_index = 1, le_term = 1, le_cmd = command_of [0, 0, 0, 10]\<rparr>"

lemma leader_run:
  obtains n0 es n where "raft_node_create (\<lambda>_. 0) 0 1 1 [] 0 three_nodes = Some n0" "node_run n0 es n" "node_inv n" "rn_role n = Leader"
    "rn_current_term n = 1" "rn_configs n = three_nodes" "rn_my_id n = 0" "rn_log n = [first_entry, first_command]" "rn_commitIndex n = 0"
    "rn_nextIndex n = [2, 1, 1]" "rn_matchIndex n = [1, 0, 0]" "rn_matchCount n = [1]"
proof -
  have len: "length three_nodes = 3" by (simp add: three_nodes_def)
  obtain n0 n1 where n1: "raft_node_create (\<lambda>_. 0) 0 1 1 [] 0 three_nodes = Some n0" "node_run n0 [Start, Elect (asks three_nodes 0 1)] n1"
    "ready three_nodes 0 n1" "rn_role n1 = Candidate" "rn_current_term n1 = 1" "rn_votesGot n1 = 1" "rn_votesFrom n1 = [True, False, False]"
    using candidate_run .
  have f1: "node_inv n1" "node_ok n1" "rn_my_id n1 = 0" "rn_configs n1 = three_nodes" "rn_log n1 = [first_entry]" "nodes n1 = 3"
    using n1(3) len by (simp_all add: ready_def node_inv_def nodes_def)
  have c1: "rn_commitIndex n1 = 0" using node_okD(3) [OF f1(2)] f1(5) by (simp add: applied_ok_def first_entry_def)
  define n2 where "n2 = leader_node (counted_node n1 1)"
  have "elected_node n1 1 = n2" using f1 n1(6) by (simp add: elected_node_def Let_def majority_def nodes_def n2_def) (simp add: counted_node_def len)
  with vote_reply_fresh [OF f1(2), of 1 "yes 1" "ask 0 1"] f1 n1(4,5,7) have
    "handle_request_vote_reply n1 1 (ask 0 1) (yes 1) = Some n2" by (simp add: yes_def first_entry_def)
  then have s2: "node_step n1 (VoteReply 1 (ask 0 1) (yes 1)) n2" using f1 by (intro node_step.vote_reply) (simp_all add: yes_def in_int_def first_entry_def)
  have f2: "node_inv n2" using node_step_ok(1) [OF s2 f1(1)] .
  have g2: "rn_role n2 = Leader" "rn_current_term n2 = 1" "rn_configs n2 = three_nodes" "rn_my_id n2 = 0" "rn_log n2 = [first_entry]"
    "rn_commitIndex n2 = 0" "rn_nextIndex n2 = [1, 1, 1]" "rn_matchIndex n2 = [0, 0, 0]" "rn_matchCount n2 = []"
    using f1 c1 n1(5) by (simp_all add: n2_def leader_node_def counted_node_def nodes_def len first_entry_def numeral_eq_Suc)
  have ok2: "node_ok n2" using f2 by (simp add: node_inv_def)
  from new_command_ok [OF ok2 g2(1), of "[0, 0, 0, 10]" 0] g2 obtain n3 st where
    n3: "new_command 0 n2 [0, 0, 0, 10] 4 = Some ((True, 1, 1), n3)" "n3 = (commanded_node n2 [0, 0, 0, 10])\<lparr>rn_storage := st\<rparr>"
    by (auto simp: first_entry_def)
  have s3: "node_step n2 (Command [0, 0, 0, 10]) n3" using g2 by (intro node_step.cmd [OF _ _ _ n3(1)]) (simp_all add: first_entry_def)
  show thesis
  proof (rule that [OF n1(1)])
    show "node_run n0 (([Start, Elect (asks three_nodes 0 1)] @ [VoteReply 1 (ask 0 1) (yes 1)]) @ [Command [0, 0, 0, 10]]) n3"
      using node_run.more [OF node_run.more [OF n1(2) s2] s3] .
    show "node_inv n3" using node_step_ok(1) [OF s3 f2] .
  qed (simp_all add: n3(2) commanded_node_def Let_def g2 first_command_def first_entry_def)
qed

text \<open>C9. What the leader has at the indices behind \<open>nextIndex\<close> is what the follower has there afterwards: a request that the
  commit worker of a leader makes for a node, sent and accepted by a follower, leaves in the log of the follower,
  behind the place where the logs were found to agree, the entries of the leader and no others.
\<close>

theorem replicated_suffix:
  assumes "node_ok n" "commit_task n i = Some [SendAppendEntries i args]"
    and "node_ok m" "append_fits m args" "rn_current_term m \<le> ae_term args" "prev_matches (rn_log m) args"
  shows "\<exists>m'. append_entries g now m (transform_append_entries_args args) = Some (\<lparr>aer_term = rn_current_term n, aer_success = True\<rparr>, m') \<and>
    drop (nat (ae_prevLogIndex args + 1 - le_index (hd (rn_log m')))) (rn_log m') =
      drop (nat (ae_prevLogIndex args + 1 - le_index (hd (rn_log n)))) (rn_log n) \<and>
    last (rn_log m') = last (rn_log n)"
proof -
  note o = node_okD [OF assms(1)] and p = node_okD [OF assms(3)]
  let ?f = "le_index (hd (rn_log n))" and ?b = "le_index (last (rn_log n))"
  have "\<exists>nxt. ?f < nxt \<and> nxt \<le> ?b \<and> range_of (rn_log n) (nxt - ?f) (?b + 1 - ?f) = Some (ae_entries args) \<and> ae_prevLogIndex args = nxt - 1 \<and>
      ae_term args = rn_current_term n"
    using assms(2) o(5) by (auto simp: commit_task_def split: Option.bind_splits if_splits)
  then obtain nxt where nxt: "?f < nxt" "nxt \<le> ?b" "range_of (rn_log n) (nxt - ?f) (?b + 1 - ?f) = Some (ae_entries args)"
    "ae_prevLogIndex args = nxt - 1" "ae_term args = rn_current_term n" by blast
  have es: "ae_entries args = drop (nat (nxt - ?f)) (rn_log n)"
    using nxt(1-3) log_ok_last [OF o(2)] by (auto simp: range_of_def split: if_splits)
  moreover have k: "nat (nxt - ?f) < length (rn_log n)" using nxt(1,2) log_ok_last [OF o(2)] by linarith
  ultimately have ne: "ae_entries args \<noteq> []" by simp
  from append_entries_ok [OF assms(3-5), of g now] obtain st where
    st: "append_entries g now m (transform_append_entries_args args) = Some (\<lparr>aer_term = rn_current_term n, aer_success = True\<rparr>,
      (extended_node (accepted_node now (ae_term args) m) args)\<lparr>rn_storage := st\<rparr>)" using assms(6) nxt(5) by auto
  have f: "le_index (hd (rn_log m)) \<le> ae_prevLogIndex args" "follows (ae_prevLogIndex args) (ae_entries args)" "ae_prevLogIndex args \<le> le_index (last (rn_log m))"
    using assms(4,6) by (simp_all add: append_fits_def append_formed_def prev_matches_def)
  have h: "hd (appended (rn_log m) args) = hd (rn_log m)" using appended_ok(2) [OF p(2) f(1,3,2)] .
  have "nat (ae_prevLogIndex args + 1 - le_index (hd (rn_log m))) \<le> length (rn_log m)" using f(1,3) log_ok_last [OF p(2)] by linarith
  then have "drop (nat (ae_prevLogIndex args + 1 - le_index (hd (rn_log m)))) (appended (rn_log m) args) = ae_entries args" using ne by (simp add: appended_def)
  moreover have "last (appended (rn_log m) args) = last (rn_log n)" using ne es k by (simp add: appended_def last_drop)
  ultimately show ?thesis using st assms(6) es h nxt(4)
    by (intro exI [of _ "(extended_node (accepted_node now (ae_term args) m) args)\<lparr>rn_storage := st\<rparr>"]) (simp add: extended_node_def)
qed


theorem replicated_suffix_witness:
  "\<exists>n m i args r m'. commit_task n i = Some [SendAppendEntries i args] \<and> rn_log n = [first_entry, first_command] \<and> rn_log m = [first_entry] \<and>
    append_entries (\<lambda>_. 0) 9 m (transform_append_entries_args args) = Some (r, m') \<and> aer_success r \<and> drop 1 (rn_log m') = [first_command]"
proof -
  obtain n :: raft_node where n: "node_inv n" "rn_current_term n = 1" "rn_my_id n = 0" "rn_log n = [first_entry, first_command]" "rn_commitIndex n = 0"
    "rn_nextIndex n = [2, 1, 1]" using leader_run by metis
  obtain m where m: "node_ok m" "rn_current_term m = 0" "rn_log m = [first_entry]" "rn_commitIndex m = 0" using follower_exists by metis
  let ?args = "\<lparr>ae_term = 1, ae_leaderId = 0, ae_prevLogIndex = 0, ae_prevLogTerm = 0, ae_entries = [first_command], ae_leaderCommit = 0\<rparr>"
  have t: "commit_task n 1 = Some [SendAppendEntries 1 ?args]"
    using n by (simp add: commit_task_def at_int_def at_def range_of_def first_entry_def first_command_def)
  have "log_entry_ok first_command" using bytes_int_in_int by (simp add: log_entry_ok_def first_command_def command_of_def in_int_def)
  then have f: "append_fits m ?args" "prev_matches (rn_log m) ?args"
    using m by (simp_all add: append_fits_def append_formed_def in_int_def follows_def first_entry_def prev_matches_def) (simp add: first_command_def)
  have ok: "node_ok n" using n(1) by (simp add: node_inv_def)
  have le: "rn_current_term m \<le> ae_term ?args" using m(2) by simp
  from replicated_suffix [OF ok t m(1) f(1) le f(2), of "\<lambda>_. 0" 9] obtain m' where
    r: "append_entries (\<lambda>_. 0) 9 m (transform_append_entries_args ?args) = Some (\<lparr>aer_term = rn_current_term n, aer_success = True\<rparr>, m')" by blast
  have "drop 1 (rn_log m') = [first_command]"
    using append_entries_ok [OF m(1) f(1) le, of "\<lambda>_. 0" 9] r f(2) m(3) by (auto simp: extended_node_def appended_def first_entry_def)
  moreover have "aer_success \<lparr>aer_term = rn_current_term n, aer_success = True\<rparr>" by simp
  ultimately show ?thesis using r t n(4) m(3) by blast
qed


text \<open>C7. A leader moves its commit index only to an entry of its own term that a majority of the cluster is known to
  have: after any run from its start, an answer to a request for entries that raises the commit index
  raises it to such an entry. No entry of an earlier term is committed by counting.
\<close>

theorem leader_commits_with_majority:
  assumes "raft_node_create g now et ct [] me configs = Some n0" "0 \<le> me" "me < int (length configs)" "length configs < 2 ^ 31" "node_run n0 es n"
    and "rn_role n = Leader" "node_step n (AppendReply i args r) n'" "rn_commitIndex n < rn_commitIndex n'"
  shows "rn_commitIndex n' \<le> le_index (last (rn_log n')) \<and>
    le_term (rn_log n' ! nat (rn_commitIndex n' - le_index (hd (rn_log n')))) = rn_current_term n' \<and>
    length configs div 2 < card {j. j < length configs \<and> rn_commitIndex n' \<le> rn_matchIndex n' ! j}"
proof -
  have inv: "node_inv n" using node_run_ok [OF assms(5)] fresh_node_inv(1) [OF assms(1-4)] by simp
  have cfg: "rn_configs n = configs" using node_run_configs [OF assms(5)] fresh_node_inv(1,7) [OF assms(1-4)] by simp
  from inv assms(6) have ok: "node_ok n" and m: "match_ok n" by (simp_all add: node_inv_def)
  from assms(7) have s: "0 \<le> i" "i < int (nodes n)" "le_index (last (rn_log n)) < 2 ^ 31 - 1"
    "ae_prevLogIndex args + int (length (ae_entries args)) \<le> le_index (last (rn_log n))" "in_int (ae_term args)"
    "handle_append_entries_reply n i args r = Some n'" by (cases; simp)+
  have t: "aer_term r \<le> rn_current_term n" "aer_success r"
    using s(6) assms(6,8) ok s(5) step_down_ok [OF ok s(5)]
    by (auto simp: handle_append_entries_reply_def step_down_def split: if_splits Option.bind_splits)
  from append_reply_ok [OF ok assms(6) m t s(1,2,4,3)] s(6) assms(8) show ?thesis
    by (auto simp: commits_def majority_def have_index_def nodes_def cfg node_ok_def applied_ok_def)
qed


theorem leader_commits_with_majority_witness:
  "\<exists>n0 es n args r n'. raft_node_create (\<lambda>_. 0) 0 1 1 [] 0 three_nodes = Some n0 \<and> node_run n0 es n \<and> rn_commitIndex n = 0 \<and>
    node_step n (AppendReply 1 args r) n' \<and> rn_commitIndex n' = 1 \<and> 1 < card {j. j < length three_nodes \<and> 1 \<le> rn_matchIndex n' ! j}"
proof -
  obtain n0 es n where n: "raft_node_create (\<lambda>_. 0) 0 1 1 [] 0 three_nodes = Some n0" "node_run n0 es n" "rn_role n = Leader"
    "rn_current_term n = 1" "rn_configs n = three_nodes" "rn_log n = [first_entry, first_command]" "rn_commitIndex n = 0"
    "rn_nextIndex n = [2, 1, 1]" "rn_matchIndex n = [1, 0, 0]" "rn_matchCount n = [1]" using leader_run by metis
  have len: "length three_nodes = 3" by (simp add: three_nodes_def)
  let ?args = "\<lparr>ae_term = 1, ae_leaderId = 0, ae_prevLogIndex = 0, ae_prevLogTerm = 0, ae_entries = [first_command], ae_leaderCommit = 0\<rparr>"
  let ?r = "\<lparr>aer_term = 1, aer_success = True\<rparr>"
  let ?n = "n\<lparr>rn_matchIndex := [1, 1, 0], rn_nextIndex := [2, 2, 1], rn_commitIndex := 1, rn_matchCount := []\<rparr>"
  have h: "handle_append_entries_reply n 1 ?args ?r = Some ?n"
    using n by (simp add: handle_append_entries_reply_def at_int_def at_def upd_int_def upd_def next_int_def Let_def nodes_def len erase_prefix_def
        first_entry_def first_command_def)
  then have s: "node_step n (AppendReply 1 ?args ?r) ?n"
    using n by (intro node_step.append_reply) (simp_all add: nodes_def len in_int_def first_command_def)
  have "1 < card {j. j < length three_nodes \<and> 1 \<le> rn_matchIndex ?n ! j}"
    using leader_commits_with_majority [OF n(1) _ _ _ n(2,3) s] n(7) by (simp add: len)
  moreover have "rn_commitIndex ?n = 1" by simp
  ultimately show ?thesis using n(1,2,7) s by blast
qed


text \<open>C19. The log is cut at the first new entry even where it has the entries already: a request of the current
  term that arrives late, and whose entries end before the commit index, is accepted and removes
  committed entries from the log and from the disk. The commit index is then behind the end of the log,
  and the next round of the apply worker reads past it.
\<close>

theorem stale_append_drops_committed:
  assumes "node_ok n" "append_formed n args" "rn_role n = Follower" "ae_term args = rn_current_term n" "prev_matches (rn_log n) args"
    and "ae_entries args \<noteq> []" "ae_prevLogIndex args + int (length (ae_entries args)) < rn_commitIndex n" "ae_leaderCommit args \<le> rn_commitIndex n"
    and "\<not> is_stopped n" "rn_lastApplied n < rn_commitIndex n"
  shows "\<exists>n'. append_entries g now n (transform_append_entries_args args) = Some (\<lparr>aer_term = rn_current_term n, aer_success = True\<rparr>, n') \<and>
    le_index (last (rn_log n')) < rn_commitIndex n' \<and> rl_log (rn_storage n') = rn_log n' \<and> apply_round n' = None"
proof -
  let ?n = "n\<lparr>rn_lastRPC := now\<rparr>" and ?log = "appended (rn_log n) args"
  have wire: "transform_rpc_append_entries_args g (transform_append_entries_args args) = Some args"
    using wire_round_trip assms(2) by (simp add: append_formed_def follows_def)
  have "append_formed ?n args" using assms(2) by (simp add: append_formed_def)
  from append_to_log_run [of ?n, OF _ this] assms(1,5) obtain st where
    st: "append_to_log ?n args = Some (True, (extended_node ?n args)\<lparr>rn_storage := st\<rparr>)"
      "rl_holds st (rn_current_term n) (rn_votedFor n) (rn_log (extended_node ?n args)) (rn_snapshot n)" by auto
  let ?n' = "(extended_node ?n args)\<lparr>rn_storage := st\<rparr>"
  have f: "rn_log ?n' = ?log" "rn_commitIndex ?n' = rn_commitIndex n" "rn_lastApplied ?n' = rn_lastApplied n" "rn_stopped ?n' = rn_stopped n"
    "rn_current_term ?n' = rn_current_term n" using assms(5,8) by (simp_all add: extended_node_def committed_to_def)
  have run: "append_entries g now n (transform_append_entries_args args) = Some (\<lparr>aer_term = rn_current_term n, aer_success = True\<rparr>, ?n')"
    using wire st(1) assms(3,4) f(5) by (simp add: append_entries_def Let_def)
  have p: "le_index (hd (rn_log n)) \<le> ae_prevLogIndex args" "ae_prevLogIndex args \<le> le_index (last (rn_log n))"
    "follows (ae_prevLogIndex args) (ae_entries args)" using assms(2,5) by (simp_all add: append_formed_def prev_matches_def)
  note ap = appended_ok [OF node_okD(2) [OF assms(1)] p]
  have short: "le_index (last ?log) < rn_commitIndex n" using ap(3) [OF assms(6)] assms(7) by simp
  have "range_of ?log (rn_lastApplied n + 1 - le_index (hd ?log)) (rn_commitIndex n + 1 - le_index (hd ?log)) = None"
    using short log_ok_last [OF ap(1)] by (simp add: range_of_def)
  moreover have "?log \<noteq> []" using ap(1) by (simp add: log_ok_def)
  ultimately have "apply_round ?n' = None" using assms(9,10) f by (simp add: apply_round_def is_stopped_def)
  moreover have "rl_log (rn_storage ?n') = ?log" using st(2) f(1) by (simp add: rl_holds_def)
  ultimately show ?thesis using run short f(1,2) by (intro exI [of _ ?n']) (simp del: raft_node.update_convs)
qed

definition one_entry :: append_entries_args where
  "one_entry = \<lparr>ae_term = 1, ae_leaderId = 1, ae_prevLogIndex = 0, ae_prevLogTerm = 0, ae_entries = [entry_at 1 1 10], ae_leaderCommit = 0\<rparr>"

theorem stale_append_drops_committed_witness:
  "\<exists>n r n'. rn_log n = [first_entry, entry_at 1 1 10, entry_at 2 1 20] \<and> rn_commitIndex n = 2 \<and>
    append_entries (\<lambda>_. 0) 9 n (transform_append_entries_args one_entry) = Some (r, n') \<and> aer_success r \<and> apply_round n' = None"
proof -
  obtain m where m: "node_ok m" "rn_role m = Follower" "rn_current_term m = 0" "rn_log m = [first_entry]" "rn_commitIndex m = 0" "rn_lastApplied m = 0"
    "\<not> is_stopped m" using follower_exists by metis
  note f = two_entries_fits [OF m(4,5)]
  have t: "rn_current_term m \<le> ae_term two_entries" using m(3) by (simp add: two_entries_def)
  from append_entries_ok [OF m(1) f(1) t, of "\<lambda>_. 0" 5] obtain n where
    ok: "node_ok n" and n: "rn_log n = [first_entry, entry_at 1 1 10, entry_at 2 1 20]" "rn_commitIndex n = 2" "rn_current_term n = 1" "rn_role n = Follower"
      "rn_lastApplied n = 0" "\<not> is_stopped n"
    using f(2,3) m by (auto simp: extended_node_def accepted_node_def step_down_def committed_to_def is_stopped_def two_entries_def entry_at_def)
  have "append_formed n one_entry" "prev_matches (rn_log n) one_entry"
    by (simp_all add: n append_formed_def one_entry_def in_int_def follows_def log_entry_ok_def first_entry_def entry_at_def prev_matches_def)
  with stale_append_drops_committed [OF ok, of one_entry "\<lambda>_. 0" 9] n obtain n' where
    "append_entries (\<lambda>_. 0) 9 n (transform_append_entries_args one_entry) = Some (\<lparr>aer_term = 1, aer_success = True\<rparr>, n')" "apply_round n' = None"
    by (auto simp: one_entry_def)
  moreover have "aer_success \<lparr>aer_term = 1, aer_success = True\<rparr>" by simp
  ultimately show ?thesis using n(1,2) by blast
qed

section \<open>Snapshots\<close>

text \<open>C24. A snapshot replaces the entries that it stands for: a node that takes a snapshot and crashes comes up with the
  list of its state machine as it was when it took the snapshot, knows how far it has applied the log, and
  still has every entry behind that point.
\<close>

theorem snapshot_survives_restart:
  assumes "node_ok n" "list_all in_int (store (rn_state n))" "length (store (rn_state n)) < 2 ^ 31" "length (sm_snapshot (rn_state n)) \<le> 4096"
  shows "\<exists>n1 n2. save_snapshot n = Some (True, n1) \<and>
    raft_node_create g now et ct (bm_block_data (rl_bm (rn_storage n1))) (rn_my_id n) (rn_configs n) = Some n2 \<and>
    store (rn_state n2) = store (rn_state n) \<and> rn_lastApplied n2 = rn_lastApplied n \<and>
    rn_log n2 = drop (nat (rn_lastApplied n - le_index (hd (rn_log n)))) (rn_log n)"
proof -
  let ?k = "nat (rn_lastApplied n - le_index (hd (rn_log n)))"
  from save_snapshot_ok [OF assms(1,4)] obtain n1 st where
    n1: "save_snapshot n = Some (True, n1)" "n1 = n\<lparr>rn_snapshot := sm_snapshot (rn_state n), rn_log := drop ?k (rn_log n), rn_storage := st\<rparr>" "node_ok n1"
    by auto
  have sh: "0 \<le> rn_my_id n" "rn_my_id n < int (length (rn_configs n))" "length (rn_configs n) < 2 ^ 31"
    using node_okD(4) [OF assms(1)] by (simp_all add: shape_ok_def nodes_def)
  from raft_node_create_ok [OF persisted_starts [OF n1(3)] node_okD(2) [OF n1(3)] sh, of g now et ct] obtain n2 where
    n2: "raft_node_create g now et ct (bm_block_data (rl_bm (rn_storage n1))) (rn_my_id n) (rn_configs n) = Some n2"
      "rn_log n2 = rn_log n1" "rn_snapshot n2 = rn_snapshot n1" by blast
  from created_state [OF n2(1)] have s: "rn_lastApplied n2 = le_index (hd (rn_log n2))"
    "rn_state n2 = (if rn_snapshot n2 \<noteq> [] then apply_snapshot g (g 0) list_state_machine_create (rn_snapshot n2) else list_state_machine_create)" by simp_all
  have ne: "sm_snapshot (rn_state n) \<noteq> []" by (rule sm_snapshot_nonempty)
  have ap: "le_index (hd (rn_log n)) \<le> rn_lastApplied n" "rn_lastApplied n \<le> le_index (last (rn_log n))"
    using node_okD(3) [OF assms(1)] by (simp_all add: applied_ok_def)
  then have "?k < length (rn_log n)" using log_ok_last [OF node_okD(2) [OF assms(1)]] by linarith
  from log_ok_drop(2) [OF node_okD(2) [OF assms(1)] this] ap have "le_index (hd (drop ?k (rn_log n))) = rn_lastApplied n" by simp
  then show ?thesis using n1(1) n2 s ne apply_snapshot_of [OF assms(2,3)] by (intro exI [of _ n1] exI [of _ n2] conjI) (simp_all add: n1(2))
qed


theorem snapshot_survives_restart_witness:
  "\<exists>n n1 n2. store (rn_state n) = [0, 10, 20] \<and> length (rn_log n) = 3 \<and> save_snapshot n = Some (True, n1) \<and>
    raft_node_create (\<lambda>_. 7) 3 2 2 (bm_block_data (rl_bm (rn_storage n1))) 0 three_nodes = Some n2 \<and>
    store (rn_state n2) = [0, 10, 20] \<and> rn_lastApplied n2 = 2 \<and> rn_log n2 = [entry_at 2 1 20]"
proof -
  obtain m where m: "node_ok m" "rn_current_term m = 0" "rn_log m = [first_entry]" "rn_commitIndex m = 0" "rn_lastApplied m = 0"
    "\<not> is_stopped m" "rn_configs m = three_nodes" "rn_my_id m = 0" "rn_state m = list_state_machine_create" using follower_exists by metis
  note f = two_entries_fits [OF m(3,4)]
  have t: "rn_current_term m \<le> ae_term two_entries" using m(2) by (simp add: two_entries_def)
  from append_entries_ok [OF m(1) f(1) t, of "\<lambda>_. 0" 5] obtain a where
    a: "node_ok a" "rn_log a = [first_entry, entry_at 1 1 10, entry_at 2 1 20]" "rn_commitIndex a = 2" "rn_lastApplied a = 0" "\<not> is_stopped a"
      "rn_configs a = three_nodes" "rn_my_id a = 0" "rn_state a = list_state_machine_create"
    using f(2,3) m by (auto simp: extended_node_def accepted_node_def step_down_def committed_to_def is_stopped_def two_entries_def entry_at_def)
  let ?sm = "\<lparr>store = [0, 10, 20], num_append_logs = 2\<rparr>"
  let ?n = "a\<lparr>rn_state := ?sm, rn_lastApplied := rn_commitIndex a\<rparr>"
  have "node_ok ?n" using apply_round_ok(2) [OF a(1,5)] .
  moreover have "length (sm_snapshot ?sm) = 9" by code_simp
  ultimately show ?thesis
    using snapshot_survives_restart [of ?n "\<lambda>_. 7" 3 2 2] a
    by - (rule exI [of _ ?n], simp add: in_int_def first_entry_def)
qed

end
