(* ===== verification/Commit_Log.thy ===== *)
theory Commit_Log
  imports Directory
begin

text \<open>
  The commit log of the metadata server (\<open>src/chfs/src/distributed/commit_log.cc\<close>). The log
  lies in the 1024 blocks behind the blocks of the device: block 0 of the log holds a bitmap
  of 128 bytes and one entry of 4 bytes per transaction (two bytes for the number of its log
  block, the number of logged block states, the commit flag); the log block of a transaction
  holds one entry of 10 bytes per logged state and, from byte 3996 on, the operation.

  Each operation runs alone. The spinning loops on \<open>generating_ckpt\<close> and \<open>working_jobs\<close>
  then either do not spin or never end, which is the value \<open>None\<close>. The calls of \<open>sync\<close> and
  \<open>flush\<close> do not change the memory and their results are not looked at.
\<close>

section \<open>Model\<close>

record block_operation =
  bo_block_id :: nat
  bo_new_block_state :: "byte list"

record server_operation =
  so_type :: byte
  so_parent :: nat
  so_name :: string

record commit_log =
  cl_is_checkpoint_enabled :: bool
  cl_max_txn_id :: nat
  cl_generating_ckpt :: bool
  cl_working_jobs :: int
  cl_log_entries_num :: int
  cl_recover_operations :: "server_operation list"

abbreviation (input) LogBlockCnt :: nat where "LogBlockCnt \<equiv> 1024"
abbreviation (input) BitmapBytes :: nat where "BitmapBytes \<equiv> 128"
abbreviation (input) BytesPerTxEntry :: nat where "BytesPerTxEntry \<equiv> 4"
abbreviation (input) BytesPerLogEntry :: nat where "BytesPerLogEntry \<equiv> 10"
abbreviation (input) OperationOffset :: nat where "OperationOffset \<equiv> 3996"
abbreviation (input) kMaxLogSize :: nat where "kMaxLogSize \<equiv> 128"

definition block_operation_create :: "nat \<Rightarrow> byte list \<Rightarrow> block_operation option" where
  "block_operation_create block_id new_block_state = do {
     chfs_assert (length new_block_state = DiskBlockSize);
     Some \<lparr>bo_block_id = block_id, bo_new_block_state = new_block_state\<rparr>
   }"

text \<open>The member \<open>generating_ckpt\<close> has no initialiser: \<open>garbage\<close> is its value.\<close>

definition commit_log_create :: "bool \<Rightarrow> bool \<Rightarrow> commit_log" where
  "commit_log_create is_checkpoint_enabled garbage =
     \<lparr>cl_is_checkpoint_enabled = is_checkpoint_enabled, cl_max_txn_id = 0, cl_generating_ckpt = garbage,
      cl_working_jobs = 0, cl_log_entries_num = 0, cl_recover_operations = []\<rparr>"

definition get_log_entry_num :: "commit_log \<Rightarrow> nat" where
  "get_log_entry_num cl = nat (cl_log_entries_num cl mod 2 ^ 32)"

definition FAAjob :: "int \<Rightarrow> commit_log \<Rightarrow> commit_log" where
  "FAAjob v cl = cl\<lparr>cl_working_jobs := cl_working_jobs cl + v\<rparr>"

definition FAAlog :: "int \<Rightarrow> commit_log \<Rightarrow> commit_log" where
  "FAAlog v cl = cl\<lparr>cl_log_entries_num := cl_log_entries_num cl + v\<rparr>"

definition wait_ckpt :: "commit_log \<Rightarrow> unit option" where
  "wait_ckpt cl = (if cl_generating_ckpt cl then None else Some ())"

text \<open>A block that is read without a look at the result, and one that is written so.\<close>

definition cl_read :: "block_manager \<Rightarrow> nat \<Rightarrow> byte list option" where
  "cl_read bm block_id = do {
     res \<leftarrow> read_block bm block_id DiskBlockSize;
     Some (case res of Ok b \<Rightarrow> b | Err _ \<Rightarrow> replicate DiskBlockSize 0)
   }"

definition cl_write :: "block_manager \<Rightarrow> nat \<Rightarrow> byte list \<Rightarrow> block_manager option" where
  "cl_write bm block_id data = map_option snd (write_block bm block_id data)"

subsection \<open>Free log blocks\<close>

definition free_bit :: "byte \<Rightarrow> nat \<Rightarrow> nat option" where
  "free_bit cur_map i = List.find (\<lambda>j. \<not> (i = 0 \<and> j = 7) \<and> cur_map AND push_bit j 1 = 0) [7, 6, 5, 4, 3, 2, 1, 0]"

fun find_free_loop :: "byte list \<Rightarrow> nat \<Rightarrow> nat \<Rightarrow> (nat \<times> byte list) option" where
  "find_free_loop data i 0 = Some (0, data)"
| "find_free_loop data i (Suc n) = do {
     cur_map \<leftarrow> at data i;
     case free_bit cur_map i of
       None \<Rightarrow> find_free_loop data (Suc i) n
     | Some free_idx \<Rightarrow> do {
         data' \<leftarrow> upd data i (cur_map OR push_bit free_idx 1);
         let free_logblock_id = i * 8 + (7 - free_idx);
         if free_logblock_id = 0 then find_free_loop data' (Suc i) n
         else Some (free_logblock_id, data')
       }
   }"

definition find_free_log_block :: "byte list \<Rightarrow> (nat \<times> byte list) option" where
  "find_free_log_block data = do {
     (free_logblock_id, data') \<leftarrow> find_free_loop data 0 BitmapBytes;
     chfs_assert (0 < free_logblock_id);
     Some (free_logblock_id, data')
   }"

subsection \<open>The operation record\<close>

definition set_operation :: "block_manager \<Rightarrow> nat \<Rightarrow> server_operation \<Rightarrow> block_manager option" where
  "set_operation bm txn_block_id operation = do {
     let buffer = replicate DiskBlockSize (0 :: byte);
     buffer1 \<leftarrow> upd buffer OperationOffset (so_type operation);
     buffer2 \<leftarrow> put_le 8 buffer1 (OperationOffset + 1) (so_parent operation);
     buffer3 \<leftarrow> poke buffer2 (OperationOffset + 9) (bytes_of_str (so_name operation));
     buffer4 \<leftarrow> upd buffer3 (OperationOffset + 9 + length (so_name operation)) 0;
     cl_write bm (txn_block_id + bm_block_cnt bm) buffer4
   }"

definition get_operation :: "block_manager \<Rightarrow> nat \<Rightarrow> server_operation option" where
  "get_operation bm txn_block_id = do {
     buffer \<leftarrow> cl_read bm (txn_block_id + bm_block_cnt bm);
     type \<leftarrow> at buffer OperationOffset;
     parent \<leftarrow> get_le 8 buffer (OperationOffset + 1);
     let rest = drop (OperationOffset + 9) buffer;
     chfs_assert (0 \<in> set rest);
     Some \<lparr>so_type = type, so_parent = parent, so_name = str_of_bytes (takeWhile (\<lambda>b. b \<noteq> 0) rest)\<rparr>
   }"

subsection \<open>Transactions\<close>

definition tx_offset :: "nat \<Rightarrow> nat" where
  "tx_offset txn_id = BitmapBytes + txn_id * BytesPerTxEntry"

text \<open>The number of the log block in an entry is stored with its high byte first.\<close>

definition tx_block_id :: "byte list \<Rightarrow> nat \<Rightarrow> nat option" where
  "tx_block_id buffer start_offset = do {
     hi \<leftarrow> at buffer start_offset;
     lo \<leftarrow> at buffer (start_offset + 1);
     Some (256 * unat hi + unat lo)
   }"

definition alloc_txn ::
    "block_manager \<Rightarrow> commit_log \<Rightarrow> server_operation \<Rightarrow> (nat \<times> block_manager \<times> commit_log) option" where
  "alloc_txn bm cl operation = do {
     wait_ckpt cl;
     let cl1 = FAAjob 1 cl;
     let LogSuperBlockId = bm_block_cnt bm;
     buffer \<leftarrow> cl_read bm LogSuperBlockId;
     (free_logblock_id, buffer1) \<leftarrow> find_free_log_block buffer;
     let txn_id = cl_max_txn_id cl1;
     let cl2 = cl1\<lparr>cl_max_txn_id := u32 (txn_id + 1)\<rparr>;
     let start_offset = tx_offset txn_id;
     buffer2 \<leftarrow> upd buffer1 start_offset (word_of_nat (free_logblock_id div 256));
     buffer3 \<leftarrow> upd buffer2 (start_offset + 1) (word_of_nat (free_logblock_id mod 256));
     buffer4 \<leftarrow> upd buffer3 (start_offset + 2) 0;
     bm1 \<leftarrow> cl_write bm LogSuperBlockId buffer4;
     bm2 \<leftarrow> set_operation bm1 free_logblock_id operation;
     Some (txn_id, bm2, FAAjob (- 1) cl2)
   }"

definition get_txn_info :: "block_manager \<Rightarrow> nat \<Rightarrow> (nat \<times> nat) option" where
  "get_txn_info bm txn_id = do {
     buffer \<leftarrow> cl_read bm (bm_block_cnt bm);
     log_block_id \<leftarrow> tx_block_id buffer (tx_offset txn_id);
     log_count \<leftarrow> at buffer (tx_offset txn_id + 2);
     Some (log_block_id, unat log_count)
   }"

fun find_free_n :: "nat \<Rightarrow> byte list \<Rightarrow> (nat list \<times> byte list) option" where
  "find_free_n 0 buffer = Some ([], buffer)"
| "find_free_n (Suc n) buffer = do {
     (b, buffer1) \<leftarrow> find_free_log_block buffer;
     (bs, buffer2) \<leftarrow> find_free_n n buffer1;
     Some (b # bs, buffer2)
   }"

text \<open>The count of an entry is one byte, to which the number of new logs is added.\<close>

definition alloc_log ::
    "block_manager \<Rightarrow> commit_log \<Rightarrow> nat \<Rightarrow> nat \<Rightarrow> ((nat \<times> nat \<times> nat list) \<times> block_manager \<times> commit_log) option" where
  "alloc_log bm cl txn_id log_cnt = do {
     let LogSuperBlockId = bm_block_cnt bm;
     buffer \<leftarrow> cl_read bm LogSuperBlockId;
     (free_logblocks, buffer1) \<leftarrow> find_free_n log_cnt buffer;
     let start_offset = tx_offset txn_id;
     log_block_id \<leftarrow> tx_block_id buffer1 start_offset;
     log_count \<leftarrow> at buffer1 (start_offset + 2);
     buffer2 \<leftarrow> upd buffer1 (start_offset + 2) (log_count + word_of_nat log_cnt);
     bm1 \<leftarrow> cl_write bm LogSuperBlockId buffer2;
     Some ((log_block_id, unat log_count, free_logblocks), bm1, FAAlog (int log_cnt) cl)
   }"

text \<open>The loop of \<open>append_log\<close>, \<open>idx\<close> being the index of the next entry.\<close>

fun append_loop ::
    "block_manager \<Rightarrow> byte list \<Rightarrow> nat \<Rightarrow> nat list \<Rightarrow> block_operation list \<Rightarrow> (block_manager \<times> byte list) option" where
  "append_loop bm txn_buffer idx log_blocks [] = Some (bm, txn_buffer)"
| "append_loop bm txn_buffer idx [] (op # ops) = None"
| "append_loop bm txn_buffer idx (lb # lbs) (op # ops) = do {
     let log_offset = idx * BytesPerLogEntry;
     b1 \<leftarrow> put_le 8 txn_buffer log_offset (bo_block_id op);
     b2 \<leftarrow> upd b1 (log_offset + 8) (word_of_nat (lb mod 256));
     b3 \<leftarrow> upd b2 (log_offset + 9) (word_of_nat (lb div 256));
     bm1 \<leftarrow> cl_write bm (lb + bm_block_cnt bm) (bo_new_block_state op);
     append_loop bm1 b3 (Suc idx) lbs ops
   }"

fun zero_log_blocks :: "block_manager \<Rightarrow> nat \<Rightarrow> nat \<Rightarrow> block_manager option" where
  "zero_log_blocks bm i 0 = Some bm"
| "zero_log_blocks bm i (Suc n) = do {
     bm1 \<leftarrow> cl_write bm (bm_block_cnt bm + i) (replicate DiskBlockSize 0);
     zero_log_blocks bm1 (Suc i) n
   }"

definition checkpoint :: "block_manager \<Rightarrow> commit_log \<Rightarrow> (block_manager \<times> commit_log) option" where
  "checkpoint bm cl = do {
     let cl1 = cl\<lparr>cl_generating_ckpt := True\<rparr>;
     chfs_assert (cl_working_jobs cl1 \<le> 0);
     bm1 \<leftarrow> zero_log_blocks bm 0 LogBlockCnt;
     let cl2 = FAAlog (- cl_log_entries_num cl1) (cl1\<lparr>cl_max_txn_id := 0\<rparr>);
     Some (bm1, cl2\<lparr>cl_generating_ckpt := False\<rparr>)
   }"

text \<open>The signed counter is compared with an unsigned constant.\<close>

definition append_log ::
    "block_manager \<Rightarrow> commit_log \<Rightarrow> nat \<Rightarrow> block_operation list \<Rightarrow> (block_manager \<times> commit_log) option" where
  "append_log bm cl txn_id ops = do {
     wait_ckpt cl;
     let cl1 = FAAjob 1 cl;
     ((block, log_idx, log_blocks), bm1, cl2) \<leftarrow> alloc_log bm cl1 txn_id (length ops);
     let txn_block_id = block + bm_block_cnt bm1;
     txn_buffer \<leftarrow> cl_read bm1 txn_block_id;
     (bm2, txn_buffer') \<leftarrow> append_loop bm1 txn_buffer log_idx log_blocks ops;
     bm3 \<leftarrow> cl_write bm2 txn_block_id txn_buffer';
     let cl3 = FAAjob (- 1) cl2;
     if kMaxLogSize \<le> nat (cl_log_entries_num cl3 mod 2 ^ 32) \<and> cl_is_checkpoint_enabled cl3 then checkpoint bm3 cl3
     else Some (bm3, cl3)
   }"

definition commit_log_commit ::
    "block_manager \<Rightarrow> commit_log \<Rightarrow> nat \<Rightarrow> (block_manager \<times> commit_log) option" where
  "commit_log_commit bm cl txn_id = do {
     wait_ckpt cl;
     let cl1 = FAAjob 1 cl;
     buffer \<leftarrow> cl_read bm (bm_block_cnt bm);
     buffer1 \<leftarrow> upd buffer (tx_offset txn_id + 3) 1;
     bm1 \<leftarrow> cl_write bm (bm_block_cnt bm) buffer1;
     Some (bm1, FAAjob (- 1) cl1)
   }"

subsection \<open>Recovery\<close>

text \<open>Of the two bytes of a log block number only the low one survives the second assignment.\<close>

text \<open>The vector \<open>state_data\<close> is cleared before a block is read into its storage, which stays allocated.\<close>

fun recover_tx_loop :: "block_manager \<Rightarrow> byte list \<Rightarrow> nat \<Rightarrow> nat \<Rightarrow> block_manager option" where
  "recover_tx_loop bm buffer i 0 = Some bm"
| "recover_tx_loop bm buffer i (Suc n) = do {
     let log_offset = i * BytesPerLogEntry;
     op_block_id \<leftarrow> get_le 8 buffer log_offset;
     _ \<leftarrow> at buffer (log_offset + 9);
     lo \<leftarrow> at buffer (log_offset + 8);
     let log_block_id = unat lo + bm_block_cnt bm;
     state_data \<leftarrow> cl_read bm log_block_id;
     bm1 \<leftarrow> cl_write bm op_block_id state_data;
     recover_tx_loop bm1 buffer (Suc i) n
   }"

definition recover_tx :: "block_manager \<Rightarrow> nat \<Rightarrow> nat \<Rightarrow> block_manager option" where
  "recover_tx bm txn_block_id log_cnt = do {
     buffer \<leftarrow> cl_read bm (txn_block_id + bm_block_cnt bm);
     recover_tx_loop bm buffer 0 log_cnt
   }"

text \<open>
  The loop over the transactions. It leaves the buffer, an access out of bounds, after at
  most 992 entries, so 993 rounds are enough fuel for every run that returns.
\<close>

fun recover_loop :: "nat \<Rightarrow> block_manager \<Rightarrow> byte list \<Rightarrow> nat \<Rightarrow> server_operation list \<Rightarrow>
    (block_manager \<times> nat \<times> server_operation list) option" where
  "recover_loop 0 bm buffer cur_txn_id ops = None"
| "recover_loop (Suc fuel) bm buffer cur_txn_id ops = do {
     let start_offset = tx_offset cur_txn_id;
     log_block_id \<leftarrow> tx_block_id buffer start_offset;
     log_count \<leftarrow> at buffer (start_offset + 2);
     if log_block_id = 0 then Some (bm, cur_txn_id, ops)
     else do {
       hasCommit \<leftarrow> at buffer (start_offset + 2);
       if hasCommit = 0
       then do {
         op \<leftarrow> get_operation bm log_block_id;
         recover_loop fuel bm buffer (Suc cur_txn_id) (ops @ [op])
       }
       else do {
         bm1 \<leftarrow> recover_tx bm log_block_id (unat log_count);
         recover_loop fuel bm1 buffer (Suc cur_txn_id) ops
       }
     }
   }"

definition recover :: "block_manager \<Rightarrow> commit_log \<Rightarrow> (block_manager \<times> commit_log) option" where
  "recover bm cl = do {
     buffer \<leftarrow> cl_read bm (bm_block_cnt bm);
     (bm1, cur_txn_id, ops) \<leftarrow> recover_loop 993 bm buffer 0 [];
     Some (bm1, cl\<lparr>cl_max_txn_id := cur_txn_id, cl_recover_operations := ops\<rparr>)
   }"


section \<open>Free log blocks\<close>

text \<open>Log block \<open>k\<close> is bit \<open>7 - k mod 8\<close> of byte \<open>k div 8\<close>; block 0, the log's superblock, is never free.\<close>

definition log_bit :: "byte list \<Rightarrow> nat \<Rightarrow> bool" where
  "log_bit data k \<longleftrightarrow> bit (data ! (k div 8)) (7 - k mod 8)"

definition set_log_bit :: "byte list \<Rightarrow> nat \<Rightarrow> byte list" where
  "set_log_bit data k = data[k div 8 := data ! (k div 8) OR push_bit (7 - k mod 8) 1]"

lemma and_push_bit_zero: "j < 8 \<Longrightarrow> (c :: byte) AND push_bit j 1 = 0 \<longleftrightarrow> \<not> bit c j"
  unfolding bit_eq_iff [of "c AND push_bit j 1" 0] by (auto simp: bit_simps)

lemma log_position: "(j :: nat) < 8 \<Longrightarrow> (i * 8 + (7 - j)) div 8 = i \<and> 7 - (i * 8 + (7 - j)) mod 8 = j"
proof -
  assume "j < 8"
  define d where "d = 7 - j"
  have "d < 8" "7 - d = j" using \<open>j < 8\<close> by (simp_all add: d_def)
  then show ?thesis unfolding d_def [symmetric] by simp
qed

lemma eight_down: "[8 * i..<8 * Suc i] = map (\<lambda>j. 8 * i + (7 - j)) [7, 6, 5, 4, 3, 2, 1, 0]"
  by (simp add: upt_rec)

lemma free_bit_find:
  "map_option (\<lambda>j. i * 8 + (7 - j)) (free_bit (data ! i) i) =
    List.find (\<lambda>k. \<not> log_bit data k) [max 1 (8 * i)..<8 * Suc i]"
proof -
  let ?f = "\<lambda>j. 8 * i + (7 - j)" and ?js = "[7, 6, 5, 4, 3, 2, 1, 0] :: nat list"
  have bit: "(\<not> log_bit data (?f j)) = (data ! i AND push_bit j 1 = 0)" if "j < 8" for j
  proof -
    show ?thesis using log_position [OF that, of i]
      unfolding log_bit_def and_push_bit_zero [OF that] mult.commute [of 8] by metis
  qed
  have same: "(\<not> (i = 0 \<and> x = 7) \<and> data ! i AND push_bit x 1 = 0) = ((\<lambda>k. \<not> log_bit data k) \<circ> ?f) x"
    if "x < 8" "i = 0 \<Longrightarrow> x \<noteq> 7" for x
    using bit [OF that(1)] that(2) unfolding o_def by blast
  show ?thesis
  proof (cases "i = 0")
    case True
    have "[max 1 (8 * i)..<8 * Suc i] = map ?f [6, 5, 4, 3, 2, 1, 0]" using True by (simp add: upt_rec)
    moreover have "List.find (\<lambda>j. \<not> (i = 0 \<and> j = 7) \<and> data ! i AND push_bit j 1 = 0) ?js =
        List.find (\<lambda>j. \<not> (i = 0 \<and> j = 7) \<and> data ! i AND push_bit j 1 = 0) [6, 5, 4, 3, 2, 1, 0]"
      by (subst List.find.simps) (simp only: True simp_thms if_False)
    moreover have "\<dots> = List.find ((\<lambda>k. \<not> log_bit data k) \<circ> ?f) [6, 5, 4, 3, 2, 1, 0]"
      by (rule find_cong, rule same) auto
    ultimately show ?thesis by (simp only: free_bit_def find_map mult.commute)
  next
    case False
    then have "[max 1 (8 * i)..<8 * Suc i] = map ?f ?js" using eight_down [of i] by (simp add: max_def)
    moreover have "List.find (\<lambda>j. \<not> (i = 0 \<and> j = 7) \<and> data ! i AND push_bit j 1 = 0) ?js =
        List.find ((\<lambda>k. \<not> log_bit data k) \<circ> ?f) ?js"
      by (rule find_cong, rule same) (use False in auto)
    ultimately show ?thesis by (simp only: free_bit_def find_map mult.commute)
  qed
qed

lemma free_bit_range: "free_bit c i = Some j \<Longrightarrow> j < 8 \<and> 0 < i * 8 + (7 - j)"
  by (auto simp: free_bit_def find_Some_iff nth_Cons' split: if_splits)

lemma find_free_loop_ok:
  assumes "i + n \<le> length data"
  shows "find_free_loop data i n =
    Some (case List.find (\<lambda>k. \<not> log_bit data k) [max 1 (8 * i)..<8 * (i + n)] of
            None \<Rightarrow> (0, data)
          | Some k \<Rightarrow> (k, set_log_bit data k))"
  using assms
proof (induction n arbitrary: i)
  case (Suc n)
  have split: "[max 1 (8 * i)..<8 * (i + Suc n)] = [max 1 (8 * i)..<8 * Suc i] @ [max 1 (8 * Suc i)..<8 * (Suc i + n)]"
    using upt_split [of "max 1 (8 * i)" "8 * Suc i" "8 * (i + Suc n)"] by (simp add: max_def)
  show ?case
  proof (cases "free_bit (data ! i) i")
    case None
    then have "List.find (\<lambda>k. \<not> log_bit data k) [max 1 (8 * i)..<8 * Suc i] = None"
      using free_bit_find [of i data] by simp
    with None Suc.IH [of "Suc i"] Suc.prems show ?thesis unfolding split by (simp add: find_append)
  next
    case (Some j)
    let ?k = "i * 8 + (7 - j)"
    have f: "List.find (\<lambda>k. \<not> log_bit data k) [max 1 (8 * i)..<8 * Suc i] = Some ?k"
      using free_bit_find [of i data] Some by simp
    note r = free_bit_range [OF Some]
    have "?k div 8 = i" "7 - ?k mod 8 = j" using log_position r by blast+
    then have "set_log_bit data ?k = data[i := data ! i OR push_bit j 1]" unfolding set_log_bit_def by metis
    moreover have "\<not> i * 8 + 7 \<le> j" "i = 0 \<Longrightarrow> \<not> 7 \<le> j" using r by auto
    ultimately show ?thesis using Some f Suc.prems unfolding split by (auto simp: find_append)
  qed
qed (simp add: max_def)

lemma find_free_log_block_ok:
  assumes "128 \<le> length data"
  shows "find_free_log_block data =
    map_option (\<lambda>k. (k, set_log_bit data k)) (List.find (\<lambda>k. \<not> log_bit data k) [1..<1024])"
proof -
  have "0 < k" if "List.find (\<lambda>k. \<not> log_bit data k) [1..<1024] = Some k" for k
    using that by (auto simp: find_Some_iff)
  then show ?thesis
    using find_free_loop_ok [of 0 128 data] assms
    by (auto simp: find_free_log_block_def split: option.splits)
qed

text \<open>The bitmap of a log that has been filled from the front.\<close>

definition used_below :: "byte list \<Rightarrow> nat \<Rightarrow> bool" where
  "used_below data m \<longleftrightarrow> (\<forall>k. 1 \<le> k \<longrightarrow> k < 1024 \<longrightarrow> log_bit data k = (k < m))"

lemma log_bit_set:
  assumes "k < 1024" "k' < 1024" "128 \<le> length data"
  shows "log_bit (set_log_bit data k) k' \<longleftrightarrow> k' = k \<or> log_bit data k'"
proof -
  have eq: "k' = k \<longleftrightarrow> k' div 8 = k div 8 \<and> 7 - k' mod 8 = 7 - k mod 8"
  proof
    assume a: "k' div 8 = k div 8 \<and> 7 - k' mod 8 = 7 - k mod 8"
    have "k' mod 8 < 8" "k mod 8 < 8" by simp_all
    with a have "k' mod 8 = k mod 8" by linarith
    with a show "k' = k" by (metis div_mult_mod_eq)
  qed simp
  have "k div 8 < length data" using assms by simp
  then show ?thesis
    unfolding log_bit_def set_log_bit_def
    by (cases "k' div 8 = k div 8") (auto simp: eq bit_simps nth_list_update)
qed

lemma find_free_below:
  assumes "used_below data m" "1 \<le> m" "m < 1024" "128 \<le> length data"
  shows "find_free_log_block data = Some (m, set_log_bit data m)" "used_below (set_log_bit data m) (Suc m)"
proof -
  have "List.find (\<lambda>k. \<not> log_bit data k) [1..<1024] = Some m"
    unfolding find_Some_iff using assms by (intro exI [of _ "m - 1"]) (auto simp: used_below_def)
  then show "find_free_log_block data = Some (m, set_log_bit data m)"
    by (simp add: find_free_log_block_ok [OF assms(4)])
  show "used_below (set_log_bit data m) (Suc m)"
    using assms log_bit_set [OF assms(3) _ assms(4)] by (auto simp: used_below_def)
qed

lemma find_free_n_below:
  assumes "used_below data m" "1 \<le> m" "m + n \<le> 1024" "128 \<le> length data"
  shows "\<exists>data'. find_free_n n data = Some ([m..<m + n], data') \<and> used_below data' (m + n) \<and>
    length data' = length data \<and> (\<forall>i \<ge> 128. data' ! i = data ! i)"
  using assms
proof (induction n arbitrary: m data)
  case (Suc n)
  have m: "m < 1024" using Suc.prems(3) by simp
  note s = find_free_below [OF Suc.prems(1,2) m Suc.prems(4)]
  have l: "length (set_log_bit data m) = length data" by (simp add: set_log_bit_def)
  from Suc.IH [OF s(2)] Suc.prems l obtain data' where
    d: "find_free_n n (set_log_bit data m) = Some ([Suc m..<Suc m + n], data')" "used_below data' (Suc m + n)"
      "length data' = length data" "\<forall>i \<ge> 128. data' ! i = set_log_bit data m ! i" by auto
  have "set_log_bit data m ! i = data ! i" if "128 \<le> i" for i
    using that m by (auto simp: set_log_bit_def nth_list_update)
  with d s(1) show ?case by (auto simp: upt_conv_Cons)
qed simp


section \<open>The device behind the log\<close>

definition log_dev :: "block_manager \<Rightarrow> bool" where
  "log_dev bm \<longleftrightarrow> bm_ok bm \<and> \<not> bm_maybe_failed bm \<and> bm_block_sz bm = 4096 \<and> in_dev bm (bm_block_cnt bm + 1023)"

abbreviation log_blk :: "block_manager \<Rightarrow> nat \<Rightarrow> byte list" where
  "log_blk bm i \<equiv> blk bm (bm_block_cnt bm + i)"

lemma log_dev_in_dev: "log_dev bm \<Longrightarrow> i < bm_block_cnt bm + 1024 \<Longrightarrow> in_dev bm i"
  by (auto simp: log_dev_def intro: in_dev_mono)

lemma log_dev_changes: "log_dev bm \<Longrightarrow> only_changes S bm bm' \<Longrightarrow> log_dev bm'"
  using only_changes_fields [of S bm bm'] by (simp add: log_dev_def)

lemma cl_read_ok: "log_dev bm \<Longrightarrow> i < bm_block_cnt bm + 1024 \<Longrightarrow> cl_read bm i = Some (blk bm i)"
  using log_dev_in_dev [of bm i] by (simp add: cl_read_def read_block_ok log_dev_def)

lemma cl_write_ok:
  assumes "log_dev bm" "i < bm_block_cnt bm + 1024" "length d = 4096"
  shows "cl_write bm i d = Some (put_blk bm i d)" "log_dev (put_blk bm i d)" "only_changes {i} bm (put_blk bm i d)"
    "j < bm_block_cnt bm + 1024 \<Longrightarrow> blk (put_blk bm i d) j = (if j = i then d else blk bm j)"
proof -
  note dev = log_dev_in_dev [OF assms(1,2)]
  have o: "bm_ok bm" "\<not> bm_maybe_failed bm" "bm_block_sz bm = 4096" using assms(1) by (simp_all add: log_dev_def)
  show "cl_write bm i d = Some (put_blk bm i d)" using write_block_ok [OF o(1) dev o(2)] o assms by (simp add: cl_write_def)
  show ch: "only_changes {i} bm (put_blk bm i d)" using dev o(3) assms(3) by (intro only_changes_put_blk) auto
  show "log_dev (put_blk bm i d)" by (rule log_dev_changes [OF assms(1) ch])
  show "j < bm_block_cnt bm + 1024 \<Longrightarrow> blk (put_blk bm i d) j = (if j = i then d else blk bm j)"
    using blk_put_blk [OF dev log_dev_in_dev [OF assms(1)]] o(3) assms(3) by simp
qed

lemma length_log_blk: "log_dev bm \<Longrightarrow> i < bm_block_cnt bm + 1024 \<Longrightarrow> length (blk bm i) = 4096"
  using log_dev_in_dev [of bm i] by (simp add: log_dev_def)

section \<open>The operation record\<close>

definition operation_ok :: "server_operation \<Rightarrow> bool" where
  "operation_ok op \<longleftrightarrow> so_parent op < 2 ^ 64 \<and> length (so_name op) \<le> 90 \<and> CHR 0x00 \<notin> set (so_name op)"

definition operation_bytes :: "server_operation \<Rightarrow> byte list" where
  "operation_bytes op = so_type op # le_bytes 8 (so_parent op) @ bytes_of_str (so_name op) @
     replicate (91 - length (so_name op)) 0"

lemma length_operation_bytes: "operation_ok op \<Longrightarrow> length (operation_bytes op) = 100"
  by (simp add: operation_ok_def operation_bytes_def)

lemma bytes_of_str_nonzero: "CHR 0x00 \<notin> set s \<Longrightarrow> 0 \<notin> set (bytes_of_str s)"
proof
  assume s: "CHR 0x00 \<notin> set s" and "0 \<in> set (bytes_of_str s)"
  then obtain c where c: "c \<in> set s" "(word_of_nat (of_char c) :: byte) = 0" by (auto simp: bytes_of_str_def)
  have "(of_char c :: nat) < 256" using nat_of_char_less_256 by simp
  moreover have "unat (word_of_nat (of_char c) :: byte) = 0" using c(2) by simp
  ultimately have "(of_char c :: nat) = 0" by (simp add: unat_of_nat)
  then have "(of_char c :: nat) = of_char CHR 0x00" by simp
  then have "c = CHR 0x00" by (simp only: of_char_eq_iff)
  with s c(1) show False by simp
qed

lemma set_operation_ok:
  assumes dev: "log_dev bm" and i: "i < 1024" and op: "operation_ok op"
  shows "set_operation bm i op =
    Some (put_blk bm (bm_block_cnt bm + i) (patch (replicate 4096 0) 3996 (operation_bytes op)))"
proof -
  let ?z = "replicate 4096 (0 :: byte)" and ?n = "length (so_name op)"
  let ?b2 = "patch (?z[3996 := so_type op]) 3997 (le_bytes 8 (so_parent op))"
  let ?b3 = "patch ?b2 4005 (bytes_of_str (so_name op))"
  have n: "?n \<le> 90" using op by (simp add: operation_ok_def)
  have l: "length ?b2 = 4096" by simp
  have l3: "length ?b3 = 4096" using n by simp
  have "?b3[4005 + ?n := 0] = patch ?z 3996 (operation_bytes op)"
  proof (rule nth_equalityI)
    show "length (?b3[4005 + ?n := 0]) = length (patch ?z 3996 (operation_bytes op))"
      using l3 length_operation_bytes [OF op] by simp
    fix x assume "x < length (?b3[4005 + ?n := 0])"
    then have x: "x < 4096" using l3 by simp
    show "?b3[4005 + ?n := 0] ! x = patch ?z 3996 (operation_bytes op) ! x"
      using x n l l3 length_operation_bytes [OF op]
      by (auto simp: nth_list_update nth_patch operation_bytes_def nth_append nth_Cons')
  qed
  with n l l3 cl_write_ok(1) [OF dev] i length_operation_bytes [OF op] show ?thesis
    by (simp add: set_operation_def Let_def add.commute)
qed

lemma get_operation_ok:
  assumes dev: "log_dev bm" and i: "i < 1024" and op: "operation_ok op"
    and b: "chunk (log_blk bm i) 3996 100 = operation_bytes op"
  shows "get_operation bm i = Some op"
proof -
  let ?b = "log_blk bm i" and ?n = "length (so_name op)"
  have l: "length ?b = 4096" using length_log_blk [OF dev] i by simp
  have nth: "?b ! (3996 + x) = operation_bytes op ! x" if "x < 100" for x
    using b that l nth_chunk [of 3996 100 ?b x] by simp
  have n: "?n \<le> 90" "CHR 0x00 \<notin> set (so_name op)" "so_parent op < 2 ^ 64" using op by (simp_all add: operation_ok_def)
  have t: "?b ! 3996 = so_type op" using nth [of 0] by (simp add: operation_bytes_def)
  have "chunk ?b 3997 8 = le_bytes 8 (so_parent op)"
  proof (rule nth_equalityI)
    fix x assume "x < length (chunk ?b 3997 8)"
    then have "x < 8" using l by simp
    then show "chunk ?b 3997 8 ! x = le_bytes 8 (so_parent op) ! x"
      using l nth [of "1 + x"] by (simp add: nth_chunk operation_bytes_def nth_append)
  qed (use l in simp)
  then have p: "le_nat (chunk ?b 3997 8) = so_parent op" using n(3) by simp
  have "drop 4005 ?b = bytes_of_str (so_name op) @ replicate (91 - ?n) 0"
  proof (rule nth_equalityI)
    fix x assume "x < length (drop 4005 ?b)"
    then have "x < 91" using l by simp
    then show "drop 4005 ?b ! x = (bytes_of_str (so_name op) @ replicate (91 - ?n) 0) ! x"
      using l nth [of "9 + x"] n(1) by (simp add: operation_bytes_def nth_append)
  qed (use l n in simp)
  moreover have "replicate (91 - ?n) (0 :: byte) = 0 # replicate (90 - ?n) 0"
    using n(1) by (simp add: Suc_diff_le replicate_Suc [symmetric] del: replicate_Suc)
  ultimately have r: "drop 4005 ?b = bytes_of_str (so_name op) @ 0 # replicate (90 - ?n) 0" by simp
  have "takeWhile (\<lambda>b. b \<noteq> 0) (drop 4005 ?b) = bytes_of_str (so_name op)"
    unfolding r using takeWhile_sep [OF bytes_of_str_nonzero [OF n(2)]] by blast
  moreover have "0 \<in> set (drop 4005 ?b)" unfolding r by simp
  ultimately show ?thesis
    using l t p i cl_read_ok [OF dev, of "bm_block_cnt bm + i"]
    by (simp add: get_operation_def Let_def add.commute)
qed


section \<open>Appending and redoing\<close>

text \<open>What recovery promises: the logged states are written over the device in their order.\<close>

definition redo :: "block_operation list \<Rightarrow> (nat \<Rightarrow> byte list) \<Rightarrow> nat \<Rightarrow> byte list" where
  "redo ops f = fold (\<lambda>op g. g(bo_block_id op := bo_new_block_state op)) ops f"

definition log_entry :: "byte list \<Rightarrow> nat \<Rightarrow> nat \<times> nat" where
  "log_entry buffer idx = (le_nat (chunk buffer (idx * 10) 8), unat (buffer ! (idx * 10 + 8)))"

definition operations_ok :: "block_manager \<Rightarrow> block_operation list \<Rightarrow> bool" where
  "operations_ok bm ops \<longleftrightarrow>
     list_all (\<lambda>op. bo_block_id op < bm_block_cnt bm \<and> length (bo_new_block_state op) = 4096) ops"

lemma redo_Nil [simp]: "redo [] f = f"
  by (simp add: redo_def)

lemma redo_Cons: "redo (op # ops) f = redo ops (f(bo_block_id op := bo_new_block_state op))"
  by (simp add: redo_def)

lemma redo_cong: "f j = g j \<Longrightarrow> redo ops f j = redo ops g j"
proof (induction ops arbitrary: f g)
  case (Cons op ops)
  show ?case unfolding redo_Cons by (rule Cons.IH) (simp add: Cons.prems)
qed simp

lemma log_entry_cong:
  assumes "length b = 4096" "length b' = 4096" "idx * 10 + 10 \<le> 4096" "\<And>x. x < idx * 10 + 10 \<Longrightarrow> b' ! x = b ! x"
  shows "log_entry b' idx = log_entry b idx"
proof -
  have "chunk b' (idx * 10) 8 = chunk b (idx * 10) 8"
    using assms by (intro nth_equalityI) (simp_all add: nth_chunk)
  then show ?thesis using assms by (simp add: log_entry_def)
qed

lemma append_entry:
  assumes l: "length b = 4096" and i: "idx * 10 + 10 \<le> 3996" and v: "v < 2 ^ 64"
  shows "\<exists>b1 b2 b3. put_le 8 b (idx * 10) v = Some b1 \<and> upd b1 (idx * 10 + 8) (word_of_nat (lb mod 256)) = Some b2 \<and>
    upd b2 (idx * 10 + 9) (word_of_nat (lb div 256)) = Some b3 \<and> length b3 = 4096 \<and>
    log_entry b3 idx = (v, lb mod 256) \<and> (\<forall>x. x < idx * 10 \<longrightarrow> b3 ! x = b ! x) \<and>
    chunk b3 3996 100 = chunk b 3996 100"
proof -
  let ?b1 = "patch b (idx * 10) (le_bytes 8 v)"
  let ?b2 = "?b1[idx * 10 + 8 := word_of_nat (lb mod 256)]"
  let ?b3 = "?b2[idx * 10 + 9 := word_of_nat (lb div 256)]"
  have l1: "length ?b1 = 4096" using l i by simp
  have out: "?b3 ! x = b ! x" if "x < idx * 10 \<or> idx * 10 + 10 \<le> x" "x < 4096" for x
    using that l l1 i by (auto simp: nth_list_update nth_patch)
  have "chunk ?b3 (idx * 10) 8 = le_bytes 8 v"
    using l l1 i by (intro nth_equalityI) (auto simp: nth_chunk nth_patch)
  moreover have "?b3 ! (idx * 10 + 8) = word_of_nat (lb mod 256)" using l1 i by simp
  moreover have "unat (word_of_nat (lb mod 256) :: byte) = lb mod 256" by (simp add: unat_of_nat)
  ultimately have e: "log_entry ?b3 idx = (v, lb mod 256)" using v by (simp add: log_entry_def)
  have "chunk ?b3 3996 100 = chunk b 3996 100"
  proof (rule nth_equalityI)
    fix x assume "x < length (chunk ?b3 3996 100)"
    then have "x < 100" using l1 by simp
    with out [of "3996 + x"] i l l1 show "chunk ?b3 3996 100 ! x = chunk b 3996 100 ! x"
      unfolding nth_chunk [of x] by (simp only: nth_chunk length_list_update) simp
  qed (use l l1 in simp)
  note c = this
  have u: "put_le 8 b (idx * 10) v = Some ?b1" "upd ?b1 (idx * 10 + 8) (word_of_nat (lb mod 256)) = Some ?b2"
    "upd ?b2 (idx * 10 + 9) (word_of_nat (lb div 256)) = Some ?b3" "length ?b3 = 4096"
    using l l1 i by simp_all
  have f: "\<forall>x. x < idx * 10 \<longrightarrow> ?b3 ! x = b ! x"
    by (intro allI impI out disjI1) (use i in simp_all)
  show ?thesis by (intro exI [of _ ?b1] exI [of _ ?b2] exI [of _ ?b3] conjI u e f c)
qed

lemma append_loop_ok:
  assumes "log_dev bm" "length b = 4096" "(idx + length ops) * 10 \<le> 3996" "length lbs = length ops"
    "\<And>lb. lb \<in> set lbs \<Longrightarrow> lb < 1024" "distinct lbs" "operations_ok bm ops"
  shows "\<exists>bm' b'. append_loop bm b idx lbs ops = Some (bm', b') \<and> length b' = 4096 \<and>
    only_changes ((+) (bm_block_cnt bm) ` set lbs) bm bm' \<and>
    (\<forall>k < length ops. blk bm' (bm_block_cnt bm + lbs ! k) = bo_new_block_state (ops ! k) \<and>
       log_entry b' (idx + k) = (bo_block_id (ops ! k), lbs ! k mod 256)) \<and>
    (\<forall>x. x < idx * 10 \<longrightarrow> b' ! x = b ! x) \<and> chunk b' 3996 100 = chunk b 3996 100"
  using assms
proof (induction ops arbitrary: bm b idx lbs)
  case (Cons op ops)
  let ?c = "bm_block_cnt bm"
  from Cons.prems(4) obtain lb lbs' where lbs: "lbs = lb # lbs'" "length lbs' = length ops" by (cases lbs) auto
  have op: "bo_block_id op < ?c" "length (bo_new_block_state op) = 4096" using Cons.prems(7) by (simp_all add: operations_ok_def)
  have c: "?c < 2 ^ 32" using Cons.prems(1) bm_ok_cnt unfolding log_dev_def by blast
  have i: "idx * 10 + 10 \<le> 3996" "bo_block_id op < 2 ^ 64" using Cons.prems(3) op(1) c by simp_all
  from append_entry [OF Cons.prems(2) i, of lb] obtain b1 b2 b3 where
    e: "put_le 8 b (idx * 10) (bo_block_id op) = Some b1" "upd b1 (idx * 10 + 8) (word_of_nat (lb mod 256)) = Some b2"
      "upd b2 (idx * 10 + 9) (word_of_nat (lb div 256)) = Some b3" "length b3 = 4096"
      "log_entry b3 idx = (bo_block_id op, lb mod 256)" "\<forall>x. x < idx * 10 \<longrightarrow> b3 ! x = b ! x"
      "chunk b3 3996 100 = chunk b 3996 100" by blast
  have lb: "lb + ?c < ?c + 1024" using Cons.prems(5) lbs by simp
  note w = cl_write_ok [OF Cons.prems(1) lb op(2)]
  let ?bm1 = "put_blk bm (lb + ?c) (bo_new_block_state op)"
  have "operations_ok ?bm1 ops" using Cons.prems(7) by (simp add: operations_ok_def)
  with Cons.IH [OF w(2) e(4), of "Suc idx" lbs'] Cons.prems(3,5,6) lbs obtain bm' b' where
    r: "append_loop ?bm1 b3 (Suc idx) lbs' ops = Some (bm', b')" "length b' = 4096"
      "only_changes ((+) ?c ` set lbs') ?bm1 bm'"
      "\<forall>k < length ops. blk bm' (?c + lbs' ! k) = bo_new_block_state (ops ! k) \<and>
         log_entry b' (Suc idx + k) = (bo_block_id (ops ! k), lbs' ! k mod 256)"
      "\<forall>x. x < Suc idx * 10 \<longrightarrow> b' ! x = b3 ! x" "chunk b' 3996 100 = chunk b3 3996 100" by auto
  have ch: "only_changes ((+) ?c ` set lbs) bm bm'"
    using only_changes_trans [OF w(3) r(3)] by (rule only_changes_mono) (auto simp: lbs add.commute)
  have nl: "lb \<notin> set lbs'" using Cons.prems(6) lbs by simp
  have dev: "in_dev ?bm1 (?c + lb)" using log_dev_in_dev [OF w(2)] lb by (simp add: add.commute)
  have "?c + lb \<notin> (+) ?c ` set lbs'" using nl by auto
  then have first: "blk bm' (?c + lb) = bo_new_block_state op"
    using only_changes_blk [OF r(3) dev] w(4) [of "?c + lb"] lb by (simp add: add.commute)
  have fe: "log_entry b' idx = (bo_block_id op, lb mod 256)"
    using log_entry_cong [OF e(4) r(2), of idx] i(1) r(5) e(5) by simp
  have "append_loop bm b idx lbs (op # ops) = Some (bm', b')" using e(1-3) w(1) r(1) by (simp add: lbs)
  moreover have "blk bm' (?c + lbs ! k) = bo_new_block_state ((op # ops) ! k) \<and>
      log_entry b' (idx + k) = (bo_block_id ((op # ops) ! k), lbs ! k mod 256)" if "k < length (op # ops)" for k
    using that first fe r(4) by (cases k) (auto simp: lbs)
  ultimately show ?case using r(2,5,6) ch e(6,7) by auto
qed (simp add: operations_ok_def)

lemma recover_tx_loop_ok:
  assumes "log_dev bm" "length b = 4096" "(i + length ops) * 10 \<le> 3996" "operations_ok bm ops"
    "\<And>k. k < length ops \<Longrightarrow> fst (log_entry b (i + k)) = bo_block_id (ops ! k) \<and> snd (log_entry b (i + k)) < 1024 \<and>
      log_blk bm (snd (log_entry b (i + k))) = bo_new_block_state (ops ! k)"
  shows "\<exists>bm'. recover_tx_loop bm b i (length ops) = Some bm' \<and> only_changes {..<bm_block_cnt bm} bm bm' \<and>
    (\<forall>j < bm_block_cnt bm. blk bm' j = redo ops (blk bm) j)"
  using assms
proof (induction ops arbitrary: bm i)
  case (Cons op ops)
  let ?c = "bm_block_cnt bm" and ?lo = "snd (log_entry b i)"
  have e: "fst (log_entry b i) = bo_block_id op" "?lo < 1024" "log_blk bm ?lo = bo_new_block_state op"
    using Cons.prems(5) [of 0] by simp_all
  have op: "bo_block_id op < ?c" "length (bo_new_block_state op) = 4096"
    using Cons.prems(4) by (simp_all add: operations_ok_def)
  have rd: "cl_read bm (?lo + ?c) = Some (bo_new_block_state op)"
    using cl_read_ok [OF Cons.prems(1), of "?lo + ?c"] e(2,3) by (simp add: add.commute)
  have lt: "bo_block_id op < ?c + 1024" using op(1) by simp
  note w = cl_write_ok [OF Cons.prems(1) lt op(2)]
  let ?bm1 = "put_blk bm (bo_block_id op) (bo_new_block_state op)"
  have log1: "blk ?bm1 (?c + x) = log_blk bm x" if "x < 1024" for x using w(4) [of "?c + x"] that op(1) by simp
  have pre: "fst (log_entry b (Suc i + k)) = bo_block_id (ops ! k) \<and> snd (log_entry b (Suc i + k)) < 1024 \<and>
      log_blk ?bm1 (snd (log_entry b (Suc i + k))) = bo_new_block_state (ops ! k)" if "k < length ops" for k
    using Cons.prems(5) [of "Suc k"] that log1 by simp
  have "operations_ok ?bm1 ops" using Cons.prems(4) by (simp add: operations_ok_def)
  moreover have "(Suc i + length ops) * 10 \<le> 3996" using Cons.prems(3) by simp
  ultimately obtain bm' where
    r: "recover_tx_loop ?bm1 b (Suc i) (length ops) = Some bm'" "only_changes {..<?c} ?bm1 bm'"
      "\<forall>j < ?c. blk bm' j = redo ops (blk ?bm1) j"
    using Cons.IH [OF w(2) Cons.prems(2) _ _ pre] by (simp only: put_blk_fields) blast
  have "recover_tx_loop bm b i (length (op # ops)) = Some bm'"
    using Cons.prems(2,3) e(1) rd w(1) r(1) by (simp add: log_entry_def Let_def)
  moreover have "only_changes {..<?c} bm bm'"
    using only_changes_trans [OF w(3) r(2)] by (rule only_changes_mono) (use op(1) in auto)
  moreover have "redo ops (blk ?bm1) j = redo (op # ops) (blk bm) j" if "j < ?c" for j
    using w(4) [of j] that unfolding redo_Cons by (intro redo_cong) simp
  ultimately show ?case using r(3) by (intro exI [of _ bm'] conjI) simp_all
qed (simp add: redo_def)

end
