(* ===== verification/Commit_Log_Correct.thy ===== *)
theory Commit_Log_Correct
  imports Commit_Log
begin

text \<open>
  Correctness of the commit log: the log blocks represent a list of transactions, each
  operation of the log changes that list as it promises, and recovery redoes it. The
  interface that the metadata server relies on is the locale \<open>redo_log\<close>, interpreted on the
  operations of \<open>Commit_Log\<close>.
\<close>

section \<open>The log as a list of transactions\<close>

text \<open>
  What the log promises: it is a list of transactions, each with its log block, its operation
  and the logged states with their log blocks. The representation is a relation between the
  blocks of the log and that list; \<open>m\<close> is the next free log block. Recovery keeps the low byte
  of a log block number only, so that the relation stops at block 255.
\<close>

type_synonym txn = "nat \<times> server_operation \<times> (nat \<times> block_operation) list"

abbreviation txn_blocks :: "txn \<Rightarrow> nat list" where
  "txn_blocks t \<equiv> fst t # map fst (snd (snd t))"

abbreviation txn_ops :: "txn \<Rightarrow> block_operation list" where
  "txn_ops t \<equiv> map snd (snd (snd t))"

definition log_blocks :: "txn list \<Rightarrow> nat list" where
  "log_blocks T = concat (map txn_blocks T)"

definition txn_rep :: "(nat \<Rightarrow> byte list) \<Rightarrow> nat \<Rightarrow> txn \<Rightarrow> bool" where
  "txn_rep B t tx \<longleftrightarrow> (case tx of (lb, so, es) \<Rightarrow>
     B 0 ! tx_offset t = 0 \<and> B 0 ! (tx_offset t + 1) = word_of_nat lb \<and>
     B 0 ! (tx_offset t + 2) = word_of_nat (length es) \<and> operation_ok so \<and>
     chunk (B lb) 3996 100 = operation_bytes so \<and>
     (\<forall>k < length es. log_entry (B lb) k = (bo_block_id (snd (es ! k)), fst (es ! k)) \<and>
        B (fst (es ! k)) = bo_new_block_state (snd (es ! k))))"

definition log_rep :: "(nat \<Rightarrow> byte list) \<Rightarrow> txn list \<Rightarrow> nat \<Rightarrow> bool" where
  "log_rep B T m \<longleftrightarrow>
     1 \<le> m \<and> m \<le> 256 \<and> length T < m \<and> used_below (B 0) m \<and>
     distinct (log_blocks T) \<and> set (log_blocks T) \<subseteq> {1..<m} \<and> (\<forall>i < 1024. length (B i) = 4096) \<and>
     (\<forall>t < length T. txn_rep B t (T ! t)) \<and>
     (\<forall>x. tx_offset (length T) \<le> x \<longrightarrow> x < 4096 \<longrightarrow> B 0 ! x = 0)"

lemma log_blocks_snoc: "log_blocks (T @ [t]) = log_blocks T @ txn_blocks t"
  by (simp add: log_blocks_def)

lemma length_le_log_blocks: "t < length T \<Longrightarrow> length (snd (snd (T ! t))) < length (log_blocks T)"
proof (induction T arbitrary: t)
  case (Cons a T)
  show ?case
  proof (cases t)
    case (Suc t')
    then show ?thesis using Cons.IH [of t'] Cons.prems by (simp add: log_blocks_def)
  qed (simp add: log_blocks_def)
qed simp

lemma log_rep_bounds:
  assumes "log_rep B T m"
  shows "length (log_blocks T) < m" "t < length T \<Longrightarrow> length (snd (snd (T ! t))) < 255"
    "t < length T \<Longrightarrow> lb \<in> set (txn_blocks (T ! t)) \<Longrightarrow> 1 \<le> lb \<and> lb < m"
proof -
  have m: "1 \<le> m" "m \<le> 256" "distinct (log_blocks T)" "set (log_blocks T) \<subseteq> {1..<m}"
    using assms by (simp_all add: log_rep_def)
  have "card (set (log_blocks T)) \<le> card {1..<m}" by (rule card_mono [OF _ m(4)]) simp
  then show l: "length (log_blocks T) < m" using distinct_card [OF m(3)] m(1) by simp
  show "t < length T \<Longrightarrow> length (snd (snd (T ! t))) < 255" using length_le_log_blocks [of t T] l m(2) by linarith
  assume "t < length T" "lb \<in> set (txn_blocks (T ! t))"
  then have "lb \<in> set (log_blocks T)" unfolding log_blocks_def set_concat set_map using nth_mem by blast
  then show "1 \<le> lb \<and> lb < m" using m(4) by auto
qed

lemma txn_rep_cong:
  assumes "txn_rep B t tx" "\<And>x. x < 3 \<Longrightarrow> B' 0 ! (tx_offset t + x) = B 0 ! (tx_offset t + x)"
    "\<And>i. i \<in> set (txn_blocks tx) \<Longrightarrow> B' i = B i"
  shows "txn_rep B' t tx"
proof -
  obtain lb so es where tx: "tx = (lb, so, es)" by (cases tx)
  have "B' lb = B lb" "\<And>k. k < length es \<Longrightarrow> B' (fst (es ! k)) = B (fst (es ! k))" using assms(3) tx by simp_all
  moreover have "B' 0 ! tx_offset t = B 0 ! tx_offset t" "B' 0 ! (tx_offset t + 1) = B 0 ! (tx_offset t + 1)"
    "B' 0 ! (tx_offset t + 2) = B 0 ! (tx_offset t + 2)"
    using assms(2) [of 0] assms(2) [of 1] assms(2) [of 2] by simp_all
  ultimately show ?thesis using assms(1) by (simp add: txn_rep_def tx)
qed

lemma log_rep_cong: "log_rep B T m \<Longrightarrow> (\<And>i. i < 1024 \<Longrightarrow> B' i = B i) \<Longrightarrow> log_rep B' T m"
proof -
  assume r: "log_rep B T m" and e: "\<And>i. i < 1024 \<Longrightarrow> B' i = B i"
  have "txn_rep B' t (T ! t)" if "t < length T" for t
  proof (rule txn_rep_cong)
    show "txn_rep B t (T ! t)" using r that by (simp add: log_rep_def)
    show "B' 0 ! (tx_offset t + x) = B 0 ! (tx_offset t + x)" for x using e [of 0] by simp
    show "B' i = B i" if "i \<in> set (txn_blocks (T ! t))" for i
      using log_rep_bounds(3) [OF r \<open>t < length T\<close> that] r by (intro e) (simp add: log_rep_def)
  qed
  moreover have "B' 0 = B 0" using e by simp
  ultimately show ?thesis using r e by (simp add: log_rep_def)
qed

lemma used_below_cong: "used_below S m \<Longrightarrow> (\<And>x. x < 128 \<Longrightarrow> S' ! x = S ! x) \<Longrightarrow> used_below S' m"
  by (simp add: used_below_def log_bit_def)

lemma log_rep_alloc:
  assumes r: "log_rep B T m" and m: "m < 256" and so: "operation_ok so"
    and S: "length S = 4096" "used_below S (Suc m)" "\<And>x. 128 \<le> x \<Longrightarrow> x < tx_offset (length T) \<Longrightarrow> S ! x = B 0 ! x"
      "\<And>x. tx_offset (length T) \<le> x \<Longrightarrow> x < 4096 \<Longrightarrow> S ! x = (if x = tx_offset (length T) + 1 then word_of_nat m else 0)"
    and b: "length b = 4096" "chunk b 3996 100 = operation_bytes so"
    and B': "B' 0 = S" "B' m = b" "\<And>i. i < 1024 \<Longrightarrow> i \<noteq> 0 \<Longrightarrow> i \<noteq> m \<Longrightarrow> B' i = B i"
  shows "log_rep B' (T @ [(m, so, [])]) (Suc m)"
proof -
  have old: "txn_rep B' t (T ! t)" if "t < length T" for t
  proof (rule txn_rep_cong)
    show "txn_rep B t (T ! t)" using r that by (simp add: log_rep_def)
    show "B' 0 ! (tx_offset t + x) = B 0 ! (tx_offset t + x)" if "x < 3" for x
      using S(3) [of "tx_offset t + x"] that \<open>t < length T\<close> by (simp add: B'(1) tx_offset_def)
    show "B' i = B i" if "i \<in> set (txn_blocks (T ! t))" for i
      using log_rep_bounds(3) [OF r \<open>t < length T\<close> that] m by (intro B'(3)) simp_all
  qed
  have off: "tx_offset (length T) + 4 \<le> 4096" using r m by (simp add: log_rep_def tx_offset_def)
  have new: "txn_rep B' (length T) (m, so, [])"
    using S(4) [of "tx_offset (length T)"] S(4) [of "tx_offset (length T) + 1"] S(4) [of "tx_offset (length T) + 2"] off so b(2)
    by (simp add: txn_rep_def B'(1,2))
  have "txn_rep B' t ((T @ [(m, so, [])]) ! t)" if "t < length (T @ [(m, so, [])])" for t
    using old new that by (cases "t < length T") (simp_all add: nth_append less_Suc_eq)
  moreover have "length (B' i) = 4096" if "i < 1024" for i
    using r that B' S(1) b(1) by (cases "i = 0 \<or> i = m") (auto simp: log_rep_def)
  moreover have "B' 0 ! x = 0" if "tx_offset (length (T @ [(m, so, [])])) \<le> x" "x < 4096" for x
    using S(4) [of x] that by (simp add: B'(1) tx_offset_def)
  moreover have "set (log_blocks T) \<subseteq> {1..<m}" "distinct (log_blocks T)" "length T < m" "1 \<le> m"
    using r by (simp_all add: log_rep_def)
  then have "distinct (log_blocks (T @ [(m, so, [])]))" "set (log_blocks (T @ [(m, so, [])])) \<subseteq> {1..<Suc m}"
    "length (T @ [(m, so, [])]) < Suc m" by (auto simp: log_blocks_snoc)
  ultimately show ?thesis using m S(2) by (simp add: log_rep_def B'(1))
qed


lemma log_blocks_update:
  assumes "t < length T" "txn_blocks tx = txn_blocks (T ! t) @ xs" "distinct (log_blocks T)" "distinct xs"
    "set xs \<inter> set (log_blocks T) = {}"
  shows "distinct (log_blocks (T[t := tx]))" "set (log_blocks (T[t := tx])) = set (log_blocks T) \<union> set xs"
proof -
  have T: "T = take t T @ T ! t # drop (Suc t) T" using assms(1) by (rule id_take_nth_drop)
  have up: "T[t := tx] = take t T @ tx # drop (Suc t) T" using assms(1) by (rule upd_conv_take_nth_drop)
  have cat: "log_blocks (A @ a # C) = log_blocks A @ txn_blocks a @ log_blocks C" for A a C
    by (simp add: log_blocks_def)
  define A where "A = log_blocks (take t T)"
  define C where "C = log_blocks (drop (Suc t) T)"
  define D where "D = txn_blocks (T ! t)"
  have b: "log_blocks T = A @ D @ C" by (subst T) (simp only: cat A_def C_def D_def)
  have b': "log_blocks (T[t := tx]) = A @ (D @ xs) @ C" unfolding up cat assms(2) A_def C_def D_def ..
  show "distinct (log_blocks (T[t := tx]))" using assms(3-5) unfolding b b' by auto
  show "set (log_blocks (T[t := tx])) = set (log_blocks T) \<union> set xs" unfolding b b' by auto
qed

lemma log_rep_disjoint:
  assumes "log_rep B T m" "t < length T" "t' < length T" "t' \<noteq> t"
  shows "fst (T ! t) \<notin> set (txn_blocks (T ! t'))"
proof
  assume m: "fst (T ! t) \<in> set (txn_blocks (T ! t'))"
  have d: "distinct (concat (map txn_blocks T))" using assms(1) by (simp add: log_rep_def log_blocks_def)
  have "set (map txn_blocks T ! t) \<inter> set (map txn_blocks T ! t') = {}"
  proof (cases "map txn_blocks T ! t = map txn_blocks T ! t'")
    case True
    have "distinct (removeAll [] (map txn_blocks T))" using d by (simp add: distinct_concat_iff)
    moreover have "removeAll [] (map txn_blocks T) = map txn_blocks T" by (induction T) auto
    ultimately have "distinct (map txn_blocks T)" by simp
    then have "t = t'"
      using True assms(2,3) nth_eq_iff_index_eq [of "map txn_blocks T" t t'] by (simp only: length_map)
    then show ?thesis using assms(4) by simp
  next
    case False
    moreover have "map txn_blocks T ! t \<in> set (map txn_blocks T)" "map txn_blocks T ! t' \<in> set (map txn_blocks T)"
      using assms(2,3) by (simp_all only: length_map nth_mem)
    ultimately show ?thesis using d unfolding distinct_concat_iff by blast
  qed
  then show False using m assms(2,3) by auto
qed

lemma log_rep_own_disjoint:
  assumes "log_rep B T m" "t < length T"
  shows "fst (T ! t) \<notin> fst ` set (snd (snd (T ! t)))"
proof -
  have "distinct (concat (map txn_blocks T))" using assms(1) by (simp add: log_rep_def log_blocks_def)
  moreover have "txn_blocks (T ! t) \<in> set (map txn_blocks T)" unfolding set_map using assms(2) by (intro imageI nth_mem)
  ultimately have "distinct (txn_blocks (T ! t))" unfolding distinct_concat_iff by blast
  then show ?thesis by simp
qed

lemma log_rep_append:
  assumes r: "log_rep B T m" and t: "t < length T" and m: "m + length ops \<le> 256"
    and S: "length S = 4096" "used_below S (m + length ops)"
      "\<And>x. 128 \<le> x \<Longrightarrow> x < 4096 \<Longrightarrow>
         S ! x = (if x = tx_offset t + 2 then B 0 ! x + word_of_nat (length ops) else B 0 ! x)"
    and b: "length b = 4096" "\<And>x. x < length es * 10 \<Longrightarrow> b ! x = B lb ! x" "chunk b 3996 100 = chunk (B lb) 3996 100"
      "\<And>k. k < length ops \<Longrightarrow> log_entry b (length es + k) = (bo_block_id (ops ! k), m + k)"
    and tx: "T ! t = (lb, so, es)"
    and B': "B' 0 = S" "B' lb = b" "\<And>k. k < length ops \<Longrightarrow> B' (m + k) = bo_new_block_state (ops ! k)"
      "\<And>i. i < 1024 \<Longrightarrow> i \<noteq> 0 \<Longrightarrow> i \<noteq> lb \<Longrightarrow> i < m \<or> m + length ops \<le> i \<Longrightarrow> B' i = B i"
    and ok: "\<And>op. op \<in> set ops \<Longrightarrow> length (bo_new_block_state op) = 4096"
  shows "log_rep B' (T[t := (lb, so, es @ zip [m..<m + length ops] ops)]) (m + length ops)"
proof -
  let ?n = "length ops" and ?tx = "(lb, so, es @ zip [m..<m + length ops] ops)"
  have m1: "1 \<le> m" "length T < m" "m \<le> 256" "\<forall>i < 1024. length (B i) = 4096" using r by (simp_all add: log_rep_def)
  have lb: "1 \<le> lb" "lb < m" using log_rep_bounds(3) [OF r t, of lb] by (simp_all add: tx)
  have old: "txn_rep B' t' (T ! t')" if t': "t' < length T" "t' \<noteq> t" for t'
  proof (rule txn_rep_cong)
    show "txn_rep B t' (T ! t')" using r t' by (simp add: log_rep_def)
    show "B' 0 ! (tx_offset t' + x) = B 0 ! (tx_offset t' + x)" if "x < 3" for x
      using S(3) [of "tx_offset t' + x"] that t' m1 by (auto simp: B'(1) tx_offset_def)
    show "B' i = B i" if i: "i \<in> set (txn_blocks (T ! t'))" for i
      using log_rep_bounds(3) [OF r t'(1) i] log_rep_disjoint [OF r t t'] i m m1(1) by (intro B'(4)) (auto simp: tx)
  qed
  note r0 = log_rep_def [of B T m]
  have rep: "txn_rep B t (lb, so, es)" using r t tx by (metis log_rep_def)
  have es: "length es < 255" using log_rep_bounds(2) [OF r t] by (simp add: tx)
  have le: "log_entry b k = log_entry (B lb) k" if "k < length es" for k
    using that es b(1,2) m1 lb by (intro log_entry_cong) auto
  have st: "B' (fst (es ! k)) = B (fst (es ! k))" if "k < length es" for k
  proof -
    have "fst (es ! k) \<in> set (txn_blocks (T ! t))" using that by (simp add: tx)
    note bd = log_rep_bounds(3) [OF r t this]
    moreover have "fst (es ! k) \<noteq> lb" using log_rep_own_disjoint [OF r t] that by (force simp: tx)
    ultimately show ?thesis using m by (intro B'(4)) auto
  qed
  have "log_entry (B' lb) k = (bo_block_id (snd ((es @ zip [m..<m + ?n] ops) ! k)), fst ((es @ zip [m..<m + ?n] ops) ! k)) \<and>
      B' (fst ((es @ zip [m..<m + ?n] ops) ! k)) = bo_new_block_state (snd ((es @ zip [m..<m + ?n] ops) ! k))"
    if "k < length es + ?n" for k
  proof (cases "k < length es")
    case True
    then show ?thesis using rep le [OF True] st [OF True] by (simp add: txn_rep_def nth_append B'(2))
  next
    case False
    then obtain j where j: "k = length es + j" using le_Suc_ex by (metis not_less)
    then have "j < ?n" using that by simp
    then show ?thesis using b(4) [of j] B'(3) [of j] by (simp add: j nth_append B'(2))
  qed
  moreover have "B' 0 ! tx_offset t = 0" "B' 0 ! (tx_offset t + 1) = word_of_nat lb"
      "B' 0 ! (tx_offset t + 2) = word_of_nat (length es + ?n)"
    using rep S(3) [of "tx_offset t"] S(3) [of "tx_offset t + 1"] S(3) [of "tx_offset t + 2"] t m1
    by (simp_all add: txn_rep_def B'(1) tx_offset_def)
  moreover have "chunk (B' lb) 3996 100 = operation_bytes so" "operation_ok so"
    using rep b(3) by (simp_all add: txn_rep_def B'(2))
  ultimately have new: "txn_rep B' t ?tx" by (simp add: txn_rep_def)
  have "txn_rep B' t' (T[t := ?tx] ! t')" if "t' < length (T[t := ?tx])" for t'
    using old new that by (cases "t' = t") simp_all
  moreover have "length (B' i) = 4096" if i: "i < 1024" for i
  proof -
    consider "i = 0" | "i = lb" | k where "i = m + k" "k < ?n" | "i \<noteq> 0" "i \<noteq> lb" "i < m \<or> m + ?n \<le> i"
      by (metis add_diff_inverse_nat nat_add_left_cancel_less not_less)
    then show ?thesis using S(1) b(1) B'(1,2) B'(3) ok B'(4) [OF i] m1(4) i by cases simp_all
  qed
  moreover have "B' 0 ! x = 0" if "tx_offset (length (T[t := ?tx])) \<le> x" "x < 4096" for x
    using S(3) [of x] that r t by (simp add: B'(1) tx_offset_def log_rep_def)
  moreover have lbs: "set (log_blocks T) \<subseteq> {1..<m}" "distinct (log_blocks T)" using r by (simp_all add: log_rep_def)
  moreover have "set [m..<m + ?n] \<inter> set (log_blocks T) = {}" using lbs(1) by auto
  note up = log_blocks_update [OF t _ lbs(2) distinct_upt this, of ?tx]
  have "distinct (log_blocks (T[t := ?tx]))" "set (log_blocks (T[t := ?tx])) = set (log_blocks T) \<union> {m..<m + ?n}"
    using up by (simp_all add: tx)
  ultimately show ?thesis using m m1 S(2) unfolding log_rep_def B'(1) by auto
qed


section \<open>The operations on the list of transactions\<close>

definition log_inv :: "block_manager \<Rightarrow> commit_log \<Rightarrow> txn list \<Rightarrow> nat \<Rightarrow> bool" where
  "log_inv bm cl T m \<longleftrightarrow>
     log_dev bm \<and> log_rep (\<lambda>i. log_blk bm i) T m \<and> cl_max_txn_id cl = length T \<and> \<not> cl_generating_ckpt cl \<and>
     0 \<le> cl_log_entries_num cl \<and> operations_ok bm (concat (map txn_ops T))"

abbreviation log_area :: "block_manager \<Rightarrow> nat set" where
  "log_area bm \<equiv> {bm_block_cnt bm..<bm_block_cnt bm + 1024}"

lemma tx_block_id_ok:
  assumes "log_rep B T m" "t < length T"
  shows "tx_block_id (B 0) (tx_offset t) = Some (fst (T ! t))" "tx_offset t + 4 \<le> 4096"
    "unat (B 0 ! (tx_offset t + 2)) = length (snd (snd (T ! t)))"
proof -
  have l: "length (B 0) = 4096" "length T < m" "m \<le> 256" and rep: "txn_rep B t (T ! t)"
    using assms by (simp_all add: log_rep_def)
  show off: "tx_offset t + 4 \<le> 4096" using l assms(2) by (simp add: tx_offset_def)
  have "fst (T ! t) < 256" using log_rep_bounds(3) [OF assms, of "fst (T ! t)"] l by simp
  then have "unat (word_of_nat (fst (T ! t)) :: byte) = fst (T ! t)" by (simp add: unat_of_nat)
  with rep l off show "tx_block_id (B 0) (tx_offset t) = Some (fst (T ! t))"
    by (simp add: txn_rep_def tx_block_id_def split: prod.splits)
  have "length (snd (snd (T ! t))) < 256" using log_rep_bounds(2) [OF assms] by simp
  then have "unat (word_of_nat (length (snd (snd (T ! t)))) :: byte) = length (snd (snd (T ! t)))" by (simp add: unat_of_nat)
  with rep show "unat (B 0 ! (tx_offset t + 2)) = length (snd (snd (T ! t)))"
    by (simp add: txn_rep_def split: prod.splits)
qed

lemma alloc_txn_ok:
  assumes inv: "log_inv bm cl T m" and m: "m < 256" and so: "operation_ok so"
  shows "\<exists>bm'. alloc_txn bm cl so = Some (length T, bm', cl\<lparr>cl_max_txn_id := Suc (length T)\<rparr>) \<and>
    log_inv bm' (cl\<lparr>cl_max_txn_id := Suc (length T)\<rparr>) (T @ [(m, so, [])]) (Suc m) \<and> only_changes (log_area bm) bm bm'"
proof -
  let ?c = "bm_block_cnt bm" and ?B = "\<lambda>i. log_blk bm i" and ?o = "tx_offset (length T)"
  have dev: "log_dev bm" and rep: "log_rep ?B T m" and cl: "cl_max_txn_id cl = length T" "\<not> cl_generating_ckpt cl"
    and ops: "operations_ok bm (concat (map txn_ops T))" and en: "0 \<le> cl_log_entries_num cl"
    using inv by (simp_all add: log_inv_def)
  have r: "1 \<le> m" "length T < m" "used_below (log_blk bm 0) m" "length (log_blk bm 0) = 4096"
    "\<forall>x. ?o \<le> x \<longrightarrow> x < 4096 \<longrightarrow> log_blk bm 0 ! x = 0"
    using rep length_log_blk [OF dev, of ?c] by (simp_all add: log_rep_def)
  have m': "m < 1024" "128 \<le> length (log_blk bm 0)" using m r(4) by simp_all
  note f = find_free_below [OF r(3,1) m']
  define S0 where "S0 = set_log_bit (log_blk bm 0) m"
  define S where "S = S0[?o := 0, ?o + 1 := word_of_nat m, ?o + 2 := 0]"
  define b where "b = patch (replicate 4096 0) 3996 (operation_bytes so)"
  have off: "?o + 4 \<le> 4096" "128 \<le> ?o" using r(2) m by (simp_all add: tx_offset_def)
  have l0: "length S0 = 4096" using r(4) by (simp add: S0_def set_log_bit_def)
  have s0: "S0 ! x = log_blk bm 0 ! x" if "128 \<le> x" for x
    using that m by (auto simp: S0_def set_log_bit_def nth_list_update)
  have l: "length S = 4096" "length b = 4096" using l0 length_operation_bytes [OF so] by (simp_all add: S_def b_def)
  have c: "?c < ?c + 1024" "?c + m < ?c + 1024" using m by simp_all
  note w1 = cl_write_ok [OF dev c(1) l(1)]
  let ?bm1 = "put_blk bm ?c S" and ?bm2 = "put_blk (put_blk bm ?c S) (?c + m) b"
  have c2: "?c + m < bm_block_cnt ?bm1 + 1024" using m by simp
  note w2 = cl_write_ok [OF w1(2) c2 l(2)]
  have "set_operation ?bm1 m so = Some ?bm2" using set_operation_ok [OF w1(2) m'(1) so] by (simp add: b_def)
  moreover have "cl_read bm ?c = Some (log_blk bm 0)" using cl_read_ok [OF dev c(1)] by simp
  moreover have "m div 256 = 0" "m mod 256 = m" using m by simp_all
  moreover have "u32 (length T + 1) = Suc (length T)" using r(2) m by (simp add: u32_def)
  ultimately have run: "alloc_txn bm cl so = Some (length T, ?bm2, cl\<lparr>cl_max_txn_id := Suc (length T)\<rparr>)"
    using cl f(1) l0 off(1) w1(1)
    by (simp add: alloc_txn_def wait_ckpt_def Let_def S_def S0_def FAAjob_def)
  have blk2: "log_blk ?bm2 i = (if i = m then b else if i = 0 then S else log_blk bm i)" if "i < 1024" for i
    using w2(4) [of "?c + i"] w1(4) [of "?c + i"] that m r(1) by auto
  have "log_rep (\<lambda>i. log_blk ?bm2 i) (T @ [(m, so, [])]) (Suc m)"
  proof (rule log_rep_alloc [OF rep m so l(1) _ _ _ l(2)])
    show "used_below S (Suc m)"
      using f(2) off(2) by (rule_tac used_below_cong) (simp_all add: S_def S0_def)
    show "S ! x = ?B 0 ! x" if "128 \<le> x" "x < ?o" for x using that s0 by (simp add: S_def)
    show "S ! x = (if x = ?o + 1 then word_of_nat m else 0)" if "?o \<le> x" "x < 4096" for x
      using that s0 [of x] r(5) off l0 by (auto simp: S_def nth_list_update)
    show "chunk b 3996 100 = operation_bytes so"
      using length_operation_bytes [OF so] chunk_patch_same [of 3996 "operation_bytes so" "replicate 4096 0"] by (simp add: b_def)
    show "log_blk ?bm2 0 = S" using blk2 [of 0] r(1) by simp
    show "log_blk ?bm2 m = b" using blk2 [of m] m by simp
    show "log_blk ?bm2 i = log_blk bm i" if "i < 1024" "i \<noteq> 0" "i \<noteq> m" for i using blk2 [of i] that by simp
  qed
  then have "log_inv ?bm2 (cl\<lparr>cl_max_txn_id := Suc (length T)\<rparr>) (T @ [(m, so, [])]) (Suc m)"
    using w2(2) cl(2) ops en by (simp add: log_inv_def operations_ok_def)
  moreover have "only_changes (log_area bm) bm ?bm2"
    using only_changes_trans [OF w1(3) w2(3)] by (rule only_changes_mono) (use m in auto)
  ultimately show ?thesis using run by blast
qed


lemma operations_ok_append: "operations_ok bm (xs @ ys) \<longleftrightarrow> operations_ok bm xs \<and> operations_ok bm ys"
  by (simp add: operations_ok_def)

lemma operations_ok_set: "operations_ok bm ops \<longleftrightarrow> (\<forall>op \<in> set ops. operations_ok bm [op])"
  by (simp add: operations_ok_def list_all_iff)

lemma operations_ok_update:
  assumes "t < length T" "operations_ok bm (concat (map txn_ops T))" "operations_ok bm ops" "length bs = length ops"
  shows "operations_ok bm (concat (map txn_ops (T[t := (lb, so, snd (snd (T ! t)) @ zip bs ops)])))"
proof -
  let ?tx = "(lb, so, snd (snd (T ! t)) @ zip bs ops)"
  have "operations_ok bm [op]" if "op \<in> set (concat (map txn_ops (T[t := ?tx])))" for op
  proof -
    from that obtain tx where tx: "tx \<in> set (T[t := ?tx])" "op \<in> set (txn_ops tx)" by auto
    have "tx = ?tx \<or> tx \<in> set T" using set_update_subset_insert [of T t ?tx] tx(1) by blast
    moreover have "tx = ?tx \<Longrightarrow> op \<in> set (txn_ops (T ! t)) \<or> op \<in> set ops" using tx(2) assms(4) by auto
    ultimately have "tx \<in> set T \<or> op \<in> set (txn_ops (T ! t)) \<or> op \<in> set ops" by blast
    then have "op \<in> set (concat (map txn_ops T)) \<or> op \<in> set ops"
    proof (elim disjE)
      show ?thesis if "tx \<in> set T" using that tx(2) by auto
      show ?thesis if "op \<in> set (txn_ops (T ! t))" using that nth_mem [OF assms(1)] by auto
    qed simp_all
    then show ?thesis using assms(2,3) operations_ok_set by blast
  qed
  then show ?thesis using operations_ok_set by blast
qed

lemma alloc_log_ok:
  assumes inv: "log_inv bm cl T m" and t: "t < length T" and n: "m + n \<le> 256"
  shows "\<exists>S. alloc_log bm cl t n = Some ((fst (T ! t), length (snd (snd (T ! t))), [m..<m + n]),
      put_blk bm (bm_block_cnt bm) S, FAAlog (int n) cl) \<and>
    length S = 4096 \<and> used_below S (m + n) \<and>
    (\<forall>x. 128 \<le> x \<longrightarrow> x < 4096 \<longrightarrow>
       S ! x = (if x = tx_offset t + 2 then log_blk bm 0 ! x + word_of_nat n else log_blk bm 0 ! x))"
proof -
  let ?c = "bm_block_cnt bm"
  have dev: "log_dev bm" and rep: "log_rep (\<lambda>i. log_blk bm i) T m" using inv by (simp_all add: log_inv_def)
  have r: "1 \<le> m" "used_below (log_blk bm 0) m" "length (log_blk bm 0) = 4096"
    using rep length_log_blk [OF dev, of ?c] by (simp_all add: log_rep_def)
  have m': "m + n \<le> 1024" "128 \<le> length (log_blk bm 0)" using n r(3) by simp_all
  from find_free_n_below [OF r(2,1) m'] obtain S0 where
    s0: "find_free_n n (log_blk bm 0) = Some ([m..<m + n], S0)" "used_below S0 (m + n)" "length S0 = 4096"
      "\<forall>i \<ge> 128. S0 ! i = log_blk bm 0 ! i" using r(3) by auto
  note tb = tx_block_id_ok [OF rep t]
  have off: "128 \<le> tx_offset t" by (simp add: tx_offset_def)
  have "tx_block_id S0 (tx_offset t) = Some (fst (T ! t))"
    using tb(1,2) s0(3,4) r(3) off by (simp add: tx_block_id_def)
  moreover have cnt: "S0 ! (tx_offset t + 2) = log_blk bm 0 ! (tx_offset t + 2)" using s0(4) off by simp
  moreover define S where "S = S0[tx_offset t + 2 := S0 ! (tx_offset t + 2) + word_of_nat n]"
  have lS: "length S = 4096" using s0(3) by (simp add: S_def)
  have c: "?c < ?c + 1024" by simp
  note w = cl_write_ok(1) [OF dev c lS]
  moreover have "cl_read bm ?c = Some (log_blk bm 0)" using cl_read_ok [OF dev c] by simp
  ultimately have "alloc_log bm cl t n = Some ((fst (T ! t), length (snd (snd (T ! t))), [m..<m + n]), put_blk bm ?c S, FAAlog (int n) cl)"
    using s0(1,3) tb(2,3) by (simp add: alloc_log_def Let_def S_def)
  moreover have "used_below S (m + n)"
    using s0(2) off by (rule_tac used_below_cong) (simp_all add: S_def)
  moreover have "S ! x = (if x = tx_offset t + 2 then log_blk bm 0 ! x + word_of_nat n else log_blk bm 0 ! x)"
    if "128 \<le> x" "x < 4096" for x using that s0(3,4) cnt by (simp add: S_def nth_list_update)
  ultimately show ?thesis using lS by blast
qed

lemma append_log_ok:
  assumes inv: "log_inv bm cl T m" and t: "t < length T" and n: "m + length ops \<le> 256" and ops: "operations_ok bm ops"
    and ckpt: "cl_is_checkpoint_enabled cl \<Longrightarrow> cl_log_entries_num cl + int (length ops) < 128"
    and tx: "T ! t = (lb, so, es)"
  shows "\<exists>bm'. append_log bm cl t ops = Some (bm', FAAlog (int (length ops)) cl) \<and>
    log_inv bm' (FAAlog (int (length ops)) cl) (T[t := (lb, so, es @ zip [m..<m + length ops] ops)]) (m + length ops) \<and>
    only_changes (log_area bm) bm bm'"
proof -
  let ?c = "bm_block_cnt bm" and ?n = "length ops" and ?B = "\<lambda>i. log_blk bm i"
  have dev: "log_dev bm" and rep: "log_rep ?B T m" and cl: "cl_max_txn_id cl = length T" "\<not> cl_generating_ckpt cl"
    and ok: "operations_ok bm (concat (map txn_ops T))" and en: "0 \<le> cl_log_entries_num cl"
    using inv by (simp_all add: log_inv_def)
  have "log_inv bm (FAAjob 1 cl) T m" using inv by (simp add: log_inv_def FAAjob_def)
  from alloc_log_ok [OF this t n] obtain S where
    S: "alloc_log bm (FAAjob 1 cl) t ?n = Some ((lb, length es, [m..<m + ?n]), put_blk bm ?c S, FAAlog (int ?n) (FAAjob 1 cl))"
      "length S = 4096" "used_below S (m + ?n)"
      "\<forall>x. 128 \<le> x \<longrightarrow> x < 4096 \<longrightarrow> S ! x = (if x = tx_offset t + 2 then ?B 0 ! x + word_of_nat ?n else ?B 0 ! x)"
    by (auto simp: tx)
  have lb: "1 \<le> lb" "lb < m" "m \<le> 256" "1 \<le> m"
    using log_rep_bounds(3) [OF rep t, of lb] rep by (simp_all add: tx log_rep_def)
  have es: "length es < m" using length_le_log_blocks [OF t] log_rep_bounds(1) [OF rep] by (simp add: tx)
  have c: "?c < ?c + 1024" by simp
  note w1 = cl_write_ok [OF dev c S(2)]
  let ?bm1 = "put_blk bm ?c S"
  have b0: "log_blk ?bm1 lb = ?B lb" using w1(4) [of "?c + lb"] lb by simp
  have l0: "length (?B lb) = 4096" using length_log_blk [OF dev, of "?c + lb"] lb by simp
  have i: "(length es + ?n) * 10 \<le> 3996" "length [m..<m + ?n] = ?n" "operations_ok ?bm1 ops"
    "\<And>x. x \<in> set [m..<m + ?n] \<Longrightarrow> x < 1024"
    using es n ops by (auto simp: operations_ok_def)
  from append_loop_ok [OF w1(2) l0 i(1,2,4) distinct_upt i(3)] obtain bm2 b where
    a: "append_loop ?bm1 (?B lb) (length es) [m..<m + ?n] ops = Some (bm2, b)" "length b = 4096"
      "only_changes ((+) ?c ` {m..<m + ?n}) ?bm1 bm2"
      "\<forall>k < ?n. blk bm2 (?c + [m..<m + ?n] ! k) = bo_new_block_state (ops ! k) \<and>
         log_entry b (length es + k) = (bo_block_id (ops ! k), [m..<m + ?n] ! k mod 256)"
      "\<forall>x. x < length es * 10 \<longrightarrow> b ! x = ?B lb ! x" "chunk b 3996 100 = chunk (?B lb) 3996 100"
    by (simp only: put_blk_fields set_upt) blast
  note dev2 = log_dev_changes [OF w1(2) a(3)]
  have c2: "bm_block_cnt bm2 = ?c" using only_changes_fields [OF a(3)] by simp
  have lb2: "?c + lb < bm_block_cnt bm2 + 1024" using lb c2 by simp
  note w3 = cl_write_ok [OF dev2 lb2 a(2)]
  let ?bm3 = "put_blk bm2 (?c + lb) b"
  have rd: "cl_read ?bm1 (lb + ?c) = Some (?B lb)"
    using cl_read_ok [OF w1(2), of "lb + ?c"] lb b0 by (simp add: add.commute)
  have run: "append_log bm cl t ops = Some (?bm3, FAAlog (int ?n) cl)"
    using cl(2) S(1) rd a(1) w3(1) ckpt en
    by (auto simp: append_log_def wait_ckpt_def Let_def FAAlog_def FAAjob_def add.commute)
  have blk3: "log_blk ?bm3 i = (if i = lb then b else log_blk bm2 i)" if "i < 1024" for i
    using w3(4) [of "?c + i"] that c2 by simp
  have blk2: "log_blk bm2 i = log_blk ?bm1 i" if "i < 1024" "i < m \<or> m + ?n \<le> i" for i
  proof -
    have "in_dev ?bm1 (?c + i)" using log_dev_in_dev [OF w1(2)] that(1) by simp
    moreover have "?c + i \<notin> (+) ?c ` {m..<m + ?n}" using that(2) by auto
    ultimately show ?thesis using only_changes_blk [OF a(3)] c2 by simp
  qed
  have blk1: "log_blk ?bm1 i = (if i = 0 then S else ?B i)" if "i < 1024" for i using w1(4) [of "?c + i"] that by simp
  have "log_rep (\<lambda>i. log_blk ?bm3 i) (T[t := (lb, so, es @ zip [m..<m + ?n] ops)]) (m + ?n)"
  proof (rule log_rep_append [OF rep t n S(2,3) _ a(2) _ a(6) _ tx])
    show "S ! x = (if x = tx_offset t + 2 then ?B 0 ! x + word_of_nat ?n else ?B 0 ! x)" if "128 \<le> x" "x < 4096" for x
      using S(4) that by blast
    show "b ! x = ?B lb ! x" if "x < length es * 10" for x using a(5) that by blast
    show "log_entry b (length es + k) = (bo_block_id (ops ! k), m + k)" if "k < ?n" for k using a(4) that n by simp
    show "log_blk ?bm3 0 = S" using blk3 [of 0] blk2 [of 0] blk1 [of 0] lb by simp
    show "log_blk ?bm3 lb = b" using blk3 [of lb] lb by simp
    show "log_blk ?bm3 (m + k) = bo_new_block_state (ops ! k)" if "k < ?n" for k
      using a(4) that blk3 [of "m + k"] n lb c2 by auto
    show "log_blk ?bm3 i = ?B i" if "i < 1024" "i \<noteq> 0" "i \<noteq> lb" "i < m \<or> m + ?n \<le> i" for i
      using blk3 [OF that(1)] blk2 [OF that(1,4)] blk1 [OF that(1)] that by simp
    show "length (bo_new_block_state op) = 4096" if "op \<in> set ops" for op
      using ops that by (auto simp: operations_ok_def list_all_iff)
  qed
  moreover have "operations_ok bm (concat (map txn_ops (T[t := (lb, so, es @ zip [m..<m + ?n] ops)])))"
    using operations_ok_update [OF t ok ops, of "[m..<m + ?n]" lb so] by (simp add: tx)
  ultimately have "log_inv ?bm3 (FAAlog (int ?n) cl) (T[t := (lb, so, es @ zip [m..<m + ?n] ops)]) (m + ?n)"
    using w3(2) cl c2 en by (simp add: log_inv_def operations_ok_def FAAlog_def)
  moreover have "only_changes (log_area bm) bm ?bm3"
    using only_changes_trans [OF only_changes_trans [OF w1(3) a(3)] w3(3)]
    by (rule only_changes_mono) (use n lb in auto)
  ultimately show ?thesis using run by blast
qed


lemma commit_log_commit_ok:
  assumes inv: "log_inv bm cl T m" and t: "t < length T"
  shows "\<exists>bm'. commit_log_commit bm cl t = Some (bm', cl) \<and> log_inv bm' cl T m \<and> only_changes (log_area bm) bm bm'"
proof -
  let ?c = "bm_block_cnt bm" and ?S = "(log_blk bm 0)[tx_offset t + 3 := 1]"
  have dev: "log_dev bm" and rep: "log_rep (\<lambda>i. log_blk bm i) T m" and cl: "\<not> cl_generating_ckpt cl"
    using inv by (simp_all add: log_inv_def)
  have l: "length (log_blk bm 0) = 4096" using length_log_blk [OF dev, of ?c] by simp
  have c: "?c < ?c + 1024" "length ?S = 4096" using l by simp_all
  note w = cl_write_ok [OF dev c]
  let ?bm = "put_blk bm ?c ?S"
  have run: "commit_log_commit bm cl t = Some (?bm, cl)"
    using cl cl_read_ok [OF dev c(1)] w(1) l tx_block_id_ok(2) [OF rep t]
    by (simp add: commit_log_commit_def wait_ckpt_def Let_def FAAjob_def)
  have B: "log_blk ?bm i = (if i = 0 then ?S else log_blk bm i)" if "i < 1024" for i using w(4) [of "?c + i"] that by simp
  have S: "?S ! x = log_blk bm 0 ! x" if "x \<noteq> tx_offset t + 3" for x using that by simp
  have "txn_rep (\<lambda>i. log_blk ?bm i) t' (T ! t')" if t': "t' < length T" for t'
  proof (rule txn_rep_cong)
    show "txn_rep (\<lambda>i. log_blk bm i) t' (T ! t')" using rep t' by (simp add: log_rep_def)
    show "log_blk ?bm 0 ! (tx_offset t' + x) = log_blk bm 0 ! (tx_offset t' + x)" if "x < 3" for x
    proof -
      have "tx_offset t' + x \<noteq> tx_offset t + 3" using that by (simp add: tx_offset_def) presburger
      then show ?thesis using B [of 0] S by simp
    qed
    show "log_blk ?bm i = log_blk bm i" if "i \<in> set (txn_blocks (T ! t'))" for i
      using log_rep_bounds(3) [OF rep t' that] rep B [of i] by (simp add: log_rep_def)
  qed
  moreover have "used_below (log_blk ?bm 0) m"
  proof (rule used_below_cong)
    show "used_below (log_blk bm 0) m" using rep by (simp add: log_rep_def)
    show "log_blk ?bm 0 ! x = log_blk bm 0 ! x" if "x < 128" for x using B [of 0] that by (simp add: tx_offset_def)
  qed
  moreover have "length (log_blk ?bm i) = 4096" if "i < 1024" for i using rep c(2) B [OF that] that by (simp add: log_rep_def)
  moreover have "log_blk ?bm 0 ! x = 0" if "tx_offset (length T) \<le> x" "x < 4096" for x
  proof -
    have "x \<noteq> tx_offset t + 3" using that(1) t by (simp add: tx_offset_def)
    then show ?thesis using B [of 0] S [of x] rep that by (simp add: log_rep_def)
  qed
  ultimately have "log_rep (\<lambda>i. log_blk ?bm i) T m" using rep unfolding log_rep_def by blast
  then have "log_inv ?bm cl T m" using inv w(2) by (simp add: log_inv_def operations_ok_def)
  moreover have "only_changes (log_area bm) bm ?bm" using w(3) by (rule only_changes_mono) simp
  ultimately show ?thesis using run by blast
qed

text \<open>What recovery does with a list of transactions: redo all logged states, and report the
  operations of the transactions with no logged state.\<close>

definition redone :: "txn list \<Rightarrow> block_operation list" where
  "redone T = concat (map txn_ops T)"

definition pending :: "txn list \<Rightarrow> server_operation list" where
  "pending T = map (fst \<circ> snd) (filter (\<lambda>t. snd (snd t) = []) T)"

lemma redo_append: "redo (xs @ ys) f = redo ys (redo xs f)"
  by (simp add: redo_def)

lemma recover_tx_ok:
  assumes dev: "log_dev bm" and rep: "log_rep (\<lambda>i. log_blk bm i) T m" and t: "t < length T"
    and ok: "operations_ok bm (txn_ops (T ! t))"
  shows "\<exists>bm'. recover_tx bm (fst (T ! t)) (length (snd (snd (T ! t)))) = Some bm' \<and> only_changes {..<bm_block_cnt bm} bm bm' \<and>
    (\<forall>j < bm_block_cnt bm. blk bm' j = redo (txn_ops (T ! t)) (blk bm) j)"
proof -
  let ?c = "bm_block_cnt bm"
  obtain lb so es where tx: "T ! t = (lb, so, es)" by (cases "T ! t")
  have m: "m \<le> 256" using rep by (simp add: log_rep_def)
  have lb: "lb < m" using log_rep_bounds(3) [OF rep t, of lb] by (simp add: tx)
  have l: "length (log_blk bm lb) = 4096" using length_log_blk [OF dev, of "?c + lb"] lb m by simp
  have r: "txn_rep (\<lambda>i. log_blk bm i) t (lb, so, es)" using rep t tx by (metis log_rep_def)
  have e: "fst (log_entry (log_blk bm lb) (0 + k)) = bo_block_id (map snd es ! k) \<and>
      snd (log_entry (log_blk bm lb) (0 + k)) < 1024 \<and>
      log_blk bm (snd (log_entry (log_blk bm lb) (0 + k))) = bo_new_block_state (map snd es ! k)"
    if "k < length (map snd es)" for k
  proof -
    have "fst (es ! k) < m" using log_rep_bounds(3) [OF rep t, of "fst (es ! k)"] that by (simp add: tx)
    then show ?thesis using r that m by (simp add: txn_rep_def)
  qed
  have "(0 + length (map snd es)) * 10 \<le> 3996" using log_rep_bounds(2) [OF rep t] by (simp add: tx)
  from recover_tx_loop_ok [OF dev l this _ e] ok
  have "\<exists>bm'. recover_tx_loop bm (log_blk bm lb) 0 (length (map snd es)) = Some bm' \<and> only_changes {..<?c} bm bm' \<and>
      (\<forall>j < ?c. blk bm' j = redo (map snd es) (blk bm) j)" by (simp only: tx snd_conv)
  then show ?thesis
    using cl_read_ok [OF dev, of "lb + ?c"] lb m by (simp add: recover_tx_def tx add.commute)
qed

lemma recover_loop_ok:
  assumes "log_dev bm" "log_rep (\<lambda>i. log_blk bm i) T m" "operations_ok bm (redone (drop t T))"
    "t \<le> length T" "length T - t < fuel" "log_blk bm 0 = buffer"
  shows "\<exists>bm'. recover_loop fuel bm buffer t ops = Some (bm', length T, ops @ pending (drop t T)) \<and>
    only_changes {..<bm_block_cnt bm} bm bm' \<and>
    (\<forall>j < bm_block_cnt bm. blk bm' j = redo (redone (drop t T)) (blk bm) j)"
  using assms
proof (induction fuel arbitrary: bm t ops)
  case (Suc fuel)
  let ?c = "bm_block_cnt bm"
  have l: "length buffer = 4096" using length_log_blk [OF Suc.prems(1), of ?c] Suc.prems(6) by simp
  have T: "length T < 256" using Suc.prems(2) by (simp add: log_rep_def)
  show ?case
  proof (cases "t = length T")
    case True
    have off: "tx_offset t + 3 < 4096" using T by (simp add: True tx_offset_def)
    have z: "\<forall>x. tx_offset (length T) \<le> x \<longrightarrow> x < 4096 \<longrightarrow> buffer ! x = 0"
      using Suc.prems(2,6) by (simp add: log_rep_def)
    have "tx_block_id buffer (tx_offset t) = Some 0"
      using z [rule_format, of "tx_offset t"] z [rule_format, of "tx_offset t + 1"] off l True by (simp add: tx_block_id_def)
    then show ?thesis using l off True
      by (simp add: Let_def pending_def redone_def)
  next
    case False
    then have t: "t < length T" using Suc.prems(4) by simp
    have dr: "drop t T = T ! t # drop (Suc t) T" using t by (rule Cons_nth_drop_Suc [symmetric])
    have ok: "operations_ok bm (txn_ops (T ! t))" "operations_ok bm (redone (drop (Suc t) T))"
      using Suc.prems(3) unfolding dr by (simp_all add: redone_def operations_ok_append)
    note tb = tx_block_id_ok [OF Suc.prems(2) t]
    have lb: "fst (T ! t) \<noteq> 0" using log_rep_bounds(3) [OF Suc.prems(2) t, of "fst (T ! t)"] by simp
    have tbb: "tx_block_id buffer (tx_offset t) = Some (fst (T ! t))" "tx_offset t + 2 < length buffer"
      "unat (buffer ! (tx_offset t + 2)) = length (snd (snd (T ! t)))"
      using tb Suc.prems(6) l by simp_all
    have f: "Suc t \<le> length T" "length T - Suc t < fuel" using t Suc.prems(5) by simp_all
    show ?thesis
    proof (cases "snd (snd (T ! t)) = []")
      case True
      obtain lb0 so where tx: "T ! t = (lb0, so, [])" using True by (cases "T ! t") auto
      have r: "txn_rep (\<lambda>i. log_blk bm i) t (lb0, so, [])" using Suc.prems(2) t tx by (metis log_rep_def)
      have "lb0 < 1024" using log_rep_bounds(3) [OF Suc.prems(2) t, of lb0] Suc.prems(2) by (simp add: tx log_rep_def)
      then have "get_operation bm lb0 = Some so"
        using r by (intro get_operation_ok [OF Suc.prems(1)]) (simp_all add: txn_rep_def)
      moreover have "buffer ! (tx_offset t + 2) = 0" using tbb(3) by (simp add: True unat_eq_zero)
      moreover have "pending (drop t T) = so # pending (drop (Suc t) T)" "redone (drop t T) = redone (drop (Suc t) T)"
        unfolding dr by (simp_all add: tx pending_def redone_def)
      ultimately show ?thesis
        using Suc.IH [OF Suc.prems(1,2) ok(2) f Suc.prems(6), of "ops @ [so]"] tbb lb
        by (simp add: Let_def tx)
    next
      case False
      from recover_tx_ok [OF Suc.prems(1,2) t ok(1)] obtain bm1 where
        b: "recover_tx bm (fst (T ! t)) (length (snd (snd (T ! t)))) = Some bm1" "only_changes {..<?c} bm bm1"
          "\<forall>j < ?c. blk bm1 j = redo (txn_ops (T ! t)) (blk bm) j" by blast
      note dev1 = log_dev_changes [OF Suc.prems(1) b(2)]
      have c1: "bm_block_cnt bm1 = ?c" using only_changes_fields [OF b(2)] by simp
      have B1: "log_blk bm1 i = log_blk bm i" if "i < 1024" for i
        using only_changes_blk [OF b(2) log_dev_in_dev [OF Suc.prems(1)]] that c1 by simp
      have rep1: "log_rep (\<lambda>i. log_blk bm1 i) T m" using Suc.prems(2) B1 by (rule log_rep_cong)
      have ok1: "operations_ok bm1 (redone (drop (Suc t) T))" using ok(2) c1 by (simp add: operations_ok_def)
      have "log_blk bm1 0 = buffer" using B1 [of 0] Suc.prems(6) by simp
      from Suc.IH [OF dev1 rep1 ok1 f this, of ops] c1 obtain bm' where
        r: "recover_loop fuel bm1 buffer (Suc t) ops = Some (bm', length T, ops @ pending (drop (Suc t) T))"
          "only_changes {..<?c} bm1 bm'" "\<forall>j < ?c. blk bm' j = redo (redone (drop (Suc t) T)) (blk bm1) j" by auto
      have "buffer ! (tx_offset t + 2) \<noteq> 0" using tbb(3) False by auto
      then have "recover_loop (Suc fuel) bm buffer t ops = Some (bm', length T, ops @ pending (drop t T))"
        using tbb lb b(1) r(1) False unfolding dr by (simp add: Let_def pending_def)
      moreover have "only_changes {..<?c} bm bm'" using b(2) r(2) by (rule only_changes_trans_same)
      moreover have "blk bm' j = redo (redone (drop t T)) (blk bm) j" if "j < ?c" for j
      proof -
        have "redone (drop t T) = txn_ops (T ! t) @ redone (drop (Suc t) T)" unfolding dr by (simp add: redone_def)
        then show ?thesis using r(3) b(3) that by (simp add: redo_append) (rule redo_cong, simp)
      qed
      ultimately show ?thesis by blast
    qed
  qed
qed simp

lemma recover_ok:
  assumes "log_dev bm" "log_rep (\<lambda>i. log_blk bm i) T m" "operations_ok bm (redone T)"
  shows "\<exists>bm'. recover bm cl = Some (bm', cl\<lparr>cl_max_txn_id := length T, cl_recover_operations := pending T\<rparr>) \<and>
    only_changes {..<bm_block_cnt bm} bm bm' \<and> (\<forall>j < bm_block_cnt bm. blk bm' j = redo (redone T) (blk bm) j)"
proof -
  have "length T < 993" using assms(2) by (simp add: log_rep_def)
  with recover_loop_ok [OF assms(1,2), of 0 993 "log_blk bm 0" "[]"] assms(3) obtain bm' where
    "recover_loop 993 bm (log_blk bm 0) 0 [] = Some (bm', length T, pending T)" "only_changes {..<bm_block_cnt bm} bm bm'"
    "\<forall>j < bm_block_cnt bm. blk bm' j = redo (redone T) (blk bm) j" by auto
  then show ?thesis using cl_read_ok [OF assms(1), of "bm_block_cnt bm"] by (simp add: recover_def)
qed


lemma log_bit_zero [simp]: "k < 1024 \<Longrightarrow> \<not> log_bit (replicate 4096 0) k"
  by (simp add: log_bit_def)

lemma empty_log_rep:
  assumes "\<And>i. i < 1024 \<Longrightarrow> length (B i) = 4096" "B 0 = replicate 4096 0"
  shows "log_rep B [] 1"
  using assms by (simp add: log_rep_def log_blocks_def used_below_def tx_offset_def)

lemma zero_log_blocks_ok:
  assumes "log_dev bm" "i + n \<le> 1024"
  shows "\<exists>bm'. zero_log_blocks bm i n = Some bm' \<and> only_changes (log_area bm) bm bm' \<and>
    (\<forall>k < 1024. log_blk bm' k = (if i \<le> k \<and> k < i + n then replicate 4096 0 else log_blk bm k))"
  using assms
proof (induction n arbitrary: bm i)
  case (Suc n)
  let ?c = "bm_block_cnt bm" and ?z = "replicate 4096 (0 :: byte)"
  have c: "?c + i < ?c + 1024" "length ?z = 4096" using Suc.prems(2) by simp_all
  note w = cl_write_ok [OF Suc.prems(1) c]
  have "Suc i + n \<le> 1024" using Suc.prems(2) by simp
  from Suc.IH [OF w(2) this] obtain bm' where
    r: "zero_log_blocks (put_blk bm (?c + i) ?z) (Suc i) n = Some bm'" "only_changes (log_area bm) (put_blk bm (?c + i) ?z) bm'"
      "\<forall>k < 1024. log_blk bm' k = (if Suc i \<le> k \<and> k < Suc i + n then ?z else blk (put_blk bm (?c + i) ?z) (?c + k))"
    by (simp only: put_blk_fields) blast
  have "only_changes (log_area bm) bm bm'"
    using only_changes_trans [OF w(3) r(2)] by (rule only_changes_mono) (use c(1) in auto)
  moreover have "log_blk bm' k = (if i \<le> k \<and> k < i + Suc n then ?z else log_blk bm k)" if "k < 1024" for k
    using r(3) that w(4) [of "?c + k"] by auto
  ultimately show ?case using w(1) r(1) by (simp del: replicate.simps)
qed auto

lemma checkpoint_ok:
  assumes "log_dev bm" "cl_working_jobs cl \<le> 0"
  shows "\<exists>bm'. checkpoint bm cl =
      Some (bm', cl\<lparr>cl_max_txn_id := 0, cl_generating_ckpt := False, cl_log_entries_num := 0\<rparr>) \<and>
    only_changes (log_area bm) bm bm' \<and> log_rep (\<lambda>i. log_blk bm' i) [] 1"
proof -
  from zero_log_blocks_ok [OF assms(1), of 0 1024] obtain bm' where
    z: "zero_log_blocks bm 0 1024 = Some bm'" "only_changes (log_area bm) bm bm'"
      "\<forall>k < 1024. log_blk bm' k = replicate 4096 0" by auto
  have "log_rep (\<lambda>i. log_blk bm' i) [] 1" 
    using z(3) [rule_format, of 0] z(3) by (intro empty_log_rep) simp_all
  then show ?thesis using z(1,2) assms(2) by (simp add: checkpoint_def Let_def FAAlog_def)
qed


section \<open>The interface of a redo log\<close>

text \<open>
  What the metadata server relies on: a transaction is begun, its block states are appended,
  and it is committed. \<open>holds s T m\<close> says that the log of state \<open>s\<close> represents the
  transactions \<open>T\<close>; \<open>auto_ckpt\<close> that the log empties itself when it is long.
\<close>

fun run_all :: "('s \<Rightarrow> 'a \<Rightarrow> 's option) \<Rightarrow> 's \<Rightarrow> 'a list \<Rightarrow> 's option" where
  "run_all f s [] = Some s"
| "run_all f s (x # xs) = do { s' \<leftarrow> f s x; run_all f s' xs }"

fun new_txns :: "nat \<Rightarrow> (server_operation \<times> block_operation list \<times> bool) list \<Rightarrow> txn list" where
  "new_txns m [] = []"
| "new_txns m ((so, ops, c) # xs) = (m, so, zip [Suc m..<Suc m + length ops] ops) # new_txns (Suc m + length ops) xs"

definition script_size :: "(server_operation \<times> block_operation list \<times> bool) list \<Rightarrow> nat" where
  "script_size xs = sum_list (map (\<lambda>(so, ops, c). Suc (length ops)) xs)"

text \<open>One transaction; it is committed when \<open>c\<close> is true.\<close>

fun transaction :: "('s \<Rightarrow> server_operation \<Rightarrow> (nat \<times> 's) option) \<Rightarrow> ('s \<Rightarrow> nat \<Rightarrow> block_operation list \<Rightarrow> 's option) \<Rightarrow>
    ('s \<Rightarrow> nat \<Rightarrow> 's option) \<Rightarrow> 's \<Rightarrow> server_operation \<times> block_operation list \<times> bool \<Rightarrow> 's option" where
  "transaction begin_txn append_txn commit_txn s (so, ops, c) = do {
     (t, s1) \<leftarrow> begin_txn s so;
     s2 \<leftarrow> append_txn s1 t ops;
     if c then commit_txn s2 t else Some s2
   }"

locale redo_log =
  fixes holds :: "'s \<Rightarrow> txn list \<Rightarrow> nat \<Rightarrow> bool"
    and begin_txn :: "'s \<Rightarrow> server_operation \<Rightarrow> (nat \<times> 's) option"
    and append_txn :: "'s \<Rightarrow> nat \<Rightarrow> block_operation list \<Rightarrow> 's option"
    and commit_txn :: "'s \<Rightarrow> nat \<Rightarrow> 's option"
    and same :: "'s \<Rightarrow> 's \<Rightarrow> bool"
    and auto_ckpt :: "'s \<Rightarrow> bool"
    and entries :: "'s \<Rightarrow> int"
    and ops_ok :: "'s \<Rightarrow> block_operation list \<Rightarrow> bool"
  assumes begin_law: "holds s T m \<Longrightarrow> m < 256 \<Longrightarrow> operation_ok so \<Longrightarrow>
      \<exists>s'. begin_txn s so = Some (length T, s') \<and> holds s' (T @ [(m, so, [])]) (Suc m) \<and> same s s' \<and> entries s' = entries s"
    and append_law: "holds s T m \<Longrightarrow> t < length T \<Longrightarrow> T ! t = (lb, so, es) \<Longrightarrow> m + length ops \<le> 256 \<Longrightarrow> ops_ok s ops \<Longrightarrow>
      (auto_ckpt s \<Longrightarrow> entries s + int (length ops) < 128) \<Longrightarrow>
      \<exists>s'. append_txn s t ops = Some s' \<and> holds s' (T[t := (lb, so, es @ zip [m..<m + length ops] ops)]) (m + length ops) \<and>
        same s s' \<and> entries s' = entries s + int (length ops)"
    and commit_law: "holds s T m \<Longrightarrow> t < length T \<Longrightarrow>
      \<exists>s'. commit_txn s t = Some s' \<and> holds s' T m \<and> same s s' \<and> entries s' = entries s"
    and same_trans: "same s s' \<Longrightarrow> same s' s'' \<Longrightarrow> same s s''"
    and same_refl: "same s s"
    and same_laws: "same s s' \<Longrightarrow> auto_ckpt s' = auto_ckpt s" "same s s' \<Longrightarrow> ops_ok s' ops = ops_ok s ops"
begin

lemma transaction_logs:
  assumes "holds s T m" "Suc m + length ops \<le> 256" "operation_ok so" "ops_ok s ops"
    "auto_ckpt s \<Longrightarrow> entries s + int (length ops) < 128"
  shows "\<exists>s'. transaction begin_txn append_txn commit_txn s (so, ops, c) = Some s' \<and>
    holds s' (T @ [(m, so, zip [Suc m..<Suc m + length ops] ops)]) (Suc m + length ops) \<and>
    same s s' \<and> entries s' = entries s + int (length ops)"
proof -
  let ?T = "T @ [(m, so, zip [Suc m..<Suc m + length ops] ops)]"
  have "m < 256" using assms(2) by simp
  from begin_law [OF assms(1) this assms(3)] obtain s1 where
    s1: "begin_txn s so = Some (length T, s1)" "holds s1 (T @ [(m, so, [])]) (Suc m)" "same s s1" "entries s1 = entries s" by blast
  have "length T < length (T @ [(m, so, [])])" "(T @ [(m, so, [])]) ! length T = (m, so, [])" by simp_all
  from append_law [OF s1(2) this assms(2)] assms(4,5) same_laws [OF s1(3)] s1(4) obtain s2 where
    s2: "append_txn s1 (length T) ops = Some s2" "holds s2 ?T (Suc m + length ops)" "same s1 s2"
      "entries s2 = entries s + int (length ops)" by auto
  have "length T < length ?T" by simp
  from commit_law [OF s2(2) this] obtain s3 where
    s3: "commit_txn s2 (length T) = Some s3" "holds s3 ?T (Suc m + length ops)" "same s2 s3" "entries s3 = entries s2" by blast
  have sm: "same s s2" by (rule same_trans [OF s1(3) s2(3)])
  show ?thesis
  proof (cases c)
    case True
    then show ?thesis using s1(1) s2(1,4) s3 same_trans [OF sm s3(3)] by (intro exI [of _ s3]) simp
  next
    case False
    then show ?thesis using s1(1) s2 sm by (intro exI [of _ s2]) simp
  qed
qed

lemma script_logs:
  assumes "holds s T m" "m + script_size xs \<le> 256" "list_all (\<lambda>(so, ops, c). operation_ok so \<and> ops_ok s ops) xs"
    "auto_ckpt s \<Longrightarrow> entries s + int (script_size xs) < 128"
  shows "\<exists>s'. run_all (transaction begin_txn append_txn commit_txn) s xs = Some s' \<and> holds s' (T @ new_txns m xs) (m + script_size xs) \<and> same s s'"
  using assms
proof (induction xs arbitrary: s T m)
  case (Cons x xs)
  obtain so ops c where x: "x = (so, ops, c)" by (cases x)
  have sz: "script_size (x # xs) = Suc (length ops) + script_size xs" by (simp add: script_size_def x)
  have p: "Suc m + length ops \<le> 256" "operation_ok so" "ops_ok s ops" "auto_ckpt s \<Longrightarrow> entries s + int (length ops) < 128"
    using Cons.prems(2-4) unfolding sz by (simp_all add: x)
  from transaction_logs [OF Cons.prems(1) p, of c] obtain s1 where
    s1: "transaction begin_txn append_txn commit_txn s x = Some s1" "holds s1 (T @ [(m, so, zip [Suc m..<Suc m + length ops] ops)]) (Suc m + length ops)"
      "same s s1" "entries s1 = entries s + int (length ops)" unfolding x by blast
  have q: "Suc m + length ops + script_size xs \<le> 256" "list_all (\<lambda>(so, ops, c). operation_ok so \<and> ops_ok s1 ops) xs"
    "auto_ckpt s1 \<Longrightarrow> entries s1 + int (script_size xs) < 128"
    using Cons.prems(2-4) same_laws [OF s1(3)] s1(4) by (simp_all add: sz)
  from Cons.IH [OF s1(2) q] obtain s' where
    "run_all (transaction begin_txn append_txn commit_txn) s1 xs = Some s'" "same s1 s'"
    "holds s' ((T @ [(m, so, zip [Suc m..<Suc m + length ops] ops)]) @ new_txns (Suc m + length ops) xs)
       (Suc m + length ops + script_size xs)" by blast
  moreover have "(T @ [(m, so, zip [Suc m..<Suc m + length ops] ops)]) @ new_txns (Suc m + length ops) xs = T @ new_txns m (x # xs)"
    "Suc m + length ops + script_size xs = m + script_size (x # xs)" unfolding sz by (simp_all add: x del: upt_Suc)
  ultimately show ?case using s1(1) same_trans [OF s1(3)] by (intro exI [of _ s']) (simp only: run_all.simps bind.simps simp_thms)
qed (simp_all add: script_size_def same_refl)

end


interpretation clog: redo_log
  "\<lambda>(bm, cl). log_inv bm cl"
  "\<lambda>(bm, cl) so. alloc_txn bm cl so"
  "\<lambda>(bm, cl). append_log bm cl"
  "\<lambda>(bm, cl). commit_log_commit bm cl"
  "\<lambda>(bm, cl) (bm', cl'). only_changes (log_area bm) bm bm' \<and> cl_is_checkpoint_enabled cl' = cl_is_checkpoint_enabled cl"
  "\<lambda>(bm, cl). cl_is_checkpoint_enabled cl"
  "\<lambda>(bm, cl). cl_log_entries_num cl"
  "\<lambda>(bm, cl). operations_ok bm"
proof (unfold_locales, goal_cases)
  case (1 s T m so)
  obtain bm cl where s: "s = (bm, cl)" by (cases s)
  with alloc_txn_ok [of bm cl T m so] 1 show ?case by fastforce
next
  case (2 s T m t lb so es ops)
  obtain bm cl where s: "s = (bm, cl)" by (cases s)
  with append_log_ok [of bm cl T m t ops lb so es] 2 show ?case by (fastforce simp: FAAlog_def)
next
  case (3 s T m t)
  obtain bm cl where s: "s = (bm, cl)" by (cases s)
  with commit_log_commit_ok [of bm cl T m t] 3 show ?case by fastforce
next
  case (4 s s' s'')
  obtain bm cl bm' cl' bm'' cl'' where s: "s = (bm, cl)" "s' = (bm', cl')" "s'' = (bm'', cl'')" by (cases s, cases s', cases s'')
  have "bm_block_cnt bm' = bm_block_cnt bm" using 4(1) only_changes_fields [of "log_area bm" bm bm'] by (simp add: s)
  then show ?case using 4 only_changes_trans_same [of "log_area bm" bm bm' bm''] by (simp add: s)
next
  case (7 s s' ops)
  obtain bm cl bm' cl' where s: "s = (bm, cl)" "s' = (bm', cl')" by (cases s, cases s')
  show ?case using 7 only_changes_fields [of "log_area bm" bm bm'] by (simp add: s operations_ok_def)
qed auto



section \<open>Properties\<close>

lemma redone_new_txns: "redone (new_txns m xs) = concat (map (fst \<circ> snd) xs)"
proof (induction m xs rule: new_txns.induct)
  case (2 m so ops c xs)
  have "map snd (zip [Suc m..<Suc m + length ops] ops) = ops" by (rule map_snd_zip) (simp del: upt_Suc)
  then show ?case using 2 by (simp add: redone_def del: upt_Suc)
qed (simp add: redone_def)

lemma pending_new_txns: "pending (new_txns m xs) = map fst (filter (\<lambda>(so, ops, c). ops = []) xs)"
proof (induction m xs rule: new_txns.induct)
  case (2 m so ops c xs)
  have "(zip [Suc m..<Suc m + length ops] ops = []) = (ops = [])" by (cases ops) (simp_all add: upt_conv_Cons del: upt_Suc)
  then show ?case using 2 by (cases "ops = []") (simp_all add: pending_def del: upt_Suc)
qed (simp add: pending_def)

text \<open>A new device of 4 blocks with the log enabled.\<close>

definition demo_log_disk :: block_manager where
  "demo_log_disk = \<lparr>bm_block_sz = 4096, bm_block_cnt = 4, bm_in_memory = False, bm_maybe_failed = False,
     bm_write_fail_cnt = 0, bm_block_data = replicate 4210688 0\<rparr>"

lemma demo_log_disk_created: "bm_create_logged [] 4 = Some demo_log_disk"
  by (simp add: bm_create_logged_def Let_def total_storage_sz_def u32_def ftruncate_def demo_log_disk_def)

lemma demo_log_disk_ok: "log_dev demo_log_disk" "bm_block_cnt demo_log_disk = 4"
  by (simp_all add: log_dev_def demo_log_disk_def bm_ok_def in_dev_def)

lemma blk_demo_log_disk: "i < 1028 \<Longrightarrow> blk demo_log_disk i = replicate 4096 0"
  by (simp add: blk_def demo_log_disk_def chunk_def)

lemma demo_log_inv: "log_inv demo_log_disk (commit_log_create ck False) [] 1"
proof -
  have "log_rep (\<lambda>i. log_blk demo_log_disk i) [] 1"
    by (rule empty_log_rep) (simp_all add: blk_demo_log_disk demo_log_disk_ok)
  then show ?thesis by (simp add: log_inv_def demo_log_disk_ok commit_log_create_def operations_ok_def)
qed

definition demo_block :: "byte \<Rightarrow> byte list" where
  "demo_block b = replicate 4096 b"

definition demo_script :: "(server_operation \<times> block_operation list \<times> bool) list" where
  "demo_script =
     [(\<lparr>so_type = 1, so_parent = 1, so_name = ''f''\<rparr>, [\<lparr>bo_block_id = 2, bo_new_block_state = demo_block 7\<rparr>], True),
      (\<lparr>so_type = 2, so_parent = 1, so_name = ''g''\<rparr>, [\<lparr>bo_block_id = 2, bo_new_block_state = demo_block 8\<rparr>], False),
      (\<lparr>so_type = 1, so_parent = 1, so_name = ''h''\<rparr>, [], True)]"

lemma demo_script_ok:
  "script_size demo_script = 5"
  "list_all (\<lambda>(so, ops, c). operation_ok so \<and> operations_ok demo_log_disk ops) demo_script"
  by (simp_all add: demo_script_def script_size_def operation_ok_def operations_ok_def demo_log_disk_ok demo_block_def)

text \<open>C26. Block states that were appended to the log survive a crash: whatever the crash leaves
  in the data blocks, recovery from the log blocks writes all appended states over them in the
  order of the log, reports the operations of the transactions with no state, and continues the
  numbering. It does so for uncommitted transactions as well, since \<open>recover\<close> looks at the
  log count in place of the commit flag. The log has to stay within 255 log blocks and, with
  checkpoints enabled, below 128 states.\<close>

theorem logged_states_survive_crash:
  assumes "log_inv bm cl [] 1" "script_size xs \<le> 255"
    "list_all (\<lambda>(so, ops, c). operation_ok so \<and> operations_ok bm ops) xs"
    "cl_is_checkpoint_enabled cl \<Longrightarrow> cl_log_entries_num cl + int (script_size xs) < 128"
  shows "\<exists>bm1 cl1. run_all (transaction (\<lambda>(bm, cl). alloc_txn bm cl) (\<lambda>(bm, cl). append_log bm cl)
      (\<lambda>(bm, cl). commit_log_commit bm cl)) (bm, cl) xs = Some (bm1, cl1) \<and>
    (\<forall>bm2 cl2. log_dev bm2 \<and> bm_block_cnt bm2 = bm_block_cnt bm \<and> (\<forall>i < 1024. log_blk bm2 i = log_blk bm1 i) \<longrightarrow>
      (\<exists>bm3. recover bm2 cl2 = Some (bm3, cl2\<lparr>cl_max_txn_id := length xs,
           cl_recover_operations := map fst (filter (\<lambda>(so, ops, c). ops = []) xs)\<rparr>) \<and>
         (\<forall>j < bm_block_cnt bm. blk bm3 j = redo (concat (map (fst \<circ> snd) xs)) (blk bm2) j)))"
proof -
  have len: "length (new_txns m ys) = length ys" for m ys by (induction m ys rule: new_txns.induct) simp_all
  from clog.script_logs [of "(bm, cl)" "[]" 1 xs] assms obtain bm1 cl1 where
    r: "run_all (transaction (\<lambda>(bm, cl). alloc_txn bm cl) (\<lambda>(bm, cl). append_log bm cl)
        (\<lambda>(bm, cl). commit_log_commit bm cl)) (bm, cl) xs = Some (bm1, cl1)"
      "log_inv bm1 cl1 (new_txns 1 xs) (1 + script_size xs)" "only_changes (log_area bm) bm bm1" by auto
  have c1: "bm_block_cnt bm1 = bm_block_cnt bm" using only_changes_fields [OF r(3)] by simp
  have rec: "\<exists>bm3. recover bm2 cl2 = Some (bm3, cl2\<lparr>cl_max_txn_id := length xs,
         cl_recover_operations := map fst (filter (\<lambda>(so, ops, c). ops = []) xs)\<rparr>) \<and>
       (\<forall>j < bm_block_cnt bm. blk bm3 j = redo (concat (map (fst \<circ> snd) xs)) (blk bm2) j)"
    if d: "log_dev bm2" "bm_block_cnt bm2 = bm_block_cnt bm" "\<forall>i < 1024. log_blk bm2 i = log_blk bm1 i" for bm2 cl2
  proof -
    have "log_rep (\<lambda>i. log_blk bm1 i) (new_txns 1 xs) (1 + script_size xs)" using r(2) by (simp add: log_inv_def)
    then have "log_rep (\<lambda>i. log_blk bm2 i) (new_txns 1 xs) (1 + script_size xs)"
      by (rule log_rep_cong) (use d(3) in simp)
    moreover have "operations_ok bm2 (redone (new_txns 1 xs))"
      using r(2) c1 d(2) by (simp add: log_inv_def redone_def operations_ok_def)
    ultimately show ?thesis
      using recover_ok [OF d(1), of "new_txns 1 xs" "1 + script_size xs" cl2] d(2)
      unfolding redone_new_txns pending_new_txns len by auto
  qed
  show ?thesis
    by (rule exI [of _ bm1], rule exI [of _ cl1], intro conjI allI impI r(1), elim conjE) (rule rec)
qed

theorem logged_states_survive_crash_witness:
  "\<exists>bm1 cl1 bm3 cl3. run_all (transaction (\<lambda>(bm, cl). alloc_txn bm cl) (\<lambda>(bm, cl). append_log bm cl)
      (\<lambda>(bm, cl). commit_log_commit bm cl)) (demo_log_disk, commit_log_create True False) demo_script = Some (bm1, cl1) \<and>
    recover bm1 (commit_log_create True False) = Some (bm3, cl3) \<and> blk bm3 2 = demo_block 8 \<and> cl_max_txn_id cl3 = 3 \<and>
    cl_recover_operations cl3 = [\<lparr>so_type = 1, so_parent = 1, so_name = ''h''\<rparr>]"
proof -
  from clog.script_logs [of "(demo_log_disk, commit_log_create True False)" "[]" 1 demo_script]
    demo_log_inv [of True] demo_script_ok obtain bm1 cl1 where
    r: "run_all (transaction (\<lambda>(bm, cl). alloc_txn bm cl) (\<lambda>(bm, cl). append_log bm cl)
        (\<lambda>(bm, cl). commit_log_commit bm cl)) (demo_log_disk, commit_log_create True False) demo_script = Some (bm1, cl1)"
      "log_inv bm1 cl1 (new_txns 1 demo_script) 6" "only_changes (log_area demo_log_disk) demo_log_disk bm1"
    by (auto simp: commit_log_create_def)
  have d: "log_dev bm1" "bm_block_cnt bm1 = 4"
    using r(2) only_changes_fields [OF r(3)] by (simp_all add: log_inv_def demo_log_disk_ok)
  have "script_size demo_script \<le> 255" "cl_log_entries_num (commit_log_create True False) + int (script_size demo_script) < 128"
    by (simp_all add: demo_script_ok commit_log_create_def)
  note t = logged_states_survive_crash [OF demo_log_inv this(1) demo_script_ok(2) this(2), unfolded r(1)]
  have "\<forall>bm2 cl2. log_dev bm2 \<and> bm_block_cnt bm2 = bm_block_cnt demo_log_disk \<and> (\<forall>i < 1024. log_blk bm2 i = log_blk bm1 i) \<longrightarrow>
      (\<exists>bm3. recover bm2 cl2 = Some (bm3, cl2\<lparr>cl_max_txn_id := length demo_script,
           cl_recover_operations := map fst (filter (\<lambda>(so, ops, c). ops = []) demo_script)\<rparr>) \<and>
         (\<forall>j < bm_block_cnt demo_log_disk. blk bm3 j = redo (concat (map (fst \<circ> snd) demo_script)) (blk bm2) j))"
    using t by (elim exE conjE) (simp only: option.inject prod.inject)
  from this [rule_format, of bm1 "commit_log_create True False"] d obtain bm3 cl3 where
    "recover bm1 (commit_log_create True False) = Some (bm3, cl3)" "cl_max_txn_id cl3 = length demo_script"
    "cl_recover_operations cl3 = map fst (filter (\<lambda>(so, ops, c). ops = []) demo_script)"
    "\<forall>j < 4. blk bm3 j = redo (concat (map (fst \<circ> snd) demo_script)) (blk bm1) j"
    by (auto simp: demo_log_disk_ok(2))
  moreover have "length demo_script = 3" "redo (concat (map (fst \<circ> snd) demo_script)) (blk bm1) 2 = demo_block 8"
    "map fst (filter (\<lambda>(so, ops, c). ops = []) demo_script) = [\<lparr>so_type = 1, so_parent = 1, so_name = ''h''\<rparr>]"
    by (simp_all add: demo_script_def redo_def)
  ultimately show ?thesis using r(1)
    by (rule_tac exI [of _ bm1], rule_tac exI [of _ cl1], rule_tac exI [of _ bm3], rule_tac exI [of _ cl3]) simp
qed

text \<open>A checkpoint clears the log and leaves the data blocks alone, and recovery after it
  changes nothing.\<close>

theorem checkpoint_empties_log:
  assumes "log_dev bm" "cl_working_jobs cl \<le> 0"
  shows "\<exists>bm1 cl1. checkpoint bm cl = Some (bm1, cl1) \<and> get_log_entry_num cl1 = 0 \<and> log_inv bm1 cl1 [] 1 \<and>
    (\<forall>j < bm_block_cnt bm. blk bm1 j = blk bm j) \<and>
    (\<exists>bm2. recover bm1 cl = Some (bm2, cl\<lparr>cl_max_txn_id := 0, cl_recover_operations := []\<rparr>) \<and>
       (\<forall>j < bm_block_cnt bm. blk bm2 j = blk bm j))"
proof -
  from checkpoint_ok [OF assms] obtain bm1 where
    c: "checkpoint bm cl = Some (bm1, cl\<lparr>cl_max_txn_id := 0, cl_generating_ckpt := False, cl_log_entries_num := 0\<rparr>)"
      "only_changes (log_area bm) bm bm1" "log_rep (\<lambda>i. log_blk bm1 i) [] 1" by blast
  have dev: "log_dev bm1" using assms(1) c(2) by (rule log_dev_changes)
  have cnt: "bm_block_cnt bm1 = bm_block_cnt bm" using only_changes_fields [OF c(2)] by simp
  have same: "blk bm1 j = blk bm j" if "j < bm_block_cnt bm" for j
    using only_changes_blk [OF c(2) log_dev_in_dev [OF assms(1)]] that by simp
  have "operations_ok bm1 (redone [])" by (simp add: redone_def operations_ok_def)
  from recover_ok [OF dev c(3) this, of cl] obtain bm2 where
    "recover bm1 cl = Some (bm2, cl\<lparr>cl_max_txn_id := 0, cl_recover_operations := []\<rparr>)"
    "\<forall>j < bm_block_cnt bm. blk bm2 j = blk bm1 j" by (auto simp: redone_def pending_def cnt)
  then show ?thesis using c dev same
    by (auto simp: get_log_entry_num_def log_inv_def operations_ok_def)
qed

theorem checkpoint_empties_log_witness:
  "\<exists>bm1 cl1. checkpoint demo_log_disk (commit_log_create True True) = Some (bm1, cl1) \<and> log_inv bm1 cl1 [] 1"
proof -
  have "cl_working_jobs (commit_log_create True True) \<le> 0" by (simp add: commit_log_create_def)
  from checkpoint_empties_log [OF demo_log_disk_ok(1) this] show ?thesis by blast
qed


text \<open>The operation of a transaction is read back from its log block as it was written,
  for names of at most 90 characters, and no other block changes.\<close>

theorem operation_record_round_trip:
  assumes "log_dev bm" "i < 1024" "operation_ok op"
  shows "\<exists>bm'. set_operation bm i op = Some bm' \<and> get_operation bm' i = Some op \<and>
    (\<forall>j < bm_block_cnt bm + 1024. j \<noteq> bm_block_cnt bm + i \<longrightarrow> blk bm' j = blk bm j)"
proof -
  let ?b = "patch (replicate 4096 0) 3996 (operation_bytes op)"
  have l: "length (operation_bytes op) = 100" "length ?b = 4096" using length_operation_bytes [OF assms(3)] by simp_all
  have i: "bm_block_cnt bm + i < bm_block_cnt bm + 1024" using assms(2) by simp
  note w = cl_write_ok [OF assms(1) i l(2)]
  have "chunk ?b 3996 100 = operation_bytes op" using l(1) by (intro chunk_patch_same) simp_all
  then have "get_operation (put_blk bm (bm_block_cnt bm + i) ?b) i = Some op"
    using w(4) [OF i] by (intro get_operation_ok [OF w(2) assms(2,3)]) simp
  then show ?thesis using set_operation_ok [OF assms] w(4) by auto
qed

theorem operation_record_round_trip_witness:
  "\<exists>bm'. set_operation demo_log_disk 5 \<lparr>so_type = 2, so_parent = 1, so_name = ''dir''\<rparr> = Some bm' \<and>
    get_operation bm' 5 = Some \<lparr>so_type = 2, so_parent = 1, so_name = ''dir''\<rparr>"
proof -
  have "operation_ok \<lparr>so_type = 2, so_parent = 1, so_name = ''dir''\<rparr>" by (simp add: operation_ok_def)
  from operation_record_round_trip [OF demo_log_disk_ok(1) _ this, of 5] show ?thesis by auto
qed

lemma append_log_ckpt:
  assumes "append_log bm (cl\<lparr>cl_is_checkpoint_enabled := False\<rparr>) t ops =
      Some (bm', FAAlog (int (length ops)) (cl\<lparr>cl_is_checkpoint_enabled := False\<rparr>))"
    and "cl_is_checkpoint_enabled cl" "128 \<le> cl_log_entries_num cl + int (length ops)"
      "cl_log_entries_num cl + int (length ops) < 2 ^ 32"
  shows "append_log bm cl t ops = checkpoint bm' (FAAlog (int (length ops)) cl)"
  using assms
  by (auto simp: append_log_def wait_ckpt_def Let_def alloc_log_def FAAlog_def FAAjob_def bind_eq_Some_conv
      split: if_splits)

text \<open>C39. When the appended states bring the log to 128 entries, the checkpoint runs in the
  middle of the transaction and wipes its entry too: afterwards the transaction names log
  block 0, the superblock of the log, and the numbering restarts at 0 although the transaction
  has not committed.\<close>

theorem checkpoint_drops_running_transaction:
  assumes "log_inv bm cl T m" "t < length T" "m + length ops \<le> 256" "operations_ok bm ops"
    and "cl_is_checkpoint_enabled cl" "128 \<le> cl_log_entries_num cl + int (length ops)" "cl_working_jobs cl \<le> 0"
      "cl_log_entries_num cl + int (length ops) < 2 ^ 32"
  shows "\<exists>bm' cl'. append_log bm cl t ops = Some (bm', cl') \<and> cl_max_txn_id cl' = 0 \<and> get_txn_info bm' t = Some (0, 0)"
proof -
  obtain lb so es where tx: "T ! t = (lb, so, es)" by (cases "T ! t")
  have "log_inv bm (cl\<lparr>cl_is_checkpoint_enabled := False\<rparr>) T m" using assms(1) by (simp add: log_inv_def)
  from append_log_ok [OF this assms(2-4) _ tx] obtain bm1 where
    a: "append_log bm (cl\<lparr>cl_is_checkpoint_enabled := False\<rparr>) t ops =
          Some (bm1, FAAlog (int (length ops)) (cl\<lparr>cl_is_checkpoint_enabled := False\<rparr>))"
      "only_changes (log_area bm) bm bm1" by auto
  have dev1: "log_dev bm1" using assms(1) a(2) by (auto simp: log_inv_def intro: log_dev_changes)
  have w: "cl_working_jobs (FAAlog (int (length ops)) cl) \<le> 0" using assms(7) by (simp add: FAAlog_def)
  from checkpoint_ok [OF dev1 w] obtain bm' cl' where
    c: "checkpoint bm1 (FAAlog (int (length ops)) cl) = Some (bm', cl')" "cl_max_txn_id cl' = 0"
      "only_changes (log_area bm1) bm1 bm'" "log_rep (\<lambda>i. log_blk bm' i) [] 1" by auto
  have dev': "log_dev bm'" using dev1 c(3) by (rule log_dev_changes)
  have T: "length T < 256" using assms(1) by (simp add: log_inv_def log_rep_def)
  have z: "\<forall>x. 128 \<le> x \<longrightarrow> x < 4096 \<longrightarrow> log_blk bm' 0 ! x = 0" using c(4) by (simp add: log_rep_def tx_offset_def)
  have off: "128 \<le> tx_offset t" "tx_offset t + 4 \<le> 4096" using assms(2) T by (simp_all add: tx_offset_def)
  have l: "length (blk bm' (bm_block_cnt bm')) = 4096" using length_log_blk [OF dev', of "bm_block_cnt bm'"] by simp
  have "get_txn_info bm' t = Some (0, 0)"
    using z off l cl_read_ok [OF dev', of "bm_block_cnt bm'"] by (simp add: get_txn_info_def tx_block_id_def)
  then show ?thesis using append_log_ckpt [OF a(1) assms(5,6,8)] c(1,2) by auto
qed

theorem checkpoint_drops_running_transaction_witness:
  "\<exists>bm cl. alloc_txn demo_log_disk (commit_log_create True False) \<lparr>so_type = 1, so_parent = 1, so_name = ''f''\<rparr> = Some (0, bm, cl) \<and>
    (\<exists>bm' cl'. append_log bm cl 0 (replicate 128 \<lparr>bo_block_id = 2, bo_new_block_state = demo_block 7\<rparr>) = Some (bm', cl') \<and>
       get_txn_info bm' 0 = Some (0, 0))"
proof -
  let ?so = "\<lparr>so_type = 1, so_parent = 1, so_name = ''f''\<rparr>" and ?cl = "(commit_log_create True False)\<lparr>cl_max_txn_id := Suc 0\<rparr>"
  let ?ops = "replicate 128 \<lparr>bo_block_id = 2, bo_new_block_state = demo_block 7\<rparr>"
  have "operation_ok ?so" by (simp add: operation_ok_def)
  from alloc_txn_ok [OF demo_log_inv [of True] _ this] obtain bm where
    a: "alloc_txn demo_log_disk (commit_log_create True False) ?so = Some (0, bm, ?cl)"
      "log_inv bm ?cl [(1, ?so, [])] (Suc 1)" "only_changes (log_area demo_log_disk) demo_log_disk bm" by auto
  have "bm_block_cnt bm = 4" using only_changes_fields [OF a(3)] demo_log_disk_ok(2) by simp
  then have o: "operations_ok bm ?ops" by (simp add: operations_ok_def list_all_iff demo_block_def)
  from checkpoint_drops_running_transaction [OF a(2) _ _ o, of 0] a(1) show ?thesis
    by (auto simp: commit_log_create_def)
qed

end
