(* ===== verification/Metadata_Server.thy ===== *)
theory Metadata_Server
  imports Commit_Log_Correct Rpc
begin

text \<open>
  The metadata server of the distributed file system
  (\<open>src/chfs/src/distributed/metadata_server.cc\<close> and its header). It keeps the directories in
  a file system of its own, whose regular files hold no data: the blocks of their inodes are
  pairs of a block number on a data server and a mixed number of machine and version.

  A handler runs alone, so that its mutexes are left out. \<open>t1\<close>, \<open>t2\<close>, \<open>now\<close> are what \<open>time(0)\<close>
  returns.
\<close>

section \<open>Model\<close>

type_synonym block_info = "nat \<times> nat \<times> nat"

record metadata_server =
  ms_fs :: file_operation
  ms_clients :: clients
  ms_num_data_servers :: nat
  ms_running :: bool
  ms_log :: "commit_log option"
  ms_is_log_enabled :: bool
  ms_may_failed :: bool
  ms_is_checkpoint_enabled :: bool

abbreviation (input) DistributedMaxInodeSupported :: nat where "DistributedMaxInodeSupported \<equiv> 4096"

abbreviation ms_bm :: "metadata_server \<Rightarrow> block_manager" where
  "ms_bm ms \<equiv> fo_bm (ms_fs ms)"

definition set_ms_bm :: "block_manager \<Rightarrow> metadata_server \<Rightarrow> metadata_server" where
  "set_ms_bm bm ms = ms\<lparr>ms_fs := (ms_fs ms)\<lparr>fo_bm := bm\<rparr>\<rparr>"

subsection \<open>Start-up\<close>

text \<open>
  \<open>file\<close> is the contents of the data file, \<open>None\<close> if there is none; \<open>garbage\<close> and \<open>ckpt_garbage\<close>
  are uninitialised memory. A file system that is bad ends the process.
\<close>

definition init_fs ::
    "byte list option \<Rightarrow> nat \<Rightarrow> super_block \<Rightarrow> bool \<Rightarrow> bool \<Rightarrow> bool \<Rightarrow> bool \<Rightarrow> metadata_server option" where
  "init_fs file now garbage ckpt_garbage is_log_enabled is_checkpoint_enabled may_failed = do {
     let is_initialed = (file \<noteq> None);
     let contents = (case file of Some f \<Rightarrow> f | None \<Rightarrow> []);
     bm \<leftarrow> (if is_log_enabled then bm_create_logged contents KDefaultBlockCnt
           else bm_create_file contents KDefaultBlockCnt);
     fs \<leftarrow> (if is_initialed then do {
              origin_res \<leftarrow> create_from_raw bm;
              unwrap origin_res
            }
           else do {
              fs0 \<leftarrow> file_operation_create bm DistributedMaxInodeSupported garbage;
              (init_res, fs1) \<leftarrow> alloc_inode now fs0 inode_type.Directory;
              root \<leftarrow> unwrap init_res;
              chfs_assert (root = 1);
              Some fs1
            });
     let fs' = (if is_log_enabled \<and> may_failed then fs\<lparr>fo_bm := set_may_fail (fo_bm fs) True\<rparr> else fs);
     Some \<lparr>ms_fs = fs', ms_clients = Map.empty, ms_num_data_servers = 0, ms_running = False,
       ms_log = (if is_log_enabled then Some (commit_log_create is_checkpoint_enabled ckpt_garbage) else None),
       ms_is_log_enabled = is_log_enabled, ms_may_failed = may_failed,
       ms_is_checkpoint_enabled = is_checkpoint_enabled\<rparr>
   }"

definition reg_server :: "metadata_server \<Rightarrow> string \<Rightarrow> nat \<Rightarrow> bool \<Rightarrow> bool \<times> metadata_server" where
  "reg_server ms address port reliable =
     (let n = u32 (ms_num_data_servers ms + 1)
      in (True, ms\<lparr>ms_num_data_servers := n,
            ms_clients := (if ms_clients ms n = None then (ms_clients ms)(n \<mapsto> rpc_client_create address port reliable)
              else ms_clients ms)\<rparr>))"

definition ms_run :: "metadata_server \<Rightarrow> bool \<times> metadata_server" where
  "ms_run ms = (if ms_running ms then (False, ms) else (True, ms\<lparr>ms_running := True\<rparr>))"

definition get_log_entries :: "metadata_server \<Rightarrow> nat option" where
  "get_log_entries ms =
     (if ms_is_log_enabled ms then do { cl \<leftarrow> ms_log ms; Some (get_log_entry_num cl) } else Some 0)"

subsection \<open>Logging\<close>

definition ms_alloc_txn :: "metadata_server \<Rightarrow> server_operation \<Rightarrow> (nat \<times> metadata_server) option" where
  "ms_alloc_txn ms op =
     (if \<not> ms_is_log_enabled ms then Some (0, ms)
      else do {
        cl \<leftarrow> ms_log ms;
        (txn_id, bm, cl') \<leftarrow> alloc_txn (ms_bm ms) cl op;
        Some (txn_id, (set_ms_bm bm ms)\<lparr>ms_log := Some cl'\<rparr>)
      })"

definition ms_commit_log :: "metadata_server \<Rightarrow> nat \<Rightarrow> metadata_server option" where
  "ms_commit_log ms txn_id =
     (if \<not> ms_is_log_enabled ms then Some ms
      else do {
        cl \<leftarrow> ms_log ms;
        (bm, cl') \<leftarrow> commit_log_commit (ms_bm ms) cl txn_id;
        Some ((set_ms_bm bm ms)\<lparr>ms_log := Some cl'\<rparr>)
      })"

text \<open>The current states of some blocks, as operations of the log.\<close>

fun block_operations :: "block_manager \<Rightarrow> nat list \<Rightarrow> block_operation list option" where
  "block_operations bm [] = Some []"
| "block_operations bm (i # is) = do {
     tmp_buffer \<leftarrow> cl_read bm i;
     op \<leftarrow> block_operation_create i tmp_buffer;
     ops \<leftarrow> block_operations bm is;
     Some (op # ops)
   }"

definition ms_append_log :: "metadata_server \<Rightarrow> nat \<Rightarrow> nat list \<Rightarrow> metadata_server option" where
  "ms_append_log ms txn_id ids = do {
     ops \<leftarrow> block_operations (ms_bm ms) ids;
     cl \<leftarrow> ms_log ms;
     (bm, cl') \<leftarrow> append_log (ms_bm ms) cl txn_id ops;
     Some ((set_ms_bm bm ms)\<lparr>ms_log := Some cl'\<rparr>)
   }"

text \<open>The blocks logged for a new or a removed inode: both bitmaps, the table and the inode.\<close>

definition log_inode :: "metadata_server \<Rightarrow> nat \<Rightarrow> nat \<Rightarrow> metadata_server option" where
  "log_inode ms txn_id inode_id =
     (if \<not> ms_is_log_enabled ms then Some ms
      else do {
        let bm = ms_bm ms;
        let im = fo_im (ms_fs ms);
        let inode_per_block = bm_block_sz bm div sizeof_block_id;
        chfs_assert (inode_per_block \<noteq> 0);
        let table_block_id = u64 (1 + LOGIC_2_RAW inode_id div inode_per_block);
        get_res \<leftarrow> im_get bm inode_id;
        inode_block_id \<leftarrow> unwrap get_res;
        ms_append_log ms txn_id
          [1 + im_n_table_blocks im + im_n_bitmap_blocks im, 1 + im_n_table_blocks im, table_block_id, inode_block_id]
      })"

definition log_parent :: "metadata_server \<Rightarrow> nat \<Rightarrow> nat \<Rightarrow> metadata_server option" where
  "log_parent ms txn_id parent =
     (if \<not> ms_is_log_enabled ms then Some ms
      else do {
        get_res \<leftarrow> im_get (ms_bm ms) parent;
        parent_block_id \<leftarrow> unwrap get_res;
        ms_append_log ms txn_id [parent_block_id]
      })"

subsection \<open>Names\<close>

definition readdir :: "metadata_server \<Rightarrow> nat \<Rightarrow> directory_entry list option" where
  "readdir ms node = do {
     read_dir_res \<leftarrow> read_file (ms_fs ms) node;
     case read_dir_res of
       Err _ \<Rightarrow> Some []
     | Ok dir_content \<Rightarrow> Some (parse_directory (str_of_bytes dir_content))
   }"

text \<open>\<open>name.c_str()\<close> ends at the first zero character.\<close>

definition c_str :: "string \<Rightarrow> string" where
  "c_str s = takeWhile (\<lambda>c. c \<noteq> CHR 0x00) s"

definition ms_lookup :: "metadata_server \<Rightarrow> nat \<Rightarrow> string \<Rightarrow> nat option" where
  "ms_lookup ms parent name = do {
     lookup_res \<leftarrow> lookup (ms_fs ms) parent (c_str name);
     Some (case lookup_res of Err _ \<Rightarrow> 0 | Ok i \<Rightarrow> i)
   }"

definition mknode ::
    "nat \<Rightarrow> nat \<Rightarrow> metadata_server \<Rightarrow> byte \<Rightarrow> nat \<Rightarrow> string \<Rightarrow> (nat \<times> metadata_server) option" where
  "mknode t1 t2 ms type parent name = do {
     (txn_id, ms1) \<leftarrow> ms_alloc_txn ms \<lparr>so_type = type, so_parent = parent, so_name = name\<rparr>;
     dir_content \<leftarrow> readdir ms1 parent;
     if find_entry dir_content name \<noteq> None then Some (0, ms1)
     else do {
       (alloc_inode_res, fs) \<leftarrow> alloc_inode t1 (ms_fs ms1) (type_of_u32 (unat type));
       let ms2 = ms1\<lparr>ms_fs := fs\<rparr>;
       case alloc_inode_res of
         Err _ \<Rightarrow> Some (0, ms2)
       | Ok new_inode_id \<Rightarrow> do {
           ms3 \<leftarrow> log_inode ms2 txn_id new_inode_id;
           let new_dir_str = dir_list_to_string (dir_content @ [\<lparr>de_name = name, de_id = new_inode_id\<rparr>]);
           (write_dir_res, fs') \<leftarrow> write_file t2 (ms_fs ms3) parent (bytes_of_str new_dir_str);
           ms4 \<leftarrow> log_parent (ms3\<lparr>ms_fs := fs'\<rparr>) txn_id parent;
           case write_dir_res of
             Err _ \<Rightarrow> Some (0, ms4)
           | Ok _ \<Rightarrow> do {
               ms5 \<leftarrow> ms_commit_log ms4 txn_id;
               Some (new_inode_id, ms5)
             }
         }
     }
   }"

text \<open>
  \<open>erase\<close> at the first entry of the inode; without such an entry the iterator is out of range.
\<close>

fun erase_entry :: "directory_entry list \<Rightarrow> nat \<Rightarrow> directory_entry list option" where
  "erase_entry [] inode_id = None"
| "erase_entry (e # es) inode_id =
     (if de_id e = inode_id then Some es else do { es' \<leftarrow> erase_entry es inode_id; Some (e # es') })"

definition ms_unlink :: "nat \<Rightarrow> metadata_server \<Rightarrow> nat \<Rightarrow> string \<Rightarrow> (bool \<times> metadata_server) option" where
  "ms_unlink now ms parent name = do {
     (txn_id, ms1) \<leftarrow> ms_alloc_txn ms \<lparr>so_type = 0, so_parent = parent, so_name = name\<rparr>;
     dir_content \<leftarrow> readdir ms1 parent;
     inode_id \<leftarrow> ms_lookup ms1 parent name;
     if inode_id = 0 then Some (False, ms1)
     else do {
       (remove_res, fs) \<leftarrow> remove_file (ms_fs ms1) inode_id;
       let ms2 = ms1\<lparr>ms_fs := fs\<rparr>;
       case remove_res of
         Err _ \<Rightarrow> Some (False, ms2)
       | Ok _ \<Rightarrow> do {
           ms3 \<leftarrow> log_inode ms2 txn_id inode_id;
           dir_content' \<leftarrow> erase_entry dir_content inode_id;
           (write_dir_res, fs') \<leftarrow> write_file now (ms_fs ms3) parent (bytes_of_str (dir_list_to_string dir_content'));
           ms4 \<leftarrow> log_parent (ms3\<lparr>ms_fs := fs'\<rparr>) txn_id parent;
           case write_dir_res of
             Err _ \<Rightarrow> Some (False, ms4)
           | Ok _ \<Rightarrow> do {
               ms5 \<leftarrow> ms_commit_log ms4 txn_id;
               Some (True, ms5)
             }
         }
     }
   }"

definition ms_get_type_attr :: "metadata_server \<Rightarrow> nat \<Rightarrow> (nat \<times> nat \<times> nat \<times> nat \<times> nat) option" where
  "ms_get_type_attr ms inode_id = do {
     getattr_res \<leftarrow> fo_get_type_attr (ms_fs ms) inode_id;
     Some (case getattr_res of
       Err _ \<Rightarrow> (0, 0, 0, 0, 0)
     | Ok (type, a) \<Rightarrow> (fsize a, atime a, mtime a, ctime a, u8 (u32_of_type type)))
   }"

subsection \<open>Block maps\<close>

text \<open>\<open>content_sz / block_size\<close>, rounded up: the number of blocks of a file.\<close>

definition map_block_cnt :: "inode \<Rightarrow> nat \<Rightarrow> nat" where
  "map_block_cnt ino block_size =
     (let content_sz = fsize (i_attr ino)
      in content_sz div block_size + (if content_sz mod block_size \<noteq> 0 then 1 else 0))"

fun block_map_loop :: "inode \<Rightarrow> nat \<Rightarrow> nat \<Rightarrow> block_info list option" where
  "block_map_loop ino i 0 = Some []"
| "block_map_loop ino i (Suc n) = do {
     block_id \<leftarrow> at (i_blocks ino) (2 * i);
     mixed_id \<leftarrow> at (i_blocks ino) (2 * i + 1);
     let mac_id = u32 (mixed_id div 2 ^ 32);
     let version = mixed_id mod 32;
     ret \<leftarrow> block_map_loop ino (Suc i) n;
     Some ((block_id, mac_id, version) # ret)
   }"

definition get_block_map :: "metadata_server \<Rightarrow> nat \<Rightarrow> block_info list option" where
  "get_block_map ms inode_id = do {
     let block_size = bm_block_sz (ms_bm ms);
     inode_res \<leftarrow> read_inode (ms_bm ms) (fo_im (ms_fs ms)) inode_id block_size;
     case inode_res of
       Err _ \<Rightarrow> Some []
     | Ok (inode_block, buf) \<Rightarrow> do {
         ino \<leftarrow> decode_inode buf;
         block_map_loop ino 0 (map_block_cnt ino block_size)
       }
   }"

text \<open>
  The loop that asks the data servers for a block, starting at a random one. It goes on until
  one of them gives a block: the draws of its calls are a list, and \<open>None\<close> at its end means that
  the loop is still running.
\<close>

fun alloc_retry ::
    "nat \<Rightarrow> nat \<Rightarrow> nat \<Rightarrow> draw list \<Rightarrow> clients \<Rightarrow> cluster \<Rightarrow> (block_info \<times> clients \<times> cluster) option" where
  "alloc_retry num_data_servers generated_id try_offset [] clients cluster = None"
| "alloc_retry num_data_servers generated_id try_offset (d # ds) clients cluster = do {
     let c = u32 (generated_id + try_offset) mod num_data_servers;
     let cur_id = (if c = 0 then num_data_servers else c);
     (alloc_res, clients', cluster') \<leftarrow> call_server d clients cluster cur_id alloc_block;
     case alloc_res of
       Err _ \<Rightarrow> alloc_retry num_data_servers generated_id (Suc try_offset) ds clients' cluster'
     | Ok (block_id, version) \<Rightarrow>
         if block_id = 0 then alloc_retry num_data_servers generated_id (Suc try_offset) ds clients' cluster'
         else Some ((block_id, cur_id, version), clients', cluster')
   }"

definition allocate_block ::
    "nat \<Rightarrow> nat \<Rightarrow> draw list \<Rightarrow> metadata_server \<Rightarrow> cluster \<Rightarrow> nat \<Rightarrow> (block_info \<times> metadata_server \<times> cluster) option" where
  "allocate_block now generated_id ds ms cluster inode_id = do {
     let block_size = bm_block_sz (ms_bm ms);
     inode_res \<leftarrow> read_inode (ms_bm ms) (fo_im (ms_fs ms)) inode_id block_size;
     case inode_res of
       Err _ \<Rightarrow> Some ((0, 0, 0), ms, cluster)
     | Ok (inode_block, buf) \<Rightarrow> do {
         ino \<leftarrow> decode_inode buf;
         let block_cnt = map_block_cnt ino block_size;
         chfs_assert (ms_num_data_servers ms \<noteq> 0);
         ((block_id, mac_id, version), clients', cluster') \<leftarrow>
           alloc_retry (ms_num_data_servers ms) generated_id 0 ds (ms_clients ms) cluster;
         let mixed_id = u64 (mac_id * 2 ^ 32 + version);
         blocks1 \<leftarrow> upd (i_blocks ino) (2 * block_cnt) block_id;
         blocks2 \<leftarrow> upd blocks1 (2 * block_cnt + 1) mixed_id;
         let a = set_all_time now ((i_attr ino)\<lparr>fsize := u64 (fsize (i_attr ino) + block_size)\<rparr>);
         (write_res, bm) \<leftarrow> write_block (ms_bm ms) inode_block (encode_inode (ino\<lparr>i_blocks := blocks2, i_attr := a\<rparr>));
         let ms' = (set_ms_bm bm ms)\<lparr>ms_clients := clients'\<rparr>;
         Some (if is_err write_res then ((0, 0, 0), ms', cluster') else ((block_id, mac_id, version), ms', cluster'))
       }
   }"

text \<open>The position of the first entry of a block, and the loop that closes the gap.\<close>

fun find_block :: "inode \<Rightarrow> nat \<Rightarrow> nat \<Rightarrow> nat \<Rightarrow> nat \<Rightarrow> nat option option" where
  "find_block ino block_id machine_id i 0 = Some None"
| "find_block ino block_id machine_id i (Suc n) = do {
     bid \<leftarrow> at (i_blocks ino) (2 * i);
     mixed_id \<leftarrow> at (i_blocks ino) (2 * i + 1);
     if bid = block_id \<and> u32 (mixed_id div 2 ^ 32) = machine_id then Some (Some i)
     else find_block ino block_id machine_id (Suc i) n
   }"

fun shift_blocks :: "nat list \<Rightarrow> nat \<Rightarrow> nat \<Rightarrow> nat list option" where
  "shift_blocks blocks i 0 = Some blocks"
| "shift_blocks blocks i (Suc n) = do {
     a \<leftarrow> at blocks (2 * i);
     blocks1 \<leftarrow> upd blocks (2 * i - 2) a;
     b \<leftarrow> at blocks1 (2 * i + 1);
     blocks2 \<leftarrow> upd blocks1 (2 * i - 1) b;
     shift_blocks blocks2 (Suc i) n
   }"

definition ms_free_block ::
    "nat \<Rightarrow> draw \<Rightarrow> metadata_server \<Rightarrow> cluster \<Rightarrow> nat \<Rightarrow> nat \<Rightarrow> nat \<Rightarrow> (bool \<times> metadata_server \<times> cluster) option" where
  "ms_free_block now d ms cluster inode_id block_id machine_id = do {
     let block_size = bm_block_sz (ms_bm ms);
     inode_res \<leftarrow> read_inode (ms_bm ms) (fo_im (ms_fs ms)) inode_id block_size;
     case inode_res of
       Err _ \<Rightarrow> Some (False, ms, cluster)
     | Ok (inode_block, buf) \<Rightarrow> do {
         ino \<leftarrow> decode_inode buf;
         let block_cnt = map_block_cnt ino block_size;
         pos \<leftarrow> find_block ino block_id machine_id 0 block_cnt;
         case pos of
           None \<Rightarrow> Some (False, ms, cluster)
         | Some block_pos \<Rightarrow> do {
             (free_res, clients', cluster') \<leftarrow>
               call_server d (ms_clients ms) cluster machine_id (\<lambda>ds. free_block ds block_id);
             let ms1 = ms\<lparr>ms_clients := clients'\<rparr>;
             case free_res of
               Err _ \<Rightarrow> Some (False, ms1, cluster')
             | Ok resval \<Rightarrow>
                 if \<not> resval then Some (False, ms1, cluster')
                 else do {
                   blocks1 \<leftarrow> upd (i_blocks ino) (2 * block_pos + 1) 0;
                   blocks2 \<leftarrow> upd blocks1 (2 * block_pos) 0;
                   blocks3 \<leftarrow> shift_blocks blocks2 (Suc block_pos) (block_cnt - Suc block_pos);
                   let a = set_all_time now ((i_attr ino)\<lparr>fsize := sub64 (fsize (i_attr ino)) block_size\<rparr>);
                   (write_res, bm) \<leftarrow> write_block (ms_bm ms) inode_block (encode_inode (ino\<lparr>i_blocks := blocks3, i_attr := a\<rparr>));
                   Some (is_ok write_res, set_ms_bm bm ms1, cluster')
                 }
           }
       }
   }"

subsection \<open>Recovery\<close>

text \<open>The operations without a logged state are executed again; \<open>clock\<close> gives the times.\<close>

fun redo_operations ::
    "(nat \<Rightarrow> nat) \<Rightarrow> nat \<Rightarrow> metadata_server \<Rightarrow> server_operation list \<Rightarrow> metadata_server option" where
  "redo_operations clock i ms [] = Some ms"
| "redo_operations clock i ms (op # ops) = do {
     ms' \<leftarrow> (if so_type op = 0
            then map_option snd (ms_unlink (clock i) ms (so_parent op) (so_name op))
            else map_option snd (mknode (clock i) (clock (i + 1)) ms (so_type op) (so_parent op) (so_name op)));
     redo_operations clock (i + 2) ms' ops
   }"

definition ms_recover :: "(nat \<Rightarrow> nat) \<Rightarrow> metadata_server \<Rightarrow> metadata_server option" where
  "ms_recover clock ms =
     (if \<not> ms_is_log_enabled ms then Some ms
      else do {
        let bm = set_may_fail (ms_bm ms) False;
        cl \<leftarrow> ms_log ms;
        (bm', cl') \<leftarrow> recover bm cl;
        let ms1 = (set_ms_bm bm' ms)\<lparr>ms_log := Some cl'\<rparr>;
        ms2 \<leftarrow> redo_operations clock 0 ms1 (cl_recover_operations cl');
        Some (set_ms_bm (set_may_fail (ms_bm ms2) True) ms2)
      })"



section \<open>Block maps\<close>

text \<open>
  The file \<open>inode_id\<close> has its inode \<open>ino\<close> in block \<open>bid\<close>, outside the inode table, and \<open>n\<close> pairs in its
  block array.
\<close>

definition map_ok :: "metadata_server \<Rightarrow> nat \<Rightarrow> nat \<Rightarrow> inode \<Rightarrow> nat \<Rightarrow> bool" where
  "map_ok ms inode_id bid ino n \<longleftrightarrow>
     im_ok (ms_bm ms) (fo_im (ms_fs ms)) \<and> 0 < inode_id \<and> inode_id < im_max_inode_supported (fo_im (ms_fs ms)) - 1 \<and>
     inode_table (ms_bm ms) (inode_id - 1) = bid \<and> bid \<noteq> 0 \<and> in_dev (ms_bm ms) bid \<and> bid \<notin> inode_area (fo_im (ms_fs ms)) \<and>
     decode_inode (blk (ms_bm ms) bid) = Some ino \<and> fsize (i_attr ino) = n * bm_block_sz (ms_bm ms) \<and>
     2 * n \<le> length (i_blocks ino)"

definition pairs :: "nat list \<Rightarrow> nat \<Rightarrow> (nat \<times> nat) list" where
  "pairs bs n = map (\<lambda>i. (bs ! (2 * i), bs ! (2 * i + 1))) [0..<n]"

definition pair_info :: "nat \<times> nat \<Rightarrow> block_info" where
  "pair_info p = (fst p, u32 (snd p div 2 ^ 32), snd p mod 32)"

lemma length_pairs [simp]: "length (pairs bs n) = n"
  by (simp add: pairs_def)

lemma nth_pairs [simp]: "i < n \<Longrightarrow> pairs bs n ! i = (bs ! (2 * i), bs ! (2 * i + 1))"
  by (simp add: pairs_def)

lemma map_ok_read:
  assumes "map_ok ms inode_id bid ino n"
  shows "read_inode (ms_bm ms) (fo_im (ms_fs ms)) inode_id (bm_block_sz (ms_bm ms)) = Some (Ok (bid, blk (ms_bm ms) bid))"
    "decode_inode (blk (ms_bm ms) bid) = Some ino" "map_block_cnt ino (bm_block_sz (ms_bm ms)) = n"
proof -
  have m: "im_ok (ms_bm ms) (fo_im (ms_fs ms))" "Suc (inode_id - 1) = inode_id"
    "Suc (inode_id - 1) < im_max_inode_supported (fo_im (ms_fs ms)) - 1" "inode_table (ms_bm ms) (inode_id - 1) = bid"
    "bid \<noteq> 0" "in_dev (ms_bm ms) bid" "fsize (i_attr ino) = n * bm_block_sz (ms_bm ms)"
    using assms by (simp_all add: map_ok_def)
  show "read_inode (ms_bm ms) (fo_im (ms_fs ms)) inode_id (bm_block_sz (ms_bm ms)) = Some (Ok (bid, blk (ms_bm ms) bid))"
    using read_inode_ok [OF m(1,3)] m by simp
  show "decode_inode (blk (ms_bm ms) bid) = Some ino" using assms by (simp add: map_ok_def)
  show "map_block_cnt ino (bm_block_sz (ms_bm ms)) = n"
    using m(7) im_okD(4) [OF m(1)] by (simp add: map_block_cnt_def)
qed

lemma block_map_loop_ok:
  "2 * (i + n) \<le> length (i_blocks ino) \<Longrightarrow>
   block_map_loop ino i n = Some (map (\<lambda>j. pair_info (i_blocks ino ! (2 * j), i_blocks ino ! (2 * j + 1))) [i..<i + n])"
proof (induction n arbitrary: i)
  case (Suc n)
  then show ?case using Suc.IH [of "Suc i"] by (simp add: pair_info_def upt_conv_Cons Let_def del: upt_Suc)
qed simp

lemma get_block_map_ok:
  assumes "map_ok ms inode_id bid ino n"
  shows "get_block_map ms inode_id = Some (map pair_info (pairs (i_blocks ino) n))"
  using map_ok_read [OF assms] block_map_loop_ok [of 0 n ino] assms
  by (simp add: get_block_map_def Let_def map_ok_def pairs_def o_def)

text \<open>Storing a changed inode in its block.\<close>

lemma store_inode:
  assumes ok: "map_ok ms inode_id bid ino n" and fits: "inode_fits ino'"
    and len: "length (i_blocks ino') = length (i_blocks ino)" "i_tail ino' = i_tail ino"
    and n: "fsize (i_attr ino') = n' * bm_block_sz (ms_bm ms)" "2 * n' \<le> length (i_blocks ino)"
  shows "\<exists>bm'. write_block (ms_bm ms) bid (encode_inode ino') = Some (KNullOk, bm') \<and> only_changes {bid} (ms_bm ms) bm' \<and>
    map_ok ((set_ms_bm bm' ms)\<lparr>ms_clients := cs\<rparr>) inode_id bid ino' n'"
proof -
  let ?bm = "ms_bm ms" and ?im = "fo_im (ms_fs ms)"
  have m: "im_ok ?bm ?im" "0 < inode_id" "inode_id < im_max_inode_supported ?im - 1"
    "inode_table ?bm (inode_id - 1) = bid" "bid \<noteq> 0" "in_dev ?bm bid" "bid \<notin> inode_area ?im" "decode_inode (blk ?bm bid) = Some ino"
    using ok by (simp_all add: map_ok_def)
  note o = im_okD [OF m(1)]
  have l: "length (encode_inode ino') = bm_block_sz ?bm"
    using encode_decode_inode(3) [OF m(8)] m(6) len by (simp add: length_encode_inode)
  note w = write_block_ok [OF o(1) m(6) o(2) l]
  let ?bm' = "put_blk ?bm bid (encode_inode ino')"
  have ch: "only_changes {bid} ?bm ?bm'" using m(6) l by (intro only_changes_put_blk) simp_all
  have "inode_table ?bm' (inode_id - 1) = inode_table ?bm (inode_id - 1)"
    using m by (intro inode_table_frame [OF m(1) ch]) (auto simp: inode_area_def)
  moreover have "blk ?bm' bid = encode_inode ino'" using blk_put_blk [OF m(6,6) l] by simp
  moreover have "decode_inode (encode_inode ino') = Some ino'" using fits by (rule decode_encode_inode)
  moreover have "im_ok ?bm' ?im" using m(1) ch by (rule im_ok_frame)
  moreover have "in_dev ?bm' bid" using m(6) only_changes_fields(4) [OF ch] by simp
  ultimately show ?thesis using w ch m n len by (auto simp: map_ok_def set_ms_bm_def)
qed

lemma pairs_append:
  assumes "2 * n + 2 \<le> length bs"
  shows "pairs (bs[2 * n := a, 2 * n + 1 := b]) (Suc n) = pairs bs n @ [(a, b)]"
proof (rule nth_equalityI)
  fix i assume "i < length (pairs (bs[2 * n := a, 2 * n + 1 := b]) (Suc n))"
  then show "pairs (bs[2 * n := a, 2 * n + 1 := b]) (Suc n) ! i = (pairs bs n @ [(a, b)]) ! i"
    using assms by (auto simp: nth_append nth_list_update less_Suc_eq)
qed simp

section \<open>Allocating a block\<close>

text \<open>All clients are registered, connected and, as the network may be, reliable or not.\<close>

definition cluster_ok :: "nat \<Rightarrow> clients \<Rightarrow> cluster \<Rightarrow> bool" where
  "cluster_ok n clients cluster \<longleftrightarrow>
     (\<forall>i. 1 \<le> i \<longrightarrow> i \<le> n \<longrightarrow> (\<exists>cli ds. clients i = Some cli \<and> cluster (rc_address cli) = Some ds \<and> ds_ok ds))"

definition server_at :: "clients \<Rightarrow> cluster \<Rightarrow> nat \<Rightarrow> data_server option" where
  "server_at clients cluster i = do { cli \<leftarrow> clients i; cluster (rc_address cli) }"

lemma call_server_cases:
  assumes "clients i = Some cli" "cluster (rc_address cli) = Some ds" "handler ds = Some (r, ds')"
  shows "\<exists>cli'. rc_address cli' = rc_address cli \<and> rc_reliable cli' = rc_reliable cli \<and>
    (call_server d clients cluster i handler = Some (Ok r, clients(i \<mapsto> cli'), cluster(rc_address cli \<mapsto> ds')) \<or>
     \<not> rc_reliable cli \<and> (\<exists>e ds''. call_server d clients cluster i handler = Some (Err e, clients(i \<mapsto> cli'), cluster(rc_address cli \<mapsto> ds'')) \<and>
       (ds'' = ds \<or> ds'' = ds')))"
proof -
  consider (ok) "rc_reliable cli \<or> 10 < fst d" | (lost) "\<not> rc_reliable cli" "\<not> 10 < fst d" "snd d < 5"
    | (late) "\<not> rc_reliable cli" "\<not> 10 < fst d" "\<not> snd d < 5" by blast
  then show ?thesis
  proof cases
    case ok
    then have "call_server d clients cluster i handler =
        Some (Ok r, clients(i \<mapsto> cli\<lparr>rc_count := rc_count cli + 1\<rparr>), cluster(rc_address cli \<mapsto> ds'))"
      using assms by (auto simp: call_server_def rpc_call_def)
    then show ?thesis by (intro exI [of _ "cli\<lparr>rc_count := rc_count cli + 1\<rparr>"]) simp
  next
    case lost
    then have "call_server d clients cluster i handler = Some (Err BadResponse, clients(i \<mapsto> cli), cluster(rc_address cli \<mapsto> ds))"
      using assms by (simp add: call_server_def rpc_call_def)
    then show ?thesis using lost(1) by blast
  next
    case late
    then have "call_server d clients cluster i handler = Some (Err RpcTimeout, clients(i \<mapsto> cli), cluster(rc_address cli \<mapsto> ds'))"
      using assms by (simp add: call_server_def rpc_call_def)
    then show ?thesis using late(1) by blast
  qed
qed

definition next_server :: "nat \<Rightarrow> nat \<Rightarrow> nat \<Rightarrow> nat" where
  "next_server n generated_id k = (let c = u32 (generated_id + k) mod n in if c = 0 then n else c)"

lemma next_server_range: "0 < n \<Longrightarrow> 1 \<le> next_server n g k \<and> next_server n g k \<le> n"
  by (auto simp: next_server_def Let_def intro: less_imp_le mod_less_divisor)

lemma cluster_ok_step:
  assumes "cluster_ok n clients cluster" "clients i = Some cli" "rc_address cli' = rc_address cli" "ds_ok ds'"
  shows "cluster_ok n (clients(i \<mapsto> cli')) (cluster(rc_address cli \<mapsto> ds'))"
  using assms unfolding cluster_ok_def by fastforce

lemma alloc_retry_step:
  "alloc_retry n g k (d # ds) clients cluster = do {
       (alloc_res, clients', cluster') \<leftarrow> call_server d clients cluster (next_server n g k) alloc_block;
       case alloc_res of
         Err _ \<Rightarrow> alloc_retry n g (Suc k) ds clients' cluster'
       | Ok (block_id, version) \<Rightarrow>
           if block_id = 0 then alloc_retry n g (Suc k) ds clients' cluster'
           else Some ((block_id, next_server n g k, version), clients', cluster')
     }"
  by (simp only: alloc_retry.simps next_server_def Let_def)

lemma alloc_block_result:
  assumes ok: "ds_ok s"
  shows "\<exists>b v s'. alloc_block s = Some ((b, v), s') \<and> ds_ok s' \<and>
    (b \<noteq> 0 \<longrightarrow> b < 4096 \<and> in_use (ds_version s' b) \<and> v = unat (ds_version s' b) \<and> ds_data s' b = replicate 4096 0)"
  using ok
proof (cases rule: alloc_block_cases)
  case full
  then show ?thesis using ok by auto
next
  case (free i s')
  then show ?thesis using in_use_succ [of "ds_version s i"] by auto
qed

text \<open>When a server answers, its answer is a fresh block of that server.\<close>

lemma alloc_retry_ok:
  assumes "cluster_ok n clients cluster" "0 < n" "alloc_retry n g k ds clients cluster = Some ((b, mac, v), clients', cluster')"
  shows "cluster_ok n clients' cluster' \<and> 1 \<le> mac \<and> mac \<le> n \<and> 0 < b \<and> b < 4096 \<and> v < 256 \<and>
    (\<exists>s'. server_at clients' cluster' mac = Some s' \<and> ds_ok s' \<and> in_use (ds_version s' b) \<and> v = unat (ds_version s' b) \<and>
       ds_data s' b = replicate 4096 0)"
  using assms
proof (induction ds arbitrary: k clients cluster)
  case (Cons d ds)
  let ?i = "next_server n g k"
  from Cons.prems(1) next_server_range [OF Cons.prems(2), of g k] obtain cli s where
    s: "clients ?i = Some cli" "cluster (rc_address cli) = Some s" "ds_ok s" by (auto simp: cluster_ok_def)
  from alloc_block_result [OF s(3)] obtain b0 v0 s' where a: "alloc_block s = Some ((b0, v0), s')" "ds_ok s'"
    "b0 \<noteq> 0 \<Longrightarrow> b0 < 4096 \<and> in_use (ds_version s' b0) \<and> v0 = unat (ds_version s' b0) \<and> ds_data s' b0 = replicate 4096 0"
    by blast
  from call_server_cases [of clients ?i cli cluster s alloc_block "(b0, v0)" s' d, OF s(1,2) a(1)] obtain cli' where
    c: "rc_address cli' = rc_address cli"
      "call_server d clients cluster ?i alloc_block = Some (Ok (b0, v0), clients(?i \<mapsto> cli'), cluster(rc_address cli \<mapsto> s')) \<or>
       (\<exists>e s''. call_server d clients cluster ?i alloc_block = Some (Err e, clients(?i \<mapsto> cli'), cluster(rc_address cli \<mapsto> s'')) \<and>
         (s'' = s \<or> s'' = s'))" by blast
  note run = alloc_retry_step [of n g k d ds clients cluster]
  from c(2) consider
    (answer) "call_server d clients cluster ?i alloc_block = Some (Ok (b0, v0), clients(?i \<mapsto> cli'), cluster(rc_address cli \<mapsto> s'))"
    | (failure) e s'' where "call_server d clients cluster ?i alloc_block = Some (Err e, clients(?i \<mapsto> cli'), cluster(rc_address cli \<mapsto> s''))"
      "ds_ok s''" using s(3) a(2) by blast
  then show ?case
  proof cases
    case call: answer
    note ok1 = cluster_ok_step [OF Cons.prems(1) s(1) c(1) a(2)]
    show ?thesis
    proof (cases "b0 = 0")
      case True
      then have "alloc_retry n g (Suc k) ds (clients(?i \<mapsto> cli')) (cluster(rc_address cli \<mapsto> s')) = Some ((b, mac, v), clients', cluster')"
        using Cons.prems(3) unfolding run call by simp
      then show ?thesis by (rule Cons.IH [OF ok1 Cons.prems(2)])
    next
      case False
      then have e: "b = b0" "mac = ?i" "v = v0" "clients' = clients(?i \<mapsto> cli')" "cluster' = cluster(rc_address cli \<mapsto> s')"
        using Cons.prems(3) unfolding run call by auto
      have at: "server_at clients' cluster' mac = Some s'" by (simp add: server_at_def e c(1))
      have "unat (ds_version s' b0) < 256" using unsigned_less [of "ds_version s' b0", where ?'a = nat] by simp
      moreover have "cluster_ok n clients' cluster'" using ok1 unfolding e .
      moreover have "1 \<le> mac \<and> mac \<le> n" using next_server_range [OF Cons.prems(2), of g k] unfolding e .
      ultimately show ?thesis using a(2) a(3) [OF False] False at unfolding e(1,3) by blast
    qed
  next
    case call: (failure e s'')
    note ok1 = cluster_ok_step [OF Cons.prems(1) s(1) c(1) call(2)]
    have "alloc_retry n g (Suc k) ds (clients(?i \<mapsto> cli')) (cluster(rc_address cli \<mapsto> s'')) = Some ((b, mac, v), clients', cluster')"
      using Cons.prems(3) unfolding run call(1) by simp
    then show ?thesis by (rule Cons.IH [OF ok1 Cons.prems(2)])
  qed
qed simp


lemma mixed_id_parts:
  assumes "mac < 2 ^ 32" "v < 2 ^ 32"
  shows "u32 (u64 (mac * 2 ^ 32 + v) div 2 ^ 32) = mac" "u64 (mac * 2 ^ 32 + v) mod 32 = v mod 32"
    "u64 (mac * 2 ^ 32 + v) < 2 ^ 64"
proof -
  have "mac * 2 ^ 32 + v < (mac + 1) * 2 ^ 32" using assms(2) by simp
  also have "\<dots> \<le> 2 ^ 32 * 2 ^ 32" using assms(1) by (intro mult_le_mono1) simp
  finally have e: "u64 (mac * 2 ^ 32 + v) = mac * 2 ^ 32 + v" by (simp add: u64_def)
  have "(mac * 2 ^ 32 + v) div 2 ^ 32 = mac" using assms(2) by simp
  then show "u32 (u64 (mac * 2 ^ 32 + v) div 2 ^ 32) = mac" unfolding e using assms(1) by (simp add: u32_def)
  have "(mac * 2 ^ 32 + v) mod 32 = v mod 32"
    using mod_mult_self3 [of "mac * 2 ^ 27" 32 v] by (simp add: mult.assoc)
  then show "u64 (mac * 2 ^ 32 + v) mod 32 = v mod 32" unfolding e .
  show "u64 (mac * 2 ^ 32 + v) < 2 ^ 64" by (simp add: u64_def)
qed

text \<open>The number of data servers is a 32-bit number of its own.\<close>

definition servers_ok :: "metadata_server \<Rightarrow> cluster \<Rightarrow> bool" where
  "servers_ok ms cluster \<longleftrightarrow>
     cluster_ok (ms_num_data_servers ms) (ms_clients ms) cluster \<and> 0 < ms_num_data_servers ms \<and> ms_num_data_servers ms < 2 ^ 32"

lemma allocate_block_ok:
  assumes ok: "map_ok ms inode_id bid ino n" and srv: "servers_ok ms cluster" and now: "now < 2 ^ 64"
    and room: "2 * n + 2 \<le> length (i_blocks ino)" "(n + 1) * bm_block_sz (ms_bm ms) < 2 ^ 64"
    and retry: "alloc_retry (ms_num_data_servers ms) g 0 ds (ms_clients ms) cluster = Some ((b, mac, v), clients', cluster')"
  shows "\<exists>bm' ino'. allocate_block now g ds ms cluster inode_id =
      Some ((b, mac, v), (set_ms_bm bm' ms)\<lparr>ms_clients := clients'\<rparr>, cluster') \<and>
    only_changes {bid} (ms_bm ms) bm' \<and> map_ok ((set_ms_bm bm' ms)\<lparr>ms_clients := clients'\<rparr>) inode_id bid ino' (Suc n) \<and>
    pairs (i_blocks ino') (Suc n) = pairs (i_blocks ino) n @ [(b, u64 (mac * 2 ^ 32 + v))] \<and>
    i_blocks ino' = (i_blocks ino)[2 * n := b, 2 * n + 1 := u64 (mac * 2 ^ 32 + v)] \<and> i_nblocks ino' = i_nblocks ino"
proof -
  let ?sz = "bm_block_sz (ms_bm ms)"
  note r = map_ok_read [OF ok]
  have sz: "fsize (i_attr ino) = n * ?sz" using ok by (simp add: map_ok_def)
  have s: "cluster_ok (ms_num_data_servers ms) (ms_clients ms) cluster" "0 < ms_num_data_servers ms" "ms_num_data_servers ms < 2 ^ 32"
    using srv by (simp_all add: servers_ok_def)
  note a = alloc_retry_ok [OF s(1,2) retry]
  let ?bs = "(i_blocks ino)[2 * n := b, 2 * n + 1 := u64 (mac * 2 ^ 32 + v)]"
  let ?ino' = "ino\<lparr>i_blocks := ?bs, i_attr := set_all_time now ((i_attr ino)\<lparr>fsize := u64 (fsize (i_attr ino) + ?sz)\<rparr>)\<rparr>"
  have f: "inode_fits ino" using encode_decode_inode(2) [OF r(2)] .
  have "list_all (\<lambda>v. v < 2 ^ 64) ?bs"
    using f a by (auto simp: inode_fits_def list_all_iff dest!: subsetD [OF set_update_subset_insert])
  then have fits: "inode_fits ?ino'" using f now by (simp add: inode_fits_def attr_ok_def set_all_time_def)
  have "u64 (fsize (i_attr ino) + ?sz) = Suc n * ?sz" using room(2) by (simp add: sz u64_def add.commute)
  then have n': "fsize (i_attr ?ino') = Suc n * ?sz" by (simp add: set_all_time_def)
  from store_inode [OF ok fits _ _ n', of clients'] room(1) obtain bm' where
    w: "write_block (ms_bm ms) bid (encode_inode ?ino') = Some (KNullOk, bm')" "only_changes {bid} (ms_bm ms) bm'"
      "map_ok ((set_ms_bm bm' ms)\<lparr>ms_clients := clients'\<rparr>) inode_id bid ?ino' (Suc n)" by auto
  have "allocate_block now g ds ms cluster inode_id = Some ((b, mac, v), (set_ms_bm bm' ms)\<lparr>ms_clients := clients'\<rparr>, cluster')"
    using r s(2) retry room(1) w(1) by (simp add: allocate_block_def Let_def)
  moreover have "pairs (i_blocks ?ino') (Suc n) = pairs (i_blocks ino) n @ [(b, u64 (mac * 2 ^ 32 + v))]"
    using pairs_append [OF room(1)] by simp
  moreover have "i_blocks ?ino' = ?bs" "i_nblocks ?ino' = i_nblocks ino" by simp_all
  ultimately show ?thesis using w(2,3) by blast
qed

text \<open>With reliable connections and a free block on one of the servers, a round over all servers is enough.\<close>

definition reliable_clients :: "nat \<Rightarrow> clients \<Rightarrow> bool" where
  "reliable_clients n clients \<longleftrightarrow> (\<forall>i cli. 1 \<le> i \<longrightarrow> i \<le> n \<longrightarrow> clients i = Some cli \<longrightarrow> rc_reliable cli)"

definition has_room :: "data_server \<Rightarrow> bool" where
  "has_room ds \<longleftrightarrow> (\<exists>i. 0 < i \<and> i < 4096 \<and> \<not> in_use (ds_version ds i))"

lemma alloc_block_room:
  assumes "ds_ok s"
  shows "has_room s \<Longrightarrow> \<exists>b v s'. alloc_block s = Some ((b, v), s') \<and> b \<noteq> 0"
    "\<not> has_room s \<Longrightarrow> alloc_block s = Some ((0, 0), s)"
  using assms by (cases rule: alloc_block_cases; auto simp: has_room_def)+

lemma alloc_retry_skip:
  assumes "cluster_ok n clients cluster" "0 < n" "reliable_clients n clients"
    "server_at clients cluster (next_server n g k) = Some s" "\<not> has_room s"
  shows "\<exists>clients'. alloc_retry n g k (d # ds) clients cluster = alloc_retry n g (Suc k) ds clients' cluster \<and>
    cluster_ok n clients' cluster \<and> reliable_clients n clients' \<and> (\<forall>i. server_at clients' cluster i = server_at clients cluster i)"
proof -
  let ?i = "next_server n g k"
  note i = next_server_range [OF assms(2), of g k]
  from assms(4) obtain cli where s: "clients ?i = Some cli" "cluster (rc_address cli) = Some s"
    by (auto simp: server_at_def bind_eq_Some_conv)
  have sok: "ds_ok s" using assms(1) i s by (auto simp: cluster_ok_def)
  have rel: "rc_reliable cli" using assms(3) i s(1) unfolding reliable_clients_def by blast
  note a = alloc_block_room(2) [OF sok assms(5)]
  let ?cli = "cli\<lparr>rc_count := rc_count cli + 1\<rparr>" and ?cs = "clients(?i \<mapsto> cli\<lparr>rc_count := rc_count cli + 1\<rparr>)"
  have same: "cluster(rc_address cli \<mapsto> s) = cluster" using s(2) by auto
  have "call_server d clients cluster ?i alloc_block = Some (Ok (0, 0), ?cs, cluster)"
    using s a rel same by (simp add: call_server_def rpc_call_def)
  then have "alloc_retry n g k (d # ds) clients cluster = alloc_retry n g (Suc k) ds ?cs cluster"
    unfolding alloc_retry_step by simp
  moreover have "cluster_ok n ?cs cluster" using cluster_ok_step [OF assms(1) s(1) _ sok, of ?cli] same by simp
  moreover have "reliable_clients n ?cs" using assms(3) rel by (simp add: reliable_clients_def)
  moreover have "server_at ?cs cluster j = server_at clients cluster j" for j using s(1) by (simp add: server_at_def)
  ultimately show ?thesis by blast
qed

lemma alloc_retry_full:
  assumes "cluster_ok n clients cluster" "0 < n" "reliable_clients n clients"
    "\<And>i s. 1 \<le> i \<Longrightarrow> i \<le> n \<Longrightarrow> server_at clients cluster i = Some s \<Longrightarrow> \<not> has_room s"
  shows "alloc_retry n g k ds clients cluster = None"
  using assms
proof (induction ds arbitrary: k clients)
  case (Cons d ds)
  note i = next_server_range [OF Cons.prems(2), of g k]
  from Cons.prems(1) i obtain s where s: "server_at clients cluster (next_server n g k) = Some s"
    by (fastforce simp: cluster_ok_def server_at_def)
  from alloc_retry_skip [OF Cons.prems(1-3) s] Cons.prems(4) s i obtain clients' where
    c: "alloc_retry n g k (d # ds) clients cluster = alloc_retry n g (Suc k) ds clients' cluster"
      "cluster_ok n clients' cluster" "reliable_clients n clients'" "\<forall>i. server_at clients' cluster i = server_at clients cluster i"
    by blast
  show ?case unfolding c(1) by (rule Cons.IH [OF c(2) Cons.prems(2) c(3)]) (use c(4) Cons.prems(4) in auto)
qed simp

lemma alloc_retry_within:
  assumes "cluster_ok n clients cluster" "0 < n" "reliable_clients n clients" "j < length ds"
    "server_at clients cluster (next_server n g (k + j)) = Some s" "has_room s"
  shows "\<exists>r. alloc_retry n g k ds clients cluster = Some r"
  using assms
proof (induction ds arbitrary: k j clients)
  case (Cons d ds)
  note i = next_server_range [OF Cons.prems(2), of g k]
  from Cons.prems(1) i obtain cli s0 where
    s: "clients (next_server n g k) = Some cli" "cluster (rc_address cli) = Some s0" "ds_ok s0"
    by (fastforce simp: cluster_ok_def)
  then have at0: "server_at clients cluster (next_server n g k) = Some s0" by (simp add: server_at_def)
  have rel: "rc_reliable cli" using Cons.prems(3) i s(1) unfolding reliable_clients_def by blast
  show ?case
  proof (cases "has_room s0")
    case True
    from alloc_block_room(1) [OF s(3) True] obtain b v s' where "alloc_block s0 = Some ((b, v), s')" "b \<noteq> 0" by blast
    then show ?thesis using s(1,2) rel unfolding alloc_retry_step by (simp add: call_server_def rpc_call_def)
  next
    case False
    have "j \<noteq> 0"
    proof
      assume "j = 0"
      then show False using Cons.prems(5,6) at0 False by simp
    qed
    then obtain j' where j: "j = Suc j'" using not0_implies_Suc by blast
    from alloc_retry_skip [OF Cons.prems(1-3) at0 False] obtain clients' where
      c: "alloc_retry n g k (d # ds) clients cluster = alloc_retry n g (Suc k) ds clients' cluster"
        "cluster_ok n clients' cluster" "reliable_clients n clients'" "\<forall>i. server_at clients' cluster i = server_at clients cluster i"
      by blast
    show ?thesis
      unfolding c(1) by (rule Cons.IH [OF c(2) Cons.prems(2) c(3)]) (use Cons.prems(4-6) c(4) j in auto)
  qed
qed simp

lemma next_server_hits:
  assumes "1 \<le> i" "i \<le> n" "g + n < 2 ^ 32"
  shows "\<exists>j < n. next_server n g j = i"
proof -
  define j where "j = (n + i mod n - g mod n) mod n"
  have n: "0 < n" using assms by simp
  have j: "j < n" using n by (simp add: j_def)
  have "(g + j) mod n = (g mod n + (n + i mod n - g mod n)) mod n" by (simp add: j_def mod_simps)
  also have "\<dots> = i mod n" using mod_less_divisor [OF n, of g] by simp
  finally have "(g + j) mod n = i mod n" .
  moreover have "u32 (g + j) = g + j" using assms(3) j by (simp add: u32_def)
  moreover have "i mod n = 0 \<longleftrightarrow> i = n" "i \<noteq> n \<Longrightarrow> i mod n = i" using assms(1,2) by (auto simp: mod_eq_0_iff_dvd dest: dvd_imp_le)
  ultimately have "next_server n g j = i" by (auto simp: next_server_def Let_def)
  then show ?thesis using j by blast
qed

end
