(* ===== verification/Metadata_Correct.thy ===== *)
theory Metadata_Correct
  imports Metadata_Server
begin

text \<open>
  Correctness of the metadata server: its block maps as lists of pairs that \<open>allocate_block\<close>
  extends and \<open>free_block\<close> shortens, its name operations as those of the local file system, and
  what goes wrong when the two meet.
\<close>

section \<open>Freeing a block\<close>

lemma find_block_ok:
  assumes "2 * (i + n) \<le> length (i_blocks ino)"
  shows "find_block ino b mac i n = Some (List.find (\<lambda>j. i_blocks ino ! (2 * j) = b \<and> u32 (i_blocks ino ! (2 * j + 1) div 2 ^ 32) = mac) [i..<i + n])"
  using assms
proof (induction n arbitrary: i)
  case (Suc n)
  then show ?case using Suc.IH [of "Suc i"] by (simp add: upt_conv_Cons del: upt_Suc)
qed simp

lemma set_update_twice: "set (xs[i := a, j := b]) \<subseteq> insert b (insert a (set xs))"
  using set_update_subset_insert [of "xs[i := a]" j b] set_update_subset_insert [of xs i a] by blast

lemma shift_blocks_ok:
  assumes "2 * (Suc p + m) \<le> length bs"
  shows "\<exists>bs'. shift_blocks bs (Suc p) m = Some bs' \<and> length bs' = length bs \<and> set bs' \<subseteq> set bs \<and>
    (\<forall>x < 2 * (p + m). bs' ! x = (if x < 2 * p then bs ! x else bs ! (x + 2)))"
  using assms
proof (induction m arbitrary: p bs)
  case (Suc m)
  let ?b1 = "bs[2 * p := bs ! (2 * p + 2)]"
  let ?b2 = "?b1[2 * p + 1 := bs ! (2 * p + 3)]"
  have l: "2 * p + 3 < length bs" "2 * (Suc (Suc p) + m) \<le> length ?b2" using Suc.prems by simp_all
  from Suc.IH [OF l(2)] obtain bs' where
    r: "shift_blocks ?b2 (Suc (Suc p)) m = Some bs'" "length bs' = length bs" "set bs' \<subseteq> set ?b2"
      "\<forall>x < 2 * (Suc p + m). bs' ! x = (if x < 2 * Suc p then ?b2 ! x else ?b2 ! (x + 2))" by auto
  have "shift_blocks bs (Suc p) (Suc m) = Some bs'" using r(1) l(1) by (simp add: numeral_eq_Suc)
  moreover have "set ?b2 \<subseteq> set bs"
  proof
    fix y assume "y \<in> set ?b2"
    then have "y = bs ! (2 * p + 3) \<or> y = bs ! (2 * p + 2) \<or> y \<in> set bs"
      using set_update_twice [of bs] by blast
    then show "y \<in> set bs" using l(1) nth_mem [of "2 * p + 3" bs] nth_mem [of "2 * p + 2" bs] by auto
  qed
  moreover have "bs' ! x = (if x < 2 * p then bs ! x else bs ! (x + 2))" if "x < 2 * (p + Suc m)" for x
  proof -
    have "x < 2 * (Suc p + m)" using that by simp
    then have e: "bs' ! x = (if x < 2 * Suc p then ?b2 ! x else ?b2 ! (x + 2))" using r(4) by blast
    have "x < 2 * p \<or> x = 2 * p \<or> x = 2 * p + 1 \<or> 2 * Suc p \<le> x" by arith
    then consider "x < 2 * p" | "x = 2 * p" | "x = 2 * p + 1" | "2 * Suc p \<le> x" by blast
    then show ?thesis unfolding e using l(1) by cases (simp_all add: numeral_eq_Suc)
  qed
  ultimately show ?case using r(2,3) by auto
qed auto

definition remove_nth :: "nat \<Rightarrow> 'a list \<Rightarrow> 'a list" where
  "remove_nth i xs = take i xs @ drop (Suc i) xs"

lemma pairs_remove:
  assumes "p < n" "\<And>x. x < 2 * (n - 1) \<Longrightarrow> bs' ! x = (if x < 2 * p then bs ! x else bs ! (x + 2))"
  shows "pairs bs' (n - 1) = remove_nth p (pairs bs n)"
proof (rule nth_equalityI)
  show "length (pairs bs' (n - 1)) = length (remove_nth p (pairs bs n))" using assms(1) by (simp add: remove_nth_def)
  fix i assume "i < length (pairs bs' (n - 1))"
  then have i: "i < n - 1" by simp
  show "pairs bs' (n - 1) ! i = remove_nth p (pairs bs n) ! i"
    using i assms(1) assms(2) [of "2 * i"] assms(2) [of "2 * i + 1"]
    by (cases "i < p") (auto simp: remove_nth_def nth_append min_def)
qed

lemma ms_free_block_ok:
  assumes ok: "map_ok ms inode_id bid ino n" and now: "now < 2 ^ 64"
    and cli: "ms_clients ms mac = Some cli" "rc_reliable cli" "cluster (rc_address cli) = Some s" "ds_ok s"
    and b: "0 < b" "b < 4096" "in_use (ds_version s b)"
    and p: "p < n" "fst (pairs (i_blocks ino) n ! p) = b" "u32 (snd (pairs (i_blocks ino) n ! p) div 2 ^ 32) = mac"
      "\<And>j. j < p \<Longrightarrow> fst (pairs (i_blocks ino) n ! j) \<noteq> b \<or> u32 (snd (pairs (i_blocks ino) n ! j) div 2 ^ 32) \<noteq> mac"
  shows "\<exists>ms' cluster' ino' s'. ms_free_block now d ms cluster inode_id b mac = Some (True, ms', cluster') \<and>
    map_ok ms' inode_id bid ino' (n - 1) \<and> pairs (i_blocks ino') (n - 1) = remove_nth p (pairs (i_blocks ino) n) \<and>
    server_at (ms_clients ms') cluster' mac = Some s' \<and> \<not> in_use (ds_version s' b)"
proof -
  let ?sz = "bm_block_sz (ms_bm ms)"
  note r = map_ok_read [OF ok]
  have m: "fsize (i_attr ino) = n * ?sz" "2 * n \<le> length (i_blocks ino)" using ok by (simp_all add: map_ok_def)
  have f: "inode_fits ino" using encode_decode_inode(2) [OF r(2)] .
  have "List.find (\<lambda>j. i_blocks ino ! (2 * j) = b \<and> u32 (i_blocks ino ! (2 * j + 1) div 2 ^ 32) = mac) [0..<0 + n] = Some p"
    unfolding find_Some_iff using p by (intro exI [of _ p]) auto
  then have fb: "find_block ino b mac 0 n = Some (Some p)" using find_block_ok [of 0 n ino b mac] m(2) by simp
  from free_block_ok [OF cli(4) b(1,2)] b(2,3) obtain s' where
    s: "free_block s b = Some (True, s')" "ds_version s' b = ds_version s b + 1" by auto
  let ?cli = "cli\<lparr>rc_count := rc_count cli + 1\<rparr>"
  let ?cs = "(ms_clients ms)(mac \<mapsto> ?cli)" and ?cl = "cluster(rc_address cli \<mapsto> s')"
  have call: "call_server d (ms_clients ms) cluster mac (\<lambda>ds. free_block ds b) = Some (Ok True, ?cs, ?cl)"
    using cli s(1) by (simp add: call_server_def rpc_call_def)
  let ?b2 = "(i_blocks ino)[2 * p + 1 := 0, 2 * p := 0]"
  have "2 * (Suc p + (n - Suc p)) \<le> length ?b2" using m(2) p(1) by simp
  from shift_blocks_ok [OF this] obtain bs' where
    sh: "shift_blocks ?b2 (Suc p) (n - Suc p) = Some bs'" "length bs' = length (i_blocks ino)" "set bs' \<subseteq> set ?b2"
      "\<forall>x < 2 * (p + (n - Suc p)). bs' ! x = (if x < 2 * p then ?b2 ! x else ?b2 ! (x + 2))" by auto
  have np: "p + (n - Suc p) = n - 1" using p(1) by simp
  have sh4: "bs' ! x = (if x < 2 * p then i_blocks ino ! x else i_blocks ino ! (x + 2))" if "x < 2 * (n - 1)" for x
    using sh(4) that unfolding np by simp
  note pr = pairs_remove [OF p(1) sh4]
  let ?ino' = "ino\<lparr>i_blocks := bs', i_attr := set_all_time now ((i_attr ino)\<lparr>fsize := sub64 (fsize (i_attr ino)) ?sz\<rparr>)\<rparr>"
  have big: "?sz \<le> n * ?sz" "n * ?sz < 2 ^ 64" using p(1) f m(1) by (auto simp: inode_fits_def attr_ok_def)
  have "set ?b2 \<subseteq> insert 0 (insert 0 (set (i_blocks ino)))" by (rule set_update_twice)
  then have "list_all (\<lambda>v. v < 2 ^ 64) bs'" using sh(3) f by (auto simp: inode_fits_def list_all_iff)
  moreover have sub: "sub64 (fsize (i_attr ino)) ?sz = (n - 1) * ?sz"
    using big m(1) by (simp add: sub64_id diff_mult_distrib)
  moreover have "(n - 1) * ?sz < 2 ^ 64" using big(2) by (rule le_less_trans [rotated]) (simp add: mult_le_mono1)
  ultimately have fits: "inode_fits ?ino'" using f now by (simp add: inode_fits_def attr_ok_def set_all_time_def)
  have n': "fsize (i_attr ?ino') = (n - 1) * ?sz" using sub by (simp add: set_all_time_def)
  have "length (i_blocks ?ino') = length (i_blocks ino)" "i_tail ?ino' = i_tail ino" "2 * (n - 1) \<le> length (i_blocks ino)"
    using sh(2) m(2) by simp_all
  from store_inode [OF ok fits this(1,2) n' this(3), of ?cs] obtain bm' where
    w: "write_block (ms_bm ms) bid (encode_inode ?ino') = Some (KNullOk, bm')"
      "map_ok ((set_ms_bm bm' ms)\<lparr>ms_clients := ?cs\<rparr>) inode_id bid ?ino' (n - 1)" by blast
  have "2 * p + 1 < length (i_blocks ino)" using m(2) p(1) by simp
  then have "ms_free_block now d ms cluster inode_id b mac = Some (True, set_ms_bm bm' (ms\<lparr>ms_clients := ?cs\<rparr>), ?cl)"
    using r fb call sh(1) w(1) by (simp add: ms_free_block_def Let_def)
  moreover have "set_ms_bm bm' (ms\<lparr>ms_clients := ?cs\<rparr>) = (set_ms_bm bm' ms)\<lparr>ms_clients := ?cs\<rparr>" by (simp add: set_ms_bm_def)
  moreover have "server_at ?cs ?cl mac = Some s'" by (simp add: server_at_def)
  moreover have "\<not> in_use (ds_version s' b)" using b(3) s(2) by (simp add: in_use_succ)
  moreover have "pairs (i_blocks ?ino') (n - 1) = remove_nth p (pairs (i_blocks ino) n)" using pr by simp
  moreover have "ms_clients ((set_ms_bm bm' ms)\<lparr>ms_clients := ?cs\<rparr>) = ?cs" by simp
  ultimately show ?thesis using w(2)
    by (intro exI [of _ "(set_ms_bm bm' ms)\<lparr>ms_clients := ?cs\<rparr>"] exI [of _ ?cl] exI [of _ ?ino'] exI [of _ s'])
      (simp only: simp_thms)
qed


section \<open>Names without the log\<close>

lemma readdir_ok: "fs_ok (ms_fs ms) \<Longrightarrow> usable (ms_fs ms) parent \<Longrightarrow> readdir ms parent = Some (dir_entries (ms_fs ms) parent)"
  by (simp add: readdir_def read_file_map dir_entries_def)

lemma set_ms_fs_same [simp]: "ms\<lparr>ms_fs := ms_fs ms\<rparr> = ms"
  by simp

lemma unlogged_simps:
  assumes "\<not> ms_is_log_enabled ms"
  shows "ms_alloc_txn ms op = Some (0, ms)" "log_inode ms t i = Some ms" "log_parent ms t i = Some ms" "ms_commit_log ms t = Some ms"
  using assms by (simp_all add: ms_alloc_txn_def log_inode_def log_parent_def ms_commit_log_def)

lemma mknode_unlogged:
  assumes "\<not> ms_is_log_enabled ms" "fs_ok (ms_fs ms)" "usable (ms_fs ms) parent"
  shows "mknode t1 t2 ms type parent name =
    map_option (\<lambda>(r, fs). (case r of Ok i \<Rightarrow> i | Err _ \<Rightarrow> 0, ms\<lparr>ms_fs := fs\<rparr>))
      (mk_helper t1 t2 (ms_fs ms) parent name (type_of_u32 (unat type)))"
proof -
  let ?es = "dir_entries (ms_fs ms) parent" and ?ty = "type_of_u32 (unat type)"
  note rd = readdir_ok [OF assms(2,3)] read_directory_ok [OF assms(2,3)]
  show ?thesis
  proof (cases "find_entry ?es name = None")
    case new: True
    show ?thesis
    proof (cases "alloc_inode t1 (ms_fs ms) ?ty")
      case None
      then show ?thesis using rd assms(1) new unlogged_simps [OF assms(1)] by (simp add: mknode_def mk_helper_def)
    next
      case (Some a)
      obtain r fs where a: "a = (r, fs)" by (cases a)
      have un: "\<not> ms_is_log_enabled (ms\<lparr>ms_fs := fs2\<rparr>)" for fs2 using assms(1) by simp
      show ?thesis
      proof (cases r)
        case (Err e)
        then show ?thesis using Some a rd assms(1) new unlogged_simps [OF assms(1)] by (simp add: mknode_def mk_helper_def)
      next
        case (Ok i)
        let ?d = "bytes_of_str (dir_list_to_string (?es @ [\<lparr>de_name = name, de_id = i\<rparr>]))"
        show ?thesis
        proof (cases "write_file t2 fs parent ?d")
          case None
          then show ?thesis using Some a Ok rd assms(1) new unlogged_simps [OF assms(1)] unlogged_simps [OF un] by (simp add: mknode_def mk_helper_def Let_def)
        next
          case w: (Some b)
          obtain r' fs' where "b = (r', fs')" by (cases b)
          then show ?thesis using w Some a Ok rd new unlogged_simps [OF assms(1)] unlogged_simps [OF un]
            by (cases r') (simp_all add: mknode_def mk_helper_def Let_def)
        qed
      qed
    qed
  qed (use rd unlogged_simps [OF assms(1)] in \<open>simp add: mknode_def mk_helper_def\<close>)
qed

lemma erase_entry_filter:
  assumes "distinct (map de_id es)" "e \<in> set es"
  shows "erase_entry es (de_id e) = Some (filter (\<lambda>x. de_id x \<noteq> de_id e) es)"
  using assms
proof (induction es)
  case (Cons x es)
  show ?case
  proof (cases "de_id x = de_id e")
    case True
    then have "de_id e \<notin> de_id ` set es" using Cons.prems(1) by auto
    then have "\<forall>y \<in> set es. de_id y \<noteq> de_id e" by (metis image_eqI)
    then have "filter (\<lambda>y. de_id y \<noteq> de_id e) es = es" by (simp add: filter_id_conv)
    then show ?thesis using True by simp
  next
    case False
    then have "e \<in> set es" using Cons.prems(2) by auto
    then show ?thesis using Cons False by simp
  qed
qed simp

lemma ms_unlink_unlogged:
  assumes "\<not> ms_is_log_enabled ms" "fs_ok (ms_fs ms)" "usable (ms_fs ms) parent"
    "distinct (map de_id (dir_entries (ms_fs ms) parent))" "0 \<notin> de_id ` set (dir_entries (ms_fs ms) parent)" "CHR 0x00 \<notin> set name"
  shows "ms_unlink now ms parent name =
    map_option (\<lambda>(r, fs). (is_ok r, ms\<lparr>ms_fs := fs\<rparr>)) (unlink now (ms_fs ms) parent name)"
proof -
  let ?es = "dir_entries (ms_fs ms) parent"
  have c: "c_str name = name" 
    unfolding c_str_def takeWhile_eq_all_conv using assms(6) by metis
  note l = lookup_ok [OF assms(2,3), of name]
  show ?thesis
  proof (cases "find_entry ?es name")
    case None
    then show ?thesis
      using readdir_ok [OF assms(2,3)] read_directory_ok [OF assms(2,3)] l unlogged_simps [OF assms(1)] c
      by (simp add: ms_unlink_def unlink_def ms_lookup_def)
  next
    case (Some e)
    then have e: "e \<in> set ?es" using find_entry_Some by blast
    then have "de_id e \<noteq> 0" using assms(5) by force
    have er: "erase_entry ?es (de_id e) = Some (filter (\<lambda>x. de_id x \<noteq> de_id e) ?es)"
      by (rule erase_entry_filter [OF assms(4) e])
    note pre = readdir_ok [OF assms(2,3)] read_directory_ok [OF assms(2,3)] l unlogged_simps [OF assms(1)] c Some
    show ?thesis
    proof (cases "remove_file (ms_fs ms) (de_id e)")
      case None
      then show ?thesis using pre \<open>de_id e \<noteq> 0\<close> by (simp add: ms_unlink_def unlink_def ms_lookup_def)
    next
      case (Some a)
      obtain r fs where a: "a = (r, fs)" by (cases a)
      let ?d = "bytes_of_str (dir_list_to_string (filter (\<lambda>x. de_id x \<noteq> de_id e) ?es))"
      have un: "\<not> ms_is_log_enabled (ms\<lparr>ms_fs := fs\<rparr>)" "\<not> ms_is_log_enabled (ms\<lparr>ms_fs := fs2\<rparr>)" for fs2 using assms(1) by simp_all
      show ?thesis
      proof (cases r)
        case (Err x)
        then show ?thesis using Some a pre \<open>de_id e \<noteq> 0\<close> by (simp add: ms_unlink_def unlink_def ms_lookup_def)
      next
        case (Ok x)
        show ?thesis
        proof (cases "write_file now fs parent ?d")
          case None
          then show ?thesis using Some a Ok pre \<open>de_id e \<noteq> 0\<close> er unlogged_simps [OF un(1)]
            by (simp add: ms_unlink_def unlink_def ms_lookup_def)
        next
          case w: (Some b)
          obtain r' fs' where "b = (r', fs')" by (cases b)
          then show ?thesis
            using w Some a Ok pre \<open>de_id e \<noteq> 0\<close> er unlogged_simps [OF un(1)] unlogged_simps [OF un(2), of fs']
            by (cases r') (simp_all add: ms_unlink_def unlink_def ms_lookup_def)
        qed
      qed
    qed
  qed
qed

section \<open>Files with a block map in the local file system\<close>

lemma collect_direct_two:
  assumes "2 \<le> n" "n < length (i_blocks ino)" "i_blocks ino ! 0 \<noteq> 0" "i_blocks ino ! 1 \<noteq> 0"
  shows "\<exists>rest. collect_direct ino 0 n = Some (i_blocks ino ! 0 # i_blocks ino ! 1 # rest)"
proof -
  obtain m where m: "n = Suc (Suc m)" using assms(1) by (metis add_2_eq_Suc le_Suc_ex)
  have "\<exists>rest. collect_direct ino i k = Some rest" if "i + k \<le> length (i_blocks ino)" for i k
    using that
  proof (induction k arbitrary: i)
    case (Suc k)
    have "Suc i + k \<le> length (i_blocks ino)" using Suc.prems by simp
    from Suc.IH [OF this] obtain rest where "collect_direct ino (Suc i) k = Some rest" by blast
    with Suc.prems show ?case by simp
  qed simp
  from this [of 2 m] m assms(2) obtain rest where "collect_direct ino (Suc (Suc 0)) m = Some rest" by (auto simp: numeral_2_eq_2)
  moreover have "0 < length (i_blocks ino)" "Suc 0 < length (i_blocks ino)" using m assms(2) by linarith+
  ultimately show ?thesis using assms(3,4) by (simp add: m del: length_greater_0_conv)
qed

lemma remove_file_remote:
  assumes ok: "map_ok ms inode_id bid ino n" and al: "alloc_ok (ms_bm ms) (fo_al (ms_fs ms))"
    and dis: "inode_area (fo_im (ms_fs ms)) \<inter> bitmap_area (fo_al (ms_fs ms)) = {}"
    and ino: "3 \<le> i_nblocks ino" "length (i_blocks ino) = i_nblocks ino" "i_nblocks ino < 2 ^ 32" "last (i_blocks ino) = 0"
    and b: "i_blocks ino ! 0 = b" "b \<in> alloc_used (ms_bm ms) (fo_al (ms_fs ms))" "b \<noteq> 0" "2 ^ 32 \<le> i_blocks ino ! 1"
  shows "\<exists>fs'. remove_file (ms_fs ms) inode_id = Some (Err INVALID_ARG, fs') \<and>
    only_changes (inode_area (fo_im (ms_fs ms)) \<union> bitmap_area (fo_al (ms_fs ms))) (ms_bm ms) (fo_bm fs') \<and>
    inode_table (fo_bm fs') (inode_id - 1) = 0 \<and>
    alloc_used (fo_bm fs') (fo_al (ms_fs ms)) = alloc_used (ms_bm ms) (fo_al (ms_fs ms)) - {b} \<and>
    fo_im fs' = fo_im (ms_fs ms) \<and> fo_al fs' = fo_al (ms_fs ms)"
proof -
  let ?bm = "ms_bm ms" and ?al = "fo_al (ms_fs ms)" and ?im = "fo_im (ms_fs ms)"
  note r = map_ok_read [OF ok]
  have im: "im_ok ?bm ?im" "Suc (inode_id - 1) = inode_id" "Suc (inode_id - 1) < im_max_inode_supported ?im - 1"
    using ok by (simp_all add: map_ok_def)
  have dn: "get_direct_block_num ino = i_nblocks ino - 1" using ino(1,3) by (simp add: get_direct_block_num_def sub32_id)
  have "2 \<le> get_direct_block_num ino" "get_direct_block_num ino < length (i_blocks ino)" using dn ino by simp_all
  from collect_direct_two [OF this] b obtain rest where
    col: "collect_direct ino 0 (get_direct_block_num ino) = Some (b # i_blocks ino ! 1 # rest)" by auto
  have "i_blocks ino \<noteq> []" using ino by auto
  then have ind: "at (i_blocks ino) (get_direct_block_num ino) = Some 0"
    using ino dn by (simp add: last_conv_nth)
  from free_inode_ok [OF im(1,3)] obtain bm1 where
    f: "free_inode ?bm ?im (Suc (inode_id - 1)) = Some (KNullOk, bm1)" "only_changes (inode_area ?im) ?bm bm1"
      "\<And>j. j < im_max_inode_supported ?im \<Longrightarrow> inode_table bm1 j = (if j = inode_id - 1 then 0 else inode_table ?bm j)" by blast
  have fr: "alloc_ok bm1 ?al" "alloc_used bm1 ?al = alloc_used ?bm ?al"
    using alloc_used_frame [OF al f(2)] dis by blast+
  from b(2) fr have "b \<in> alloc_used bm1 ?al" by simp
  with fr(1) obtain bm2 where
    d: "deallocate bm1 ?al b = Some (KNullOk, bm2)" "alloc_ok bm2 ?al" "only_changes (bitmap_area ?al) bm1 bm2"
      "alloc_used bm2 ?al = alloc_used bm1 ?al - {b}" by (rule deallocate_used)
  have "bm_block_cnt bm2 < 2 ^ 32" using d(2) bm_ok_cnt unfolding alloc_ok_def by blast
  then have "i_blocks ino ! 1 \<notin> alloc_used bm2 ?al" using b(4) by (auto simp: alloc_used_def)
  note u = deallocate_unused [OF d(2) this]
  have "remove_file (ms_fs ms) inode_id = Some (Err INVALID_ARG, (ms_fs ms)\<lparr>fo_bm := bm2\<rparr>)"
    using r col ind f(1) d(1) u unfolding im(2) by (simp add: remove_file_def Let_def)
  moreover have "inode_table bm2 (inode_id - 1) = 0"
  proof -
    have "{1..<1 + im_n_table_blocks ?im} \<subseteq> inode_area ?im" by (auto simp: inode_area_def)
    then have area: "bitmap_area ?al \<inter> {1..<1 + im_n_table_blocks ?im} = {}" using dis by blast
    have "inode_table bm2 (inode_id - 1) = inode_table bm1 (inode_id - 1)"
      using im(3) area by (intro inode_table_frame [OF im_ok_frame [OF im(1) f(2)] d(3)]) simp_all
    then show ?thesis using f(3) [of "inode_id - 1"] im(3) by simp
  qed
  ultimately show ?thesis using only_changes_trans [OF f(2) d(3)] d(4) fr(2) by auto
qed



section \<open>A new metadata server\<close>

lemma fresh_device_format: "can_format fresh_device 4096"
  by (simp add: can_format_def can_hold_inodes_def fresh_device_ok fresh_inode_manager_def Let_def
      ceil_div_def bitmap_blocks_def)

lemma fresh_device_layout:
  "im_max_inode_supported (fresh_inode_manager fresh_device 4096) = 32768"
  "al_bitmap_block_id (snd (fresh_layout fresh_device 4096)) = 66"
  "al_bitmap_block_cnt (snd (fresh_layout fresh_device 4096)) = 1"
  by (simp_all add: fresh_layout_def fresh_allocator_def fresh_inode_manager_def Let_def ceil_div_def bitmap_blocks_def)


lemma new_server:
  "\<exists>ms bid ino. init_fs None 7 demo_garbage False False False False = Some ms \<and> \<not> ms_is_log_enabled ms \<and>
    fs_ok (ms_fs ms) \<and> dir_ok (ms_fs ms) 1 \<and> dir_entries (ms_fs ms) 1 = [] \<and> file_map (ms_fs ms) = [1 \<mapsto> []] \<and>
    ms_num_data_servers ms = 0 \<and> ms_clients ms = Map.empty \<and> bm_block_sz (ms_bm ms) = 4096 \<and>
    im_max_inode_supported (fo_im (ms_fs ms)) = 32768 \<and> map_ok ms 1 bid ino 0 \<and> i_blocks ino = replicate 506 0 \<and> i_nblocks ino = 506 \<and>
    (\<forall>b < 67. b \<in> alloc_used (ms_bm ms) (fo_al (ms_fs ms))) \<and> get_free_blocks_num (ms_fs ms) = Some (Ok 4028) \<and>
    get_free_inode_num (ms_fs ms) = Some (Ok 32767)"
proof -
  from file_operation_create_ok [OF fresh_device_format demo_disk_ok(2)] obtain fs where
    fs: "file_operation_create fresh_device 4096 demo_garbage = Some fs" "fs_ok fs"
      "fo_im fs = fresh_inode_manager fresh_device 4096" "fo_al fs = snd (fresh_layout fresh_device 4096)"
      "alloc_used (fo_bm fs) (fo_al fs) = reserved (fo_al fs)" "inode_used (fo_bm fs) (fo_im fs) = {}"
      "only_changes UNIV fresh_device (fo_bm fs)" "file_map fs = Map.empty" by blast
  let ?bm = "fo_bm fs" and ?al = "fo_al fs" and ?im = "fo_im fs"
  have sz: "bm_block_sz ?bm = 4096" "bm_block_cnt ?bm = 4096" using only_changes_fields(1,2) [OF fs(7)] by simp_all
  have mx: "im_max_inode_supported ?im = 32768" using fs(3) fresh_device_layout by simp
  have r: "reserved ?al = {..<67}" by (simp add: reserved_def fs(4) fresh_device_layout)
  have nf: "alloc_used ?bm ?al \<noteq> {..<bm_block_cnt ?bm}" "inode_used ?bm ?im \<noteq> {..<im_max_inode_supported ?im}"
    using fs(5,6) sz r mx lessThan_empty_iff [of "32768 :: nat"] by (simp_all add: eq_commute)
  have now: "(7 :: nat) < 2 ^ 64" by simp
  have ty: "type_ok inode_type.Directory" by simp
  from alloc_inode_steps [OF fs(2) ty now] nf obtain k bid e bm' n where
    a: "alloc_inode 7 fs inode_type.Directory = Some (Ok (Suc k), fs\<lparr>fo_bm := bm'\<rparr>)"
      "{..<k} \<subseteq> inode_used ?bm ?im" "bid \<notin> alloc_used ?bm ?al"
      "alloc_used bm' ?al = insert bid (alloc_used ?bm ?al)"
      "only_changes (insert bid (bitmap_area ?al \<union> inode_area ?im)) ?bm bm'"
      "inode_used bm' ?im = insert k (inode_used ?bm ?im)"
      "\<forall>j < im_max_inode_supported ?im. inode_table bm' j = (if j = k then bid else inode_table ?bm j)"
      "blk bm' bid = encode_inode e" "inode_ok (bm_block_sz ?bm) e" "i_blocks e = replicate n 0"
      "i_attr e = \<lparr>atime = 7, mtime = 7, ctime = 7, fsize = 0\<rparr>"
    by (elim disjE exE conjE) (simp, blast)
  have k: "k = 0" using a(2) fs(6) by auto
  let ?fs = "fs\<lparr>fo_bm := bm'\<rparr>"
  from alloc_inode_map [OF fs(2) _ now, of inode_type.Directory] a(1) k fs(8) have
    m: "fs_ok ?fs" "file_map ?fs = [1 \<mapsto> []]" by auto
  have u: "usable ?fs 1" using m(2) mx by (simp add: usable_def)
  note d = empty_dir_ok [OF u] and o = fs_okD [OF m(1)]
  have used: "0 \<in> inode_used (fo_bm ?fs) (fo_im ?fs)" using a(6) k by simp
  note fo = file_okD [OF o(6) [OF used]]
  have tab: "inode_table bm' 0 = bid" using a(7) mx k by simp
  have n: "n = 506" using a(9,10) sz by (simp add: inode_ok_def)
  have fits: "inode_fits e" using a(9) by (simp add: inode_ok_def)
  have bid: "bid \<notin> reserved ?al" using a(3) fs(5) by simp
  then have b1: "bid \<noteq> 0" "bid \<notin> inode_area ?im"
    using reserved_areas(2) [of ?al ?im] o(4) r by (auto simp: subset_iff)
  have "in_dev bm' bid" using alloc_used_dev [of bm' ?al bid] o(2) a(4) by simp
  then have mo: "map_ok ms 1 bid e 0" if "ms_fs ms = ?fs" for ms
    using that o(1) tab mx b1 a(8) decode_encode_inode [OF fits] a(11) by (simp add: map_ok_def)
  have "get_free_blocks_num fs = Some (Ok (Suc 4028))"
    using free_block_cnt_ok [OF fs_okD(2) [OF fs(2)]] sz fs(5) r by (simp add: get_free_blocks_num_def)
  moreover have "get_free_inode_num fs = Some (Ok (Suc 32767))"
    using free_inode_cnt_ok [OF fs_okD(1) [OF fs(2)]] mx fs(6) by (simp add: get_free_inode_num_def)
  ultimately have fr: "get_free_blocks_num ?fs = Some (Ok 4028)" "get_free_inode_num ?fs = Some (Ok 32767)"
    using alloc_inode_free [OF fs(2) _ now, of inode_type.Directory 4028 32767] a(1) by auto
  have "init_fs None 7 demo_garbage False False False False =
      Some \<lparr>ms_fs = ?fs, ms_clients = Map.empty, ms_num_data_servers = 0, ms_running = False, ms_log = None,
        ms_is_log_enabled = False, ms_may_failed = False, ms_is_checkpoint_enabled = False\<rparr>"
    using fs(1) a(1) k by (simp add: init_fs_def create_fresh_device Let_def)
  moreover have "bm_block_sz bm' = 4096" using only_changes_fields(1) [OF a(5)] sz by simp
  moreover have "i_nblocks e = 506" using a(9) sz by (simp add: inode_ok_def)
  moreover have "\<forall>b < 67. b \<in> alloc_used bm' ?al" using a(4) fs(5) r by auto
  ultimately show ?thesis using m d mx mo a(10) n fr
    by (intro exI [of _ "\<lparr>ms_fs = ?fs, ms_clients = Map.empty, ms_num_data_servers = 0, ms_running = False, ms_log = None,
        ms_is_log_enabled = False, ms_may_failed = False, ms_is_checkpoint_enabled = False\<rparr>"] exI [of _ bid] exI [of _ e]) simp
qed

lemma root_block:
  assumes "fs_ok (ms_fs ms)" "map_ok ms 1 bid ino 0" "file_map (ms_fs ms) 1 \<noteq> None"
  shows "bid \<notin> bitmap_area (fo_al (ms_fs ms))"
proof -
  have "0 \<in> inode_used (ms_bm ms) (fo_im (ms_fs ms))" using assms(3) by (simp add: file_map_def split: if_splits)
  from file_okD(2) [OF fs_okD(6) [OF assms(1) this]] show ?thesis
    using assms(2) reserved_areas(1) [of "fo_al (ms_fs ms)"] by (auto simp: map_ok_def)
qed

text \<open>The same with one data server behind a reliable connection.\<close>

lemma demo_cluster:
  assumes d: "ds_ok ds"
  shows "\<exists>ms bid ino cluster. map_ok ms 1 bid ino 0 \<and> i_blocks ino = replicate 506 0 \<and> i_nblocks ino = 506 \<and> servers_ok ms cluster \<and>
    ms_num_data_servers ms = 1 \<and> reliable_clients 1 (ms_clients ms) \<and> \<not> ms_is_log_enabled ms \<and> fs_ok (ms_fs ms) \<and>
    bm_block_sz (ms_bm ms) = 4096 \<and> (\<forall>b < 67. b \<in> alloc_used (ms_bm ms) (fo_al (ms_fs ms))) \<and>
    file_map (ms_fs ms) 1 \<noteq> None \<and> server_at (ms_clients ms) cluster 1 = Some ds"
proof -
  from new_server obtain ms0 bid ino where
    m: "map_ok ms0 1 bid ino 0" "i_blocks ino = replicate 506 0" "i_nblocks ino = 506" "ms_num_data_servers ms0 = 0"
      "ms_clients ms0 = Map.empty" "\<not> ms_is_log_enabled ms0" "fs_ok (ms_fs ms0)" "bm_block_sz (ms_bm ms0) = 4096"
      "\<forall>b < 67. b \<in> alloc_used (ms_bm ms0) (fo_al (ms_fs ms0))" "file_map (ms_fs ms0) = [1 \<mapsto> []]" by blast
  let ?ms = "snd (reg_server ms0 ''localhost'' 3001 True)" and ?cl = "[(''localhost'', 3001) \<mapsto> ds]"
  have c: "ms_clients ?ms = [1 \<mapsto> rpc_client_create ''localhost'' 3001 True]" "ms_num_data_servers ?ms = 1" "ms_fs ?ms = ms_fs ms0"
    "ms_is_log_enabled ?ms = ms_is_log_enabled ms0"
    using m(4,5) by (simp_all add: reg_server_def Let_def u32_def)
  have "servers_ok ?ms ?cl" using d c by (auto simp: servers_ok_def cluster_ok_def rpc_client_create_def)
  moreover have "reliable_clients 1 (ms_clients ?ms)" using c by (auto simp: reliable_clients_def rpc_client_create_def)
  moreover have "server_at (ms_clients ?ms) ?cl 1 = Some ds" using c by (simp add: server_at_def rpc_client_create_def)
  moreover have "map_ok ?ms 1 bid ino 0" using m(1) c by (simp add: map_ok_def)
  ultimately show ?thesis using m c by (intro exI [of _ ?ms] exI [of _ bid] exI [of _ ino] exI [of _ ?cl]) simp
qed



section \<open>Properties\<close>

text \<open>Without the log, \<open>mknode\<close> and \<open>unlink\<close> of the metadata server are \<open>mk_helper\<close> and
  \<open>unlink\<close> of the local file system, with 0 and false for their errors, on every directory
  whose entries have different numbers.\<close>

theorem unlogged_names_are_local:
  assumes "\<not> ms_is_log_enabled ms" "fs_ok (ms_fs ms)" "usable (ms_fs ms) parent"
    "distinct (map de_id (dir_entries (ms_fs ms) parent))" "0 \<notin> de_id ` set (dir_entries (ms_fs ms) parent)" "CHR 0x00 \<notin> set name"
  shows "mknode t1 t2 ms type parent name =
      map_option (\<lambda>(r, fs). (case r of Ok i \<Rightarrow> i | Err _ \<Rightarrow> 0, ms\<lparr>ms_fs := fs\<rparr>))
        (mk_helper t1 t2 (ms_fs ms) parent name (type_of_u32 (unat type))) \<and>
    ms_unlink now ms parent name =
      map_option (\<lambda>(r, fs). (is_ok r, ms\<lparr>ms_fs := fs\<rparr>)) (unlink now (ms_fs ms) parent name)"
  using mknode_unlogged [OF assms(1-3)] ms_unlink_unlogged [OF assms] by simp

theorem unlogged_names_are_local_witness:
  "\<exists>ms. init_fs None 7 demo_garbage False False False False = Some ms \<and>
    mknode 8 8 ms 1 1 ''f'' = map_option (\<lambda>(r, fs). (case r of Ok i \<Rightarrow> i | Err _ \<Rightarrow> 0, ms\<lparr>ms_fs := fs\<rparr>))
      (mk_helper 8 8 (ms_fs ms) 1 ''f'' FILE)"
proof -
  from new_server obtain ms where
    m: "init_fs None 7 demo_garbage False False False False = Some ms" "\<not> ms_is_log_enabled ms" "fs_ok (ms_fs ms)"
      "dir_ok (ms_fs ms) 1" "dir_entries (ms_fs ms) 1 = []" by blast
  then have u: "usable (ms_fs ms) 1" by (simp add: dir_ok_def)
  from unlogged_names_are_local [OF m(2,3) u, of "''f''" 8 8 1] m(1,5) show ?thesis by auto
qed

text \<open>\<open>mknode\<close> does not notice that its parent cannot be read: with a parent number out of
  range and a free inode and block, it returns 0 but leaves a new file that no directory names.\<close>

theorem mknode_leaks_inode:
  assumes "\<not> ms_is_log_enabled ms" "fs_ok (ms_fs ms)" "im_max_inode_supported (fo_im (ms_fs ms)) - 1 \<le> parent"
    and "get_free_blocks_num (ms_fs ms) = Some (Ok (Suc f))" "get_free_inode_num (ms_fs ms) = Some (Ok (Suc g))" "t1 < 2 ^ 64"
  shows "\<exists>ms' i. mknode t1 t2 ms 1 parent name = Some (0, ms') \<and> file_map (ms_fs ms) i = None \<and>
    file_map (ms_fs ms') = (file_map (ms_fs ms))(i \<mapsto> []) \<and> get_free_inode_num (ms_fs ms') = Some (Ok g)"
proof -
  let ?fs = "ms_fs ms"
  have ty: "type_ok FILE" by simp
  from alloc_inode_free [OF assms(2) ty assms(6,4,5)] obtain k fs1 where
    a: "alloc_inode t1 ?fs FILE = Some (Ok (Suc k), fs1)" "get_free_inode_num fs1 = Some (Ok g)" by blast
  from alloc_inode_map [OF assms(2) ty assms(6)] a(1) have
    m: "fs_ok fs1" "fo_im fs1 = fo_im ?fs" "file_map ?fs (Suc k) = None" "file_map fs1 = (file_map ?fs)(Suc k \<mapsto> [])" by auto
  have "read_file ?fs parent = Some (Err INVALID_ARG)"
    using read_inode_invalid(1) [OF fs_okD(1) [OF assms(2)] assms(3)] by (simp add: read_file_def Let_def)
  then have rd: "readdir ms parent = Some []" by (simp add: readdir_def)
  have inv: "im_max_inode_supported (fo_im fs1) - 1 \<le> parent" using assms(3) m(2) by simp
  have w: "write_file t2 fs1 parent c = Some (Err INVALID_ARG, fs1)" for c
    using read_inode_invalid(1) [OF fs_okD(1) [OF m(1)] inv] by (simp add: write_file_def Let_def)
  have un: "\<not> ms_is_log_enabled (ms\<lparr>ms_fs := fs1\<rparr>)" using assms(1) by simp
  have "mknode t1 t2 ms 1 parent name = Some (0, ms\<lparr>ms_fs := fs1\<rparr>)"
    using unlogged_simps [OF assms(1)] unlogged_simps [OF un] rd a(1) w by (simp add: mknode_def find_entry_def Let_def)
  then show ?thesis using m(3,4) a(2) by (intro exI [of _ "ms\<lparr>ms_fs := fs1\<rparr>"] exI [of _ "Suc k"]) simp
qed

theorem mknode_leaks_inode_witness:
  "\<exists>ms ms' i. init_fs None 7 demo_garbage False False False False = Some ms \<and> mknode 8 8 ms 1 40000 ''f'' = Some (0, ms') \<and>
    file_map (ms_fs ms') = (file_map (ms_fs ms))(i \<mapsto> [])"
proof -
  from new_server obtain ms where
    m: "init_fs None 7 demo_garbage False False False False = Some ms" "\<not> ms_is_log_enabled ms" "fs_ok (ms_fs ms)"
      "im_max_inode_supported (fo_im (ms_fs ms)) = 32768" "get_free_blocks_num (ms_fs ms) = Some (Ok 4028)"
      "get_free_inode_num (ms_fs ms) = Some (Ok 32767)" by blast
  from mknode_leaks_inode [OF m(2,3), of 40000 4027 32766 8 8 "''f''"] m show ?thesis by auto
qed

text \<open>C33. \<open>allocate_block\<close> adds one entry at the end of the file's block map, for a zeroed block
  that the named data server has just allocated; the other entries stay. Of its version the
  map returns the lowest five bits only.\<close>

theorem allocate_block_extends_map:
  assumes "map_ok ms inode_id bid ino n" "servers_ok ms cluster" "now < 2 ^ 64"
    and "2 * n + 2 \<le> length (i_blocks ino)" "(n + 1) * bm_block_sz (ms_bm ms) < 2 ^ 64"
    and "alloc_retry (ms_num_data_servers ms) g 0 ds (ms_clients ms) cluster = Some ((b, mac, v), clients', cluster')"
  shows "\<exists>ms' s infos. allocate_block now g ds ms cluster inode_id = Some ((b, mac, v), ms', cluster') \<and>
    get_block_map ms inode_id = Some infos \<and> get_block_map ms' inode_id = Some (infos @ [(b, mac, v mod 32)]) \<and>
    server_at (ms_clients ms') cluster' mac = Some s \<and> in_use (ds_version s b) \<and> unat (ds_version s b) = v \<and>
    ds_data s b = replicate 4096 0"
proof -
  from allocate_block_ok [OF assms] obtain bm' ino' where
    a: "allocate_block now g ds ms cluster inode_id = Some ((b, mac, v), (set_ms_bm bm' ms)\<lparr>ms_clients := clients'\<rparr>, cluster')"
      "map_ok ((set_ms_bm bm' ms)\<lparr>ms_clients := clients'\<rparr>) inode_id bid ino' (Suc n)"
      "pairs (i_blocks ino') (Suc n) = pairs (i_blocks ino) n @ [(b, u64 (mac * 2 ^ 32 + v))]" by blast
  have srv: "cluster_ok (ms_num_data_servers ms) (ms_clients ms) cluster" "0 < ms_num_data_servers ms" "ms_num_data_servers ms < 2 ^ 32"
    using assms(2) by (simp_all add: servers_ok_def)
  note r = alloc_retry_ok [OF srv(1,2) assms(6)]
  have "mac < 2 ^ 32" "v < 2 ^ 32" using r srv(3) by simp_all
  from mixed_id_parts [OF this] have "pair_info (b, u64 (mac * 2 ^ 32 + v)) = (b, mac, v mod 32)" by (simp add: pair_info_def)
  then have "get_block_map ((set_ms_bm bm' ms)\<lparr>ms_clients := clients'\<rparr>) inode_id =
      Some (map pair_info (pairs (i_blocks ino) n) @ [(b, mac, v mod 32)])"
    using get_block_map_ok [OF a(2)] a(3) by simp
  with a(1) get_block_map_ok [OF assms(1)] r show ?thesis by auto
qed

lemma demo_alloc:
  assumes "servers_ok ms cluster" "ms_num_data_servers ms = 1" "reliable_clients 1 (ms_clients ms)"
    "server_at (ms_clients ms) cluster 1 = Some ds" "ds_ok ds" "\<not> in_use (ds_version ds 1)"
  shows "\<exists>clients' cluster'. alloc_retry 1 1 0 [(0, 0)] (ms_clients ms) cluster =
    Some ((1, 1, unat (ds_version ds 1 + 1)), clients', cluster')"
proof -
  from alloc_block_free [OF assms(5) _ _ assms(6)] obtain ds' where al: "alloc_block ds = Some ((1, unat (ds_version ds 1 + 1)), ds')"
    by auto
  from assms(4) obtain cli where c: "ms_clients ms 1 = Some cli" "cluster (rc_address cli) = Some ds"
    by (auto simp: server_at_def bind_eq_Some_conv)
  have "rc_reliable cli" using assms(3) c(1) unfolding reliable_clients_def by blast
  then show ?thesis using c al by (simp add: call_server_def rpc_call_def u32_def)
qed

theorem allocate_block_extends_map_witness:
  "\<exists>ms cluster ms' cluster'. get_block_map ms 1 = Some [] \<and>
    allocate_block 9 1 [(0, 0)] ms cluster 1 = Some ((1, 1, 1), ms', cluster') \<and> get_block_map ms' 1 = Some [(1, 1, 1)]"
proof -
  from initialize_ok obtain ds where d: "ds_ok ds" "ds_version ds 1 = 0" by auto
  then have f: "\<not> in_use (ds_version ds 1)" "unat (ds_version ds 1 + 1) = 1" by (simp_all add: in_use_def)
  from demo_cluster [OF d(1)] obtain ms bid ino cluster where
    m: "map_ok ms 1 bid ino 0" "i_blocks ino = replicate 506 0" "servers_ok ms cluster" "ms_num_data_servers ms = 1"
      "reliable_clients 1 (ms_clients ms)" "bm_block_sz (ms_bm ms) = 4096" "server_at (ms_clients ms) cluster 1 = Some ds" by blast
  from demo_alloc [OF m(3-5,7) d(1) f(1)] obtain clients' cluster' where
    "alloc_retry (ms_num_data_servers ms) 1 0 [(0, 0)] (ms_clients ms) cluster = Some ((1, 1, 1), clients', cluster')"
    unfolding m(4) f(2) by blast
  from allocate_block_extends_map [OF m(1,3) _ _ _ this, of 9] m(2,6) obtain ms' infos where
    a: "allocate_block 9 1 [(0, 0)] ms cluster 1 = Some ((1, 1, 1), ms', cluster')" "get_block_map ms 1 = Some infos"
      "get_block_map ms' 1 = Some (infos @ [(1, 1, 1)])" by auto
  have "get_block_map ms 1 = Some []" using get_block_map_ok [OF m(1)] by (simp add: pairs_def)
  with a show ?thesis by auto
qed


text \<open>C35. A block that has been allocated so often that its version is 32 or more cannot be read
  through the block map: the map has lost the upper bits of the version, and the data server
  answers a read with the version of the map with no data.\<close>

theorem truncated_version_unreadable:
  assumes "map_ok ms inode_id bid ino n" "servers_ok ms cluster" "now < 2 ^ 64"
    and "2 * n + 2 \<le> length (i_blocks ino)" "(n + 1) * bm_block_sz (ms_bm ms) < 2 ^ 64"
    and "alloc_retry (ms_num_data_servers ms) g 0 ds (ms_clients ms) cluster = Some ((b, mac, v), clients', cluster')"
    and "32 \<le> v" "off + len \<le> 4096"
  shows "\<exists>ms' s infos. allocate_block now g ds ms cluster inode_id = Some ((b, mac, v), ms', cluster') \<and>
    get_block_map ms' inode_id = Some infos \<and> length infos = Suc n \<and> infos ! n = (b, mac, v mod 32) \<and>
    server_at (ms_clients ms') cluster' mac = Some s \<and>
    read_data s b off len v = Some (replicate len 0) \<and> read_data s b off len (v mod 32) = Some []"
proof -
  from allocate_block_ok [OF assms(1-6)] obtain bm' ino' where
    a: "allocate_block now g ds ms cluster inode_id = Some ((b, mac, v), (set_ms_bm bm' ms)\<lparr>ms_clients := clients'\<rparr>, cluster')"
      "map_ok ((set_ms_bm bm' ms)\<lparr>ms_clients := clients'\<rparr>) inode_id bid ino' (Suc n)"
      "pairs (i_blocks ino') (Suc n) = pairs (i_blocks ino) n @ [(b, u64 (mac * 2 ^ 32 + v))]" by blast
  have srv: "cluster_ok (ms_num_data_servers ms) (ms_clients ms) cluster" "0 < ms_num_data_servers ms" "ms_num_data_servers ms < 2 ^ 32"
    using assms(2) by (simp_all add: servers_ok_def)
  from alloc_retry_ok [OF srv(1,2) assms(6)] obtain s where
    r: "mac \<le> ms_num_data_servers ms" "b < 4096" "v < 256" "server_at clients' cluster' mac = Some s" "ds_ok s"
      "in_use (ds_version s b)" "v = unat (ds_version s b)" "ds_data s b = replicate 4096 0" by blast
  have "mac < 2 ^ 32" "v < 2 ^ 32" using r(1,3) srv(3) by simp_all
  from mixed_id_parts [OF this] have "pair_info (b, u64 (mac * 2 ^ 32 + v)) = (b, mac, v mod 32)" by (simp add: pair_info_def)
  then have g: "get_block_map ((set_ms_bm bm' ms)\<lparr>ms_clients := clients'\<rparr>) inode_id =
      Some (map pair_info (pairs (i_blocks ino) n) @ [(b, mac, v mod 32)])"
    using get_block_map_ok [OF a(2)] a(3) by simp
  have "v mod 32 \<noteq> v" using assms(7) mod_less_divisor [of 32 v] by linarith
  then have "read_data s b off len (v mod 32) = Some []" using read_data_ok [OF r(5,2) assms(8)] r(7) by auto
  moreover have "read_data s b off len v = Some (replicate len 0)"
    using read_data_ok [OF r(5,2) assms(8), of v] r(6-8) assms(8) by (simp add: chunk_replicate)
  ultimately show ?thesis using a(1) g r(4)
    by (intro exI [of _ "(set_ms_bm bm' ms)\<lparr>ms_clients := clients'\<rparr>"] exI [of _ s]
        exI [of _ "map pair_info (pairs (i_blocks ino) n) @ [(b, mac, v mod 32)]"]) (simp add: nth_append)
qed

text \<open>A data server whose block 1 has been allocated and freed sixteen times.\<close>

lemma worn_server: "\<exists>ds. ds_ok ds \<and> ds_version ds 1 = 32"
proof -
  from initialize_ok obtain ds where d: "ds_ok ds" by blast
  note o = ds_okD [OF d]
  let ?b = "(blk (ds_bm ds) 0)[1 := 32]"
  have l: "length ?b = bm_block_sz (ds_bm ds)" using o(3) o(4) [of 0] by simp
  have "only_changes {0} (ds_bm ds) (put_blk (ds_bm ds) 0 ?b)" using l o(4) [of 0] by (intro only_changes_put_blk) simp_all
  from ds_ok_changes [OF d this] have "ds_ok (ds\<lparr>ds_bm := put_blk (ds_bm ds) 0 ?b\<rparr>)" .
  moreover have "ds_version (ds\<lparr>ds_bm := put_blk (ds_bm ds) 0 ?b\<rparr>) 1 = 32"
    using blk_put_blk [OF o(4) o(4) l] o(3) o(4) [of 0] by (simp add: ds_version_def)
  ultimately show ?thesis by blast
qed

theorem truncated_version_unreadable_witness:
  "\<exists>ms cluster ms' cluster' s. allocate_block 9 1 [(0, 0)] ms cluster 1 = Some ((1, 1, 33), ms', cluster') \<and>
    get_block_map ms' 1 = Some [(1, 1, 1)] \<and> server_at (ms_clients ms') cluster' 1 = Some s \<and> read_data s 1 0 16 1 = Some []"
proof -
  from worn_server obtain ds where d: "ds_ok ds" "ds_version ds 1 = 32" by blast
  then have f: "\<not> in_use (ds_version ds 1)" "unat (ds_version ds 1 + 1) = 33" by (simp_all add: in_use_def)
  from demo_cluster [OF d(1)] obtain ms bid ino cluster where
    m: "map_ok ms 1 bid ino 0" "i_blocks ino = replicate 506 0" "servers_ok ms cluster" "ms_num_data_servers ms = 1"
      "reliable_clients 1 (ms_clients ms)" "bm_block_sz (ms_bm ms) = 4096" "server_at (ms_clients ms) cluster 1 = Some ds" by blast
  from demo_alloc [OF m(3-5,7) d(1) f(1)] obtain clients' cluster' where
    "alloc_retry (ms_num_data_servers ms) 1 0 [(0, 0)] (ms_clients ms) cluster = Some ((1, 1, 33), clients', cluster')"
    unfolding m(4) f(2) by blast
  from truncated_version_unreadable [OF m(1,3) _ _ _ this, of 9 0 16] m(2,6) obtain ms' s infos where
    a: "allocate_block 9 1 [(0, 0)] ms cluster 1 = Some ((1, 1, 33), ms', cluster')" "get_block_map ms' 1 = Some infos"
      "length infos = 1" "infos ! 0 = (1, 1, 1)" "server_at (ms_clients ms') cluster' 1 = Some s" "read_data s 1 0 16 1 = Some []"
    by auto
  from a(3,4) have "infos = [(1, 1, 1)]" by (cases infos) auto
  then show ?thesis using a(1,2,5,6) by blast
qed


text \<open>\<open>free_block\<close> of a block in the file's map takes the first entry for it out of the map,
  keeps the order of the others, and frees the block on its data server.\<close>

theorem free_block_shrinks_map:
  assumes "map_ok ms inode_id bid ino n" "now < 2 ^ 64"
    and "ms_clients ms mac = Some cli" "rc_reliable cli" "cluster (rc_address cli) = Some s" "ds_ok s"
    and "0 < b" "b < 4096" "in_use (ds_version s b)"
    and "get_block_map ms inode_id = Some infos" "p < length infos" "fst (infos ! p) = b" "fst (snd (infos ! p)) = mac"
      "\<And>j. j < p \<Longrightarrow> fst (infos ! j) \<noteq> b \<or> fst (snd (infos ! j)) \<noteq> mac"
  shows "\<exists>ms' cluster' s'. ms_free_block now d ms cluster inode_id b mac = Some (True, ms', cluster') \<and>
    get_block_map ms' inode_id = Some (take p infos @ drop (Suc p) infos) \<and>
    server_at (ms_clients ms') cluster' mac = Some s' \<and> \<not> in_use (ds_version s' b)"
proof -
  have i: "infos = map pair_info (pairs (i_blocks ino) n)" using get_block_map_ok [OF assms(1)] assms(10) by simp
  have p: "p < n" "fst (pairs (i_blocks ino) n ! p) = b" "u32 (snd (pairs (i_blocks ino) n ! p) div 2 ^ 32) = mac"
    using assms(11-13) by (simp_all add: i pair_info_def)
  have q: "fst (pairs (i_blocks ino) n ! j) \<noteq> b \<or> u32 (snd (pairs (i_blocks ino) n ! j) div 2 ^ 32) \<noteq> mac" if "j < p" for j
    using assms(14) [OF that] that p(1) by (simp add: i pair_info_def)
  from ms_free_block_ok [of ms inode_id bid ino n now mac cli cluster s b p d, OF assms(1-9) p q] obtain ms' cluster' ino' s' where
    f: "ms_free_block now d ms cluster inode_id b mac = Some (True, ms', cluster')"
      "map_ok ms' inode_id bid ino' (n - 1)" "pairs (i_blocks ino') (n - 1) = remove_nth p (pairs (i_blocks ino) n)"
      "server_at (ms_clients ms') cluster' mac = Some s'" "\<not> in_use (ds_version s' b)" by blast
  have "get_block_map ms' inode_id = Some (take p infos @ drop (Suc p) infos)"
    using get_block_map_ok [OF f(2)] f(3) by (simp add: i remove_nth_def take_map drop_map)
  with f show ?thesis by blast
qed

theorem free_block_shrinks_map_witness:
  "\<exists>ms cluster ms1 cluster1 ms2 cluster2. allocate_block 9 1 [(0, 0)] ms cluster 1 = Some ((1, 1, 1), ms1, cluster1) \<and>
    ms_free_block 10 (0, 0) ms1 cluster1 1 1 1 = Some (True, ms2, cluster2) \<and> get_block_map ms2 1 = Some []"
proof -
  from initialize_ok obtain ds where d: "ds_ok ds" "ds_version ds 1 = 0" by auto
  then have f: "\<not> in_use (ds_version ds 1)" "unat (ds_version ds 1 + 1) = 1" by (simp_all add: in_use_def)
  from demo_cluster [OF d(1)] obtain ms bid ino cluster where
    m: "map_ok ms 1 bid ino 0" "i_blocks ino = replicate 506 0" "servers_ok ms cluster" "ms_num_data_servers ms = 1"
      "reliable_clients 1 (ms_clients ms)" "bm_block_sz (ms_bm ms) = 4096" "server_at (ms_clients ms) cluster 1 = Some ds" by blast
  from demo_alloc [OF m(3-5,7) d(1) f(1)] obtain clients' cluster' where
    r: "alloc_retry (ms_num_data_servers ms) 1 0 [(0, 0)] (ms_clients ms) cluster = Some ((1, 1, 1), clients', cluster')"
    unfolding m(4) f(2) by blast
  have now: "(9 :: nat) < 2 ^ 64" "(10 :: nat) < 2 ^ 64" by simp_all
  from allocate_block_ok [OF m(1,3) now(1) _ _ r] m(2,6) obtain bm' ino' where
    a: "allocate_block 9 1 [(0, 0)] ms cluster 1 = Some ((1, 1, 1), (set_ms_bm bm' ms)\<lparr>ms_clients := clients'\<rparr>, cluster')"
      "map_ok ((set_ms_bm bm' ms)\<lparr>ms_clients := clients'\<rparr>) 1 bid ino' (Suc 0)"
      "pairs (i_blocks ino') (Suc 0) = [(1, u64 (1 * 2 ^ 32 + 1))]" by (auto simp: pairs_def)
  let ?ms = "(set_ms_bm bm' ms)\<lparr>ms_clients := clients'\<rparr>"
  have srv: "cluster_ok (ms_num_data_servers ms) (ms_clients ms) cluster" "0 < ms_num_data_servers ms"
    using m(3) by (simp_all add: servers_ok_def)
  from alloc_retry_ok [OF srv r] obtain s where s: "server_at clients' cluster' 1 = Some s" "ds_ok s" "in_use (ds_version s 1)" by blast
  then obtain cli where c: "clients' 1 = Some cli" "cluster' (rc_address cli) = Some s" by (auto simp: server_at_def bind_eq_Some_conv)
  have "rc_reliable cli" using r c(1) m(4,5) by (auto simp: call_server_def rpc_call_def reliable_clients_def bind_eq_Some_conv u32_def
      split: if_splits)
  moreover have "get_block_map ?ms 1 = Some [(1, 1, 1)]" using get_block_map_ok [OF a(2)] a(3) by (simp add: pair_info_def u64_def u32_def)
  ultimately obtain ms2 cluster2 where
    "ms_free_block 10 (0, 0) ?ms cluster' 1 1 1 = Some (True, ms2, cluster2)" "get_block_map ms2 1 = Some []"
    using free_block_shrinks_map [OF a(2) now(2), of 1 cli cluster' s 1 "[(1, 1, 1)]" 0 "(0, 0)"] c s by auto
  with a(1) show ?thesis by blast
qed

text \<open>C34. Behind reliable connections, asking every data server once finds a block if any of them
  has one free. If none has, the loop of \<open>allocate_block\<close> never ends, whatever the random
  numbers are.\<close>

theorem allocate_block_returns_iff_room:
  assumes "map_ok ms inode_id bid ino n" "servers_ok ms cluster" "reliable_clients (ms_num_data_servers ms) (ms_clients ms)"
    and "now < 2 ^ 64" "2 * n + 2 \<le> length (i_blocks ino)" "(n + 1) * bm_block_sz (ms_bm ms) < 2 ^ 64"
    and "g + ms_num_data_servers ms < 2 ^ 32"
  shows "(if \<exists>i s. 1 \<le> i \<and> i \<le> ms_num_data_servers ms \<and> server_at (ms_clients ms) cluster i = Some s \<and> has_room s
     then \<forall>ds. ms_num_data_servers ms \<le> length ds \<longrightarrow> (\<exists>r. allocate_block now g ds ms cluster inode_id = Some r)
     else \<forall>ds. allocate_block now g ds ms cluster inode_id = None)"
proof (cases "\<exists>i s. 1 \<le> i \<and> i \<le> ms_num_data_servers ms \<and> server_at (ms_clients ms) cluster i = Some s \<and> has_room s")
  case True
  then obtain i s where s: "1 \<le> i" "i \<le> ms_num_data_servers ms" "server_at (ms_clients ms) cluster i = Some s" "has_room s" by blast
  have srv: "cluster_ok (ms_num_data_servers ms) (ms_clients ms) cluster" "0 < ms_num_data_servers ms"
    using assms(2) by (simp_all add: servers_ok_def)
  from next_server_hits [OF s(1,2) assms(7)] obtain j where j: "j < ms_num_data_servers ms" "next_server (ms_num_data_servers ms) g j = i" by blast
  have "\<exists>r. allocate_block now g ds ms cluster inode_id = Some r" if "ms_num_data_servers ms \<le> length ds" for ds
  proof -
    have "j < length ds" using j(1) that by simp
    from alloc_retry_within [OF srv assms(3) this, of g 0 s] s(3,4) j(2) obtain b mac v clients' cluster' where
      "alloc_retry (ms_num_data_servers ms) g 0 ds (ms_clients ms) cluster = Some ((b, mac, v), clients', cluster')" by auto
    from allocate_block_ok [OF assms(1,2,4-6) this] show ?thesis by blast
  qed
  then show ?thesis using True by auto
next
  case False
  have srv: "cluster_ok (ms_num_data_servers ms) (ms_clients ms) cluster" "0 < ms_num_data_servers ms"
    using assms(2) by (simp_all add: servers_ok_def)
  have "alloc_retry (ms_num_data_servers ms) g 0 ds (ms_clients ms) cluster = None" for ds
    using False by (intro alloc_retry_full [OF srv assms(3)]) blast
  then have "allocate_block now g ds ms cluster inode_id = None" for ds
    using map_ok_read [OF assms(1)] srv(2) by (simp add: allocate_block_def Let_def)
  then show ?thesis using False by auto
qed

theorem allocate_block_returns_iff_room_witness:
  "\<exists>ms cluster. \<forall>ds. 1 \<le> length ds \<longrightarrow> (\<exists>r. allocate_block 9 1 ds ms cluster 1 = Some r)"
proof -
  from initialize_ok obtain ds where d: "ds_ok ds" "ds_version ds 1 = 0" by auto
  have room: "has_room ds" unfolding has_room_def using d(2) by (intro exI [of _ 1]) (simp add: in_use_def)
  from demo_cluster [OF d(1)] obtain ms bid ino cluster where
    m: "map_ok ms 1 bid ino 0" "i_blocks ino = replicate 506 0" "servers_ok ms cluster" "ms_num_data_servers ms = 1"
      "reliable_clients 1 (ms_clients ms)" "bm_block_sz (ms_bm ms) = 4096" "server_at (ms_clients ms) cluster 1 = Some ds" by blast
  have "\<exists>i s. 1 \<le> i \<and> i \<le> ms_num_data_servers ms \<and> server_at (ms_clients ms) cluster i = Some s \<and> has_room s"
    using m(4,7) room by (intro exI [of _ 1] exI [of _ ds]) simp
  with allocate_block_returns_iff_room [OF m(1,3), of 9 1] m(2,4,5,6) show ?thesis by auto
qed

text \<open>C36. Removing a file that has blocks on data servers goes wrong: its block numbers and mixed
  numbers are taken for local blocks. The inode is freed, the local block with the number of the
  first remote block is marked free although it is in use (block 1 is the inode table), and the
  mixed number then gives \<open>INVALID_ARG\<close>: \<open>unlink\<close> returns false before it changes the directory,
  whose entry now names a free inode.\<close>

theorem unlink_of_remote_file_corrupts:
  assumes "map_ok ms inode_id bid ino n" "alloc_ok (ms_bm ms) (fo_al (ms_fs ms))" "\<not> ms_is_log_enabled ms"
    and "inode_area (fo_im (ms_fs ms)) \<inter> bitmap_area (fo_al (ms_fs ms)) = {}"
    and "3 \<le> i_nblocks ino" "length (i_blocks ino) = i_nblocks ino" "i_nblocks ino < 2 ^ 32" "last (i_blocks ino) = 0"
    and "0 < n" "pairs (i_blocks ino) n ! 0 = (b, mixed)" "b \<in> alloc_used (ms_bm ms) (fo_al (ms_fs ms))" "b \<noteq> 0" "2 ^ 32 \<le> mixed"
  shows "\<exists>ms'. inode_table (ms_bm ms') (inode_id - 1) = 0 \<and>
    alloc_used (ms_bm ms') (fo_al (ms_fs ms)) = alloc_used (ms_bm ms) (fo_al (ms_fs ms)) - {b} \<and>
    only_changes (inode_area (fo_im (ms_fs ms)) \<union> bitmap_area (fo_al (ms_fs ms))) (ms_bm ms) (ms_bm ms') \<and>
    remove_file (ms_fs ms) inode_id = Some (Err INVALID_ARG, ms_fs ms') \<and>
    (\<forall>now parent name es. readdir ms parent = Some es \<and> ms_lookup ms parent name = Some inode_id \<longrightarrow>
       ms_unlink now ms parent name = Some (False, ms'))"
proof -
  have b: "i_blocks ino ! 0 = b" "2 ^ 32 \<le> i_blocks ino ! 1" using assms(9,10,13) by (simp_all add: nth_pairs)
  from remove_file_remote [OF assms(1,2,4-8) b(1) assms(11,12) b(2)] obtain fs' where
    r: "remove_file (ms_fs ms) inode_id = Some (Err INVALID_ARG, fs')"
      "only_changes (inode_area (fo_im (ms_fs ms)) \<union> bitmap_area (fo_al (ms_fs ms))) (ms_bm ms) (fo_bm fs')"
      "inode_table (fo_bm fs') (inode_id - 1) = 0"
      "alloc_used (fo_bm fs') (fo_al (ms_fs ms)) = alloc_used (ms_bm ms) (fo_al (ms_fs ms)) - {b}" by blast
  have "inode_id \<noteq> 0" using assms(1) by (simp add: map_ok_def)
  then have "ms_unlink now ms parent name = Some (False, ms\<lparr>ms_fs := fs'\<rparr>)"
    if "readdir ms parent = Some es" "ms_lookup ms parent name = Some inode_id" for now parent name es
    using that r(1) unlogged_simps [OF assms(3)] by (simp add: ms_unlink_def)
  then show ?thesis using r by (intro exI [of _ "ms\<lparr>ms_fs := fs'\<rparr>"]) auto
qed

theorem unlink_of_remote_file_corrupts_witness:
  "\<exists>ms cluster ms1 cluster1 fs'. allocate_block 9 1 [(0, 0)] ms cluster 1 = Some ((1, 1, 1), ms1, cluster1) \<and>
    1 \<in> alloc_used (ms_bm ms1) (fo_al (ms_fs ms1)) \<and> remove_file (ms_fs ms1) 1 = Some (Err INVALID_ARG, fs') \<and>
    1 \<notin> alloc_used (fo_bm fs') (fo_al (ms_fs ms1))"
proof -
  from initialize_ok obtain ds where d: "ds_ok ds" "ds_version ds 1 = 0" by auto
  then have f: "\<not> in_use (ds_version ds 1)" "unat (ds_version ds 1 + 1) = 1" by (simp_all add: in_use_def)
  from demo_cluster [OF d(1)] obtain ms bid ino cluster where
    m: "map_ok ms 1 bid ino 0" "i_blocks ino = replicate 506 0" "servers_ok ms cluster" "ms_num_data_servers ms = 1"
      "reliable_clients 1 (ms_clients ms)" "bm_block_sz (ms_bm ms) = 4096" "server_at (ms_clients ms) cluster 1 = Some ds"
      "i_nblocks ino = 506" "\<not> ms_is_log_enabled ms" "fs_ok (ms_fs ms)" "\<forall>b < 67. b \<in> alloc_used (ms_bm ms) (fo_al (ms_fs ms))"
      "file_map (ms_fs ms) 1 \<noteq> None" by blast
  from demo_alloc [OF m(3-5,7) d(1) f(1)] obtain clients' cluster' where
    r: "alloc_retry (ms_num_data_servers ms) 1 0 [(0, 0)] (ms_clients ms) cluster = Some ((1, 1, 1), clients', cluster')"
    unfolding m(4) f(2) by blast
  have now: "(9 :: nat) < 2 ^ 64" by simp
  from allocate_block_ok [OF m(1,3) now _ _ r] m(2,6) obtain bm' ino' where
    a: "allocate_block 9 1 [(0, 0)] ms cluster 1 = Some ((1, 1, 1), (set_ms_bm bm' ms)\<lparr>ms_clients := clients'\<rparr>, cluster')"
      "only_changes {bid} (ms_bm ms) bm'" "map_ok ((set_ms_bm bm' ms)\<lparr>ms_clients := clients'\<rparr>) 1 bid ino' (Suc 0)"
      "i_blocks ino' = (replicate 506 0)[0 := 1, 1 := u64 (2 ^ 32 + 1)]" "i_nblocks ino' = 506" using m(8) by auto
  let ?ms = "(set_ms_bm bm' ms)\<lparr>ms_clients := clients'\<rparr>"
  have e: "ms_bm ?ms = bm'" "fo_al (ms_fs ?ms) = fo_al (ms_fs ms)" "fo_im (ms_fs ?ms) = fo_im (ms_fs ms)" by (simp_all add: set_ms_bm_def)
  note o = fs_okD [OF m(10)]
  have "bid \<notin> bitmap_area (fo_al (ms_fs ms))" using root_block [OF m(10,1,12)] by simp
  then have al: "alloc_ok bm' (fo_al (ms_fs ms))" "alloc_used bm' (fo_al (ms_fs ms)) = alloc_used (ms_bm ms) (fo_al (ms_fs ms))"
    using alloc_used_frame [OF o(2) a(2)] by simp_all
  have l: "last (i_blocks ino') = 0" unfolding a(4) by (simp add: last_conv_nth)
  have pr: "pairs (i_blocks ino') (Suc 0) ! 0 = (1, u64 (2 ^ 32 + 1))" unfolding a(4) by (simp add: pairs_def)
  have h: "alloc_ok (ms_bm ?ms) (fo_al (ms_fs ?ms))" "\<not> ms_is_log_enabled ?ms"
    "inode_area (fo_im (ms_fs ?ms)) \<inter> bitmap_area (fo_al (ms_fs ?ms)) = {}" "3 \<le> i_nblocks ino'"
    "length (i_blocks ino') = i_nblocks ino'" "i_nblocks ino' < 2 ^ 32" "1 \<in> alloc_used (ms_bm ?ms) (fo_al (ms_fs ?ms))"
    "2 ^ 32 \<le> u64 (2 ^ 32 + 1)"
    using al m(9,11) reserved_areas(3) [OF o(4)] a(4,5) unfolding e by (simp_all add: set_ms_bm_def u64_def)
  from unlink_of_remote_file_corrupts [OF a(3) h(1-6) l _ pr h(7) _ h(8)] obtain ms' where
    "alloc_used (ms_bm ms') (fo_al (ms_fs ?ms)) = alloc_used (ms_bm ?ms) (fo_al (ms_fs ?ms)) - {1}"
    "remove_file (ms_fs ?ms) 1 = Some (Err INVALID_ARG, ms_fs ms')" by auto
  then show ?thesis using a(1) h(7) by blast
qed

end
