(* ===== verification/Chfs_Client.thy ===== *)
theory Chfs_Client
  imports Metadata_Correct
begin

text \<open>
  The client of the distributed file system (\<open>src/chfs/src/distributed/client.cc\<close>): names and
  block maps come from the metadata server, contents from the data servers. The servers form
  the system the client calls; every operation takes the draws of its calls.
\<close>

section \<open>Model\<close>

type_synonym system = "metadata_server \<times> cluster"

record chfs_client =
  cc_data_servers :: clients
  cc_metadata_server :: "rpc_client option"
  cc_num_data_servers :: nat

datatype server_type = DATA_SERVER | METADATA_SERVER

definition chfs_client_create :: chfs_client where
  "chfs_client_create = \<lparr>cc_data_servers = Map.empty, cc_metadata_server = None, cc_num_data_servers = 0\<rparr>"

definition cc_reg_server :: "chfs_client \<Rightarrow> server_type \<Rightarrow> string \<Rightarrow> nat \<Rightarrow> bool \<Rightarrow> null_result \<times> chfs_client" where
  "cc_reg_server cc type address port reliable =
     (case type of
        DATA_SERVER \<Rightarrow>
          (let n = u32 (cc_num_data_servers cc + 1)
           in (KNullOk, cc\<lparr>cc_num_data_servers := n,
                 cc_data_servers := (if cc_data_servers cc n = None
                   then (cc_data_servers cc)(n \<mapsto> rpc_client_create address port reliable) else cc_data_servers cc)\<rparr>))
      | METADATA_SERVER \<Rightarrow> (KNullOk, cc\<lparr>cc_metadata_server := Some (rpc_client_create address port reliable)\<rparr>))"

text \<open>
  \<open>ChfsResult<T>({})\<close> for a class type \<open>T\<close>: the empty braces convert to \<open>ErrorType\<close> without a
  constructor call, so that the result is the error with the value 0.
\<close>

definition empty_result :: "'a chfs_result" where
  "empty_result = Err DONE"

definition call_metadata ::
    "draw \<Rightarrow> chfs_client \<Rightarrow> (system \<Rightarrow> ('r \<times> system) option) \<Rightarrow> system \<Rightarrow> ('r chfs_result \<times> chfs_client \<times> system) option" where
  "call_metadata d cc handler sys = do {
     cli \<leftarrow> cc_metadata_server cc;
     (res, cli', sys') \<leftarrow> rpc_call d cli handler sys;
     Some (res, cc\<lparr>cc_metadata_server := Some cli'\<rparr>, sys')
   }"

text \<open>Handlers of the metadata server, on the system.\<close>

definition on_names :: "(metadata_server \<Rightarrow> ('r \<times> metadata_server) option) \<Rightarrow> system \<Rightarrow> ('r \<times> system) option" where
  "on_names h sys = map_option (\<lambda>(r, ms). (r, (ms, snd sys))) (h (fst sys))"

definition on_query :: "(metadata_server \<Rightarrow> 'r option) \<Rightarrow> system \<Rightarrow> ('r \<times> system) option" where
  "on_query h sys = map_option (\<lambda>r. (r, sys)) (h (fst sys))"

definition cc_mknode ::
    "draw \<Rightarrow> nat \<Rightarrow> nat \<Rightarrow> chfs_client \<Rightarrow> system \<Rightarrow> byte \<Rightarrow> nat \<Rightarrow> string \<Rightarrow> (nat chfs_result \<times> chfs_client \<times> system) option" where
  "cc_mknode d t1 t2 cc sys type parent name = do {
     (srv_call, cc', sys') \<leftarrow> call_metadata d cc (on_names (\<lambda>ms. mknode t1 t2 ms type parent name)) sys;
     Some (case srv_call of
       Err _ \<Rightarrow> Ok 0
     | Ok response \<Rightarrow> if response = 0 then Err BadResponse else Ok response, cc', sys')
   }"

definition cc_unlink ::
    "draw \<Rightarrow> nat \<Rightarrow> chfs_client \<Rightarrow> system \<Rightarrow> nat \<Rightarrow> string \<Rightarrow> (null_result \<times> chfs_client \<times> system) option" where
  "cc_unlink d now cc sys parent name = do {
     (srv_call, cc', sys') \<leftarrow> call_metadata d cc (on_names (\<lambda>ms. ms_unlink now ms parent name)) sys;
     Some (case srv_call of
       Err e \<Rightarrow> Err e
     | Ok response \<Rightarrow> if \<not> response then Err BadResponse else KNullOk, cc', sys')
   }"

definition cc_lookup ::
    "draw \<Rightarrow> chfs_client \<Rightarrow> system \<Rightarrow> nat \<Rightarrow> string \<Rightarrow> (nat chfs_result \<times> chfs_client \<times> system) option" where
  "cc_lookup d cc sys parent name = do {
     (srv_call, cc', sys') \<leftarrow> call_metadata d cc (on_query (\<lambda>ms. ms_lookup ms parent name)) sys;
     Some (case srv_call of Err _ \<Rightarrow> Ok 0 | Ok response \<Rightarrow> Ok response, cc', sys')
   }"

definition cc_readdir ::
    "draw \<Rightarrow> chfs_client \<Rightarrow> system \<Rightarrow> nat \<Rightarrow> (directory_entry list chfs_result \<times> chfs_client \<times> system) option" where
  "cc_readdir d cc sys inode_id = do {
     (srv_call, cc', sys') \<leftarrow> call_metadata d cc (on_query (\<lambda>ms. readdir ms inode_id)) sys;
     Some (case srv_call of Err _ \<Rightarrow> empty_result | Ok response \<Rightarrow> Ok response, cc', sys')
   }"

definition cc_get_type_attr ::
    "draw \<Rightarrow> chfs_client \<Rightarrow> system \<Rightarrow> nat \<Rightarrow> ((inode_type \<times> file_attr) chfs_result \<times> chfs_client \<times> system) option" where
  "cc_get_type_attr d cc sys inode_id = do {
     (srv_call, cc', sys') \<leftarrow> call_metadata d cc (on_query (\<lambda>ms. ms_get_type_attr ms inode_id)) sys;
     Some (case srv_call of
       Err _ \<Rightarrow> empty_result
     | Ok (sz, acc, mt, ct, type) \<Rightarrow> Ok (type_of_u32 type, \<lparr>atime = acc, mtime = mt, ctime = ct, fsize = sz\<rparr>), cc', sys')
   }"

definition cc_free_file_block ::
    "draw \<Rightarrow> nat \<Rightarrow> draw \<Rightarrow> chfs_client \<Rightarrow> system \<Rightarrow> nat \<Rightarrow> nat \<Rightarrow> nat \<Rightarrow> (null_result \<times> chfs_client \<times> system) option" where
  "cc_free_file_block d now d' cc sys inode_id block_id mac_id = do {
     (srv_call, cc', sys') \<leftarrow> call_metadata d cc (\<lambda>(ms, cl). ms_free_block now d' ms cl inode_id block_id mac_id) sys;
     Some (case srv_call of
       Err e \<Rightarrow> Err e
     | Ok response \<Rightarrow> if \<not> response then Err BadResponse else KNullOk, cc', sys')
   }"

subsection \<open>Reading\<close>

text \<open>
  The loop over the block map, \<open>i\<close> being the index of its first block. The inner result is \<open>None\<close>
  for the jump to \<open>read_fail\<close>.
\<close>

primrec cc_read_loop ::
    "(nat \<Rightarrow> draw) \<Rightarrow> nat \<Rightarrow> block_info list \<Rightarrow> nat \<Rightarrow> nat \<Rightarrow> nat \<Rightarrow> byte list \<Rightarrow> clients \<Rightarrow> cluster \<Rightarrow>
      ((nat \<times> byte list) option \<times> clients \<times> cluster) option" where
  "cc_read_loop dr i [] offset sz read_sz ret cs cl = Some (Some (read_sz, ret), cs, cl)"
| "cc_read_loop dr i (info # infos) offset sz read_sz ret cs cl = (case info of (block_id, mac_id, version) \<Rightarrow>
     (if \<not> read_sz < sz then Some (Some (read_sz, ret), cs, cl)
      else if DiskBlockSize \<le> offset then cc_read_loop dr (Suc i) infos (offset - DiskBlockSize) sz read_sz ret cs cl
      else do {
        let read_len = min (u32 (DiskBlockSize - offset)) (u32 (sz - read_sz));
        (datasrv_call, cs', cl') \<leftarrow> call_server (dr i) cs cl mac_id
          (\<lambda>ds. map_option (\<lambda>r. (r, ds)) (read_data ds block_id offset read_len version));
        case datasrv_call of
          Err _ \<Rightarrow> Some (None, cs', cl')
        | Ok read_resp \<Rightarrow>
            if length read_resp \<noteq> read_len then Some (None, cs', cl')
            else cc_read_loop dr (Suc i) infos 0 sz (read_sz + read_len) (ret @ read_resp) cs' cl'
      }))"

definition cc_read_file ::
    "draw \<Rightarrow> (nat \<Rightarrow> draw) \<Rightarrow> chfs_client \<Rightarrow> system \<Rightarrow> nat \<Rightarrow> nat \<Rightarrow> nat \<Rightarrow>
      (byte list chfs_result \<times> chfs_client \<times> system) option" where
  "cc_read_file d dr cc sys inode_id offset sz = do {
     (srv_call, cc1, sys1) \<leftarrow> call_metadata d cc (on_query (\<lambda>ms. get_block_map ms inode_id)) sys;
     case srv_call of
       Err _ \<Rightarrow> Some (empty_result, cc1, sys1)
     | Ok block_map \<Rightarrow> do {
         (res, cs, cl) \<leftarrow> cc_read_loop dr 0 block_map offset sz 0 [] (cc_data_servers cc1) (snd sys1);
         let cc2 = cc1\<lparr>cc_data_servers := cs\<rparr>;
         let sys2 = (fst sys1, cl);
         case res of
           None \<Rightarrow> Some (empty_result, cc2, sys2)
         | Some (read_sz, ret) \<Rightarrow>
             if read_sz \<noteq> sz then Some (empty_result, cc2, sys2) else Some (Ok ret, cc2, sys2)
       }
   }"

subsection \<open>Writing\<close>

text \<open>
  The allocations of the k-th round of the first loop: the draw of the call to the metadata server,
  and the time, the random server and the draws of its own calls.
\<close>

type_synonym alloc_env = "nat \<Rightarrow> draw \<times> nat \<times> nat \<times> draw list"

function cc_alloc_loop ::
    "alloc_env \<Rightarrow> nat \<Rightarrow> nat \<Rightarrow> nat \<Rightarrow> nat \<Rightarrow> block_info list \<Rightarrow> chfs_client \<Rightarrow> system \<Rightarrow>
      (block_info list option \<times> chfs_client \<times> system) option" where
  "cc_alloc_loop env k inode_id target origin_size block_map cc sys =
     (if \<not> origin_size < target then Some (Some block_map, cc, sys)
      else case env k of (d, now, g, ds) \<Rightarrow> do {
        (alloc_call, cc', sys') \<leftarrow> call_metadata d cc
          (\<lambda>(ms, cl). allocate_block now g ds ms cl inode_id) sys;
        case alloc_call of
          Err _ \<Rightarrow> Some (None, cc', sys')
        | Ok alloc_resp \<Rightarrow>
            cc_alloc_loop env (Suc k) inode_id target (origin_size + DiskBlockSize) (block_map @ [alloc_resp]) cc' sys'
      })"
  by pat_completeness auto

termination cc_alloc_loop
  by (relation "measure (\<lambda>(env, k, inode_id, target, origin_size, block_map, cc, sys). target - origin_size)") auto

declare cc_alloc_loop.simps [simp del]

primrec cc_write_loop ::
    "(nat \<Rightarrow> draw) \<Rightarrow> nat \<Rightarrow> block_info list \<Rightarrow> nat \<Rightarrow> byte list \<Rightarrow> nat \<Rightarrow> clients \<Rightarrow> cluster \<Rightarrow>
      (nat option \<times> clients \<times> cluster) option" where
  "cc_write_loop dr i [] offset data write_sz cs cl = Some (Some write_sz, cs, cl)"
| "cc_write_loop dr i (info # infos) offset data write_sz cs cl = (case info of (block_id, mac_id, version) \<Rightarrow>
     (if \<not> write_sz < length data then Some (Some write_sz, cs, cl)
      else if DiskBlockSize \<le> offset then cc_write_loop dr (Suc i) infos (offset - DiskBlockSize) data write_sz cs cl
      else do {
        let write_len = min (u32 (DiskBlockSize - offset)) (u32 (length data - write_sz));
        buffer \<leftarrow> peek data write_sz write_len;
        (datasrv_call, cs', cl') \<leftarrow> call_server (dr i) cs cl mac_id (\<lambda>ds. write_data ds block_id offset buffer);
        case datasrv_call of
          Err _ \<Rightarrow> Some (None, cs', cl')
        | Ok write_resp \<Rightarrow>
            if \<not> write_resp then Some (None, cs', cl')
            else cc_write_loop dr (Suc i) infos 0 data (write_sz + write_len) cs' cl'
      }))"

definition cc_write_file ::
    "draw \<Rightarrow> alloc_env \<Rightarrow> (nat \<Rightarrow> draw) \<Rightarrow> chfs_client \<Rightarrow> system \<Rightarrow> nat \<Rightarrow> nat \<Rightarrow> byte list \<Rightarrow>
      (null_result \<times> chfs_client \<times> system) option" where
  "cc_write_file d env dr cc sys inode_id offset data = do {
     (srv_call, cc1, sys1) \<leftarrow> call_metadata d cc (on_query (\<lambda>ms. get_block_map ms inode_id)) sys;
     case srv_call of
       Err _ \<Rightarrow> Some (Err BadResponse, cc1, sys1)
     | Ok block_map0 \<Rightarrow> do {
         (alloc_res, cc2, sys2) \<leftarrow> cc_alloc_loop env 0 inode_id (offset + length data)
           (length block_map0 * DiskBlockSize) block_map0 cc1 sys1;
         case alloc_res of
           None \<Rightarrow> Some (Err BadResponse, cc2, sys2)
         | Some block_map \<Rightarrow> do {
             (res, cs, cl) \<leftarrow> cc_write_loop dr 0 block_map offset data 0 (cc_data_servers cc2) (snd sys2);
             let cc3 = cc2\<lparr>cc_data_servers := cs\<rparr>;
             let sys3 = (fst sys2, cl);
             Some (if res = Some (length data) then KNullOk else Err BadResponse, cc3, sys3)
           }
       }
   }"



section \<open>Contents of a remote file\<close>

text \<open>
  The blocks of a block map as the client reaches them: reliable connections, allocated blocks
  under the versions of the map, no block twice.
\<close>

definition block_at_server :: "clients \<Rightarrow> cluster \<Rightarrow> block_info \<Rightarrow> bool" where
  "block_at_server cs cl info \<longleftrightarrow> (case info of (b, mac, v) \<Rightarrow>
     \<exists>cli ds. cs mac = Some cli \<and> rc_reliable cli \<and> cl (rc_address cli) = Some ds \<and> ds_ok ds \<and> 0 < b \<and> b < 4096 \<and>
       in_use (ds_version ds b) \<and> unat (ds_version ds b) = v)"

definition block_place :: "clients \<Rightarrow> block_info \<Rightarrow> address \<times> nat" where
  "block_place cs info = (rc_address (the (cs (fst (snd info)))), fst info)"

definition map_reachable :: "clients \<Rightarrow> cluster \<Rightarrow> block_info list \<Rightarrow> bool" where
  "map_reachable cs cl infos \<longleftrightarrow> list_all (block_at_server cs cl) infos \<and> distinct (map (block_place cs) infos)"

definition block_bytes :: "clients \<Rightarrow> cluster \<Rightarrow> block_info \<Rightarrow> byte list" where
  "block_bytes cs cl info = ds_data (the (cl (fst (block_place cs info)))) (fst info)"

definition remote_bytes :: "clients \<Rightarrow> cluster \<Rightarrow> block_info list \<Rightarrow> byte list" where
  "remote_bytes cs cl infos = concat (map (block_bytes cs cl) infos)"

text \<open>Two tables of clients that differ in the counters only.\<close>

definition same_clients :: "clients \<Rightarrow> clients \<Rightarrow> bool" where
  "same_clients cs cs' \<longleftrightarrow> (\<forall>i. map_option (\<lambda>c. (rc_address c, rc_reliable c)) (cs' i) = map_option (\<lambda>c. (rc_address c, rc_reliable c)) (cs i))"

lemma same_clients_refl [simp]: "same_clients cs cs"
  by (simp add: same_clients_def)

lemma same_clients_trans: "same_clients cs cs' \<Longrightarrow> same_clients cs' cs'' \<Longrightarrow> same_clients cs cs''"
  by (simp add: same_clients_def)

lemma same_clients_upd:
  "cs i = Some c \<Longrightarrow> rc_address c' = rc_address c \<Longrightarrow> rc_reliable c' = rc_reliable c \<Longrightarrow> same_clients cs (cs(i \<mapsto> c'))"
  by (simp add: same_clients_def)

lemma same_clients_Some:
  assumes "same_clients cs cs'" "cs i = Some c"
  obtains c' where "cs' i = Some c'" "rc_address c' = rc_address c" "rc_reliable c' = rc_reliable c"
proof -
  have "map_option (\<lambda>c. (rc_address c, rc_reliable c)) (cs' i) = Some (rc_address c, rc_reliable c)"
    using assms by (simp add: same_clients_def)
  then show thesis using that by auto
qed

lemma block_at_server_same: "same_clients cs cs' \<Longrightarrow> block_at_server cs cl info \<Longrightarrow> block_at_server cs' cl info"
proof -
  assume s: "same_clients cs cs'" and a: "block_at_server cs cl info"
  obtain b mac v where i: "info = (b, mac, v)" by (cases info)
  with a obtain cli ds where c: "cs mac = Some cli" "rc_reliable cli" "cl (rc_address cli) = Some ds" "ds_ok ds" "0 < b" "b < 4096"
    "in_use (ds_version ds b)" "unat (ds_version ds b) = v" by (auto simp: block_at_server_def)
  from s c(1) obtain cli' where "cs' mac = Some cli'" "rc_address cli' = rc_address cli" "rc_reliable cli' = rc_reliable cli"
    by (rule same_clients_Some)
  with c show ?thesis by (auto simp: block_at_server_def i)
qed

lemma block_place_same:
  assumes "same_clients cs cs'" "block_at_server cs cl info"
  shows "block_place cs' info = block_place cs info"
proof -
  obtain b mac v where i: "info = (b, mac, v)" by (cases info)
  with assms(2) obtain cli where c: "cs mac = Some cli" by (auto simp: block_at_server_def)
  with assms(1) obtain cli' where "cs' mac = Some cli'" "rc_address cli' = rc_address cli" by (rule same_clients_Some)
  with c show ?thesis by (simp add: block_place_def i)
qed

lemma map_reachable_same:
  assumes "same_clients cs cs'" "map_reachable cs cl infos"
  shows "map_reachable cs' cl infos" "remote_bytes cs' cl infos = remote_bytes cs cl infos"
proof -
  have a: "block_at_server cs cl info" if "info \<in> set infos" for info using assms(2) that by (auto simp: map_reachable_def list_all_iff)
  have p: "block_place cs' info = block_place cs info" if "info \<in> set infos" for info using block_place_same [OF assms(1) a [OF that]] .
  then have "map (block_place cs') infos = map (block_place cs) infos" by (intro map_cong refl)
  moreover have "list_all (block_at_server cs' cl) infos"
    using a block_at_server_same [OF assms(1)] unfolding list_all_iff by blast
  ultimately show "map_reachable cs' cl infos" using assms(2) unfolding map_reachable_def by metis
  have "block_bytes cs' cl info = block_bytes cs cl info" if "info \<in> set infos" for info using p [OF that] by (simp add: block_bytes_def)
  then have "map (block_bytes cs' cl) infos = map (block_bytes cs cl) infos" by (intro map_cong refl)
  then show "remote_bytes cs' cl infos = remote_bytes cs cl infos" unfolding remote_bytes_def by (simp only:)
qed

lemma map_reachable_Cons:
  assumes "map_reachable cs cl ((b, mac, v) # infos)"
  obtains cli ds where "cs mac = Some cli" "rc_reliable cli" "cl (rc_address cli) = Some ds" "ds_ok ds" "0 < b" "b < 4096"
    "in_use (ds_version ds b)" "unat (ds_version ds b) = v" "map_reachable cs cl infos"
    "block_bytes cs cl (b, mac, v) = ds_data ds b" "length (ds_data ds b) = 4096"
    "(rc_address cli, b) \<notin> block_place cs ` set infos"
proof -
  have a: "block_at_server cs cl (b, mac, v)" "map_reachable cs cl infos" "block_place cs (b, mac, v) \<notin> block_place cs ` set infos"
    using assms by (simp_all add: map_reachable_def)
  from a(1) obtain cli ds where c: "cs mac = Some cli" "rc_reliable cli" "cl (rc_address cli) = Some ds" "ds_ok ds" "0 < b" "b < 4096"
    "in_use (ds_version ds b)" "unat (ds_version ds b) = v" by (auto simp: block_at_server_def)
  have "block_bytes cs cl (b, mac, v) = ds_data ds b" "block_place cs (b, mac, v) = (rc_address cli, b)"
    using c by (simp_all add: block_bytes_def block_place_def)
  moreover have "length (ds_data ds b) = 4096"
    using ds_okD(3) [OF c(4)] ds_okD(4) [OF c(4,6)] by (simp add: ds_data_def)
  ultimately show thesis using that c a(2,3) by simp
qed

lemma length_remote_bytes: "map_reachable cs cl infos \<Longrightarrow> length (remote_bytes cs cl infos) = 4096 * length infos"
proof (induction infos)
  case (Cons x infos)
  obtain b mac v where x: "x = (b, mac, v)" by (cases x)
  from Cons.prems show ?case unfolding x
    by (rule map_reachable_Cons) (use Cons.IH in \<open>simp add: remote_bytes_def\<close>)
qed (simp add: remote_bytes_def)

lemma remote_bytes_Cons: "remote_bytes cs cl (x # infos) = block_bytes cs cl x @ remote_bytes cs cl infos"
  by (simp add: remote_bytes_def)

lemma cc_read_loop_ok:
  assumes "map_reachable cs cl infos" "sz < 2 ^ 32" "read_sz \<le> sz"
  shows "\<exists>cs'. cc_read_loop dr i infos offset sz read_sz ret cs cl =
      Some (Some (read_sz + length (take (sz - read_sz) (drop offset (remote_bytes cs cl infos))),
        ret @ take (sz - read_sz) (drop offset (remote_bytes cs cl infos))), cs', cl) \<and> same_clients cs cs'"
  using assms
proof (induction infos arbitrary: i offset read_sz ret cs)
  case Nil
  then show ?case by (auto simp: remote_bytes_def)
next
  case (Cons x infos)
  obtain b mac v where x: "x = (b, mac, v)" by (cases x)
  from Cons.prems(1) [unfolded x] obtain cli ds where
    c: "cs mac = Some cli" "rc_reliable cli" "cl (rc_address cli) = Some ds" "ds_ok ds" "0 < b" "b < 4096"
      "in_use (ds_version ds b)" "unat (ds_version ds b) = v" "map_reachable cs cl infos"
      "block_bytes cs cl (b, mac, v) = ds_data ds b" "length (ds_data ds b) = 4096" by (rule map_reachable_Cons)
  let ?D = "ds_data ds b" and ?C = "remote_bytes cs cl infos"
  have all: "remote_bytes cs cl (x # infos) = ?D @ ?C" by (simp add: remote_bytes_Cons x c(10))
  show ?case
  proof (cases "read_sz < sz")
    case False
    then show ?thesis using Cons.prems(3) by (auto simp: x)
  next
    case lt: True
    show ?thesis
    proof (cases "4096 \<le> offset")
      case True
      then have "drop offset (?D @ ?C) = drop (offset - 4096) ?C" using c(11) by simp
      then show ?thesis
        using Cons.IH [OF c(9) Cons.prems(2,3), where i = "Suc i" and offset = "offset - 4096"] True lt unfolding all by (simp add: x)
    next
      case False
      define n where "n = min (4096 - offset) (sz - read_sz)"
      have n: "min (u32 (4096 - offset)) (u32 (sz - read_sz)) = n" using Cons.prems(2) by (simp add: n_def u32_def)
      have nb: "offset + n \<le> 4096" "n \<le> sz - read_sz" using False by (auto simp: n_def)
      let ?cli = "cli\<lparr>rc_count := rc_count cli + 1\<rparr>"
      have "read_data ds b offset n v = Some (chunk ?D offset n)" using read_data_ok [OF c(4,6) nb(1)] c(7,8) by simp
      moreover have "cl(rc_address cli \<mapsto> ds) = cl" using c(3) by auto
      ultimately have call: "call_server (dr i) cs cl mac (\<lambda>s. map_option (\<lambda>r. (r, s)) (read_data s b offset n v)) =
          Some (Ok (chunk ?D offset n), cs(mac \<mapsto> ?cli), cl)"
        using c(1-3) by (simp add: call_server_def rpc_call_def)
      have sc: "same_clients cs (cs(mac \<mapsto> ?cli))" using c(1) by (intro same_clients_upd) simp_all
      note mr = map_reachable_same [OF sc c(9)]
      have le: "read_sz + n \<le> sz" using nb(2) lt by simp
      from Cons.IH [OF mr(1) Cons.prems(2) le, of "Suc i" 0 "ret @ chunk ?D offset n"] obtain cs' where
        r: "cc_read_loop dr (Suc i) infos 0 sz (read_sz + n) (ret @ chunk ?D offset n) (cs(mac \<mapsto> ?cli)) cl =
            Some (Some (read_sz + n + length (take (sz - (read_sz + n)) ?C), (ret @ chunk ?D offset n) @ take (sz - (read_sz + n)) ?C), cs', cl)"
          "same_clients (cs(mac \<mapsto> ?cli)) cs'" unfolding mr(2) drop_0 by blast
      have "length (chunk ?D offset n) = n" using nb(1) c(11) by simp
      then have run: "cc_read_loop dr i (x # infos) offset sz read_sz ret cs cl =
          Some (Some (read_sz + n + length (take (sz - (read_sz + n)) ?C), (ret @ chunk ?D offset n) @ take (sz - (read_sz + n)) ?C), cs', cl)"
        using lt False call r(1) by (simp add: x n Let_def)
      have tk: "take (sz - read_sz) (drop offset (?D @ ?C)) = chunk ?D offset n @ take (sz - (read_sz + n)) ?C"
      proof (cases "sz - read_sz \<le> 4096 - offset")
        case True
        then show ?thesis using c(11) False lt by (simp add: n_def chunk_def min_def)
      next
        case f2: False
        then have "n = 4096 - offset" by (simp add: n_def)
        then show ?thesis using c(11) False f2 lt by (simp add: chunk_def)
      qed
      show ?thesis unfolding all tk using run same_clients_trans [OF sc r(2)] \<open>length (chunk ?D offset n) = n\<close> by simp
    qed
  qed
qed


text \<open>
  What a write may do to the servers: the versions stay, and so do the blocks outside of a set
  of places.
\<close>

definition server_step :: "nat set \<Rightarrow> data_server \<Rightarrow> data_server \<Rightarrow> bool" where
  "server_step B ds ds' \<longleftrightarrow> ds_ok ds' \<and> (\<forall>j < 4096. ds_version ds' j = ds_version ds j) \<and>
     (\<forall>j < 4096. j \<noteq> 0 \<and> j \<notin> B \<longrightarrow> ds_data ds' j = ds_data ds j)"

definition cluster_step :: "(address \<times> nat) set \<Rightarrow> cluster \<Rightarrow> cluster \<Rightarrow> bool" where
  "cluster_step S cl cl' \<longleftrightarrow> (\<forall>a ds. cl a = Some ds \<longrightarrow> ds_ok ds \<longrightarrow> (\<exists>ds'. cl' a = Some ds' \<and> server_step {j. (a, j) \<in> S} ds ds'))"

lemma cluster_step_refl [simp]: "cluster_step S cl cl"
  by (auto simp: cluster_step_def server_step_def)

lemma cluster_step_mono: "cluster_step S cl cl' \<Longrightarrow> S \<subseteq> T \<Longrightarrow> cluster_step T cl cl'"
  unfolding cluster_step_def server_step_def by blast

lemma cluster_step_trans:
  assumes "cluster_step S cl cl'" "cluster_step S cl' cl''"
  shows "cluster_step S cl cl''"
  unfolding cluster_step_def
proof (intro allI impI)
  fix a ds
  assume "cl a = Some ds" "ds_ok ds"
  with assms(1) obtain ds' where 1: "cl' a = Some ds'" "server_step {j. (a, j) \<in> S} ds ds'" unfolding cluster_step_def by blast
  then have "ds_ok ds'" by (simp add: server_step_def)
  with assms(2) 1(1) obtain ds'' where 2: "cl'' a = Some ds''" "server_step {j. (a, j) \<in> S} ds' ds''" unfolding cluster_step_def by blast
  with 1 show "\<exists>ds'. cl'' a = Some ds' \<and> server_step {j. (a, j) \<in> S} ds ds'" by (auto simp: server_step_def)
qed

lemma cluster_step_upd:
  "cl a = Some ds \<Longrightarrow> server_step {b} ds ds' \<Longrightarrow> cluster_step {(a, b)} cl (cl(a \<mapsto> ds'))"
  by (auto simp: cluster_step_def server_step_def)

lemma reachable_after_step:
  assumes st: "cluster_step S cl cl'" and r: "map_reachable cs cl infos"
  shows "map_reachable cs cl' infos"
    "S \<inter> block_place cs ` set infos = {} \<Longrightarrow> remote_bytes cs cl' infos = remote_bytes cs cl infos"
proof -
  have one: "block_at_server cs cl' info \<and> (block_place cs info \<notin> S \<longrightarrow> block_bytes cs cl' info = block_bytes cs cl info)"
    if i: "info \<in> set infos" for info
  proof -
    obtain b m v where info: "info = (b, m, v)" by (cases info)
    have "block_at_server cs cl info" using r i by (auto simp: map_reachable_def list_all_iff)
    then obtain cli e where e: "cs m = Some cli" "rc_reliable cli" "cl (rc_address cli) = Some e" "ds_ok e" "0 < b" "b < 4096"
      "in_use (ds_version e b)" "unat (ds_version e b) = v" by (auto simp: block_at_server_def info)
    with st obtain e' where "cl' (rc_address cli) = Some e'" "server_step {j. (rc_address cli, j) \<in> S} e e'"
      unfolding cluster_step_def by blast
    moreover have "block_place cs info = (rc_address cli, b)" using e(1) by (simp add: block_place_def info)
    ultimately show ?thesis using e by (auto simp: block_at_server_def block_bytes_def server_step_def info)
  qed
  then show "map_reachable cs cl' infos" using r by (simp add: map_reachable_def list_all_iff)
  assume "S \<inter> block_place cs ` set infos = {}"
  then have "map (block_bytes cs cl') infos = map (block_bytes cs cl) infos" using one by (intro map_cong refl) blast
  then show "remote_bytes cs cl' infos = remote_bytes cs cl infos" unfolding remote_bytes_def by (simp only:)
qed

lemma patch_append_left:
  "off + length ys \<le> length xs \<Longrightarrow> patch (xs @ zs) off ys = patch xs off ys @ zs"
  by (simp add: patch_def)

lemma patch_append_right:
  "length xs \<le> off \<Longrightarrow> patch (xs @ zs) off ys = xs @ patch zs (off - length xs) ys"
  by (simp add: patch_def)

lemma patch_append_split:
  "off \<le> length xs \<Longrightarrow> length ys = length xs - off \<Longrightarrow> patch (xs @ zs) off (ys @ ys') = patch xs off ys @ patch zs 0 ys'"
  by (simp add: patch_def)

lemma patch_Nil [simp]: "patch xs off [] = xs"
  by (simp add: patch_def)

lemma patch_split_at:
  assumes "length xs = m" "off < m" "k \<le> length ys" "n = min (m - off) (length ys - k)"
  shows "patch (xs @ zs) off (drop k ys) = patch xs off (chunk ys k n) @ patch zs 0 (drop (k + n) ys)"
proof (cases "m - off \<le> length ys - k")
  case True
  have "drop k ys = chunk ys k n @ drop (k + n) ys"
    unfolding chunk_def using append_take_drop_id [of n "drop k ys"] by (simp only: drop_drop add.commute)
  then show ?thesis using True assms patch_append_split [of off xs "chunk ys k n" zs "drop (k + n) ys"] by simp
next
  case False
  then have "n = length ys - k" using assms by simp
  then have "chunk ys k n = drop k ys" "drop (k + n) ys = []" using assms by (simp_all add: chunk_def)
  then show ?thesis using False assms patch_append_left [of off "drop k ys" xs zs] by simp
qed


lemma cc_write_loop_ok:
  assumes "map_reachable cs cl infos" "length data < 2 ^ 32" "write_sz \<le> length data"
    "offset + (length data - write_sz) \<le> 4096 * length infos"
  shows "\<exists>cs' cl'. cc_write_loop dr i infos offset data write_sz cs cl = Some (Some (length data), cs', cl') \<and>
    same_clients cs cs' \<and> cluster_step (block_place cs ` set infos) cl cl' \<and>
    remote_bytes cs cl' infos = patch (remote_bytes cs cl infos) offset (drop write_sz data)"
  using assms
proof (induction infos arbitrary: i offset write_sz cs cl)
  case Nil
  then show ?case by (auto simp: remote_bytes_def)
next
  case (Cons x infos)
  obtain b mac v where x: "x = (b, mac, v)" by (cases x)
  from Cons.prems(1) [unfolded x] obtain cli ds where
    c: "cs mac = Some cli" "rc_reliable cli" "cl (rc_address cli) = Some ds" "ds_ok ds" "0 < b" "b < 4096"
      "in_use (ds_version ds b)" "unat (ds_version ds b) = v" "map_reachable cs cl infos"
      "block_bytes cs cl (b, mac, v) = ds_data ds b" "length (ds_data ds b) = 4096"
      "(rc_address cli, b) \<notin> block_place cs ` set infos" by (rule map_reachable_Cons)
  let ?D = "ds_data ds b" and ?C = "remote_bytes cs cl infos" and ?P = "(rc_address cli, b)"
  have pl: "block_place cs x = ?P" using c(1) by (simp add: block_place_def x)
  have bb: "block_bytes cs cl' x = ds_data (the (cl' (rc_address cli))) b" for cl'
    by (simp add: block_bytes_def pl) (simp add: x)
  have all: "remote_bytes cs cl (x # infos) = ?D @ ?C" by (simp add: remote_bytes_Cons x c(10))
  show ?case
  proof (cases "write_sz < length data")
    case False
    then show ?thesis using Cons.prems(3) by (auto simp: x)
  next
    case lt: True
    show ?thesis
    proof (cases "4096 \<le> offset")
      case True
      then have "offset - 4096 + (length data - write_sz) \<le> 4096 * length infos" using Cons.prems(4) by simp
      from Cons.IH [OF c(9) Cons.prems(2,3) this] obtain cs' cl' where
        r: "cc_write_loop dr (Suc i) infos (offset - 4096) data write_sz cs cl = Some (Some (length data), cs', cl')"
          "same_clients cs cs'" "cluster_step (block_place cs ` set infos) cl cl'"
          "remote_bytes cs cl' infos = patch ?C (offset - 4096) (drop write_sz data)" by blast
      from r(3) c(3,4) obtain ds' where "cl' (rc_address cli) = Some ds'"
        "server_step {j. (rc_address cli, j) \<in> block_place cs ` set infos} ds ds'" unfolding cluster_step_def by blast
      then have "block_bytes cs cl' x = ?D" using c(5,6,12) by (simp add: bb server_step_def)
      then have "remote_bytes cs cl' (x # infos) = patch (?D @ ?C) offset (drop write_sz data)"
        using r(4) True c(11) by (simp add: remote_bytes_Cons patch_append_right)
      moreover have "cluster_step (block_place cs ` set (x # infos)) cl cl'" using r(3) by (rule cluster_step_mono) auto
      ultimately show ?thesis using r(1,2) True lt unfolding all by (simp add: x)
    next
      case False
      define n where "n = min (4096 - offset) (length data - write_sz)"
      have n: "min (u32 (4096 - offset)) (u32 (length data - write_sz)) = n" using Cons.prems(2) by (simp add: n_def u32_def)
      have nb: "offset + n \<le> 4096" "n \<le> length data - write_sz" "write_sz + n \<le> length data" using False lt by (auto simp: n_def)
      let ?cli = "cli\<lparr>rc_count := rc_count cli + 1\<rparr>" and ?w = "chunk data write_sz n"
      have wl: "length ?w = n" using nb(3) by simp
      from write_data_ok [OF c(4-6), of offset ?w] nb(1) wl c(5,6,7) obtain ds' where
        w: "write_data ds b offset ?w = Some (True, ds')" "server_step {b} ds ds'" "ds_data ds' b = patch ?D offset ?w"
        by (auto simp: server_step_def)
      let ?cl = "cl(rc_address cli \<mapsto> ds')" and ?cs = "cs(mac \<mapsto> ?cli)"
      have call: "call_server (dr i) cs cl mac (\<lambda>ds. write_data ds b offset ?w) = Some (Ok True, ?cs, ?cl)"
        using c(1-3) w(1) by (simp add: call_server_def rpc_call_def)
      have sc: "same_clients cs ?cs" using c(1) by (intro same_clients_upd) simp_all
      have s1: "cluster_step {?P} cl ?cl" using c(3) w(2) by (rule cluster_step_upd)
      note m1 = reachable_after_step [OF s1 c(9)]
      have C1: "remote_bytes cs ?cl infos = ?C" using m1(2) c(12) by simp
      note m2 = map_reachable_same [OF sc m1(1)]
      have bp: "block_place ?cs ` set infos = block_place cs ` set infos"
        using m1(1) block_place_same [OF sc] unfolding map_reachable_def list_all_iff by (intro image_cong refl) blast
      have rest: "0 + (length data - (write_sz + n)) \<le> 4096 * length infos" using Cons.prems(4) False by (auto simp: n_def)
      from Cons.IH [OF m2(1) Cons.prems(2) nb(3) rest, of "Suc i"] obtain cs' cl' where
        r: "cc_write_loop dr (Suc i) infos 0 data (write_sz + n) ?cs ?cl = Some (Some (length data), cs', cl')"
          "same_clients ?cs cs'" "cluster_step (block_place cs ` set infos) ?cl cl'"
          "remote_bytes ?cs cl' infos = patch ?C 0 (drop (write_sz + n) data)" unfolding m2(2) C1 bp by blast
      have run: "cc_write_loop dr i (x # infos) offset data write_sz cs cl = Some (Some (length data), cs', cl')"
        using lt False call r(1) nb(3) by (simp add: x n Let_def)
      have steps: "cluster_step (block_place cs ` set (x # infos)) cl cl'"
        using cluster_step_mono [OF s1] cluster_step_mono [OF r(3)] cluster_step_trans by (metis (no_types, lifting) empty_subsetI image_insert insert_subset insertI1 list.simps(15) pl subset_insertI)
      have "?cl (rc_address cli) = Some ds'" "ds_ok ds'" using w(2) by (simp_all add: server_step_def)
      with r(3) obtain ds'' where "cl' (rc_address cli) = Some ds''"
        "server_step {j. (rc_address cli, j) \<in> block_place cs ` set infos} ds' ds''"
        unfolding cluster_step_def by blast
      then have "block_bytes cs cl' x = patch ?D offset ?w" using c(5,6,12) w(3) by (simp add: bb server_step_def)
      moreover have "remote_bytes cs cl' infos = patch ?C 0 (drop (write_sz + n) data)"
        using map_reachable_same(2) [OF sc reachable_after_step(1) [OF r(3) m1(1)]] r(4) by simp
      ultimately have "remote_bytes cs cl' (x # infos) = patch (?D @ ?C) offset (drop write_sz data)"
        using patch_split_at [OF c(11) _ Cons.prems(3) n_def, of ?C] False by (simp add: remote_bytes_Cons)
      then show ?thesis unfolding all using run steps same_clients_trans [OF sc r(2)] by simp
    qed
  qed
qed


lemma call_metadata_query:
  assumes "cc_metadata_server cc = Some cli" "rc_reliable cli" "h (fst sys) = Some r"
  shows "call_metadata d cc (on_query h) sys =
    Some (Ok r, cc\<lparr>cc_metadata_server := Some (cli\<lparr>rc_count := rc_count cli + 1\<rparr>)\<rparr>, sys)"
  using assms by (simp add: call_metadata_def on_query_def rpc_call_def)

lemma cc_read_file_ok:
  assumes m: "cc_metadata_server cc = Some cli" "rc_reliable cli" "get_block_map ms inode_id = Some infos"
    and r: "map_reachable (cc_data_servers cc) cl infos" and sz: "sz < 2 ^ 32"
  shows "\<exists>cc'. cc_read_file d dr cc (ms, cl) inode_id offset sz =
      Some (if sz = 0 \<or> offset + sz \<le> 4096 * length infos
        then Ok (chunk (remote_bytes (cc_data_servers cc) cl infos) offset sz) else Err DONE, cc', (ms, cl))"
proof -
  let ?B = "remote_bytes (cc_data_servers cc) cl infos"
  note q = call_metadata_query [OF m(1,2), of "\<lambda>ms. get_block_map ms inode_id" "(ms, cl)" infos d] m(3)
  from cc_read_loop_ok [OF r sz, of 0 dr 0 offset "[]"] obtain cs' where
    l: "cc_read_loop dr 0 infos offset sz 0 [] (cc_data_servers cc) cl = Some (Some (length (chunk ?B offset sz), chunk ?B offset sz), cs', cl)"
    by (auto simp: chunk_def)
  have "length (chunk ?B offset sz) = sz \<longleftrightarrow> sz = 0 \<or> offset + sz \<le> 4096 * length infos"
    using length_remote_bytes [OF r] by (auto simp: chunk_def min_def)
  then show ?thesis using q l by (simp add: cc_read_file_def Let_def empty_result_def)
qed


section \<open>Properties\<close>

text \<open>C27. Over reliable connections, a write of the client within the blocks of the file succeeds
  and patches the file's bytes, which are spread over the data servers, and touches no other
  block; a later read of any range returns exactly those bytes, and an error when the range
  passes the end of the last block.\<close>

theorem client_read_after_write:
  assumes m: "cc_metadata_server cc = Some cli" "rc_reliable cli" "get_block_map ms inode_id = Some infos"
    and r: "map_reachable (cc_data_servers cc) cl infos"
    and len: "length data < 2 ^ 32" "offset + length data \<le> 4096 * length infos" and sz: "sz < 2 ^ 32"
  shows "\<exists>cc1 cl1 cc2. cc_write_file d env dr cc (ms, cl) inode_id offset data = Some (KNullOk, cc1, (ms, cl1)) \<and>
    cluster_step (block_place (cc_data_servers cc) ` set infos) cl cl1 \<and>
    cc_read_file d' dr' cc1 (ms, cl1) inode_id offset' sz =
      Some (if sz = 0 \<or> offset' + sz \<le> 4096 * length infos
        then Ok (chunk (patch (remote_bytes (cc_data_servers cc) cl infos) offset data) offset' sz) else Err DONE, cc2, (ms, cl1))"
proof -
  let ?cs = "cc_data_servers cc" and ?cli = "cli\<lparr>rc_count := rc_count cli + 1\<rparr>"
  note q = call_metadata_query [OF m(1,2), of "\<lambda>ms. get_block_map ms inode_id" "(ms, cl)" infos d] m(3)
  from cc_write_loop_ok [OF r len(1), of 0 offset dr 0] len(2) obtain cs1 cl1 where
    w: "cc_write_loop dr 0 infos offset data 0 ?cs cl = Some (Some (length data), cs1, cl1)" "same_clients ?cs cs1"
      "cluster_step (block_place ?cs ` set infos) cl cl1" "remote_bytes ?cs cl1 infos = patch (remote_bytes ?cs cl infos) offset data"
    by auto
  let ?cc = "cc\<lparr>cc_metadata_server := Some ?cli, cc_data_servers := cs1\<rparr>"
  have "\<not> length infos * 4096 < offset + length data" using len(2) by simp
  then have run: "cc_write_file d env dr cc (ms, cl) inode_id offset data = Some (KNullOk, ?cc, (ms, cl1))"
    using q w(1) by (simp add: cc_write_file_def cc_alloc_loop.simps Let_def)
  note k = map_reachable_same [OF w(2) reachable_after_step(1) [OF w(3) r]]
  from cc_read_file_ok [of ?cc ?cli ms inode_id infos cl1 sz d' dr' offset'] m(2,3) k sz obtain cc2 where
    "cc_read_file d' dr' ?cc (ms, cl1) inode_id offset' sz = Some (if sz = 0 \<or> offset' + sz \<le> 4096 * length infos
        then Ok (chunk (remote_bytes cs1 cl1 infos) offset' sz) else Err DONE, cc2, (ms, cl1))" by auto
  with run w(3) k(2) w(4) show ?thesis by auto
qed

text \<open>A server with one file of one remote block.\<close>

lemma demo_allocated:
  "\<exists>ms cluster ds. get_block_map ms 1 = Some [(1, 1, 1)] \<and> server_at (ms_clients ms) cluster 1 = Some ds \<and> ds_ok ds \<and>
    in_use (ds_version ds 1) \<and> unat (ds_version ds 1) = 1 \<and> ds_data ds 1 = replicate 4096 0 \<and>
    (\<forall>cli. ms_clients ms 1 = Some cli \<longrightarrow> rc_reliable cli)"
proof -
  from initialize_ok obtain ds where d: "ds_ok ds" "ds_version ds 1 = 0" by auto
  then have f: "\<not> in_use (ds_version ds 1)" "unat (ds_version ds 1 + 1) = 1" by (simp_all add: in_use_def)
  from demo_cluster [OF d(1)] obtain ms bid ino cluster where
    m: "map_ok ms 1 bid ino 0" "i_blocks ino = replicate 506 0" "servers_ok ms cluster" "ms_num_data_servers ms = 1"
      "reliable_clients 1 (ms_clients ms)" "bm_block_sz (ms_bm ms) = 4096" "server_at (ms_clients ms) cluster 1 = Some ds" by blast
  from demo_alloc [OF m(3-5,7) d(1) f(1)] obtain clients' cluster' where
    r: "alloc_retry (ms_num_data_servers ms) 1 0 [(0, 0)] (ms_clients ms) cluster = Some ((1, 1, 1), clients', cluster')"
    unfolding m(4) f(2) by blast
  from allocate_block_ok [OF m(1,3) _ _ _ r, of 9] m(2,6) obtain bm' ino' where
    a: "map_ok ((set_ms_bm bm' ms)\<lparr>ms_clients := clients'\<rparr>) 1 bid ino' (Suc 0)"
      "pairs (i_blocks ino') (Suc 0) = [(1, u64 (1 * 2 ^ 32 + 1))]" by (auto simp: pairs_def)
  have srv: "cluster_ok (ms_num_data_servers ms) (ms_clients ms) cluster" "0 < ms_num_data_servers ms"
    using m(3) by (simp_all add: servers_ok_def)
  from alloc_retry_ok [OF srv r] obtain s where s: "server_at clients' cluster' 1 = Some s" "ds_ok s" "in_use (ds_version s 1)"
    "1 = unat (ds_version s 1)" "ds_data s 1 = replicate 4096 0" by blast
  have "rc_reliable cli" if "clients' 1 = Some cli" for cli
    using r that m(4,5) by (auto simp: call_server_def rpc_call_def reliable_clients_def bind_eq_Some_conv u32_def split: if_splits)
  moreover have "get_block_map ((set_ms_bm bm' ms)\<lparr>ms_clients := clients'\<rparr>) 1 = Some [(1, 1, 1)]"
    using get_block_map_ok [OF a(1)] a(2) by (simp add: pair_info_def u64_def u32_def)
  ultimately show ?thesis using s
    by (intro exI [of _ "(set_ms_bm bm' ms)\<lparr>ms_clients := clients'\<rparr>"] exI [of _ cluster'] exI [of _ s]) auto
qed


theorem client_read_after_write_witness:
  "\<exists>cc ms cl cc1 cl1 cc2. cc_write_file (0, 0) (\<lambda>_. ((0, 0), 0, 0, [])) (\<lambda>_. (0, 0)) cc (ms, cl) 1 10 [7, 8] = Some (KNullOk, cc1, (ms, cl1)) \<and>
    cc_read_file (0, 0) (\<lambda>_. (0, 0)) cc1 (ms, cl1) 1 9 3 = Some (Ok [0, 7, 8], cc2, (ms, cl1))"
proof -
  from demo_allocated obtain ms cluster ds where
    d: "get_block_map ms 1 = Some [(1, 1, 1)]" "server_at (ms_clients ms) cluster 1 = Some ds" "ds_ok ds"
      "in_use (ds_version ds 1)" "unat (ds_version ds 1) = 1" "ds_data ds 1 = replicate 4096 0"
      "\<forall>cli. ms_clients ms 1 = Some cli \<longrightarrow> rc_reliable cli" by blast
  then obtain cli where c: "ms_clients ms 1 = Some cli" "cluster (rc_address cli) = Some ds" "rc_reliable cli"
    by (auto simp: server_at_def bind_eq_Some_conv)
  define cc where "cc = \<lparr>cc_data_servers = ms_clients ms, cc_metadata_server = Some (rpc_client_create ''localhost'' 8080 True),
    cc_num_data_servers = 1\<rparr>"
  have r: "map_reachable (cc_data_servers cc) cluster [(1, 1, 1)]"
    using c d by (auto simp: cc_def map_reachable_def block_at_server_def)
  have b: "remote_bytes (cc_data_servers cc) cluster [(1, 1, 1)] = replicate 4096 0"
    using c d(6) by (simp add: cc_def remote_bytes_def block_bytes_def block_place_def)
  have p: "chunk (patch (replicate 4096 0) 10 [7, 8]) 9 3 = [0, 7, 8 :: byte]" by (simp add: chunk_def patch_def)
  from client_read_after_write [OF _ _ d(1) r, of "rpc_client_create ''localhost'' 8080 True" "[7, 8]" 10 3 "(0, 0)"
      "\<lambda>_. ((0, 0), 0, 0, [])" "\<lambda>_. (0, 0)" "(0, 0)" "\<lambda>_. (0, 0)" 9] obtain cc1 cl1 cc2 where
    "cc_write_file (0, 0) (\<lambda>_. ((0, 0), 0, 0, [])) (\<lambda>_. (0, 0)) cc (ms, cluster) 1 10 [7, 8] = Some (KNullOk, cc1, (ms, cl1))"
    "cc_read_file (0, 0) (\<lambda>_. (0, 0)) cc1 (ms, cl1) 1 9 3 = Some (Ok [0, 7, 8], cc2, (ms, cl1))"
    unfolding b p by (auto simp: cc_def rpc_client_create_def)
  then show ?thesis by (intro exI conjI)
qed

text \<open>When a call to the metadata server fails, \<open>mknode\<close> and \<open>lookup\<close> report success with inode
  0, whether the request was lost or the server has executed it and the answer was lost;
  \<open>unlink\<close> under the same failure reports the error.\<close>

theorem client_hides_lost_calls:
  assumes "cc_metadata_server cc = Some cli" "\<not> rc_reliable cli" "fst d \<le> 10"
  shows "cc_mknode d t1 t2 cc (ms, cl) type parent name =
      (if snd d < 5 then Some (Ok 0, cc, (ms, cl))
       else map_option (\<lambda>(i, ms1). (Ok 0, cc, (ms1, cl))) (mknode t1 t2 ms type parent name)) \<and>
    cc_lookup d cc (ms, cl) parent name =
      (if snd d < 5 then Some (Ok 0, cc, (ms, cl)) else map_option (\<lambda>_. (Ok 0, cc, (ms, cl))) (ms_lookup ms parent name)) \<and>
    cc_unlink d t1 cc (ms, cl) parent name =
      (if snd d < 5 then Some (Err BadResponse, cc, (ms, cl))
       else map_option (\<lambda>(b, ms1). (Err RpcTimeout, cc, (ms1, cl))) (ms_unlink t1 ms parent name))"
proof -
  have [simp]: "cc\<lparr>cc_metadata_server := Some cli\<rparr> = cc" using assms(1) by (cases cc) simp
  show ?thesis using assms
    by (auto simp: cc_mknode_def cc_lookup_def cc_unlink_def call_metadata_def rpc_call_def on_names_def on_query_def
        option.map_comp comp_def split: bind_splits option.splits)
qed

theorem client_hides_lost_calls_witness:
  "\<exists>ms cc. init_fs None 7 demo_garbage False False False False = Some ms \<and>
    cc_mknode (7, 2) 8 8 cc (ms, Map.empty) 1 1 ''f'' = Some (Ok 0, cc, (ms, Map.empty)) \<and>
    cc_unlink (7, 2) 8 cc (ms, Map.empty) 1 ''f'' = Some (Err BadResponse, cc, (ms, Map.empty))"
proof -
  from new_server obtain ms where "init_fs None 7 demo_garbage False False False False = Some ms" by blast
  then show ?thesis
    using client_hides_lost_calls [of "snd (cc_reg_server chfs_client_create METADATA_SERVER ''localhost'' 8080 False)"
        "rpc_client_create ''localhost'' 8080 False" "(7, 2)" 8 8 ms Map.empty 1 1 "''f''"]
    by (auto simp: cc_reg_server_def rpc_client_create_def)
qed

end
