(* ===== verification/Map_Reduce.thy ===== *)
theory Map_Reduce
  imports Chfs_Client List_State_Machine "HOL-Library.List_Lexorder" "HOL-Library.Char_ord" "HOL-Library.Multiset"
begin

text \<open>
  Word count by map and reduce on top of the distributed file system (\<open>src/chfs/src/map_reduce\<close>): the
  functions \<open>Map\<close> and \<open>Reduce\<close>, the sequential job, the coordinator and the workers. Clocks are arguments in
  milliseconds, the draws of every call are arguments, and \<open>None\<close> is an uncaught exception, an access
  outside a vector or an overflow. \<open>std::sort\<close> is an argument: it may order equal keys in any way.
\<close>

section \<open>Keys and values\<close>

record key_val =
  kv_key :: string
  kv_val :: string

definition KeyVal :: "string \<Rightarrow> string \<Rightarrow> key_val" where
  "KeyVal k v = \<lparr>kv_key = k, kv_val = v\<rparr>"

definition kv_less :: "key_val \<Rightarrow> key_val \<Rightarrow> bool" where
  "kv_less kv1 kv2 \<longleftrightarrow> kv_key kv1 < kv_key kv2"

definition kv_eq :: "key_val \<Rightarrow> key_val \<Rightarrow> bool" where
  "kv_eq kv1 kv2 \<longleftrightarrow> kv_key kv1 = kv_key kv2"

definition is_alpha :: "char \<Rightarrow> bool" where
  "is_alpha c \<longleftrightarrow> 65 \<le> (of_char c :: nat) \<and> (of_char c :: nat) \<le> 90 \<or> 97 \<le> (of_char c :: nat) \<and> (of_char c :: nat) \<le> 122"

section \<open>\<open>Map\<close> and \<open>Reduce\<close>\<close>

primrec map_loop :: "string \<Rightarrow> string \<Rightarrow> key_val list \<Rightarrow> key_val list" where
  "map_loop [] cur_word ret = (if cur_word \<noteq> [] then ret @ [KeyVal cur_word ''1''] else ret)"
| "map_loop (c # content) cur_word ret =
     (if \<not> is_alpha c then map_loop content [] (if cur_word \<noteq> [] then ret @ [KeyVal cur_word ''1''] else ret)
      else map_loop content (cur_word @ [c]) ret)"

definition mr_Map :: "string \<Rightarrow> key_val list" where
  "mr_Map content = map_loop content [] []"

text \<open>\<open>std::stoi\<close> throws when there is no number or when it does not fit.\<close>

definition stoi :: "string \<Rightarrow> int option" where
  "stoi str =
     (let s = dropWhile is_space str;
          neg = (s \<noteq> [] \<and> hd s = CHR ''-'');
          s' = (if s \<noteq> [] \<and> (hd s = CHR ''-'' \<or> hd s = CHR ''+'') then tl s else s);
          ds = takeWhile is_digit s';
          v = (if neg then - int (digits_value ds) else int (digits_value ds))
      in if ds = [] \<or> \<not> in_int v then None else Some v)"

primrec reduce_loop :: "int \<Rightarrow> string list \<Rightarrow> int option" where
  "reduce_loop cnt [] = Some cnt"
| "reduce_loop cnt (value # values) = do {
     n \<leftarrow> stoi value;
     chfs_assert (in_int (cnt + n));
     reduce_loop (cnt + n) values
   }"

definition mr_Reduce :: "string \<Rightarrow> string list \<Rightarrow> string option" where
  "mr_Reduce key values = map_option int_to_string (reduce_loop 0 values)"

section \<open>Sorting and grouping\<close>

text \<open>The two loops that sort in \<open>SequentialMapReduce::doWork\<close>, with the number of rounds left.\<close>

primrec sort_inner :: "nat \<Rightarrow> nat \<Rightarrow> nat \<Rightarrow> key_val list \<Rightarrow> key_val list" where
  "sort_inner 0 i j kvs = kvs"
| "sort_inner (Suc k) i j kvs =
     sort_inner k i (Suc j) (if kv_less (kvs ! j) (kvs ! i) then kvs[i := kvs ! j, j := kvs ! i] else kvs)"

primrec sort_outer :: "nat \<Rightarrow> nat \<Rightarrow> key_val list \<Rightarrow> key_val list" where
  "sort_outer 0 i kvs = kvs"
| "sort_outer (Suc k) i kvs = sort_outer k (Suc i) (sort_inner (length kvs - Suc i) i (Suc i) kvs)"

definition exchange_sort :: "key_val list \<Rightarrow> key_val list" where
  "exchange_sort kvs = sort_outer (length kvs) 0 kvs"

text \<open>The values of a run of equal keys but the last one, and the index of the last one.\<close>

function group_values :: "key_val list \<Rightarrow> nat \<Rightarrow> string list \<Rightarrow> string list \<times> nat" where
  "group_values kvs end_idx values =
     (if end_idx < length kvs - 1 \<and> kv_eq (kvs ! end_idx) (kvs ! (end_idx + 1))
      then group_values kvs (end_idx + 1) (values @ [kv_val (kvs ! end_idx)]) else (values, end_idx))"
  by pat_completeness auto

termination group_values
  by (relation "measure (\<lambda>(kvs, end_idx, values). length kvs - end_idx)") auto

declare group_values.simps [simp del]

lemma group_values_le: "end_idx \<le> snd (group_values kvs end_idx vs)"
  by (induction kvs end_idx vs rule: group_values.induct) (subst group_values.simps, auto)

function reduce_groups :: "key_val list \<Rightarrow> nat \<Rightarrow> nat \<Rightarrow> key_val list \<Rightarrow> key_val list option" where
  "reduce_groups kvs start_idx end_idx res_kvs =
     (if end_idx < length kvs then do {
        let key = kv_key (kvs ! start_idx);
        let g = group_values kvs end_idx [];
        reduce_res \<leftarrow> mr_Reduce key (fst g @ [kv_val (kvs ! snd g)]);
        reduce_groups kvs (Suc (snd g)) (Suc (snd g)) (res_kvs @ [KeyVal key reduce_res])
      }
      else Some res_kvs)"
  by pat_completeness auto

termination reduce_groups
  using group_values_le
  by (relation "measure (\<lambda>(kvs, start_idx, end_idx, res_kvs). length kvs - end_idx)") (auto simp: less_Suc_eq_le intro!: diff_less_mono2 elim: order_trans)

declare reduce_groups.simps [simp del]

text \<open>The text of an output file.\<close>

definition kv_text :: "key_val list \<Rightarrow> string" where
  "kv_text kvs = concat (map (\<lambda>kv. kv_key kv @ '' '' @ kv_val kv @ [CHR 0x0A]) kvs)"


section \<open>Files\<close>

text \<open>
  What a job draws for reading a file (lookup, attributes, block map, blocks) and for writing one
  (lookup, block map, allocations, blocks).
\<close>

type_synonym read_env = "draw \<times> draw \<times> draw \<times> (nat \<Rightarrow> draw)"
type_synonym write_env = "draw \<times> draw \<times> alloc_env \<times> (nat \<Rightarrow> draw)"

definition getContentFromFile ::
    "read_env \<Rightarrow> chfs_client \<Rightarrow> system \<Rightarrow> string \<Rightarrow> (string \<times> chfs_client \<times> system) option" where
  "getContentFromFile env cc sys filename = (case env of (d1, d2, d3, dr) \<Rightarrow> do {
     (res_lookup, cc1, sys1) \<leftarrow> cc_lookup d1 cc sys 1 filename;
     inode_id \<leftarrow> unwrap res_lookup;
     (type_res, cc2, sys2) \<leftarrow> cc_get_type_attr d2 cc1 sys1 inode_id;
     file_type \<leftarrow> unwrap type_res;
     (read_res, cc3, sys3) \<leftarrow> cc_read_file d3 dr cc2 sys2 inode_id 0 (fsize (snd file_type));
     content_vec \<leftarrow> unwrap read_res;
     Some (str_of_bytes content_vec, cc3, sys3)
   })"

text \<open>The text of an output is written to a file that exists; an error of the write is only reported.\<close>

definition write_text ::
    "write_env \<Rightarrow> chfs_client \<Rightarrow> system \<Rightarrow> string \<Rightarrow> string \<Rightarrow> (chfs_client \<times> system) option" where
  "write_text env cc sys filename content = (case env of (d1, d2, ae, dr) \<Rightarrow> do {
     (lookup_res, cc1, sys1) \<leftarrow> cc_lookup d1 cc sys 1 filename;
     output_inode_id \<leftarrow> unwrap lookup_res;
     (write_res, cc2, sys2) \<leftarrow> cc_write_file d2 ae dr cc1 sys1 output_inode_id 0 (bytes_of_str content);
     Some (cc2, sys2)
   })"

section \<open>The sequential job\<close>

primrec map_files ::
    "(nat \<Rightarrow> read_env) \<Rightarrow> nat \<Rightarrow> string list \<Rightarrow> chfs_client \<Rightarrow> system \<Rightarrow> (key_val list \<times> chfs_client \<times> system) option" where
  "map_files env i [] cc sys = Some ([], cc, sys)"
| "map_files env i (file # files) cc sys = do {
     (content, cc1, sys1) \<leftarrow> getContentFromFile (env i) cc sys file;
     (kvs, cc2, sys2) \<leftarrow> map_files env (Suc i) files cc1 sys1;
     Some (mr_Map content @ kvs, cc2, sys2)
   }"

text \<open>What the job writes for the keys and values of all files.\<close>

definition sequential_text :: "key_val list \<Rightarrow> string option" where
  "sequential_text kvs = map_option kv_text (reduce_groups (exchange_sort kvs) 0 0 [])"

definition sequential_doWork ::
    "(nat \<Rightarrow> read_env) \<Rightarrow> write_env \<Rightarrow> chfs_client \<Rightarrow> system \<Rightarrow> string list \<Rightarrow> string \<Rightarrow> (chfs_client \<times> system) option" where
  "sequential_doWork env wenv cc sys files outPutFile = do {
     (kvs, cc1, sys1) \<leftarrow> map_files env 0 files cc sys;
     write_content \<leftarrow> sequential_text kvs;
     write_text wenv cc1 sys1 outPutFile write_content
   }"

section \<open>The coordinator\<close>

definition MAP :: int where
  "MAP = 1"

definition REDUCE :: int where
  "REDUCE = 2"

datatype ask_res = NoTask | MapTask | ReduceTask | Busy

record ask_task_reply =
  at_res :: ask_res
  at_index :: int
  at_outputFile :: string
  at_files :: "string list"

record mr_task =
  tk_files :: "string list"
  tk_outputFile :: string
  tk_startTime :: int
  tk_finished :: bool
  tk_hasAligned :: bool

record coordinator =
  co_isFinished :: bool
  co_MapTasks :: "mr_task list"
  co_ReduceTasks :: "mr_task list"
  co_mapFileCnt :: nat
  co_mapCompCnt :: nat
  co_reduceFileCnt :: nat
  co_reduceCompCnt :: nat
  co_FinalTask :: mr_task
  co_workStage :: nat

definition new_task :: "string list \<Rightarrow> string \<Rightarrow> mr_task" where
  "new_task files out = \<lparr>tk_files = files, tk_outputFile = out, tk_startTime = 0, tk_finished = False, tk_hasAligned = False\<rparr>"

definition numbered :: "string \<Rightarrow> nat \<Rightarrow> string" where
  "numbered name i = name @ int_to_string (int i)"

definition threhold :: int where
  "threhold = 1000"

text \<open>The loop that makes the reduce tasks: two files each, and the last of an odd number joins the task before it.\<close>

function reduce_tasks :: "nat \<Rightarrow> nat \<Rightarrow> mr_task list" where
  "reduce_tasks mapFileCnt i =
     (if \<not> i < mapFileCnt then []
      else if i + 2 = mapFileCnt - 1
      then new_task [numbered ''map'' i, numbered ''map'' (i + 1), numbered ''map'' (i + 2)] (numbered ''reduce'' ((i + 3) div 2)) #
        reduce_tasks mapFileCnt (i + 5)
      else new_task [numbered ''map'' i, numbered ''map'' (i + 1)] (numbered ''reduce'' (i div 2)) # reduce_tasks mapFileCnt (i + 2))"
  by pat_completeness auto

termination reduce_tasks
  by (relation "measure (\<lambda>(mapFileCnt, i). mapFileCnt - i)") auto

declare reduce_tasks.simps [simp del]

definition coordinator_create :: "string list \<Rightarrow> string \<Rightarrow> coordinator" where
  "coordinator_create files resultFile =
     (let n = length files; rs = reduce_tasks n 0
      in \<lparr>co_isFinished = False, co_MapTasks = map (\<lambda>i. new_task [files ! i] (numbered ''map'' i)) [0..<n], co_ReduceTasks = rs,
        co_mapFileCnt = n, co_mapCompCnt = 0, co_reduceFileCnt = length rs, co_reduceCompCnt = 0,
        co_FinalTask = new_task (map tk_outputFile rs) resultFile, co_workStage = 0\<rparr>)"

definition available :: "int \<Rightarrow> mr_task \<Rightarrow> bool" where
  "available now t \<longleftrightarrow> \<not> tk_hasAligned t \<or> threhold \<le> now - tk_startTime t"

text \<open>The search for a task: \<open>k\<close> rounds from index \<open>i\<close> on, \<open>clk\<close> being the clock in each of them.\<close>

primrec pick_task :: "(nat \<Rightarrow> int) \<Rightarrow> mr_task list \<Rightarrow> nat \<Rightarrow> nat \<Rightarrow> (nat \<times> mr_task) option option" where
  "pick_task clk tasks 0 i = Some None"
| "pick_task clk tasks (Suc k) i = do {
     t \<leftarrow> at tasks i;
     if \<not> tk_finished t \<and> available (clk i) t then Some (Some (i, t)) else pick_task clk tasks k (Suc i)
   }"

definition align :: "int \<Rightarrow> mr_task \<Rightarrow> mr_task" where
  "align now t = t\<lparr>tk_startTime := now, tk_hasAligned := True\<rparr>"

definition task_reply :: "ask_res \<Rightarrow> int \<Rightarrow> mr_task \<Rightarrow> ask_task_reply" where
  "task_reply res i t = \<lparr>at_res = res, at_index = i, at_outputFile = tk_outputFile t, at_files = tk_files t\<rparr>"

definition no_reply :: "ask_res \<Rightarrow> ask_task_reply" where
  "no_reply res = \<lparr>at_res = res, at_index = 0, at_outputFile = [], at_files = []\<rparr>"

definition askTask :: "(nat \<Rightarrow> int) \<Rightarrow> int \<Rightarrow> coordinator \<Rightarrow> (ask_task_reply \<times> coordinator) option" where
  "askTask clk now c =
     (if co_isFinished c then Some (no_reply NoTask, c)
      else if co_workStage c = 0 then do {
        p \<leftarrow> pick_task clk (co_MapTasks c) (co_mapFileCnt c) 0;
        case p of
          None \<Rightarrow> Some (no_reply Busy, c)
        | Some (i, t) \<Rightarrow> Some (task_reply MapTask (int i) t, c\<lparr>co_MapTasks := (co_MapTasks c)[i := align now t]\<rparr>)
      }
      else if co_workStage c = 1 then do {
        p \<leftarrow> pick_task clk (co_ReduceTasks c) (co_reduceFileCnt c) 0;
        case p of
          None \<Rightarrow> Some (no_reply Busy, c)
        | Some (i, t) \<Rightarrow> Some (task_reply ReduceTask (int i) t, c\<lparr>co_ReduceTasks := (co_ReduceTasks c)[i := align now t]\<rparr>)
      }
      else if available (clk 0) (co_FinalTask c)
      then Some (task_reply ReduceTask (- 1) (co_FinalTask c), c\<lparr>co_FinalTask := align now (co_FinalTask c)\<rparr>)
      else Some (no_reply Busy, c))"

definition finish :: "mr_task \<Rightarrow> mr_task" where
  "finish t = t\<lparr>tk_finished := True\<rparr>"

definition submitTask :: "int \<Rightarrow> int \<Rightarrow> coordinator \<Rightarrow> (int \<times> coordinator) option" where
  "submitTask taskType index c =
     (if co_isFinished c then Some (0, c)
      else if taskType = MAP then do {
        chfs_assert (0 \<le> index);
        t \<leftarrow> at (co_MapTasks c) (nat index);
        if tk_finished t then Some (0, c)
        else Some (1, c\<lparr>co_MapTasks := (co_MapTasks c)[nat index := finish t], co_mapCompCnt := co_mapCompCnt c + 1,
          co_workStage := (if co_mapCompCnt c + 1 = co_mapFileCnt c then co_workStage c + 1 else co_workStage c)\<rparr>)
      }
      else if taskType = REDUCE then
        if 0 \<le> index then do {
          t \<leftarrow> at (co_ReduceTasks c) (nat index);
          if tk_finished t then Some (0, c)
          else Some (1, c\<lparr>co_ReduceTasks := (co_ReduceTasks c)[nat index := finish t], co_reduceCompCnt := co_reduceCompCnt c + 1,
            co_workStage := (if co_reduceCompCnt c + 1 = co_reduceFileCnt c then co_workStage c + 1 else co_workStage c)\<rparr>)
        }
        else Some (1, c\<lparr>co_FinalTask := finish (co_FinalTask c), co_isFinished := True\<rparr>)
      else Some (1, c))"

definition Done :: "coordinator \<Rightarrow> bool" where
  "Done c = co_isFinished c"

section \<open>The workers\<close>

text \<open>The loop of \<open>readFile\<close>: the key and the value of the current line, and the result so far.\<close>

definition parse_step :: "string \<times> string \<times> key_val list \<Rightarrow> char \<Rightarrow> string \<times> string \<times> key_val list" where
  "parse_step st c = (case st of (key, val, ret) \<Rightarrow>
     let newline = (c = CHR 0x0A \<or> c = CHR 0x00);
         ret' = (if newline \<and> key \<noteq> [] \<and> val \<noteq> [] then ret @ [KeyVal key val] else ret);
         key' = (if newline then [] else key);
         val' = (if newline then [] else val)
     in (if is_alpha c then key' @ [c] else key', if is_digit c then val' @ [c] else val', ret'))"

definition parse_kvs :: "string \<Rightarrow> key_val list" where
  "parse_kvs content = (case foldl parse_step ([], [], []) content of (key, val, ret) \<Rightarrow>
     if key \<noteq> [] \<and> val \<noteq> [] then ret @ [KeyVal key val] else ret)"

definition readFile :: "read_env \<Rightarrow> chfs_client \<Rightarrow> system \<Rightarrow> string \<Rightarrow> (key_val list \<times> chfs_client \<times> system) option" where
  "readFile env cc sys filename = do {
     (content, cc', sys') \<leftarrow> getContentFromFile env cc sys filename;
     Some (parse_kvs content, cc', sys')
   }"

definition writeFile :: "write_env \<Rightarrow> chfs_client \<Rightarrow> system \<Rightarrow> string \<Rightarrow> key_val list \<Rightarrow> (chfs_client \<times> system) option" where
  "writeFile env cc sys filename kvs = write_text env cc sys filename (kv_text kvs)"

record mr_worker =
  wk_mr_client :: rpc_client
  wk_chfs_client :: chfs_client
  wk_files :: "string list"
  wk_outputFile :: string
  wk_shouldStop :: bool

definition worker_create :: "string \<Rightarrow> nat \<Rightarrow> chfs_client \<Rightarrow> mr_worker" where
  "worker_create ip_address port client = \<lparr>wk_mr_client = rpc_client_create ip_address port True, wk_chfs_client = client,
     wk_files = [], wk_outputFile = [], wk_shouldStop = False\<rparr>"

definition worker_stop :: "mr_worker \<Rightarrow> mr_worker" where
  "worker_stop w = w\<lparr>wk_shouldStop := True\<rparr>"

text \<open>What a worker draws for one task.\<close>

record work_env =
  we_ask :: draw
  we_clk :: "nat \<Rightarrow> int"
  we_now :: int
  we_read :: "nat \<Rightarrow> read_env"
  we_mknode :: "draw \<times> nat \<times> nat"
  we_write :: write_env
  we_submit :: draw

type_synonym mr_world = "coordinator \<times> system"

definition doSubmit :: "draw \<Rightarrow> int \<Rightarrow> int \<Rightarrow> mr_worker \<Rightarrow> coordinator \<Rightarrow> (mr_worker \<times> coordinator) option" where
  "doSubmit d taskType index w c = do {
     (_, cli, c') \<leftarrow> rpc_call d (wk_mr_client w) (submitTask taskType index) c;
     Some (w\<lparr>wk_mr_client := cli\<rparr>, c')
   }"

definition doMap :: "work_env \<Rightarrow> int \<Rightarrow> string \<Rightarrow> mr_worker \<Rightarrow> mr_world \<Rightarrow> (mr_worker \<times> mr_world) option" where
  "doMap env index filename w world = (case world of (c, sys) \<Rightarrow> case we_mknode env of (d, t1, t2) \<Rightarrow> do {
     (content, cc1, sys1) \<leftarrow> getContentFromFile (we_read env 0) (wk_chfs_client w) sys filename;
     (_, cc2, sys2) \<leftarrow> cc_mknode d t1 t2 cc1 sys1 1 1 (wk_outputFile w);
     (cc3, sys3) \<leftarrow> writeFile (we_write env) cc2 sys2 (wk_outputFile w) (mr_Map content);
     (w', c') \<leftarrow> doSubmit (we_submit env) MAP index (w\<lparr>wk_chfs_client := cc3\<rparr>) c;
     Some (w', c', sys3)
   })"

primrec read_files ::
    "(nat \<Rightarrow> read_env) \<Rightarrow> nat \<Rightarrow> string list \<Rightarrow> chfs_client \<Rightarrow> system \<Rightarrow> (key_val list \<times> chfs_client \<times> system) option" where
  "read_files env i [] cc sys = Some ([], cc, sys)"
| "read_files env i (file # files) cc sys = do {
     (kv, cc1, sys1) \<leftarrow> readFile (env i) cc sys file;
     (kvs, cc2, sys2) \<leftarrow> read_files env (Suc i) files cc1 sys1;
     Some (kv @ kvs, cc2, sys2)
   }"

definition doReduce ::
    "(key_val list \<Rightarrow> key_val list) \<Rightarrow> work_env \<Rightarrow> int \<Rightarrow> mr_worker \<Rightarrow> mr_world \<Rightarrow> (mr_worker \<times> mr_world) option" where
  "doReduce srt env index w world = (case world of (c, sys) \<Rightarrow> case we_mknode env of (d, t1, t2) \<Rightarrow> do {
     (_, cc1, sys1) \<leftarrow> cc_mknode d t1 t2 (wk_chfs_client w) sys 1 1 (wk_outputFile w);
     (kvs, cc2, sys2) \<leftarrow> read_files (we_read env) 0 (wk_files w) cc1 sys1;
     res_kvs \<leftarrow> reduce_groups (srt kvs) 0 0 [];
     (cc3, sys3) \<leftarrow> writeFile (we_write env) cc2 sys2 (wk_outputFile w) res_kvs;
     (w', c') \<leftarrow> doSubmit (we_submit env) REDUCE index (w\<lparr>wk_chfs_client := cc3\<rparr>) c;
     Some (w', c', sys3)
   })"

text \<open>One round of \<open>doWork\<close>: whether the loop goes on, the worker and the world.\<close>

definition worker_round ::
    "(key_val list \<Rightarrow> key_val list) \<Rightarrow> work_env \<Rightarrow> mr_worker \<Rightarrow> mr_world \<Rightarrow> (bool \<times> mr_worker \<times> mr_world) option" where
  "worker_round srt env w world = (case world of (c, sys) \<Rightarrow> if wk_shouldStop w then Some (False, w, world) else do {
     (reply, cli, c1) \<leftarrow> rpc_call (we_ask env) (wk_mr_client w) (askTask (we_clk env) (we_now env)) c;
     let w1 = w\<lparr>wk_mr_client := cli\<rparr>;
     case reply of
       Err _ \<Rightarrow> Some (True, w1, (c1, sys))
     | Ok content \<Rightarrow>
         let w2 = w1\<lparr>wk_outputFile := at_outputFile content, wk_files := at_files content\<rparr>
         in case at_res content of
              NoTask \<Rightarrow> Some (False, w2, (c1, sys))
            | Busy \<Rightarrow> Some (True, w2, (c1, sys))
            | MapTask \<Rightarrow> do {
                file \<leftarrow> at (wk_files w2) 0;
                (w3, world') \<leftarrow> doMap env (at_index content) file w2 (c1, sys);
                Some (True, w3, world')
              }
            | ReduceTask \<Rightarrow> do {
                (w3, world') \<leftarrow> doReduce srt env (at_index content) w2 (c1, sys);
                Some (True, w3, world')
              }
   })"


text \<open>The loop of \<open>doWork\<close>, watched for \<open>n\<close> rounds.\<close>

primrec worker_doWork ::
    "(key_val list \<Rightarrow> key_val list) \<Rightarrow> (nat \<Rightarrow> work_env) \<Rightarrow> nat \<Rightarrow> mr_worker \<Rightarrow> mr_world \<Rightarrow> (mr_worker \<times> mr_world) option" where
  "worker_doWork srt envs 0 w world = Some (w, world)"
| "worker_doWork srt envs (Suc n) w world = do {
     (go, w', world') \<leftarrow> worker_round srt (envs n) w world;
     if go then worker_doWork srt envs n w' world' else Some (w', world')
   }"

end
