(* ===== verification/Map_Reduce_Correct.thy ===== *)
theory Map_Reduce_Correct
  imports Map_Reduce
begin

text \<open>
  Word count: \<open>Map\<close> splits a text into its words, sorting and grouping adds up the values of every key,
  whatever the sorting does with equal keys, and the job of the workers writes what the
  sequential job writes.
\<close>

section \<open>Words\<close>

text \<open>The words of a text: the longest runs of letters.\<close>

function text_words :: "string \<Rightarrow> string list" where
  "text_words cs = (let s = dropWhile (\<lambda>c. \<not> is_alpha c) cs
     in if s = [] then [] else takeWhile is_alpha s # text_words (dropWhile is_alpha s))"
  by pat_completeness auto

termination text_words
proof (relation "measure length")
  fix cs s
  assume s: "s = dropWhile (\<lambda>c. \<not> is_alpha c) cs" "s \<noteq> []"
  then have "is_alpha (hd s)" using hd_dropWhile [of "\<lambda>c. \<not> is_alpha c" cs] by simp
  then have "length (dropWhile is_alpha s) < length s" using s(2) by (cases s) (simp_all add: le_imp_less_Suc length_dropWhile_le)
  also have "length s \<le> length cs" using s(1) by (simp add: length_dropWhile_le)
  finally show "(dropWhile is_alpha s, cs) \<in> measure length" by simp
qed simp

declare text_words.simps [simp del]

lemma text_words_skip: "\<not> is_alpha c \<Longrightarrow> text_words (c # cs) = text_words cs"
  by (subst (1 2) text_words.simps) simp

lemma text_words_word:
  assumes "list_all is_alpha cur" "cs = [] \<or> \<not> is_alpha (hd cs)"
  shows "text_words (cur @ cs) = (if cur = [] then [] else [cur]) @ text_words cs"
proof (cases cur)
  case Nil
  then show ?thesis by simp
next
  case (Cons a cur')
  then have "takeWhile is_alpha (cur @ cs) = cur" "dropWhile is_alpha (cur @ cs) = cs"
    using assms by (cases cs; simp add: takeWhile_append dropWhile_append list_all_iff)+
  then show ?thesis using assms(1) Cons by (subst text_words.simps) (simp add: Let_def)
qed

lemma text_words_Nil [simp]: "text_words [] = []"
  by (simp add: text_words.simps)

lemma map_loop_words:
  "list_all is_alpha cur \<Longrightarrow> map_loop content cur ret = ret @ map (\<lambda>w. KeyVal w ''1'') (text_words (cur @ content))"
proof (induction content arbitrary: cur ret)
  case Nil
  then show ?case using text_words_word [of cur "[]"] by simp
next
  case (Cons c content)
  show ?case
  proof (cases "is_alpha c")
    case True
    then show ?thesis using Cons.IH [of "cur @ [c]" ret] Cons.prems by simp
  next
    case False
    then show ?thesis using Cons.IH [of "[]"] text_words_word [OF Cons.prems, of "c # content"] text_words_skip [OF False] by simp
  qed
qed

lemma mr_Map_words: "mr_Map content = map (\<lambda>w. KeyVal w ''1'') (text_words content)"
  using map_loop_words [of "[]" content "[]"] by (simp add: mr_Map_def)

lemma text_words_alpha: "w \<in> set (text_words cs) \<Longrightarrow> list_all is_alpha w \<and> w \<noteq> []"
proof (induction cs rule: text_words.induct)
  case (1 cs)
  let ?s = "dropWhile (\<lambda>c. \<not> is_alpha c) cs"
  show ?case
  proof (cases "?s = []")
    case True
    then show ?thesis using 1(2) by (subst (asm) text_words.simps) simp
  next
    case False
    then have "is_alpha (hd ?s)" using hd_dropWhile [of "\<lambda>c. \<not> is_alpha c" cs] by simp
    then have "takeWhile is_alpha ?s \<noteq> []" using False by (cases ?s) auto
    moreover have "list_all is_alpha (takeWhile is_alpha ?s)" by (auto simp: list_all_iff dest: set_takeWhileD)
    moreover have "text_words cs = takeWhile is_alpha ?s # text_words (dropWhile is_alpha ?s)" using False by (subst text_words.simps) (simp add: Let_def)
    ultimately show ?thesis using 1(1) [OF refl False] 1(2) by auto
  qed
qed

section \<open>Sorting\<close>

lemma swap_props:
  assumes "i < length kvs" "j < length kvs"
  shows "mset (kvs[i := kvs ! j, j := kvs ! i]) = mset kvs" "length (kvs[i := kvs ! j, j := kvs ! i]) = length kvs"
  using assms by (simp_all add: mset_swap)

text \<open>After the inner loop the least key of the rest is at its place, and what is before it is as it was.\<close>

lemma sort_inner_ok:
  assumes "i < j" "j + k = length kvs" "\<forall>p. i < p \<and> p < j \<longrightarrow> kv_key (kvs ! i) \<le> kv_key (kvs ! p)"
  shows "mset (sort_inner k i j kvs) = mset kvs \<and> take i (sort_inner k i j kvs) = take i kvs \<and>
    (\<forall>p. i < p \<and> p < length kvs \<longrightarrow> kv_key (sort_inner k i j kvs ! i) \<le> kv_key (sort_inner k i j kvs ! p))"
  using assms
proof (induction k arbitrary: j kvs)
  case 0
  then show ?case by simp
next
  case (Suc k)
  let ?kvs = "if kv_less (kvs ! j) (kvs ! i) then kvs[i := kvs ! j, j := kvs ! i] else kvs"
  have l: "i < length kvs" "j < length kvs" using Suc.prems by simp_all
  have m: "mset ?kvs = mset kvs" "length ?kvs = length kvs" "take i ?kvs = take i kvs"
    using swap_props [OF l] Suc.prems(1) by simp_all
  have "kv_key (?kvs ! i) \<le> kv_key (?kvs ! p)" if "i < p" "p < Suc j" for p
  proof (cases "p = j")
    case True
    then show ?thesis using l Suc.prems(1) by (auto simp: kv_less_def nth_list_update)
  next
    case False
    then have "kv_key (kvs ! i) \<le> kv_key (kvs ! p)" using Suc.prems(3) that by simp
    then show ?thesis using l False that Suc.prems(1) by (auto simp: kv_less_def nth_list_update)
  qed
  then have "mset (sort_inner k i (Suc j) ?kvs) = mset ?kvs \<and> take i (sort_inner k i (Suc j) ?kvs) = take i ?kvs \<and>
    (\<forall>p. i < p \<and> p < length ?kvs \<longrightarrow> kv_key (sort_inner k i (Suc j) ?kvs ! i) \<le> kv_key (sort_inner k i (Suc j) ?kvs ! p))"
    using Suc.prems m(2) by (intro Suc.IH) auto
  then show ?case using m by simp
qed

lemma drop_mset: "mset xs = mset ys \<Longrightarrow> take i xs = take i ys \<Longrightarrow> set (drop i xs) = set (drop i ys)"
proof -
  assume "mset xs = mset ys" "take i xs = take i ys"
  moreover have "mset zs = mset (take i zs) + mset (drop i zs)" for zs :: "'a list" by (metis append_take_drop_id mset_append)
  ultimately have "mset (drop i xs) = mset (drop i ys)" by (metis add_left_cancel)
  then show ?thesis by (rule mset_eq_setD)
qed

lemma sort_outer_ok:
  assumes "i + k = length kvs" "\<forall>p q. p < i \<and> p < q \<and> q < length kvs \<longrightarrow> kv_key (kvs ! p) \<le> kv_key (kvs ! q)"
  shows "mset (sort_outer k i kvs) = mset kvs \<and> sorted (map kv_key (sort_outer k i kvs))"
  using assms
proof (induction k arbitrary: i kvs)
  case 0
  then show ?case by (simp add: sorted_iff_nth_mono_less)
next
  case (Suc k)
  let ?r = "sort_inner (length kvs - Suc i) i (Suc i) kvs"
  have "mset ?r = mset kvs \<and> take i ?r = take i kvs \<and> (\<forall>p. i < p \<and> p < length kvs \<longrightarrow> kv_key (?r ! i) \<le> kv_key (?r ! p))"
    using Suc.prems(1) by (intro sort_inner_ok) auto
  then have r: "mset ?r = mset kvs" "take i ?r = take i kvs" "\<And>p. i < p \<Longrightarrow> p < length kvs \<Longrightarrow> kv_key (?r ! i) \<le> kv_key (?r ! p)" by blast+
  have len: "length ?r = length kvs" using r(1) by (rule mset_eq_length)
  have d: "set (drop i ?r) = set (drop i kvs)" using drop_mset [OF r(1,2)] .
  have "kv_key (?r ! p) \<le> kv_key (?r ! q)" if pq: "p < Suc i" "p < q" "q < length kvs" for p q
  proof (cases "p = i")
    case True
    then show ?thesis using r(3) pq by simp
  next
    case False
    then have p: "p < i" using pq(1) by simp
    then have rp: "?r ! p = kvs ! p" using r(2) by (metis nth_take)
    have "\<exists>q'. p < q' \<and> q' < length kvs \<and> ?r ! q = kvs ! q'"
    proof (cases "q < i")
      case True
      then show ?thesis using r(2) pq by (metis nth_take)
    next
      case False
      have "?r ! q = drop i ?r ! (q - i)" using False pq(3) len by simp
      also have "\<dots> \<in> set (drop i ?r)" using False pq(3) len by (intro nth_mem) simp
      finally obtain x where "x < length (drop i kvs)" "?r ! q = drop i kvs ! x" unfolding d in_set_conv_nth by metis
      then show ?thesis using p by (intro exI [of _ "i + x"]) simp
    qed
    then show ?thesis using Suc.prems(2) p rp by auto
  qed
  then have "mset (sort_outer k (Suc i) ?r) = mset ?r \<and> sorted (map kv_key (sort_outer k (Suc i) ?r))"
    using Suc.prems(1) len by (intro Suc.IH) auto
  then show ?case using r(1) by simp
qed

text \<open>What a sorting routine promises: the same elements with ascending keys.\<close>

locale key_sort =
  fixes srt :: "key_val list \<Rightarrow> key_val list"
  assumes mset_srt: "mset (srt kvs) = mset kvs"
    and sorted_srt: "sorted (map kv_key (srt kvs))"

interpretation exchange: key_sort exchange_sort
  by unfold_locales (use sort_outer_ok [of 0] in \<open>simp_all add: exchange_sort_def\<close>)

interpretation stable: key_sort "sort_key kv_key"
  by unfold_locales simp_all


section \<open>Grouping\<close>

text \<open>A key with a number, as the jobs make them, and the sum of the numbers of a key.\<close>

definition clean :: "key_val \<Rightarrow> bool" where
  "clean kv \<longleftrightarrow> kv_key kv \<noteq> [] \<and> list_all is_alpha (kv_key kv) \<and> kv_val kv \<noteq> [] \<and> list_all is_digit (kv_val kv)"

definition total :: "string \<Rightarrow> key_val list \<Rightarrow> nat" where
  "total k kvs = (\<Sum>kv \<leftarrow> filter (\<lambda>kv. kv_key kv = k) kvs. digits_value (kv_val kv))"

text \<open>The reference: every key once, in ascending order, with its sum.\<close>

definition tally :: "key_val list \<Rightarrow> key_val list" where
  "tally kvs = map (\<lambda>k. KeyVal k (int_to_string (int (total k kvs)))) (sorted_list_of_set (kv_key ` set kvs))"

lemma total_mset:
  assumes "mset kvs = mset kvs'"
  shows "total k kvs = total k kvs'"
proof -
  have "total k xs = sum_mset (image_mset (\<lambda>kv. digits_value (kv_val kv)) (filter_mset (\<lambda>kv. kv_key kv = k) (mset xs)))" for xs
    by (simp add: total_def sum_mset_sum_list flip: mset_filter mset_map)
  then show ?thesis by (simp add: assms)
qed

lemma tally_mset:
  assumes "mset kvs = mset kvs'"
  shows "tally kvs = tally kvs'"
  using total_mset [OF assms] mset_eq_setD [OF assms] by (simp add: tally_def)

lemma is_digit_not: "is_digit c \<Longrightarrow> \<not> is_space c \<and> c \<noteq> CHR ''-'' \<and> c \<noteq> CHR ''+'' \<and> \<not> is_alpha c"
  by (auto simp: is_digit_def is_space_def is_alpha_def)

lemma stoi_digits:
  assumes "ds \<noteq> []" "list_all is_digit ds" "digits_value ds < 2 ^ 31"
  shows "stoi ds = Some (int (digits_value ds))"
proof -
  have h: "is_digit (hd ds)" using assms(1,2) by (cases ds) simp_all
  then have "dropWhile is_space ds = ds" using is_digit_not by (cases ds) simp_all
  moreover have t: "takeWhile is_digit ds = ds" using assms(2) by (simp add: list_all_iff)
  ultimately show ?thesis using assms(1,3) is_digit_not [OF h] by (simp add: stoi_def in_int_def t del: takeWhile_eq_all_conv)
qed

lemma reduce_loop_sum:
  assumes "\<forall>v \<in> set vs. v \<noteq> [] \<and> list_all is_digit v" "n + (\<Sum>v \<leftarrow> vs. digits_value v) < 2 ^ 31"
  shows "reduce_loop (int n) vs = Some (int (n + (\<Sum>v \<leftarrow> vs. digits_value v)))"
  using assms
proof (induction vs arbitrary: n)
  case (Cons v vs)
  have "stoi v = Some (int (digits_value v))" using Cons.prems by (intro stoi_digits) simp_all
  moreover have "in_int (int n + int (digits_value v))" using Cons.prems(2) by (simp add: in_int_def)
  moreover have "reduce_loop (int (n + digits_value v)) vs = Some (int (n + digits_value v + (\<Sum>v \<leftarrow> vs. digits_value v)))"
    using Cons.prems by (intro Cons.IH) simp_all
  ultimately show ?case by (simp add: chfs_assert_def add.assoc)
qed simp

lemma mr_Reduce_sum:
  "\<forall>v \<in> set vs. v \<noteq> [] \<and> list_all is_digit v \<Longrightarrow> (\<Sum>v \<leftarrow> vs. digits_value v) < 2 ^ 31 \<Longrightarrow>
    mr_Reduce k vs = Some (int_to_string (int (\<Sum>v \<leftarrow> vs. digits_value v)))"
  using reduce_loop_sum [of vs 0] by (simp add: mr_Reduce_def)

text \<open>The loops, over lists: the run of the first key, and the rest.\<close>

function grouped :: "key_val list \<Rightarrow> key_val list option" where
  "grouped [] = Some []"
| "grouped (kv # kvs) = do {
     r \<leftarrow> mr_Reduce (kv_key kv) (map kv_val (kv # takeWhile (kv_eq kv) kvs));
     rest \<leftarrow> grouped (dropWhile (kv_eq kv) kvs);
     Some (KeyVal (kv_key kv) r # rest)
   }"
  by pat_completeness auto

termination grouped
  by (relation "measure length") (simp_all add: le_imp_less_Suc length_dropWhile_le)

lemma group_values_run:
  assumes "e < length kvs"
  shows "group_values kvs e vs = (vs @ map kv_val (butlast (kvs ! e # takeWhile (kv_eq (kvs ! e)) (drop (Suc e) kvs))),
    e + length (takeWhile (kv_eq (kvs ! e)) (drop (Suc e) kvs)))"
  using assms
proof (induction kvs e vs rule: group_values.induct)
  case (1 kvs e vs)
  show ?case
  proof (cases "e < length kvs - 1 \<and> kv_eq (kvs ! e) (kvs ! (e + 1))")
    case True
    then have lt: "Suc e < length kvs" by linarith
    then have d: "drop (Suc e) kvs = kvs ! Suc e # drop (Suc (Suc e)) kvs" by (simp add: Cons_nth_drop_Suc)
    have k: "kv_eq (kvs ! Suc e) = kv_eq (kvs ! e)" using True by (simp add: kv_eq_def fun_eq_iff)
    have "group_values kvs e vs = group_values kvs (e + 1) (vs @ [kv_val (kvs ! e)])" using True by (subst group_values.simps) simp
    then show ?thesis using 1(1) [OF True] True lt d k by simp
  next
    case False
    then have "takeWhile (kv_eq (kvs ! e)) (drop (Suc e) kvs) = []"
      by (cases "Suc e < length kvs") (auto simp: Cons_nth_drop_Suc [symmetric])
    moreover have "group_values kvs e vs = (vs, e)" using False by (subst group_values.simps) auto
    ultimately show ?thesis by simp
  qed
qed

lemma reduce_groups_grouped: "reduce_groups kvs e e res = map_option (\<lambda>r. res @ r) (grouped (drop e kvs))"
proof (induction "length kvs - e" arbitrary: e res rule: less_induct)
  case less
  show ?case
  proof (cases "e < length kvs")
    case False
    then show ?thesis by (subst reduce_groups.simps) simp
  next
    case True
    let ?kv = "kvs ! e" and ?s = "takeWhile (kv_eq (kvs ! e)) (drop (Suc e) kvs)"
    let ?e1 = "e + length ?s"
    have d: "drop e kvs = ?kv # drop (Suc e) kvs" using True by (simp add: Cons_nth_drop_Suc)
    have g: "group_values kvs e [] = (map kv_val (butlast (?kv # ?s)), ?e1)" using group_values_run [OF True, of "[]"] by simp
    have le: "?e1 < length kvs" using length_takeWhile_le [of "kv_eq ?kv" "drop (Suc e) kvs"] True unfolding length_drop by linarith
    have "(?kv # ?s) ! length ?s = kvs ! ?e1"
    proof (cases "length ?s")
      case (Suc m)
      then have "?s ! m = drop (Suc e) kvs ! m" by (intro takeWhile_nth) simp
      then show ?thesis using le by (simp add: Suc)
    qed simp
    moreover have "last (?kv # ?s) = (?kv # ?s) ! (length (?kv # ?s) - 1)" by (rule last_conv_nth) simp
    ultimately have l: "kvs ! ?e1 = last (?kv # ?s)" by (metis diff_Suc_1 length_Cons)
    have v: "map kv_val (butlast (?kv # ?s)) @ [kv_val (kvs ! ?e1)] = map kv_val (?kv # ?s)"
      unfolding l by (metis append_butlast_last_id list.distinct(1) list.simps(8) list.simps(9) map_append)
    have r: "dropWhile (kv_eq ?kv) (drop (Suc e) kvs) = drop (Suc ?e1) kvs" by (simp add: dropWhile_eq_drop add.commute)
    define vs where "vs = map kv_val (?kv # ?s)"
    have "reduce_groups kvs e e res = Option.bind (mr_Reduce (kv_key ?kv) vs)
        (\<lambda>x. reduce_groups kvs (Suc ?e1) (Suc ?e1) (res @ [KeyVal (kv_key ?kv) x]))"
      by (subst reduce_groups.simps) (simp only: True if_True Let_def g fst_conv snd_conv v vs_def)
    moreover have "reduce_groups kvs (Suc ?e1) (Suc ?e1) res' = map_option (\<lambda>r. res' @ r) (grouped (drop (Suc ?e1) kvs))" for res'
      using less [of "Suc ?e1" res'] True le by simp
    ultimately show ?thesis unfolding d grouped.simps r vs_def [symmetric]
      by (cases "mr_Reduce (kv_key ?kv) vs"; cases "grouped (drop (Suc ?e1) kvs)") simp_all
  qed
qed


lemma total_Cons: "total k (kv # kvs) = (if kv_key kv = k then digits_value (kv_val kv) else 0) + total k kvs"
  by (simp add: total_def)

lemma total_append [simp]: "total k (kvs @ kvs') = total k kvs + total k kvs'"
  by (simp add: total_def)

text \<open>A sorted list starts with all pairs of its first key.\<close>

lemma sorted_run:
  assumes "sorted (map kv_key (kv # kvs))"
  shows "takeWhile (kv_eq kv) kvs = filter (\<lambda>x. kv_key x = kv_key kv) kvs" "dropWhile (kv_eq kv) kvs = filter (\<lambda>x. kv_key x \<noteq> kv_key kv) kvs"
proof -
  have "takeWhile (kv_eq kv) kvs = filter (\<lambda>x. kv_key x = kv_key kv) kvs \<and> dropWhile (kv_eq kv) kvs = filter (\<lambda>x. kv_key x \<noteq> kv_key kv) kvs"
    using assms
  proof (induction kvs)
    case (Cons x kvs)
    show ?case
    proof (cases "kv_key x = kv_key kv")
      case True
      then show ?thesis using Cons by (simp add: kv_eq_def)
    next
      case False
      then have "\<forall>y \<in> set kvs. kv_key y \<noteq> kv_key kv" using Cons.prems by (auto dest: order.antisym)
      then have "filter (\<lambda>y. kv_key y = kv_key kv) kvs = []" "filter (\<lambda>y. kv_key y \<noteq> kv_key kv) kvs = kvs" by (simp_all add: filter_empty_conv filter_id_conv)
      then show ?thesis using False by (simp add: kv_eq_def)
    qed
  qed simp
  then show "takeWhile (kv_eq kv) kvs = filter (\<lambda>x. kv_key x = kv_key kv) kvs" "dropWhile (kv_eq kv) kvs = filter (\<lambda>x. kv_key x \<noteq> kv_key kv) kvs"
    by simp_all
qed

lemma tally_Cons:
  assumes "sorted (map kv_key (kv # kvs))"
  shows "tally (kv # kvs) = KeyVal (kv_key kv) (int_to_string (int (total (kv_key kv) (kv # kvs)))) # tally (dropWhile (kv_eq kv) kvs)"
proof -
  let ?k = "kv_key kv" and ?r = "dropWhile (kv_eq kv) kvs"
  have r: "?r = filter (\<lambda>x. kv_key x \<noteq> ?k) kvs" using sorted_run(2) [OF assms] .
  have K: "kv_key ` set (kv # kvs) = insert ?k (kv_key ` set ?r)" by (auto simp: r)
  have gt: "\<forall>y \<in> kv_key ` set ?r. ?k < y" using assms by (auto simp: r order.strict_iff_order)
  then have "kv_key ` set ?r - {?k} = kv_key ` set ?r" by blast
  then have "sorted_list_of_set (insert ?k (kv_key ` set ?r)) = insort ?k (sorted_list_of_set (kv_key ` set ?r))" by simp
  also have "\<dots> = ?k # sorted_list_of_set (kv_key ` set ?r)" using gt by (intro insort_is_Cons) (simp add: less_imp_le)
  finally have "sorted_list_of_set (insert ?k (kv_key ` set ?r)) = ?k # sorted_list_of_set (kv_key ` set ?r)" .
  moreover have "total k (kv # kvs) = total k ?r" if "k \<in> kv_key ` set ?r" for k
    using that gt by (auto simp: total_def r) (metis (mono_tags, lifting) filter_filter)
  ultimately show ?thesis unfolding tally_def K by simp
qed

lemma grouped_tally:
  assumes "sorted (map kv_key kvs)" "list_all clean kvs" "\<And>k. total k kvs < 2 ^ 31"
  shows "grouped kvs = Some (tally kvs)"
  using assms
proof (induction kvs rule: grouped.induct)
  case 1
  show ?case by (simp add: tally_def)
next
  case (2 kv kvs)
  let ?s = "kv # takeWhile (kv_eq kv) kvs" and ?r = "dropWhile (kv_eq kv) kvs"
  have s: "?s = filter (\<lambda>x. kv_key x = kv_key kv) (kv # kvs)" using sorted_run(1) [OF 2(2)] by simp
  then have sum: "(\<Sum>v \<leftarrow> map kv_val ?s. digits_value v) = total (kv_key kv) (kv # kvs)" unfolding total_def by (simp add: comp_def)
  have "\<forall>v \<in> set (map kv_val ?s). v \<noteq> [] \<and> list_all is_digit v"
    using 2(3) set_takeWhileD [of _ "kv_eq kv" kvs] by (auto simp: list_all_iff clean_def)
  then have red: "mr_Reduce (kv_key kv) (map kv_val ?s) = Some (int_to_string (int (total (kv_key kv) (kv # kvs))))"
    using 2(4) [of "kv_key kv"] unfolding sum [symmetric] by (intro mr_Reduce_sum)
  have le: "total k ?r \<le> total k (kv # kvs)" for k
    using total_append [of k "takeWhile (kv_eq kv) kvs" ?r] by (simp add: total_Cons)
  have "sorted (map kv_key ?r)" using 2(2) sorted_run(2) [OF 2(2)] by (simp add: sorted_filter)
  moreover have "list_all clean ?r" using 2(3) set_dropWhileD [of _ "kv_eq kv" kvs] by (auto simp: list_all_iff)
  moreover have "total k ?r < 2 ^ 31" for k using le [of k] 2(4) [of k] by linarith
  ultimately have "grouped ?r = Some (tally ?r)" using 2(1) red by simp
  then show ?case unfolding grouped.simps red tally_Cons [OF 2(2)] by simp
qed


context key_sort
begin

lemma reduce_sorted:
  assumes "list_all clean kvs" "\<And>k. total k kvs < 2 ^ 31"
  shows "reduce_groups (srt kvs) 0 0 [] = Some (tally kvs)"
proof -
  have "list_all clean (srt kvs)" using assms(1) mset_eq_setD [OF mset_srt [of kvs]] by (simp add: list_all_iff)
  then show ?thesis
    using reduce_groups_grouped [of "srt kvs" 0 "[]"] grouped_tally [OF sorted_srt] assms(2) total_mset [OF mset_srt] tally_mset [OF mset_srt] by simp
qed

end

section \<open>Word count\<close>

text \<open>The reference for the whole job: a line for every word of the texts, in ascending order, with the number of its occurrences.\<close>

definition word_count :: "string list \<Rightarrow> string" where
  "word_count contents = (let ws = concat (map text_words contents) in
     concat (map (\<lambda>w. w @ '' '' @ int_to_string (int (count_list ws w)) @ [CHR 0x0A]) (sorted_list_of_set (set ws))))"

definition mapped :: "string list \<Rightarrow> key_val list" where
  "mapped contents = concat (map mr_Map contents)"

lemma mapped_words: "mapped contents = map (\<lambda>w. KeyVal w ''1'') (concat (map text_words contents))"
proof -
  have "mr_Map = (\<lambda>content. map (\<lambda>w. KeyVal w ''1'') (text_words content))" by (rule ext) (rule mr_Map_words)
  then show ?thesis by (simp add: mapped_def map_concat comp_def)
qed

lemma clean_word: "list_all is_alpha w \<Longrightarrow> w \<noteq> [] \<Longrightarrow> clean (KeyVal w ''1'')"
  by (simp add: clean_def KeyVal_def is_digit_def)

lemma clean_mapped: "list_all clean (mapped contents)"
  using text_words_alpha clean_word by (fastforce simp: mapped_words list_all_iff)

lemma total_words: "total k (map (\<lambda>w. KeyVal w ''1'') ws) = count_list ws k"
  by (induction ws) (simp_all add: total_def KeyVal_def digits_value_def)

lemma count_list_le: "count_list xs x \<le> length xs"
  by (induction xs) auto

lemma total_mapped: "total k (mapped contents) = count_list (concat (map text_words contents)) k"
  by (simp add: mapped_words total_words)

lemma word_count_tally: "word_count contents = kv_text (tally (mapped contents))"
proof -
  have "kv_key ` set (mapped contents) = set (concat (map text_words contents))" by (auto simp: mapped_words KeyVal_def image_iff)
  then show ?thesis by (simp add: word_count_def kv_text_def tally_def total_mapped KeyVal_def Let_def comp_def)
qed

definition few_words :: "string list \<Rightarrow> bool" where
  "few_words contents \<longleftrightarrow> length (concat (map text_words contents)) < 2 ^ 31"

lemma few_words_total: "few_words contents \<Longrightarrow> total k (mapped contents) < 2 ^ 31"
  using count_list_le [of "concat (map text_words contents)" k] by (simp add: few_words_def total_mapped)

text \<open>C13. The sequential job counts words: for texts with fewer than $2^{31}$ words in all, what it writes is one line per
  word, in ascending order, with the number of times that the word occurs in all texts together.
\<close>

theorem sequential_job_counts_words:
  assumes "few_words contents"
  shows "sequential_text (concat (map mr_Map contents)) = Some (word_count contents)"
  using exchange.reduce_sorted [OF clean_mapped few_words_total [OF assms]] by (simp add: sequential_text_def word_count_tally flip: mapped_def)

theorem sequential_job_counts_words_witness:
  "sequential_text (concat (map mr_Map [''to be, or not to be'', ''Be!''])) =
    Some (concat (map (\<lambda>l. l @ [CHR 0x0A]) [''Be 1'', ''be 2'', ''not 1'', ''or 1'', ''to 2'']))"
proof -
  have "length (concat (map text_words [''to be, or not to be'', ''Be!''])) = 7" by code_simp
  then have "sequential_text (concat (map mr_Map [''to be, or not to be'', ''Be!''])) = Some (word_count [''to be, or not to be'', ''Be!''])"
    by (intro sequential_job_counts_words) (simp add: few_words_def)
  also have "word_count [''to be, or not to be'', ''Be!''] = concat (map (\<lambda>l. l @ [CHR 0x0A]) [''Be 1'', ''be 2'', ''not 1'', ''or 1'', ''to 2''])"
    by code_simp
  finally show ?thesis .
qed

end
