(* ===== verification/Map_Reduce_Coordinator.thy ===== *)
theory Map_Reduce_Coordinator
  imports Map_Reduce_Job
begin

text \<open>
  The coordinator under any interleaving of workers that ask for tasks and submit some of those they
  were given, in any order and more than once: the stages of the job come one after the other, and
  the job ends.
\<close>

section \<open>Runs\<close>

fun task_code :: "ask_res \<Rightarrow> int option" where
  "task_code MapTask = Some MAP"
| "task_code ReduceTask = Some REDUCE"
| "task_code _ = None"

definition given :: "ask_task_reply \<Rightarrow> (int \<times> int) set" where
  "given r = (case task_code (at_res r) of None \<Rightarrow> {} | Some ty \<Rightarrow> {(ty, at_index r)})"

text \<open>The states of a coordinator with the tasks that it has given away.\<close>

inductive co_run :: "string list \<Rightarrow> string \<Rightarrow> coordinator \<Rightarrow> (int \<times> int) set \<Rightarrow> bool" for files out where
  init: "co_run files out (coordinator_create files out) {}"
| ask: "co_run files out c H \<Longrightarrow> askTask clk now c = Some (r, c') \<Longrightarrow> co_run files out c' (H \<union> given r)"
| submit: "co_run files out c H \<Longrightarrow> (ty, i) \<in> H \<Longrightarrow> submitTask ty i c = Some (b, c') \<Longrightarrow> co_run files out c' H"

definition finished_cnt :: "mr_task list \<Rightarrow> nat" where
  "finished_cnt ts = length (filter tk_finished ts)"

definition maps_done :: "coordinator \<Rightarrow> bool" where
  "maps_done c \<longleftrightarrow> list_all tk_finished (co_MapTasks c)"

definition reduces_done :: "coordinator \<Rightarrow> bool" where
  "reduces_done c \<longleftrightarrow> list_all tk_finished (co_ReduceTasks c)"

definition open_tasks :: "coordinator \<Rightarrow> nat" where
  "open_tasks c = (co_mapFileCnt c - co_mapCompCnt c) + (co_reduceFileCnt c - co_reduceCompCnt c) + (if co_isFinished c then 0 else 1)"

definition allowed :: "coordinator \<Rightarrow> int \<times> int \<Rightarrow> bool" where
  "allowed c h \<longleftrightarrow> (case h of (ty, i) \<Rightarrow> ty = MAP \<and> 0 \<le> i \<and> i < int (co_mapFileCnt c) \<or>
     ty = REDUCE \<and> 0 \<le> i \<and> i < int (co_reduceFileCnt c) \<and> maps_done c \<or> ty = REDUCE \<and> i = - 1 \<and> maps_done c \<and> reduces_done c)"

definition co_ok :: "coordinator \<Rightarrow> bool" where
  "co_ok c \<longleftrightarrow> length (co_MapTasks c) = co_mapFileCnt c \<and> length (co_ReduceTasks c) = co_reduceFileCnt c \<and> 0 < co_mapFileCnt c \<and> 0 < co_reduceFileCnt c \<and>
     co_mapCompCnt c = finished_cnt (co_MapTasks c) \<and> co_reduceCompCnt c = finished_cnt (co_ReduceTasks c) \<and>
     co_workStage c = (if maps_done c then if reduces_done c then 2 else 1 else 0) \<and>
     (0 < co_reduceCompCnt c \<longrightarrow> maps_done c) \<and> (co_isFinished c \<longrightarrow> maps_done c \<and> reduces_done c)"

lemma length_filter_update:
  "i < length xs \<Longrightarrow> length (filter P (xs[i := x])) + (if P (xs ! i) then 1 else 0) = length (filter P xs) + (if P x then 1 else 0)"
proof (induction xs arbitrary: i)
  case (Cons y xs)
  then show ?case using Cons.IH [of "i - 1"] by (cases i) (auto split: if_splits)
qed simp

lemma finished_cnt_update:
  assumes "i < length ts"
  shows "tk_finished t = tk_finished (ts ! i) \<Longrightarrow> finished_cnt (ts[i := t]) = finished_cnt ts"
    "\<not> tk_finished (ts ! i) \<Longrightarrow> tk_finished t \<Longrightarrow> finished_cnt (ts[i := t]) = finished_cnt ts + 1"
  using length_filter_update [OF assms, of tk_finished t] by (simp_all add: finished_cnt_def split: if_splits)

lemma finished_cnt_all: "finished_cnt ts = length ts \<longleftrightarrow> list_all tk_finished ts"
proof
  assume "finished_cnt ts = length ts"
  then have "filter tk_finished ts = ts" unfolding finished_cnt_def by (metis length_filter_less less_irrefl filter_id_conv)
  then show "list_all tk_finished ts" by (simp add: filter_id_conv list_all_iff)
qed (simp add: finished_cnt_def list_all_iff filter_id_conv)

lemma finished_cnt_le: "finished_cnt ts \<le> length ts"
  by (simp add: finished_cnt_def)

lemma pick_task_ok:
  "i + k = length tasks \<Longrightarrow> \<exists>p. pick_task clk tasks k i = Some p \<and> (case p of
      None \<Rightarrow> \<forall>j. i \<le> j \<and> j < length tasks \<longrightarrow> tk_finished (tasks ! j) \<or> \<not> available (clk j) (tasks ! j)
    | Some (j, t) \<Rightarrow> j < length tasks \<and> t = tasks ! j \<and> \<not> tk_finished t \<and> available (clk j) t)"
proof (induction k arbitrary: i)
  case (Suc k)
  then have at: "at tasks i = Some (tasks ! i)" by (simp add: at_def)
  show ?case
  proof (cases "\<not> tk_finished (tasks ! i) \<and> available (clk i) (tasks ! i)")
    case True
    then show ?thesis using at Suc.prems by simp
  next
    case False
    from Suc.IH [of "Suc i"] Suc.prems obtain p where p: "pick_task clk tasks k (Suc i) = Some p" "case p of
      None \<Rightarrow> \<forall>j. Suc i \<le> j \<and> j < length tasks \<longrightarrow> tk_finished (tasks ! j) \<or> \<not> available (clk j) (tasks ! j)
    | Some (j, t) \<Rightarrow> j < length tasks \<and> t = tasks ! j \<and> \<not> tk_finished t \<and> available (clk j) t" by auto
    have "tk_finished (tasks ! j) \<or> \<not> available (clk j) (tasks ! j)" if "p = None" "i \<le> j" "j < length tasks" for j
      using False p(2) that by (cases "i = j") auto
    then have "case p of None \<Rightarrow> \<forall>j. i \<le> j \<and> j < length tasks \<longrightarrow> tk_finished (tasks ! j) \<or> \<not> available (clk j) (tasks ! j)
      | Some (j, t) \<Rightarrow> j < length tasks \<and> t = tasks ! j \<and> \<not> tk_finished t \<and> available (clk j) t" using p(2) by (cases p) auto
    moreover have "pick_task clk tasks (Suc k) i = Some p" using at False p(1) by auto
    ultimately show ?thesis by blast
  qed
qed auto


lemma co_okD:
  assumes "co_ok c"
  shows "length (co_MapTasks c) = co_mapFileCnt c" "length (co_ReduceTasks c) = co_reduceFileCnt c" "0 < co_mapFileCnt c" "0 < co_reduceFileCnt c"
    "co_mapCompCnt c = finished_cnt (co_MapTasks c)" "co_reduceCompCnt c = finished_cnt (co_ReduceTasks c)"
    "co_workStage c = (if maps_done c then if reduces_done c then 2 else 1 else 0)" "0 < co_reduceCompCnt c \<Longrightarrow> maps_done c"
    "co_isFinished c \<Longrightarrow> maps_done c \<and> reduces_done c" "maps_done c \<longleftrightarrow> co_mapCompCnt c = co_mapFileCnt c" "reduces_done c \<longleftrightarrow> co_reduceCompCnt c = co_reduceFileCnt c"
  using assms finished_cnt_all [of "co_MapTasks c"] finished_cnt_all [of "co_ReduceTasks c"] by (auto simp: co_ok_def maps_done_def reduces_done_def)

lemma reduce_tasks_nonempty: "0 < n \<Longrightarrow> reduce_tasks n 0 \<noteq> []"
  by (subst reduce_tasks.simps) auto

lemma co_ok_create:
  assumes "files \<noteq> []"
  shows "co_ok (coordinator_create files out)"
proof -
  let ?c = "coordinator_create files out"
  have "\<forall>t \<in> set (reduce_tasks n i). \<not> tk_finished t" for n i
  proof (induction n i rule: reduce_tasks.induct)
    case (1 n i)
    then show ?case by (subst reduce_tasks.simps) (auto simp: new_task_def)
  qed
  then have f: "finished_cnt (co_ReduceTasks ?c) = 0" "finished_cnt (co_MapTasks ?c) = 0"
    by (simp_all add: coordinator_create_def Let_def finished_cnt_def filter_empty_conv new_task_def)
  moreover have "0 < length (reduce_tasks (length files) 0)" "0 < length files" using assms reduce_tasks_nonempty by simp_all
  moreover from this have "\<not> maps_done ?c" using f(2) finished_cnt_all [of "co_MapTasks ?c"] by (simp add: maps_done_def coordinator_create_def Let_def)
  ultimately show ?thesis by (simp add: co_ok_def) (simp add: coordinator_create_def Let_def)
qed

definition same_progress :: "coordinator \<Rightarrow> coordinator \<Rightarrow> bool" where
  "same_progress c c' \<longleftrightarrow> maps_done c' = maps_done c \<and> reduces_done c' = reduces_done c \<and> open_tasks c' = open_tasks c \<and>
     co_mapFileCnt c' = co_mapFileCnt c \<and> co_reduceFileCnt c' = co_reduceFileCnt c \<and> co_isFinished c' = co_isFinished c"

lemma same_progress_refl [simp]: "same_progress c c"
  by (simp add: same_progress_def)

lemma align_map:
  assumes ok: "co_ok c" and j: "j < length (co_MapTasks c)"
  shows "co_ok (c\<lparr>co_MapTasks := (co_MapTasks c)[j := align now (co_MapTasks c ! j)]\<rparr>) \<and>
    same_progress c (c\<lparr>co_MapTasks := (co_MapTasks c)[j := align now (co_MapTasks c ! j)]\<rparr>)"
proof -
  let ?ts = "(co_MapTasks c)[j := align now (co_MapTasks c ! j)]"
  have f: "finished_cnt ?ts = finished_cnt (co_MapTasks c)"
    using finished_cnt_update(1) [OF j, of "align now (co_MapTasks c ! j)"] by (simp add: align_def)
  then have "list_all tk_finished ?ts = list_all tk_finished (co_MapTasks c)" by (simp flip: finished_cnt_all)
  then show ?thesis using ok f by (simp add: co_ok_def maps_done_def reduces_done_def open_tasks_def same_progress_def)
qed

lemma align_reduce:
  assumes ok: "co_ok c" and j: "j < length (co_ReduceTasks c)"
  shows "co_ok (c\<lparr>co_ReduceTasks := (co_ReduceTasks c)[j := align now (co_ReduceTasks c ! j)]\<rparr>) \<and>
    same_progress c (c\<lparr>co_ReduceTasks := (co_ReduceTasks c)[j := align now (co_ReduceTasks c ! j)]\<rparr>)"
proof -
  let ?ts = "(co_ReduceTasks c)[j := align now (co_ReduceTasks c ! j)]"
  have f: "finished_cnt ?ts = finished_cnt (co_ReduceTasks c)"
    using finished_cnt_update(1) [OF j, of "align now (co_ReduceTasks c ! j)"] by (simp add: align_def)
  then have "list_all tk_finished ?ts = list_all tk_finished (co_ReduceTasks c)" by (simp flip: finished_cnt_all)
  then show ?thesis using ok f by (simp add: co_ok_def maps_done_def reduces_done_def open_tasks_def same_progress_def)
qed

text \<open>What asking does: the state of the tasks stays but for the clock of the task that is given away.\<close>

lemma ask_ok:
  assumes ok: "co_ok c"
  shows "\<exists>r c'. askTask clk now c = Some (r, c') \<and> co_ok c' \<and> same_progress c c' \<and> (\<forall>h \<in> given r. allowed c h)"
proof -
  note o = co_okD [OF ok]
  from pick_task_ok [of 0 "co_mapFileCnt c" "co_MapTasks c" clk] o(1) obtain p where
    p: "pick_task clk (co_MapTasks c) (co_mapFileCnt c) 0 = Some p" "\<And>j t. p = Some (j, t) \<Longrightarrow> j < length (co_MapTasks c) \<and> t = co_MapTasks c ! j" by force
  from pick_task_ok [of 0 "co_reduceFileCnt c" "co_ReduceTasks c" clk] o(2) obtain q where
    q: "pick_task clk (co_ReduceTasks c) (co_reduceFileCnt c) 0 = Some q" "\<And>j t. q = Some (j, t) \<Longrightarrow> j < length (co_ReduceTasks c) \<and> t = co_ReduceTasks c ! j" by force
  consider "co_isFinished c" | "\<not> co_isFinished c" "co_workStage c = 0" | "\<not> co_isFinished c" "co_workStage c = 1" | "\<not> co_isFinished c" "co_workStage c = 2"
    using o(7) by (auto split: if_splits)
  then show ?thesis
  proof cases
    case 1
    then show ?thesis using ok by (simp add: askTask_def given_def no_reply_def)
  next
    case 2
    show ?thesis
    proof (cases p)
      case None
      then show ?thesis using 2 p(1) ok by (simp add: askTask_def given_def no_reply_def)
    next
      case (Some x)
      obtain j t where x: "x = (j, t)" by (cases x)
      have j: "j < length (co_MapTasks c)" "t = co_MapTasks c ! j" using p(2) Some x by auto
      show ?thesis using 2 p(1) Some x align_map [OF ok j(1), of now] j o(1)
        by (simp add: askTask_def given_def task_reply_def allowed_def)
    qed
  next
    case 3
    then have md: "maps_done c" using o(7) by (simp split: if_splits)
    show ?thesis
    proof (cases q)
      case None
      then show ?thesis using 3 q(1) ok by (simp add: askTask_def given_def no_reply_def)
    next
      case (Some x)
      obtain j t where x: "x = (j, t)" by (cases x)
      have j: "j < length (co_ReduceTasks c)" "t = co_ReduceTasks c ! j" using q(2) Some x by auto
      show ?thesis using 3 q(1) Some x align_reduce [OF ok j(1), of now] j o(2) md
        by (simp add: askTask_def given_def task_reply_def allowed_def)
    qed
  next
    case 4
    then have d: "maps_done c" "reduces_done c" using o(7) by (simp_all split: if_splits)
    let ?c = "c\<lparr>co_FinalTask := align now (co_FinalTask c)\<rparr>"
    have "co_ok ?c" "same_progress c ?c"
      using ok by (simp_all add: co_ok_def maps_done_def reduces_done_def open_tasks_def same_progress_def)
    then show ?thesis using 4 d ok by (cases "available (clk 0) (co_FinalTask c)") (simp_all add: askTask_def given_def no_reply_def task_reply_def allowed_def)
  qed
qed


text \<open>What submitting does: a second time nothing, the first time it closes the task and moves the stage on with the last one.\<close>

definition closer :: "coordinator \<Rightarrow> coordinator \<Rightarrow> bool" where
  "closer c c' \<longleftrightarrow> co_ok c' \<and> (maps_done c \<longrightarrow> maps_done c') \<and> (reduces_done c \<longrightarrow> reduces_done c') \<and> Suc (open_tasks c') = open_tasks c \<and>
     co_mapFileCnt c' = co_mapFileCnt c \<and> co_reduceFileCnt c' = co_reduceFileCnt c"

lemma submit_map:
  assumes ok: "co_ok c" and run: "\<not> co_isFinished c" and i: "0 \<le> i" "i < int (co_mapFileCnt c)"
  shows "\<exists>b c'. submitTask MAP i c = Some (b, c') \<and> (if tk_finished (co_MapTasks c ! nat i) then b = 0 \<and> c' = c else b = 1 \<and> closer c c')"
proof -
  note o = co_okD [OF ok]
  let ?t = "co_MapTasks c ! nat i"
  have l: "nat i < length (co_MapTasks c)" using i o(1) by (simp add: nat_less_iff)
  then have at: "at (co_MapTasks c) (nat i) = Some ?t" by (simp add: at_def)
  show ?thesis
  proof (cases "tk_finished ?t")
    case True
    then show ?thesis using run i at by (simp add: submitTask_def)
  next
    case False
    let ?ts = "(co_MapTasks c)[nat i := finish ?t]"
    have f: "finished_cnt ?ts = finished_cnt (co_MapTasks c) + 1" using finished_cnt_update(2) [OF l False] by (simp add: finish_def)
    have nd: "\<not> maps_done c" using False l unfolding maps_done_def list_all_iff by (meson nth_mem)
    then have r: "co_reduceCompCnt c = 0" "\<not> reduces_done c" using o(4,8,11) by auto
    have d: "list_all tk_finished ?ts \<longleftrightarrow> co_mapCompCnt c + 1 = co_mapFileCnt c" using finished_cnt_all [of ?ts] f o(1,5) by simp
    have le: "co_mapCompCnt c + 1 \<le> co_mapFileCnt c" using finished_cnt_le [of ?ts] f o(1,5) by simp
    have stage: "co_workStage c = 0" using o(7) nd by simp
    let ?c = "c\<lparr>co_MapTasks := ?ts, co_mapCompCnt := co_mapCompCnt c + 1,
      co_workStage := (if co_mapCompCnt c + 1 = co_mapFileCnt c then co_workStage c + 1 else co_workStage c)\<rparr>"
    have s: "submitTask MAP i c = Some (1, ?c)" using run i at False by (simp add: submitTask_def)
    have m: "maps_done ?c \<longleftrightarrow> co_mapCompCnt c + 1 = co_mapFileCnt c" "reduces_done ?c = reduces_done c" using d by (simp_all add: maps_done_def reduces_done_def)
    have "co_ok ?c" unfolding co_ok_def m using o f r run stage by simp
    then have "closer c ?c" using nd r(2) le run m(2) by (simp add: closer_def open_tasks_def)
    then show ?thesis using s False by simp
  qed
qed

lemma submit_reduce:
  assumes ok: "co_ok c" and run: "\<not> co_isFinished c" and i: "0 \<le> i" "i < int (co_reduceFileCnt c)" and md: "maps_done c"
  shows "\<exists>b c'. submitTask REDUCE i c = Some (b, c') \<and> (if tk_finished (co_ReduceTasks c ! nat i) then b = 0 \<and> c' = c else b = 1 \<and> closer c c')"
proof -
  note o = co_okD [OF ok]
  let ?t = "co_ReduceTasks c ! nat i"
  have l: "nat i < length (co_ReduceTasks c)" using i o(2) by (simp add: nat_less_iff)
  then have at: "at (co_ReduceTasks c) (nat i) = Some ?t" by (simp add: at_def)
  show ?thesis
  proof (cases "tk_finished ?t")
    case True
    then show ?thesis using run i at by (simp add: submitTask_def MAP_def REDUCE_def)
  next
    case False
    let ?ts = "(co_ReduceTasks c)[nat i := finish ?t]"
    have f: "finished_cnt ?ts = finished_cnt (co_ReduceTasks c) + 1" using finished_cnt_update(2) [OF l False] by (simp add: finish_def)
    have nd: "\<not> reduces_done c" using False l unfolding reduces_done_def list_all_iff by (meson nth_mem)
    have d: "list_all tk_finished ?ts \<longleftrightarrow> co_reduceCompCnt c + 1 = co_reduceFileCnt c" using finished_cnt_all [of ?ts] f o(2,6) by simp
    have le: "co_reduceCompCnt c + 1 \<le> co_reduceFileCnt c" using finished_cnt_le [of ?ts] f o(2,6) by simp
    have stage: "co_workStage c = 1" using o(7) nd md by simp
    let ?c = "c\<lparr>co_ReduceTasks := ?ts, co_reduceCompCnt := co_reduceCompCnt c + 1,
      co_workStage := (if co_reduceCompCnt c + 1 = co_reduceFileCnt c then co_workStage c + 1 else co_workStage c)\<rparr>"
    have s: "submitTask REDUCE i c = Some (1, ?c)" using run i at False by (simp add: submitTask_def MAP_def REDUCE_def)
    have m: "maps_done ?c = maps_done c" "reduces_done ?c \<longleftrightarrow> co_reduceCompCnt c + 1 = co_reduceFileCnt c" using d by (simp_all add: maps_done_def reduces_done_def)
    have "co_ok ?c" unfolding co_ok_def m using o(1-6) f md run stage by simp
    then have "closer c ?c" using nd le run m(1) by (simp add: closer_def open_tasks_def)
    then show ?thesis using s False by simp
  qed
qed

lemma submit_final:
  assumes ok: "co_ok c" and run: "\<not> co_isFinished c" and d: "maps_done c" "reduces_done c"
  shows "\<exists>c'. submitTask REDUCE (- 1) c = Some (1, c') \<and> closer c c' \<and> Done c'"
proof -
  let ?c = "c\<lparr>co_FinalTask := finish (co_FinalTask c), co_isFinished := True\<rparr>"
  have "submitTask REDUCE (- 1) c = Some (1, ?c)" using run by (simp add: submitTask_def MAP_def REDUCE_def)
  moreover have "closer c ?c" using ok run d by (simp add: closer_def co_ok_def maps_done_def reduces_done_def open_tasks_def)
  ultimately show ?thesis by (simp add: Done_def)
qed

lemma allowed_mono: "closer c c' \<or> same_progress c c' \<Longrightarrow> allowed c h \<Longrightarrow> allowed c' h"
  by (auto simp: closer_def same_progress_def allowed_def)

lemma submit_allowed:
  assumes ok: "co_ok c" and a: "allowed c (ty, i)"
  shows "\<exists>b c'. submitTask ty i c = Some (b, c') \<and> (b = 0 \<and> c' = c \<or> b = 1 \<and> closer c c')"
proof (cases "co_isFinished c")
  case True
  then show ?thesis by (simp add: submitTask_def)
next
  case False
  consider "ty = MAP" "0 \<le> i" "i < int (co_mapFileCnt c)" | "ty = REDUCE" "0 \<le> i" "i < int (co_reduceFileCnt c)" "maps_done c" |
    "ty = REDUCE" "i = - 1" "maps_done c" "reduces_done c" using a by (auto simp: allowed_def)
  then show ?thesis
  proof cases
    case 1
    from submit_map [OF ok False 1(2,3)] show ?thesis unfolding 1(1) by (metis (full_types))
  next
    case 2
    from submit_reduce [OF ok False 2(2-4)] show ?thesis unfolding 2(1) by (metis (full_types))
  next
    case 3
    from submit_final [OF ok False 3(3,4)] show ?thesis unfolding 3(1,2) by blast
  qed
qed

lemma co_run_ok: "co_run files out c H \<Longrightarrow> files \<noteq> [] \<Longrightarrow> co_ok c \<and> (\<forall>h \<in> H. allowed c h)"
proof (induction rule: co_run.induct)
  case init
  then show ?case using co_ok_create by simp
next
  case (ask c H clk "now" r c')
  from ask_ok [of c clk "now"] ask.IH ask.prems ask.hyps(2) have "co_ok c'" "same_progress c c'" "\<forall>h \<in> given r. allowed c h" by auto
  then show ?case using allowed_mono ask.IH ask.prems by blast
next
  case (submit c H ty i b c')
  from submit_allowed [of c ty i] submit.IH submit.prems submit.hyps(2,3) have "c' = c \<or> closer c c'" by auto
  then show ?case
  proof
    assume cl: "closer c c'"
    then have "co_ok c'" unfolding closer_def by blast
    then show ?case using allowed_mono cl submit.IH submit.prems by blast
  qed (use submit.IH submit.prems in simp)
qed



text \<open>Every task that is still open may be given away: none is with a worker that is still within its second.\<close>

definition ready :: "(nat \<Rightarrow> int) \<Rightarrow> mr_task list \<Rightarrow> bool" where
  "ready clk ts \<longleftrightarrow> list_all (\<lambda>j. tk_finished (ts ! j) \<or> available (clk j) (ts ! j)) [0..<length ts]"

definition all_available :: "(nat \<Rightarrow> int) \<Rightarrow> coordinator \<Rightarrow> bool" where
  "all_available clk c \<longleftrightarrow> ready clk (co_MapTasks c) \<and> ready clk (co_ReduceTasks c) \<and> (co_isFinished c \<or> available (clk 0) (co_FinalTask c))"

text \<open>A worker that takes \<open>n\<close> tasks and submits each of them.\<close>

primrec drain :: "(nat \<Rightarrow> int) \<Rightarrow> int \<Rightarrow> nat \<Rightarrow> coordinator \<Rightarrow> coordinator option" where
  "drain clk now 0 c = Some c"
| "drain clk now (Suc n) c = do {
     (r, c1) \<leftarrow> askTask clk now c;
     case task_code (at_res r) of
       None \<Rightarrow> drain clk now n c1
     | Some ty \<Rightarrow> do {
         (b, c2) \<leftarrow> submitTask ty (at_index r) c1;
         drain clk now n c2
       }
   }"

lemma ready_iff: "ready clk ts \<longleftrightarrow> (\<forall>j < length ts. tk_finished (ts ! j) \<or> available (clk j) (ts ! j))"
  by (auto simp: ready_def list_all_iff)

lemma ready_finish: "ready clk ts \<Longrightarrow> tk_finished t \<Longrightarrow> ready clk (ts[j := t])"
  by (cases "j < length ts") (auto simp: ready_iff nth_list_update)

lemma pick_task_some:
  assumes "\<not> list_all tk_finished tasks" and "ready clk tasks"
  shows "\<exists>j. pick_task clk tasks (length tasks) 0 = Some (Some (j, tasks ! j)) \<and> j < length tasks \<and> \<not> tk_finished (tasks ! j)"
proof -
  obtain i where i: "i < length tasks" "\<not> tk_finished (tasks ! i)" using assms(1) by (auto simp: list_all_length)
  then have av: "available (clk i) (tasks ! i)" using assms(2) unfolding ready_iff by blast
  from pick_task_ok [of 0 "length tasks" tasks clk] obtain p where p: "pick_task clk tasks (length tasks) 0 = Some p" "case p of
      None \<Rightarrow> \<forall>j. 0 \<le> j \<and> j < length tasks \<longrightarrow> tk_finished (tasks ! j) \<or> \<not> available (clk j) (tasks ! j)
    | Some (j, t) \<Rightarrow> j < length tasks \<and> t = tasks ! j \<and> \<not> tk_finished t \<and> available (clk j) t" by auto
  show ?thesis
  proof (cases p)
    case None
    then show ?thesis using p(2) i av by auto
  next
    case (Some x)
    then show ?thesis using p by (cases x) simp
  qed
qed

lemma submit_shape:
  assumes "\<not> co_isFinished c" and "submitTask ty i c = Some (b, c')"
  shows "ty = MAP \<Longrightarrow> co_MapTasks c' = (co_MapTasks c)[nat i := finish (co_MapTasks c ! nat i)] \<or> c' = c"
    "ty = MAP \<Longrightarrow> co_ReduceTasks c' = co_ReduceTasks c"
    "ty = REDUCE \<Longrightarrow> 0 \<le> i \<Longrightarrow> co_ReduceTasks c' = (co_ReduceTasks c)[nat i := finish (co_ReduceTasks c ! nat i)] \<or> c' = c"
    "ty = REDUCE \<Longrightarrow> co_MapTasks c' = co_MapTasks c"
    "ty = MAP \<or> 0 \<le> i \<Longrightarrow> co_FinalTask c' = co_FinalTask c"
    "ty = REDUCE \<Longrightarrow> i < 0 \<Longrightarrow> co_ReduceTasks c' = co_ReduceTasks c \<and> co_isFinished c'"
  using assms by (auto simp: submitTask_def at_def MAP_def REDUCE_def chfs_assert_def split: if_splits Option.bind_splits)


lemma open_tasks_zero: "co_ok c \<Longrightarrow> open_tasks c = 0 \<Longrightarrow> Done c"
  by (simp add: open_tasks_def Done_def split: if_splits)

text \<open>One round of the worker closes one task, and leaves every other task that is open to be given away.\<close>

lemma drain_step:
  assumes ok: "co_ok c" and av: "all_available clk c" and run: "\<not> co_isFinished c"
  shows "\<exists>r c1 ty c2. askTask clk now c = Some (r, c1) \<and> task_code (at_res r) = Some ty \<and> submitTask ty (at_index r) c1 = Some (1, c2) \<and>
    closer c1 c2 \<and> same_progress c c1 \<and> all_available clk c2"
proof -
  note o = co_okD [OF ok]
  consider "\<not> maps_done c" "co_workStage c = 0" | "maps_done c" "\<not> reduces_done c" "co_workStage c = 1" | "maps_done c" "reduces_done c" "co_workStage c = 2"
    using o(7) by (auto split: if_splits)
  then show ?thesis
  proof cases
    case 1
    obtain j where j: "pick_task clk (co_MapTasks c) (co_mapFileCnt c) 0 = Some (Some (j, co_MapTasks c ! j))" "j < length (co_MapTasks c)" "\<not> tk_finished (co_MapTasks c ! j)"
      using pick_task_some [of "co_MapTasks c" clk] 1(1) av o(1) by (auto simp: maps_done_def all_available_def)
    let ?c = "c\<lparr>co_MapTasks := (co_MapTasks c)[j := align now (co_MapTasks c ! j)]\<rparr>"
    have a: "co_ok ?c" "same_progress c ?c" using align_map [OF ok j(2)] by simp_all
    have ask: "askTask clk now c = Some (task_reply MapTask (int j) (co_MapTasks c ! j), ?c)" using j(1) run 1(2) by (simp add: askTask_def)
    have "\<exists>c2. submitTask MAP (int j) ?c = Some (1, c2) \<and> closer ?c c2"
      using submit_map [OF a(1), of "int j"] run j(2,3) o(1) by (auto simp: align_def)
    then obtain c2 where s: "submitTask MAP (int j) ?c = Some (1, c2)" "closer ?c c2" by blast
    have "c2 \<noteq> ?c" using s(2) by (auto simp: closer_def)
    then have "all_available clk c2" using submit_shape(1,2,5) [OF _ s(1)] run av ready_finish [of clk "co_MapTasks c"]
      by (auto simp: all_available_def finish_def)
    then show ?thesis using ask s a(2) by (auto simp: task_reply_def)
  next
    case 2
    obtain j where j: "pick_task clk (co_ReduceTasks c) (co_reduceFileCnt c) 0 = Some (Some (j, co_ReduceTasks c ! j))" "j < length (co_ReduceTasks c)" "\<not> tk_finished (co_ReduceTasks c ! j)"
      using pick_task_some [of "co_ReduceTasks c" clk] 2(2) av o(2) by (auto simp: reduces_done_def all_available_def)
    let ?c = "c\<lparr>co_ReduceTasks := (co_ReduceTasks c)[j := align now (co_ReduceTasks c ! j)]\<rparr>"
    have a: "co_ok ?c" "same_progress c ?c" using align_reduce [OF ok j(2)] by simp_all
    have ask: "askTask clk now c = Some (task_reply ReduceTask (int j) (co_ReduceTasks c ! j), ?c)" using j(1) run 2(3) by (simp add: askTask_def)
    have "\<exists>c2. submitTask REDUCE (int j) ?c = Some (1, c2) \<and> closer ?c c2"
      using submit_reduce [OF a(1), of "int j"] run j(2,3) o(2) 2(1) by (auto simp: align_def maps_done_def)
    then obtain c2 where s: "submitTask REDUCE (int j) ?c = Some (1, c2)" "closer ?c c2" by blast
    have "c2 \<noteq> ?c" using s(2) by (auto simp: closer_def)
    then have "all_available clk c2" using submit_shape(3,4,5) [OF _ s(1)] run av ready_finish [of clk "co_ReduceTasks c"]
      by (auto simp: all_available_def finish_def)
    then show ?thesis using ask s a(2) by (auto simp: task_reply_def)
  next
    case 3
    let ?c = "c\<lparr>co_FinalTask := align now (co_FinalTask c)\<rparr>"
    have a: "co_ok ?c" "same_progress c ?c"
      using ok by (simp_all add: co_ok_def maps_done_def reduces_done_def open_tasks_def same_progress_def)
    have ask: "askTask clk now c = Some (task_reply ReduceTask (- 1) (co_FinalTask c), ?c)" using run av 3(3) by (simp add: askTask_def all_available_def)
    obtain c2 where s: "submitTask REDUCE (- 1) ?c = Some (1, c2)" "closer ?c c2"
      using submit_final [OF a(1)] run 3(1,2) by (auto simp: maps_done_def reduces_done_def)
    have "all_available clk c2" using submit_shape(4,6) [OF _ s(1)] run av by (auto simp: all_available_def)
    then show ?thesis using ask s a(2) by (auto simp: task_reply_def)
  qed
qed


lemma drain_done:
  "co_ok c \<Longrightarrow> all_available clk c \<Longrightarrow> open_tasks c = n \<Longrightarrow> \<exists>c'. drain clk now n c = Some c' \<and> Done c'"
proof (induction n arbitrary: c)
  case 0
  then show ?case using open_tasks_zero by simp
next
  case (Suc n)
  have run: "\<not> co_isFinished c"
  proof
    assume "co_isFinished c"
    then have "open_tasks c = 0" using co_okD(9-11) [OF Suc.prems(1)] by (simp add: open_tasks_def)
    then show False using Suc.prems(3) by simp
  qed
  from drain_step [OF Suc.prems(1,2) run, of "now"] obtain r c1 ty c2 where s: "askTask clk now c = Some (r, c1)" "task_code (at_res r) = Some ty"
    "submitTask ty (at_index r) c1 = Some (1, c2)" "closer c1 c2" "same_progress c c1" "all_available clk c2" by auto
  then have "co_ok c2" "open_tasks c2 = n" using Suc.prems(3) by (simp_all add: closer_def same_progress_def)
  from Suc.IH [OF this(1) s(6) this(2)] show ?case using s(1-3) by simp
qed

section \<open>Properties\<close>

text \<open>C11. Whatever the workers ask and submit, in whatever order and however often, a coordinator of a
  job with at least one file answers every request, gives no reduce task away before all map tasks
  are finished and not the final task before all reduce tasks are, and says that the job is done
  only when every task of both stages is finished.\<close>

theorem coordinator_runs_in_order:
  assumes "co_run files out c H" and "files \<noteq> []"
  shows "\<exists>r c'. askTask clk now c = Some (r, c') \<and> (at_res r = ReduceTask \<longrightarrow> maps_done c \<and> (at_index r < 0 \<longrightarrow> reduces_done c)) \<and>
    (at_res r = MapTask \<longrightarrow> \<not> maps_done c) \<and> (Done c \<longleftrightarrow> at_res r = NoTask) \<and> (Done c \<longrightarrow> maps_done c \<and> reduces_done c)"
proof -
  have ok: "co_ok c" using co_run_ok [OF assms] by simp
  from ask_ok [OF ok, of clk "now"] obtain r c' where r: "askTask clk now c = Some (r, c')" "\<forall>h \<in> given r. allowed c h" by auto
  have "(Done c \<longleftrightarrow> at_res r = NoTask) \<and> (at_res r = MapTask \<longrightarrow> \<not> maps_done c)"
    using r(1) co_okD(7) [OF ok] by (auto simp: askTask_def Done_def no_reply_def task_reply_def split: if_splits Option.bind_splits option.splits)
  moreover have "at_res r = ReduceTask \<Longrightarrow> maps_done c \<and> (at_index r < 0 \<longrightarrow> reduces_done c)"
    using r(2) by (auto simp: given_def allowed_def MAP_def REDUCE_def)
  ultimately show ?thesis using r(1) co_okD(9) [OF ok] by (auto simp: Done_def)
qed

text \<open>A submission that was never given away is not part of a run; the run of the witness asks once and submits.\<close>

theorem coordinator_runs_in_order_witness:
  "\<exists>c r c'. co_run [''a'', ''b''] ''out'' c {(MAP, 0)} \<and> askTask (\<lambda>_. 0) 0 c = Some (r, c') \<and>
     (at_res r = ReduceTask \<longrightarrow> maps_done c \<and> (at_index r < 0 \<longrightarrow> reduces_done c)) \<and> (Done c \<longleftrightarrow> at_res r = NoTask)"
proof -
  let ?f = "[''a'', ''b'']" and ?o = "''out''"
  obtain r c where a: "askTask (\<lambda>_. 0) 0 (coordinator_create ?f ?o) = Some (r, c)" and g: "given r = {(MAP, 0)}"
    by (simp add: askTask_def coordinator_create_def Let_def at_def new_task_def available_def given_def task_reply_def upt_rec)
  have "co_run ?f ?o c ({} \<union> given r)" by (rule co_run.ask [OF co_run.init a])
  then have "co_run ?f ?o c {(MAP, 0)}" using g by simp
  from coordinator_runs_in_order [OF this, of "\<lambda>_. 0" 0] this show ?thesis by auto
qed

text \<open>C12. From every state that a job with at least one file can reach, one worker is enough to finish
  it: when no open task is with another worker any more, or the time of those that are has run out,
  a worker that asks and submits as many times as there are open tasks leaves the job done.\<close>

theorem worker_finishes_job:
  assumes "co_run files out c H" and "files \<noteq> []" and "all_available clk c"
  shows "\<exists>c'. drain clk now (open_tasks c) c = Some c' \<and> Done c'"
  using drain_done [OF _ assms(3) refl] co_run_ok [OF assms(1,2)] by blast

theorem worker_finishes_job_witness:
  "\<exists>c'. drain (\<lambda>_. 0) 0 (open_tasks (coordinator_create [''a'', ''b''] ''out'')) (coordinator_create [''a'', ''b''] ''out'') = Some c' \<and> Done c'"
proof (rule worker_finishes_job [OF co_run.init])
  show "all_available (\<lambda>_. 0) (coordinator_create [''a'', ''b''] ''out'')"
    by (auto simp: all_available_def ready_iff coordinator_create_def Let_def available_def reduce_tasks.simps new_task_def less_Suc_eq)
qed simp

section \<open>Workers\<close>

text \<open>A call reaches the coordinator once or not at all, and what it answers is known only when the answer arrives.\<close>

lemma rpc_call_cases:
  assumes "rpc_call d cli h s = Some (res, cli', s')"
  shows "s' = s \<and> (\<exists>e. res = Err e) \<or> (\<exists>r. h s = Some (r, s') \<and> (res = Ok r \<or> (\<exists>e. res = Err e)))"
  using assms by (auto simp: rpc_call_def split: if_splits Option.bind_splits)

lemma doSubmit_run:
  assumes "doSubmit d ty i w c = Some (w', c')" "co_run files out c H" "(ty, i) \<in> H"
  shows "co_run files out c' H"
proof -
  obtain res cli where "rpc_call d (wk_mr_client w) (submitTask ty i) c = Some (res, cli, c')"
    using assms(1) by (auto simp: doSubmit_def bind_eq_Some_conv)
  from rpc_call_cases [OF this] show ?thesis using assms(2,3) co_run.submit by auto
qed

lemma doMap_run:
  assumes "doMap env i f w (c, sys) = Some (w', c', sys')" "co_run files out c H" "(MAP, i) \<in> H"
  shows "co_run files out c' H"
  using assms by (auto simp: doMap_def bind_eq_Some_conv split: prod.splits intro: doSubmit_run)

lemma doReduce_run:
  assumes "doReduce srt env i w (c, sys) = Some (w', c', sys')" "co_run files out c H" "(REDUCE, i) \<in> H"
  shows "co_run files out c' H"
  using assms by (auto simp: doReduce_def bind_eq_Some_conv split: prod.splits intro: doSubmit_run)

lemma worker_round_run:
  assumes run: "co_run files out c H" and w: "worker_round srt env w (c, sys) = Some (go, w', (c', sys'))"
  shows "(\<exists>H'. co_run files out c' H') \<and> (\<not> go \<longrightarrow> wk_shouldStop w \<or> Done c)"
proof (cases "wk_shouldStop w")
  case True
  then show ?thesis using w run by (auto simp: worker_round_def)
next
  case False
  then obtain res cli c1 where call: "rpc_call (we_ask env) (wk_mr_client w) (askTask (we_clk env) (we_now env)) c = Some (res, cli, c1)"
    using w by (auto simp: worker_round_def bind_eq_Some_conv)
  note cases = rpc_call_cases [OF call]
  show ?thesis
  proof (cases res)
    case (Err e)
    then have "go \<and> c' = c1" using w False call by (simp add: worker_round_def)
    then show ?thesis using cases run co_run.ask by blast
  next
    case (Ok r)
    then have a: "askTask (we_clk env) (we_now env) c = Some (r, c1)" using cases by auto
    then have r1: "co_run files out c1 (H \<union> given r)" using run co_run.ask by blast
    have no: "Done c" if "at_res r = NoTask"
      using a that by (auto simp: askTask_def Done_def no_reply_def task_reply_def split: if_splits Option.bind_splits option.splits)
    have go: "\<not> go \<longrightarrow> at_res r = NoTask" using w False call Ok by (auto simp: worker_round_def Let_def bind_eq_Some_conv split: ask_res.splits)
    have "co_run files out c' (H \<union> given r)"
    proof (cases "at_res r")
      case MapTask
      then have "(MAP, at_index r) \<in> H \<union> given r" by (simp add: given_def)
      then show ?thesis using w False call Ok MapTask r1 by (auto simp: worker_round_def Let_def bind_eq_Some_conv intro: doMap_run)
    next
      case ReduceTask
      then have "(REDUCE, at_index r) \<in> H \<union> given r" by (simp add: given_def)
      then show ?thesis using w False call Ok ReduceTask r1 by (auto simp: worker_round_def Let_def bind_eq_Some_conv intro: doReduce_run)
    qed (use w False call Ok r1 in \<open>auto simp: worker_round_def Let_def\<close>)
    then show ?thesis using go no by blast
  qed
qed

lemma worker_doWork_run:
  "co_run files out c H \<Longrightarrow> worker_doWork srt envs n w (c, sys) = Some (w', (c', sys')) \<Longrightarrow> \<exists>H'. co_run files out c' H'"
proof (induction n arbitrary: c H w sys)
  case (Suc n)
  then obtain go w1 c1 sys1 where r: "worker_round srt (envs n) w (c, sys) = Some (go, w1, (c1, sys1))"
    "if go then worker_doWork srt envs n w1 (c1, sys1) = Some (w', (c', sys')) else w1 = w' \<and> c1 = c' \<and> sys1 = sys'"
    by (auto simp: bind_eq_Some_conv split: if_splits)
  from worker_round_run [OF Suc.prems(1) r(1)] obtain H' where "co_run files out c1 H'" by blast
  then show ?case using Suc.IH r(2) by (cases go) auto
qed auto

text \<open>C14. Workers keep to the order of the coordinator: whatever the network loses and whatever the file system
  answers, any number of rounds of a worker leaves the coordinator in a state of a run, in which no stage
  was opened early; and a round in which the worker leaves its loop is one in which it was told to stop or the
  job was done before it asked.\<close>

theorem worker_follows_coordinator:
  assumes "co_run files out c H" and "files \<noteq> []"
  shows "(\<forall>n w' c' sys'. worker_doWork srt envs n w (c, sys) = Some (w', (c', sys')) \<longrightarrow> (\<exists>H'. co_run files out c' H') \<and> (Done c' \<longrightarrow> maps_done c' \<and> reduces_done c')) \<and>
    (\<forall>w' c' sys'. worker_round srt (envs 0) w (c, sys) = Some (False, w', (c', sys')) \<longrightarrow> wk_shouldStop w \<or> Done c)"
proof (intro conjI allI impI)
  fix n w' c' sys'
  assume "worker_doWork srt envs n w (c, sys) = Some (w', (c', sys'))"
  from worker_doWork_run [OF assms(1) this] obtain H' where run: "co_run files out c' H'" by blast
  then show "\<exists>H'. co_run files out c' H'" by blast
  assume "Done c'"
  then show "maps_done c'" "reduces_done c'" using co_okD(9) co_run_ok [OF run assms(2)] by (auto simp: Done_def)
qed (use worker_round_run [OF assms(1)] in blast)

text \<open>A second worker that asks while the only task is with the first one is told to wait.\<close>

theorem worker_follows_coordinator_witness:
  "\<forall>sys. \<exists>c w' c' H'. worker_doWork id (\<lambda>_. \<lparr>we_ask = (0, 0), we_clk = (\<lambda>_. 5), we_now = 5, we_read = (\<lambda>_. ((0, 0), (0, 0), (0, 0), \<lambda>_. (0, 0))),
      we_mknode = ((0, 0), 0, 0), we_write = ((0, 0), (0, 0), (\<lambda>_. ((0, 0), 0, 0, [])), \<lambda>_. (0, 0)), we_submit = (0, 0)\<rparr>) 3
      (worker_create ''localhost'' 8080 chfs_client_create) (c, sys) = Some (w', (c', sys)) \<and>
    co_run [''a''] ''out'' c' H' \<and> \<not> Done c'"
proof
  fix sys
  let ?env = "\<lparr>we_ask = (0, 0), we_clk = (\<lambda>_. 5), we_now = 5, we_read = (\<lambda>_. ((0, 0), (0, 0), (0, 0), \<lambda>_. (0, 0))),
      we_mknode = ((0, 0), 0, 0), we_write = ((0, 0), (0, 0), (\<lambda>_. ((0, 0), 0, 0, [])), \<lambda>_. (0, 0)), we_submit = (0, 0)\<rparr> :: work_env"
  let ?w = "worker_create ''localhost'' 8080 chfs_client_create" and ?i = "coordinator_create [''a''] ''out''"
  obtain r c where a: "askTask (\<lambda>_. 0) 1 ?i = Some (r, c)" and c: "askTask (\<lambda>_. 5) 5 c = Some (no_reply Busy, c)" "\<not> Done c"
    by (simp add: askTask_def coordinator_create_def Let_def at_def new_task_def available_def align_def threhold_def Done_def)
  have run: "co_run [''a''] ''out'' c ({} \<union> given r)" by (rule co_run.ask [OF co_run.init a])
  have "\<exists>w'. worker_doWork id (\<lambda>_. ?env) 3 ?w (c, sys) = Some (w', (c, sys))"
    using c(1) by (simp add: numeral_3_eq_3 worker_round_def worker_create_def rpc_client_create_def rpc_call_def no_reply_def)
  moreover have "\<exists>H'. co_run [''a''] ''out'' c H'" using worker_follows_coordinator [OF run, of id "\<lambda>_. ?env" ?w sys] calculation by blast
  ultimately show "\<exists>c w' c' H'. worker_doWork id (\<lambda>_. ?env) 3 ?w (c, sys) = Some (w', (c', sys)) \<and> co_run [''a''] ''out'' c' H' \<and> \<not> Done c'"
    using c(2) by blast
qed

text \<open>A job without files never ends: the stage of the map tasks is left only by a submission, and there
  is no task to submit.\<close>

lemma empty_job_never_ends:
  "co_run [] out c H \<Longrightarrow> c = coordinator_create [] out \<and> H = {} \<and> \<not> Done c"
proof (induction rule: co_run.induct)
  case (ask c H clk "now" r c')
  then show ?case by (auto simp: askTask_def coordinator_create_def Let_def Done_def given_def no_reply_def)
qed (auto simp: coordinator_create_def Done_def Let_def)

end
