(* ===== verification/Fuse_Daemon.thy ===== *)
theory Fuse_Daemon
  imports Metadata_Server
begin

text \<open>
  The daemon of daemons/single\_node\_fs/main.cc: the callbacks that answer the requests of the kernel with the
  operations of the file system, and the start of a session. A callback gives its answer and the new file
  system; an abort of the daemon is the crash value. Offsets are those that the kernel sends, which are not negative. The
  encoding of directory entries by libfuse is an argument, and so is the time of each operation.
\<close>

section \<open>Attributes and answers\<close>

record stat =
  st_mode :: nat
  st_nlink :: nat
  st_atime :: nat
  st_mtime :: nat
  st_ctime :: nat
  st_size :: int

datatype fuse_reply =
    Reply_err int
  | Reply_attr stat
  | Reply_entry nat stat
  | Reply_buf "byte list"
  | Reply_write nat
  | Reply_open

definition S_IFREG :: nat where
  "S_IFREG = 32768"

definition S_IFDIR :: nat where
  "S_IFDIR = 16384"

definition ENOENT :: int where
  "ENOENT = 2"

definition EEXIST :: int where
  "EEXIST = 17"

definition ENOTDIR :: int where
  "ENOTDIR = 20"

definition ENOSYS :: int where
  "ENOSYS = 38"

definition ENOTEMPTY :: int where
  "ENOTEMPTY = 39"

text \<open>The conversion of an unsigned 64-bit number to \<open>off_t\<close>.\<close>

definition to_off_t :: "nat \<Rightarrow> int" where
  "to_off_t n = (if u64 n < 2 ^ 63 then int (u64 n) else int (u64 n) - 2 ^ 64)"

definition getattr_helper :: "inode_type \<Rightarrow> file_attr \<Rightarrow> stat option" where
  "getattr_helper type attr =
     (let st = \<lparr>st_mode = 0, st_nlink = 1, st_atime = atime attr, st_mtime = mtime attr, st_ctime = ctime attr, st_size = to_off_t (fsize attr)\<rparr>
      in case type of
           FILE \<Rightarrow> Some (st\<lparr>st_mode := S_IFREG OR 438\<rparr>)
         | inode_type.Directory \<Rightarrow> Some (st\<lparr>st_mode := S_IFDIR OR 511, st_nlink := st_nlink st + 1\<rparr>)
         | _ \<Rightarrow> None)"

definition chfs_getattr :: "file_operation \<Rightarrow> nat \<Rightarrow> (fuse_reply \<times> file_operation) option" where
  "chfs_getattr fs ino = do {
     attr \<leftarrow> fo_get_type_attr fs ino;
     case attr of
       Err _ \<Rightarrow> Some (Reply_err ENOENT, fs)
     | Ok (type, a) \<Rightarrow> do { st \<leftarrow> getattr_helper type a; Some (Reply_attr st, fs) }
   }"

text \<open>The end of every callback that answers with an entry.\<close>

definition reply_entry :: "file_operation \<Rightarrow> nat \<Rightarrow> (fuse_reply \<times> file_operation) option" where
  "reply_entry fs ino = do {
     attr_res \<leftarrow> fo_get_type_attr fs ino;
     case attr_res of
       Err _ \<Rightarrow> Some (Reply_err (- 1), fs)
     | Ok (type, a) \<Rightarrow> do { st \<leftarrow> getattr_helper type a; Some (Reply_entry ino st, fs) }
   }"

section \<open>Reading a directory\<close>

text \<open>The space that libfuse needs for an entry with a name, and the bytes of the entry with its inode and offset.\<close>

record fuse_lib =
  direntry_size :: "string \<Rightarrow> nat"
  direntry :: "string \<Rightarrow> nat \<Rightarrow> nat \<Rightarrow> byte list"

definition dirbuf_add :: "fuse_lib \<Rightarrow> byte list \<Rightarrow> string \<Rightarrow> nat \<Rightarrow> byte list" where
  "dirbuf_add lib p name ino =
     (let sz = direntry_size lib name; oldsize = length p
      in patch (p @ replicate sz 0) oldsize (direntry lib name ino (oldsize + sz)))"

definition reply_buf_limited :: "byte list \<Rightarrow> nat \<Rightarrow> nat \<Rightarrow> fuse_reply" where
  "reply_buf_limited p off maxsize =
     (if off < length p then Reply_buf (chunk p off (min (length p - off) maxsize)) else Reply_buf [])"

definition chfs_readdir :: "fuse_lib \<Rightarrow> file_operation \<Rightarrow> nat \<Rightarrow> nat \<Rightarrow> nat \<Rightarrow> (fuse_reply \<times> file_operation) option" where
  "chfs_readdir lib fs ino sz off = do {
     type_res \<leftarrow> gettype fs ino;
     type \<leftarrow> unwrap type_res;
     if type \<noteq> inode_type.Directory then Some (Reply_err ENOTDIR, fs)
     else do {
       res \<leftarrow> read_directory fs ino;
       case res of
         Err _ \<Rightarrow> Some (Reply_err (- 1), fs)
       | Ok entries \<Rightarrow> Some (reply_buf_limited (foldl (\<lambda>p e. dirbuf_add lib p (c_str (de_name e)) (de_id e)) [] entries) off sz, fs)
     }
   }"

section \<open>Files\<close>

definition chfs_read :: "file_operation \<Rightarrow> nat \<Rightarrow> nat \<Rightarrow> nat \<Rightarrow> (fuse_reply \<times> file_operation) option" where
  "chfs_read fs ino sz off = do {
     attr_res \<leftarrow> fo_get_type_attr fs ino;
     case attr_res of
       Err _ \<Rightarrow> Some (Reply_err (- 1), fs)
     | Ok (type, a) \<Rightarrow> do {
         st \<leftarrow> getattr_helper type a;
         if st_size st \<le> int off then Some (Reply_buf [], fs)
         else do {
           let read_size = (if st_size st < to_off_t (off + sz) then nat (st_size st - int off) else sz);
           res \<leftarrow> read_file_w_off fs ino read_size off;
           case res of
             Err _ \<Rightarrow> Some (Reply_err (- 1), fs)
           | Ok res_data \<Rightarrow> do { part \<leftarrow> peek res_data 0 read_size; Some (Reply_buf part, fs) }
         }
       }
   }"

definition chfs_write :: "nat \<Rightarrow> file_operation \<Rightarrow> nat \<Rightarrow> byte list \<Rightarrow> nat \<Rightarrow> (fuse_reply \<times> file_operation) option" where
  "chfs_write now fs ino buf off = do {
     (res, fs') \<leftarrow> write_file_w_off now fs ino buf off;
     case res of
       Err e \<Rightarrow>
         if e = OUT_OF_RESOURCE then do {
           free_res \<leftarrow> get_free_blocks_num fs';
           _ \<leftarrow> unwrap free_res;
           Some (Reply_err ENOSYS, fs')
         }
         else None
     | Ok n \<Rightarrow> Some (Reply_write n, fs')
   }"

text \<open>The attributes that the request asks to set are in \<open>to_set\<close>, which the callback does not look at.\<close>

definition chfs_setattr :: "nat \<Rightarrow> file_operation \<Rightarrow> nat \<Rightarrow> nat \<Rightarrow> nat \<Rightarrow> (fuse_reply \<times> file_operation) option" where
  "chfs_setattr now fs ino new_size to_set = do {
     (res, fs') \<leftarrow> resize now fs ino new_size;
     case res of
       Err _ \<Rightarrow> Some (Reply_err ENOSYS, fs')
     | Ok _ \<Rightarrow> do {
         attr_res \<leftarrow> fo_get_type_attr fs' ino;
         case attr_res of
           Err _ \<Rightarrow> Some (Reply_err (- 1), fs')
         | Ok (type, a) \<Rightarrow> do { st \<leftarrow> getattr_helper type a; Some (Reply_attr st, fs') }
       }
   }"

section \<open>Names\<close>

definition chfs_mknod :: "nat \<Rightarrow> nat \<Rightarrow> file_operation \<Rightarrow> nat \<Rightarrow> string \<Rightarrow> (fuse_reply \<times> file_operation) option" where
  "chfs_mknod t1 t2 fs parent name = do {
     (res, fs') \<leftarrow> mkfile t1 t2 fs parent name;
     case res of
       Ok ino \<Rightarrow> reply_entry fs' ino
     | Err e \<Rightarrow> Some (Reply_err (if e = AlreadyExist then EEXIST else ENOENT), fs')
   }"

definition chfs_mkdir :: "nat \<Rightarrow> nat \<Rightarrow> file_operation \<Rightarrow> nat \<Rightarrow> string \<Rightarrow> (fuse_reply \<times> file_operation) option" where
  "chfs_mkdir t1 t2 fs parent name = do {
     (res, fs') \<leftarrow> mkdir t1 t2 fs parent name;
     case res of
       Err e \<Rightarrow> Some (Reply_err (if e = AlreadyExist then EEXIST else ENOSYS), fs')
     | Ok ino \<Rightarrow> reply_entry fs' ino
   }"

definition chfs_unlink :: "nat \<Rightarrow> file_operation \<Rightarrow> nat \<Rightarrow> string \<Rightarrow> (fuse_reply \<times> file_operation) option" where
  "chfs_unlink now fs parent name = do {
     (res, fs') \<leftarrow> unlink now fs parent name;
     case res of
       Err e \<Rightarrow> Some (Reply_err (if e = NotExist then ENOENT else if e = NotEmpty then ENOTEMPTY else ENOSYS), fs')
     | Ok _ \<Rightarrow> Some (Reply_err 0, fs')
   }"

definition chfs_lookup :: "file_operation \<Rightarrow> nat \<Rightarrow> string \<Rightarrow> (fuse_reply \<times> file_operation) option" where
  "chfs_lookup fs parent name = do {
     res \<leftarrow> read_directory fs parent;
     case res of
       Err _ \<Rightarrow> Some (Reply_err (- 1), fs)
     | Ok entries \<Rightarrow> (case find_entry entries name of
         Some entry \<Rightarrow> reply_entry fs (de_id entry)
       | None \<Rightarrow> Some (Reply_err ENOENT, fs))
   }"

section \<open>A session\<close>

definition KBlockSize :: nat where
  "KBlockSize = 1024"

definition kDiskSize :: nat where
  "kDiskSize = 1024 * 1024 * 16"

definition KMaxInodeNum :: nat where
  "KMaxInodeNum = 1024"

text \<open>
  The file system that \<open>bootstrap_fuse\<close> makes before the session begins: on fresh memory, with the root directory as
  inode 1.
\<close>

definition bootstrap_fuse :: "nat \<Rightarrow> byte list \<Rightarrow> super_block \<Rightarrow> file_operation option" where
  "bootstrap_fuse now memory garbage = do {
     bm \<leftarrow> bm_create_memory (kDiskSize div KBlockSize) KBlockSize memory;
     fs \<leftarrow> file_operation_create bm KMaxInodeNum garbage;
     (res, fs') \<leftarrow> alloc_inode now fs inode_type.Directory;
     case res of
       Err _ \<Rightarrow> None
     | Ok i \<Rightarrow> do { chfs_assert (i = 1); Some fs' }
   }"

datatype fuse_request =
    Getattr nat
  | Lookup nat string
  | Readdir nat nat nat
  | Open nat
  | Read nat nat nat
  | Write nat "byte list" nat
  | Setattr nat nat nat
  | Mknod nat string
  | Mkdir nat string
  | Unlink nat string
  | Unimplemented

text \<open>
  The table of callbacks of \<open>main\<close>: \<open>readlink\<close>, \<open>rmdir\<close>, \<open>symlink\<close>, \<open>rename\<close>, \<open>link\<close> and \<open>statfs\<close> abort.
\<close>

fun fuseserver_oper :: "fuse_lib \<Rightarrow> nat \<Rightarrow> nat \<Rightarrow> file_operation \<Rightarrow> fuse_request \<Rightarrow> (fuse_reply \<times> file_operation) option" where
  "fuseserver_oper lib t1 t2 fs (Getattr ino) = chfs_getattr fs ino"
| "fuseserver_oper lib t1 t2 fs (Lookup parent name) = chfs_lookup fs parent name"
| "fuseserver_oper lib t1 t2 fs (Readdir ino sz off) = chfs_readdir lib fs ino sz off"
| "fuseserver_oper lib t1 t2 fs (Open ino) = Some (Reply_open, fs)"
| "fuseserver_oper lib t1 t2 fs (Read ino sz off) = chfs_read fs ino sz off"
| "fuseserver_oper lib t1 t2 fs (Write ino buf off) = chfs_write t1 fs ino buf off"
| "fuseserver_oper lib t1 t2 fs (Setattr ino new_size to_set) = chfs_setattr t1 fs ino new_size to_set"
| "fuseserver_oper lib t1 t2 fs (Mknod parent name) = chfs_mknod t1 t2 fs parent name"
| "fuseserver_oper lib t1 t2 fs (Mkdir parent name) = chfs_mkdir t1 t2 fs parent name"
| "fuseserver_oper lib t1 t2 fs (Unlink parent name) = chfs_unlink t1 fs parent name"
| "fuseserver_oper lib t1 t2 fs Unimplemented = None"

end
