(* ===== verification/Fuse_Correct.thy ===== *)
theory Fuse_Correct
  imports Fuse_Daemon
begin

text \<open>
  The daemon over a session: every request that the kernel may send is answered, and the files stay a tree of
  names below the root, on which the callbacks act as their POSIX namesakes do.
\<close>

section \<open>Types of files\<close>

definition ftype :: "file_operation \<Rightarrow> nat \<Rightarrow> inode_type" where
  "ftype fs i = i_type (file_ino (fo_bm fs) (i - 1))"

lemma in_dom_used: "i \<in> dom (file_map fs) \<longleftrightarrow> 1 \<le> i \<and> i - 1 \<in> inode_used (fo_bm fs) (fo_im fs)"
  by (auto simp: file_map_def split: if_splits)

lemma write_file_types:
  assumes ok: "fs_ok fs" and u: "usable fs i" and now: "now < 2 ^ 64" and w: "write_file now fs i c = Some (r, fs')"
    and j: "j \<in> dom (file_map fs)"
  shows "ftype fs' j = ftype fs j"
proof -
  obtain k where k: "i = Suc k" "k \<in> inode_used (fo_bm fs) (fo_im fs)"
    "Suc k < im_max_inode_supported (fo_im fs) - 1" using u by (rule usable_raw)
  from write_file_ok [OF ok k(2,3) now, of c] w k(1) obtain bm' where fs': "fs' = fs\<lparr>fo_bm := bm'\<rparr>" and
    wc: "case r of
       Ok _ \<Rightarrow> written now fs k c bm'
     | Err e \<Rightarrow> e = OUT_OF_RESOURCE \<and> only_changes (bitmap_area (fo_al fs)) (fo_bm fs) bm' \<and>
         alloc_ok bm' (fo_al fs) \<and> alloc_used (fo_bm fs) (fo_al fs) \<subseteq> alloc_used bm' (fo_al fs) \<and>
         (max_file_sz_supported (file_ino (fo_bm fs) k) < length c \<or>
          alloc_used bm' (fo_al fs) = {..<bm_block_cnt (fo_bm fs)})" by auto
  have u: "j - 1 \<in> inode_used (fo_bm fs) (fo_im fs)" using j by (simp add: in_dom_used)
  show ?thesis
  proof (cases r)
    case (Ok x)
    with wc have "written now fs k c bm'" by simp
    from written_fs_ok(5,6) [OF ok k(2) this] u show ?thesis unfolding ftype_def fs' by (cases "j - 1 = k") auto
  next
    case (Err e)
    with wc bitmap_growth(3) [OF ok, of bm' "j - 1"] u show ?thesis by (simp add: ftype_def fs')
  qed
qed

lemma alloc_inode_types:
  assumes ok: "fs_ok fs" and t: "type_ok type" and now: "now < 2 ^ 64" and a: "alloc_inode now fs type = Some (r, fs')"
  shows "j \<in> dom (file_map fs) \<Longrightarrow> ftype fs' j = ftype fs j" "r = Ok i \<Longrightarrow> ftype fs' i = type"
proof -
  have frame: "\<forall>j. j + 1 \<in> dom (file_map fs) \<longrightarrow> file_ino (fo_bm fs') j = file_ino (fo_bm fs) j"
    using alloc_inode_map [OF ok t now] a by (cases r) simp_all
  show "ftype fs' j = ftype fs j" if "j \<in> dom (file_map fs)"
  proof -
    have "j - 1 + 1 = j" using that by (simp add: in_dom_used)
    then show ?thesis using frame [rule_format, of "j - 1"] that by (simp add: ftype_def)
  qed
  show "r = Ok i \<Longrightarrow> ftype fs' i = type" using alloc_inode_map [OF ok t now] a by (simp add: ftype_def)
qed

lemma remove_file_types:
  assumes "fs_ok fs" "usable fs i" "direct_only fs i" "remove_file fs i = Some (r, fs')" "j \<in> dom (file_map fs')"
  shows "ftype fs' j = ftype fs j"
proof -
  have "j - 1 + 1 = j" using assms(5) by (auto simp: in_dom_used)
  then show ?thesis using remove_file_map [OF assms(1-3)] assms(4,5) by (auto simp: ftype_def)
qed

section \<open>Trees\<close>

text \<open>
  The files as contents \<open>m\<close> and types \<open>ty\<close>: the entries of a directory, and that the directories below the root give every
  file at most one name and only to files that exist.
\<close>

definition entries_of :: "(nat \<Rightarrow> byte list option) \<Rightarrow> nat \<Rightarrow> directory_entry list" where
  "entries_of m d = parse_directory (str_of_bytes (the (m d)))"

definition is_dir :: "(nat \<Rightarrow> byte list option) \<Rightarrow> (nat \<Rightarrow> inode_type) \<Rightarrow> nat \<Rightarrow> bool" where
  "is_dir m ty d \<longleftrightarrow> d \<in> dom m \<and> ty d = inode_type.Directory"

definition dir_text :: "directory_entry list \<Rightarrow> byte list" where
  "dir_text es = bytes_of_str (dir_list_to_string es)"

definition tree_inv :: "(nat \<Rightarrow> byte list option) \<Rightarrow> (nat \<Rightarrow> inode_type) \<Rightarrow> bool" where
  "tree_inv m ty \<longleftrightarrow> is_dir m ty 1 \<and> (\<forall>i \<in> dom m. ty i = FILE \<or> ty i = inode_type.Directory) \<and>
     (\<forall>d. is_dir m ty d \<longrightarrow> list_all entry_ok (entries_of m d) \<and> distinct (map de_name (entries_of m d)) \<and> m d = Some (dir_text (entries_of m d))) \<and>
     (\<forall>d e. is_dir m ty d \<longrightarrow> e \<in> set (entries_of m d) \<longrightarrow> de_id e \<in> dom m \<and> de_id e \<noteq> 1 \<and> de_id e \<noteq> d) \<and>
     (\<forall>d d' e e'. is_dir m ty d \<longrightarrow> is_dir m ty d' \<longrightarrow> e \<in> set (entries_of m d) \<longrightarrow> e' \<in> set (entries_of m d') \<longrightarrow> de_id e = de_id e' \<longrightarrow> d = d' \<and> e = e')"

lemma tree_invD:
  assumes "tree_inv m ty"
  shows "is_dir m ty 1" "i \<in> dom m \<Longrightarrow> ty i = FILE \<or> ty i = inode_type.Directory"
    "is_dir m ty d \<Longrightarrow> list_all entry_ok (entries_of m d)" "is_dir m ty d \<Longrightarrow> distinct (map de_name (entries_of m d))"
    "is_dir m ty d \<Longrightarrow> m d = Some (dir_text (entries_of m d))"
    "is_dir m ty d \<Longrightarrow> e \<in> set (entries_of m d) \<Longrightarrow> de_id e \<in> dom m \<and> de_id e \<noteq> 1 \<and> de_id e \<noteq> d"
    "is_dir m ty d \<Longrightarrow> is_dir m ty d' \<Longrightarrow> e \<in> set (entries_of m d) \<Longrightarrow> e' \<in> set (entries_of m d') \<Longrightarrow> de_id e = de_id e' \<Longrightarrow> d = d' \<and> e = e'"
  using assms unfolding tree_inv_def by blast+

lemma entries_of_text: "m d = Some (dir_text es) \<Longrightarrow> list_all entry_ok es \<Longrightarrow> entries_of m d = es"
  by (simp add: entries_of_def dir_text_def parse_directory_to_string)

lemma entries_of_upd: "entries_of (m(i \<mapsto> c)) d = (if d = i then parse_directory (str_of_bytes c) else entries_of m d)"
  "entries_of (m(i := None)) d = (if d = i then parse_directory (str_of_bytes (the None)) else entries_of m d)"
  by (simp_all add: entries_of_def)

lemma dir_text_Nil: "dir_text [] = []" "parse_directory (str_of_bytes []) = []"
  by (simp_all add: dir_text_def dir_list_to_string_def bytes_of_str_def str_of_bytes_def parse_directory_def)

lemma parse_dir_text [simp]: "list_all entry_ok es \<Longrightarrow> parse_directory (str_of_bytes (dir_text es)) = es"
  by (simp add: dir_text_def parse_directory_to_string)

lemma tree_inv_types: "tree_inv m ty \<Longrightarrow> (\<And>i. i \<in> dom m \<Longrightarrow> ty' i = ty i) \<Longrightarrow> tree_inv m ty'"
proof -
  assume t: "tree_inv m ty" and ty: "\<And>i. i \<in> dom m \<Longrightarrow> ty' i = ty i"
  have "is_dir m ty' d = is_dir m ty d" for d using ty [of d] by (cases "d \<in> dom m") (simp_all add: is_dir_def)
  then show ?thesis using t ty unfolding tree_inv_def by simp
qed

text \<open>It is enough to give the entries of every directory.\<close>

lemma tree_invI:
  assumes "is_dir m ty 1" "\<And>i. i \<in> dom m \<Longrightarrow> ty i = FILE \<or> ty i = inode_type.Directory"
    and E: "\<And>d. is_dir m ty d \<Longrightarrow> m d = Some (dir_text (E d)) \<and> list_all entry_ok (E d) \<and> distinct (map de_name (E d))"
    and "\<And>d e. is_dir m ty d \<Longrightarrow> e \<in> set (E d) \<Longrightarrow> de_id e \<in> dom m \<and> de_id e \<noteq> 1 \<and> de_id e \<noteq> d"
    and "\<And>d d' e e'. is_dir m ty d \<Longrightarrow> is_dir m ty d' \<Longrightarrow> e \<in> set (E d) \<Longrightarrow> e' \<in> set (E d') \<Longrightarrow> de_id e = de_id e' \<Longrightarrow> d = d' \<and> e = e'"
  shows "tree_inv m ty"
proof -
  have e: "entries_of m d = E d" if "is_dir m ty d" for d using E [OF that] entries_of_text by blast
  show ?thesis unfolding tree_inv_def
  proof (intro conjI allI impI ballI)
    fix d assume d: "is_dir m ty d"
    show "list_all entry_ok (entries_of m d)" "distinct (map de_name (entries_of m d))" "m d = Some (dir_text (entries_of m d))"
      unfolding e [OF d] using E [OF d] by simp_all
    fix x assume "x \<in> set (entries_of m d)"
    then show "de_id x \<in> dom m" "de_id x \<noteq> 1" "de_id x \<noteq> d" using assms(4) [OF d] unfolding e [OF d] by blast+
  next
    fix d d' x x'
    assume d: "is_dir m ty d" "is_dir m ty d'" and x: "x \<in> set (entries_of m d)" "x' \<in> set (entries_of m d')" "de_id x = de_id x'"
    show "d = d'" "x = x'" using assms(5) [OF d] x unfolding e [OF d(1)] e [OF d(2)] by blast+
  qed (use assms(1,2) in auto)
qed

text \<open>Writing a regular file.\<close>

lemma tree_write:
  assumes t: "tree_inv m ty" and i: "i \<in> dom m" "ty i \<noteq> inode_type.Directory"
  shows "tree_inv (m(i \<mapsto> c)) ty"
proof -
  note T = tree_invD [OF t]
  have dm: "dom (m(i \<mapsto> c)) = dom m" using i(1) by auto
  have d: "is_dir (m(i \<mapsto> c)) ty d = is_dir m ty d" for d by (simp only: is_dir_def dm)
  have ne: "d \<noteq> i" if "is_dir m ty d" for d using that i(2) by (auto simp: is_dir_def)
  show ?thesis
  proof (rule tree_invI [where E = "entries_of m"], unfold d dm)
    show "is_dir m ty 1" by (rule T(1))
    show "(m(i \<mapsto> c)) x = Some (dir_text (entries_of m x)) \<and> list_all entry_ok (entries_of m x) \<and> distinct (map de_name (entries_of m x))" if "is_dir m ty x" for x
      using T(3-5) [OF that] ne [OF that] by simp
  qed (use T(2,6,7) in blast)+
qed

text \<open>A new file without a name.\<close>

lemma tree_orphan:
  assumes t: "tree_inv m ty" and new: "m i = None" and ty: "ty i = FILE \<or> ty i = inode_type.Directory"
  shows "tree_inv (m(i \<mapsto> [])) ty"
proof -
  note T = tree_invD [OF t]
  let ?m = "m(i \<mapsto> [])" and ?E = "(entries_of m)(i := [])"
  have dm: "dom ?m = insert i (dom m)" by auto
  have d: "is_dir m ty x" if "is_dir ?m ty x" "x \<noteq> i" for x using that by (simp add: is_dir_def)
  have E: "x \<noteq> i \<and> is_dir m ty x \<and> y \<in> set (entries_of m x)" if "is_dir ?m ty x" "y \<in> set (?E x)" for x y
    using that d by (cases "x = i") auto
  show ?thesis
  proof (rule tree_invI [where E = ?E])
    show "is_dir ?m ty 1" using T(1) by (simp add: is_dir_def)
    show "ty j = FILE \<or> ty j = inode_type.Directory" if "j \<in> dom ?m" for j using that T(2) ty unfolding dm by blast
    show "?m x = Some (dir_text (?E x)) \<and> list_all entry_ok (?E x) \<and> distinct (map de_name (?E x))" if "is_dir ?m ty x" for x
      using T(3-5) [OF d [OF that]] by (cases "x = i") (simp_all add: dir_text_Nil)
    show "de_id y \<in> dom ?m \<and> de_id y \<noteq> 1 \<and> de_id y \<noteq> x" if "is_dir ?m ty x" "y \<in> set (?E x)" for x y
      using E [OF that] T(6) unfolding dm by blast
    show "x = x' \<and> y = y'" if "is_dir ?m ty x" "is_dir ?m ty x'" "y \<in> set (?E x)" "y' \<in> set (?E x')" "de_id y = de_id y'" for x x' y y'
      using E [OF that(1,3)] E [OF that(2,4)] T(7) that(5) by blast
  qed
qed


text \<open>A name for a file that has none, and the removal of a file with its name.\<close>

lemma tree_name:
  assumes t: "tree_inv m ty" and p: "is_dir m ty p" and e: "entry_ok e" "de_name e \<notin> de_name ` set (entries_of m p)"
    and id: "de_id e \<in> dom m" "de_id e \<noteq> 1" "de_id e \<noteq> p"
    and fresh: "\<And>d y. is_dir m ty d \<Longrightarrow> y \<in> set (entries_of m d) \<Longrightarrow> de_id y \<noteq> de_id e"
  shows "tree_inv (m(p \<mapsto> dir_text (entries_of m p @ [e]))) ty"
proof -
  note T = tree_invD [OF t]
  let ?m = "m(p \<mapsto> dir_text (entries_of m p @ [e]))" and ?E = "(entries_of m)(p := entries_of m p @ [e])"
  have dm: "dom ?m = dom m" using p by (auto simp: is_dir_def)
  have d: "is_dir ?m ty x = is_dir m ty x" for x by (simp only: is_dir_def dm)
  have E: "y \<in> set (entries_of m x) \<or> x = p \<and> y = e" if "y \<in> set (?E x)" for x y
    using that by (cases "x = p") auto
  show ?thesis
  proof (rule tree_invI [where E = ?E], unfold d dm)
    show "is_dir m ty 1" by (rule T(1))
    show "?m x = Some (dir_text (?E x)) \<and> list_all entry_ok (?E x) \<and> distinct (map de_name (?E x))" if "is_dir m ty x" for x
      using T(3-5) [OF that] e by (cases "x = p") simp_all
    show "de_id y \<in> dom m \<and> de_id y \<noteq> 1 \<and> de_id y \<noteq> x" if "is_dir m ty x" "y \<in> set (?E x)" for x y
      using E [OF that(2)] T(6) [OF that(1)] id by blast
    show "x = x' \<and> y = y'" if "is_dir m ty x" "is_dir m ty x'" "y \<in> set (?E x)" "y' \<in> set (?E x')" "de_id y = de_id y'" for x x' y y'
      using E [OF that(3)] E [OF that(4)] T(7) [OF that(1,2)] fresh that(1,2,5) by metis
  qed (use T(2) in blast)
qed

lemma tree_remove:
  assumes t: "tree_inv m ty" and p: "is_dir m ty p" and e: "e \<in> set (entries_of m p)"
  shows "tree_inv (m(de_id e := None, p \<mapsto> dir_text (filter (\<lambda>y. de_id y \<noteq> de_id e) (entries_of m p)))) ty"
proof -
  note T = tree_invD [OF t]
  let ?f = "de_id e" and ?es = "filter (\<lambda>y. de_id y \<noteq> de_id e) (entries_of m p)"
  let ?m = "m(?f := None, p \<mapsto> dir_text ?es)" and ?E = "(entries_of m)(p := ?es)"
  have f: "?f \<noteq> 1" "?f \<noteq> p" using T(6) [OF p e] by simp_all
  have dm: "dom ?m = dom m - {?f}" using p f(2) by (auto simp: is_dir_def)
  have d: "is_dir ?m ty x \<longleftrightarrow> is_dir m ty x \<and> x \<noteq> ?f" for x by (auto simp: is_dir_def dm simp del: dom_fun_upd)
  have E: "y \<in> set (entries_of m x) \<and> de_id y \<noteq> ?f" if "is_dir m ty x" "y \<in> set (?E x)" for x y
  proof (cases "x = p")
    case False
    then show ?thesis using that(2) T(7) [OF that(1) p _ e] by auto
  qed (use that(2) in simp)
  show ?thesis
  proof (rule tree_invI [where E = ?E], unfold d dm)
    show "is_dir m ty 1 \<and> 1 \<noteq> ?f" using T(1) f(1) by simp
    show "ty i = FILE \<or> ty i = inode_type.Directory" if "i \<in> dom m - {?f}" for i using T(2) that by blast
    show "?m x = Some (dir_text (?E x)) \<and> list_all entry_ok (?E x) \<and> distinct (map de_name (?E x))" if "is_dir m ty x \<and> x \<noteq> ?f" for x
    proof (cases "x = p")
      case True
      then show ?thesis using T(3,4) [OF p] by (simp add: list_all_iff distinct_map_filter)
    qed (use T(3-5) [of x] that in simp)
    show "de_id y \<in> dom m - {?f} \<and> de_id y \<noteq> 1 \<and> de_id y \<noteq> x" if "is_dir m ty x \<and> x \<noteq> ?f" "y \<in> set (?E x)" for x y
      using E that T(6) by blast
    show "x = x' \<and> y = y'" if "is_dir m ty x \<and> x \<noteq> ?f" "is_dir m ty x' \<and> x' \<noteq> ?f" "y \<in> set (?E x)" "y' \<in> set (?E x')" "de_id y = de_id y'" for x x' y y'
      using E that T(7) by blast
  qed
qed

section \<open>The file system as a tree\<close>

definition tree_ok :: "file_operation \<Rightarrow> bool" where
  "tree_ok fs \<longleftrightarrow> fs_ok fs \<and> usable fs 1 \<and> tree_inv (file_map fs) (ftype fs)"

definition directory :: "file_operation \<Rightarrow> nat \<Rightarrow> bool" where
  "directory fs d \<longleftrightarrow> usable fs d \<and> ftype fs d = inode_type.Directory"

lemma directory_is_dir: "directory fs d \<Longrightarrow> is_dir (file_map fs) (ftype fs) d"
  by (simp add: directory_def is_dir_def usable_def)

lemma entries_of_fs: "entries_of (file_map fs) d = dir_entries fs d"
  by (simp add: entries_of_def dir_entries_def)

lemma tree_dir_ok: "tree_ok fs \<Longrightarrow> directory fs d \<Longrightarrow> dir_ok fs d"
  using tree_invD(3-5) [of "file_map fs" "ftype fs" d] directory_is_dir [of fs d]
  by (simp add: tree_ok_def dir_ok_def directory_def entries_of_fs dir_text_def)

text \<open>Attributes of the files of a tree.\<close>

lemma to_off_t_id: "n < 2 ^ 63 \<Longrightarrow> to_off_t n = int n"
  by (simp add: to_off_t_def u64_def)

lemma usable_size: "fs_ok fs \<Longrightarrow> usable fs i \<Longrightarrow> length (the (file_map fs i)) < 2 ^ 63"
  using length_file_content(2) [of fs] by (auto elim!: usable_raw)

definition stat_of :: "file_operation \<Rightarrow> nat \<Rightarrow> stat" where
  "stat_of fs i = (let a = i_attr (file_ino (fo_bm fs) (i - 1)); dir = (ftype fs i = inode_type.Directory)
     in \<lparr>st_mode = (if dir then S_IFDIR OR 511 else S_IFREG OR 438), st_nlink = (if dir then 2 else 1), st_atime = atime a, st_mtime = mtime a,
       st_ctime = ctime a, st_size = int (length (the (file_map fs i)))\<rparr>)"

lemma getattr_tree:
  assumes t: "tree_ok fs" and u: "usable fs i"
  shows "\<exists>a. fo_get_type_attr fs i = Some (Ok (ftype fs i, a)) \<and> getattr_helper (ftype fs i) a = Some (stat_of fs i)"
proof -
  have ok: "fs_ok fs" using t by (simp add: tree_ok_def)
  have "ftype fs i = FILE \<or> ftype fs i = inode_type.Directory"
    using t u tree_invD(2) [of "file_map fs" "ftype fs" i] by (simp add: tree_ok_def usable_def)
  then have "getattr_helper (ftype fs i) (i_attr (file_ino (fo_bm fs) (i - 1))) = Some (stat_of fs i)"
    using getattr_ok(4) [OF ok u] to_off_t_id [OF usable_size [OF ok u]]
    by (elim disjE) (simp_all add: getattr_helper_def stat_of_def Let_def)
  then show ?thesis using getattr_ok(3) [OF ok u] by (simp add: ftype_def)
qed

lemma unusable_attr:
  assumes "fs_ok fs" "i \<in> dom (file_map fs)" "\<not> usable fs i"
  shows "fo_get_type_attr fs i = Some (Err INVALID_ARG)"
proof -
  have "im_max_inode_supported (fo_im fs) - 1 \<le> i" using assms(2,3) by (auto simp: usable_def)
  from read_inode_invalid(1) [OF fs_okD(1) [OF assms(1)] this] show ?thesis by (simp add: fo_get_type_attr_def get_type_attr_def)
qed


lemma reply_entry_ok:
  assumes "tree_ok fs" "i \<in> dom (file_map fs)"
  shows "reply_entry fs i = Some (if usable fs i then Reply_entry i (stat_of fs i) else Reply_err (- 1), fs)"
  using assms getattr_tree [of fs i] unusable_attr [of fs i] by (auto simp: reply_entry_def tree_ok_def)

text \<open>What the callbacks that write a file leave.\<close>

lemma tree_after_write:
  assumes t: "tree_ok fs" and i: "usable fs i" "ftype fs i \<noteq> inode_type.Directory" and now: "now < 2 ^ 64"
    and w: "fs' = fs \<or> (\<exists>c r. write_file now fs i c = Some (r, fs'))"
  shows "tree_ok fs' \<and> (\<forall>j. usable fs' j = usable fs j) \<and> (\<forall>j \<in> dom (file_map fs). ftype fs' j = ftype fs j)"
  using w
proof (elim disjE exE)
  fix c r
  assume w: "write_file now fs i c = Some (r, fs')"
  have ok: "fs_ok fs" and tr: "tree_inv (file_map fs) (ftype fs)" using t by (simp_all add: tree_ok_def)
  from write_file_map [OF ok i(1) now, of c] w have r: "fs_ok fs'" "fo_im fs' = fo_im fs"
    "file_map fs' = file_map fs \<or> file_map fs' = (file_map fs)(i \<mapsto> c)" by (cases r; simp)+
  have u: "usable fs' j = usable fs j" for j using usable_write [OF r(2) i(1) r(3)] .
  have ty: "ftype fs' j = ftype fs j" if "j \<in> dom (file_map fs)" for j using write_file_types [OF ok i(1) now w that] .
  have d: "i \<in> dom (file_map fs)" using i(1) by (simp add: usable_def)
  then have dm: "dom (file_map fs') = dom (file_map fs)" using r(3) by (auto split: if_splits)
  have "tree_inv (file_map fs') (ftype fs)" using r(3) tr tree_write [OF tr d i(2)] by auto
  then have "tree_inv (file_map fs') (ftype fs')" by (rule tree_inv_types) (simp add: ty dm)
  then show ?thesis using r(1) u ty t by (simp add: tree_ok_def)
qed (use t in simp)

lemma mk_helper_types:
  assumes ok: "fs_ok fs" and u: "usable fs p" and t: "type_ok type" and tm: "t1 < 2 ^ 64" "t2 < 2 ^ 64"
    and mk: "mk_helper t1 t2 fs p name type = Some (r, fs')"
  shows "(\<forall>j \<in> dom (file_map fs). ftype fs' j = ftype fs j) \<and> (\<forall>n \<in> dom (file_map fs') - dom (file_map fs). ftype fs' n = type)"
proof (cases "find_entry (dir_entries fs p) name")
  case (Some e)
  then show ?thesis using mk read_directory_ok [OF ok u] by (simp add: mk_helper_def)
next
  case None
  obtain ra fs1 where a1: "alloc_inode t1 fs type = Some (ra, fs1)" using alloc_inode_map [OF ok t tm(1)] by blast
  have a: "alloc_inode t1 fs type = Some (ra, fs1)" "fs_ok fs1" "fo_im fs1 = fo_im fs" using alloc_inode_map [OF ok t tm(1)] a1 by auto
  have am: "ra = Ok i \<Longrightarrow> file_map fs1 = (file_map fs)(i \<mapsto> [])" "ra = Err e \<Longrightarrow> file_map fs1 = file_map fs" for i e
    using alloc_inode_map [OF ok t tm(1)] a1 by auto
  note ty = alloc_inode_types [OF ok t tm(1) a(1)]
  show ?thesis
  proof (cases ra)
    case (Err e)
    then show ?thesis using mk None a am(2) [OF Err] ty(1) read_directory_ok [OF ok u] by (auto simp: mk_helper_def)
  next
    case (Ok i)
    have m1: "file_map fs1 = (file_map fs)(i \<mapsto> [])" using am(1) Ok by simp
    obtain c r' where w: "write_file t2 fs1 p c = Some (r', fs')"
      using mk None a(1) Ok read_directory_ok [OF ok u] by (auto simp: mk_helper_def Let_def bind_eq_Some_conv case_result_eq)
    have u1: "usable fs1 p" using u a(3) m1 by (auto simp: usable_def)
    have ty1: "ftype fs' j = ftype fs1 j" if "j \<in> dom (file_map fs1)" for j using write_file_types [OF a(2) u1 tm(2) w that] .
    have "dom (file_map fs') = dom (file_map fs1)"
      using write_file_map [OF a(2) u1 tm(2), of c] w u1 by (cases r') (auto simp: usable_def)
    then have "dom (file_map fs') - dom (file_map fs) \<subseteq> {i}" "i \<in> dom (file_map fs1)" using m1 by auto
    moreover have "ftype fs1 i = type" using ty(2) Ok by simp
    moreover have "ftype fs' j = ftype fs j" if "j \<in> dom (file_map fs)" for j using ty1 [of j] ty(1) [of j] that m1 by simp
    ultimately show ?thesis using ty1 by blast
  qed
qed

lemma mk_helper_tree:
  assumes t: "tree_ok fs" and p: "directory fs p" and n: "clean_name name" and ty: "type = FILE \<or> type = inode_type.Directory"
    and tm: "t1 < 2 ^ 64" "t2 < 2 ^ 64"
  shows "\<exists>r fs'. mk_helper t1 t2 fs p name type = Some (r, fs') \<and> tree_ok fs' \<and>
    (if name \<in> de_name ` set (dir_entries fs p) then r = Err AlreadyExist \<and> fs' = fs
     else case r of
       Ok i \<Rightarrow> made_entry fs p name i fs' \<and> ftype fs' i = type
     | Err e \<Rightarrow> e = OUT_OF_RESOURCE \<and> (file_map fs' = file_map fs \<or> (\<exists>i. file_map fs i = None \<and> file_map fs' = (file_map fs)(i \<mapsto> []))))"
proof (cases "find_entry (dir_entries fs p) name")
  case (Some e)
  have u: "fs_ok fs" "usable fs p" using t p by (simp_all add: tree_ok_def directory_def)
  then show ?thesis using t Some find_entry_Some [OF Some] read_directory_ok [OF u] by (auto simp: mk_helper_def)
next
  case None
  have ok: "fs_ok fs" and tr: "tree_inv (file_map fs) (ftype fs)" and u: "usable fs p" using t p by (simp_all add: tree_ok_def directory_def)
  have tk: "type_ok type" using ty by auto
  note T = tree_invD [OF tr] and d = directory_is_dir [OF p]
  from mk_helper_map [OF ok tree_dir_ok [OF t p] n tk tm None] obtain r fs' where
    mk: "mk_helper t1 t2 fs p name type = Some (r, fs')" "fs_ok fs'" "fo_im fs' = fo_im fs"
    and c: "case r of
       Ok new_id \<Rightarrow> made_entry fs p name new_id fs'
     | Err e \<Rightarrow> e = OUT_OF_RESOURCE \<and> (file_map fs' = file_map fs \<or>
         (\<exists>new_id. file_map fs new_id = None \<and> file_map fs' = (file_map fs)(new_id \<mapsto> [])))" by blast
  note types = mk_helper_types [OF ok u tk tm mk(1)]
  have new: "name \<notin> de_name ` set (dir_entries fs p)" using None by (simp add: find_entry_None)
  have orphan: "tree_inv ((file_map fs)(i \<mapsto> [])) ((ftype fs)(i := type))" if "file_map fs i = None" for i
    by (rule tree_orphan [OF tree_inv_types [OF tr]]) (use that ty in auto)
  have "tree_inv (file_map fs') (ftype fs')"
  proof (cases r)
    case (Err e)
    then consider "file_map fs' = file_map fs" | i where "file_map fs i = None" "file_map fs' = (file_map fs)(i \<mapsto> [])" using c by auto
    then show ?thesis
    proof cases
      case 1
      then show ?thesis using tree_inv_types [OF tr, of "ftype fs'"] types by simp
    next
      case 2
      show ?thesis unfolding 2(2) by (rule tree_inv_types [OF orphan [OF 2(1)]]) (use types 2 in auto)
    qed
  next
    case (Ok i)
    let ?e = "\<lparr>de_name = name, de_id = i\<rparr>" and ?m = "(file_map fs)(i \<mapsto> [])" and ?ty = "(ftype fs)(i := type)"
    from c Ok have m: "file_map fs i = None" "dir_ok fs' p" "dir_entries fs' p = dir_entries fs p @ [?e]"
      "file_map fs' = ?m(p \<mapsto> dir_text (dir_entries fs p @ [?e]))" by (simp_all add: made_entry_def Let_def dir_text_def)
    have pi: "p \<noteq> i" "i \<noteq> 1" using m(1) d T(1) by (auto simp: is_dir_def)
    have e: "entries_of ?m p = dir_entries fs p" using pi by (simp add: entries_of_upd entries_of_fs)
    have fr: "de_id y \<noteq> i" if "is_dir ?m ?ty x" "y \<in> set (entries_of ?m x)" for x y
    proof (cases "x = i")
      case True
      then show ?thesis using that(2) by (simp add: entries_of_upd dir_text_Nil)
    next
      case False
      then have "is_dir (file_map fs) (ftype fs) x" "y \<in> set (entries_of (file_map fs) x)" using that by (simp_all add: is_dir_def entries_of_upd)
      then show ?thesis using T(6) m(1) by auto
    qed
    have "tree_inv (?m(p \<mapsto> dir_text (entries_of ?m p @ [?e]))) ?ty"
    proof (rule tree_name [OF orphan [OF m(1)]])
      show "is_dir ?m ?ty p" using d pi(1) by (simp add: is_dir_def)
      show "entry_ok ?e" using m(2,3) by (simp add: dir_ok_def)
    qed (use new pi fr e in auto)
    then have "tree_inv (file_map fs') ?ty" using m(4) e by simp
    moreover have "ftype fs' x = ?ty x" if "x \<in> dom (file_map fs')" for x
    proof (cases "x = i")
      case True
      then have "x \<in> dom (file_map fs') - dom (file_map fs)" using that m(1) by auto
      then show ?thesis using types True by simp
    next
      case False
      then have "x \<in> dom (file_map fs)" using that m(4) d by (auto simp: is_dir_def split: if_splits)
      then show ?thesis using types False by simp
    qed
    ultimately show ?thesis by (rule tree_inv_types)
  qed
  moreover have "usable fs' 1" using t mk(3) c by (cases r) (auto simp: tree_ok_def usable_def made_entry_def Let_def)
  moreover have "ftype fs' i = type" if "r = Ok i" for i using that c types by (auto simp: made_entry_def Let_def)
  ultimately show ?thesis using mk new c by (cases r) (auto simp: tree_ok_def)
qed


lemma unlink_types:
  assumes ok: "fs_ok fs" and u: "usable fs p" and now: "now < 2 ^ 64" and e: "find_entry (dir_entries fs p) name = Some e"
    and f: "usable fs (de_id e)" "direct_only fs (de_id e)" "de_id e \<noteq> p" and un: "unlink now fs p name = Some (r, fs')"
    and j: "j \<in> dom (file_map fs)" "j \<noteq> de_id e"
  shows "ftype fs' j = ftype fs j"
proof -
  from remove_file_map [OF ok f(1,2)] obtain fs1 where r: "remove_file fs (de_id e) = Some (KNullOk, fs1)" "fs_ok fs1" "fo_im fs1 = fo_im fs"
    "file_map fs1 = (file_map fs)(de_id e := None)" by blast
  then have j1: "j \<in> dom (file_map fs1)" using j by simp
  have u1: "usable fs1 p" using u r(3,4) f(3) by (simp add: usable_def)
  obtain c where w: "write_file now fs1 p c = Some (r, fs')"
    using un e r(1) read_directory_ok [OF ok u] lookup_ok [OF ok u, of name] by (auto simp: unlink_def)
  show ?thesis using write_file_types [OF r(2) u1 now w j1] remove_file_types [OF ok f(1,2) r(1) j1] by simp
qed

lemma unlink_tree:
  assumes t: "tree_ok fs" and p: "directory fs p" and now: "now < 2 ^ 64"
    and small: "\<And>e. find_entry (dir_entries fs p) name = Some e \<Longrightarrow> usable fs (de_id e) \<and> direct_only fs (de_id e)"
  shows "\<exists>r fs'. unlink now fs p name = Some (r, fs') \<and> tree_ok fs' \<and>
    (case find_entry (dir_entries fs p) name of
       None \<Rightarrow> r = Err NotExist \<and> fs' = fs
     | Some e \<Rightarrow> r = KNullOk \<and> removed_entry fs p (de_id e) fs')"
proof -
  have ok: "fs_ok fs" and tr: "tree_inv (file_map fs) (ftype fs)" and u: "usable fs p" and u1: "usable fs 1"
    using t p by (simp_all add: tree_ok_def directory_def)
  show ?thesis
  proof (cases "find_entry (dir_entries fs p) name")
    case None
    then show ?thesis using t read_directory_ok [OF ok u] lookup_ok [OF ok u, of name] by (simp add: unlink_def)
  next
    case (Some e)
    have d: "is_dir (file_map fs) (ftype fs) p" using directory_is_dir [OF p] .
    have e: "e \<in> set (entries_of (file_map fs) p)" using find_entry_Some [OF Some] by (simp add: entries_of_fs)
    note f = tree_invD(6) [OF tr d e] and s = small [OF Some]
    from unlink_map [OF ok tree_dir_ok [OF t p] now Some] s f obtain fs' where
      un: "unlink now fs p name = Some (KNullOk, fs')" "fs_ok fs'" "fo_im fs' = fo_im fs" "removed_entry fs p (de_id e) fs'" by blast
    have m: "file_map fs' = (file_map fs)(de_id e := None, p \<mapsto> dir_text (filter (\<lambda>y. de_id y \<noteq> de_id e) (entries_of (file_map fs) p)))"
      using un(4) by (simp add: removed_entry_def Let_def dir_text_def entries_of_fs)
    have "tree_inv (file_map fs') (ftype fs')" unfolding m
    proof (rule tree_inv_types [OF tree_remove [OF tr d e]])
      fix x
      assume "x \<in> dom ((file_map fs)(de_id e := None, p \<mapsto> dir_text (filter (\<lambda>y. de_id y \<noteq> de_id e) (entries_of (file_map fs) p))))"
      then have "x \<in> dom (file_map fs)" "x \<noteq> de_id e" using d f by (auto simp: is_dir_def split: if_splits)
      then show "ftype fs' x = ftype fs x" using unlink_types [OF ok u now Some _ _ _ un(1)] s f by blast
    qed
    moreover have "usable fs' 1" using u1 un(3) m f by (auto simp: usable_def)
    ultimately show ?thesis using un Some by (simp add: tree_ok_def)
  qed
qed


section \<open>The start of a session\<close>

definition fuse_disk :: "byte list \<Rightarrow> block_manager" where
  "fuse_disk memory = \<lparr>bm_block_sz = KBlockSize, bm_block_cnt = kDiskSize div KBlockSize, bm_in_memory = True, bm_maybe_failed = False,
     bm_write_fail_cnt = 0, bm_block_data = memory\<rparr>"

lemma fuse_disk_ok:
  assumes "length memory = kDiskSize"
  shows "bm_create_memory (kDiskSize div KBlockSize) KBlockSize memory = Some (fuse_disk memory)" "can_format (fuse_disk memory) KMaxInodeNum"
  using assms by (simp_all add: bm_create_memory_def fuse_disk_def KBlockSize_def kDiskSize_def KMaxInodeNum_def u64_def can_format_def can_hold_inodes_def
      bm_ok_def fresh_inode_manager_def Let_def ceil_div_def bitmap_blocks_def)

lemma fuse_layout:
  "im_max_inode_supported (fresh_inode_manager (fuse_disk memory) KMaxInodeNum) = 8192"
  "al_bitmap_block_id (snd (fresh_layout (fuse_disk memory) KMaxInodeNum)) + al_bitmap_block_cnt (snd (fresh_layout (fuse_disk memory) KMaxInodeNum)) < 100"
  "bm_block_sz (fuse_disk memory) = 1024" "bm_block_cnt (fuse_disk memory) = 16384"
  by (simp_all add: fresh_layout_def fresh_allocator_def fuse_disk_def KBlockSize_def kDiskSize_def KMaxInodeNum_def fresh_inode_manager_def Let_def
      ceil_div_def bitmap_blocks_def)


lemma bootstrap_ok:
  assumes "length memory = kDiskSize" "super_block_ok garbage" "now < 2 ^ 64"
  shows "\<exists>fs f. bootstrap_fuse now memory garbage = Some fs \<and> tree_ok fs \<and> file_map fs = [1 \<mapsto> []] \<and> directory fs 1 \<and>
    bm_block_sz (fo_bm fs) = 1024 \<and> get_free_blocks_num fs = Some (Ok f) \<and> 100 \<le> f \<and> get_free_inode_num fs = Some (Ok 8191) \<and>
    im_max_inode_supported (fo_im fs) = 8192"
proof -
  let ?d = "fuse_disk memory"
  note disk = fuse_disk_ok [OF assms(1)]
  from file_operation_create_ok [OF disk(2) assms(2)] obtain fs where
    fs: "file_operation_create ?d KMaxInodeNum garbage = Some fs" "fs_ok fs"
      "fo_im fs = fresh_inode_manager ?d KMaxInodeNum" "fo_al fs = snd (fresh_layout ?d KMaxInodeNum)"
      "alloc_used (fo_bm fs) (fo_al fs) = reserved (fo_al fs)" "inode_used (fo_bm fs) (fo_im fs) = {}"
      "only_changes UNIV ?d (fo_bm fs)" "file_map fs = Map.empty" by blast
  have cnt: "bm_block_cnt (fo_bm fs) = 16384" "bm_block_sz (fo_bm fs) = 1024" using only_changes_fields(1,2) [OF fs(7)] by (simp_all add: fuse_layout)
  have im: "im_max_inode_supported (fo_im fs) = 8192" by (simp add: fs(3) fuse_layout)
  obtain f where free: "get_free_blocks_num fs = Some (Ok (Suc f))" "100 \<le> f"
  proof -
    let ?N = "al_bitmap_block_id (fo_al fs) + al_bitmap_block_cnt (fo_al fs)"
    have n: "?N < 100" using fuse_layout(2) [of memory] by (simp add: fs(4))
    then have "{..<16384} - {..<?N} = {?N..<16384}" by auto
    then have "get_free_blocks_num fs = Some (Ok (16384 - ?N))"
      using free_block_cnt_ok [OF fs_okD(2) [OF fs(2)]] cnt(1) by (simp add: get_free_blocks_num_def fs(5) reserved_def)
    then show thesis using n that [of "16383 - ?N"] by (simp add: Suc_diff_le)
  qed
  have fi: "get_free_inode_num fs = Some (Ok (Suc 8191))" using free_inode_cnt_ok [OF fs_okD(1) [OF fs(2)]] fs(6) im by (simp add: get_free_inode_num_def)
  from alloc_inode_free [OF fs(2) _ assms(3) free(1) fi, of inode_type.Directory] fs(6) cnt(2) obtain k fs' where
    a: "alloc_inode now fs inode_type.Directory = Some (Ok (Suc k), fs')" "get_free_blocks_num fs' = Some (Ok f)"
      "get_free_inode_num fs' = Some (Ok 8191)" "bm_block_sz (fo_bm fs') = 1024" "k = 0" by auto
  from alloc_inode_map [OF fs(2), of inode_type.Directory "now"] a(1,5) assms(3) fs(8) have
    m: "fs_ok fs'" "file_map fs' = [1 \<mapsto> []]" "ftype fs' 1 = inode_type.Directory" "fo_im fs' = fo_im fs" by (simp_all add: ftype_def)
  have u: "usable fs' 1" using m(2,4) im by (simp add: usable_def)
  have "tree_inv (file_map fs') (ftype fs')"
    by (rule tree_invI [where E = "\<lambda>_. []"]) (use m(2,3) in \<open>auto simp: is_dir_def dir_text_Nil split: if_splits\<close>)
  then show ?thesis using disk(1) fs(1) a m u im free(2) by (simp add: bootstrap_fuse_def tree_ok_def directory_def)
qed

section \<open>Requests\<close>

text \<open>
  The requests that the kernel sends: for inodes that the daemon has answered with, names without a separator in
  directories, contents and sizes for regular files only. The daemon itself is the reason for two more conditions: names must
  not have a colon, and a file that is removed must not use its indirect block.
\<close>

fun valid_request :: "file_operation \<Rightarrow> fuse_request \<Rightarrow> bool" where
  "valid_request fs (Getattr ino) = usable fs ino"
| "valid_request fs (Lookup parent name) = directory fs parent"
| "valid_request fs (Readdir ino sz off) = usable fs ino"
| "valid_request fs (Open ino) = usable fs ino"
| "valid_request fs (Read ino sz off) = (usable fs ino \<and> off + sz < 2 ^ 63)"
| "valid_request fs (Write ino buf off) = (usable fs ino \<and> ftype fs ino = FILE \<and> off + length buf < 2 ^ 63)"
| "valid_request fs (Setattr ino n to_set) = (usable fs ino \<and> ftype fs ino = FILE)"
| "valid_request fs (Mknod parent name) = (directory fs parent \<and> clean_name name)"
| "valid_request fs (Mkdir parent name) = (directory fs parent \<and> clean_name name)"
| "valid_request fs (Unlink parent name) = (directory fs parent \<and>
     (case find_entry (dir_entries fs parent) name of None \<Rightarrow> True | Some e \<Rightarrow> usable fs (de_id e) \<and> direct_only fs (de_id e)))"
| "valid_request fs Unimplemented = False"

lemma read_ok:
  assumes t: "tree_ok fs" and u: "usable fs i" and b: "off + sz < 2 ^ 63"
  shows "chfs_read fs i sz off = Some (Reply_buf (chunk (the (file_map fs i)) off sz), fs)"
proof -
  let ?c = "the (file_map fs i)"
  have ok: "fs_ok fs" using t by (simp add: tree_ok_def)
  obtain a where a: "fo_get_type_attr fs i = Some (Ok (ftype fs i, a))" "getattr_helper (ftype fs i) a = Some (stat_of fs i)"
    using getattr_tree [OF t u] by blast
  have st: "st_size (stat_of fs i) = int (length ?c)" by (simp add: stat_of_def Let_def)
  show ?thesis
  proof (cases "length ?c \<le> off")
    case True
    then show ?thesis using a st by (simp add: chfs_read_def chunk_def)
  next
    case False
    let ?n = "if length ?c < off + sz then length ?c - off else sz"
    have c: "chunk ?c off ?n = chunk ?c off sz" "length (chunk ?c off ?n) = ?n" using False by (auto simp: chunk_def)
    have "read_file_w_off fs i ?n off = Some (Ok (chunk ?c off ?n))"
      using read_file_map [OF ok u] False by (simp add: read_file_w_off_def peek_def)
    moreover have "peek (chunk ?c off ?n) 0 ?n = Some (chunk ?c off ?n)" using c(2) by (simp add: peek_def chunk_def)
    moreover have "nat (int (length ?c) - int off) = length ?c - off" by arith
    ultimately show ?thesis using a st False c(1) c(2) [unfolded c(1)] to_off_t_id [OF b]
      by (cases "length ?c < off + sz") (simp_all add: chfs_read_def Let_def peek_def)
  qed
qed

lemma free_blocks_known: "fs_ok fs \<Longrightarrow> \<exists>n. get_free_blocks_num fs = Some (Ok n)"
  using free_block_cnt_ok [OF fs_okD(2)] by (auto simp: get_free_blocks_num_def)

lemma write_ok:
  assumes t: "tree_ok fs" and u: "usable fs i" "ftype fs i = FILE" and b: "off + length buf < 2 ^ 63" and now: "now < 2 ^ 64"
  shows "\<exists>r fs'. chfs_write now fs i buf off = Some (r, fs') \<and> tree_ok fs' \<and> (\<forall>j. usable fs' j = usable fs j) \<and>
    (r = Reply_write (length buf) \<and> file_map fs' = (file_map fs)(i \<mapsto> overwrite (the (file_map fs i)) off buf) \<or> r = Reply_err ENOSYS \<and> file_map fs' = file_map fs)"
proof -
  have ok: "fs_ok fs" using t by (simp add: tree_ok_def)
  obtain c where c: "file_map fs i = Some c" using u(1) by (auto simp: usable_def)
  from write_file_w_off_map [OF ok u(1) now _ c, of off buf] b obtain r fs' where
    w: "write_file_w_off now fs i buf off = Some (r, fs')" "fs_ok fs'"
      "case r of Ok n \<Rightarrow> n = length buf \<and> file_map fs' = (file_map fs)(i \<mapsto> overwrite c off buf) | Err e \<Rightarrow> e = OUT_OF_RESOURCE \<and> file_map fs' = file_map fs"
    by auto
  note k = tree_after_write [OF t u(1) _ now write_file_w_off_cases [OF w(1)]]
  from free_blocks_known [OF w(2)] obtain n where "get_free_blocks_num fs' = Some (Ok n)" by blast
  then show ?thesis using w(1,3) k c u(2) by (cases r) (simp_all add: chfs_write_def)
qed

lemma setattr_ok:
  assumes t: "tree_ok fs" and u: "usable fs i" "ftype fs i = FILE" and now: "now < 2 ^ 64"
  shows "\<exists>r fs'. chfs_setattr now fs i n to_set = Some (r, fs') \<and> tree_ok fs' \<and> (\<forall>j. usable fs' j = usable fs j) \<and>
    (r = Reply_attr (stat_of fs' i) \<and> file_map fs' = (file_map fs)(i \<mapsto> take n (the (file_map fs i)) @ replicate (n - length (the (file_map fs i))) 0) \<or>
     r = Reply_err ENOSYS \<and> file_map fs' = file_map fs)"
proof -
  have ok: "fs_ok fs" using t by (simp add: tree_ok_def)
  obtain c where c: "file_map fs i = Some c" using u(1) by (auto simp: usable_def)
  from resize_correct [OF ok u(1) now c, of n] obtain r fs' where
    w: "resize now fs i n = Some (r, fs')"
      "case r of Ok attr \<Rightarrow> fsize attr = n \<and> file_map fs' = (file_map fs)(i \<mapsto> take n c @ replicate (n - length c) 0)
       | Err e \<Rightarrow> e = OUT_OF_RESOURCE \<and> file_map fs' = file_map fs \<and> no_room fs i n fs'" by blast
  note k = tree_after_write [OF t u(1) _ now resize_cases [OF w(1)]]
  then have k': "tree_ok fs'" "usable fs' i" using u by simp_all
  from getattr_tree [OF k'] w k c u(2) show ?thesis by (cases r) (auto simp: chfs_setattr_def)
qed

lemma mk_helper_answer:
  assumes "tree_ok fs" "directory fs p" "clean_name name" "type = FILE \<or> type = inode_type.Directory" "t1 < 2 ^ 64" "t2 < 2 ^ 64"
  shows "\<exists>r fs'. mk_helper t1 t2 fs p name type = Some (r, fs') \<and> tree_ok fs' \<and> (\<forall>i. r = Ok i \<longrightarrow> i \<in> dom (file_map fs'))"
proof -
  from mk_helper_tree [OF assms] obtain r fs' where "mk_helper t1 t2 fs p name type = Some (r, fs')" "tree_ok fs'"
    and c: "if name \<in> de_name ` set (dir_entries fs p) then r = Err AlreadyExist \<and> fs' = fs
     else case r of
       Ok i \<Rightarrow> made_entry fs p name i fs' \<and> ftype fs' i = type
     | Err e \<Rightarrow> e = OUT_OF_RESOURCE \<and> (file_map fs' = file_map fs \<or> (\<exists>i. file_map fs i = None \<and> file_map fs' = (file_map fs)(i \<mapsto> [])))" by blast
  moreover have "i \<in> dom (file_map fs')" if "r = Ok i" for i using c that by (auto simp: made_entry_def Let_def split: if_splits)
  ultimately show ?thesis by blast
qed

lemma request_answered:
  assumes t: "tree_ok fs" and v: "valid_request fs req" and tm: "t1 < 2 ^ 64" "t2 < 2 ^ 64"
  shows "\<exists>r fs'. fuseserver_oper lib t1 t2 fs req = Some (r, fs') \<and> tree_ok fs'"
proof (cases req)
  case (Getattr i)
  then show ?thesis using t v getattr_tree [of fs i] by (auto simp: chfs_getattr_def)
next
  case (Lookup p n)
  then have p: "directory fs p" "fs_ok fs" "usable fs p" using t v by (simp_all add: tree_ok_def directory_def)
  have "de_id e \<in> dom (file_map fs)" if "find_entry (dir_entries fs p) n = Some e" for e
    using t that tree_invD(6) [OF _ directory_is_dir [OF p(1)], of e] find_entry_Some [OF that] by (simp add: tree_ok_def entries_of_fs)
  then show ?thesis using t Lookup read_directory_ok [OF p(2,3)] reply_entry_ok [OF t]
    by (cases "find_entry (dir_entries fs p) n") (simp_all add: chfs_lookup_def)
next
  case (Readdir i sz off)
  then have "fs_ok fs" "usable fs i" using t v by (simp_all add: tree_ok_def)
  then show ?thesis using t Readdir getattr_ok(2) [of fs i] read_directory_ok [of fs i] by (auto simp: chfs_readdir_def)
next
  case (Read i sz off)
  then show ?thesis using t v read_ok by simp
next
  case (Write i buf off)
  then show ?thesis using t v write_ok [of fs i off buf t1] tm by auto
next
  case (Setattr i n to_set)
  then show ?thesis using t v setattr_ok [of fs i t1 n to_set] tm by auto
next
  case (Mknod p n)
  then have "directory fs p" "clean_name n" using v by simp_all
  from mk_helper_answer [OF t this _ tm, of FILE] obtain r fs' where "mk_helper t1 t2 fs p n FILE = Some (r, fs')" "tree_ok fs'"
    "\<forall>i. r = Ok i \<longrightarrow> i \<in> dom (file_map fs')" by blast
  then show ?thesis using Mknod reply_entry_ok [of fs'] by (cases r) (simp_all add: chfs_mknod_def mkfile_def)
next
  case (Mkdir p n)
  then have "directory fs p" "clean_name n" using v by simp_all
  from mk_helper_answer [OF t this _ tm, of inode_type.Directory] obtain r fs' where "mk_helper t1 t2 fs p n inode_type.Directory = Some (r, fs')" "tree_ok fs'"
    "\<forall>i. r = Ok i \<longrightarrow> i \<in> dom (file_map fs')" by blast
  then show ?thesis using Mkdir reply_entry_ok [of fs'] by (cases r) (simp_all add: chfs_mkdir_def mkdir_def)
next
  case (Unlink p n)
  then have u: "directory fs p" "\<And>e. find_entry (dir_entries fs p) n = Some e \<Longrightarrow> usable fs (de_id e) \<and> direct_only fs (de_id e)" using v by simp_all
  from unlink_tree [OF t u(1) tm(1) u(2), of n] obtain r fs' where "unlink t1 fs p n = Some (r, fs')" "tree_ok fs'" by blast
  then show ?thesis using Unlink by (cases r) (simp_all add: chfs_unlink_def)
qed (use t v in auto)

end
