(* ===== verification/Fuse_Session.thy ===== *)
theory Fuse_Session
  imports Fuse_Correct
begin

text \<open>
  Sessions of the daemon: the states that a run of valid requests reaches from the start, and what a client of the
  mounted file system sees in them.
\<close>

inductive fuse_session :: "file_operation \<Rightarrow> bool" where
  start: "length memory = kDiskSize \<Longrightarrow> super_block_ok garbage \<Longrightarrow> now < 2 ^ 64 \<Longrightarrow> bootstrap_fuse now memory garbage = Some fs \<Longrightarrow> fuse_session fs"
| request: "fuse_session fs \<Longrightarrow> valid_request fs req \<Longrightarrow> t1 < 2 ^ 64 \<Longrightarrow> t2 < 2 ^ 64 \<Longrightarrow> fuseserver_oper lib t1 t2 fs req = Some (r, fs') \<Longrightarrow> fuse_session fs'"

lemma session_tree: "fuse_session fs \<Longrightarrow> tree_ok fs"
proof (induction rule: fuse_session.induct)
  case (start memory garbage "now" fs)
  then show ?case using bootstrap_ok [of memory garbage "now"] by auto
next
  case (request fs req t1 t2 lib r fs')
  then show ?case using request_answered [of fs req t1 t2 lib] by auto
qed

text \<open>A name that is looked up.\<close>

lemma lookup_answer:
  assumes t: "tree_ok fs" and p: "directory fs p"
  shows "chfs_lookup fs p n = Some (case find_entry (dir_entries fs p) n of
      None \<Rightarrow> Reply_err ENOENT
    | Some e \<Rightarrow> if usable fs (de_id e) then Reply_entry (de_id e) (stat_of fs (de_id e)) else Reply_err (- 1), fs)"
proof -
  have u: "fs_ok fs" "usable fs p" using t p by (simp_all add: tree_ok_def directory_def)
  have "de_id e \<in> dom (file_map fs)" if "find_entry (dir_entries fs p) n = Some e" for e
    using t tree_invD(6) [OF _ directory_is_dir [OF p], of e] find_entry_Some [OF that] by (simp add: tree_ok_def entries_of_fs)
  then show ?thesis using read_directory_ok [OF u] reply_entry_ok [OF t] by (cases "find_entry (dir_entries fs p) n") (simp_all add: chfs_lookup_def)
qed

lemma empty_direct_only: "fs_ok fs \<Longrightarrow> usable fs i \<Longrightarrow> file_map fs i = Some [] \<Longrightarrow> direct_only fs i"
  using usable_inode_ok(2) [of fs i] getattr_ok(4) [of fs i] by (simp add: file_n_def ceil_div_def)


text \<open>The answer to \<open>mknod\<close>, and a new name that is removed again.\<close>

lemma mknod_answer:
  assumes t: "tree_ok fs" and p: "directory fs p" and n: "clean_name n" and tm: "t1 < 2 ^ 64" "t2 < 2 ^ 64"
  shows "\<exists>r fs'. chfs_mknod t1 t2 fs p n = Some (r, fs') \<and> tree_ok fs' \<and>
    (if n \<in> de_name ` set (dir_entries fs p) then r = Reply_err EEXIST \<and> fs' = fs
     else r = Reply_err ENOENT \<or> (\<exists>i. made_entry fs p n i fs' \<and> ftype fs' i = FILE \<and> r = (if usable fs' i then Reply_entry i (stat_of fs' i) else Reply_err (- 1))))"
proof -
  from mk_helper_tree [OF t p n _ tm, of FILE] obtain r fs' where mk: "mk_helper t1 t2 fs p n FILE = Some (r, fs')" "tree_ok fs'"
    and c: "if n \<in> de_name ` set (dir_entries fs p) then r = Err AlreadyExist \<and> fs' = fs
     else case r of
       Ok i \<Rightarrow> made_entry fs p n i fs' \<and> ftype fs' i = FILE
     | Err e \<Rightarrow> e = OUT_OF_RESOURCE \<and> (file_map fs' = file_map fs \<or> (\<exists>i. file_map fs i = None \<and> file_map fs' = (file_map fs)(i \<mapsto> [])))" by auto
  show ?thesis
  proof (cases r)
    case (Err e)
    then show ?thesis using mk c by (auto simp: chfs_mknod_def mkfile_def split: if_splits)
  next
    case (Ok i)
    with c have i: "n \<notin> de_name ` set (dir_entries fs p)" "made_entry fs p n i fs'" "ftype fs' i = FILE" by (auto split: if_splits)
    then have "i \<in> dom (file_map fs')" by (simp add: made_entry_def Let_def)
    then show ?thesis using mk i Ok reply_entry_ok [OF mk(2)] by (auto simp: chfs_mknod_def mkfile_def)
  qed
qed

lemma mknod_keeps_directory:
  assumes t: "tree_ok fs" and p: "directory fs p" and tm: "t1 < 2 ^ 64" "t2 < 2 ^ 64" and mk: "chfs_mknod t1 t2 fs p n = Some (r, fs')"
    and m: "made_entry fs p n i fs'"
  shows "directory fs' p"
proof -
  have ok: "fs_ok fs" "usable fs p" using t p by (simp_all add: tree_ok_def directory_def)
  obtain r' where mk': "mk_helper t1 t2 fs p n FILE = Some (r', fs')"
    using mk by (auto simp: chfs_mknod_def mkfile_def reply_entry_def bind_eq_Some_conv case_result_eq split: prod.splits)
  have "ftype fs' p = ftype fs p" using mk_helper_types [OF ok _ tm mk'] ok(2) by (simp add: usable_def)
  then show ?thesis using p m by (simp add: directory_def made_entry_def Let_def dir_ok_def)
qed

lemma new_name_unlinks:
  assumes t: "tree_ok fs" and p: "directory fs p" and n: "n \<notin> de_name ` set (dir_entries fs p)" and now: "now < 2 ^ 64"
    and t': "tree_ok fs'" and p': "directory fs' p" and m: "made_entry fs p n i fs'" and u: "usable fs' i"
  shows "find_entry (dir_entries fs' p) n = Some \<lparr>de_name = n, de_id = i\<rparr>" "file_map fs' i = Some []" "valid_request fs' (Unlink p n)"
    "\<exists>fs''. chfs_unlink now fs' p n = Some (Reply_err 0, fs'') \<and> chfs_lookup fs'' p n = Some (Reply_err ENOENT, fs'') \<and> (\<forall>x. lookup fs'' p x = lookup fs p x)"
proof -
  let ?e = "\<lparr>de_name = n, de_id = i\<rparr>"
  have ok: "fs_ok fs" "usable fs p" "fs_ok fs'" "usable fs' p" using t p t' p' by (simp_all add: tree_ok_def directory_def)
  from m have M: "file_map fs i = None" "dir_ok fs' p" "dir_entries fs' p = dir_entries fs p @ [?e]"
    "file_map fs' = (file_map fs)(i \<mapsto> [], p \<mapsto> bytes_of_str (dir_list_to_string (dir_entries fs p @ [?e])))" by (simp_all add: made_entry_def Let_def)
  have ne: "i \<noteq> p" using M(1) ok(2) by (auto simp: usable_def)
  have none: "find_entry (dir_entries fs p) n = None" using n by (simp add: find_entry_None)
  then show f: "find_entry (dir_entries fs' p) n = Some ?e" by (simp add: M(3) find_entry_snoc)
  show fm: "file_map fs' i = Some []" using M(4) ne by simp
  note d = empty_direct_only [OF ok(3) u fm]
  show "valid_request fs' (Unlink p n)" using p' f u d by simp
  from unlink_tree [OF t' p' now, of n] f u d obtain fs'' where un: "unlink now fs' p n = Some (KNullOk, fs'')" "tree_ok fs''" "removed_entry fs' p i fs''" by auto
  have "de_id y \<noteq> i" if "y \<in> set (dir_entries fs p)" for y
    using t tree_invD(6) [OF _ directory_is_dir [OF p], of y] that M(1) by (auto simp: tree_ok_def entries_of_fs)
  then have "filter (\<lambda>y. de_id y \<noteq> i) (dir_entries fs' p) = dir_entries fs p" by (simp add: M(3) filter_id_conv)
  then have es: "dir_entries fs'' p = dir_entries fs p" "dir_ok fs'' p" using un(3) by (simp_all add: removed_entry_def Let_def)
  have ok'': "fs_ok fs''" "usable fs'' p" using un(2) es(2) by (simp_all add: tree_ok_def dir_ok_def)
  have "chfs_lookup fs'' p n = Some (Reply_err ENOENT, fs'')" using read_directory_ok [OF ok''] none es(1) by (simp add: chfs_lookup_def)
  moreover have "lookup fs'' p x = lookup fs p x" for x using lookup_ok [OF ok'', of x] lookup_ok [OF ok(1,2), of x] es(1) by simp
  ultimately show "\<exists>fs''. chfs_unlink now fs' p n = Some (Reply_err 0, fs'') \<and> chfs_lookup fs'' p n = Some (Reply_err ENOENT, fs'') \<and> (\<forall>x. lookup fs'' p x = lookup fs p x)"
    using un(1) by (auto simp: chfs_unlink_def)
qed

section \<open>A session with a file\<close>

lemma fuse_max_size:
  assumes "fs_ok fs" "usable fs i" "bm_block_sz (fo_bm fs) = 1024"
  shows "1024 \<le> max_file_sz_supported (file_ino (fo_bm fs) (i - 1))"
proof -
  note o = usable_inode_ok [OF assms(1,2)]
  have n: "i_nblocks (file_ino (fo_bm fs) (i - 1)) = 122" using o(1) assms(3) by (simp add: inode_ok_def)
  show ?thesis using max_file_sz_ok(1) [OF o(1)] assms(3) n by (simp add: max_blocks_def)
qed

lemma first_file:
  "\<exists>fs i st fs'. fuse_session fs \<and> directory fs 1 \<and> dir_entries fs 1 = [] \<and> chfs_mknod 8 9 fs 1 ''f'' = Some (Reply_entry i st, fs') \<and> fuse_session fs' \<and> usable fs' i \<and>
    ftype fs' i = FILE \<and> file_map fs' i = Some []"
proof -
  let ?mem = "replicate kDiskSize 0"
  have now: "(7 :: nat) < 2 ^ 64" "(8 :: nat) < 2 ^ 64" "(9 :: nat) < 2 ^ 64" by simp_all
  have mem: "length ?mem = kDiskSize" by (rule length_replicate)
  from bootstrap_ok [OF mem demo_disk_ok(2) now(1)] obtain fs f where
    b: "bootstrap_fuse 7 ?mem demo_garbage = Some fs" "tree_ok fs" "file_map fs = [1 \<mapsto> []]" "directory fs 1" "bm_block_sz (fo_bm fs) = 1024"
      "get_free_blocks_num fs = Some (Ok f)" "100 \<le> f" "get_free_inode_num fs = Some (Ok (Suc 8190))" "im_max_inode_supported (fo_im fs) = 8192" by auto
  have s: "fuse_session fs" by (rule fuse_session.start [OF mem demo_disk_ok(2) now(1) b(1)])
  have ok: "fs_ok fs" "usable fs 1" using b(2,4) by (simp_all add: tree_ok_def directory_def)
  have es: "dir_entries fs 1 = []" using empty_dir_ok(2) [OF ok(2)] b(3) by simp
  have f: "get_free_blocks_num fs = Some (Ok (Suc (f - 1)))" using b(6,7) by simp
  have "inode_used (fo_bm fs) (fo_im fs) = {0}" using in_dom_used [of "Suc j" fs for j] b(3) by auto
  with alloc_inode_free [OF ok(1) _ now(2) f b(8), of FILE] b(5) obtain k fs1 where
    a: "alloc_inode 8 fs FILE = Some (Ok (Suc k), fs1)" "get_free_blocks_num fs1 = Some (Ok (f - 1))" "bm_block_sz (fo_bm fs1) = 1024" "Suc k \<le> 2" by auto
  from alloc_inode_map [OF ok(1), of FILE 8] a(1) have m: "fs_ok fs1" "fo_im fs1 = fo_im fs" "file_map fs (Suc k) = None"
    "file_map fs1 = (file_map fs)(Suc k \<mapsto> [])" by auto
  have u1: "usable fs1 1" using ok(2) m(2,4) by (auto simp: usable_def)
  let ?es = "[\<lparr>de_name = ''f'', de_id = Suc k\<rparr>]"
  have "length (inode_id_to_string (Suc k)) = 1" using a(4) by (simp add: inode_id_to_string.simps)
  then have len: "length (bytes_of_str (dir_list_to_string ?es)) = 3" by (simp add: dir_list_to_string_def)
  have max: "length (bytes_of_str (dir_list_to_string ?es)) \<le> max_file_sz_supported (file_ino (fo_bm fs1) (1 - 1))"
    using fuse_max_size [OF m(1) u1 a(3)] unfolding len by linarith
  have need: "blocks_needed fs1 1 (length (bytes_of_str (dir_list_to_string ?es))) \<le> f - 1"
    using b(7) unfolding len by (simp add: blocks_needed_def a(3) ceil_div_def missing_indirect_def) linarith
  from write_file_succeeds [OF m(1) u1 now(3) max a(2) need] obtain fs' where
    "write_file 9 fs1 1 (bytes_of_str (dir_list_to_string ?es)) = Some (KNullOk, fs')" by blast
  then have mk: "mk_helper 8 9 fs 1 ''f'' FILE = Some (Ok (Suc k), fs')"
    using read_directory_ok [OF ok] es a(1) by (simp add: mk_helper_def find_entry_def)
  have c: "clean_name ''f''" by (simp add: clean_name_def)
  from mk_helper_tree [OF b(2,4) c _ now(2,3), of FILE] mk es have
    t: "tree_ok fs'" "made_entry fs 1 ''f'' (Suc k) fs'" "ftype fs' (Suc k) = FILE" by simp_all
  have ne: "Suc k \<noteq> 1" using m(3) b(3) by (auto split: if_splits)
  have im: "fo_im fs' = fo_im fs" using mk_helper_map [OF ok(1) tree_dir_ok [OF b(2,4)] c _ now(2,3), of FILE] mk es by (simp add: find_entry_def)
  have fm: "file_map fs' (Suc k) = Some []" using t(2) ne by (simp add: made_entry_def Let_def)
  then have u: "usable fs' (Suc k)" using im b(9) a(4) by (auto simp: usable_def)
  have mk': "chfs_mknod 8 9 fs 1 ''f'' = Some (Reply_entry (Suc k) (stat_of fs' (Suc k)), fs')"
    using mk reply_entry_ok [OF t(1), of "Suc k"] u by (simp add: chfs_mknod_def mkfile_def usable_def)
  have "fuse_session fs'"
    by (rule fuse_session.request [OF s, of "Mknod 1 ''f''" 8 9 undefined]) (use b(4) c mk' now in simp_all)
  then show ?thesis using s b(4) es mk' u t(3) fm by blast
qed

text \<open>No request changes the type of a file.\<close>

lemma unlink_keeps_types:
  assumes t: "tree_ok fs" and p: "directory fs p" and now: "now < 2 ^ 64" and un: "unlink now fs p n = Some (r, fs')"
    and small: "\<And>e. find_entry (dir_entries fs p) n = Some e \<Longrightarrow> usable fs (de_id e) \<and> direct_only fs (de_id e)"
    and j: "j \<in> dom (file_map fs)" "j \<in> dom (file_map fs')"
  shows "ftype fs' j = ftype fs j"
proof (cases "find_entry (dir_entries fs p) n")
  case None
  then show ?thesis using unlink_tree [OF t p now, of n] un by auto
next
  case (Some e)
  have ok: "fs_ok fs" "usable fs p" using t p by (simp_all add: tree_ok_def directory_def)
  have e: "de_id e \<noteq> p" using t tree_invD(6) [OF _ directory_is_dir [OF p], of e] find_entry_Some [OF Some] by (simp add: tree_ok_def entries_of_fs)
  from unlink_tree [OF t p now, of n] small un Some have "removed_entry fs p (de_id e) fs'" by auto
  then have "file_map fs' (de_id e) = None" using e by (simp add: removed_entry_def Let_def)
  then have "j \<noteq> de_id e" using j(2) by auto
  then show ?thesis using unlink_types [OF ok now Some _ _ e un j(1)] small [OF Some] by blast
qed

lemma request_types:
  assumes t: "tree_ok fs" and v: "valid_request fs req" and tm: "t1 < 2 ^ 64" "t2 < 2 ^ 64" and op: "fuseserver_oper lib t1 t2 fs req = Some (r, fs')"
    and j: "j \<in> dom (file_map fs)" "j \<in> dom (file_map fs')"
  shows "ftype fs' j = ftype fs j"
proof -
  have ok: "fs_ok fs" using t by (simp add: tree_ok_def)
  have mk: "ftype fs' j = ftype fs j" if "usable fs p" "mk_helper t1 t2 fs p n ty = Some (x, fs')" "ty = FILE \<or> ty = inode_type.Directory" for p n ty x
    using mk_helper_types [OF ok that(1) _ tm that(2)] that(3) j(1) by (metis type_ok.simps(2-4))
  have re: "fs2 = fs1" if "reply_entry fs1 i = Some (x, fs2)" for fs1 fs2 i x
    using that by (auto simp: reply_entry_def bind_eq_Some_conv case_result_eq split: prod.splits)
  show ?thesis
  proof (cases req)
    case (Write i buf off)
    then have u: "usable fs i" "ftype fs i \<noteq> inode_type.Directory" using v by simp_all
    from Write op obtain x where "write_file_w_off t1 fs i buf off = Some (x, fs')"
      by (auto simp: chfs_write_def bind_eq_Some_conv case_result_eq split: prod.splits if_splits)
    from tree_after_write [OF t u tm(1) write_file_w_off_cases [OF this]] j(1) show ?thesis by blast
  next
    case (Setattr i n to_set)
    then have u: "usable fs i" "ftype fs i \<noteq> inode_type.Directory" using v by simp_all
    from Setattr op obtain x where "resize t1 fs i n = Some (x, fs')"
      by (auto simp: chfs_setattr_def bind_eq_Some_conv case_result_eq split: prod.splits if_splits)
    from tree_after_write [OF t u tm(1) resize_cases [OF this]] j(1) show ?thesis by blast
  next
    case (Mknod p n)
    with op obtain x where "mk_helper t1 t2 fs p n FILE = Some (x, fs')"
      by (auto simp: chfs_mknod_def mkfile_def bind_eq_Some_conv case_result_eq dest!: re split: prod.splits)
    then show ?thesis by (rule mk [rotated]) (use v Mknod in \<open>simp_all add: directory_def\<close>)
  next
    case (Mkdir p n)
    with op obtain x where "mk_helper t1 t2 fs p n inode_type.Directory = Some (x, fs')"
      by (auto simp: chfs_mkdir_def mkdir_def bind_eq_Some_conv case_result_eq dest!: re split: prod.splits)
    then show ?thesis by (rule mk [rotated]) (use v Mkdir in \<open>simp_all add: directory_def\<close>)
  next
    case (Unlink p n)
    with op obtain x where "unlink t1 fs p n = Some (x, fs')"
      by (auto simp: chfs_unlink_def bind_eq_Some_conv case_result_eq split: prod.splits)
    then show ?thesis by (rule unlink_keeps_types [OF t _ tm(1) _ _ j, rotated]) (use v Unlink in simp_all)
  next
    case (Getattr i)
    then show ?thesis using op by (auto simp: chfs_getattr_def bind_eq_Some_conv case_result_eq split: prod.splits)
  next
    case (Lookup p n)
    then show ?thesis using op by (auto simp: chfs_lookup_def bind_eq_Some_conv case_result_eq dest!: re split: option.splits)
  next
    case (Readdir i sz off)
    then show ?thesis using op by (auto simp: chfs_readdir_def bind_eq_Some_conv case_result_eq split: if_splits)
  next
    case (Read i sz off)
    then show ?thesis using op by (auto simp: chfs_read_def Let_def bind_eq_Some_conv case_result_eq split: if_splits prod.splits)
  qed (use op in simp_all)
qed

section \<open>Properties\<close>

text \<open>C15. A mounted file system stays a tree and keeps answering: in every state that a session reaches, each request
  the kernel may send is answered without a crash and leads to such a state again; the root is a directory, every
  entry of a directory names a file that exists, can be looked up under that name and is not the root, and no file
  has two names.\<close>

theorem fuse_session_stays_tree:
  assumes "fuse_session fs"
  shows "(\<forall>req t1 t2. valid_request fs req \<longrightarrow> t1 < 2 ^ 64 \<longrightarrow> t2 < 2 ^ 64 \<longrightarrow> (\<exists>r fs'. fuseserver_oper lib t1 t2 fs req = Some (r, fs') \<and> fuse_session fs')) \<and>
    directory fs 1 \<and>
    (\<forall>d e. directory fs d \<longrightarrow> e \<in> set (dir_entries fs d) \<longrightarrow>
       de_id e \<in> dom (file_map fs) \<and> de_id e \<noteq> 1 \<and> lookup fs d (de_name e) = Some (Ok (de_id e))) \<and>
    (\<forall>d d' e e'. directory fs d \<longrightarrow> directory fs d' \<longrightarrow> e \<in> set (dir_entries fs d) \<longrightarrow> e' \<in> set (dir_entries fs d') \<longrightarrow> de_id e = de_id e' \<longrightarrow> d = d' \<and> e = e')"
proof -
  note t = session_tree [OF assms]
  have ok: "fs_ok fs" and tr: "tree_inv (file_map fs) (ftype fs)" using t by (simp_all add: tree_ok_def)
  note T = tree_invD [OF tr, unfolded entries_of_fs]
  have "directory fs 1" using t T(1) by (simp add: tree_ok_def directory_def is_dir_def)
  moreover have "lookup fs d (de_name e) = Some (Ok (de_id e))" if "directory fs d" "e \<in> set (dir_entries fs d)" for d e
    using lookup_ok [OF ok, of d "de_name e"] find_entry_distinct [OF T(4) [OF directory_is_dir [OF that(1)]] that(2)] that(1) by (simp add: directory_def)
  moreover have "\<exists>r fs'. fuseserver_oper lib t1 t2 fs req = Some (r, fs') \<and> fuse_session fs'" if "valid_request fs req" "t1 < 2 ^ 64" "t2 < 2 ^ 64" for req t1 t2
    using request_answered [OF t that, of lib] fuse_session.request [OF assms that] by blast
  ultimately show ?thesis using T(6,7) directory_is_dir by blast
qed

theorem fuse_session_stays_tree_witness:
  "\<exists>fs d r fs'. fuse_session fs \<and> directory fs d \<and> valid_request fs (Mkdir d ''g'') \<and>
    fuseserver_oper \<lparr>direntry_size = length, direntry = (\<lambda>n i off. bytes_of_str n)\<rparr> 5 6 fs (Mkdir d ''g'') = Some (r, fs') \<and> fuse_session fs'"
proof -
  from first_file obtain fs where s: "fuse_session fs" by blast
  note w = fuse_session_stays_tree [OF s, of "\<lparr>direntry_size = length, direntry = (\<lambda>n i off. bytes_of_str n)\<rparr>"]
  then have v: "directory fs 1" "valid_request fs (Mkdir 1 ''g'')" by (simp_all add: clean_name_def)
  have "(5 :: nat) < 2 ^ 64" "(6 :: nat) < 2 ^ 64" by simp_all
  with w v(2) obtain r fs' where "fuseserver_oper \<lparr>direntry_size = length, direntry = (\<lambda>n i off. bytes_of_str n)\<rparr> 5 6 fs (Mkdir 1 ''g'') = Some (r, fs')" "fuse_session fs'" by metis
  then show ?thesis using s v by blast
qed





text \<open>C17. The life of a name: \<open>mknod\<close> answers \<open>EEXIST\<close> for a name that the directory has and changes nothing; for a new
  name, when it answers with an entry, looking the name up gives this entry, the file is regular and empty, and
  \<open>unlink\<close> always removes it again: the name is gone and every name of the directory leads where it did before.\<close>

theorem fuse_name_lifecycle:
  assumes "fuse_session fs" "directory fs p" "clean_name n" "t1 < 2 ^ 64" "t2 < 2 ^ 64" "t3 < 2 ^ 64"
  shows "\<exists>r fs'. chfs_mknod t1 t2 fs p n = Some (r, fs') \<and> fuse_session fs' \<and>
    (n \<in> de_name ` set (dir_entries fs p) \<longrightarrow> r = Reply_err EEXIST \<and> fs' = fs) \<and>
    (\<forall>i st. r = Reply_entry i st \<longrightarrow> chfs_lookup fs' p n = Some (Reply_entry i st, fs') \<and> st_size st = 0 \<and> st_mode st = S_IFREG OR 438 \<and>
      (\<exists>fs''. chfs_unlink t3 fs' p n = Some (Reply_err 0, fs'') \<and> fuse_session fs'' \<and> chfs_lookup fs'' p n = Some (Reply_err ENOENT, fs'') \<and>
        (\<forall>x. lookup fs'' p x = lookup fs p x)))"
proof -
  note t = session_tree [OF assms(1)]
  from mknod_answer [OF t assms(2-5)] obtain r fs' where mk: "chfs_mknod t1 t2 fs p n = Some (r, fs')" "tree_ok fs'"
    and c: "if n \<in> de_name ` set (dir_entries fs p) then r = Reply_err EEXIST \<and> fs' = fs
     else r = Reply_err ENOENT \<or> (\<exists>i. made_entry fs p n i fs' \<and> ftype fs' i = FILE \<and> r = (if usable fs' i then Reply_entry i (stat_of fs' i) else Reply_err (- 1)))" by blast
  have s': "fuse_session fs'"
    by (rule fuse_session.request [OF assms(1), of "Mknod p n" t1 t2 undefined]) (use assms mk(1) in simp_all)
  have "chfs_lookup fs' p n = Some (Reply_entry i st, fs') \<and> st_size st = 0 \<and> st_mode st = S_IFREG OR 438 \<and>
      (\<exists>fs''. chfs_unlink t3 fs' p n = Some (Reply_err 0, fs'') \<and> fuse_session fs'' \<and> chfs_lookup fs'' p n = Some (Reply_err ENOENT, fs'') \<and>
        (\<forall>x. lookup fs'' p x = lookup fs p x))" if r: "r = Reply_entry i st" for i st
  proof -
    from c r have i: "n \<notin> de_name ` set (dir_entries fs p)" "made_entry fs p n i fs'" "ftype fs' i = FILE" "usable fs' i" "st = stat_of fs' i"
      by (auto split: if_splits)
    have p': "directory fs' p" using mknod_keeps_directory [OF t assms(2,4,5) mk(1) i(2)] .
    note w = new_name_unlinks [OF t assms(2) i(1) assms(6) mk(2) p' i(2,4)]
    from w(4) obtain fs'' where u: "chfs_unlink t3 fs' p n = Some (Reply_err 0, fs'')" "chfs_lookup fs'' p n = Some (Reply_err ENOENT, fs'')"
      "\<forall>x. lookup fs'' p x = lookup fs p x" by blast
    have "fuse_session fs''"
      by (rule fuse_session.request [OF s', of "Unlink p n" t3 0 undefined]) (use w(3) assms(6) u(1) in simp_all)
    moreover have "st_size st = 0" "st_mode st = S_IFREG OR 438" using i(3,5) w(2) by (simp_all add: stat_of_def Let_def)
    ultimately show ?thesis using u lookup_answer [OF mk(2) p', of n] w(1) i(4,5) by auto
  qed
  then show ?thesis using mk(1) s' c by auto
qed


theorem fuse_name_lifecycle_witness:
  "\<exists>fs i st fs' fs''. fuse_session fs \<and> chfs_mknod 8 9 fs 1 ''f'' = Some (Reply_entry i st, fs') \<and> chfs_lookup fs' 1 ''f'' = Some (Reply_entry i st, fs') \<and>
    st_size st = 0 \<and> chfs_unlink 10 fs' 1 ''f'' = Some (Reply_err 0, fs'') \<and> chfs_lookup fs'' 1 ''f'' = Some (Reply_err ENOENT, fs'')"
proof -
  from first_file obtain fs i st fs' where f: "fuse_session fs" "directory fs 1" "chfs_mknod 8 9 fs 1 ''f'' = Some (Reply_entry i st, fs')" by blast
  have c: "clean_name ''f''" "(8 :: nat) < 2 ^ 64" "(9 :: nat) < 2 ^ 64" "(10 :: nat) < 2 ^ 64" by (simp_all add: clean_name_def)
  from fuse_name_lifecycle [OF f(1,2) c] f(3) have "chfs_lookup fs' 1 ''f'' = Some (Reply_entry i st, fs') \<and> st_size st = 0 \<and>
    (\<exists>fs''. chfs_unlink 10 fs' 1 ''f'' = Some (Reply_err 0, fs'') \<and> chfs_lookup fs'' 1 ''f'' = Some (Reply_err ENOENT, fs''))" by auto
  then show ?thesis using f(1,3) by blast
qed




text \<open>C22. Types of files: in every state of a session a file is regular or a directory, the attributes that the daemon
  answers have the mode of its type and its length, and no request changes the type of a file that exists before and after.\<close>

theorem fuse_types_are_stable:
  assumes "fuse_session fs"
  shows "(\<forall>i \<in> dom (file_map fs). ftype fs i = FILE \<or> ftype fs i = inode_type.Directory) \<and>
    (\<forall>i. usable fs i \<longrightarrow> (\<exists>st. chfs_getattr fs i = Some (Reply_attr st, fs) \<and> st_size st = int (length (the (file_map fs i))) \<and>
       st_mode st = (if ftype fs i = inode_type.Directory then S_IFDIR OR 511 else S_IFREG OR 438))) \<and>
    (\<forall>req t1 t2 r fs' i. valid_request fs req \<longrightarrow> t1 < 2 ^ 64 \<longrightarrow> t2 < 2 ^ 64 \<longrightarrow> fuseserver_oper lib t1 t2 fs req = Some (r, fs') \<longrightarrow>
       i \<in> dom (file_map fs) \<longrightarrow> i \<in> dom (file_map fs') \<longrightarrow> ftype fs' i = ftype fs i)"
proof -
  note t = session_tree [OF assms]
  have "ftype fs i = FILE \<or> ftype fs i = inode_type.Directory" if "i \<in> dom (file_map fs)" for i
    using t tree_invD(2) [OF _ that, of "ftype fs"] by (simp add: tree_ok_def)
  moreover have "\<exists>st. chfs_getattr fs i = Some (Reply_attr st, fs) \<and> st_size st = int (length (the (file_map fs i))) \<and>
       st_mode st = (if ftype fs i = inode_type.Directory then S_IFDIR OR 511 else S_IFREG OR 438)" if "usable fs i" for i
    using getattr_tree [OF t that] by (auto simp: chfs_getattr_def stat_of_def Let_def)
  ultimately show ?thesis using request_types [OF t] by blast
qed

theorem fuse_types_are_stable_witness:
  "\<exists>fs i fs' r st. fuse_session fs \<and> directory fs 1 \<and> chfs_mknod 8 9 fs 1 ''f'' = Some (Reply_entry i st, fs') \<and> ftype fs' 1 = inode_type.Directory \<and>
    chfs_getattr fs' i = Some (Reply_attr r, fs') \<and> st_mode r = S_IFREG OR 438"
proof -
  from first_file obtain fs i st fs' where f: "fuse_session fs" "directory fs 1" "chfs_mknod 8 9 fs 1 ''f'' = Some (Reply_entry i st, fs')"
    "fuse_session fs'" "usable fs' i" "ftype fs' i = FILE" by blast
  note w = fuse_types_are_stable [OF f(1), of undefined] and w' = fuse_types_are_stable [OF f(4), of undefined]
  have "fuseserver_oper undefined 8 9 fs (Mknod 1 ''f'') = Some (Reply_entry i st, fs')" "valid_request fs (Mknod 1 ''f'')"
    "(8 :: nat) < 2 ^ 64" "(9 :: nat) < 2 ^ 64" "1 \<in> dom (file_map fs)" using f(2,3) by (simp_all add: clean_name_def directory_def usable_def)
  moreover have "1 \<in> dom (file_map fs')"
    using session_tree [OF f(4)] tree_invD(1) [of "file_map fs'" "ftype fs'"] by (simp add: tree_ok_def is_dir_def)
  ultimately have "ftype fs' 1 = ftype fs 1" using w by blast
  then have "ftype fs' 1 = inode_type.Directory" using f(2) by (simp add: directory_def)
  moreover obtain r where "chfs_getattr fs' i = Some (Reply_attr r, fs')" "st_mode r = S_IFREG OR 438" using w' f(5,6) by auto
  ultimately show ?thesis using f(1,2,3) by blast
qed

end
