(* ===== verification/Fuse_Distributed.thy ===== *)
theory Fuse_Distributed
  imports Fuse_Daemon Chfs_Client
begin

text \<open>
  The daemon of daemons/distributed/main.cc, which answers the requests of the kernel through the client of the distributed file
  system, and what it makes of requests that the single-node daemon answers as POSIX asks for. The draws of the calls and the times
  are arguments; a callback gives its answer, the client and the servers.
\<close>

section \<open>The callbacks\<close>

type_synonym dist_result = "(fuse_reply \<times> chfs_client \<times> system) option"

definition dist_getattr :: "draw \<Rightarrow> chfs_client \<Rightarrow> system \<Rightarrow> nat \<Rightarrow> dist_result" where
  "dist_getattr d cc sys ino = do {
     (attr, cc1, sys1) \<leftarrow> cc_get_type_attr d cc sys ino;
     case attr of
       Err _ \<Rightarrow> Some (Reply_err ENOENT, cc1, sys1)
     | Ok (type, a) \<Rightarrow> do { st \<leftarrow> getattr_helper type a; Some (Reply_attr st, cc1, sys1) }
   }"

definition dist_reply_entry :: "draw \<Rightarrow> chfs_client \<Rightarrow> system \<Rightarrow> nat \<Rightarrow> dist_result" where
  "dist_reply_entry d cc sys ino = do {
     (attr_res, cc1, sys1) \<leftarrow> cc_get_type_attr d cc sys ino;
     case attr_res of
       Err _ \<Rightarrow> Some (Reply_err (- 1), cc1, sys1)
     | Ok (type, a) \<Rightarrow> do { st \<leftarrow> getattr_helper type a; Some (Reply_entry ino st, cc1, sys1) }
   }"

definition dist_readdir :: "fuse_lib \<Rightarrow> draw \<Rightarrow> chfs_client \<Rightarrow> system \<Rightarrow> nat \<Rightarrow> nat \<Rightarrow> nat \<Rightarrow> dist_result" where
  "dist_readdir lib d cc sys ino sz off = do {
     (readdir_res, cc1, sys1) \<leftarrow> cc_readdir d cc sys ino;
     Some (case readdir_res of
       Err _ \<Rightarrow> Reply_err ENOTDIR
     | Ok entries \<Rightarrow> reply_buf_limited (foldl (\<lambda>p e. dirbuf_add lib p (c_str (de_name e)) (de_id e)) [] entries) off sz, cc1, sys1)
   }"

definition dist_read :: "draw \<Rightarrow> draw \<Rightarrow> (nat \<Rightarrow> draw) \<Rightarrow> chfs_client \<Rightarrow> system \<Rightarrow> nat \<Rightarrow> nat \<Rightarrow> nat \<Rightarrow> dist_result" where
  "dist_read d1 d2 dr cc sys ino sz off = do {
     (attr_res, cc1, sys1) \<leftarrow> cc_get_type_attr d1 cc sys ino;
     case attr_res of
       Err _ \<Rightarrow> Some (Reply_err (- 1), cc1, sys1)
     | Ok (type, a) \<Rightarrow> do {
         st \<leftarrow> getattr_helper type a;
         if st_size st \<le> int off then Some (Reply_buf [], cc1, sys1)
         else do {
           (read_res, cc2, sys2) \<leftarrow> cc_read_file d2 dr cc1 sys1 ino off sz;
           case read_res of
             Err _ \<Rightarrow> Some (Reply_err (- 1), cc2, sys2)
           | Ok res_data \<Rightarrow> do { part \<leftarrow> peek res_data 0 sz; Some (Reply_buf part, cc2, sys2) }
         }
       }
   }"

definition dist_write :: "draw \<Rightarrow> alloc_env \<Rightarrow> (nat \<Rightarrow> draw) \<Rightarrow> chfs_client \<Rightarrow> system \<Rightarrow> nat \<Rightarrow> byte list \<Rightarrow> nat \<Rightarrow> dist_result" where
  "dist_write d env dr cc sys ino buf off = do {
     (write_res, cc1, sys1) \<leftarrow> cc_write_file d env dr cc sys ino off buf;
     Some (case write_res of Err _ \<Rightarrow> Reply_err ENOSYS | Ok _ \<Rightarrow> Reply_write (length buf), cc1, sys1)
   }"

text \<open>The attributes are not set at all.\<close>

definition dist_setattr :: "draw \<Rightarrow> chfs_client \<Rightarrow> system \<Rightarrow> nat \<Rightarrow> nat \<Rightarrow> nat \<Rightarrow> dist_result" where
  "dist_setattr d cc sys ino new_size to_set = do {
     (attr_res, cc1, sys1) \<leftarrow> cc_get_type_attr d cc sys ino;
     case attr_res of
       Err _ \<Rightarrow> Some (Reply_err (- 1), cc1, sys1)
     | Ok (type, a) \<Rightarrow> do { st \<leftarrow> getattr_helper type a; Some (Reply_attr st, cc1, sys1) }
   }"

definition dist_mknod :: "draw \<Rightarrow> draw \<Rightarrow> nat \<Rightarrow> nat \<Rightarrow> chfs_client \<Rightarrow> system \<Rightarrow> nat \<Rightarrow> string \<Rightarrow> dist_result" where
  "dist_mknod d1 d2 t1 t2 cc sys parent name = do {
     (res, cc1, sys1) \<leftarrow> cc_mknode d1 t1 t2 cc sys 1 parent name;
     case res of
       Ok ino \<Rightarrow> dist_reply_entry d2 cc1 sys1 ino
     | Err e \<Rightarrow> Some (Reply_err (if e = AlreadyExist then EEXIST else ENOENT), cc1, sys1)
   }"

definition dist_mkdir :: "draw \<Rightarrow> draw \<Rightarrow> nat \<Rightarrow> nat \<Rightarrow> chfs_client \<Rightarrow> system \<Rightarrow> nat \<Rightarrow> string \<Rightarrow> dist_result" where
  "dist_mkdir d1 d2 t1 t2 cc sys parent name = do {
     (res, cc1, sys1) \<leftarrow> cc_mknode d1 t1 t2 cc sys 2 parent name;
     case res of
       Err e \<Rightarrow> Some (Reply_err (if e = AlreadyExist then EEXIST else ENOSYS), cc1, sys1)
     | Ok ino \<Rightarrow> dist_reply_entry d2 cc1 sys1 ino
   }"

definition dist_unlink :: "draw \<Rightarrow> nat \<Rightarrow> chfs_client \<Rightarrow> system \<Rightarrow> nat \<Rightarrow> string \<Rightarrow> dist_result" where
  "dist_unlink d now cc sys parent name = do {
     (res, cc1, sys1) \<leftarrow> cc_unlink d now cc sys parent name;
     Some (case res of
       Err e \<Rightarrow> Reply_err (if e = NotExist then ENOENT else if e = NotEmpty then ENOTEMPTY else ENOSYS)
     | Ok _ \<Rightarrow> Reply_err 0, cc1, sys1)
   }"

definition dist_lookup :: "draw \<Rightarrow> draw \<Rightarrow> chfs_client \<Rightarrow> system \<Rightarrow> nat \<Rightarrow> string \<Rightarrow> dist_result" where
  "dist_lookup d1 d2 cc sys parent name = do {
     (lookup_res, cc1, sys1) \<leftarrow> cc_lookup d1 cc sys parent name;
     case lookup_res of
       Err e \<Rightarrow> Some (Reply_err (if e = NotExist then ENOENT else - 1), cc1, sys1)
     | Ok ino \<Rightarrow> if ino = 0 then Some (Reply_err ENOENT, cc1, sys1) else dist_reply_entry d2 cc1 sys1 ino
   }"

section \<open>The start\<close>

definition kMetadataServerPort :: nat where
  "kMetadataServerPort = 8080"

definition kDataServerPorts :: "nat list" where
  "kDataServerPorts = [8081, 8082, 8083]"

definition dist_bootstrap :: chfs_client where
  "dist_bootstrap =
     foldl (\<lambda>cc port. snd (cc_reg_server cc DATA_SERVER ''127.0.0.1'' port True))
       (snd (cc_reg_server chfs_client_create METADATA_SERVER ''127.0.0.1'' kMetadataServerPort True)) kDataServerPorts"


section \<open>The two daemons\<close>

text \<open>A metadata server that logs nothing, reached over a reliable connection.\<close>

definition plain_system :: "chfs_client \<Rightarrow> metadata_server \<Rightarrow> bool" where
  "plain_system cc ms \<longleftrightarrow> \<not> ms_is_log_enabled ms \<and> fs_ok (ms_fs ms) \<and> (\<exists>cli. cc_metadata_server cc = Some cli \<and> rc_reliable cli)"

definition tallied :: "chfs_client \<Rightarrow> chfs_client" where
  "tallied cc = cc\<lparr>cc_metadata_server := map_option (\<lambda>cli. cli\<lparr>rc_count := rc_count cli + 1\<rparr>) (cc_metadata_server cc)\<rparr>"

lemma plain_query: "plain_system cc ms \<Longrightarrow> h ms = Some r \<Longrightarrow> call_metadata d cc (on_query h) (ms, cl) = Some (Ok r, tallied cc, (ms, cl))"
  by (auto simp: plain_system_def tallied_def call_metadata_query)

lemma plain_names: "plain_system cc ms \<Longrightarrow> h ms = Some (r, ms') \<Longrightarrow> call_metadata d cc (on_names h) (ms, cl) = Some (Ok r, tallied cc, (ms', cl))"
  by (auto simp: plain_system_def tallied_def call_metadata_def on_names_def rpc_call_def)

lemma getattr_helper_type: "getattr_helper type a = Some st \<Longrightarrow> type_of_u32 (u8 (u32_of_type type)) = type"
  by (cases type) (simp_all add: getattr_helper_def Let_def u8_def)

lemma reliable_attr:
  assumes c: "cc_metadata_server cc = Some cli" "rc_reliable cli" and a: "fo_get_type_attr (ms_fs ms) i = Some (Ok (type, a))" "getattr_helper type a = Some st"
  shows "cc_get_type_attr d cc (ms, cl) i = Some (Ok (type, a), tallied cc, (ms, cl))"
proof -
  have "call_metadata d cc (on_query (\<lambda>ms. ms_get_type_attr ms i)) (ms, cl) = Some (Ok (fsize a, atime a, mtime a, ctime a, u8 (u32_of_type type)), tallied cc, (ms, cl))"
    using a c by (simp add: call_metadata_query tallied_def ms_get_type_attr_def)
  then show ?thesis using getattr_helper_type [OF a(2)] by (simp add: cc_get_type_attr_def del: type_of_u32.simps)
qed

lemma same_entry:
  assumes "cc_metadata_server cc = Some cli" "rc_reliable cli" "reply_entry (ms_fs ms) i = Some (Reply_entry j st, fs')"
  shows "dist_reply_entry d cc (ms, cl) i = Some (Reply_entry j st, tallied cc, (ms, cl))" "j = i" "fs' = ms_fs ms"
proof -
  from assms(3) obtain type a where a: "fo_get_type_attr (ms_fs ms) i = Some (Ok (type, a))" "getattr_helper type a = Some st" "j = i" "fs' = ms_fs ms"
    by (auto simp: reply_entry_def bind_eq_Some_conv case_result_eq split: prod.splits)
  then show "dist_reply_entry d cc (ms, cl) i = Some (Reply_entry j st, tallied cc, (ms, cl))" "j = i" "fs' = ms_fs ms"
    using reliable_attr [OF assms(1,2) a(1,2)] by (simp_all add: dist_reply_entry_def)
qed

lemma tallied_reliable:
  assumes "plain_system cc ms"
  obtains cli where "cc_metadata_server (tallied cc) = Some cli" "rc_reliable cli"
  using assms by (auto simp: plain_system_def tallied_def)


lemma mknode_answer:
  assumes s: "plain_system cc ms" and d: "dir_ok (ms_fs ms) p" and n: "clean_name n" and tm: "t1 < 2 ^ 64" "t2 < 2 ^ 64"
    and ty: "type_of_u32 (unat ty) = type" "type_ok type"
    and mk: "mk_helper t1 t2 (ms_fs ms) p n type = Some (r, fs)"
  shows "cc_mknode dr t1 t2 cc (ms, cl) ty p n = Some (case r of Ok i \<Rightarrow> Ok i | Err _ \<Rightarrow> Err BadResponse, tallied cc, (ms\<lparr>ms_fs := fs\<rparr>, cl))"
proof -
  have o: "\<not> ms_is_log_enabled ms" "fs_ok (ms_fs ms)" "usable (ms_fs ms) p" using s d by (auto simp: plain_system_def dir_ok_def)
  have "mknode t1 t2 ms ty p n = Some (case r of Ok i \<Rightarrow> i | Err _ \<Rightarrow> 0, ms\<lparr>ms_fs := fs\<rparr>)"
    using mknode_unlogged [OF o, of t1 t2 ty n] mk ty(1) by simp
  note c = plain_names [OF s, of "\<lambda>ms. mknode t1 t2 ms ty p n", OF this]
  have "i \<noteq> 0" if "r = Ok i" for i
  proof (cases "find_entry (dir_entries (ms_fs ms) p) n")
    case None
    from mk_helper_map [OF o(2) d n ty(2) tm None] mk that have "file_map fs i \<noteq> None" by (auto simp: made_entry_def Let_def)
    then show ?thesis by (auto simp: file_map_def split: if_splits)
  next
    case (Some e)
    then show ?thesis using mk that read_directory_ok [OF o(2,3)] by (simp add: mk_helper_def)
  qed
  then show ?thesis using c by (cases r) (simp_all add: cc_mknode_def)
qed

lemma existing_name:
  assumes "fs_ok fs" "dir_ok fs p" "n \<in> de_name ` set (dir_entries fs p)"
  shows "mk_helper t1 t2 fs p n type = Some (Err AlreadyExist, fs)"
proof -
  have "find_entry (dir_entries fs p) n \<noteq> None" using assms(3) by (simp add: find_entry_None)
  then show ?thesis using read_directory_ok [OF assms(1), of p] assms(2) by (auto simp: mk_helper_def dir_ok_def)
qed

lemma unlink_masked:
  assumes s: "plain_system cc ms" and d: "dir_ok (ms_fs ms) p" and ids: "distinct (map de_id (dir_entries (ms_fs ms) p))" "0 \<notin> de_id ` set (dir_entries (ms_fs ms) p)"
    and n: "CHR 0x00 \<notin> set n"
  shows "dist_unlink d now cc (ms, cl) p n =
      map_option (\<lambda>(r, fs). (if r = Reply_err 0 then r else Reply_err ENOSYS, tallied cc, (ms\<lparr>ms_fs := fs\<rparr>, cl))) (chfs_unlink now (ms_fs ms) p n)"
proof -
  have o: "\<not> ms_is_log_enabled ms" "fs_ok (ms_fs ms)" "usable (ms_fs ms) p" using s d by (auto simp: plain_system_def dir_ok_def)
  note u = ms_unlink_unlogged [OF o ids n, of "now"]
  show ?thesis
  proof (cases "unlink now (ms_fs ms) p n")
    case None
    then show ?thesis using u s by (auto simp: dist_unlink_def chfs_unlink_def cc_unlink_def call_metadata_def on_names_def rpc_call_def plain_system_def)
  next
    case (Some a)
    obtain r fs where a: "a = (r, fs)" by (cases a)
    have "ms_unlink now ms p n = Some (is_ok r, ms\<lparr>ms_fs := fs\<rparr>)" using u Some a by simp
    from plain_names [OF s, of "\<lambda>ms. ms_unlink now ms p n", OF this] Some a show ?thesis
      by (cases r) (simp_all add: dist_unlink_def chfs_unlink_def cc_unlink_def ENOENT_def ENOTEMPTY_def ENOSYS_def)
  qed
qed

lemma lookup_agrees:
  assumes s: "plain_system cc ms" and d: "dir_ok (ms_fs ms) p" and ids: "0 \<notin> de_id ` set (dir_entries (ms_fs ms) p)" and n: "CHR 0x00 \<notin> set n"
    and l: "chfs_lookup (ms_fs ms) p n = Some (r, ms_fs ms)" and r: "r = Reply_err ENOENT \<or> (\<exists>i st. r = Reply_entry i st)"
  shows "\<exists>cc'. dist_lookup d' d'' cc (ms, cl) p n = Some (r, cc', (ms, cl))"
proof -
  have o: "fs_ok (ms_fs ms)" "usable (ms_fs ms) p" using s d by (auto simp: plain_system_def dir_ok_def)
  have c: "c_str n = n" unfolding c_str_def takeWhile_eq_all_conv using n by metis
  obtain cli where cli: "cc_metadata_server (tallied cc) = Some cli" "rc_reliable cli" using s by (rule tallied_reliable)
  show ?thesis
  proof (cases "find_entry (dir_entries (ms_fs ms) p) n")
    case None
    then have "ms_lookup ms p n = Some 0" using lookup_ok [OF o, of n] c by (simp add: ms_lookup_def)
    from plain_query [OF s, of "\<lambda>ms. ms_lookup ms p n", OF this] None l read_directory_ok [OF o] show ?thesis
      by (simp add: dist_lookup_def cc_lookup_def chfs_lookup_def)
  next
    case (Some e)
    then have "de_id e \<noteq> 0" using find_entry_Some [OF Some] ids by force
    have "ms_lookup ms p n = Some (de_id e)" using lookup_ok [OF o, of n] c Some by (simp add: ms_lookup_def)
    note q = plain_query [OF s, of "\<lambda>ms. ms_lookup ms p n", OF this]
    have re: "reply_entry (ms_fs ms) (de_id e) = Some (r, ms_fs ms)" using l Some read_directory_ok [OF o] by (simp add: chfs_lookup_def)
    then have "r \<noteq> Reply_err ENOENT" by (auto simp: reply_entry_def ENOENT_def bind_eq_Some_conv case_result_eq split: prod.splits)
    then obtain i st where "r = Reply_entry i st" using r by blast
    with same_entry(1) [OF cli, of ms "de_id e"] re q \<open>de_id e \<noteq> 0\<close> show ?thesis by (simp add: dist_lookup_def cc_lookup_def)
  qed
qed

lemma missing_attr:
  assumes s: "plain_system cc ms" and i: "im_max_inode_supported (fo_im (ms_fs ms)) - 1 \<le> i"
  shows "chfs_getattr (ms_fs ms) i = Some (Reply_err ENOENT, ms_fs ms) \<and> dist_getattr d cc (ms, cl) i = None"
proof -
  have "fs_ok (ms_fs ms)" using s by (simp add: plain_system_def)
  from read_inode_invalid(1) [OF fs_okD(1) [OF this] i] have a: "fo_get_type_attr (ms_fs ms) i = Some (Err INVALID_ARG)"
    by (simp add: fo_get_type_attr_def get_type_attr_def)
  then have "ms_get_type_attr ms i = Some (0, 0, 0, 0, 0)" by (simp add: ms_get_type_attr_def)
  from plain_query [OF s, of "\<lambda>ms. ms_get_type_attr ms i", OF this] a show ?thesis
    by (simp add: chfs_getattr_def dist_getattr_def cc_get_type_attr_def getattr_helper_def Let_def)
qed

section \<open>Property\<close>

text \<open>C20. The distributed daemon and the single-node daemon on the file system of the metadata server: over a reliable
  connection to a server that does not log, \<open>unlink\<close> does the same and reports every failure as \<open>ENOSYS\<close>; a name that the one finds or misses
  the other finds or misses, with the same entry; \<open>mknod\<close> and \<open>mkdir\<close> that succeed make and answer the same
  entry, while for a name that exists, where the one answers \<open>EEXIST\<close>, the other answers \<open>ENOENT\<close> and \<open>ENOSYS\<close>; and the attributes of an inode beyond the
  table, where the one answers \<open>ENOENT\<close>, abort the other.\<close>

theorem daemons_agree_on_names:
  assumes "plain_system cc ms" "dir_ok (ms_fs ms) p" "distinct (map de_id (dir_entries (ms_fs ms) p))" "0 \<notin> de_id ` set (dir_entries (ms_fs ms) p)"
    "clean_name n" "CHR 0x00 \<notin> set n" "t1 < 2 ^ 64" "t2 < 2 ^ 64"
  shows "(\<exists>cc'. dist_unlink d tm cc (ms, cl) p n = map_option (\<lambda>(r, fs). (if r = Reply_err 0 then r else Reply_err ENOSYS, cc', (ms\<lparr>ms_fs := fs\<rparr>, cl))) (chfs_unlink tm (ms_fs ms) p n)) \<and>
    (\<forall>r. chfs_lookup (ms_fs ms) p n = Some (r, ms_fs ms) \<and> (r = Reply_err ENOENT \<or> (\<exists>i st. r = Reply_entry i st)) \<longrightarrow>
      (\<exists>cc'. dist_lookup d d' cc (ms, cl) p n = Some (r, cc', (ms, cl)))) \<and>
    (\<forall>i st fs'. chfs_mknod t1 t2 (ms_fs ms) p n = Some (Reply_entry i st, fs') \<longrightarrow>
      (\<exists>cc'. dist_mknod d d' t1 t2 cc (ms, cl) p n = Some (Reply_entry i st, cc', (ms\<lparr>ms_fs := fs'\<rparr>, cl)))) \<and>
    (\<forall>i st fs'. chfs_mkdir t1 t2 (ms_fs ms) p n = Some (Reply_entry i st, fs') \<longrightarrow>
      (\<exists>cc'. dist_mkdir d d' t1 t2 cc (ms, cl) p n = Some (Reply_entry i st, cc', (ms\<lparr>ms_fs := fs'\<rparr>, cl)))) \<and>
    (n \<in> de_name ` set (dir_entries (ms_fs ms) p) \<longrightarrow>
      chfs_mknod t1 t2 (ms_fs ms) p n = Some (Reply_err EEXIST, ms_fs ms) \<and> chfs_mkdir t1 t2 (ms_fs ms) p n = Some (Reply_err EEXIST, ms_fs ms) \<and>
      (\<exists>cc'. dist_mknod d d' t1 t2 cc (ms, cl) p n = Some (Reply_err ENOENT, cc', (ms, cl)) \<and> dist_mkdir d d' t1 t2 cc (ms, cl) p n = Some (Reply_err ENOSYS, cc', (ms, cl)))) \<and>
    (\<forall>i. im_max_inode_supported (fo_im (ms_fs ms)) - 1 \<le> i \<longrightarrow> chfs_getattr (ms_fs ms) i = Some (Reply_err ENOENT, ms_fs ms) \<and> dist_getattr d cc (ms, cl) i = None)"
proof -
  have o: "\<not> ms_is_log_enabled ms" "fs_ok (ms_fs ms)" "usable (ms_fs ms) p" using assms(1,2) by (auto simp: plain_system_def dir_ok_def)
  obtain cli where cli: "cc_metadata_server (tallied cc) = Some cli" "rc_reliable cli" using assms(1) by (rule tallied_reliable)
  have "dist_unlink d tm cc (ms, cl) p n =
      map_option (\<lambda>(r, fs). (if r = Reply_err 0 then r else Reply_err ENOSYS, tallied cc, (ms\<lparr>ms_fs := fs\<rparr>, cl))) (chfs_unlink tm (ms_fs ms) p n)"
    by (rule unlink_masked [OF assms(1-4,6)])
  moreover have "\<exists>cc'. dist_lookup d d' cc (ms, cl) p n = Some (r, cc', (ms, cl))"
    if "chfs_lookup (ms_fs ms) p n = Some (r, ms_fs ms)" "r = Reply_err ENOENT \<or> (\<exists>i st. r = Reply_entry i st)" for r
    by (rule lookup_agrees [OF assms(1,2,4,6) that])
  moreover have "\<exists>cc'. dist_mknod d d' t1 t2 cc (ms, cl) p n = Some (Reply_entry i st, cc', (ms\<lparr>ms_fs := fs'\<rparr>, cl))"
    if "chfs_mknod t1 t2 (ms_fs ms) p n = Some (Reply_entry i st, fs')" for i st fs'
  proof -
    from that obtain fs j where mk: "mk_helper t1 t2 (ms_fs ms) p n FILE = Some (Ok j, fs)" "reply_entry fs j = Some (Reply_entry i st, fs')"
      by (auto simp: chfs_mknod_def mkfile_def bind_eq_Some_conv case_result_eq split: prod.splits)
    note c = mknode_answer [OF assms(1,2,5,7,8) _ _ mk(1), of 1]
    show ?thesis using c same_entry [OF cli, of "ms\<lparr>ms_fs := fs\<rparr>" j] mk(2) by (simp add: dist_mknod_def)
  qed
  moreover have "\<exists>cc'. dist_mkdir d d' t1 t2 cc (ms, cl) p n = Some (Reply_entry i st, cc', (ms\<lparr>ms_fs := fs'\<rparr>, cl))"
    if "chfs_mkdir t1 t2 (ms_fs ms) p n = Some (Reply_entry i st, fs')" for i st fs'
  proof -
    from that obtain fs j where mk: "mk_helper t1 t2 (ms_fs ms) p n inode_type.Directory = Some (Ok j, fs)" "reply_entry fs j = Some (Reply_entry i st, fs')"
      by (auto simp: chfs_mkdir_def mkdir_def bind_eq_Some_conv case_result_eq split: prod.splits)
    note c = mknode_answer [OF assms(1,2,5,7,8) _ _ mk(1), of 2]
    show ?thesis using c same_entry [OF cli, of "ms\<lparr>ms_fs := fs\<rparr>" j] mk(2) by (simp add: dist_mkdir_def)
  qed
  moreover have "chfs_mknod t1 t2 (ms_fs ms) p n = Some (Reply_err EEXIST, ms_fs ms) \<and> chfs_mkdir t1 t2 (ms_fs ms) p n = Some (Reply_err EEXIST, ms_fs ms) \<and>
      (\<exists>cc'. dist_mknod d d' t1 t2 cc (ms, cl) p n = Some (Reply_err ENOENT, cc', (ms, cl)) \<and> dist_mkdir d d' t1 t2 cc (ms, cl) p n = Some (Reply_err ENOSYS, cc', (ms, cl)))"
    if e: "n \<in> de_name ` set (dir_entries (ms_fs ms) p)"
    using existing_name [OF o(2) assms(2) e, of t1 t2] mknode_answer [OF assms(1,2,5,7,8) _ _ existing_name [OF o(2) assms(2) e], of 1 FILE]
      mknode_answer [OF assms(1,2,5,7,8) _ _ existing_name [OF o(2) assms(2) e], of 2 inode_type.Directory]
    by (simp add: chfs_mknod_def chfs_mkdir_def mkfile_def mkdir_def dist_mknod_def dist_mkdir_def)
  moreover have "chfs_getattr (ms_fs ms) i = Some (Reply_err ENOENT, ms_fs ms) \<and> dist_getattr d cc (ms, cl) i = None"
    if "im_max_inode_supported (fo_im (ms_fs ms)) - 1 \<le> i" for i
    by (rule missing_attr [OF assms(1) that])
  ultimately show ?thesis by blast
qed


theorem daemons_agree_on_names_witness:
  "\<exists>ms cc'. init_fs None 7 demo_garbage False False False False = Some ms \<and> plain_system dist_bootstrap ms \<and>
    chfs_unlink 5 (ms_fs ms) 1 ''f'' = Some (Reply_err ENOENT, ms_fs ms) \<and>
    dist_unlink (1, 1) 5 dist_bootstrap (ms, Map.empty) 1 ''f'' = Some (Reply_err ENOSYS, cc', (ms, Map.empty)) \<and>
    dist_getattr (1, 1) dist_bootstrap (ms, Map.empty) 40000 = None"
proof -
  from new_server obtain ms where m: "init_fs None 7 demo_garbage False False False False = Some ms" "\<not> ms_is_log_enabled ms" "fs_ok (ms_fs ms)"
    "dir_ok (ms_fs ms) 1" "dir_entries (ms_fs ms) 1 = []" "im_max_inode_supported (fo_im (ms_fs ms)) = 32768" by blast
  have s: "plain_system dist_bootstrap ms" using m(2,3)
    by (simp add: plain_system_def dist_bootstrap_def cc_reg_server_def chfs_client_create_def kDataServerPorts_def rpc_client_create_def Let_def)
  have n: "clean_name ''f''" "CHR 0x00 \<notin> set ''f''" "(8 :: nat) < 2 ^ 64" "(9 :: nat) < 2 ^ 64" by (simp_all add: clean_name_def)
  have u: "usable (ms_fs ms) 1" using m(4) by (simp add: dir_ok_def)
  have "unlink 5 (ms_fs ms) 1 ''f'' = Some (Err NotExist, ms_fs ms)"
    using lookup_ok [OF m(3) u, of "''f''"] read_directory_ok [OF m(3) u] m(5) by (simp add: unlink_def find_entry_def)
  then have c: "chfs_unlink 5 (ms_fs ms) 1 ''f'' = Some (Reply_err ENOENT, ms_fs ms)" by (simp add: chfs_unlink_def)
  have e: "distinct (map de_id (dir_entries (ms_fs ms) 1))" "0 \<notin> de_id ` set (dir_entries (ms_fs ms) 1)" unfolding m(5) by simp_all
  note w = daemons_agree_on_names [OF s m(4) e n, where d = "(1, 1)" and d' = "(1, 1)" and tm = 5 and cl = Map.empty]
  from conjunct1 [OF w, unfolded c] obtain cc' where "dist_unlink (1, 1) 5 dist_bootstrap (ms, Map.empty) 1 ''f'' = Some (Reply_err ENOSYS, cc', (ms, Map.empty))"
    by (auto simp: ENOENT_def)
  moreover have "dist_getattr (1, 1) dist_bootstrap (ms, Map.empty) 40000 = None"
    using w [THEN conjunct2, THEN conjunct2, THEN conjunct2, THEN conjunct2, THEN conjunct2, rule_format, of 40000] m(6) by simp
  ultimately show ?thesis using m(1) s c by blast
qed

end
