(* ===== verification/Thread_Pool.thy ===== *)
theory Thread_Pool
  imports Chfs_Prelude
begin

text \<open>
  The pool of threads of \<open>src/chfs/src/include/utils/thread_pool.h\<close>, on which a Raft node runs its calls. The state is
  what the mutex of the queue protects, with the value of the future of every task that was enqueued; each step of a
  thread is what it does between two points where others may run, so a run of the pool is any sequence of
  such steps. A task computes a value and may change a state that the tasks share.
\<close>

section \<open>Model\<close>









section \<open>Runs\<close>




section \<open>Invariant\<close>



definition has_value :: "'r option list \<Rightarrow> nat \<Rightarrow> nat" where
  "has_value fs k = (if k < length fs \<and> fs ! k \<noteq> None then 1 else 0)"







lemma has_value_snoc [simp]: "has_value (fs @ [None]) k = has_value fs k"
  by (auto simp: has_value_def nth_append)







section \<open>Progress\<close>











section \<open>Property\<close>



end
