(* ===== verification/Util.thy ===== *)
theory Util
  imports "HOL-Library.Word"
begin

unbundle bit_operations_syntax

text \<open>
  The block arithmetic of \<open>src/chfs/src/include/common/util.h\<close> and \<open>macros.h\<close>, on numbers of the
  width of the source: \<open>usize\<close> is an unsigned int of 32 bits, so sums wrap around.
\<close>

section \<open>Model\<close>

type_synonym usize = "32 word"

definition DiskBlockSize_w :: usize where
  "DiskBlockSize_w = 4096"

definition ROUND_DOWN :: "usize \<Rightarrow> usize \<Rightarrow> usize" where
  "ROUND_DOWN x n = x AND NOT (n - 1)"

definition dispatch_request :: "usize \<Rightarrow> usize \<Rightarrow> usize \<times> usize \<times> usize \<times> usize" where
  "dispatch_request offset sz =
     (let first_block_index = ROUND_DOWN offset DiskBlockSize_w div DiskBlockSize_w;
          last_block_index = ROUND_DOWN (offset + sz) DiskBlockSize_w div DiskBlockSize_w;
          first_block_offset = offset - first_block_index * DiskBlockSize_w;
          last_block_size = offset + sz - last_block_index * DiskBlockSize_w
      in if last_block_size = 0 then (first_block_index, last_block_index - 1, first_block_offset, DiskBlockSize_w)
         else (first_block_index, last_block_index, first_block_offset, last_block_size))"

section \<open>Rounding\<close>

lemma ROUND_DOWN_pow2: "ROUND_DOWN x (2 ^ k) = push_bit k (drop_bit k x)"
  by (rule bit_word_eqI)
    (auto simp: ROUND_DOWN_def bit_simps simp flip: mask_eq_exp_minus_1)

lemma unat_ROUND_DOWN: "unat (ROUND_DOWN x DiskBlockSize_w) = 4096 * (unat x div 4096)"
proof -
  have "ROUND_DOWN x DiskBlockSize_w = push_bit 12 (drop_bit 12 x)"
    using ROUND_DOWN_pow2 [of x 12] by (simp add: DiskBlockSize_w_def)
  also have "\<dots> = x - take_bit 12 x"
    using bits_ident [of 12 x] by (metis add_diff_cancel_right')
  finally have "unat (ROUND_DOWN x DiskBlockSize_w) = unat (x - take_bit 12 x)" by simp
  also have "take_bit 12 x \<le> x" by (simp add: word_le_nat_alt take_bit_eq_mod unat_mod_distrib)
  then have "unat (x - take_bit 12 x) = unat x - unat (take_bit 12 x)" by (rule unat_sub)
  finally show ?thesis by (simp add: take_bit_eq_mod unat_mod_distrib minus_mod_eq_mult_div)
qed

lemma block_parts:
  "unat (ROUND_DOWN x DiskBlockSize_w div DiskBlockSize_w) = unat x div 4096"
  "unat (x - ROUND_DOWN x DiskBlockSize_w div DiskBlockSize_w * DiskBlockSize_w) = unat x mod 4096"
proof -
  show q: "unat (ROUND_DOWN x DiskBlockSize_w div DiskBlockSize_w) = unat x div 4096"
    by (simp add: unat_div_distrib unat_ROUND_DOWN) (simp add: DiskBlockSize_w_def)
  let ?p = "ROUND_DOWN x DiskBlockSize_w div DiskBlockSize_w * DiskBlockSize_w"
  have le: "unat x div 4096 * 4096 \<le> unat x" by simp
  have lt: "unat x < 2 ^ 32" using unsigned_less [of x] by simp
  have "unat (DiskBlockSize_w) = 4096" by (simp add: DiskBlockSize_w_def)
  with q le lt have p: "unat ?p = unat x div 4096 * 4096" by (simp add: unat_word_ariths(2))
  then have "?p \<le> x" by (simp add: word_le_nat_alt)
  with p show "unat (x - ?p) = unat x mod 4096" by (simp add: unat_sub minus_div_mult_eq_mod)
qed

section \<open>Properties\<close>

text \<open>C23. The blocks of a request: for a range that is not empty and ends below 4 GiB, the first block and the offset
  in it are where the range begins, the last block and the size of its part are where the range ends, the offset lies
  in a block, the last part is between one byte and a whole block, and the blocks are in order. An empty range at the
  start wraps around: its last block is the largest number.\<close>

theorem dispatch_request_bounds:
  assumes "0 < sz" "unat offset + unat sz < 2 ^ 32" "dispatch_request offset sz = (first, lst, off, part)"
  shows "4096 * unat first + unat off = unat offset \<and> 4096 * unat lst + unat part = unat offset + unat sz \<and>
    unat off < 4096 \<and> 1 \<le> unat part \<and> unat part \<le> 4096 \<and> first \<le> lst \<and>
    dispatch_request 0 0 = (0, - 1, 0, 4096)"
proof -
  let ?e = "offset + sz"
  let ?l = "ROUND_DOWN ?e DiskBlockSize_w div DiskBlockSize_w"
  have e: "unat ?e = unat offset + unat sz" using assms(2) by (simp add: unat_word_ariths(1))
  have pos: "1 \<le> unat sz" using assms(1) by (simp add: word_less_nat_alt)
  note f = block_parts [of offset] and l = block_parts [of ?e, unfolded e]
  have first: "unat first = unat offset div 4096" "unat off = unat offset mod 4096"
    using assms(3) f by (auto simp: dispatch_request_def Let_def split: if_splits)
  have zero: "unat (?e - ?l * DiskBlockSize_w) = 0 \<longleftrightarrow> ?e - ?l * DiskBlockSize_w = 0" by (rule unat_eq_0)
  have lst: "4096 * unat lst + unat part = unat offset + unat sz \<and> 1 \<le> unat part \<and> unat part \<le> 4096 \<and> unat first \<le> unat lst"
  proof (cases "?e - ?l * DiskBlockSize_w = 0")
    case True
    then have m: "(unat offset + unat sz) mod 4096 = 0" using l(2) by simp
    then have end_div: "unat offset + unat sz = 4096 * ((unat offset + unat sz) div 4096)" by (metis mult_div_mod_eq add_0_right)
    have b: "4096 * (unat offset div 4096) \<le> unat offset" by simp
    from end_div b pos have d: "1 \<le> (unat offset + unat sz) div 4096" "unat offset div 4096 < (unat offset + unat sz) div 4096"
      by linarith+
    from True assms(3) have p: "part = 4096" "lst = ?l - 1" by (simp_all add: dispatch_request_def Let_def DiskBlockSize_w_def)
    have "1 \<le> ?l" using d(1) l(1) by (simp add: word_le_nat_alt)
    then have "unat lst = (unat offset + unat sz) div 4096 - 1" using p(2) l(1) by (simp add: unat_sub)
    moreover have "unat part = 4096" using p(1) by simp
    ultimately show ?thesis using end_div d first(1) by linarith
  next
    case False
    then have p: "part = ?e - ?l * DiskBlockSize_w" "lst = ?l" using assms(3) by (auto simp: dispatch_request_def Let_def)
    moreover have "unat part \<noteq> 0" using False zero p(1) by simp
    ultimately show ?thesis using l first by (simp add: div_le_mono)
  qed
  have "dispatch_request 0 0 = (0, - 1, 0, 4096)" by (simp add: dispatch_request_def ROUND_DOWN_def DiskBlockSize_w_def)
  then show ?thesis using first lst by (simp add: word_le_nat_alt)
qed

theorem dispatch_request_bounds_witness:
  "dispatch_request 5000 8000 = (1, 3, 904, 712) \<and> 4096 * unat (3 :: usize) + unat (712 :: usize) = 13000"
proof -
  have d: "dispatch_request 5000 8000 = (1, 3, 904, 712)" by (simp add: dispatch_request_def ROUND_DOWN_def DiskBlockSize_w_def)
  have "(0 :: usize) < 8000" "unat (5000 :: usize) + unat (8000 :: usize) < 2 ^ 32" by simp_all
  from dispatch_request_bounds [OF this d] d show ?thesis by simp
qed

end
