(* ===== verification/Spec2Isabelle.thy ===== *)
theory Spec2Isabelle
  imports Raft_Properties Map_Reduce_Coordinator Fuse_Session Fuse_Distributed Thread_Pool Util
begin

text \<open>
  A verification library for chfs, the file system of the labs under \<open>src/chfs\<close>, with its distributed version, its Raft
  library and its map reduce framework. This theory only joins the others; it describes the whole.

  \<^bold>\<open>The program.\<close> A block manager gives a device of fixed-size blocks, on memory or on a mapped file. The block
  allocator keeps a bitmap of used blocks on it, the inode manager a table and a bitmap of inodes, and the file operations
  build files from an inode block, direct blocks and one indirect block. Directories are files that hold text. A single-node
  daemon answers the requests of the kernel with these operations. In the distributed version a metadata server keeps names and
  block maps (with an optional redo log on the device), data servers keep blocks with versions, a client library calls
  both over an RPC client that can be told to lose calls, and a second daemon answers the kernel through the client. Map
  reduce runs word counts on the distributed files: a sequential job, and a coordinator with workers. The Raft library replicates a
  list state machine; a node keeps its term, vote, log and snapshot on its own block device, and runs its calls on a pool of threads.

  \<^bold>\<open>Theories, in the order of the program.\<close> Paths are below \<open>src/chfs/src\<close>, headers below its \<open>include\<close>.

  \<^item> \<open>Chfs_Prelude\<close>: results and error codes (\<open>common/result.h\<close>, \<open>common/error_code.h\<close>), assertions, byte buffers, little-endian
    numbers, wrap-around of 32 and 64 bits, the shared simplification collections, and the locales that several components use.
  \<^item> \<open>Util\<close>: the block arithmetic of \<open>common/util.h\<close> on 32-bit words.
  \<^item> \<open>Bitmap\<close>: \<open>common/bitmap.h\<close>, with the search by 64-bit words proved equal to a linear search.
  \<^item> \<open>Block_Manager\<close>: \<open>block/manager.h\<close>, \<open>block/manager.cc\<close>: the device as a byte array with the injected failure of writes, and the
    block iterator.
  \<^item> \<open>Block_Allocator\<close>: \<open>block/allocator.h\<close>, \<open>block/allocator.cc\<close>, refined to a set of used blocks.
  \<^item> \<open>Inode\<close>, \<open>Inode_Manager\<close>: \<open>metadata/\<close>: the packed layout of inodes and super block as exact codecs, every operation on an
    inode, the table and the bitmap, refined to a map of inode numbers.
  \<^item> \<open>File_Operations\<close>: \<open>filesystem/control_op.cc\<close>, \<open>filesystem/data_op.cc\<close>. \<open>File_Correct\<close> follows the loops of \<open>write_file\<close> and \<open>read_file\<close>
    through direct and indirect blocks; \<open>File_System\<close> states the invariant of the device and the refinement to a map from inode
    numbers to contents; \<open>File_Lifecycle\<close> covers formatting, mounting, creating and removing; \<open>File_Properties\<close> holds the results.
  \<^item> \<open>Directory\<close>: \<open>filesystem/directory_op.cc\<close>: the text format, lookup, creation and removal of names.
  \<^item> \<open>Data_Server\<close>: \<open>distributed/dataserver.cc\<close>: versions, reading, writing, allocation.
  \<^item> \<open>Commit_Log\<close>, \<open>Commit_Log_Correct\<close>: \<open>distributed/commit_log.cc\<close>, with the bytes of the log, checkpoints and recovery.
  \<^item> \<open>Rpc\<close>: \<open>librpc/client.h\<close>: calls that may lose the request or the answer.
  \<^item> \<open>Metadata_Server\<close>, \<open>Metadata_Correct\<close>: \<open>distributed/metadata_server.cc\<close>: all handlers with and without the log.
  \<^item> \<open>Chfs_Client\<close>: \<open>distributed/client.cc\<close>.
  \<^item> \<open>Fuse_Daemon\<close>: the callbacks of \<open>daemons/single_node_fs/main.cc\<close>; \<open>Fuse_Correct\<close>: the tree of names as an invariant of every
    callback; \<open>Fuse_Session\<close>: sessions as an inductive predicate, and what a user of the mounted file system sees.
  \<^item> \<open>Fuse_Distributed\<close>: the callbacks of \<open>daemons/distributed/main.cc\<close>, compared with those of the single-node daemon.
  \<^item> \<open>List_State_Machine\<close>: \<open>rsm/list_state_machine.h\<close>; \<open>Raft_Log\<close>: \<open>rsm/raft/log.h\<close>, the storage of a node.
  \<^item> \<open>Raft_Node\<close>: \<open>rsm/raft/protocol.h\<close> and \<open>rsm/raft/node.h\<close>: every handler, every handler of an answer and one round of every
    background worker. \<open>Raft_Correct\<close>: the invariant of a node for each; \<open>Raft_Steps\<close>: runs of one node as a step relation; \<open>Raft_Election\<close>: runs of a
    cluster with messages that are lost, repeated and reordered, and restarts; \<open>Raft_Properties\<close>: the results.
  \<^item> \<open>Thread_Pool\<close>: \<open>utils/thread_pool.h\<close> as a state machine over every schedule of its threads.
  \<^item> \<open>Map_Reduce\<close>: \<open>map_reduce/\<close>; \<open>Map_Reduce_Correct\<close>: parsing, sorting and grouping; \<open>Map_Reduce_Job\<close>: the tasks of a job against the sequential
    job; \<open>Map_Reduce_Coordinator\<close>: interleavings of workers.

  \<^bold>\<open>State and operations.\<close> A class is a record and a method a function that returns its result with the new state, in the option
  monad: \<open>None\<close> is a crash (a failed assertion, an access out of range, a null pointer, \<open>UNIMPLEMENTED\<close>, a wait that cannot end), and
  \<open>Ok\<close> and \<open>Err\<close> are the results of \<open>ChfsResult\<close>. Objects that share the device keep one copy of it, in \<open>fo_bm\<close> of the file system. Integers
  are naturals with the wrap-around of their width written out, or words (bytes, the block arithmetic). Times, random numbers, lost calls and the
  order of threads are arguments or steps, so the theorems hold for all of them.

  \<^bold>\<open>Interfaces.\<close> The locale \<open>codec\<close> is interpreted for numbers, inode types, inodes, the super block and directory text; \<open>number_source\<close> and
  \<open>resource_pool\<close>, which extends it, for inodes and blocks; \<open>block_store\<close> for the device; \<open>file_store\<close> for files as a map; \<open>versioned_blocks\<close> for a data
  server; \<open>redo_log\<close> for the commit log; \<open>persistent_store\<close> for the storage of a Raft node; \<open>key_sort\<close> for the sort of the sequential job
  and for a stable sort in the place of \<open>std::sort\<close>.

  \<^bold>\<open>What is shown.\<close> For the file system: every operation keeps the invariant; writing, reading, resizing and removing act on a map from numbers to
  contents and nothing else; writing succeeds when there is room; a device can be mounted again in every reachable state. For
  sessions of the daemon: every valid request is answered, names stay a tree, types are stable, a read returns what was written. For the
  distributed file system: the client reads back what it wrote across data servers, stale versions are refused, block maps grow by allocation, which ends
  exactly if a server has room, the redo log recovers every appended state, and the two daemons agree on names up to their error codes. For Raft: the invariant of a node, recovery after a crash, commits only with a majority,
  replication of the suffix, and at most one leader per term under two stated conditions on the answers that are counted, where a run with two
  leaders shows that the one on votes is needed. For map reduce: the distributed job writes what the sequential job does, in the right order of stages, and can always finish. For the
  thread pool: its destructor ends and no task is lost. Several theorems show where the code fails: a file with an indirect block cannot be removed, a
  checkpoint drops the running transaction, versions from 32 on are truncated, removing a remote file frees local blocks, a late request removes committed entries.

  \<^bold>\<open>Bounds and fuel.\<close> Loops over blocks, entries and files are structural or have a measure. The retries of \<open>allocate_block\<close> take one random draw each
  from a list; one round over the servers is shown to be enough when a server has room. A worker of map reduce takes a list of rounds; one
  round for every open task is shown to be enough. The steps of the thread pool are bounded by twice the number of waiting tasks and threads. Searches by words are shown to agree with the
  search by bits.

  \<^bold>\<open>Not modelled.\<close> The RPC server (\<open>librpc/server.cc\<close>) only forwards to rpclib, and its handlers are modelled with their servers. Mounting, option parsing and the event loop of the daemons belong to libfuse, and \<open>data.cc\<close> and \<open>meta.cc\<close> only construct a server. The locks of
  the servers are left out, as handlers run one at a time. Serialisation by msgpack, rpclib, libfuse and the host's files are third-party and parameters
  where results depend on them. \<open>__modified_inode.h\<close> and \<open>__original_inode.h\<close> are copies that no file includes. Tests, stress tests, vendored and generated files are no part of the program.
\<close>

end
